(* ===== verification/Upcie_Prelude.thy ===== *)
theory Upcie_Prelude
  imports Main "HOL-Library.Word" "HOL-Library.Monad_Syntax"
begin

unbundle bit_operations_syntax

text \<open>
  The prelude of the development: the machine types of the C code, the errno values, the
  conventions by which C outcomes become values, and the lemmas on words, options and lists
  that the component theories share.

  Conventions.
  \<^item> \<open>uintN_t\<close> and \<open>size_t\<close> are words of their width, so sums, products and shifts wrap as
    they do in C; a C \<open>int\<close> that holds a return code or a configuration value is an \<open>int\<close>,
    converted by \<open>size_of_int\<close> where the code mixes it with a \<open>size_t\<close>.
  \<^item> A function that may stop the program (a failing \<open>assert\<close>) or whose behaviour C leaves
    undefined (an access outside an array, a division by zero, a use after free) has an
    option type: \<open>None\<close> is that outcome, \<open>Some\<close> a normal return.
  \<^item> A return code is the number the code returns, sign included; \<open>NULL\<close> with \<open>errno\<close> set
    is \<open>Inl\<close> of that errno, a pointer is \<open>Inr\<close> of its address.
\<close>

section \<open>Types and error numbers\<close>

type_synonym u8 = "8 word"
type_synonym u16 = "16 word"
type_synonym u32 = "32 word"
type_synonym u64 = "64 word"

abbreviation ENOENT :: int where "ENOENT \<equiv> 2"
abbreviation EIO :: int where "EIO \<equiv> 5"
abbreviation EAGAIN :: int where "EAGAIN \<equiv> 11"
abbreviation ENOMEM :: int where "ENOMEM \<equiv> 12"
abbreviation EBUSY :: int where "EBUSY \<equiv> 16"
abbreviation ENODEV :: int where "ENODEV \<equiv> 19"
abbreviation EINVAL :: int where "EINVAL \<equiv> 22"
abbreviation EOPNOTSUPP :: int where "EOPNOTSUPP \<equiv> 95"
abbreviation ENOTSUP :: int where "ENOTSUP \<equiv> 95"
abbreviation ETIMEDOUT :: int where "ETIMEDOUT \<equiv> 110"

text \<open>The conversion of a C \<open>int\<close> to \<open>size_t\<close> or \<open>uint64_t\<close>.\<close>

definition size_of_int :: "int \<Rightarrow> u64" where
  "size_of_int i = word_of_int i"

definition SIZE_MAX :: u64 where
  "SIZE_MAX = - 1"

text \<open>Array access as C has it: an index outside the array is undefined.\<close>

definition array_get :: "'a list \<Rightarrow> nat \<Rightarrow> 'a option" where
  "array_get xs i = (if i < length xs then Some (xs ! i) else None)"

definition array_set :: "'a list \<Rightarrow> nat \<Rightarrow> 'a \<Rightarrow> 'a list option" where
  "array_set xs i x = (if i < length xs then Some (xs[i := x]) else None)"

text \<open>
  An \<open>assert\<close>: a debug build (\<open>dbg\<close>) stops when it fails, a build with \<open>NDEBUG\<close> does not
  evaluate it. Functions that assert take the kind of build as a parameter.
\<close>

definition c_assert :: "bool \<Rightarrow> bool \<Rightarrow> unit option" where
  "c_assert dbg b = (if dbg \<and> \<not> b then None else Some ())"

text \<open>A counted loop whose body may fail.\<close>

fun for_each :: "('i \<Rightarrow> 's \<Rightarrow> 's option) \<Rightarrow> 'i list \<Rightarrow> 's \<Rightarrow> 's option" where
  "for_each body [] s = Some s"
| "for_each body (i # is) s = do { s' \<leftarrow> body i s; for_each body is s' }"

section \<open>Collections of facts\<close>

named_theorems outcome_simps \<open>how the outcome conventions evaluate\<close>
named_theorems unat_simps \<open>word operations read as natural numbers where they do not wrap\<close>
named_theorems wf_intros \<open>operations keep their component's invariant\<close>

section \<open>Outcomes\<close>

lemma array_get_Some_iff [outcome_simps]:
  "array_get xs i = Some x \<longleftrightarrow> i < length xs \<and> x = xs ! i"
  by (auto simp: array_get_def)

lemma array_get_None_iff [outcome_simps]: "array_get xs i = None \<longleftrightarrow> length xs \<le> i"
  by (auto simp: array_get_def)

lemma array_set_Some_iff [outcome_simps]:
  "array_set xs i x = Some ys \<longleftrightarrow> i < length xs \<and> ys = xs[i := x]"
  by (auto simp: array_set_def)

lemma array_set_None_iff [outcome_simps]: "array_set xs i x = None \<longleftrightarrow> length xs \<le> i"
  by (auto simp: array_set_def)

lemma array_get_in [simp]: "i < length xs \<Longrightarrow> array_get xs i = Some (xs ! i)"
  by (simp add: array_get_def)

lemma array_set_in [simp]: "i < length xs \<Longrightarrow> array_set xs i x = Some (xs[i := x])"
  by (simp add: array_set_def)

lemma c_assert_Some_iff [outcome_simps]: "c_assert dbg b = Some u \<longleftrightarrow> (dbg \<longrightarrow> b)"
  by (simp add: c_assert_def)

lemma c_assert_True [simp]: "c_assert dbg True = Some ()"
  by (simp add: c_assert_def)

lemma c_assert_release [simp]: "c_assert False b = Some ()"
  by (simp add: c_assert_def)

lemma c_assert_debug [simp]: "c_assert True b = (if b then Some () else None)"
  by (simp add: c_assert_def)

section \<open>Words as natural numbers\<close>

lemma size_of_int_numeral [simp]: "size_of_int (numeral n) = numeral n"
  by (simp add: size_of_int_def)

lemma unat_size_of_int:
  assumes "0 \<le> i" "i < 2 ^ 64"
  shows "unat (size_of_int i) = nat i"
  using assms by (simp add: size_of_int_def unat_eq_nat_uint uint_word_of_int)

lemma unat_u64_bound: "unat (x :: u64) < 2 ^ 64"
  using unsigned_less [of x] by simp

lemma unat_u16_bound: "unat (x :: u16) < 2 ^ 16"
  using unsigned_less [of x] by simp

lemma unat_u32_bound: "unat (x :: u32) < 2 ^ 32"
  using unsigned_less [of x] by simp

lemma unat_add_u64:
  "unat (a :: u64) + unat b < 2 ^ 64 \<Longrightarrow> unat (a + b) = unat a + unat b"
  by (simp add: unat_word_ariths)

lemma unat_mult_u64:
  "unat (a :: u64) * unat b < 2 ^ 64 \<Longrightarrow> unat (a * b) = unat a * unat b"
  by (simp add: unat_word_ariths)

lemma unat_suc_u64: "unat (i :: u64) < unat (n :: u64) \<Longrightarrow> unat (i + 1) = unat i + 1"
  using unat_u64_bound [of n] unat_add_u64 [of i 1] by simp

lemma unat_sub_u64: "unat (b :: u64) \<le> unat a \<Longrightarrow> unat (a - b) = unat a - unat b"
  by (simp add: unat_sub word_le_nat_alt)

lemma unat_add_wrap: "unat ((a :: u64) + b) = (unat a + unat b) mod 2 ^ 64"
  by (simp add: unat_word_ariths)

lemma u64_eq_iff: "(a :: u64) = b \<longleftrightarrow> unat a = unat b"
  by (simp add: word_unat_eq_iff)

lemma u64_eqI: "unat (a :: u64) = unat b \<Longrightarrow> a = b"
  by (simp add: word_unat_eq_iff)

lemma unat_of_nat_u64: "n < 2 ^ 64 \<Longrightarrow> unat (of_nat n :: u64) = n"
  by (simp add: unat_of_nat take_bit_eq_mod)

lemma unat_mod_back: "unat (of_nat (unat (a :: u64) mod m) :: u64) = unat a mod m"
  by (rule unat_of_nat_u64) (rule le_less_trans [OF mod_less_eq_dividend unat_u64_bound])

lemmas u64_order = word_le_nat_alt word_less_nat_alt
lemmas u64_nat = unat_add_u64 unat_sub_u64 unat_mult_u64 unat_div unat_mod

text \<open>Masks and shifts by a power of two.\<close>

lemma unat_and_mask: "unat ((x :: u64) AND (2 ^ k - 1)) = unat x mod 2 ^ k"
proof -
  have "x AND (2 ^ k - 1) = take_bit k x"
    by (simp only: take_bit_eq_mask mask_eq_exp_minus_1)
  then have "unat (x AND (2 ^ k - 1)) = take_bit k (unat x)"
    by (simp only: unsigned_take_bit_eq)
  then show ?thesis by (simp only: take_bit_eq_mod)
qed

lemma unat_drop_bit_u64: "unat (drop_bit k (x :: u64)) = unat x div 2 ^ k"
proof -
  have "take_bit LENGTH(64) (unat x) = unat x"
    by (rule take_bit_nat_eq_self) (use unat_u64_bound [of x] in simp)
  then have "unat (drop_bit k x) = drop_bit k (unat x)"
    by (simp only: unsigned_drop_bit_eq)
  then show ?thesis by (simp only: drop_bit_eq_div)
qed

lemma bit_unat_u64: "bit (x :: u64) n = bit (unat x) n"
  by (simp add: bit_unsigned_iff)

section \<open>Addresses and pages\<close>

text \<open>Addresses of a heap that does not wrap around the address space.\<close>

lemma addr_eq_iff:
  assumes "unat (v :: u64) + S < 2 ^ 64" "x \<le> S" "y \<le> S"
  shows "v + of_nat x = v + of_nat y \<longleftrightarrow> x = y"
proof -
  have "unat (v + of_nat z) = unat v + z" if "z \<le> S" for z
    using that assms(1) by (simp add: unat_add_u64 unat_of_nat_u64)
  with assms show ?thesis by (metis add_left_cancel)
qed

lemma unat_addr:
  assumes "unat (v :: u64) + S < 2 ^ 64" "x \<le> S"
  shows "unat (v + of_nat x) = unat v + x"
  using assms by (simp add: unat_add_u64 unat_of_nat_u64)

lemma addr_nonzero:
  assumes "unat (v :: u64) + S < 2 ^ 64" "0 < unat v" "x \<le> S"
  shows "v + of_nat x \<noteq> 0"
  using unat_addr [OF assms(1,3)] assms(2) by auto

text \<open>
  The address space assumption of every refinement: the heap of \<open>S\<close> bytes at \<open>v\<close> ends before
  the end of the address space and does not start at address 0.
\<close>

definition space_ok :: "u64 \<Rightarrow> nat \<Rightarrow> bool" where
  "space_ok v S \<longleftrightarrow> 0 < unat v \<and> unat v + S < 2 ^ 64"

lemma space_ok_addr:
  assumes "space_ok v S" "x \<le> S"
  shows "unat (v + of_nat x) = unat v + x" "v + of_nat x \<noteq> 0"
  using assms unat_addr [of v S x] addr_nonzero [of v S x] by (simp_all add: space_ok_def)

lemma space_ok_eq:
  "space_ok v S \<Longrightarrow> x \<le> S \<Longrightarrow> y \<le> S \<Longrightarrow> v + of_nat x = v + of_nat y \<longleftrightarrow> x = y"
  using addr_eq_iff [of v S x y] by (simp add: space_ok_def)

text \<open>The size that an allocation reserves: whole pages.\<close>

definition page_round :: "nat \<Rightarrow> nat \<Rightarrow> nat" where
  "page_round p n = (n + p - 1) div p * p"

lemma page_round_ge: "0 < p \<Longrightarrow> n \<le> page_round p n"
  using div_mult_mod_eq [of "n + p - 1" p] mod_less_divisor [of p "n + p - 1"]
  unfolding page_round_def by linarith

lemma unat_two_power: "k < 64 \<Longrightarrow> unat (2 ^ k :: u64) = 2 ^ k"
proof -
  assume k: "k < 64"
  then have "(2 :: nat) ^ k < 2 ^ 64" by (rule power_strict_increasing) simp
  then have "unat (of_nat (2 ^ k) :: u64) = 2 ^ k" by (rule unat_of_nat_u64)
  then show ?thesis by simp
qed

lemma unat_round_down:
  "unat ((x :: u64) AND NOT (2 ^ k - 1)) = unat x div 2 ^ k * 2 ^ k"
proof -
  have "x - (x AND mask k) = x AND NOT (mask k)"
    by (subst disjunctive_diff)
      (auto intro!: bit_eqI simp: bit_simps)
  moreover have "unat (x AND mask k) = unat x mod 2 ^ k"
    using unat_and_mask [of x k] by (simp add: mask_eq_exp_minus_1)
  ultimately have "unat (x AND NOT (mask k)) = unat x - unat x mod 2 ^ k"
    using unat_sub_u64 [of "x AND mask k" x] by simp
  then have "unat (x AND NOT (2 ^ k - 1)) = unat x - unat x mod 2 ^ k"
    by (simp only: mask_eq_exp_minus_1)
  then show ?thesis by (simp add: minus_mod_eq_div_mult)
qed

lemma unat_round_mask: "unat (x AND size_of_int (NOT (2 ^ k - 1))) = unat x div 2 ^ k * 2 ^ k"
proof -
  have "size_of_int (NOT (2 ^ k - 1)) = NOT (2 ^ k - 1)"
    by (simp add: size_of_int_def of_int_not_eq)
  then show ?thesis by (simp only: unat_round_down)
qed

text \<open>Rounding up to whole pages, as the heaps do it on \<open>size_t\<close>.\<close>

lemma unat_plus_page:
  assumes "unat n + 2 ^ k \<le> 2 ^ 64" "k < 64"
  shows "unat ((n :: u64) + 2 ^ k - 1) = unat n + 2 ^ k - 1"
proof -
  have e: "n + 2 ^ k - 1 = n + (2 ^ k - 1)" by simp
  have m: "unat ((2 :: u64) ^ k - 1) = 2 ^ k - 1"
    using unat_sub_u64 [of 1 "2 ^ k"] unat_two_power [OF assms(2)] by simp
  have "unat n + (2 ^ k - 1) < 2 ^ 64" using assms(1) by (simp add: less_le_trans)
  then have "unat (n + (2 ^ k - 1)) = unat n + (2 ^ k - 1)" using unat_add_u64 [of n "2 ^ k - 1"] unfolding m by blast
  then show ?thesis unfolding e by simp
qed

section \<open>Lists\<close>

lemma nth_update_cases: "i < length xs \<Longrightarrow> xs[i := x] ! j = (if j = i then x else xs ! j)"
  by (cases "j < length xs") (auto simp: nth_list_update)

text \<open>A loop that gives every entry of a table its own value.\<close>

lemma for_each_table:
  assumes "\<And>i xs. i < n \<Longrightarrow> length xs = n \<Longrightarrow> body i xs = Some (xs[i := g i (xs ! i)])"
    and "length xs = n"
  shows "k \<le> n \<Longrightarrow> for_each body [k..<n] xs =
    Some (take k xs @ map (\<lambda>i. g i (xs ! i)) [k..<n])"
  using assms(2)
proof (induction "n - k" arbitrary: k xs)
  case 0
  then show ?case by simp
next
  case (Suc d)
  then have k: "k < n" by linarith
  have "for_each body [Suc k..<n] (xs[k := g k (xs ! k)]) =
      Some (take (Suc k) (xs[k := g k (xs ! k)]) @ map (\<lambda>i. g i (xs[k := g k (xs ! k)] ! i)) [Suc k..<n])"
    by (rule Suc.hyps(1)) (use Suc k in auto)
  moreover have "map (\<lambda>i. g i (xs[k := g k (xs ! k)] ! i)) [Suc k..<n] = map (\<lambda>i. g i (xs ! i)) [Suc k..<n]"
    by (rule map_cong) auto
  ultimately show ?case
    using k Suc.prems(2) assms(1) [OF k Suc.prems(2)]
    by (simp add: upt_conv_Cons take_Suc_conv_app_nth)
qed

end
