(* ===== verification/Bitfield.thy ===== *)
theory Bitfield
  imports Upcie_Prelude
begin

unbundle bit_operations_syntax

text \<open>
  The bitfield helpers of \<open>include/upcie/bitfield.h\<close> on 64-bit values. The offset and the
  width are \<open>uint8_t\<close>. C leaves a shift by 64 or more undefined; every lemma about a field is
  stated for \<open>offset + width \<le> 64\<close>, where no such shift happens.
\<close>

section \<open>The operations\<close>

definition bitfield_mask :: "u8 \<Rightarrow> u8 \<Rightarrow> u64" where
  "bitfield_mask offset width =
     (if width = 64 then NOT 0
      else push_bit (unat offset) (push_bit (unat width) 1 - 1))"

definition bitfield_get :: "u64 \<Rightarrow> u8 \<Rightarrow> u8 \<Rightarrow> u64" where
  "bitfield_get val offset width =
     drop_bit (unat offset) (val AND bitfield_mask offset width)"

definition bitfield_set :: "u64 \<Rightarrow> u8 \<Rightarrow> u8 \<Rightarrow> u64 \<Rightarrow> u64" where
  "bitfield_set val offset width field =
     (val AND NOT (bitfield_mask offset width)) OR
     (push_bit (unat offset) field AND bitfield_mask offset width)"

section \<open>Reading the operations bit by bit\<close>

text \<open>A field lies inside the 64-bit value.\<close>

definition field_ok :: "u8 \<Rightarrow> u8 \<Rightarrow> bool" where
  "field_ok offset width \<longleftrightarrow> unat offset + unat width \<le> 64"

lemma bit_bitfield_mask:
  assumes "field_ok offset width"
  shows "bit (bitfield_mask offset width) n \<longleftrightarrow>
    unat offset \<le> n \<and> n < unat offset + unat width"
proof (cases "width = 64")
  case True
  with assms have "unat offset = 0" by (simp add: field_ok_def)
  with True show ?thesis by (simp add: bitfield_mask_def bit_simps)
next
  case False
  have m: "push_bit k 1 - 1 = (mask k :: u64)" for k
    by (simp add: mask_eq_exp_minus_1)
  show ?thesis
    using assms False unfolding bitfield_mask_def m
    by (auto simp: bit_simps field_ok_def)
qed

lemma bit_bitfield_get:
  assumes "field_ok offset width"
  shows "bit (bitfield_get val offset width) n \<longleftrightarrow>
    n < unat width \<and> bit val (unat offset + n)"
  using assms by (auto simp: bitfield_get_def bit_simps bit_bitfield_mask)

lemma bit_bitfield_set:
  assumes "field_ok offset width"
  shows "bit (bitfield_set val offset width field) n \<longleftrightarrow>
    (if unat offset \<le> n \<and> n < unat offset + unat width then bit field (n - unat offset)
     else bit val n)"
proof -
  have "n < 64" if "bit val n" using bit_imp_le_length [OF that] by simp
  then show ?thesis
    using assms by (auto simp: bitfield_set_def bit_simps bit_bitfield_mask field_ok_def)
qed

section \<open>Laws of fields\<close>

text \<open>a field that was written reads back as the value written, cut to its width.\<close>

theorem bitfield_get_set_same:
  assumes "field_ok offset width"
  shows "bitfield_get (bitfield_set val offset width field) offset width
    = take_bit (unat width) field"
  by (rule bit_eqI) (use assms in \<open>auto simp: bit_simps bit_bitfield_get bit_bitfield_set\<close>)

theorem bitfield_get_set_same_witness:
  "bitfield_get (bitfield_set 0xFF00 4 4 0x1A) 4 4 = (0xA :: u64)"
proof -
  have ok: "field_ok 4 4" by (simp add: field_ok_def)
  show ?thesis
    by (simp add: bitfield_get_set_same [OF ok])
qed

text \<open>writing one field leaves every field that does not overlap it as it was.\<close>

theorem bitfield_get_set_other:
  assumes "field_ok offset width" "field_ok offset' width'"
    and "unat offset + unat width \<le> unat offset' \<or> unat offset' + unat width' \<le> unat offset"
  shows "bitfield_get (bitfield_set val offset width field) offset' width'
    = bitfield_get val offset' width'"
  by (rule bit_eqI) (use assms in \<open>auto simp: bit_bitfield_get bit_bitfield_set\<close>)

theorem bitfield_get_set_other_witness:
  "bitfield_get (bitfield_set 0xAB 8 8 0xFF) 0 4 = (0xB :: u64)"
proof -
  have "bitfield_get (bitfield_set 0xAB 8 8 0xFF) 0 4 = bitfield_get 0xAB 0 4"
    by (rule bitfield_get_set_other) (simp_all add: field_ok_def)
  then show ?thesis by (simp add: bitfield_get_def bitfield_mask_def)
qed

lemma bitfield_get_bound:
  assumes "field_ok offset width" "unat width < 64"
  shows "unat (bitfield_get val offset width) < 2 ^ unat width"
proof -
  have "take_bit (unat width) (bitfield_get val offset width) = bitfield_get val offset width"
    by (rule bit_eqI) (use assms in \<open>auto simp: bit_simps bit_bitfield_get\<close>)
  then show ?thesis
    by (metis take_bit_nat_less_exp unsigned_take_bit_eq)
qed

lemma bitfield_get_Suc_set:
  assumes "field_ok offset width" "take_bit (unat width) field = field"
  shows "bitfield_get (bitfield_set val offset width field) offset width = field"
  using assms by (simp add: bitfield_get_set_same)

end
