(* ===== verification/Mmio.thy ===== *)
theory Mmio
  imports Upcie_Prelude
begin

unbundle bit_operations_syntax

text \<open>
  The MMIO accessors of \<open>include/upcie/mmio.h\<close> and the hardware they act on.

  The device behind BAR0 and the DMA memory it shares with the host are not code of the
  repository: they are a state \<open>'d\<close> and a record \<open>'d hw\<close> of what the host can do to it, a
  parameter of every definition that touches hardware. A load may change the device (a
  register with read side effects, a device that makes progress) and two loads of one
  register may differ. An address is an offset from the start of BAR0.
\<close>

section \<open>The hardware parameter\<close>

record 'd hw =
  hw_read32 :: "'d \<Rightarrow> u32 \<Rightarrow> u32 \<times> 'd"    \<comment> \<open>a 32-bit load at a BAR0 offset\<close>
  hw_write32 :: "'d \<Rightarrow> u32 \<Rightarrow> u32 \<Rightarrow> 'd"    \<comment> \<open>a 32-bit store at a BAR0 offset\<close>
  hw_usleep :: "'d \<Rightarrow> nat \<Rightarrow> 'd"            \<comment> \<open>the device runs while the host sleeps\<close>

section \<open>Accessors\<close>

definition mmio_read32 :: "('d, 'x) hw_scheme \<Rightarrow> 'd \<Rightarrow> u32 \<Rightarrow> u32 \<times> 'd" where
  "mmio_read32 hw d offset = hw_read32 hw d offset"

definition mmio_write32 :: "('d, 'x) hw_scheme \<Rightarrow> 'd \<Rightarrow> u32 \<Rightarrow> u32 \<Rightarrow> 'd" where
  "mmio_write32 hw d offset val = hw_write32 hw d offset val"

definition mmio_read64 :: "('d, 'x) hw_scheme \<Rightarrow> 'd \<Rightarrow> u32 \<Rightarrow> u64 \<times> 'd" where
  "mmio_read64 hw d offset =
     (let (lo, d1) = mmio_read32 hw d (offset + 0);
          (hi, d2) = mmio_read32 hw d1 (offset + 4)
      in (push_bit 32 (ucast hi) OR ucast lo, d2))"

definition mmio_write64 :: "('d, 'x) hw_scheme \<Rightarrow> 'd \<Rightarrow> u32 \<Rightarrow> u64 \<Rightarrow> 'd" where
  "mmio_write64 hw d offset val =
     (let d1 = mmio_write32 hw d (offset + 0) (ucast (val AND 0xFFFFFFFF))
      in mmio_write32 hw d1 (offset + 4) (ucast (drop_bit 32 val)))"

section \<open>A device that stores what is written\<close>

text \<open>
  Two words of a 64-bit value, joined again: the halves \<open>mmio_write64\<close> stores are the halves
  \<open>mmio_read64\<close> joins.
\<close>

lemma join_halves:
  "push_bit 32 (ucast (ucast (drop_bit 32 v) :: u32)) OR
   ucast (ucast (v AND 0xFFFFFFFF) :: u32) = (v :: u64)"
proof (rule bit_word_eqI)
  fix n assume n: "n < LENGTH(64)"
  have m: "(0xFFFFFFFF :: u64) = mask 32" by (simp add: mask_eq_exp_minus_1)
  show "bit (push_bit 32 (ucast (ucast (drop_bit 32 v) :: u32)) OR
      ucast (ucast (v AND 0xFFFFFFFF) :: u32) :: u64) n = bit v n"
    using n unfolding m by (auto simp: bit_simps not_less)
qed

text \<open>
  What plain (side-effect free) registers do: a load returns the last value stored there and
  leaves the device alone, and a store changes no other register.
\<close>

definition plain_registers :: "('d, 'x) hw_scheme \<Rightarrow> bool" where
  "plain_registers hw \<longleftrightarrow>
     (\<forall>d a. snd (hw_read32 hw d a) = d) \<and>
     (\<forall>d a b v. fst (hw_read32 hw (hw_write32 hw d a v) b)
        = (if b = a then v else fst (hw_read32 hw d b)))"

text \<open>The register memory that shows that such a device exists.\<close>

definition memory_hw :: "(u32 \<Rightarrow> u32) hw" where
  "memory_hw = \<lparr>hw_read32 = (\<lambda>d a. (d a, d)), hw_write32 = (\<lambda>d a v. d(a := v)),
     hw_usleep = (\<lambda>d _. d)\<rparr>"

lemma memory_hw_plain: "plain_registers memory_hw"
  by (simp add: plain_registers_def memory_hw_def)

text \<open>on plain registers a 64-bit value written in two halves reads back as it was written,
  and no register outside the two halves changes.\<close>

theorem mmio_write64_read64:
  assumes "plain_registers hw"
  shows "fst (mmio_read64 hw (mmio_write64 hw d offset v) offset) = v \<and>
    (\<forall>b. b \<noteq> offset \<and> b \<noteq> offset + 4 \<longrightarrow>
       fst (mmio_read32 hw (mmio_write64 hw d offset v) b) = fst (mmio_read32 hw d b))"
proof -
  have ne: "offset + 4 \<noteq> (offset :: u32)" by simp
  from assms have pure: "snd (hw_read32 hw e a) = e" for e a
    by (simp add: plain_registers_def)
  from assms have rw: "fst (hw_read32 hw (hw_write32 hw e a w) b)
      = (if b = a then w else fst (hw_read32 hw e b))" for e a b w
    by (simp add: plain_registers_def)
  show ?thesis
    by (simp add: mmio_read64_def mmio_write64_def mmio_read32_def mmio_write32_def
        case_prod_beta Let_def pure rw ne ne [symmetric] join_halves)
qed

theorem mmio_write64_read64_witness:
  "fst (mmio_read64 memory_hw (mmio_write64 memory_hw (\<lambda>_. 0) 0x28 0x1122334455667788) 0x28)
    = 0x1122334455667788"
  using mmio_write64_read64 [OF memory_hw_plain, of "\<lambda>_. 0" "0x28" "0x1122334455667788"]
  by blast

end
