(* ===== verification/Nvme_Regs.thy ===== *)
theory Nvme_Regs
  imports Bitfield Mmio
begin

unbundle bit_operations_syntax

text \<open>
  The NVMe controller registers of \<open>include/upcie/nvme/nvme_mmio.h\<close>: the field accessors of
  CAP and CC, the admin-queue setup, and the loops that poll CSTS.RDY.

  A getter returns a \<open>uint8_t\<close> or \<open>uint16_t\<close>, so the field is cut to that width; a setter
  works on the 64-bit value of the 32-bit register and cuts the result back.
\<close>

section \<open>Register offsets\<close>

definition NVME_REG_CAP :: u32 where "NVME_REG_CAP = 0x00"
definition NVME_REG_CC :: u32 where "NVME_REG_CC = 0x14"
definition NVME_REG_CSTS :: u32 where "NVME_REG_CSTS = 0x1C"
definition NVME_REG_AQA :: u32 where "NVME_REG_AQA = 0x24"
definition NVME_REG_ASQ :: u32 where "NVME_REG_ASQ = 0x28"
definition NVME_REG_ACQ :: u32 where "NVME_REG_ACQ = 0x30"

section \<open>Controller capabilities\<close>

definition nvme_reg_cap_get_mqes :: "u64 \<Rightarrow> u16" where
  "nvme_reg_cap_get_mqes cap = ucast (bitfield_get cap 0 16)"

definition nvme_reg_cap_get_cqr :: "u64 \<Rightarrow> u8" where
  "nvme_reg_cap_get_cqr cap = ucast (bitfield_get cap 16 1)"

definition nvme_reg_cap_get_ams :: "u64 \<Rightarrow> u8" where
  "nvme_reg_cap_get_ams cap = ucast (bitfield_get cap 17 2)"

definition nvme_reg_cap_get_to :: "u64 \<Rightarrow> u8" where
  "nvme_reg_cap_get_to cap = ucast (bitfield_get cap 24 8)"

definition nvme_reg_cap_get_dstrd :: "u64 \<Rightarrow> u8" where
  "nvme_reg_cap_get_dstrd cap = ucast (bitfield_get cap 32 4)"

definition nvme_reg_cap_get_nssrs :: "u64 \<Rightarrow> u8" where
  "nvme_reg_cap_get_nssrs cap = ucast (bitfield_get cap 36 1)"

definition nvme_reg_cap_get_css :: "u64 \<Rightarrow> u8" where
  "nvme_reg_cap_get_css cap = ucast (bitfield_get cap 37 8)"

definition nvme_reg_cap_get_bps :: "u64 \<Rightarrow> u8" where
  "nvme_reg_cap_get_bps cap = ucast (bitfield_get cap 45 1)"

definition nvme_reg_cap_get_cps :: "u64 \<Rightarrow> u8" where
  "nvme_reg_cap_get_cps cap = ucast (bitfield_get cap 46 2)"

definition nvme_reg_cap_get_mpsmin :: "u64 \<Rightarrow> u8" where
  "nvme_reg_cap_get_mpsmin cap = ucast (bitfield_get cap 48 4)"

definition nvme_reg_cap_get_mpsmax :: "u64 \<Rightarrow> u8" where
  "nvme_reg_cap_get_mpsmax cap = ucast (bitfield_get cap 52 4)"

definition nvme_reg_cap_get_pmrs :: "u64 \<Rightarrow> u8" where
  "nvme_reg_cap_get_pmrs cap = ucast (bitfield_get cap 56 1)"

definition nvme_reg_cap_get_cmbs :: "u64 \<Rightarrow> u8" where
  "nvme_reg_cap_get_cmbs cap = ucast (bitfield_get cap 57 1)"

definition nvme_reg_cap_get_nsss :: "u64 \<Rightarrow> u8" where
  "nvme_reg_cap_get_nsss cap = ucast (bitfield_get cap 58 1)"

definition nvme_reg_cap_get_crms :: "u64 \<Rightarrow> u8" where
  "nvme_reg_cap_get_crms cap = ucast (bitfield_get cap 59 2)"

definition nvme_reg_cap_get_nsses :: "u64 \<Rightarrow> u8" where
  "nvme_reg_cap_get_nsses cap = ucast (bitfield_get cap 61 1)"

section \<open>Controller configuration\<close>

definition nvme_reg_cc_get_en :: "u32 \<Rightarrow> u8" where
  "nvme_reg_cc_get_en cc = ucast (bitfield_get (ucast cc) 0 1)"

definition nvme_reg_cc_get_css :: "u32 \<Rightarrow> u8" where
  "nvme_reg_cc_get_css cc = ucast (bitfield_get (ucast cc) 4 4)"

definition nvme_reg_cc_get_mps :: "u32 \<Rightarrow> u8" where
  "nvme_reg_cc_get_mps cc = ucast (bitfield_get (ucast cc) 7 4)"

definition nvme_reg_cc_get_ams :: "u32 \<Rightarrow> u8" where
  "nvme_reg_cc_get_ams cc = ucast (bitfield_get (ucast cc) 11 3)"

definition nvme_reg_cc_get_cqr :: "u32 \<Rightarrow> u8" where
  "nvme_reg_cc_get_cqr cc = ucast (bitfield_get (ucast cc) 16 1)"

definition nvme_reg_cc_get_shn :: "u32 \<Rightarrow> u8" where
  "nvme_reg_cc_get_shn cc = ucast (bitfield_get (ucast cc) 14 2)"

definition nvme_reg_cc_get_iocqes :: "u32 \<Rightarrow> u8" where
  "nvme_reg_cc_get_iocqes cc = ucast (bitfield_get (ucast cc) 20 4)"

definition nvme_reg_cc_get_iosqes :: "u32 \<Rightarrow> u8" where
  "nvme_reg_cc_get_iosqes cc = ucast (bitfield_get (ucast cc) 24 4)"

definition nvme_reg_cc_set_en :: "u32 \<Rightarrow> u8 \<Rightarrow> u32" where
  "nvme_reg_cc_set_en cc val = ucast (bitfield_set (ucast cc) 0 1 (ucast val))"

definition nvme_reg_cc_set_css :: "u32 \<Rightarrow> u8 \<Rightarrow> u32" where
  "nvme_reg_cc_set_css cc val = ucast (bitfield_set (ucast cc) 4 3 (ucast val))"

definition nvme_reg_cc_set_mps :: "u32 \<Rightarrow> u8 \<Rightarrow> u32" where
  "nvme_reg_cc_set_mps cc val = ucast (bitfield_set (ucast cc) 7 4 (ucast val))"

definition nvme_reg_cc_set_ams :: "u32 \<Rightarrow> u8 \<Rightarrow> u32" where
  "nvme_reg_cc_set_ams cc val = ucast (bitfield_set (ucast cc) 11 3 (ucast val))"

definition nvme_reg_cc_set_shn :: "u32 \<Rightarrow> u8 \<Rightarrow> u32" where
  "nvme_reg_cc_set_shn cc val = ucast (bitfield_set (ucast cc) 14 2 (ucast val))"

definition nvme_reg_cc_set_iosqes :: "u32 \<Rightarrow> u8 \<Rightarrow> u32" where
  "nvme_reg_cc_set_iosqes cc val = ucast (bitfield_set (ucast cc) 16 4 (ucast val))"

definition nvme_reg_cc_set_iocqes :: "u32 \<Rightarrow> u8 \<Rightarrow> u32" where
  "nvme_reg_cc_set_iocqes cc val = ucast (bitfield_set (ucast cc) 20 4 (ucast val))"

definition nvme_reg_cc_set_crime :: "u32 \<Rightarrow> u8 \<Rightarrow> u32" where
  "nvme_reg_cc_set_crime cc val = ucast (bitfield_set (ucast cc) 24 1 (ucast val))"

lemmas nvme_reg_cc_get_defs =
nvme_reg_cc_get_en_def nvme_reg_cc_get_css_def nvme_reg_cc_get_mps_def nvme_reg_cc_get_ams_def nvme_reg_cc_get_cqr_def nvme_reg_cc_get_shn_def nvme_reg_cc_get_iocqes_def nvme_reg_cc_get_iosqes_def

lemmas nvme_reg_cc_set_defs =
nvme_reg_cc_set_en_def nvme_reg_cc_set_css_def nvme_reg_cc_set_mps_def nvme_reg_cc_set_ams_def nvme_reg_cc_set_shn_def nvme_reg_cc_set_iosqes_def nvme_reg_cc_set_iocqes_def nvme_reg_cc_set_crime_def

lemmas nvme_reg_cap_get_defs =
nvme_reg_cap_get_mqes_def nvme_reg_cap_get_cqr_def nvme_reg_cap_get_ams_def nvme_reg_cap_get_to_def nvme_reg_cap_get_dstrd_def nvme_reg_cap_get_nssrs_def nvme_reg_cap_get_css_def nvme_reg_cap_get_bps_def nvme_reg_cap_get_cps_def nvme_reg_cap_get_mpsmin_def nvme_reg_cap_get_mpsmax_def nvme_reg_cap_get_pmrs_def nvme_reg_cap_get_cmbs_def nvme_reg_cap_get_nsss_def nvme_reg_cap_get_crms_def nvme_reg_cap_get_nsses_def

section \<open>Fields read bit by bit\<close>

text \<open>Both directions of every CC field go through these two.\<close>

lemma bit_cc_get:
  assumes "field_ok off w" "unat w \<le> 8"
  shows "bit (ucast (bitfield_get (ucast (cc :: u32)) off w) :: u8) n \<longleftrightarrow>
    n < unat w \<and> bit cc (unat off + n)"
  using assms bit_imp_le_length [of cc "unat off + n"]
  by (auto simp: bit_simps bit_bitfield_get)

lemma bit_cc_set:
  assumes "field_ok off w" "unat w \<le> 8"
  shows "bit (ucast (bitfield_set (ucast (cc :: u32)) off w (ucast (v :: u8))) :: u32) n \<longleftrightarrow>
    (if unat off \<le> n \<and> n < unat off + unat w then n < 32 \<and> bit v (n - unat off)
     else bit cc n)"
  using assms bit_imp_le_length [of cc n]
  by (auto simp: bit_simps bit_bitfield_set field_ok_def)

lemma field_ok_numeral:
  "unat off + unat w \<le> 64 \<Longrightarrow> field_ok off w"
  by (simp add: field_ok_def)

text \<open>A field written by a setter and read by a getter at the same place.\<close>

lemma cc_get_set_same:
  assumes "field_ok off w" "unat off + unat w \<le> 32" "unat w \<le> 8"
  shows "(ucast (bitfield_get (ucast (ucast (bitfield_set (ucast (cc :: u32)) off w (ucast (v :: u8))) :: u32))
      off w) :: u8) = take_bit (unat w) v"
  by (rule bit_eqI) (use assms in \<open>auto simp: bit_cc_get bit_cc_set bit_take_bit_iff\<close>)

lemma cc_get_set_other:
  assumes "field_ok off w" "field_ok off' w'" "unat w \<le> 8" "unat w' \<le> 8"
    and "unat off + unat w \<le> unat off' \<or> unat off' + unat w' \<le> unat off"
  shows "(ucast (bitfield_get (ucast (ucast (bitfield_set (ucast (cc :: u32)) off w (ucast (v :: u8))) :: u32))
      off' w') :: u8) = ucast (bitfield_get (ucast cc) off' w')"
  by (rule bit_eqI) (use assms in \<open>auto simp: bit_cc_get bit_cc_set\<close>)

section \<open>Laws of the CC accessors\<close>

text \<open>the CC fields EN, MPS, AMS, SHN and IOCQES read back as they were set, cut to the
  width of the field.\<close>

theorem nvme_reg_cc_roundtrip:
  "nvme_reg_cc_get_en (nvme_reg_cc_set_en cc v) = take_bit 1 v \<and>
   nvme_reg_cc_get_mps (nvme_reg_cc_set_mps cc v) = take_bit 4 v \<and>
   nvme_reg_cc_get_ams (nvme_reg_cc_set_ams cc v) = take_bit 3 v \<and>
   nvme_reg_cc_get_shn (nvme_reg_cc_set_shn cc v) = take_bit 2 v \<and>
   nvme_reg_cc_get_iocqes (nvme_reg_cc_set_iocqes cc v) = take_bit 4 v"
  unfolding nvme_reg_cc_get_defs nvme_reg_cc_set_defs
  by (intro conjI; subst cc_get_set_same; simp add: field_ok_def)

text \<open>setting IOSQES is invisible to the getter of IOSQES: the setter writes bits 16 to 19,
  as its comment and the NVMe specification say, and the getter reads bits 24 to 27. So the
  IOSQES of 6 that the controller setup writes is not what \<open>nvme_reg_cc_get_iosqes\<close> reads.\<close>

theorem nvme_reg_cc_iosqes_mismatch:
  "nvme_reg_cc_get_iosqes (nvme_reg_cc_set_iosqes cc v) = nvme_reg_cc_get_iosqes cc \<and>
   nvme_reg_cc_get_iosqes (nvme_reg_cc_set_iosqes 0 6) = 0"
proof -
  have *: "nvme_reg_cc_get_iosqes (nvme_reg_cc_set_iosqes cc v) = nvme_reg_cc_get_iosqes cc"
    for cc v
    unfolding nvme_reg_cc_get_defs nvme_reg_cc_set_defs
    by (subst cc_get_set_other) (simp_all add: field_ok_def)
  have "nvme_reg_cc_get_iosqes 0 = 0"
    by (simp add: nvme_reg_cc_get_iosqes_def bitfield_get_def)
  with * show ?thesis by simp
qed

text \<open>The getter of CSS reads one bit too many: its top bit is the lowest bit of MPS.\<close>

lemma nvme_reg_cc_css_overlaps_mps:
  "bit (nvme_reg_cc_get_css (nvme_reg_cc_set_mps cc v)) 3 = bit v 0"
  unfolding nvme_reg_cc_get_defs nvme_reg_cc_set_defs
  by (subst bit_cc_get, simp add: field_ok_def, simp, subst bit_cc_set)
    (simp_all add: field_ok_def)

section \<open>Admin queue setup\<close>

definition nvme_mmio_aq_setup ::
  "('d, 'x) hw_scheme \<Rightarrow> 'd \<Rightarrow> u64 \<Rightarrow> u64 \<Rightarrow> u32 \<Rightarrow> 'd" where
  "nvme_mmio_aq_setup hw d asq acq aqsize =
     (let aqa = push_bit 16 (aqsize - 1) OR (aqsize - 1);
          d1 = mmio_write64 hw d NVME_REG_ASQ asq;
          d2 = mmio_write64 hw d1 NVME_REG_ACQ acq
      in mmio_write32 hw d2 NVME_REG_AQA aqa)"

definition nvme_mmio_cc_read :: "('d, 'x) hw_scheme \<Rightarrow> 'd \<Rightarrow> u32 \<times> 'd" where
  "nvme_mmio_cc_read hw d = mmio_read32 hw d NVME_REG_CC"

definition nvme_mmio_cap_read :: "('d, 'x) hw_scheme \<Rightarrow> 'd \<Rightarrow> u64 \<times> 'd" where
  "nvme_mmio_cap_read hw d = mmio_read64 hw d NVME_REG_CAP"

definition nvme_mmio_csts_read :: "('d, 'x) hw_scheme \<Rightarrow> 'd \<Rightarrow> u32 \<times> 'd" where
  "nvme_mmio_csts_read hw d = mmio_read32 hw d NVME_REG_CSTS"

definition nvme_mmio_cc_write :: "('d, 'x) hw_scheme \<Rightarrow> 'd \<Rightarrow> u32 \<Rightarrow> 'd" where
  "nvme_mmio_cc_write hw d cc = mmio_write32 hw d NVME_REG_CC cc"

definition nvme_mmio_cc_enable :: "('d, 'x) hw_scheme \<Rightarrow> 'd \<Rightarrow> 'd" where
  "nvme_mmio_cc_enable hw d =
     (let (cc, d1) = nvme_mmio_cc_read hw d in nvme_mmio_cc_write hw d1 (cc OR 0x1))"

definition nvme_mmio_cc_disable :: "('d, 'x) hw_scheme \<Rightarrow> 'd \<Rightarrow> 'd" where
  "nvme_mmio_cc_disable hw d =
     (let (cc, d1) = nvme_mmio_cc_read hw d in nvme_mmio_cc_write hw d1 (cc AND NOT 0x1))"

lemmas nvme_reg_offset_defs =
  NVME_REG_CAP_def NVME_REG_CC_def NVME_REG_CSTS_def NVME_REG_AQA_def NVME_REG_ASQ_def
  NVME_REG_ACQ_def

lemma plain_read_pure: "plain_registers hw \<Longrightarrow> snd (hw_read32 hw d a) = d"
  by (simp add: plain_registers_def)

lemma plain_read_write:
  "plain_registers hw \<Longrightarrow> fst (hw_read32 hw (hw_write32 hw d a v) b)
    = (if b = a then v else fst (hw_read32 hw d b))"
  by (simp add: plain_registers_def)

lemmas mmio_defs = mmio_read32_def mmio_write32_def mmio_read64_def mmio_write64_def

text \<open>after the admin-queue setup on plain registers, ASQ and ACQ hold the two queue
  addresses and AQA holds the queue size minus one in both its halves.\<close>

theorem nvme_mmio_aq_setup_registers:
  assumes "plain_registers hw" "0 < unat aqsize" "unat aqsize \<le> 4096"
  shows "let d' = nvme_mmio_aq_setup hw d asq acq aqsize;
             aqa = fst (mmio_read32 hw d' NVME_REG_AQA)
         in fst (mmio_read64 hw d' NVME_REG_ASQ) = asq \<and>
            fst (mmio_read64 hw d' NVME_REG_ACQ) = acq \<and>
            unat (take_bit 16 aqa) = unat aqsize - 1 \<and>
            unat (drop_bit 16 aqa) = unat aqsize - 1"
proof -
  let ?n = "aqsize - 1"
  have n: "unat ?n = unat aqsize - 1"
    using assms(2) by (simp add: unat_sub word_le_nat_alt)
  have small: "\<not> bit ?n k" if "12 \<le> k" for k
  proof -
    have "unat ?n < 2 ^ 12" using n assms(3) by simp
    then have "unat ?n < 2 ^ k" using that by (meson less_le_trans one_le_numeral power_increasing)
    then have "take_bit k (unat ?n) = unat ?n" by (rule take_bit_nat_eq_self)
    moreover have "\<not> bit (take_bit k (unat ?n)) k" by (simp add: bit_take_bit_iff)
    ultimately have "\<not> bit (unat ?n) k" by simp
    then show ?thesis by (simp add: bit_unsigned_iff)
  qed
  have lo: "take_bit 16 (push_bit 16 ?n OR ?n) = ?n"
    by (rule bit_eqI) (use small in \<open>auto simp: bit_simps not_less\<close>)
  have hi: "drop_bit 16 (push_bit 16 ?n OR ?n) = ?n"
  proof (rule bit_eqI)
    fix k
    show "bit (drop_bit 16 (push_bit 16 ?n OR ?n)) k = bit ?n k"
      using small [of k] small [of "16 + k"]
      by (cases "k < 12") (auto simp: bit_simps not_less)
  qed
  show ?thesis
    unfolding nvme_mmio_aq_setup_def Let_def
    by (simp add: mmio_defs nvme_reg_offset_defs case_prod_beta Let_def
        plain_read_pure [OF assms(1)] plain_read_write [OF assms(1)] lo hi n join_halves
        del: take_bit_or drop_bit_or)
qed

theorem nvme_mmio_aq_setup_registers_witness:
  "fst (mmio_read64 memory_hw (nvme_mmio_aq_setup memory_hw (\<lambda>_. 0) 0x10000 0x20000 256)
     NVME_REG_ASQ) = 0x10000"
  using nvme_mmio_aq_setup_registers [OF memory_hw_plain, of 256 "\<lambda>_. 0" "0x10000" "0x20000"]
  by (simp add: Let_def)

section \<open>Waiting for CSTS.RDY\<close>

text \<open>
  \<open>nvme_mmio_csts_wait_until_ready\<close> and \<open>_not_ready\<close> poll at most \<open>timeout_ms\<close> times and sleep
  a millisecond after each poll that fails. The two loops differ in the bit they wait for.
\<close>

fun csts_poll :: "('d, 'x) hw_scheme \<Rightarrow> u32 \<Rightarrow> nat \<Rightarrow> 'd \<Rightarrow> int \<times> 'd" where
  "csts_poll hw rdy 0 d = (- ETIMEDOUT, d)"
| "csts_poll hw rdy (Suc left) d =
     (let (csts, d1) = nvme_mmio_csts_read hw d
      in if csts AND 0x1 = rdy then (0, d1)
         else csts_poll hw rdy left (hw_usleep hw d1 1000))"

definition nvme_mmio_csts_wait_until_ready ::
  "('d, 'x) hw_scheme \<Rightarrow> 'd \<Rightarrow> int \<Rightarrow> int \<times> 'd" where
  "nvme_mmio_csts_wait_until_ready hw d timeout_ms = csts_poll hw 0x1 (nat timeout_ms) d"

definition nvme_mmio_csts_wait_until_not_ready ::
  "('d, 'x) hw_scheme \<Rightarrow> 'd \<Rightarrow> int \<Rightarrow> int \<times> 'd" where
  "nvme_mmio_csts_wait_until_not_ready hw d timeout_ms = csts_poll hw 0x0 (nat timeout_ms) d"

text \<open>The device as the k-th poll finds it, when no poll before it ended the loop.\<close>

primrec polled :: "('d, 'x) hw_scheme \<Rightarrow> 'd \<Rightarrow> nat \<Rightarrow> 'd" where
  "polled hw d 0 = d"
| "polled hw d (Suc k) = polled hw (hw_usleep hw (snd (nvme_mmio_csts_read hw d)) 1000) k"

definition rdy_at :: "('d, 'x) hw_scheme \<Rightarrow> 'd \<Rightarrow> nat \<Rightarrow> u32" where
  "rdy_at hw d k = fst (nvme_mmio_csts_read hw (polled hw d k)) AND 0x1"

lemma csts_poll_result:
  "fst (csts_poll hw rdy n d) = (if \<exists>k<n. rdy_at hw d k = rdy then 0 else - ETIMEDOUT)"
proof (induction n arbitrary: d)
  case 0
  then show ?case by simp
next
  case (Suc n)
  let ?e = "hw_usleep hw (snd (nvme_mmio_csts_read hw d)) 1000"
  have split: "(\<exists>k<Suc n. rdy_at hw d k = rdy) \<longleftrightarrow>
      rdy_at hw d 0 = rdy \<or> (\<exists>k<n. rdy_at hw ?e k = rdy)"
    by (auto simp: rdy_at_def less_Suc_eq_0_disj)
  show ?case
    using Suc.IH [of ?e] by (simp add: split) (simp add: rdy_at_def case_prod_beta Let_def)
qed

text \<open>C30: waiting for ready succeeds exactly when one of the \<open>timeout_ms\<close> polls finds CSTS.RDY
  set, waiting for not ready exactly when one finds it clear, and otherwise both report
  \<open>-ETIMEDOUT\<close>; a timeout of zero or less never succeeds.\<close>

theorem nvme_mmio_csts_wait_outcome:
  "fst (nvme_mmio_csts_wait_until_ready hw d timeout_ms) =
     (if \<exists>k. int k < timeout_ms \<and> rdy_at hw d k = 1 then 0 else - ETIMEDOUT) \<and>
   fst (nvme_mmio_csts_wait_until_not_ready hw d timeout_ms) =
     (if \<exists>k. int k < timeout_ms \<and> rdy_at hw d k = 0 then 0 else - ETIMEDOUT)"
proof -
  have "k < nat timeout_ms \<longleftrightarrow> int k < timeout_ms" for k by auto
  then show ?thesis
    by (simp add: nvme_mmio_csts_wait_until_ready_def nvme_mmio_csts_wait_until_not_ready_def
        csts_poll_result)
qed

end
