(* ===== verification/Id_Pool.thy ===== *)
theory Id_Pool
  imports Upcie_Prelude
begin

text \<open>
  The contract of an identifier pool: something that hands out identifiers and takes them
  back. The repository has two, the bitmap of queue identifiers (\<open>nvme_qid.h\<close>) and the stack
  of command identifiers (\<open>nvme_request.h\<close>); both are used by code that relies on one thing,
  that an identifier in use is not handed out again.
\<close>

section \<open>Clients of a pool\<close>

datatype id_event = Acquire | Release nat

text \<open>
  A client acquires identifiers and releases only identifiers it holds. \<open>None\<close> as the state
  is an operation that stopped the program.
\<close>

fun id_step ::
  "('s \<Rightarrow> (nat option \<times> 's) option) \<Rightarrow> (nat \<Rightarrow> 's \<Rightarrow> 's option) \<Rightarrow>
   's \<times> nat list \<Rightarrow> id_event \<Rightarrow> ('s \<times> nat list) option" where
  "id_step acq rel (s, held) Acquire =
     do { (r, s') \<leftarrow> acq s;
          case r of None \<Rightarrow> Some (s', held) | Some i \<Rightarrow> Some (s', i # held) }"
| "id_step acq rel (s, held) (Release i) =
     (if i \<in> set held then do { s' \<leftarrow> rel i s; Some (s', remove1 i held) }
      else Some (s, held))"

fun id_run ::
  "('s \<Rightarrow> (nat option \<times> 's) option) \<Rightarrow> (nat \<Rightarrow> 's \<Rightarrow> 's option) \<Rightarrow>
   's \<times> nat list \<Rightarrow> id_event list \<Rightarrow> ('s \<times> nat list) option" where
  "id_run acq rel c [] = Some c"
| "id_run acq rel c (e # es) = do { c' \<leftarrow> id_step acq rel c e; id_run acq rel c' es }"

section \<open>The contract and what clients get from it\<close>

locale id_pool =
  fixes inv :: "'s \<Rightarrow> bool"
    and avail :: "'s \<Rightarrow> nat set"
    and ids :: "nat set"
    and acq :: "'s \<Rightarrow> (nat option \<times> 's) option"
    and rel :: "nat \<Rightarrow> 's \<Rightarrow> 's option"
  assumes avail_ids: "inv s \<Longrightarrow> avail s \<subseteq> ids"
    and acquire_free: "inv s \<Longrightarrow> avail s \<noteq> {} \<Longrightarrow>
      \<exists>i s'. acq s = Some (Some i, s') \<and> i \<in> avail s \<and> avail s' = avail s - {i} \<and> inv s'"
    and acquire_full: "inv s \<Longrightarrow> avail s = {} \<Longrightarrow> acq s \<noteq> None \<Longrightarrow> acq s = Some (None, s)"
    and release_used: "inv s \<Longrightarrow> i \<in> ids \<Longrightarrow> i \<notin> avail s \<Longrightarrow>
      \<exists>s'. rel i s = Some s' \<and> avail s' = insert i (avail s) \<and> inv s'"
begin

definition pool_ok :: "'s \<times> nat list \<Rightarrow> bool" where
  "pool_ok c \<longleftrightarrow> inv (fst c) \<and> distinct (snd c) \<and> set (snd c) = ids - avail (fst c)"

lemma pool_ok_start: "inv s \<Longrightarrow> avail s = ids \<Longrightarrow> pool_ok (s, [])"
  by (simp add: pool_ok_def)

lemma acquire_fresh:
  assumes "pool_ok (s, held)" "acq s = Some (Some i, s')"
  shows "i \<in> ids" "i \<notin> set held" "pool_ok (s', i # held)"
proof -
  from assms(1) have s: "inv s" "distinct held" "set held = ids - avail s"
    by (simp_all add: pool_ok_def)
  have "avail s \<noteq> {}"
    using acquire_full [OF s(1)] assms(2) by auto
  from acquire_free [OF s(1) this] assms(2)
  have i: "i \<in> avail s" "avail s' = avail s - {i}" "inv s'" by auto
  with avail_ids [OF s(1)] s show "i \<in> ids" "i \<notin> set held" "pool_ok (s', i # held)"
    by (auto simp: pool_ok_def)
qed

lemma step_ok:
  assumes "pool_ok c" "id_step acq rel c e = Some c'"
  shows "pool_ok c'"
proof (cases e)
  case Acquire
  obtain s held where c: "c = (s, held)" by (cases c)
  with Acquire assms(2) obtain r s' where a: "acq s = Some (r, s')"
    and c': "c' = (case r of None \<Rightarrow> (s', held) | Some i \<Rightarrow> (s', i # held))"
    by (auto simp: bind_eq_Some_conv split: option.splits)
  from assms(1) c have inv: "inv s" by (simp add: pool_ok_def)
  show ?thesis
  proof (cases r)
    case None
    have "avail s = {}"
      using acquire_free [OF inv] a None by auto
    with acquire_full [OF inv] a None have "s' = s" by auto
    with assms(1) c c' None show ?thesis by simp
  next
    case (Some i)
    with a c' acquire_fresh(3) assms(1) c show ?thesis by auto
  qed
next
  case (Release i)
  obtain s held where c: "c = (s, held)" by (cases c)
  from assms(1) c have s: "inv s" "distinct held" "set held = ids - avail s"
    by (simp_all add: pool_ok_def)
  show ?thesis
  proof (cases "i \<in> set held")
    case True
    with s have "i \<in> ids" "i \<notin> avail s" by auto
    from release_used [OF s(1) this] obtain s' where
      "rel i s = Some s'" "avail s' = insert i (avail s)" "inv s'" by blast
    with assms(2) c Release True s \<open>i \<in> ids\<close> show ?thesis
      by (auto simp: pool_ok_def)
  next
    case False
    with assms c Release show ?thesis by simp
  qed
qed

lemma run_ok: "pool_ok c \<Longrightarrow> id_run acq rel c es = Some c' \<Longrightarrow> pool_ok c'"
proof (induction es arbitrary: c)
  case Nil
  then show ?case by simp
next
  case (Cons e es)
  then show ?case by (auto simp: bind_eq_Some_conv dest: step_ok)
qed

lemma step_total:
  assumes "pool_ok (s, held)" "e = Acquire \<Longrightarrow> avail s \<noteq> {}"
  shows "id_step acq rel (s, held) e \<noteq> None"
proof (cases e)
  case Acquire
  from assms(1) have "inv s" by (simp add: pool_ok_def)
  from acquire_free [OF this assms(2) [OF Acquire]] Acquire show ?thesis by auto
next
  case (Release i)
  from assms(1) have s: "inv s" "set held = ids - avail s" by (simp_all add: pool_ok_def)
  with Release show ?thesis using release_used [OF s(1), of i] by auto
qed

end

end
