(* ===== verification/Nvme_Qid.thy ===== *)
theory Nvme_Qid
  imports Id_Pool
begin

unbundle bit_operations_syntax

text \<open>
  The bitmap of queue identifiers of \<open>include/upcie/nvme/nvme_qid.h\<close>: one bit per identifier,
  in an array of \<open>NVME_QID_BITMAP_WORDS\<close> 64-bit words. Identifier 0 is the admin queue and is
  marked as used by the initialisation.

  The range check of the operations is \<open>qid < NVME_QID_MAX\<close>, but the array has only
  \<open>0xFFFF div 64 = 1023\<close> words: the identifiers from 65472 to 65534 pass the check and index a
  word behind the array. In the model that access is \<open>None\<close>.
\<close>

section \<open>The operations\<close>

definition BITS_PER_WORD :: nat where "BITS_PER_WORD = 64"
definition NVME_QID_MAX :: nat where "NVME_QID_MAX = 0xFFFF"
definition NVME_QID_BITMAP_WORDS :: nat where
  "NVME_QID_BITMAP_WORDS = NVME_QID_MAX div BITS_PER_WORD"

definition UINT64_MAX :: u64 where "UINT64_MAX = - 1"

definition nvme_qid_is_allocated :: "u64 list \<Rightarrow> u16 \<Rightarrow> int option" where
  "nvme_qid_is_allocated qid_bitmap qid =
     (if NVME_QID_MAX \<le> unat qid then Some (- EINVAL)
      else do {
        w \<leftarrow> array_get qid_bitmap (unat qid div BITS_PER_WORD);
        Some (uint (drop_bit (unat qid mod BITS_PER_WORD) w AND 1)) })"

definition nvme_qid_free :: "u64 list \<Rightarrow> u16 \<Rightarrow> (int \<times> u64 list) option" where
  "nvme_qid_free qid_bitmap qid =
     (if NVME_QID_MAX \<le> unat qid then Some (- EINVAL, qid_bitmap)
      else do {
        w \<leftarrow> array_get qid_bitmap (unat qid div BITS_PER_WORD);
        bm \<leftarrow> array_set qid_bitmap (unat qid div BITS_PER_WORD)
               (w AND NOT (push_bit (unat qid mod BITS_PER_WORD) 1));
        Some (0, bm) })"

definition nvme_qid_alloc :: "u64 list \<Rightarrow> u16 \<Rightarrow> (int \<times> u64 list) option" where
  "nvme_qid_alloc qid_bitmap qid =
     (if NVME_QID_MAX \<le> unat qid then Some (- EINVAL, qid_bitmap)
      else do {
        w \<leftarrow> array_get qid_bitmap (unat qid div BITS_PER_WORD);
        bm \<leftarrow> array_set qid_bitmap (unat qid div BITS_PER_WORD)
               (w OR push_bit (unat qid mod BITS_PER_WORD) 1);
        Some (0, bm) })"

text \<open>The \<open>memset\<close> covers the whole array, whatever it held.\<close>

definition nvme_qid_bitmap_init :: "(int \<times> u64 list) option" where
  "nvme_qid_bitmap_init = nvme_qid_alloc (replicate NVME_QID_BITMAP_WORDS 0) 0"

text \<open>
  The scan for a free identifier: the words from the given one on, and in a word that is not
  full the bits in order.
\<close>

fun qid_scan :: "u64 list \<Rightarrow> nat list \<Rightarrow> int option" where
  "qid_scan qid_bitmap [] = Some (- ENOMEM)"
| "qid_scan qid_bitmap (word # ws) = do {
     w \<leftarrow> array_get qid_bitmap word;
     if w \<noteq> UINT64_MAX then
       (case List.find (\<lambda>b. w AND push_bit b 1 = 0) [0..<BITS_PER_WORD] of
          Some b \<Rightarrow> Some (int (word * BITS_PER_WORD + b))
        | None \<Rightarrow> qid_scan qid_bitmap ws)
     else qid_scan qid_bitmap ws }"

definition nvme_qid_find_free :: "u64 list \<Rightarrow> int option" where
  "nvme_qid_find_free qid_bitmap = qid_scan qid_bitmap [0..<NVME_QID_BITMAP_WORDS]"

lemmas qid_consts = BITS_PER_WORD_def NVME_QID_MAX_def NVME_QID_BITMAP_WORDS_def

section \<open>The bitmap as a set\<close>

text \<open>The identifiers a bitmap marks as used.\<close>

definition qid_used :: "u64 list \<Rightarrow> nat set" where
  "qid_used bm = {q. q < 64 * length bm \<and> bit (bm ! (q div 64)) (q mod 64)}"

definition qid_wf :: "u64 list \<Rightarrow> bool" where
  "qid_wf bm \<longleftrightarrow> length bm = 1023 \<and> 0 \<in> qid_used bm"

text \<open>A single bit is \<open>2 ^ n\<close> in the simplifier's normal form.\<close>

lemma and_push_bit_one_eq_0_iff: "(w :: u64) AND 2 ^ n = 0 \<longleftrightarrow> \<not> bit w n"
proof -
  have "bit (w AND 2 ^ n) m \<longleftrightarrow> m = n \<and> bit w n" for m
    using bit_imp_le_length [of w n] by (auto simp: bit_simps)
  then show ?thesis by (metis bit_0_eq bot_apply bot_bool_def bit_eqI)
qed

lemma bit_set_one: "bit ((w :: u64) OR 2 ^ n) m \<longleftrightarrow> bit w m \<or> (m = n \<and> m < 64)"
  by (auto simp: bit_simps)

lemma bit_clear_one:
  "bit ((w :: u64) AND NOT (2 ^ n)) m \<longleftrightarrow> bit w m \<and> m \<noteq> n"
  using bit_imp_le_length [of w m] by (auto simp: bit_simps)

lemma qid_used_update:
  assumes "q < 64 * length bm"
    and "\<And>m. m < 64 \<Longrightarrow> bit w m \<longleftrightarrow> (if m = q mod 64 then b else bit (bm ! (q div 64)) m)"
  shows "qid_used (bm[q div 64 := w]) = (if b then insert q (qid_used bm) else qid_used bm - {q})"
proof -
  have d: "q div 64 < length bm" using assms(1) by (simp add: less_mult_imp_div_less mult.commute)
  have e: "p = q" if "p div 64 = q div 64" "p mod 64 = q mod 64" for p
    using that by (metis div_mult_mod_eq)
  show ?thesis
    unfolding qid_used_def
    using assms(1) assms(2) d e
    by (auto simp: nth_update_cases)
qed

lemma nvme_qid_alloc_eq:
  assumes "unat qid < 64 * length bm" "length bm = 1023"
  shows "\<exists>bm'. nvme_qid_alloc bm qid = Some (0, bm') \<and> length bm' = 1023 \<and>
    qid_used bm' = insert (unat qid) (qid_used bm)"
proof -
  have d: "unat qid div 64 < length bm"
    using assms(1) by (simp add: less_mult_imp_div_less mult.commute)
  have "unat qid < 65535" using assms by simp
  with d show ?thesis
    using assms qid_used_update [OF assms(1), of "bm ! (unat qid div 64) OR 2 ^ (unat qid mod 64)" True]
    by (simp add: nvme_qid_alloc_def qid_consts bit_set_one)
qed

lemma nvme_qid_free_eq:
  assumes "unat qid < 64 * length bm" "length bm = 1023"
  shows "\<exists>bm'. nvme_qid_free bm qid = Some (0, bm') \<and> length bm' = 1023 \<and>
    qid_used bm' = qid_used bm - {unat qid}"
proof -
  have d: "unat qid div 64 < length bm"
    using assms(1) by (simp add: less_mult_imp_div_less mult.commute)
  have "unat qid < 65535" using assms by simp
  with d show ?thesis
    using assms qid_used_update [OF assms(1), of "bm ! (unat qid div 64) AND NOT (2 ^ (unat qid mod 64))" False]
    by (simp add: nvme_qid_free_def qid_consts bit_clear_one)
qed

lemma nvme_qid_is_allocated_eq:
  assumes "unat qid < 64 * length bm" "length bm = 1023"
  shows "nvme_qid_is_allocated bm qid = Some (if unat qid \<in> qid_used bm then 1 else 0)"
proof -
  have d: "unat qid div 64 < length bm"
    using assms(1) by (simp add: less_mult_imp_div_less mult.commute)
  have "unat qid < 65535" using assms by simp
  with d assms show ?thesis
    by (simp add: nvme_qid_is_allocated_def qid_consts qid_used_def and_one_eq
        mod_2_eq_odd flip: bit_iff_odd_drop_bit)
qed

section \<open>The scan\<close>

lemma find_clear_bit:
  "List.find (\<lambda>b. (w :: u64) AND 2 ^ b = 0) [0..<64] = Some b \<longleftrightarrow>
   b < 64 \<and> \<not> bit w b \<and> (\<forall>b' < b. bit w b')"
  by (auto simp: find_Some_iff and_push_bit_one_eq_0_iff)

lemma find_clear_bit_None:
  "List.find (\<lambda>b. (w :: u64) AND 2 ^ b = 0) [0..<64] = None \<longleftrightarrow> (\<forall>b < 64. bit w b)"
  by (auto simp: find_None_iff and_push_bit_one_eq_0_iff)

text \<open>What a scan of the words from \<open>a\<close> to \<open>n\<close> returns.\<close>

definition first_free :: "u64 list \<Rightarrow> nat \<Rightarrow> nat \<Rightarrow> int \<Rightarrow> bool" where
  "first_free bm a n r \<longleftrightarrow>
     (r = - ENOMEM \<and> {64 * a..<64 * n} \<subseteq> qid_used bm) \<or>
     (\<exists>q. r = int q \<and> 64 * a \<le> q \<and> q < 64 * n \<and> q \<notin> qid_used bm \<and> {64 * a..<q} \<subseteq> qid_used bm)"

lemma first_free_skip:
  assumes "a < n" "n \<le> length bm" "\<forall>b < 64. bit (bm ! a) b" "first_free bm (Suc a) n r"
  shows "first_free bm a n r"
proof -
  have "q \<in> qid_used bm" if "64 * a \<le> q" "q < 64 * Suc a" for q
  proof -
    have "q div 64 = a" using that by auto
    then show ?thesis using assms(1-3) that by (auto simp: qid_used_def)
  qed
  then have "q \<in> qid_used bm" if "64 * a \<le> q" "q \<in> qid_used bm \<or> q < 64 * Suc a" for q
    using that by blast
  with assms(4) show ?thesis
    unfolding first_free_def by (fastforce simp: not_less subset_eq)
qed

lemma qid_scan_first_free:
  assumes "a \<le> n" "n \<le> length bm"
  shows "\<exists>r. qid_scan bm [a..<n] = Some r \<and> first_free bm a n r"
  using assms
proof (induction "n - a" arbitrary: a)
  case 0
  then show ?case by (simp add: first_free_def)
next
  case (Suc k)
  then have a: "a < n" "[a..<n] = a # [Suc a..<n]" by (auto simp: upt_conv_Cons)
  have k: "k = n - Suc a" using Suc.hyps(2) by simp
  from Suc.hyps(1) [OF k] Suc.prems a obtain r where
    r: "qid_scan bm [Suc a..<n] = Some r" "first_free bm (Suc a) n r" by auto
  show ?case
  proof (cases "\<forall>b < 64. bit (bm ! a) b")
    case True
    then have "List.find (\<lambda>b. bm ! a AND 2 ^ b = 0) [0..<64] = None"
      by (simp add: find_clear_bit_None)
    then have "qid_scan bm [a..<n] = Some r"
      using a r(1) Suc.prems by (auto simp: BITS_PER_WORD_def)
    with first_free_skip [OF a(1) Suc.prems(2) True r(2)] show ?thesis by blast
  next
    case False
    then obtain b where b: "List.find (\<lambda>b. bm ! a AND 2 ^ b = 0) [0..<64] = Some b"
      using find_clear_bit_None by fastforce
    then have b': "b < 64" "\<not> bit (bm ! a) b" "\<forall>b' < b. bit (bm ! a) b'"
      using find_clear_bit by auto
    have ne: "bm ! a \<noteq> UINT64_MAX" using b' by (auto simp: UINT64_MAX_def)
    have scan: "qid_scan bm [a..<n] = Some (int (a * 64 + b))"
      using a b ne Suc.prems by (simp add: BITS_PER_WORD_def)
    have "q \<in> qid_used bm" if "64 * a \<le> q" "q < a * 64 + b" for q
    proof -
      have d: "q div 64 = a" using that b'(1) by auto
      moreover have "q mod 64 = q - 64 * a"
        using d minus_div_mult_eq_mod [of q 64] by (simp add: mult.commute)
      ultimately have "q div 64 = a" "q mod 64 = q - 64 * a" by simp_all
      then show ?thesis using a that b' Suc.prems by (auto simp: qid_used_def)
    qed
    moreover have "a * 64 + b \<notin> qid_used bm" using b' by (simp add: qid_used_def)
    moreover have "64 * a \<le> a * 64 + b" "a * 64 + b < 64 * n" using b'(1) a(1) by auto
    ultimately have "first_free bm a n (int (a * 64 + b))"
      unfolding first_free_def by (intro disjI2 exI [of _ "a * 64 + b"]) auto
    with scan show ?thesis by blast
  qed
qed

section \<open>Properties of the operations\<close>

text \<open>on identifiers inside the bitmap, allocating marks exactly that identifier, freeing
  clears exactly that identifier, and the query reports the mark.\<close>

theorem nvme_qid_set_semantics:
  assumes "length bm = NVME_QID_BITMAP_WORDS" "unat qid < 64 * NVME_QID_BITMAP_WORDS"
  shows "(\<exists>bm'. nvme_qid_alloc bm qid = Some (0, bm') \<and> length bm' = NVME_QID_BITMAP_WORDS \<and>
      qid_used bm' = insert (unat qid) (qid_used bm) \<and>
      nvme_qid_is_allocated bm' qid = Some 1) \<and>
    (\<exists>bm'. nvme_qid_free bm qid = Some (0, bm') \<and> length bm' = NVME_QID_BITMAP_WORDS \<and>
      qid_used bm' = qid_used bm - {unat qid} \<and>
      nvme_qid_is_allocated bm' qid = Some 0) \<and>
    nvme_qid_is_allocated bm qid = Some (if unat qid \<in> qid_used bm then 1 else 0)"
proof -
  have l: "length bm = 1023" and q: "unat qid < 64 * length bm"
    using assms by (simp_all add: qid_consts)
  from nvme_qid_alloc_eq [OF q l] obtain a where
    a: "nvme_qid_alloc bm qid = Some (0, a)" "length a = 1023"
    "qid_used a = insert (unat qid) (qid_used bm)" by blast
  from nvme_qid_free_eq [OF q l] obtain f where
    f: "nvme_qid_free bm qid = Some (0, f)" "length f = 1023"
    "qid_used f = qid_used bm - {unat qid}" by blast
  show ?thesis
    using a f q l nvme_qid_is_allocated_eq [of qid a] nvme_qid_is_allocated_eq [of qid f]
      nvme_qid_is_allocated_eq [of qid bm]
    by (simp add: qid_consts)
qed

theorem nvme_qid_set_semantics_witness:
  "nvme_qid_is_allocated (replicate NVME_QID_BITMAP_WORDS 0) 77 = Some 0"
proof -
  have "qid_used (replicate NVME_QID_BITMAP_WORDS 0) = {}"
    by (auto simp: qid_used_def qid_consts less_mult_imp_div_less mult.commute)
  then show ?thesis
    using nvme_qid_set_semantics [of "replicate NVME_QID_BITMAP_WORDS 0" 77]
    by (simp add: NVME_QID_BITMAP_WORDS_def NVME_QID_MAX_def BITS_PER_WORD_def)
qed

lemma nvme_qid_find_free_eq:
  assumes "length bm = NVME_QID_BITMAP_WORDS"
  shows "nvme_qid_find_free bm =
    (if {..<64 * NVME_QID_BITMAP_WORDS} \<subseteq> qid_used bm then Some (- ENOMEM)
     else Some (int (LEAST q. q \<notin> qid_used bm)))"
proof -
  let ?n = NVME_QID_BITMAP_WORDS
  have l: "0 \<le> ?n" "?n \<le> length bm" using assms by simp_all
  from qid_scan_first_free [OF l] obtain r where
    r: "nvme_qid_find_free bm = Some r" "first_free bm 0 ?n r"
    by (auto simp: nvme_qid_find_free_def)
  show ?thesis
  proof (cases "{..<64 * ?n} \<subseteq> qid_used bm")
    case True
    with r show ?thesis by (auto simp: first_free_def)
  next
    case False
    with r(2) obtain q where q: "r = int q" "q \<notin> qid_used bm" "{..<q} \<subseteq> qid_used bm"
      by (auto simp: first_free_def atLeast0LessThan)
    then have "(LEAST q. q \<notin> qid_used bm) = q"
      by (intro Least_equality) (auto simp: not_less [symmetric])
    with r q False show ?thesis by simp
  qed
qed

text \<open>the scan returns the least identifier that is not marked, and reports \<open>-ENOMEM\<close>
  exactly when every identifier of the bitmap is marked; it never runs off the bitmap.\<close>

theorem nvme_qid_find_free_least:
  assumes "length bm = NVME_QID_BITMAP_WORDS"
  shows "nvme_qid_find_free bm =
    (if {..<64 * NVME_QID_BITMAP_WORDS} \<subseteq> qid_used bm then Some (- ENOMEM)
     else Some (int (LEAST q. q \<notin> qid_used bm)))"
  by (rule nvme_qid_find_free_eq [OF assms])

theorem nvme_qid_find_free_least_witness:
  "nvme_qid_find_free (replicate NVME_QID_BITMAP_WORDS 0) = Some 0"
proof -
  have e: "qid_used (replicate NVME_QID_BITMAP_WORDS 0) = {}"
    by (auto simp: qid_used_def qid_consts less_mult_imp_div_less mult.commute)
  have n: "\<not> {..<64 * NVME_QID_BITMAP_WORDS} \<subseteq> {}" by (simp add: qid_consts lessThan_empty_iff)
  show ?thesis
    using nvme_qid_find_free_least [of "replicate NVME_QID_BITMAP_WORDS 0"] e n
    by (simp add: Least_eq_0)
qed

text \<open>the range check of the operations does not match the bitmap: for each of the 63
  identifiers from 65472 to 65534 the check passes and the access is behind the array.\<close>

theorem nvme_qid_check_lets_overrun_through:
  assumes "length bm = NVME_QID_BITMAP_WORDS" "65472 \<le> unat qid" "unat qid \<le> 65534"
  shows "nvme_qid_alloc bm qid = None \<and> nvme_qid_free bm qid = None \<and>
    nvme_qid_is_allocated bm qid = None"
proof -
  have "unat qid div 64 = 1023" using assms by auto
  then have "length bm \<le> unat qid div 64" "\<not> 65535 \<le> unat qid"
    using assms by (simp_all add: qid_consts)
  then show ?thesis
    by (simp add: nvme_qid_alloc_def nvme_qid_free_def nvme_qid_is_allocated_def qid_consts
        array_get_def)
qed

theorem nvme_qid_check_lets_overrun_through_witness:
  "nvme_qid_alloc (replicate NVME_QID_BITMAP_WORDS 0) 65500 = None"
  using nvme_qid_check_lets_overrun_through [of "replicate NVME_QID_BITMAP_WORDS 0" 65500]
  by simp

section \<open>The bitmap as a pool of identifiers\<close>

text \<open>
  Taking an identifier the way the two functions that create I/O queue pairs do: look for a
  free one, give up when the result is less than one, else mark it.
\<close>

definition nvme_qid_take :: "u64 list \<Rightarrow> (nat option \<times> u64 list) option" where
  "nvme_qid_take bm = do {
     err \<leftarrow> nvme_qid_find_free bm;
     if err < 1 then Some (None, bm)
     else do {
       (err', bm') \<leftarrow> nvme_qid_alloc bm (word_of_int err);
       if err' \<noteq> 0 then Some (None, bm') else Some (Some (unat (word_of_int err :: u16)), bm') } }"

definition nvme_qid_put :: "nat \<Rightarrow> u64 list \<Rightarrow> u64 list option" where
  "nvme_qid_put q bm = do { (_, bm') \<leftarrow> nvme_qid_free bm (of_nat q); Some bm' }"

text \<open>The identifiers an I/O queue pair can get.\<close>

definition io_qids :: "nat set" where
  "io_qids = {q. 0 < q \<and> q < 64 * NVME_QID_BITMAP_WORDS}"

lemma in_io_qids: "q \<in> io_qids \<longleftrightarrow> 0 < q \<and> q < 65472"
  by (simp add: io_qids_def qid_consts)

definition qid_avail :: "u64 list \<Rightarrow> nat set" where
  "qid_avail bm = io_qids - qid_used bm"

lemma nvme_qid_bitmap_init_wf:
  "\<exists>bm. nvme_qid_bitmap_init = Some (0, bm) \<and> qid_wf bm \<and> qid_avail bm = io_qids"
proof -
  have e: "qid_used (replicate NVME_QID_BITMAP_WORDS 0) = {}"
    by (auto simp: qid_used_def qid_consts less_mult_imp_div_less mult.commute)
  show ?thesis
    using nvme_qid_alloc_eq [of 0 "replicate NVME_QID_BITMAP_WORDS 0"] e
    by (auto simp: nvme_qid_bitmap_init_def qid_wf_def qid_avail_def qid_consts in_io_qids)
qed

lemma nvme_qid_take_free:
  assumes "qid_wf bm" "qid_avail bm \<noteq> {}"
  shows "\<exists>i bm'. nvme_qid_take bm = Some (Some i, bm') \<and> i \<in> qid_avail bm \<and>
    qid_used bm' = insert i (qid_used bm) \<and> qid_wf bm'"
proof -
  from assms have l: "length bm = 1023" "0 \<in> qid_used bm" by (simp_all add: qid_wf_def)
  have "\<not> {..<65472} \<subseteq> qid_used bm" using assms(2) by (auto simp: qid_avail_def in_io_qids)
  then have f: "nvme_qid_find_free bm = Some (int (LEAST q. q \<notin> qid_used bm))"
    using nvme_qid_find_free_eq [of bm] l by (simp add: qid_consts)
  let ?q = "LEAST q. q \<notin> qid_used bm"
  from assms(2) obtain p where "p \<in> qid_avail bm" by blast
  then have p: "p \<notin> qid_used bm" "p < 65472" by (simp_all add: qid_avail_def in_io_qids)
  have q: "?q \<notin> qid_used bm" by (rule LeastI [of _ p]) (rule p(1))
  have "?q \<le> p" by (rule Least_le) (rule p(1))
  with q p(2) have q: "?q \<notin> qid_used bm" "?q < 65472" by simp_all
  with l have q0: "0 < ?q" by (metis gr0I)
  have w: "unat (word_of_int (int ?q) :: u16) = ?q"
    using q(2) by (simp add: unat_of_nat take_bit_eq_mod)
  from nvme_qid_alloc_eq [of "word_of_int (int ?q)" bm] w q l obtain bm' where
    "nvme_qid_alloc bm (word_of_int (int ?q)) = Some (0, bm')" "length bm' = 1023"
    "qid_used bm' = insert ?q (qid_used bm)" by auto
  then show ?thesis
    using f q q0 l w by (auto simp: nvme_qid_take_def qid_avail_def in_io_qids qid_wf_def)
qed

interpretation qids: id_pool qid_wf qid_avail "io_qids" nvme_qid_take nvme_qid_put
proof (unfold_locales, goal_cases)
  case (1 bm)
  then show ?case by (auto simp: qid_avail_def in_io_qids)
next
  case (2 bm)
  then show ?case using nvme_qid_take_free [of bm] by (fastforce simp: qid_avail_def)
next
  case (3 bm)
  then have l: "length bm = 1023" "0 \<in> qid_used bm" by (simp_all add: qid_wf_def)
  have "{..<65472} \<subseteq> qid_used bm"
  proof
    fix q :: nat assume "q \<in> {..<65472}"
    then show "q \<in> qid_used bm" using 3(2) l(2) by (cases "q = 0") (auto simp: qid_avail_def in_io_qids)
  qed
  then have "nvme_qid_find_free bm = Some (- ENOMEM)"
    using nvme_qid_find_free_eq [of bm] l by (simp add: qid_consts)
  then show ?case by (simp add: nvme_qid_take_def)
next
  case (4 bm i)
  then have l: "length bm = 1023" by (simp add: qid_wf_def)
  have w: "unat (of_nat i :: u16) = i"
    using 4(2) by (simp add: unat_of_nat take_bit_eq_mod in_io_qids)
  from nvme_qid_free_eq [of "of_nat i" bm] w l 4(2) obtain bm' where
    "nvme_qid_free bm (of_nat i) = Some (0, bm')" "length bm' = 1023"
    "qid_used bm' = qid_used bm - {i}" by (auto simp: in_io_qids)
  moreover from 4(2) have "i \<noteq> 0" by (simp add: in_io_qids)
  ultimately show ?case
    using 4 by (intro exI [of _ bm']) (auto simp: nvme_qid_put_def qid_wf_def qid_avail_def)
qed

text \<open>C28: from the initialised bitmap, whatever a client acquires and releases in whatever
  order, the queue identifiers it holds are distinct, none is the admin queue's 0, all lie in
  the bitmap, and the identifiers it does not hold are exactly the free ones.\<close>

theorem nvme_qid_run_distinct:
  assumes "nvme_qid_bitmap_init = Some (0, bm0)"
    and "id_run nvme_qid_take nvme_qid_put (bm0, []) es = Some (bm, held)"
  shows "distinct held \<and> set held \<subseteq> io_qids \<and> set held \<inter> qid_avail bm = {} \<and>
    set held \<union> qid_avail bm = io_qids"
proof -
  from nvme_qid_bitmap_init_wf obtain b where
    "nvme_qid_bitmap_init = Some (0, b)" "qid_wf b" "qid_avail b = io_qids" by blast
  with assms(1) have "qid_wf bm0" "qid_avail bm0 = io_qids" by (metis option.inject prod.inject)+
  from qids.run_ok [OF qids.pool_ok_start [OF this] assms(2)]
  have "qid_wf bm" "distinct held" "set held = io_qids - qid_avail bm"
    by (simp_all add: qids.pool_ok_def)
  moreover have "qid_avail bm \<subseteq> io_qids" by (auto simp: qid_avail_def in_io_qids)
  ultimately show ?thesis by auto
qed

theorem nvme_qid_run_distinct_witness:
  "\<exists>bm0 bm held. nvme_qid_bitmap_init = Some (0, bm0) \<and>
     id_run nvme_qid_take nvme_qid_put (bm0, []) [Acquire] = Some (bm, held) \<and>
     held \<noteq> [] \<and> distinct held \<and> set held \<subseteq> io_qids"
proof -
  from nvme_qid_bitmap_init_wf obtain bm0 where
    b: "nvme_qid_bitmap_init = Some (0, bm0)" "qid_wf bm0" "qid_avail bm0 = io_qids" by blast
  then have "qid_avail bm0 \<noteq> {}" using in_io_qids [of 1] by auto
  from nvme_qid_take_free [OF b(2) this] obtain i bm where
    "nvme_qid_take bm0 = Some (Some i, bm)" by blast
  then have r: "id_run nvme_qid_take nvme_qid_put (bm0, []) [Acquire] = Some (bm, [i])" by simp
  from nvme_qid_run_distinct [OF b(1) r] r b(1) show ?thesis by blast
qed

end
