(* ===== verification/Nvme_Request.thy ===== *)
theory Nvme_Request
  imports Id_Pool
begin

text \<open>
  The request pool of \<open>include/upcie/nvme/nvme_request.h\<close>: a fixed array of requests, each
  with its command identifier, and a stack of the identifiers that are free. A pointer to a
  request of the pool is its index in \<open>reqs\<close>.
\<close>

section \<open>The pool and its operations\<close>

definition NVME_REQUEST_POOL_LEN :: nat where "NVME_REQUEST_POOL_LEN = 1024"

record nvme_request =
  req_cid :: u16
  req_user :: u64
  req_prp_addr :: u64
  req_prp :: u64

record nvme_request_pool =
  reqs :: "nvme_request list"
  stack :: "u16 list"
  top :: nat
  prps :: u64

text \<open>The zeroed pool that \<open>calloc\<close> returns.\<close>

definition zero_pool :: nvme_request_pool where
  "zero_pool = \<lparr>reqs = replicate NVME_REQUEST_POOL_LEN
       \<lparr>req_cid = 0, req_user = 0, req_prp_addr = 0, req_prp = 0\<rparr>,
     stack = replicate NVME_REQUEST_POOL_LEN 0, top = 0, prps = 0\<rparr>"

definition pool_init_step :: "nat \<Rightarrow> nvme_request_pool \<Rightarrow> nvme_request_pool" where
  "pool_init_step i pool =
     pool\<lparr>reqs := (reqs pool)[i := (reqs pool ! i)\<lparr>req_cid := of_nat i\<rparr>],
       stack := (stack pool)[NVME_REQUEST_POOL_LEN - 1 - i := of_nat i]\<rparr>"

definition nvme_request_pool_init :: "nvme_request_pool \<Rightarrow> nvme_request_pool" where
  "nvme_request_pool_init pool =
     fold pool_init_step [0..<NVME_REQUEST_POOL_LEN] (pool\<lparr>top := NVME_REQUEST_POOL_LEN\<rparr>)"

definition nvme_request_alloc ::
  "bool \<Rightarrow> nvme_request_pool \<Rightarrow> ((int + nat) \<times> nvme_request_pool) option" where
  "nvme_request_alloc dbg pool = do {
     c_assert dbg (0 < top pool);
     if top pool = 0 then Some (Inl ENOMEM, pool)
     else do {
       cid \<leftarrow> array_get (stack pool) (top pool - 1);
       array_get (reqs pool) (unat cid);
       Some (Inr (unat cid), pool\<lparr>top := top pool - 1\<rparr>) } }"

definition nvme_request_free ::
  "bool \<Rightarrow> nvme_request_pool \<Rightarrow> u16 \<Rightarrow> nvme_request_pool option" where
  "nvme_request_free dbg pool cid = do {
     c_assert dbg (top pool < NVME_REQUEST_POOL_LEN);
     stk \<leftarrow> array_set (stack pool) (top pool) cid;
     Some (pool\<lparr>stack := stk, top := top pool + 1\<rparr>) }"

definition nvme_request_get :: "bool \<Rightarrow> nvme_request_pool \<Rightarrow> u16 \<Rightarrow> nvme_request option" where
  "nvme_request_get dbg pool cid = do {
     c_assert dbg (unat cid < NVME_REQUEST_POOL_LEN);
     array_get (reqs pool) (unat cid) }"

section \<open>The invariant\<close>

definition free_cids :: "nvme_request_pool \<Rightarrow> nat set" where
  "free_cids pool = unat ` set (take (top pool) (stack pool))"

definition all_cids :: "nat set" where
  "all_cids = {..<NVME_REQUEST_POOL_LEN}"

definition pool_wf :: "nvme_request_pool \<Rightarrow> bool" where
  "pool_wf pool \<longleftrightarrow>
     length (reqs pool) = NVME_REQUEST_POOL_LEN \<and> length (stack pool) = NVME_REQUEST_POOL_LEN \<and>
     top pool \<le> NVME_REQUEST_POOL_LEN \<and> distinct (take (top pool) (stack pool)) \<and>
     free_cids pool \<subseteq> all_cids \<and>
     (\<forall>i < NVME_REQUEST_POOL_LEN. req_cid (reqs pool ! i) = of_nat i)"

lemma all_cids_iff: "i \<in> all_cids \<longleftrightarrow> i < NVME_REQUEST_POOL_LEN"
  by (simp add: all_cids_def)

lemma unat_of_nat_cid: "i < NVME_REQUEST_POOL_LEN \<Longrightarrow> unat (of_nat i :: u16) = i"
  by (simp add: unat_of_nat take_bit_eq_mod NVME_REQUEST_POOL_LEN_def)

lemma card_free_cids: "pool_wf pool \<Longrightarrow> card (free_cids pool) = top pool"
proof -
  assume wf: "pool_wf pool"
  then have d: "distinct (take (top pool) (stack pool))" and l: "top pool \<le> length (stack pool)"
    by (simp_all add: pool_wf_def)
  have "inj_on unat (set (take (top pool) (stack pool)))"
    by (rule inj_onI) (rule word_unat_eq_iff [THEN iffD2])
  then have "card (free_cids pool) = card (set (take (top pool) (stack pool)))"
    unfolding free_cids_def by (rule card_image)
  also have "\<dots> = top pool"
    using distinct_card [OF d] l by simp
  finally show ?thesis .
qed

lemma top_less_iff:
  assumes "pool_wf pool"
  shows "top pool < NVME_REQUEST_POOL_LEN \<longleftrightarrow> free_cids pool \<noteq> all_cids"
proof
  assume t: "top pool < NVME_REQUEST_POOL_LEN"
  show "free_cids pool \<noteq> all_cids"
  proof
    assume "free_cids pool = all_cids"
    then have "top pool = card all_cids" using card_free_cids [OF assms] by metis
    with t show False by (simp add: all_cids_def)
  qed
next
  assume "free_cids pool \<noteq> all_cids"
  with assms have "free_cids pool \<subset> all_cids" by (auto simp: pool_wf_def)
  then have "card (free_cids pool) < card all_cids"
    by (rule psubset_card_mono [rotated]) (simp add: all_cids_def)
  then show "top pool < NVME_REQUEST_POOL_LEN"
    using card_free_cids [OF assms] by (simp add: all_cids_def)
qed

section \<open>Initialisation\<close>

text \<open>The loop after \<open>n\<close> rounds.\<close>

lemma pool_init_loop:
  assumes "length (reqs pool) = NVME_REQUEST_POOL_LEN" "length (stack pool) = NVME_REQUEST_POOL_LEN"
    and "n \<le> NVME_REQUEST_POOL_LEN"
  shows "let p = fold pool_init_step [0..<n] pool
    in length (reqs p) = NVME_REQUEST_POOL_LEN \<and> length (stack p) = NVME_REQUEST_POOL_LEN \<and>
       top p = top pool \<and> prps p = prps pool \<and>
       (\<forall>i < n. req_cid (reqs p ! i) = of_nat i \<and>
          stack p ! (NVME_REQUEST_POOL_LEN - 1 - i) = of_nat i)"
  using assms(3)
proof (induction n)
  case 0
  then show ?case using assms by simp
next
  case (Suc n)
  let ?p = "fold pool_init_step [0..<n] pool"
  have IH: "length (reqs ?p) = NVME_REQUEST_POOL_LEN" "length (stack ?p) = NVME_REQUEST_POOL_LEN"
    "top ?p = top pool" "prps ?p = prps pool"
    "\<And>i. i < n \<Longrightarrow> req_cid (reqs ?p ! i) = of_nat i"
    "\<And>i. i < n \<Longrightarrow> stack ?p ! (NVME_REQUEST_POOL_LEN - 1 - i) = of_nat i"
    using Suc by (simp_all add: Let_def)
  have step: "fold pool_init_step [0..<Suc n] pool = pool_init_step n ?p" by simp
  have ne: "NVME_REQUEST_POOL_LEN - 1 - i \<noteq> NVME_REQUEST_POOL_LEN - 1 - n" if "i < n" for i
    using that Suc.prems by arith
  show ?case
    unfolding step Let_def
    using IH ne Suc.prems
    by (auto simp: pool_init_step_def nth_list_update less_Suc_eq)
qed

lemma nvme_request_pool_init_wf:
  assumes "length (reqs pool) = NVME_REQUEST_POOL_LEN" "length (stack pool) = NVME_REQUEST_POOL_LEN"
  shows "pool_wf (nvme_request_pool_init pool) \<and>
    free_cids (nvme_request_pool_init pool) = all_cids"
proof -
  let ?L = NVME_REQUEST_POOL_LEN
  let ?p = "nvme_request_pool_init pool"
  have p: "length (reqs ?p) = ?L" "length (stack ?p) = ?L" "top ?p = ?L"
    "\<And>i. i < ?L \<Longrightarrow> req_cid (reqs ?p ! i) = of_nat i"
    "\<And>i. i < ?L \<Longrightarrow> stack ?p ! (?L - 1 - i) = of_nat i"
    using pool_init_loop [of "pool\<lparr>top := ?L\<rparr>" ?L] assms
    by (simp_all add: nvme_request_pool_init_def Let_def)
  have nth: "stack ?p ! j = of_nat (?L - 1 - j)" if "j < ?L" for j
    using p(5) [of "?L - 1 - j"] that by simp
  have u: "unat (stack ?p ! j) = ?L - 1 - j" if "j < ?L" for j
    unfolding nth [OF that] by (rule unat_of_nat_cid) (use that in simp)
  have d: "distinct (stack ?p)"
  proof (rule distinct_conv_nth [THEN iffD2], intro allI impI)
    fix i j assume ij: "i < length (stack ?p)" "j < length (stack ?p)" "i \<noteq> j"
    then have "unat (stack ?p ! i) \<noteq> unat (stack ?p ! j)" using u p(2) by simp
    then show "stack ?p ! i \<noteq> stack ?p ! j" by auto
  qed
  have f: "free_cids ?p = all_cids"
  proof
    show "free_cids ?p \<subseteq> all_cids"
      using u p(2,3) by (auto simp: free_cids_def all_cids_def in_set_conv_nth)
    show "all_cids \<subseteq> free_cids ?p"
    proof
      fix i assume i: "i \<in> all_cids"
      then have "unat (stack ?p ! (?L - 1 - i)) = i" "?L - 1 - i < ?L"
        using u [of "?L - 1 - i"] by (auto simp: all_cids_def)
      then show "i \<in> free_cids ?p"
        unfolding free_cids_def using p(2,3) by (metis image_eqI nth_mem take_all_iff order_refl)
    qed
  qed
  with d p show ?thesis by (simp add: pool_wf_def)
qed

section \<open>The pool as a pool of identifiers\<close>

definition cid_take :: "bool \<Rightarrow> nvme_request_pool \<Rightarrow> (nat option \<times> nvme_request_pool) option" where
  "cid_take dbg pool = do {
     (r, pool') \<leftarrow> nvme_request_alloc dbg pool;
     case r of Inl e \<Rightarrow> Some (None, pool') | Inr cid \<Rightarrow> Some (Some cid, pool') }"

definition cid_put :: "bool \<Rightarrow> nat \<Rightarrow> nvme_request_pool \<Rightarrow> nvme_request_pool option" where
  "cid_put dbg cid pool = nvme_request_free dbg pool (of_nat cid)"

lemma nvme_request_alloc_pops:
  assumes "pool_wf pool" "0 < top pool"
  shows "\<exists>cid. nvme_request_alloc dbg pool = Some (Inr cid, pool\<lparr>top := top pool - 1\<rparr>) \<and>
    cid \<in> free_cids pool \<and> free_cids (pool\<lparr>top := top pool - 1\<rparr>) = free_cids pool - {cid} \<and>
    pool_wf (pool\<lparr>top := top pool - 1\<rparr>)"
proof -
  let ?t = "top pool - 1" and ?s = "stack pool"
  from assms have t: "?t < length ?s" "Suc ?t = top pool" by (auto simp: pool_wf_def)
  then have take: "take (top pool) ?s = take ?t ?s @ [?s ! ?t]"
    by (metis take_Suc_conv_app_nth)
  from assms(1) have d: "distinct (take ?t ?s @ [?s ! ?t])"
    and sub: "free_cids pool \<subseteq> all_cids" unfolding take [symmetric] by (simp_all add: pool_wf_def)
  then have fresh: "?s ! ?t \<notin> set (take ?t ?s)" by simp
  have fc: "free_cids pool = insert (unat (?s ! ?t)) (unat ` set (take ?t ?s))"
    by (simp add: free_cids_def take)
  have fresh': "unat (?s ! ?t) \<notin> unat ` set (take ?t ?s)"
    using fresh by (auto simp: word_unat_eq_iff [symmetric])
  have cid: "unat (?s ! ?t) < NVME_REQUEST_POOL_LEN"
    using sub fc by (auto simp: all_cids_def)
  with assms t show ?thesis
    using d sub fc fresh'
    by (auto simp: nvme_request_alloc_def pool_wf_def free_cids_def)
qed

lemma nvme_request_free_pushes:
  assumes "pool_wf pool" "unat cid \<in> all_cids" "unat cid \<notin> free_cids pool"
  shows "\<exists>pool'. nvme_request_free dbg pool cid = Some pool' \<and>
    free_cids pool' = insert (unat cid) (free_cids pool) \<and> pool_wf pool' \<and>
    top pool' = top pool + 1 \<and> reqs pool' = reqs pool \<and> prps pool' = prps pool"
proof -
  have t: "top pool < NVME_REQUEST_POOL_LEN"
    using top_less_iff [OF assms(1)] assms(2,3) by auto
  from assms(1) have l: "length (stack pool) = NVME_REQUEST_POOL_LEN" by (simp add: pool_wf_def)
  have take: "take (Suc (top pool)) ((stack pool)[top pool := cid]) = take (top pool) (stack pool) @ [cid]"
    using t l by (simp add: take_Suc_conv_app_nth)
  have fresh: "cid \<notin> set (take (top pool) (stack pool))"
    using assms(3) by (auto simp: free_cids_def)
  show ?thesis
    using assms t l take fresh
    by (auto simp: nvme_request_free_def pool_wf_def free_cids_def)
qed

interpretation cids: id_pool pool_wf free_cids all_cids "cid_take dbg" "cid_put dbg" for dbg
proof (unfold_locales, goal_cases)
  case (1 p)
  then show ?case by (simp add: pool_wf_def)
next
  case (2 p)
  then have "0 < top p" by (auto simp: free_cids_def intro: gr0I)
  from nvme_request_alloc_pops [OF 2(1) this, of dbg] show ?case
    by (auto simp: cid_take_def)
next
  case (3 p)
  then have "top p = 0" using card_free_cids [OF 3(1)] by simp
  with 3(3) show ?case by (auto simp: cid_take_def nvme_request_alloc_def c_assert_def)
next
  case (4 p i)
  then have "unat (of_nat i :: u16) = i" by (simp add: unat_of_nat_cid all_cids_def)
  with 4 nvme_request_free_pushes [of p "of_nat i" dbg] show ?case
    by (auto simp: cid_put_def)
qed

section \<open>Properties\<close>

text \<open>C29: from a freshly initialised pool, in a debug or a release build, whatever requests a
  client allocates and frees in whatever order, the command identifiers of the requests it holds
  are distinct and inside the pool, and the rest of the pool is exactly what is free.\<close>

theorem nvme_request_run_distinct:
  assumes "id_run (cid_take dbg) (cid_put dbg) (nvme_request_pool_init zero_pool, []) es
    = Some (pool, held)"
  shows "distinct held \<and> set held \<inter> free_cids pool = {} \<and>
    set held \<union> free_cids pool = {..<NVME_REQUEST_POOL_LEN} \<and> pool_wf pool"
proof -
  from nvme_request_pool_init_wf [of zero_pool]
  have "pool_wf (nvme_request_pool_init zero_pool)"
    "free_cids (nvme_request_pool_init zero_pool) = all_cids" by (simp_all add: zero_pool_def)
  from cids.run_ok [OF cids.pool_ok_start [OF this] assms]
  have "pool_wf pool" "distinct held" "set held = all_cids - free_cids pool"
    by (simp_all add: cids.pool_ok_def)
  then show ?thesis by (auto simp: pool_wf_def all_cids_def)
qed

theorem nvme_request_run_distinct_witness:
  "\<exists>pool held. id_run (cid_take True) (cid_put True) (nvme_request_pool_init zero_pool, [])
      [Acquire, Acquire] = Some (pool, held) \<and> length held = 2 \<and> distinct held"
proof -
  let ?p = "nvme_request_pool_init zero_pool"
  from nvme_request_pool_init_wf [of zero_pool]
  have wf: "pool_wf ?p" "free_cids ?p = all_cids" by (simp_all add: zero_pool_def)
  have t: "top ?p = 1024"
    using card_free_cids [OF wf(1)] wf(2) by (simp add: all_cids_def NVME_REQUEST_POOL_LEN_def)
  from nvme_request_alloc_pops [OF wf(1), of True] t obtain a where
    a: "cid_take True ?p = Some (Some a, ?p\<lparr>top := top ?p - 1\<rparr>)" "pool_wf (?p\<lparr>top := top ?p - 1\<rparr>)"
    by (auto simp: cid_take_def)
  from nvme_request_alloc_pops [OF a(2), of True] t obtain b q where
    b: "cid_take True (?p\<lparr>top := top ?p - 1\<rparr>) = Some (Some b, q)" by (auto simp: cid_take_def)
  from a(1) b have r: "id_run (cid_take True) (cid_put True) (?p, []) [Acquire, Acquire] = Some (q, [b, a])"
    by simp
  from nvme_request_run_distinct [OF r] r show ?thesis by auto
qed

text \<open>an empty pool stops a debug build at the assertion, and in a release build is
  reported as \<open>ENOMEM\<close> without changing the pool; a pool that is not empty always serves.\<close>

theorem nvme_request_alloc_exhaustion:
  assumes "pool_wf pool"
  shows "(free_cids pool = {} \<longrightarrow> nvme_request_alloc True pool = None \<and>
      nvme_request_alloc False pool = Some (Inl ENOMEM, pool)) \<and>
    (free_cids pool \<noteq> {} \<longrightarrow> (\<exists>cid pool'. cid \<in> free_cids pool \<and>
      nvme_request_alloc dbg pool = Some (Inr cid, pool') \<and>
      free_cids pool' = free_cids pool - {cid}))"
proof (intro conjI impI)
  assume "free_cids pool = {}"
  then have "top pool = 0" using card_free_cids [OF assms] by simp
  then show "nvme_request_alloc True pool = None"
    "nvme_request_alloc False pool = Some (Inl ENOMEM, pool)"
    by (simp_all add: nvme_request_alloc_def)
next
  assume "free_cids pool \<noteq> {}"
  then have "0 < top pool" by (auto simp: free_cids_def intro: gr0I)
  from nvme_request_alloc_pops [OF assms this, of dbg]
  show "\<exists>cid pool'. cid \<in> free_cids pool \<and> nvme_request_alloc dbg pool = Some (Inr cid, pool') \<and>
      free_cids pool' = free_cids pool - {cid}" by blast
qed

theorem nvme_request_alloc_exhaustion_witness:
  "nvme_request_alloc False ((nvme_request_pool_init zero_pool)\<lparr>top := 0\<rparr>)
    = Some (Inl ENOMEM, (nvme_request_pool_init zero_pool)\<lparr>top := 0\<rparr>)"
proof -
  let ?p = "(nvme_request_pool_init zero_pool)\<lparr>top := 0\<rparr>"
  from nvme_request_pool_init_wf [of zero_pool]
  have "pool_wf (nvme_request_pool_init zero_pool)" by (simp add: zero_pool_def)
  then have "pool_wf ?p" by (simp add: pool_wf_def free_cids_def)
  moreover have "free_cids ?p = {}" by (simp add: free_cids_def)
  ultimately show ?thesis using nvme_request_alloc_exhaustion [of ?p] by blast
qed

text \<open>freeing a command identifier that is already free is not detected while the pool has
  room: the next two allocations both return it.\<close>

theorem nvme_request_double_free_aliases:
  assumes "pool_wf pool" "top pool + 2 \<le> NVME_REQUEST_POOL_LEN" "unat cid < NVME_REQUEST_POOL_LEN"
  shows "\<exists>p1 p2 p3 p4. nvme_request_free dbg pool cid = Some p1 \<and>
    nvme_request_free dbg p1 cid = Some p2 \<and>
    nvme_request_alloc dbg p2 = Some (Inr (unat cid), p3) \<and>
    nvme_request_alloc dbg p3 = Some (Inr (unat cid), p4)"
proof -
  let ?t = "top pool"
  let ?p1 = "pool\<lparr>stack := (stack pool)[?t := cid], top := ?t + 1\<rparr>"
  let ?p2 = "pool\<lparr>stack := (stack pool)[?t := cid, ?t + 1 := cid], top := ?t + 2\<rparr>"
  from assms have l: "length (stack pool) = NVME_REQUEST_POOL_LEN"
    "length (reqs pool) = NVME_REQUEST_POOL_LEN" by (simp_all add: pool_wf_def)
  have "nvme_request_free dbg pool cid = Some ?p1" "nvme_request_free dbg ?p1 cid = Some ?p2"
    "nvme_request_alloc dbg ?p2 = Some (Inr (unat cid), ?p2\<lparr>top := ?t + 1\<rparr>)"
    "nvme_request_alloc dbg (?p2\<lparr>top := ?t + 1\<rparr>) = Some (Inr (unat cid), ?p2\<lparr>top := ?t\<rparr>)"
    using assms l
    by (simp_all add: nvme_request_free_def nvme_request_alloc_def c_assert_def nth_list_update)
  then show ?thesis by blast
qed

theorem nvme_request_double_free_aliases_witness:
  "\<exists>p. (\<exists>p1 p2 p3 p4. nvme_request_free True p 5 = Some p1 \<and> nvme_request_free True p1 5 = Some p2 \<and>
     nvme_request_alloc True p2 = Some (Inr 5, p3) \<and> nvme_request_alloc True p3 = Some (Inr 5, p4))"
proof -
  let ?p = "(nvme_request_pool_init zero_pool)\<lparr>top := 0\<rparr>"
  from nvme_request_pool_init_wf [of zero_pool]
  have "pool_wf (nvme_request_pool_init zero_pool)" by (simp add: zero_pool_def)
  then have wf: "pool_wf ?p" by (simp add: pool_wf_def free_cids_def)
  have "top ?p + 2 \<le> NVME_REQUEST_POOL_LEN" "unat (5 :: u16) < NVME_REQUEST_POOL_LEN"
    by (simp_all add: NVME_REQUEST_POOL_LEN_def)
  from nvme_request_double_free_aliases [OF wf this, of True]
  have "\<exists>p1 p2 p3 p4. nvme_request_free True ?p 5 = Some p1 \<and> nvme_request_free True p1 5 = Some p2 \<and>
     nvme_request_alloc True p2 = Some (Inr 5, p3) \<and> nvme_request_alloc True p3 = Some (Inr 5, p4)"
    by simp
  then show ?thesis by (rule exI)
qed

end
