(* ===== verification/Nvme_Command.thy ===== *)
theory Nvme_Command
  imports Upcie_Prelude
begin

text \<open>
  The NVMe command and completion of \<open>include/upcie/nvme/nvme_command.h\<close>, field by field. The
  field names carry a prefix since both structures have a \<open>cid\<close>.
\<close>

record nvme_completion =
  cpl_cdw0 :: u32
  cpl_rsvd :: u32
  cpl_sqhd :: u16
  cpl_sqid :: u16
  cpl_cid :: u16
  cpl_status :: u16

record nvme_command =
  cmd_opc :: u8
  cmd_fuse :: u8
  cmd_cid :: u16
  cmd_nsid :: u32
  cmd_rsvd2 :: u64
  cmd_mptr :: u64
  cmd_prp1 :: u64
  cmd_prp2 :: u64
  cmd_cdw10 :: u32
  cmd_cdw11 :: u32
  cmd_cdw12 :: u32
  cmd_cdw13 :: u32
  cmd_cdw14 :: u32
  cmd_cdw15 :: u32

text \<open>The \<open>{0}\<close> initialisers.\<close>

definition zero_completion :: nvme_completion where
  "zero_completion = \<lparr>cpl_cdw0 = 0, cpl_rsvd = 0, cpl_sqhd = 0, cpl_sqid = 0, cpl_cid = 0,
     cpl_status = 0\<rparr>"

definition zero_command :: nvme_command where
  "zero_command = \<lparr>cmd_opc = 0, cmd_fuse = 0, cmd_cid = 0, cmd_nsid = 0, cmd_rsvd2 = 0,
     cmd_mptr = 0, cmd_prp1 = 0, cmd_prp2 = 0, cmd_cdw10 = 0, cmd_cdw11 = 0, cmd_cdw12 = 0,
     cmd_cdw13 = 0, cmd_cdw14 = 0, cmd_cdw15 = 0\<rparr>"

end
