(* ===== verification/Util.thy ===== *)
theory Util
  imports Upcie_Prelude
begin

unbundle bit_operations_syntax

text \<open>
  The one computation of \<open>include/upcie/debug.h\<close>: the shift of a power-of-two size. A shift
  by 64 is undefined in C, so the loop that would reach it has the outcome \<open>None\<close>.
\<close>

function shift_loop :: "u64 \<Rightarrow> nat \<Rightarrow> nat option" where
  "shift_loop page_size shift =
     (if 64 \<le> shift then None
      else if push_bit shift 1 < page_size then shift_loop page_size (shift + 1)
      else Some shift)"
  by pat_completeness auto
termination
  by (relation "measure (\<lambda>(page_size, shift). 64 - shift)") auto

declare shift_loop.simps [simp del]

definition upcie_util_shift_from_size :: "bool \<Rightarrow> u64 \<Rightarrow> nat option" where
  "upcie_util_shift_from_size dbg page_size = do {
     c_assert dbg (page_size \<noteq> 0 \<and> page_size AND (page_size - 1) = 0);
     shift_loop page_size 0 }"

lemma shift_loop_result:
  assumes "s \<le> k" "k < 64" "2 ^ k \<ge> unat p" "\<forall>j. s \<le> j \<and> j < k \<longrightarrow> 2 ^ j < unat p"
  shows "shift_loop p s = Some k"
  using assms
proof (induction p s rule: shift_loop.induct)
  case (1 p s)
  show ?case
  proof (cases "s = k")
    case True
    with "1.prems" show ?thesis
      by (simp add: shift_loop.simps [of p k] word_less_nat_alt unat_two_power not_less)
  next
    case False
    with "1.prems" have "s < k" by simp
    with "1.prems" have "2 ^ s < unat p" "\<not> 64 \<le> s" by auto
    then have lt: "push_bit s 1 < p" by (simp add: word_less_nat_alt unat_two_power)
    have "shift_loop p (s + 1) = Some k"
      using "1.IH" [OF \<open>\<not> 64 \<le> s\<close> lt] "1.prems" \<open>s < k\<close> by auto
    with lt \<open>\<not> 64 \<le> s\<close> show ?thesis by (simp add: shift_loop.simps [of p s])
  qed
qed

lemma power_of_two_assert: "k < 64 \<Longrightarrow> (2 ^ k :: u64) AND (2 ^ k - 1) = 0"
  by (simp add: u64_eq_iff unat_and_mask unat_two_power)

lemma shift_from_power:
  assumes "k < 64"
  shows "upcie_util_shift_from_size dbg (2 ^ k) = Some k"
proof -
  have "shift_loop (2 ^ k) 0 = Some k"
    by (rule shift_loop_result) (use assms in \<open>auto simp: unat_two_power\<close>)
  then show ?thesis
    using power_of_two_assert [OF assms] unat_two_power [OF assms]
    by (auto simp: upcie_util_shift_from_size_def c_assert_def u64_eq_iff)
qed

text \<open>For every power of two up to \<open>2 ^ 63\<close> the loop ends, without an undefined shift, at
  the exponent, in debug and in release builds.\<close>

lemma upcie_util_shift_from_size_power:
  assumes "k < 64"
  shows "upcie_util_shift_from_size dbg (2 ^ k) = Some k"
  by (rule shift_from_power [OF assms])

lemma upcie_util_shift_from_size_power_witness:
  "upcie_util_shift_from_size True (2 ^ 21) = Some 21"
  by (rule upcie_util_shift_from_size_power) simp

end
