(* ===== verification/First_Fit.thy ===== *)
theory First_Fit
  imports Upcie_Prelude
begin

text \<open>
  The abstract allocator that both DMA heaps of the repository implement: a list of blocks
  that tile the heap, first-fit allocation that splits a free block, and a free that merges
  neighbours. Offsets and sizes are natural numbers relative to the start of the heap.

  The parameters say which heap it is. \<open>hdr\<close> is the room in front of every payload (the
  alignment in \<open>hostmem_heap.h\<close>, where the block descriptor lives in the heap itself; 0 in
  \<open>cudamem_heap.h\<close> and \<open>hipmem_heap.h\<close>, where it lives in host memory), \<open>thr\<close> the remainder
  up to which a block is not split (the size of the descriptor, or 0), and \<open>hp\<close> the size of
  the physically contiguous page (hugepage or device page) that an element must not straddle.

  A peculiarity the code has and the specification keeps: the size of the last block includes
  its header, the size of every other block does not.
\<close>

section \<open>Blocks\<close>

datatype blk = Blk (b_off: nat) (b_size: nat) (b_free: bool)

function (sequential) ff_alloc ::
  "nat \<Rightarrow> nat \<Rightarrow> nat \<Rightarrow> nat \<Rightarrow> nat \<Rightarrow> blk list \<Rightarrow> nat option \<times> blk list" where
  "ff_alloc hp hdr thr elem tot [] = (None, [])"
| "ff_alloc hp hdr thr elem tot (Blk p s f # bs) =
     (if f \<and> tot + hdr \<le> s then
        (let rem = hp - p mod hp; dis = (rem - hdr) mod elem in
         if rem < tot + hdr \<and> dis \<noteq> 0 then
           (let (r, bs') = ff_alloc hp hdr thr elem tot
              (Blk (p + hdr + dis) (s - hdr - dis) True # bs)
            in (r, Blk p dis True # bs'))
         else if thr < s - tot - hdr then
           (Some p, Blk p tot False # Blk (p + hdr + tot) (s - tot - hdr) True # bs)
         else (Some p, Blk p s False # bs))
      else (let (r, bs') = ff_alloc hp hdr thr elem tot bs in (r, Blk p s f # bs')))"
  by pat_completeness auto
termination
  by (relation "measure (\<lambda>(hp, hdr, thr, elem, tot, bs). length bs + sum_list (map b_size bs))")
    auto

fun ff_coalesce :: "nat \<Rightarrow> blk list \<Rightarrow> blk list" where
  "ff_coalesce hdr [] = []"
| "ff_coalesce hdr [b] = [b]"
| "ff_coalesce hdr (Blk p s f # Blk q t g # bs) =
     (if f \<and> g then ff_coalesce hdr (Blk p (s + hdr + t) f # bs)
      else Blk p s f # ff_coalesce hdr (Blk q t g # bs))"

definition ff_mark :: "nat \<Rightarrow> blk list \<Rightarrow> blk list" where
  "ff_mark q bs = map (\<lambda>b. if b_off b = q then Blk (b_off b) (b_size b) True else b) bs"

definition ff_free :: "nat \<Rightarrow> nat \<Rightarrow> blk list \<Rightarrow> blk list" where
  "ff_free hdr q bs = ff_coalesce hdr (ff_mark q bs)"

declare ff_alloc.simps [simp del]

section \<open>The invariant: blocks tile the heap\<close>

primrec tiles :: "nat \<Rightarrow> nat \<Rightarrow> nat \<Rightarrow> blk list \<Rightarrow> bool" where
  "tiles hdr S p [] = False"
| "tiles hdr S p (b # bs) =
     (b_off b = p \<and>
      (if bs = [] then p + b_size b = S \<and> (\<not> b_free b \<longrightarrow> hdr \<le> b_size b)
       else tiles hdr S (p + hdr + b_size b) bs))"

text \<open>The payloads that are handed out, as intervals, in the order of the blocks.\<close>

primrec live :: "nat \<Rightarrow> blk list \<Rightarrow> (nat \<times> nat) list" where
  "live hdr [] = []"
| "live hdr (b # bs) =
     (if b_free b then [] else
        [(b_off b + hdr, b_off b + b_size b + (if bs = [] then 0 else hdr))]) @ live hdr bs"

text \<open>Every block starts at a multiple of \<open>a\<close>.\<close>

definition aligned :: "nat \<Rightarrow> blk list \<Rightarrow> bool" where
  "aligned a bs \<longleftrightarrow> (\<forall>b \<in> set bs. a dvd b_off b)"

lemma aligned_simps [simp]:
  "aligned a []"
  "aligned a (b # bs) \<longleftrightarrow> a dvd b_off b \<and> aligned a bs"
  by (simp_all add: aligned_def)

subsection \<open>Payloads are disjoint and inside the heap\<close>

lemma tiles_le: "tiles hdr S p bs \<Longrightarrow> p \<le> S"
  by (induction bs arbitrary: p) (auto split: if_splits dest: le_trans [rotated], fastforce)

lemma tiles_offsets:
  "tiles hdr S p bs \<Longrightarrow> b \<in> set bs \<Longrightarrow> p \<le> b_off b \<and> b_off b + b_size b \<le> S"
proof (induction bs arbitrary: p)
  case (Cons c bs)
  show ?case
  proof (cases "bs = []")
    case True
    with Cons.prems show ?thesis by auto
  next
    case False
    with Cons.prems(1) have t: "tiles hdr S (p + hdr + b_size c) bs" "b_off c = p" by simp_all
    from tiles_le [OF t(1)] Cons.IH [OF t(1)] Cons.prems(2) t(2) show ?thesis by fastforce
  qed
qed simp

lemma tiles_tail:
  "tiles hdr S p (b # bs) \<Longrightarrow> c \<in> set bs \<Longrightarrow> p + hdr + b_size b \<le> b_off c"
  using tiles_offsets [of hdr S "p + hdr + b_size b" bs c] by (auto split: if_splits)

lemma live_bounds:
  "tiles hdr S p bs \<Longrightarrow> x \<in> set (live hdr bs) \<Longrightarrow> p + hdr \<le> fst x \<and> fst x \<le> snd x \<and> snd x \<le> S"
proof (induction bs arbitrary: p)
  case Nil
  then show ?case by simp
next
  case (Cons b bs)
  show ?case
  proof (cases "bs = []")
    case True
    with Cons.prems show ?thesis by (auto split: if_splits)
  next
    case False
    with Cons.prems(1) have t: "tiles hdr S (p + hdr + b_size b) bs" "b_off b = p" by simp_all
    from Cons.prems(2) False t(2) have
      "x = (p + hdr, p + b_size b + hdr) \<or> x \<in> set (live hdr bs)"
      by (auto split: if_splits)
    then show ?thesis
      using Cons.IH [OF t(1)] tiles_le [OF t(1)] by fastforce
  qed
qed

lemma live_disjoint:
  "tiles hdr S p bs \<Longrightarrow> sorted_wrt (\<lambda>x y. snd x \<le> fst y) (live hdr bs)"
proof (induction bs arbitrary: p)
  case Nil
  then show ?case by simp
next
  case (Cons b bs)
  show ?case
  proof (cases "bs = []")
    case True
    then show ?thesis by simp
  next
    case False
    with Cons.prems have t: "tiles hdr S (p + hdr + b_size b) bs" "b_off b = p" by simp_all
    then show ?thesis
      using Cons.IH [OF t(1)] live_bounds [OF t(1)] False by fastforce
  qed
qed

text \<open>With room for a header in front of it, no payload starts where another does.\<close>

lemma live_ordered:
  "tiles hdr S p bs \<Longrightarrow> 0 < hdr \<Longrightarrow> sorted_wrt (\<lambda>x y. fst x < fst y \<and> snd x \<le> fst y) (live hdr bs)"
proof (induction bs arbitrary: p)
  case Nil
  then show ?case by simp
next
  case (Cons b bs)
  show ?case
  proof (cases "bs = []")
    case True
    then show ?thesis by simp
  next
    case False
    with Cons.prems have t: "tiles hdr S (p + hdr + b_size b) bs" "b_off b = p" by simp_all
    then show ?thesis
      using Cons.IH [OF t(1) Cons.prems(2)] live_bounds [OF t(1)] False Cons.prems(2) by fastforce
  qed
qed

text \<open>A payload belongs to a block that is not free.\<close>

lemma live_block:
  "x \<in> set (live hdr bs) \<Longrightarrow> \<exists>b \<in> set bs. \<not> b_free b \<and> fst x = b_off b + hdr"
  by (induction bs) (auto split: if_splits)

section \<open>Allocation\<close>

text \<open>The four ways a block is treated.\<close>

lemma ff_alloc_Nil [simp]: "ff_alloc hp hdr thr elem tot [] = (None, [])"
  by (simp add: ff_alloc.simps)

lemma ff_alloc_walk:
  "\<not> (f \<and> tot + hdr \<le> s) \<Longrightarrow> ff_alloc hp hdr thr elem tot (Blk p s f # bs) =
    (fst (ff_alloc hp hdr thr elem tot bs), Blk p s f # snd (ff_alloc hp hdr thr elem tot bs))"
  by (subst ff_alloc.simps) (auto simp: case_prod_beta)

lemma ff_alloc_skip:
  assumes "tot + hdr \<le> s" "hp - p mod hp < tot + hdr" "(hp - p mod hp - hdr) mod elem = d" "d \<noteq> 0"
  shows "ff_alloc hp hdr thr elem tot (Blk p s True # bs) =
    (fst (ff_alloc hp hdr thr elem tot (Blk (p + hdr + d) (s - hdr - d) True # bs)),
     Blk p d True # snd (ff_alloc hp hdr thr elem tot (Blk (p + hdr + d) (s - hdr - d) True # bs)))"
  using assms by (subst ff_alloc.simps) (simp add: Let_def case_prod_beta)

lemma ff_alloc_fit:
  assumes "tot + hdr \<le> s" "\<not> (hp - p mod hp < tot + hdr \<and> (hp - p mod hp - hdr) mod elem \<noteq> 0)"
  shows "ff_alloc hp hdr thr elem tot (Blk p s True # bs) = (Some p,
    if thr < s - tot - hdr
    then Blk p tot False # Blk (p + hdr + tot) (s - tot - hdr) True # bs
    else Blk p s False # bs)"
  using assms by (subst ff_alloc.simps) (auto simp: Let_def)

text \<open>Induction along the walk, with the parameters of the allocation fixed.\<close>

lemma ff_alloc_walk_induct [case_names Nil Walk Skip Fit]:
  assumes Nil: "P []"
    and Walk: "\<And>p s f bs. \<not> (f \<and> tot + hdr \<le> s) \<Longrightarrow> P bs \<Longrightarrow> P (Blk p s f # bs)"
    and Skip: "\<And>p s bs d. tot + hdr \<le> s \<Longrightarrow> hp - p mod hp < tot + hdr \<Longrightarrow>
      (hp - p mod hp - hdr) mod elem = d \<Longrightarrow> d \<noteq> 0 \<Longrightarrow> hdr + d \<le> s \<Longrightarrow>
      P (Blk (p + hdr + d) (s - hdr - d) True # bs) \<Longrightarrow> P (Blk p s True # bs)"
    and Fit: "\<And>p s bs. tot + hdr \<le> s \<Longrightarrow>
      \<not> (hp - p mod hp < tot + hdr \<and> (hp - p mod hp - hdr) mod elem \<noteq> 0) \<Longrightarrow>
      P (Blk p s True # bs)"
  shows "P bs"
proof (induction "length bs + sum_list (map b_size bs)" arbitrary: bs rule: less_induct)
  case less
  show ?case
  proof (cases bs)
    case bs: (Cons b bs')
    obtain p s f where b: "b = Blk p s f" by (cases b)
    let ?r = "hp - p mod hp"
    let ?d = "(?r - hdr) mod elem"
    consider (walk) "\<not> (f \<and> tot + hdr \<le> s)"
      | (skip) "f" "tot + hdr \<le> s" "?r < tot + hdr" "?d \<noteq> 0"
      | (fit) "f" "tot + hdr \<le> s" "\<not> (?r < tot + hdr \<and> ?d \<noteq> 0)" by blast
    then show ?thesis
    proof cases
      case walk
      have "P bs'" by (rule less) (simp add: bs)
      with Walk [OF walk] bs b show ?thesis by simp
    next
      case skip
      have le: "hdr + ?d \<le> s"
        using skip mod_less_eq_dividend [of "?r - hdr" elem] by linarith
      have "P (Blk (p + hdr + ?d) (s - hdr - ?d) True # bs')"
        by (rule less) (use bs b le skip in simp)
      with Skip [OF skip(2,3) refl skip(4) le] bs b skip show ?thesis by simp
    next
      case fit
      with Fit [OF fit(2,3)] bs b show ?thesis by simp
    qed
  qed (simp add: Nil)
qed

lemma ff_alloc_nonempty [simp]:
  "snd (ff_alloc hp hdr thr elem tot bs) = [] \<longleftrightarrow> bs = []"
  by (induction bs rule: ff_alloc_walk_induct [where tot = tot and hdr = hdr and hp = hp and elem = elem])
    (simp_all add: ff_alloc_walk ff_alloc_skip ff_alloc_fit)

lemma ff_alloc_tiles:
  "tiles hdr S p bs \<Longrightarrow> tiles hdr S p (snd (ff_alloc hp hdr thr elem tot bs))"
proof (induction bs arbitrary: p rule: ff_alloc_walk_induct [where tot = tot and hdr = hdr and hp = hp and elem = elem])
  case (Skip q s bs d)
  have "tiles hdr S (p + hdr + d) (Blk (q + hdr + d) (s - hdr - d) True # bs)"
    using Skip.prems Skip.hyps(5) by (auto split: if_splits simp: add.assoc)
  from Skip.IH [OF this] Skip.prems show ?case
    unfolding ff_alloc_skip [OF Skip.hyps(1-4)] by (simp add: add.assoc)
next
  case (Fit q s bs)
  then show ?case by (auto simp: ff_alloc_fit add.assoc split: if_splits)
qed (auto simp: ff_alloc_walk split: if_splits)

text \<open>What an allocation does to the payloads that are handed out.\<close>

lemma ff_alloc_live_None:
  "fst (ff_alloc hp hdr thr elem tot bs) = None \<Longrightarrow>
   live hdr (snd (ff_alloc hp hdr thr elem tot bs)) = live hdr bs"
  by (induction bs rule: ff_alloc_walk_induct [where tot = tot and hdr = hdr and hp = hp and elem = elem])
    (auto simp: ff_alloc_walk ff_alloc_skip ff_alloc_fit)

lemma ff_alloc_live_Some:
  "fst (ff_alloc hp hdr thr elem tot bs) = Some q \<Longrightarrow>
   \<exists>xs e ys. live hdr bs = xs @ ys \<and> q + hdr + tot \<le> e \<and>
     live hdr (snd (ff_alloc hp hdr thr elem tot bs)) = xs @ (q + hdr, e) # ys"
proof (induction bs rule: ff_alloc_walk_induct [where tot = tot and hdr = hdr and hp = hp and elem = elem])
  case (Walk p s f bs)
  then obtain xs e ys where "live hdr bs = xs @ ys" "q + hdr + tot \<le> e"
    "live hdr (snd (ff_alloc hp hdr thr elem tot bs)) = xs @ (q + hdr, e) # ys"
    by (auto simp: ff_alloc_walk)
  with Walk.hyps show ?case
    by (intro exI [of _ "(if f then [] else
        [(p + hdr, p + s + (if bs = [] then 0 else hdr))]) @ xs"] exI [of _ e] exI [of _ ys])
      (simp add: ff_alloc_walk)
next
  case (Skip p s bs d)
  then show ?case by (simp add: ff_alloc_skip)
next
  case (Fit p s bs)
  let ?b = "if thr < s - tot - hdr then Blk p tot False else Blk p s False"
  have "q = p" using Fit by (simp add: ff_alloc_fit)
  with Fit.hyps show ?case
    by (intro exI [of _ "[]"] exI [of _ "live hdr bs"]
        exI [of _ "if thr < s - tot - hdr then p + tot + hdr
                   else p + s + (if bs = [] then 0 else hdr)"])
      (auto simp: ff_alloc_fit)
qed simp

section \<open>Alignment and page boundaries\<close>

lemma dvd_remaining:
  assumes "a dvd (hp :: nat)" "a dvd p" "0 < hp"
  shows "a dvd hp - p mod hp" "a \<le> hp - p mod hp"
proof -
  show d: "a dvd hp - p mod hp" using assms(1,2) by (simp add: dvd_mod)
  have "0 < hp - p mod hp" using assms(3) by simp
  with d show "a \<le> hp - p mod hp" by (rule dvd_imp_le)
qed

lemma ff_alloc_aligned:
  assumes "a dvd hp" "a dvd hdr" "a dvd elem" "a dvd tot" "aligned a bs"
  shows "aligned a (snd (ff_alloc hp hdr thr elem tot bs))"
  using assms(5)
proof (induction bs rule: ff_alloc_walk_induct [where tot = tot and hdr = hdr and hp = hp and elem = elem])
  case (Skip p s bs d)
  have "a dvd hp - p mod hp" using Skip.prems assms(1) by (simp add: dvd_mod)
  then have "a dvd hp - p mod hp - hdr" by (rule dvd_diff_nat) (rule assms(2))
  then have "a dvd d" using assms(3) Skip.hyps(3) dvd_mod by blast
  with Skip assms show ?case by (simp add: ff_alloc_skip)
qed (use assms in \<open>auto simp: ff_alloc_walk ff_alloc_fit\<close>)

lemma ff_alloc_result_aligned:
  assumes "a dvd hp" "a dvd hdr" "a dvd elem" "aligned a bs"
    and "fst (ff_alloc hp hdr thr elem tot bs) = Some q"
  shows "a dvd q"
  using assms(4,5)
proof (induction bs rule: ff_alloc_walk_induct [where tot = tot and hdr = hdr and hp = hp and elem = elem])
  case (Skip p s bs d)
  have "a dvd hp - p mod hp" using Skip.prems assms(1) by (simp add: dvd_mod)
  then have "a dvd hp - p mod hp - hdr" by (rule dvd_diff_nat) (rule assms(2))
  then have "a dvd d" using assms(3) Skip.hyps(3) dvd_mod by blast
  with Skip assms show ?case by (simp add: ff_alloc_skip)
qed (auto simp: ff_alloc_walk ff_alloc_fit)

text \<open>Where a block is taken, it either fits before the page boundary or meets it exactly.\<close>

lemma ff_alloc_result_fit:
  "fst (ff_alloc hp hdr thr elem tot bs) = Some q \<Longrightarrow>
   tot + hdr \<le> hp - q mod hp \<or> (hp - q mod hp - hdr) mod elem = 0"
  by (induction bs rule: ff_alloc_walk_induct [where tot = tot and hdr = hdr and hp = hp and elem = elem])
    (auto simp: ff_alloc_walk ff_alloc_skip ff_alloc_fit)

text \<open>An interval that starts a multiple of its length before a page boundary stays in a page.\<close>

lemma same_page:
  assumes "0 < n" "(x :: nat) mod hp + n \<le> hp"
  shows "x div hp = (x + n - 1) div hp"
proof -
  have "x + n - 1 = hp * (x div hp) + (x mod hp + n - 1)"
    using assms(1) by (metis Nat.add_diff_assoc One_nat_def Suc_leI add.assoc mult_div_mod_eq trans_le_add2)
  moreover have "x mod hp + n - 1 < hp" using assms by linarith
  ultimately show ?thesis by simp
qed

lemma no_straddle_from_boundary:
  assumes "0 < elem" "0 < hp" "elem dvd (hp :: nat)" "elem dvd (hp - x mod hp)"
  shows "(x + i * elem) div hp = (x + i * elem + elem - 1) div hp"
proof (rule same_page [OF assms(1)])
  have "x mod hp < hp" using assms(2) by simp
  then have "elem dvd x mod hp"
    using assms(3,4) by (metis dvd_diff_nat diff_diff_cancel less_imp_le_nat)
  then have "elem dvd x" using assms(3) by (metis dvd_mod_iff)
  then have "elem dvd (x + i * elem) mod hp" using assms(3) by (simp add: dvd_mod)
  moreover have "(x + i * elem) mod hp < hp" using assms(2) by simp
  ultimately show "(x + i * elem) mod hp + elem \<le> hp"
    using assms(3) by (metis dvd_diff_nat dvd_imp_le le_diff_conv2 less_imp_le_nat add.commute zero_less_diff)
qed

text \<open>An array that starts in a page at a multiple of the element size before its end.\<close>

lemma array_crosses_at_element:
  assumes pos: "0 < hp" "0 < elem" and le: "n * elem \<le> hp" and i: "i < n" and d: "elem dvd hp - p mod hp"
  shows "(p + i * elem) div hp = (p + i * elem + elem - 1) div (hp :: nat)"
proof -
  have ni: "i * elem + elem \<le> n * elem"
    using i by (metis Suc_leI mult_Suc mult_le_mono1 add.commute)
  from d obtain k where "hp - p mod hp = k * elem" by (auto simp: dvd_def mult.commute)
  then have x: "p mod hp + k * elem = hp" using mod_less_divisor [OF pos(1), of p] by linarith
  show ?thesis
  proof (cases "i < k")
    case True
    then have ik: "i * elem + elem \<le> k * elem"
      by (metis Suc_leI mult_Suc mult_le_mono1 add.commute)
    then have "p mod hp + i * elem < hp" using x pos by linarith
    then have "(p + i * elem) mod hp = p mod hp + i * elem" by (metis mod_add_left_eq mod_less)
    with ik x show ?thesis by (intro same_page [OF pos(2)]) linarith
  next
    case False
    then have ik: "i * elem = k * elem + (i - k) * elem" by (simp add: add_mult_distrib [symmetric])
    have c: "(i - k) * elem + elem \<le> hp" using ni ik le x by linarith
    then have c': "(i - k) * elem < hp" using pos by linarith
    have "(p + i * elem) mod hp = (p mod hp + k * elem + (i - k) * elem) mod hp"
      using ik by (metis add.assoc mod_add_left_eq)
    also have "\<dots> = (i - k) * elem" using x c' by simp
    finally show ?thesis using c by (intro same_page [OF pos(2)]) simp
  qed
qed

text \<open>An array at \<open>p\<close>: it ends in the page it starts in, or starts at a page, or its elements meet the page's end.\<close>

lemma array_no_straddle:
  assumes pos: "0 < hp" "0 < elem" and sz: "n * elem \<le> hp \<or> elem dvd hp" and i: "i < n"
    and start: "p mod hp + n * elem \<le> hp \<or> p mod hp = 0 \<or> elem dvd hp - p mod hp"
  shows "(p + i * elem) div hp = (p + i * elem + elem - 1) div (hp :: nat)"
proof -
  have within: ?thesis if "p mod hp + n * elem \<le> hp"
  proof -
    have e: "p mod hp + i * elem + elem \<le> hp"
      using i that by (metis Suc_leI add.commute add.left_commute add_left_mono le_trans mult_Suc mult_le_mono1)
    then have "p mod hp + i * elem < hp" using pos by linarith
    then have "(p + i * elem) mod hp = p mod hp + i * elem" by (metis mod_add_left_eq mod_less)
    with e show ?thesis by (intro same_page [OF pos(2)]) simp
  qed
  from start sz consider (within) "p mod hp + n * elem \<le> hp" | (grid) "elem dvd hp" "elem dvd hp - p mod hp"
    | (meet) "n * elem \<le> hp" "elem dvd hp - p mod hp" by fastforce
  then show ?thesis
  proof cases
    case grid
    from no_straddle_from_boundary [OF pos(2,1) grid] show ?thesis .
  next
    case meet
    from array_crosses_at_element [OF pos meet(1) i meet(2)] show ?thesis .
  qed (rule within)
qed

text \<open>
  The elements of an array allocation do not straddle page boundaries, for the element sizes
  the code lets through (an element fits in a page, and divides the page when the array does
  not fit in one).
\<close>

lemma ff_alloc_no_straddle:
  assumes alloc: "fst (ff_alloc hp hdr thr elem tot bs) = Some q" and tot: "n * elem \<le> tot"
    and pos: "0 < hp" "0 < elem" "0 < a" and sz: "n * elem \<le> hp \<or> elem dvd hp"
    and al: "a dvd hp" "a dvd hdr" "a dvd elem" "hdr \<le> a" "aligned a bs"
    and i: "i < n"
  shows "(q + hdr + i * elem) div hp = (q + hdr + i * elem + elem - 1) div hp"
proof (rule array_no_straddle [OF pos(1,2) sz i])
  let ?rem = "hp - q mod hp"
  have q: "a dvd q" by (rule ff_alloc_result_aligned [OF al(1,2,3,5) alloc])
  have hrem: "hdr \<le> ?rem" using dvd_remaining(2) [OF al(1) q pos(1)] al(4) by simp
  have qm: "q mod hp < hp" using pos by simp
  have inside: "(q + hdr) mod hp = q mod hp + hdr" if "hdr < ?rem"
  proof -
    have "q mod hp + hdr < hp" using that qm by linarith
    then show ?thesis by (metis mod_add_left_eq mod_less)
  qed
  have at_end: "(q + hdr) mod hp = 0" if "hdr = ?rem"
  proof -
    have "q mod hp + hdr = hp" using that qm by linarith
    then show ?thesis by (metis mod_add_left_eq mod_self)
  qed
  have "n * elem + hdr \<le> ?rem \<or> (?rem - hdr) mod elem = 0"
    using ff_alloc_result_fit [OF alloc] tot by linarith
  then show "(q + hdr) mod hp + n * elem \<le> hp \<or> (q + hdr) mod hp = 0 \<or> elem dvd hp - (q + hdr) mod hp"
  proof (cases "hdr < ?rem")
    case True
    then show ?thesis
      using inside [OF True] \<open>n * elem + hdr \<le> ?rem \<or> (?rem - hdr) mod elem = 0\<close>
      by (auto simp: mod_eq_0_iff_dvd)
  next
    case False
    with hrem at_end show ?thesis by simp
  qed
qed

section \<open>Freeing\<close>

lemma ff_coalesce_Nil_iff [simp]: "ff_coalesce hdr bs = [] \<longleftrightarrow> bs = []"
  by (induction hdr bs rule: ff_coalesce.induct) auto

lemma ff_coalesce_tiles: "tiles hdr S p bs \<Longrightarrow> tiles hdr S p (ff_coalesce hdr bs)"
proof (induction hdr bs arbitrary: p rule: ff_coalesce.induct)
  case (3 hdr q s f r t g bs)
  show ?case
  proof (cases "f \<and> g")
    case True
    have "tiles hdr S p (Blk q (s + hdr + t) f # bs)"
      using "3.prems" True by (auto split: if_splits simp: algebra_simps)
    from "3.IH"(1) [OF True this] True "3.prems" show ?thesis by auto
  next
    case False
    from "3.prems" have "tiles hdr S (p + hdr + s) (Blk r t g # bs)" "q = p"
      by (auto split: if_splits)
    with "3.IH"(2) [OF False] False show ?thesis by auto
  qed
qed auto

lemma ff_coalesce_live: "live hdr (ff_coalesce hdr bs) = live hdr bs"
  by (induction hdr bs rule: ff_coalesce.induct) auto

lemma ff_coalesce_aligned: "aligned a bs \<Longrightarrow> aligned a (ff_coalesce hdr bs)"
  by (induction hdr bs rule: ff_coalesce.induct) auto

text \<open>After merging, no two neighbours are free.\<close>

fun merged :: "blk list \<Rightarrow> bool" where
  "merged (b # c # bs) \<longleftrightarrow> \<not> (b_free b \<and> b_free c) \<and> merged (c # bs)"
| "merged _ \<longleftrightarrow> True"

lemma ff_coalesce_hd:
  "bs \<noteq> [] \<Longrightarrow> b_free (hd (ff_coalesce hdr bs)) = b_free (hd bs)"
  by (induction hdr bs rule: ff_coalesce.induct) auto

lemma merged_Cons:
  "merged bs \<Longrightarrow> bs = [] \<or> \<not> (b_free b \<and> b_free (hd bs)) \<Longrightarrow> merged (b # bs)"
  by (cases bs) auto

lemma ff_coalesce_merged: "merged (ff_coalesce hdr bs)"
proof (induction hdr bs rule: ff_coalesce.induct)
  case (3 hdr p s f q t g bs)
  show ?case
  proof (cases "f \<and> g")
    case True
    with 3 show ?thesis by simp
  next
    case False
    with 3 ff_coalesce_hd [of "Blk q t g # bs" hdr] show ?thesis
      by (auto intro!: merged_Cons)
  qed
qed auto

lemma ff_coalesce_all_free:
  "tiles hdr S p bs \<Longrightarrow> \<forall>b \<in> set bs. b_free b \<Longrightarrow> ff_coalesce hdr bs = [Blk p (S - p) True]"
proof (induction hdr bs arbitrary: p rule: ff_coalesce.induct)
  case (2 hdr b)
  then show ?case by (cases b) auto
next
  case (3 hdr q s f r t g bs)
  then have t: "tiles hdr S p (Blk q (s + hdr + t) f # bs)" and fg: "f \<and> g"
    by (auto split: if_splits simp: algebra_simps)
  have "\<forall>b \<in> set (Blk q (s + hdr + t) f # bs). b_free b" using "3.prems"(2) by simp
  from "3.IH"(1) [OF fg t this] fg show ?case by simp
qed simp

lemma ff_mark_Nil_iff [simp]: "ff_mark q bs = [] \<longleftrightarrow> bs = []"
  by (simp add: ff_mark_def)

lemma ff_mark_Cons [simp]:
  "ff_mark q (b # bs) = (if b_off b = q then Blk (b_off b) (b_size b) True else b) # ff_mark q bs"
  by (simp add: ff_mark_def)

lemma ff_mark_Nil [simp]: "ff_mark q [] = []"
  by (simp add: ff_mark_def)

lemma ff_mark_tiles: "tiles hdr S p bs \<Longrightarrow> tiles hdr S p (ff_mark q bs)"
  by (induction bs arbitrary: p) (auto split: if_splits)

lemma ff_mark_live: "live hdr (ff_mark q bs) = filter (\<lambda>x. fst x \<noteq> q + hdr) (live hdr bs)"
  by (induction bs) auto

lemma ff_mark_aligned: "aligned a bs \<Longrightarrow> aligned a (ff_mark q bs)"
  by (induction bs) auto

lemma ff_free_tiles: "tiles hdr S p bs \<Longrightarrow> tiles hdr S p (ff_free hdr q bs)"
  by (simp add: ff_free_def ff_coalesce_tiles ff_mark_tiles)

lemma ff_free_live: "live hdr (ff_free hdr q bs) = filter (\<lambda>x. fst x \<noteq> q + hdr) (live hdr bs)"
  by (simp add: ff_free_def ff_coalesce_live ff_mark_live)

lemma ff_free_aligned: "aligned a bs \<Longrightarrow> aligned a (ff_free hdr q bs)"
  by (simp add: ff_free_def ff_coalesce_aligned ff_mark_aligned)

lemma live_Nil_iff: "live hdr bs = [] \<longleftrightarrow> (\<forall>b \<in> set bs. b_free b)"
  by (induction bs) auto

text \<open>When the last payload is given back, the heap is the one free block it started as.\<close>

lemma ff_free_last:
  assumes "tiles hdr S p bs" "live hdr (ff_free hdr q bs) = []"
  shows "ff_free hdr q bs = [Blk p (S - p) True]"
proof -
  have "live hdr (ff_mark q bs) = []" using assms(2) by (simp add: ff_free_live ff_mark_live)
  then have "\<forall>b \<in> set (ff_mark q bs). b_free b" by (simp add: live_Nil_iff)
  from ff_coalesce_all_free [OF ff_mark_tiles [OF assms(1)] this] show ?thesis
    by (simp add: ff_free_def)
qed

section \<open>Heaps without headers\<close>

text \<open>With descriptors outside the heap a block is its payload, and blocks of positive size keep
  the payloads apart.\<close>

definition positive :: "blk list \<Rightarrow> bool" where
  "positive bs \<longleftrightarrow> (\<forall>b \<in> set bs. 0 < b_size b)"

lemma positive_simps [simp]:
  "positive []" "positive (b # bs) \<longleftrightarrow> 0 < b_size b \<and> positive bs"
  by (simp_all add: positive_def)

lemma ff_alloc_positive:
  assumes "0 < tot"
  shows "positive bs \<Longrightarrow> positive (snd (ff_alloc hp 0 0 elem tot bs))"
proof (induction bs rule: ff_alloc_walk_induct [where tot = tot and hdr = 0 and hp = hp and elem = elem])
  case (Skip p s bs d)
  have "d \<le> hp - p mod hp" using Skip.hyps(3) by auto
  then have "0 < s - d" using Skip.hyps(1,2) by linarith
  with Skip show ?case by (simp add: ff_alloc_skip)
qed (use assms in \<open>auto simp: ff_alloc_walk ff_alloc_fit\<close>)

lemma ff_coalesce_positive: "positive bs \<Longrightarrow> positive (ff_coalesce hdr bs)"
  by (induction hdr bs rule: ff_coalesce.induct) auto

lemma ff_mark_positive: "positive bs \<Longrightarrow> positive (ff_mark q bs)"
  by (induction bs) auto

lemma ff_free_positive: "positive bs \<Longrightarrow> positive (ff_free hdr q bs)"
  by (simp add: ff_free_def ff_coalesce_positive ff_mark_positive)

lemma positive_offsets:
  "tiles 0 S p bs \<Longrightarrow> positive bs \<Longrightarrow> distinct (map b_off bs)"
proof (induction bs arbitrary: p)
  case (Cons b bs)
  have "b_off b < b_off c" if "c \<in> set bs" for c
    using tiles_tail [OF Cons.prems(1) that] Cons.prems by simp
  moreover have "distinct (map b_off bs)"
    using Cons by (cases "bs = []") auto
  ultimately show ?case by fastforce
qed simp

lemma live_positive: "positive bs \<Longrightarrow> x \<in> set (live 0 bs) \<Longrightarrow> fst x < snd x"
  by (induction bs) (auto split: if_splits)

lemma live_ordered_positive:
  assumes "tiles 0 S p bs" "positive bs"
  shows "sorted_wrt (\<lambda>x y. fst x < fst y \<and> snd x \<le> fst y) (live 0 bs)"
  by (rule sorted_wrt_mono_rel [OF _ live_disjoint [OF assms(1)]])
    (use live_positive [OF assms(2)] in force)

section \<open>Where first fit cannot succeed\<close>

text \<open>
  The skip moves to the next block by \<open>hdr\<close> and the misalignment, so the payload behind the
  header of the new block is again misaligned by \<open>hdr\<close>. With elements larger than the
  header and an array that does not fit in a page, every block of a fresh heap is skipped.
\<close>

lemma ff_alloc_never_fits:
  assumes "hdr < elem" "0 < hdr" "elem dvd hp" "0 < hp" "hp < tot + hdr" "elem dvd p"
  shows "fst (ff_alloc hp hdr thr elem tot [Blk p s True]) = None"
  using assms(6)
proof (induction s arbitrary: p rule: less_induct)
  case (less s)
  show ?case
  proof (cases "tot + hdr \<le> s")
    case False
    then show ?thesis by (simp add: ff_alloc_walk)
  next
    case True
    let ?rem = "hp - p mod hp"
    have d: "elem dvd ?rem" "elem \<le> ?rem"
      using dvd_remaining [OF assms(3) less.prems assms(4)] by simp_all
    then obtain k where k: "?rem = elem * Suc k"
      by (metis assms(1) dvdE gr0_implies_Suc le_zero_eq mult_0_right not_less_zero zero_less_iff_neq_zero)
    have "?rem - hdr = elem * k + (elem - hdr)" using k assms(1) by simp
    then have "(?rem - hdr) mod elem = (elem - hdr) mod elem"
      by (simp only: mod_mult_self4)
    then have dis: "(?rem - hdr) mod elem = elem - hdr" using assms(1,2) by simp
    have dis': "elem - hdr \<noteq> 0" using assms(1) by simp
    have rem: "?rem < tot + hdr" using assms(5) by (meson diff_le_self le_less_trans)
    have next_off: "p + hdr + (elem - hdr) = p + elem" using assms(1) by simp
    have smaller: "s - hdr - (elem - hdr) < s" using True assms(1,5) by linarith
    have "elem dvd p + elem" using less.prems by simp
    from less.IH [OF smaller this] show ?thesis
      by (simp add: ff_alloc_skip [OF True rem dis dis'] next_off)
  qed
qed

end
