(* ===== verification/Hostmem_Heap.thy ===== *)
theory Hostmem_Heap
  imports First_Fit
begin

unbundle bit_operations_syntax

text \<open>
  The hugepage heap of \<open>include/upcie/hostmem_heap.h\<close>: allocation and release.

  The descriptors of the blocks live in the heap itself, one alignment in front of the
  payload, and are linked by pointers. The model keeps that: \<open>hdrs\<close> maps an address to the
  descriptor stored there, and the loops follow and update \<open>next\<close> pointers, each field write
  in the order of the code, so that an alias (a new descriptor written over an old one) has
  its effect. Reading a descriptor where none was written is undefined. A client that writes
  outside its payload is not modelled.
\<close>

section \<open>Data\<close>

record hostmem_config =
  hugetlb_path :: string
  memfd_flags :: int
  backend :: int
  count :: int
  pagesize :: int
  pagesize_shift :: int
  hugepgsz :: int
  hugepgsz_shift :: int

record hostmem_heap_block =
  size' :: u64
  free' :: bool
  next' :: u64

type_synonym block_store = "u64 \<Rightarrow> hostmem_heap_block option"

record hostmem_heap =
  virt :: u64                    \<comment> \<open>\<open>memory.virt\<close>\<close>
  memsize :: u64                 \<comment> \<open>\<open>memory.size\<close>\<close>
  hdrs :: block_store            \<comment> \<open>the block descriptors in the heap memory\<close>
  freelist :: u64
  config :: hostmem_config
  nphys :: u64
  phys_lut :: "u64 list"

text \<open>\<open>sizeof(struct hostmem_heap_block)\<close> on the 64-bit targets the code supports.\<close>

definition sizeof_block :: u64 where "sizeof_block = 24"

section \<open>Release\<close>

partial_function (option) coalesce_loop :: "u64 \<Rightarrow> block_store \<Rightarrow> u64 \<Rightarrow> block_store option" where
  "coalesce_loop alignment st block =
     (if block = 0 then Some st
      else do {
        b \<leftarrow> st block;
        if next' b = 0 then Some st
        else do {
          n \<leftarrow> st (next' b);
          if free' b \<and> free' n then
            coalesce_loop alignment
              (st(block \<mapsto> b\<lparr>size' := size' b + (alignment + size' n), next' := next' n\<rparr>)) block
          else coalesce_loop alignment st (next' b) } })"

definition hostmem_heap_block_free :: "hostmem_heap \<Rightarrow> u64 \<Rightarrow> hostmem_heap option" where
  "hostmem_heap_block_free heap ptr =
     (let alignment = size_of_int (pagesize (config heap)) in
      if ptr = 0 then Some heap
      else do {
        b \<leftarrow> hdrs heap (ptr - alignment);
        st \<leftarrow> coalesce_loop alignment
                ((hdrs heap)(ptr - alignment \<mapsto> b\<lparr>free' := True\<rparr>)) (freelist heap);
        Some (heap\<lparr>hdrs := st\<rparr>) })"

section \<open>Allocation\<close>

text \<open>
  Writing \<open>newblock\<close> and then linking it behind \<open>block\<close>: five field writes, the last two
  through the pointer \<open>block\<close>, which sees the first three if the two addresses are equal.
\<close>

definition insert_block ::
  "block_store \<Rightarrow> u64 \<Rightarrow> u64 \<Rightarrow> u64 \<Rightarrow> u64 \<Rightarrow> block_store option" where
  "insert_block st block newblock newsize sz = do {
     b \<leftarrow> st block;
     let st1 = st(newblock \<mapsto> \<lparr>size' = newsize, free' = True, next' = next' b\<rparr>);
     b1 \<leftarrow> st1 block;
     Some (st1(block \<mapsto> b1\<lparr>next' := newblock, size' := sz\<rparr>)) }"

partial_function (option) alloc_loop ::
  "u64 \<Rightarrow> u64 \<Rightarrow> u64 \<Rightarrow> u64 \<Rightarrow> u64 \<Rightarrow> block_store \<Rightarrow> u64 \<Rightarrow> ((int + u64) \<times> block_store) option" where
  "alloc_loop base hugepg total_size elem_size alignment st block =
     (if block = 0 then Some (Inl ENOMEM, st)
      else do {
        b \<leftarrow> st block;
        if free' b \<and> total_size + alignment \<le> size' b then
          (let offset = block - base;
               in_hpage_offset = offset mod hugepg;
               hpage_remaining = hugepg - in_hpage_offset;
               disalignment = (hpage_remaining - alignment) mod elem_size
           in if hpage_remaining < total_size + alignment \<and> disalignment \<noteq> 0 then
                do {
                  st' \<leftarrow> insert_block st block (block + alignment + disalignment)
                           (size' b - alignment - disalignment) disalignment;
                  b' \<leftarrow> st' block;
                  alloc_loop base hugepg total_size elem_size alignment st' (next' b') }
              else do {
                st' \<leftarrow> (if sizeof_block < size' b - total_size - alignment
                        then insert_block st block (block + alignment + total_size)
                               (size' b - total_size - alignment) total_size
                        else Some st);
                b' \<leftarrow> st' block;
                Some (Inr (block + alignment), st'(block \<mapsto> b'\<lparr>free' := False\<rparr>)) })
        else alloc_loop base hugepg total_size elem_size alignment st (next' b) })"

definition hostmem_heap_block_alloc_array_aligned ::
  "bool \<Rightarrow> hostmem_heap \<Rightarrow> u64 \<Rightarrow> u64 \<Rightarrow> u64 \<Rightarrow> ((int + u64) \<times> hostmem_heap) option" where
  "hostmem_heap_block_alloc_array_aligned dbg heap elem_count elem_size alignment =
     (if elem_size = 0 then None
      else if SIZE_MAX div elem_size < elem_count then Some (Inl EINVAL, heap)
      else do {
        let total_size = elem_count * elem_size;
        let hugepg = size_of_int (hugepgsz (config heap));
        c_assert dbg (sizeof_block < alignment);
        if hugepg < elem_size \<or> (hugepg < total_size \<and> hugepg mod elem_size \<noteq> 0)
        then Some (Inl ENOMEM, heap)
        else do {
          (r, st) \<leftarrow> alloc_loop (virt heap) hugepg total_size elem_size alignment
                      (hdrs heap) (freelist heap);
          Some (r, heap\<lparr>hdrs := st\<rparr>) } })"

definition hostmem_heap_block_alloc_array ::
  "bool \<Rightarrow> hostmem_heap \<Rightarrow> u64 \<Rightarrow> u64 \<Rightarrow> ((int + u64) \<times> hostmem_heap) option" where
  "hostmem_heap_block_alloc_array dbg heap elem_count elem_size =
     hostmem_heap_block_alloc_array_aligned dbg heap elem_count elem_size
       (size_of_int (pagesize (config heap)))"

text \<open>The rounding is computed on \<open>size_t\<close>, its mask on \<open>int\<close>.\<close>

definition hostmem_heap_block_alloc_aligned ::
  "bool \<Rightarrow> hostmem_heap \<Rightarrow> u64 \<Rightarrow> u64 \<Rightarrow> ((int + u64) \<times> hostmem_heap) option" where
  "hostmem_heap_block_alloc_aligned dbg heap nbytes alignment =
     (let pg = size_of_int (pagesize (config heap));
          total_size = (nbytes + pg - 1) AND size_of_int (NOT (pagesize (config heap) - 1));
          elem_count = total_size div pg;
          elem_size = pg
      in hostmem_heap_block_alloc_array_aligned dbg heap elem_count elem_size alignment)"

definition hostmem_heap_block_alloc ::
  "bool \<Rightarrow> hostmem_heap \<Rightarrow> u64 \<Rightarrow> ((int + u64) \<times> hostmem_heap) option" where
  "hostmem_heap_block_alloc dbg heap nbytes =
     hostmem_heap_block_alloc_aligned dbg heap nbytes (size_of_int (pagesize (config heap)))"

section \<open>From pointers to lists\<close>

text \<open>
  The store holds, from the given pointer on, exactly the blocks of a list: each at its offset
  from the start of the heap, with its size and flag, linked to the next.
\<close>

primrec repr :: "u64 \<Rightarrow> block_store \<Rightarrow> u64 \<Rightarrow> blk list \<Rightarrow> bool" where
  "repr v st p [] \<longleftrightarrow> p = 0"
| "repr v st p (b # bs) \<longleftrightarrow> p = v + of_nat (b_off b) \<and> p \<noteq> 0 \<and>
     (\<exists>n. st p = Some \<lparr>size' = of_nat (b_size b), free' = b_free b, next' = n\<rparr> \<and> repr v st n bs)"

lemma repr_cong:
  "(\<And>b. b \<in> set bs \<Longrightarrow> st' (v + of_nat (b_off b)) = st (v + of_nat (b_off b))) \<Longrightarrow>
   repr v st' p bs = repr v st p bs"
  by (induction bs arbitrary: p) auto

lemma insert_block_fresh:
  assumes "st p = Some \<lparr>size' = s, free' = f, next' = n\<rparr>" "nb \<noteq> p"
  shows "insert_block st p nb ns sz =
    Some (st(nb \<mapsto> \<lparr>size' = ns, free' = True, next' = n\<rparr>, p \<mapsto> \<lparr>size' = sz, free' = f, next' = nb\<rparr>))"
  using assms by (simp add: insert_block_def)

end
