(* ===== verification/Hostmem_Refine.thy ===== *)
theory Hostmem_Refine
  imports Hostmem_Heap
begin

unbundle bit_operations_syntax

text \<open>
  The pointer loops of the hugepage heap compute what the abstract allocator computes: the
  refinement of \<open>coalesce_loop\<close> and \<open>alloc_loop\<close> to \<open>ff_coalesce\<close> and \<open>ff_alloc\<close>, and of the
  operations built from them.
\<close>

section \<open>Coalescing\<close>

lemma repr_update:
  assumes "space_ok v S" "tiles hdr S q bs" "x < q"
  shows "repr v (st(v + of_nat x \<mapsto> h)) n bs = repr v st n bs"
proof (rule repr_cong)
  fix b assume "b \<in> set bs"
  then have "q \<le> b_off b" "b_off b \<le> S" using tiles_offsets [OF assms(2)] by force+
  then show "(st(v + of_nat x \<mapsto> h)) (v + of_nat (b_off b)) = st (v + of_nat (b_off b))"
    using space_ok_eq [OF assms(1), of x "b_off b"] assms(3) by auto
qed

lemma coalesce_loop_refines:
  assumes "space_ok v S" "0 < unat al" "tiles (unat al) S q bs" "repr v st p bs"
  shows "\<exists>st'. coalesce_loop al st p = Some st' \<and> repr v st' p (ff_coalesce (unat al) bs) \<and>
    (\<forall>x < q. st' (v + of_nat x) = st (v + of_nat x))"
  using assms(3,4)
proof (induction "unat al" bs arbitrary: st p q rule: ff_coalesce.induct)
  case 1
  then show ?case by simp
next
  case (2 b)
  then show ?case by (subst coalesce_loop.simps) auto
next
  case (3 q0 s f r t g bs)
  from "3.prems"(1) have q: "q0 = q" "r = q + unat al + s"
    and t1: "tiles (unat al) S (q + unat al + s) (Blk r t g # bs)"
    by (auto split: if_splits)
  from "3.prems"(2) q obtain n1 n2 where
    p: "p = v + of_nat q" "p \<noteq> 0"
    and st: "st p = Some \<lparr>size' = of_nat s, free' = f, next' = n1\<rparr>"
    and n1: "n1 = v + of_nat r" "n1 \<noteq> 0"
    and st1: "st n1 = Some \<lparr>size' = of_nat t, free' = g, next' = n2\<rparr>"
    and rest: "repr v st n2 bs" by auto
  show ?case
  proof (cases "f \<and> g")
    case True
    let ?st = "st(p \<mapsto> \<lparr>size' = of_nat (s + unat al + t), free' = f, next' = n2\<rparr>)"
    have t2: "tiles (unat al) S q (Blk q (s + unat al + t) f # bs)"
      using "3.prems"(1) True by (auto split: if_splits simp: algebra_simps)
    have "repr v ?st n2 bs"
    proof (cases "bs = []")
      case False
      with t1 q(2) have "tiles (unat al) S (r + unat al + t) bs" by simp
      from repr_update [OF assms(1) this, of q] q rest p(1) assms(2) show ?thesis by simp
    qed (use rest in simp)
    then have "repr v ?st p (Blk q0 (s + unat al + t) f # bs)"
      using p q(1) by simp
    from "3.hyps"(1) [OF True _ this, of q] t2 q(1) obtain st' where
      IH: "coalesce_loop al ?st p = Some st'"
      "repr v st' p (ff_coalesce (unat al) (Blk q (s + unat al + t) f # bs))"
      "\<forall>x<q. st' (v + of_nat x) = ?st (v + of_nat x)" by auto
    have "coalesce_loop al st p = coalesce_loop al ?st p"
      using p st n1(2) st1 True
      by (subst coalesce_loop.simps) (simp add: add.assoc word_of_nat_eq_iff)
    moreover have "\<forall>x<q. st' (v + of_nat x) = st (v + of_nat x)"
      using IH(3) p(1) space_ok_eq [OF assms(1), of _ q] tiles_le [OF "3.prems"(1)] by fastforce
    ultimately show ?thesis using IH True q(1) by auto
  next
    case False
    from "3.hyps"(2) [OF False t1, of st n1] n1 st1 rest obtain st' where
      IH: "coalesce_loop al st n1 = Some st'"
      "repr v st' n1 (ff_coalesce (unat al) (Blk r t g # bs))"
      "\<forall>x < q + unat al + s. st' (v + of_nat x) = st (v + of_nat x)" by auto
    have "coalesce_loop al st p = coalesce_loop al st n1"
      using p st n1(2) st1 False by (subst coalesce_loop.simps) auto
    moreover have "st' p = st p" using IH(3) p(1) assms(2) by simp
    ultimately show ?thesis using IH False p st q(1) by auto
  qed
qed

section \<open>Allocation\<close>

lemma of_nat_le_u64:
  "x < 2 ^ 64 \<Longrightarrow> (w :: u64) \<le> of_nat x \<longleftrightarrow> unat w \<le> x"
  by (simp add: word_le_nat_alt unat_of_nat_u64)

text \<open>The hugepage arithmetic of the loop, on the offset of a block.\<close>

lemma hpage_arith:
  assumes "x < 2 ^ 64" "0 < unat hp"
  shows "unat (hp - (of_nat x mod hp)) = unat hp - x mod unat (hp :: u64)"
proof -
  have "unat (of_nat x mod hp :: u64) = x mod unat hp"
    using assms(1) by (simp add: unat_mod unat_of_nat_u64)
  moreover have "x mod unat hp \<le> unat hp" using assms(2) by (simp add: less_imp_le_nat)
  ultimately show ?thesis by (simp add: unat_sub_u64)
qed

lemma disalignment_arith:
  assumes "x < 2 ^ 64" "0 < unat hp" "unat al \<le> unat hp - x mod unat hp"
  shows "unat ((hp - (of_nat x mod hp) - al) mod elem) =
    (unat hp - x mod unat hp - unat al) mod unat (elem :: u64)"
proof -
  have "unat (hp - (of_nat x mod hp) - al) = unat hp - x mod unat hp - unat al"
    using assms(3) unat_sub_u64 [of al "hp - of_nat x mod hp"]
    unfolding hpage_arith [OF assms(1,2)] by simp
  then show ?thesis by (simp only: unat_mod)
qed

lemma of_nat_diff_u64: "b \<le> a \<Longrightarrow> (of_nat (a - b) :: u64) = of_nat a - of_nat b"
  by (rule of_nat_diff)

text \<open>A store below the next block leaves the rest of the chain as it was.\<close>

lemma repr_tail_update:
  assumes "space_ok v S" "tiles hdr S q (Blk q0 s f # bs)" "x < q + hdr + s"
  shows "repr v (st(v + of_nat x \<mapsto> h)) n bs = repr v st n bs"
proof (cases "bs = []")
  case False
  with assms(2) have "tiles hdr S (q + hdr + s) bs" by simp
  from repr_update [OF assms(1) this assms(3)] show ?thesis .
qed simp

lemma alloc_guard:
  fixes tot al :: u64
  assumes "s < 2 ^ 64" "unat tot + unat al < 2 ^ 64"
  shows "tot + al \<le> of_nat s \<longleftrightarrow> unat tot + unat al \<le> (s :: nat)"
  using assms by (simp add: word_le_nat_alt unat_of_nat_u64 unat_add_u64)

text \<open>The loop goes past a block that is taken or too small.\<close>

lemma alloc_loop_walk:
  assumes "p \<noteq> 0" "st p = Some \<lparr>size' = of_nat s, free' = f, next' = n\<rparr>" "s < 2 ^ 64"
    and "unat tot + unat al < 2 ^ 64" "\<not> (f \<and> unat tot + unat al \<le> s)"
  shows "alloc_loop v hp tot elem al st p = alloc_loop v hp tot elem al st n"
  using assms alloc_guard [OF assms(3,4)] by (subst alloc_loop.simps) auto

text \<open>A free block of sufficient size at offset \<open>q\<close>: what the loop computes from its address, and the state
  of the memory after each of the three things it does with the block.\<close>

lemma alloc_block_arith:
  assumes "x < 2 ^ 64" "0 < unat hp" "unat al dvd unat hp" "unat al dvd x" "unat tot + unat al < 2 ^ 64"
  shows "hp - of_nat x mod hp < tot + al \<longleftrightarrow> unat hp - x mod unat hp < unat tot + unat al"
    "(hp - of_nat x mod hp - al) mod elem = (of_nat ((unat hp - x mod unat hp - unat al) mod unat elem) :: u64)"
    "(hp - of_nat x mod hp - al) mod elem = 0 \<longleftrightarrow> (unat hp - x mod unat hp - unat al) mod unat elem = 0"
proof -
  have u: "unat ((hp - of_nat x mod hp - al) mod elem) = (unat hp - x mod unat hp - unat al) mod unat elem"
    by (rule disalignment_arith [OF assms(1,2) dvd_remaining(2) [OF assms(3,4,2)]])
  show "hp - of_nat x mod hp < tot + al \<longleftrightarrow> unat hp - x mod unat hp < unat tot + unat al"
    using assms(5) by (simp add: word_less_nat_alt unat_add_u64 hpage_arith [OF assms(1,2)])
  show "(hp - of_nat x mod hp - al) mod elem = (of_nat ((unat hp - x mod unat hp - unat al) mod unat elem) :: u64)"
    unfolding u [symmetric] by simp
  show "(hp - of_nat x mod hp - al) mod elem = 0 \<longleftrightarrow> (unat hp - x mod unat hp - unat al) mod unat elem = 0"
    unfolding u [symmetric] by (simp add: u64_eq_iff)
qed

lemma split_store:
  assumes sp: "space_ok v S" and q: "q + hdr + d \<le> S" "0 < hdr"
  shows "v + of_nat (q + hdr + d) \<noteq> v + of_nat q" "v + of_nat (q + hdr + d) \<noteq> 0"
    "x < q \<Longrightarrow> v + of_nat x \<noteq> v + of_nat q" "x < q \<Longrightarrow> v + of_nat x \<noteq> v + of_nat (q + hdr + d)"
  using space_ok_eq [OF sp q(1), of q] space_ok_eq [OF sp _ q(1), of x] space_ok_eq [OF sp, of x q]
    space_ok_addr(2) [OF sp q(1)] q
  by (simp_all del: of_nat_add)

text \<open>The block that starts below a huge page it does not fit in is cut at the disalignment.\<close>

lemma alloc_loop_skip:
  fixes v hp tot elem al :: u64 and q s :: nat
  defines "dis \<equiv> (unat hp - q mod unat hp - unat al) mod unat elem"
  assumes sp: "space_ok v S" and al: "0 < unat al" "unat al dvd unat hp" "unat al dvd q"
    and hp: "0 < unat hp" and tot: "unat tot + unat al < 2 ^ 64"
    and qs: "q + s \<le> S" "unat tot + unat al \<le> s" "unat al + dis \<le> s"
    and cut: "unat hp - q mod unat hp < unat tot + unat al" "dis \<noteq> 0"
    and st: "st (v + of_nat q) = Some \<lparr>size' = of_nat s, free' = True, next' = n\<rparr>" "v + of_nat q \<noteq> 0"
  shows "alloc_loop v hp tot elem al st (v + of_nat q) =
    alloc_loop v hp tot elem al
      (st(v + of_nat (q + unat al + dis) \<mapsto> \<lparr>size' = of_nat (s - unat al - dis), free' = True, next' = n\<rparr>,
          v + of_nat q \<mapsto> \<lparr>size' = of_nat (dis), free' = True, next' = v + of_nat (q + unat al + dis)\<rparr>))
      (v + of_nat (q + unat al + dis))"
proof -
  have S: "q < 2 ^ 64" "s < 2 ^ 64" using sp qs(1) by (simp_all add: space_ok_def)
  let ?w = "(hp - of_nat q mod hp - al) mod elem"
  let ?nb = "v + of_nat (q + unat al + dis)"
  note a = alloc_block_arith(1) [OF S(1) hp al(2,3) tot]
    alloc_block_arith(2,3) [where elem = elem, OF S(1) hp al(2,3) tot, folded dis_def]
  have nb: "v + of_nat q + al + ?w = ?nb" unfolding a(2) by (simp add: add.assoc)
  have ns: "of_nat s - al - ?w = of_nat (s - unat al - dis)" unfolding a(2) using qs(3) by simp
  have ne: "?nb \<noteq> v + of_nat q"
    by (rule split_store(1) [OF sp _ al(1)]) (use qs in linarith)
  have "insert_block st (v + of_nat q) (v + of_nat q + al + ?w) (of_nat s - al - ?w) ?w =
      Some (st(?nb \<mapsto> \<lparr>size' = of_nat (s - unat al - dis), free' = True, next' = n\<rparr>,
        v + of_nat q \<mapsto> \<lparr>size' = of_nat (dis), free' = True, next' = ?nb\<rparr>))"
    unfolding nb ns unfolding a(2)
    by (rule insert_block_fresh [where st = st and p = "v + of_nat q" and s = "of_nat s" and f = True and n = n, OF st(1) ne])
  then show ?thesis
    using st alloc_guard [OF S(2) tot] qs(2) a(1,3) cut
    by (subst alloc_loop.simps) (simp add: Let_def add.assoc)
qed

text \<open>The block that fits is handed out: cut behind the payload if what is left can hold a header, and whole
  otherwise.\<close>

lemma alloc_loop_fit:
  fixes v hp tot elem al :: u64 and q s :: nat
  defines "r \<equiv> s - unat tot - unat al"
  assumes sp: "space_ok v S" and al: "0 < unat al" "unat al dvd unat hp" "unat al dvd q"
    and hp: "0 < unat hp" and tot: "unat tot + unat al < 2 ^ 64"
    and qs: "q + s \<le> S" "unat tot + unat al \<le> s"
    and fits: "\<not> (unat hp - q mod unat hp < unat tot + unat al \<and> (unat hp - q mod unat hp - unat al) mod unat elem \<noteq> 0)"
    and st: "st (v + of_nat q) = Some \<lparr>size' = of_nat s, free' = True, next' = n\<rparr>" "v + of_nat q \<noteq> 0"
  shows "alloc_loop v hp tot elem al st (v + of_nat q) = Some (Inr (v + of_nat (q + unat al)),
    if 24 < r
    then st(v + of_nat (q + unat al + unat tot) \<mapsto> \<lparr>size' = of_nat r, free' = True, next' = n\<rparr>,
            v + of_nat q \<mapsto> \<lparr>size' = tot, free' = False, next' = v + of_nat (q + unat al + unat tot)\<rparr>)
    else st(v + of_nat q \<mapsto> \<lparr>size' = of_nat s, free' = False, next' = n\<rparr>))"
proof -
  have S: "q < 2 ^ 64" "s < 2 ^ 64" using sp qs(1) by (simp_all add: space_ok_def)
  let ?p = "v + of_nat q"
  let ?nb = "v + of_nat (q + unat al + unat tot)"
  note a = alloc_block_arith(1) [OF S(1) hp al(2,3) tot] alloc_block_arith(2,3) [where elem = elem, OF S(1) hp al(2,3) tot]
  have nb: "?p + al + tot = ?nb" "?p + al = v + of_nat (q + unat al)" by (simp_all add: add.assoc)
  have r: "of_nat s - tot - al = (of_nat r :: u64)" unfolding r_def using qs(2) by simp
  have thr: "sizeof_block < of_nat s - tot - al \<longleftrightarrow> 24 < r"
    using S(2) by (simp add: r sizeof_block_def word_less_nat_alt unat_of_nat_u64 r_def)
  have ne: "?nb \<noteq> ?p"
    by (rule split_store(1) [OF sp _ al(1)]) (use qs in linarith)
  have ins: "insert_block st ?p (?p + al + tot) (of_nat s - tot - al) tot =
      Some (st(?nb \<mapsto> \<lparr>size' = of_nat r, free' = True, next' = n\<rparr>, ?p \<mapsto> \<lparr>size' = tot, free' = True, next' = ?nb\<rparr>))"
    using insert_block_fresh [where st = st and p = ?p and s = "of_nat s" and f = True and n = n, OF st(1) ne,
        of "of_nat r" tot]
    unfolding nb(1) r by simp
  show ?thesis
    using st alloc_guard [OF S(2) tot] qs(2) a(1,3) fits ins thr nb(2)
    by (subst alloc_loop.simps) (auto simp add: Let_def add.assoc)
qed

text \<open>What the loop returns for what the abstract allocator gives.\<close>

abbreviation alloc_outcome :: "u64 \<Rightarrow> u64 \<Rightarrow> nat option \<Rightarrow> int + u64" where
  "alloc_outcome v al r \<equiv> (case r of None \<Rightarrow> Inl ENOMEM | Some x \<Rightarrow> Inr (v + of_nat (x + unat al)))"

lemma alloc_loop_refines:
  assumes sp: "space_ok v S" and al: "0 < unat al" "unat al dvd unat hp" "unat al dvd unat elem"
    and hp: "0 < unat hp" and tot: "unat tot + unat al < 2 ^ 64"
    and bs: "tiles (unat al) S q bs" "aligned (unat al) bs" "repr v st p bs"
  shows "\<exists>st'. alloc_loop v hp tot elem al st p =
      Some (alloc_outcome v al (fst (ff_alloc (unat hp) (unat al) 24 (unat elem) (unat tot) bs)), st') \<and>
    repr v st' p (snd (ff_alloc (unat hp) (unat al) 24 (unat elem) (unat tot) bs)) \<and>
    (\<forall>x < q. st' (v + of_nat x) = st (v + of_nat x))"
  using bs
proof (induction bs arbitrary: st p q rule: ff_alloc_walk_induct
    [where tot = "unat tot" and hdr = "unat al" and hp = "unat hp" and elem = "unat elem"])
  case Nil
  then show ?case by simp
next
  case (Walk q0 s f bs)
  from Walk.prems obtain n where p: "q0 = q" "p = v + of_nat q" "p \<noteq> 0"
    and st: "st p = Some \<lparr>size' = of_nat s, free' = f, next' = n\<rparr>" and rest: "repr v st n bs" by auto
  have "s < 2 ^ 64" using tiles_offsets [OF Walk.prems(1), of "Blk q0 s f"] sp by (simp add: space_ok_def)
  note eq = alloc_loop_walk [where v = v and hp = hp and elem = elem and st = st and s = s and f = f, OF p(3) st this tot Walk.hyps]
  show ?case
  proof (cases "bs = []")
    case True
    with rest eq p st show ?thesis
      by (simp add: ff_alloc_walk [OF Walk.hyps] alloc_loop.simps [of _ _ _ _ _ _ 0])
  next
    case False
    with Walk.prems p have "tiles (unat al) S (q + unat al + s) bs" "aligned (unat al) bs" by simp_all
    from Walk.IH [OF this rest] obtain st' where IH: "alloc_loop v hp tot elem al st n =
        Some (alloc_outcome v al (fst (ff_alloc (unat hp) (unat al) 24 (unat elem) (unat tot) bs)), st')"
      "repr v st' n (snd (ff_alloc (unat hp) (unat al) 24 (unat elem) (unat tot) bs))"
      "\<forall>x < q + unat al + s. st' (v + of_nat x) = st (v + of_nat x)" by blast
    then have "st' p = st p" using p(2) al(1) by simp
    with IH eq p st show ?thesis by (simp add: ff_alloc_walk [OF Walk.hyps])
  qed
next
  case (Skip q0 s bs d)
  from Skip.prems obtain n where p: "q0 = q" "p = v + of_nat q" "p \<noteq> 0"
    and st: "st p = Some \<lparr>size' = of_nat s, free' = True, next' = n\<rparr>" and rest: "repr v st n bs" by auto
  note h = Skip.hyps [unfolded p(1)]
  have qs: "q + s \<le> S" using tiles_offsets [OF Skip.prems(1), of "Blk q0 s True"] p(1) by simp
  have adv: "unat al dvd q" using Skip.prems(2) p(1) by simp
  let ?nb = "v + of_nat (q + unat al + d)" and ?b = "Blk (q + unat al + d) (s - unat al - d) True"
  let ?st = "st(?nb \<mapsto> \<lparr>size' = of_nat (s - unat al - d), free' = True, next' = n\<rparr>,
    p \<mapsto> \<lparr>size' = of_nat d, free' = True, next' = ?nb\<rparr>)"
  note eq = alloc_loop_skip [where elem = elem and st = st and n = n, OF sp al(1,2) adv hp tot qs h(1), unfolded h(3),
      OF h(5,2,4) st [unfolded p(2)] p(3) [unfolded p(2)], folded p(2)]
  have nbS: "q + unat al + d \<le> S" using h(5) qs by linarith
  note far = split_store [OF sp nbS al(1), folded p(2)]
  have t: "tiles (unat al) S (q + unat al + d) (?b # bs)"
    using Skip.prems(1) h(5) p(1) by (auto split: if_splits simp: add.assoc)
  have "unat al dvd unat hp - q mod unat hp - unat al"
    by (rule dvd_diff_nat [OF dvd_remaining(1) [OF al(2) adv hp]]) simp
  then have "unat al dvd d" using h(3) al(3) by (metis dvd_mod)
  then have a: "aligned (unat al) (?b # bs)" using Skip.prems(2) adv by simp
  have "repr v ?st n bs"
    using rest h(5) al(1) unfolding p(2)
    by (simp add: repr_tail_update [OF sp Skip.prems(1)] del: of_nat_add of_nat_diff)
  then have "repr v ?st ?nb (?b # bs)" using far(1,2) by simp
  from Skip.IH [unfolded p(1), OF t a this] obtain st' where IH: "alloc_loop v hp tot elem al ?st ?nb =
        Some (alloc_outcome v al (fst (ff_alloc (unat hp) (unat al) 24 (unat elem) (unat tot) (?b # bs))), st')"
      "repr v st' ?nb (snd (ff_alloc (unat hp) (unat al) 24 (unat elem) (unat tot) (?b # bs)))"
      "\<forall>x < q + unat al + d. st' (v + of_nat x) = ?st (v + of_nat x)" by blast
  have "st' p = ?st p" using IH(3) p(2) al(1) by simp
  moreover have "\<forall>x < q. st' (v + of_nat x) = st (v + of_nat x)" using IH(3) far(3,4) by simp
  ultimately show ?case
    using IH(1,2) eq p ff_alloc_skip [OF Skip.hyps(1-4), where thr = 24 and bs = bs] by auto
next
  case (Fit q0 s bs)
  from Fit.prems obtain n where p: "q0 = q" "p = v + of_nat q" "p \<noteq> 0"
    and st: "st p = Some \<lparr>size' = of_nat s, free' = True, next' = n\<rparr>" and rest: "repr v st n bs" by auto
  note h = Fit.hyps [unfolded p(1)]
  have qs: "q + s \<le> S" using tiles_offsets [OF Fit.prems(1), of "Blk q0 s True"] p(1) by simp
  have adv: "unat al dvd q" using Fit.prems(2) p(1) by simp
  note eq = alloc_loop_fit [where st = st and n = n, OF sp al(1,2) adv hp tot qs h st [unfolded p(2)] p(3) [unfolded p(2)], folded p(2)]
  have nbS: "q + unat al + unat tot \<le> S" using h(1) qs by linarith
  note far = split_store [OF sp nbS al(1), folded p(2)]
  note low = repr_tail_update [OF sp Fit.prems(1)]
  show ?case
  proof (cases "24 < s - unat tot - unat al")
    case True
    let ?nb = "v + of_nat (q + unat al + unat tot)"
    have "repr v (st(?nb \<mapsto> h, p \<mapsto> h')) n bs" for h h'
      using rest h(1) al(1) unfolding p(2) by (simp add: low del: of_nat_add of_nat_diff)
    then show ?thesis
      using eq p far True unfolding ff_alloc_fit [OF Fit.hyps] by (simp del: of_nat_add of_nat_diff)
  next
    case False
    have "repr v (st(p \<mapsto> h)) n bs" for h
      using rest al(1) unfolding p(2) by (simp add: low)
    then show ?thesis
      using eq p far False unfolding ff_alloc_fit [OF Fit.hyps] by (simp del: of_nat_add of_nat_diff)
  qed
qed

end
