(* ===== verification/Dma_Allocator.thy ===== *)
theory Dma_Allocator
  imports Upcie_Prelude
begin

text \<open>
  The contract between the heaps of DMA-capable memory and the code that allocates queues, PRP
  lists and buffers from them: an allocator hands out byte intervals that do not overlap, and
  takes each back. The heap on hugepages and the heaps on device memory both provide it; the
  queue pair, the controller and the request pool are its clients.
\<close>

section \<open>Runs of a client\<close>

datatype dma_request = Bytes u64 | Array u64 u64

fun nbytes :: "dma_request \<Rightarrow> nat" where
  "nbytes (Bytes n) = unat n"
| "nbytes (Array count elem) = unat count * unat elem"

datatype dma_event = Malloc dma_request | Free u64

text \<open>
  A client asks for a number of bytes or for an array of elements. It keeps the pointers it
  was given, with what it asked for, and frees only those.
\<close>

fun dma_step ::
  "('h \<Rightarrow> dma_request \<Rightarrow> ((int + u64) \<times> 'h) option) \<Rightarrow> ('h \<Rightarrow> u64 \<Rightarrow> 'h option) \<Rightarrow>
   dma_event \<Rightarrow> 'h \<times> (u64 \<times> dma_request) list \<Rightarrow> ('h \<times> (u64 \<times> dma_request) list) option" where
  "dma_step alloc free (Malloc n) (h, owned) = do {
     (r, h') \<leftarrow> alloc h n;
     Some (h', case r of Inl e \<Rightarrow> owned | Inr p \<Rightarrow> (p, n) # owned) }"
| "dma_step alloc free (Free p) (h, owned) =
     (if p \<in> fst ` set owned
      then do { h' \<leftarrow> free h p; Some (h', filter (\<lambda>x. fst x \<noteq> p) owned) }
      else Some (h, owned))"

fun dma_run ::
  "('h \<Rightarrow> dma_request \<Rightarrow> ((int + u64) \<times> 'h) option) \<Rightarrow> ('h \<Rightarrow> u64 \<Rightarrow> 'h option) \<Rightarrow>
   dma_event list \<Rightarrow> 'h \<times> (u64 \<times> dma_request) list \<Rightarrow> ('h \<times> (u64 \<times> dma_request) list) option" where
  "dma_run alloc free [] s = Some s"
| "dma_run alloc free (ev # evs) s = do { s' \<leftarrow> dma_step alloc free ev s; dma_run alloc free evs s' }"

text \<open>The requests of a run are of admissible size.\<close>

fun event_ok :: "(dma_request \<Rightarrow> bool) \<Rightarrow> dma_event \<Rightarrow> bool" where
  "event_ok ok (Malloc n) = ok n"
| "event_ok ok (Free p) = True"

text \<open>The memory a client holds: pairwise apart, byte for byte.\<close>

definition apart :: "u64 \<times> dma_request \<Rightarrow> u64 \<times> dma_request \<Rightarrow> bool" where
  "apart x y \<longleftrightarrow> fst x \<noteq> fst y \<and>
     (unat (fst x) + nbytes (snd x) \<le> unat (fst y) \<or> unat (fst y) + nbytes (snd y) \<le> unat (fst x))"

section \<open>Intervals in order\<close>

lemma ordered_apart:
  "sorted_wrt (\<lambda>x y. fst x < fst y \<and> snd x \<le> fst y) (L :: (nat \<times> nat) list) \<Longrightarrow> x \<in> set L \<Longrightarrow> y \<in> set L \<Longrightarrow>
   fst x \<noteq> fst y \<Longrightarrow> snd x \<le> fst y \<or> snd y \<le> fst x"
  by (induction L) auto

lemma ordered_distinct:
  "sorted_wrt (\<lambda>x y. fst x < fst y \<and> snd x \<le> fst y) L \<Longrightarrow> distinct (map fst (L :: (nat \<times> nat) list))"
  by (induction L) force+

section \<open>The contract\<close>

locale dma_allocator =
  fixes live_as :: "'h \<Rightarrow> (nat \<times> nat) list \<Rightarrow> bool"
    and ok :: "'h \<Rightarrow> dma_request \<Rightarrow> bool"
    and alloc :: "'h \<Rightarrow> dma_request \<Rightarrow> ((int + u64) \<times> 'h) option"
    and free :: "'h \<Rightarrow> u64 \<Rightarrow> 'h option"
  assumes in_order: "live_as h L \<Longrightarrow> sorted_wrt (\<lambda>x y. fst x < fst y \<and> snd x \<le> fst y) L"
    and alloc_law: "live_as h L \<Longrightarrow> ok h n \<Longrightarrow>
      \<exists>r h'. alloc h n = Some (r, h') \<and> ok h' = ok h \<and>
        (case r of Inl e \<Rightarrow> 0 < e \<and> live_as h' L
         | Inr p \<Rightarrow> p \<noteq> 0 \<and> (\<exists>xs e ys. L = xs @ ys \<and> unat p + nbytes n \<le> e \<and>
                     live_as h' (xs @ (unat p, e) # ys)))"
    and free_law: "live_as h L \<Longrightarrow> unat p \<in> fst ` set L \<Longrightarrow>
      \<exists>h'. free h p = Some h' \<and> ok h' = ok h \<and> live_as h' (filter (\<lambda>x. fst x \<noteq> unat p) L)"
begin

lemma alloc_cases:
  assumes "live_as h L" "ok h n"
  obtains (fails) e h' where "alloc h n = Some (Inl e, h')" "0 < e" "ok h' = ok h" "live_as h' L"
    | (gives) p h' xs e ys where "alloc h n = Some (Inr p, h')" "ok h' = ok h" "p \<noteq> 0" "L = xs @ ys"
        "unat p + nbytes n \<le> e" "live_as h' (xs @ (unat p, e) # ys)"
proof -
  from alloc_law [OF assms] obtain r h' where r: "alloc h n = Some (r, h')" "ok h' = ok h"
    "case r of Inl e \<Rightarrow> 0 < e \<and> live_as h' L
       | Inr p \<Rightarrow> p \<noteq> 0 \<and> (\<exists>xs e ys. L = xs @ ys \<and> unat p + nbytes n \<le> e \<and>
                     live_as h' (xs @ (unat p, e) # ys))" by blast
  show thesis
  proof (cases r)
    case (Inl e)
    with r fails show thesis by simp
  next
    case (Inr p)
    with r(3) obtain xs e ys where "p \<noteq> 0" "L = xs @ ys" "unat p + nbytes n \<le> e"
      "live_as h' (xs @ (unat p, e) # ys)" by auto
    with Inr r(1,2) gives show thesis by blast
  qed
qed

text \<open>New memory overlaps nothing that is handed out.\<close>

lemma alloc_fresh:
  assumes "live_as h L" "ok h n" "alloc h n = Some (Inr p, h')" "x \<in> set L"
  shows "fst x \<noteq> unat p" "snd x \<le> unat p \<or> unat p + nbytes n \<le> fst x"
proof -
  from assms(1,2) obtain xs e ys where L: "L = xs @ ys" "unat p + nbytes n \<le> e"
    "live_as h' (xs @ (unat p, e) # ys)" by (rule alloc_cases) (use assms(3) in auto)
  from in_order [OF L(3)] L assms(4)
  show "fst x \<noteq> unat p" "snd x \<le> unat p \<or> unat p + nbytes n \<le> fst x"
    by (fastforce simp: sorted_wrt_append)+
qed

text \<open>Giving the memory back leaves the heap with what it had handed out before.\<close>

lemma taken_back:
  assumes "live_as h' (xs @ (unat p, e) # ys)"
  shows "filter (\<lambda>x. fst x \<noteq> unat p) (xs @ (unat p, e) # ys) = xs @ ys"
proof -
  have "\<forall>x \<in> set (xs @ ys). fst x \<noteq> unat p"
    using in_order [OF assms] by (fastforce simp: sorted_wrt_append)
  then show ?thesis by (simp add: filter_id_conv)
qed

lemma alloc_live:
  assumes "live_as h L" "ok h n" "alloc h n = Some (Inr p, h')"
  obtains L' where "live_as h' L'" "ok h' = ok h" "p \<noteq> 0" "unat p \<in> fst ` set L'"
    "filter (\<lambda>x. fst x \<noteq> unat p) L' = L" "\<exists>e. (unat p, e) \<in> set L' \<and> unat p + nbytes n \<le> e"
proof -
  from assms(1,2) obtain xs e ys where L: "L = xs @ ys" "live_as h' (xs @ (unat p, e) # ys)"
    "ok h' = ok h" "p \<noteq> 0" "unat p + nbytes n \<le> e"
    by (rule alloc_cases) (use assms(3) in auto)
  with taken_back [OF L(2)] show thesis by (intro that [OF L(2)]) auto
qed

lemma alloc_free:
  assumes "live_as h L" "ok h n" "alloc h n = Some (Inr p, h')"
  shows "\<exists>h''. free h' p = Some h'' \<and> live_as h'' L \<and> ok h'' = ok h"
proof -
  obtain L' where L': "live_as h' L'" "ok h' = ok h" "unat p \<in> fst ` set L'"
    "filter (\<lambda>x. fst x \<noteq> unat p) L' = L" by (rule alloc_live [OF assms])
  from free_law [OF L'(1,3)] L'(2,4) show ?thesis by auto
qed

text \<open>Two payloads of the same heap, given back in either order.\<close>

lemma free_two:
  assumes "live_as h L" "unat p \<in> fst ` set L" "unat q \<in> fst ` set L" "p \<noteq> q"
  shows "\<exists>h1 h2. free h p = Some h1 \<and> free h1 q = Some h2 \<and> ok h2 = ok h \<and>
    live_as h2 (filter (\<lambda>x. fst x \<noteq> unat p) (filter (\<lambda>x. fst x \<noteq> unat q) L))"
proof -
  from free_law [OF assms(1,2)] obtain h1 where h1: "free h p = Some h1" "ok h1 = ok h"
    "live_as h1 (filter (\<lambda>x. fst x \<noteq> unat p) L)" by blast
  have "unat q \<in> fst ` set (filter (\<lambda>x. fst x \<noteq> unat p) L)"
    using assms(3,4) by (auto simp: word_unat_eq_iff)
  from free_law [OF h1(3) this] h1(1,2) show ?thesis by (auto simp: conj_commute)
qed

text \<open>What a run keeps: every pointer the client holds starts a live interval that is large
  enough, and there is no other.\<close>

definition holds :: "(nat \<times> nat) list \<Rightarrow> (u64 \<times> dma_request) list \<Rightarrow> bool" where
  "holds L owned \<longleftrightarrow> distinct (map fst owned) \<and> fst ` set L = (unat \<circ> fst) ` set owned \<and>
     (\<forall>x \<in> set owned. \<exists>e. (unat (fst x), e) \<in> set L \<and> unat (fst x) + nbytes (snd x) \<le> e)"

lemma step_holds:
  assumes "live_as h L" "holds L owned" "event_ok (ok h) ev"
  shows "\<exists>h' L' owned'. dma_step alloc free ev (h, owned) = Some (h', owned') \<and>
    live_as h' L' \<and> holds L' owned' \<and> ok h' = ok h"
proof (cases ev)
  case (Malloc n)
  with assms(3) have okn: "ok h n" by simp
  from assms(1) okn show ?thesis
  proof (cases rule: alloc_cases)
    case (fails e h')
    with Malloc assms(2) show ?thesis by auto
  next
    case (gives p h' xs e ys)
    have "unat p \<notin> fst ` set L" using alloc_fresh(1) [OF assms(1) okn gives(1)] by force
    then have "p \<notin> fst ` set owned" using assms(2) by (auto simp: holds_def)
    then have "holds (xs @ (unat p, e) # ys) ((p, n) # owned)"
      using assms(2) gives(4,5) by (auto simp: holds_def image_Un)
    with gives(1,2,6) Malloc show ?thesis by auto
  qed
next
  case (Free p)
  show ?thesis
  proof (cases "p \<in> fst ` set owned")
    case True
    then have "unat p \<in> fst ` set L" using assms(2) by (auto simp: holds_def)
    from free_law [OF assms(1) this] obtain h' where h': "free h p = Some h'" "ok h' = ok h"
      "live_as h' (filter (\<lambda>x. fst x \<noteq> unat p) L)" by blast
    have "holds (filter (\<lambda>x. fst x \<noteq> unat p) L) (filter (\<lambda>x. fst x \<noteq> p) owned)"
    proof -
      have "fst ` set (filter (\<lambda>x. fst x \<noteq> unat p) L) = fst ` set L - {unat p}" by auto
      also have "\<dots> = (unat \<circ> fst) ` set owned - {unat p}" using assms(2) by (simp add: holds_def)
      also have "\<dots> = (unat \<circ> fst) ` set (filter (\<lambda>x. fst x \<noteq> p) owned)"
        by (auto simp: word_unat_eq_iff)
      finally show ?thesis using assms(2)
        by (fastforce simp: holds_def distinct_map_filter word_unat_eq_iff)
    qed
    with True h' Free show ?thesis by auto
  next
    case False
    with Free assms show ?thesis by auto
  qed
qed

lemma run_holds:
  "live_as h L \<Longrightarrow> holds L owned \<Longrightarrow> list_all (event_ok (ok h)) evs \<Longrightarrow>
   \<exists>h' L' owned'. dma_run alloc free evs (h, owned) = Some (h', owned') \<and>
     live_as h' L' \<and> holds L' owned'"
proof (induction evs arbitrary: h L owned)
  case (Cons ev evs)
  from Cons.prems step_holds [OF Cons.prems(1,2), of ev] obtain h' L' owned' where
    "dma_step alloc free ev (h, owned) = Some (h', owned')" "live_as h' L'" "holds L' owned'" "ok h' = ok h" by auto
  with Cons.IH [of h' L' owned'] Cons.prems(3) show ?case by simp
qed auto

lemma holds_apart:
  assumes "live_as h L" "holds L owned"
  shows "sorted_wrt apart owned"
  unfolding sorted_wrt_iff_nth_less
proof (intro allI impI)
  fix i j assume ij: "i < j" "j < length owned"
  let ?x = "owned ! i" and ?y = "owned ! j"
  have ne: "fst ?x \<noteq> fst ?y"
    using assms(2) ij nth_eq_iff_index_eq [of "map fst owned" i j] by (auto simp: holds_def)
  from assms(2) ij obtain e f where
    "(unat (fst ?x), e) \<in> set L" "unat (fst ?x) + nbytes (snd ?x) \<le> e"
    "(unat (fst ?y), f) \<in> set L" "unat (fst ?y) + nbytes (snd ?y) \<le> f"
    unfolding holds_def by (meson less_trans nth_mem)
  with ordered_apart [OF in_order [OF assms(1)], of "(unat (fst ?x), e)" "(unat (fst ?y), f)"] ne
  show "apart ?x ?y" by (auto simp: apart_def word_unat_eq_iff)
qed

text \<open>The client's view: no run goes wrong, and what it holds never overlaps.\<close>

lemma run_apart:
  assumes "live_as h []" "list_all (event_ok (ok h)) evs"
  shows "\<exists>h' owned. dma_run alloc free evs (h, []) = Some (h', owned) \<and> sorted_wrt apart owned \<and>
    (\<exists>L. live_as h' L \<and> length L = length owned)"
proof -
  have "holds [] []" by (simp add: holds_def)
  from run_holds [OF assms(1) this assms(2)] obtain h' L owned where
    r: "dma_run alloc free evs (h, []) = Some (h', owned)" "live_as h' L" "holds L owned" by blast
  have "distinct (map fst L)" by (rule ordered_distinct [OF in_order [OF r(2)]])
  then have "length L = card (fst ` set L)" by (metis distinct_card length_map list.set_map)
  also have "\<dots> = card (unat ` set (map fst owned))" using r(3) by (simp add: holds_def image_comp)
  also have "\<dots> = card (set (map fst owned))"
    by (rule card_image) (simp add: inj_on_def word_unat_eq_iff)
  also have "\<dots> = length owned" using r(3) by (metis distinct_card length_map holds_def)
  finally show ?thesis using r holds_apart by blast
qed

end

end
