(* ===== verification/Hostmem_Alloc.thy ===== *)
theory Hostmem_Alloc
  imports Hostmem_Refine Util Dma_Allocator
begin

unbundle bit_operations_syntax

text \<open>
  The operations of the hugepage heap as operations on the list of payloads that are handed
  out: from \<open>alloc_loop_refines\<close> and \<open>coalesce_loop_refines\<close> to the functions that clients call.
\<close>

section \<open>Well-formed heaps\<close>

text \<open>What \<open>hostmem_config_init\<close> leaves behind: powers of two and their shifts.\<close>

definition hostmem_config_ok :: "hostmem_config \<Rightarrow> bool" where
  "hostmem_config_ok c \<longleftrightarrow> 5 \<le> pagesize_shift c \<and> pagesize_shift c \<le> hugepgsz_shift c \<and>
     hugepgsz_shift c \<le> 30 \<and>
     pagesize c = 2 ^ nat (pagesize_shift c) \<and> hugepgsz c = 2 ^ nat (hugepgsz_shift c)"

abbreviation pg :: "hostmem_heap \<Rightarrow> nat" where "pg heap \<equiv> nat (pagesize (config heap))"
abbreviation hpg :: "hostmem_heap \<Rightarrow> nat" where "hpg heap \<equiv> nat (hugepgsz (config heap))"

definition heap_blocks :: "hostmem_heap \<Rightarrow> blk list \<Rightarrow> bool" where
  "heap_blocks heap bs \<longleftrightarrow> hostmem_config_ok (config heap) \<and>
     space_ok (virt heap) (unat (memsize heap)) \<and>
     tiles (pg heap) (unat (memsize heap)) 0 bs \<and> aligned (pg heap) bs \<and>
     repr (virt heap) (hdrs heap) (freelist heap) bs"

lemma config_okE:
  assumes "hostmem_config_ok c"
  obtains k h where "5 \<le> k" "k \<le> h" "h \<le> 30" "pagesize c = 2 ^ k" "hugepgsz c = 2 ^ h"
    "pagesize_shift c = int k" "hugepgsz_shift c = int h"
    "nat (pagesize c) = 2 ^ k" "nat (hugepgsz c) = 2 ^ h"
    "size_of_int (pagesize c) = 2 ^ k" "size_of_int (hugepgsz c) = 2 ^ h"
proof -
  have b: "0 \<le> pagesize_shift c" "0 \<le> hugepgsz_shift c" using assms by (auto simp: hostmem_config_ok_def)
  show thesis
    by (rule that [of "nat (pagesize_shift c)" "nat (hugepgsz_shift c)"])
      (use assms b in \<open>auto simp: hostmem_config_ok_def size_of_int_def nat_power_eq\<close>)
qed

lemma config_pages:
  assumes "hostmem_config_ok (config heap)"
  shows "24 < pg heap" "pg heap dvd hpg heap" "0 < hpg heap" "hpg heap \<le> 2 ^ 30"
    "unat (size_of_int (pagesize (config heap))) = pg heap"
    "unat (size_of_int (hugepgsz (config heap))) = hpg heap" "pg heap \<le> hpg heap" "0 < pg heap"
proof -
  obtain k h where kh: "5 \<le> k" "k \<le> h" "h \<le> 30" "pagesize (config heap) = 2 ^ k"
    "hugepgsz (config heap) = 2 ^ h" "pg heap = 2 ^ k" "hpg heap = 2 ^ h"
    "size_of_int (pagesize (config heap)) = 2 ^ k" "size_of_int (hugepgsz (config heap)) = 2 ^ h"
    using assms by (elim config_okE)
  have "(2 :: nat) ^ 5 \<le> 2 ^ k" using kh(1) by (rule power_increasing) simp
  then show "24 < pg heap" unfolding kh(6) by simp
  show "pg heap dvd hpg heap" unfolding kh(6,7) by (rule le_imp_power_dvd [OF kh(2)])
  show "0 < hpg heap" unfolding kh(7) by simp
  show "hpg heap \<le> 2 ^ 30" unfolding kh(7) by (rule power_increasing [OF kh(3)]) simp
  show "unat (size_of_int (pagesize (config heap))) = pg heap"
    "unat (size_of_int (hugepgsz (config heap))) = hpg heap"
    using kh(1-3) unfolding kh(6-9) by (simp_all add: unat_two_power)
  show "0 < pg heap" unfolding kh(6) by simp
  show "pg heap \<le> hpg heap" unfolding kh(6,7) by (rule power_increasing [OF kh(2)]) simp
qed

text \<open>The payloads that are handed out, as intervals of addresses.\<close>

definition payloads :: "nat \<Rightarrow> nat \<Rightarrow> blk list \<Rightarrow> (nat \<times> nat) list" where
  "payloads v hdr bs = map (\<lambda>x. (v + fst x, v + snd x)) (live hdr bs)"

definition heap_live :: "hostmem_heap \<Rightarrow> (nat \<times> nat) list \<Rightarrow> bool" where
  "heap_live heap L \<longleftrightarrow>
     (\<exists>bs. heap_blocks heap bs \<and> L = payloads (unat (virt heap)) (pg heap) bs)"

section \<open>Release\<close>

lemma repr_mark:
  assumes "space_ok v S" "tiles hdr S q bs" "repr v st p bs" "x \<le> S"
    and "st (v + of_nat x) = Some h" "x \<in> b_off ` set bs"
  shows "repr v (st(v + of_nat x \<mapsto> h\<lparr>free' := True\<rparr>)) p (ff_mark x bs)"
  using assms(2,3,6)
proof (induction bs arbitrary: q p)
  case (Cons b bs)
  obtain y s f where b: "b = Blk y s f" by (cases b)
  from Cons.prems(2) b obtain n where p: "p = v + of_nat y" "p \<noteq> 0"
    and st: "st p = Some \<lparr>size' = of_nat s, free' = f, next' = n\<rparr>" and rest: "repr v st n bs" by auto
  have y: "y \<le> S" using tiles_offsets [OF Cons.prems(1), of b] b by simp
  let ?st = "st(v + of_nat x \<mapsto> h\<lparr>free' := True\<rparr>)"
  have mark: "repr v ?st n (ff_mark x bs)"
  proof (cases "x \<in> b_off ` set bs")
    case True
    then have "bs \<noteq> []" by auto
    with Cons.prems(1) b have "tiles hdr S (q + hdr + s) bs" by simp
    from Cons.IH [OF this rest True] show ?thesis .
  next
    case False
    then have "ff_mark x bs = bs" by (auto simp: ff_mark_def intro!: map_idI)
    moreover have "repr v ?st n bs = repr v st n bs"
    proof (rule repr_cong)
      fix c assume c: "c \<in> set bs"
      then have "b_off c \<le> S" using tiles_offsets [OF Cons.prems(1), of c] by simp
      moreover have "b_off c \<noteq> x" using False c by auto
      ultimately show "?st (v + of_nat (b_off c)) = st (v + of_nat (b_off c))"
        using space_ok_eq [OF assms(1), of "b_off c" x] assms(4) by simp
    qed
    ultimately show ?thesis using rest by simp
  qed
  show ?case
  proof (cases "y = x")
    case True
    then have "h = \<lparr>size' = of_nat s, free' = f, next' = n\<rparr>" using p st assms(5) by simp
    with True mark b p show ?thesis
      by (simp del: fun_upd_apply, simp only: fun_upd_same) blast
  next
    case False
    with p space_ok_eq [OF assms(1) y assms(4)] have "?st p = st p" by simp
    with False mark b p st show ?thesis by (simp del: fun_upd_apply)
  qed
qed simp

lemma heap_free_refines:
  assumes "heap_blocks heap bs" "x \<in> b_off ` set bs" "x + pg heap \<le> unat (memsize heap)"
  shows "\<exists>heap'. hostmem_heap_block_free heap (virt heap + of_nat (x + pg heap)) = Some heap' \<and>
    heap_blocks heap' (ff_free (pg heap) x bs) \<and>
    virt heap' = virt heap \<and> memsize heap' = memsize heap \<and> config heap' = config heap \<and>
    nphys heap' = nphys heap \<and> phys_lut heap' = phys_lut heap"
proof -
  let ?v = "virt heap" and ?S = "unat (memsize heap)" and ?P = "pg heap"
  let ?al = "size_of_int (pagesize (config heap))"
  let ?ptr = "?v + of_nat (x + ?P)"
  from assms(1) have cfg: "hostmem_config_ok (config heap)" and sp: "space_ok ?v ?S"
    and t: "tiles ?P ?S 0 bs" and a: "aligned ?P bs"
    and r: "repr ?v (hdrs heap) (freelist heap) bs" by (simp_all add: heap_blocks_def)
  note pages = config_pages [OF cfg]
  have al: "?al = of_nat ?P" by (simp add: pages(5) [symmetric])
  obtain b where b: "b \<in> set bs" "x = b_off b" using assms(2) by auto
  have x: "x \<le> ?S" using tiles_offsets [OF t b(1)] b(2) by simp
  obtain h where h: "hdrs heap (?v + of_nat x) = Some h"
  proof -
    have "repr ?v (hdrs heap) p bs \<Longrightarrow> b \<in> set bs \<Longrightarrow> \<exists>h. hdrs heap (?v + of_nat (b_off b)) = Some h" for p
      by (induction bs arbitrary: p) auto
    with r b that show thesis by blast
  qed
  have sub: "?ptr - ?al = ?v + of_nat x" by (simp add: al)
  have nz: "?ptr \<noteq> 0" by (rule space_ok_addr(2) [OF sp assms(3)])
  let ?st = "(hdrs heap)(?v + of_nat x \<mapsto> h\<lparr>free' := True\<rparr>)"
  have "repr ?v ?st (freelist heap) (ff_mark x bs)"
    by (rule repr_mark [where h = h, OF sp t r x h assms(2)])
  from coalesce_loop_refines [OF sp _ _ this, of ?al 0, unfolded pages(5)]
    ff_mark_tiles [OF t, of x] pages(8)
  obtain st' where co: "coalesce_loop ?al ?st (freelist heap) = Some st'"
    "repr ?v st' (freelist heap) (ff_free ?P x bs)" by (auto simp: ff_free_def)
  have "hostmem_heap_block_free heap ?ptr = Some (heap\<lparr>hdrs := st'\<rparr>)"
    using nz h co(1) unfolding hostmem_heap_block_free_def Let_def sub by simp
  with co(2) cfg sp ff_free_tiles [OF t] ff_free_aligned [OF a] show ?thesis
    by (intro exI [of _ "heap\<lparr>hdrs := st'\<rparr>"]) (simp add: heap_blocks_def)
qed

section \<open>Allocation\<close>

text \<open>What an operation leaves alone.\<close>

definition same_heap :: "hostmem_heap \<Rightarrow> hostmem_heap \<Rightarrow> bool" where
  "same_heap heap heap' \<longleftrightarrow> virt heap' = virt heap \<and> memsize heap' = memsize heap \<and>
     config heap' = config heap \<and> nphys heap' = nphys heap \<and> phys_lut heap' = phys_lut heap"

lemma heap_alloc_array_refines:
  assumes "heap_blocks heap bs" "pg heap dvd unat elem" "elem \<noteq> 0"
    and tot: "unat cnt * unat elem + pg heap < 2 ^ 64"
    and sz: "unat elem \<le> hpg heap" "unat cnt * unat elem \<le> hpg heap \<or> unat elem dvd hpg heap"
  shows "\<exists>heap'. hostmem_heap_block_alloc_array dbg heap cnt elem = Some
      (case fst (ff_alloc (hpg heap) (pg heap) 24 (unat elem) (unat cnt * unat elem) bs) of
         None \<Rightarrow> Inl ENOMEM | Some x \<Rightarrow> Inr (virt heap + of_nat (x + pg heap)), heap') \<and>
    heap_blocks heap' (snd (ff_alloc (hpg heap) (pg heap) 24 (unat elem) (unat cnt * unat elem) bs)) \<and>
    same_heap heap heap'"
proof -
  let ?v = "virt heap" and ?S = "unat (memsize heap)" and ?P = "pg heap" and ?H = "hpg heap"
  let ?al = "size_of_int (pagesize (config heap))" and ?hp = "size_of_int (hugepgsz (config heap))"
  from assms(1) have cfg: "hostmem_config_ok (config heap)" and sp: "space_ok ?v ?S"
    and t: "tiles ?P ?S 0 bs" and a: "aligned ?P bs"
    and r: "repr ?v (hdrs heap) (freelist heap) bs" by (simp_all add: heap_blocks_def)
  note pages = config_pages [OF cfg]
  have totu: "unat (cnt * elem) = unat cnt * unat elem" using tot by (simp add: unat_mult_u64)
  have "unat cnt \<le> unat (SIZE_MAX div elem)"
  proof -
    have "unat SIZE_MAX = 2 ^ 64 - 1" by (simp add: SIZE_MAX_def unsigned_minus_1_eq_mask mask_eq_exp_minus_1)
    moreover have "0 < unat elem" using assms(3) by (simp add: unat_gt_0)
    moreover have "unat cnt * unat elem \<le> 2 ^ 64 - 1" using tot by linarith
    ultimately show ?thesis by (simp add: unat_div less_eq_div_iff_mult_less_eq)
  qed
  then have c1: "\<not> SIZE_MAX div elem < cnt" by (simp add: word_less_nat_alt)
  have c2: "sizeof_block < ?al" using pages(1,5) by (simp add: sizeof_block_def word_less_nat_alt)
  have c3: "\<not> (?hp < elem \<or> (?hp < cnt * elem \<and> ?hp mod elem \<noteq> 0))"
    using sz pages(6) totu by (auto simp: word_less_nat_alt u64_eq_iff unat_mod mod_eq_0_iff_dvd)
  from alloc_loop_refines [of ?v ?S ?al ?hp elem "cnt * elem" 0 bs "hdrs heap" "freelist heap",
      unfolded pages(5,6) totu]
    sp pages(2,3,8) assms(2) tot t a r
  obtain st' where st': "alloc_loop ?v ?hp (cnt * elem) elem ?al (hdrs heap) (freelist heap) = Some
      (case fst (ff_alloc ?H ?P 24 (unat elem) (unat cnt * unat elem) bs) of
         None \<Rightarrow> Inl ENOMEM | Some x \<Rightarrow> Inr (?v + of_nat (x + ?P)), st')"
    "repr ?v st' (freelist heap) (snd (ff_alloc ?H ?P 24 (unat elem) (unat cnt * unat elem) bs))"
    by (auto simp del: of_nat_add)
  have "hostmem_heap_block_alloc_array dbg heap cnt elem = Some
      (case fst (ff_alloc ?H ?P 24 (unat elem) (unat cnt * unat elem) bs) of
         None \<Rightarrow> Inl ENOMEM | Some x \<Rightarrow> Inr (?v + of_nat (x + ?P)), heap\<lparr>hdrs := st'\<rparr>)"
    unfolding hostmem_heap_block_alloc_array_def hostmem_heap_block_alloc_array_aligned_def Let_def
    using assms(3) c1 c2 c3 st'(1) by auto
  moreover have "heap_blocks (heap\<lparr>hdrs := st'\<rparr>)
      (snd (ff_alloc ?H ?P 24 (unat elem) (unat cnt * unat elem) bs))"
    using cfg sp st'(2) ff_alloc_tiles [OF t]
      ff_alloc_aligned [OF pages(2) dvd_refl assms(2) dvd_mult [OF assms(2)] a]
    by (simp add: heap_blocks_def)
  ultimately show ?thesis
    by (intro exI [of _ "heap\<lparr>hdrs := st'\<rparr>"]) (simp add: same_heap_def)
qed

lemma heap_alloc_refines:
  assumes "heap_blocks heap bs" "unat n + 2 * pg heap \<le> 2 ^ 64"
  shows "\<exists>heap'. hostmem_heap_block_alloc dbg heap n = Some
      (case fst (ff_alloc (hpg heap) (pg heap) 24 (pg heap) (page_round (pg heap) (unat n)) bs) of
         None \<Rightarrow> Inl ENOMEM | Some x \<Rightarrow> Inr (virt heap + of_nat (x + pg heap)), heap') \<and>
    heap_blocks heap'
      (snd (ff_alloc (hpg heap) (pg heap) 24 (pg heap) (page_round (pg heap) (unat n)) bs)) \<and>
    same_heap heap heap'"
proof -
  have cfg: "hostmem_config_ok (config heap)" using assms(1) by (simp add: heap_blocks_def)
  note pages = config_pages [OF cfg]
  obtain k where k: "k \<le> 30" "pagesize (config heap) = 2 ^ k" "pg heap = 2 ^ k"
    using cfg by (elim config_okE) (metis order.trans)
  let ?pg = "size_of_int (pagesize (config heap))"
  let ?tot = "(n + ?pg - 1) AND size_of_int (NOT (pagesize (config heap) - 1))"
  have "unat (n + ?pg - 1) = unat n + pg heap - 1"
  proof -
    have "unat (n + ?pg) = unat n + pg heap"
      using assms(2) pages(5,8) by (simp add: unat_add_u64)
    then show ?thesis using unat_sub_u64 [of 1 "n + ?pg"] pages(8) by simp
  qed
  then have tot: "unat ?tot = page_round (pg heap) (unat n)"
    using unat_round_mask [of "n + ?pg - 1" k] k(3) unfolding page_round_def
    by (simp add: k(2) nat_power_eq)
  have cnt: "unat (?tot div ?pg) * pg heap = page_round (pg heap) (unat n)"
    using pages(8) unfolding unat_div tot pages(5) page_round_def by simp
  have le: "page_round (pg heap) (unat n) + pg heap < 2 ^ 64"
    using assms(2) div_times_less_eq_dividend [of "unat n + pg heap - 1" "pg heap"] pages(8)
    unfolding page_round_def by linarith
  have nz: "?pg \<noteq> 0" using pages(5,8) by auto
  have "hostmem_heap_block_alloc dbg heap n = hostmem_heap_block_alloc_array dbg heap (?tot div ?pg) ?pg"
    by (simp add: hostmem_heap_block_alloc_def hostmem_heap_block_alloc_aligned_def
        hostmem_heap_block_alloc_array_def Let_def)
  then show ?thesis
    using heap_alloc_array_refines [OF assms(1), of ?pg "?tot div ?pg" dbg, unfolded pages(5) cnt]
      nz le pages(2,7) by simp
qed

section \<open>The operations on live payloads\<close>

lemma heap_live_order:
  assumes "heap_live heap L"
  shows "sorted_wrt (\<lambda>x y. fst x < fst y \<and> snd x \<le> fst y) L"
proof -
  from assms obtain bs where bs: "hostmem_config_ok (config heap)"
    "tiles (pg heap) (unat (memsize heap)) 0 bs"
    and L: "L = payloads (unat (virt heap)) (pg heap) bs" by (auto simp: heap_live_def heap_blocks_def)
  from live_ordered [OF bs(2) config_pages(8) [OF bs(1)]] show ?thesis
    by (simp add: L payloads_def sorted_wrt_map)
qed

lemma heap_live_bounds:
  assumes "heap_live heap L" "x \<in> set L"
  shows "unat (virt heap) + pg heap \<le> fst x" "fst x \<le> snd x"
    "snd x \<le> unat (virt heap) + unat (memsize heap)"
  using assms live_bounds [of "pg heap" "unat (memsize heap)" 0]
  by (auto simp: heap_live_def heap_blocks_def payloads_def)

text \<open>Requests for which the rounding up to whole pages does not wrap.\<close>

definition dma_size_ok :: "u64 \<Rightarrow> bool" where
  "dma_size_ok n \<longleftrightarrow> unat n \<le> 2 ^ 63"

lemma payload_addr:
  assumes "space_ok v S" "x + hdr \<le> S"
  shows "unat (v + of_nat (x + hdr)) = unat v + (x + hdr)" "v + of_nat (x + hdr) \<noteq> 0"
  using space_ok_addr [OF assms] by simp_all

text \<open>What a result of first fit means for the payloads.\<close>

definition alloc_outcome ::
  "hostmem_heap \<Rightarrow> (nat \<times> nat) list \<Rightarrow> nat \<Rightarrow> int + u64 \<Rightarrow> bool" where
  "alloc_outcome heap' L tot r \<longleftrightarrow>
     (case r of Inl e \<Rightarrow> e = ENOMEM \<and> heap_live heap' L
      | Inr p \<Rightarrow> p \<noteq> 0 \<and> (\<exists>xs e ys. L = xs @ ys \<and> unat p + tot \<le> e \<and>
          heap_live heap' (xs @ (unat p, e) # ys)))"

lemma first_fit_outcome:
  assumes bs: "heap_blocks heap bs" and L: "L = payloads (unat (virt heap)) (pg heap) bs"
    and bs': "heap_blocks heap' (snd (ff_alloc (hpg heap) (pg heap) 24 el tot bs))"
    and same: "same_heap heap heap'"
  shows "alloc_outcome heap' L tot (case fst (ff_alloc (hpg heap) (pg heap) 24 el tot bs) of
    None \<Rightarrow> Inl ENOMEM | Some x \<Rightarrow> Inr (virt heap + of_nat (x + pg heap)))"
proof -
  let ?P = "pg heap" and ?v = "virt heap" and ?S = "unat (memsize heap)"
  let ?ff = "ff_alloc (hpg heap) ?P 24 el tot bs"
  from bs have sp: "space_ok ?v ?S" and t: "tiles ?P ?S 0 bs" by (simp_all add: heap_blocks_def)
  have lv: "heap_live heap' (payloads (unat ?v) ?P (snd ?ff))"
    using bs' same by (auto simp: heap_live_def same_heap_def)
  show ?thesis
  proof (cases "fst ?ff")
    case None
    with lv show ?thesis
      by (simp add: L payloads_def ff_alloc_live_None [OF None] alloc_outcome_def)
  next
    case (Some x)
    from ff_alloc_live_Some [OF Some] obtain xs e ys where
      xs: "live ?P bs = xs @ ys" "x + ?P + tot \<le> e"
      "live ?P (snd ?ff) = xs @ (x + ?P, e) # ys" by blast
    have "x + ?P \<le> ?S"
      using live_bounds [OF ff_alloc_tiles [OF t, of "hpg heap" 24 el tot],
          of "(x + ?P, e)"] unfolding xs(3) by simp
    note addr = payload_addr [OF sp this]
    let ?abs = "map (\<lambda>x. (unat ?v + fst x, unat ?v + snd x))"
    have "L = ?abs xs @ ?abs ys" by (simp add: L payloads_def xs(1))
    moreover have "heap_live heap' (?abs xs @ (unat (?v + of_nat (x + ?P)), unat ?v + e) # ?abs ys)"
      using lv unfolding payloads_def xs(3) addr(1) by simp
    moreover have "unat (?v + of_nat (x + ?P)) + tot \<le> unat ?v + e"
      using xs(2) unfolding addr(1) by linarith
    ultimately have "\<exists>xs e ys. L = xs @ ys \<and> unat (?v + of_nat (x + ?P)) + tot \<le> e \<and>
        heap_live heap' (xs @ (unat (?v + of_nat (x + ?P)), e) # ys)" by blast
    with Some addr(2) show ?thesis by (simp del: of_nat_add add: alloc_outcome_def)
  qed
qed

lemma heap_alloc_live:
  assumes "heap_live heap L" "dma_size_ok n"
  shows "\<exists>r heap'. hostmem_heap_block_alloc dbg heap n = Some (r, heap') \<and> same_heap heap heap' \<and>
    alloc_outcome heap' L (page_round (pg heap) (unat n)) r"
proof -
  from assms(1) obtain bs where bs: "heap_blocks heap bs" and L: "L = payloads (unat (virt heap)) (pg heap) bs"
    by (auto simp: heap_live_def)
  from bs have cfg: "hostmem_config_ok (config heap)" by (simp add: heap_blocks_def)
  have "unat n + 2 * pg heap \<le> 2 ^ 64"
    using assms(2) config_pages(4,7) [OF cfg] unfolding dma_size_ok_def by simp
  from heap_alloc_refines [OF bs this, of dbg] first_fit_outcome [OF bs L] show ?thesis by blast
qed

lemma heap_alloc_array_live:
  assumes "heap_live heap L" "pg heap dvd unat elem" "elem \<noteq> 0"
    and "unat cnt * unat elem + pg heap < 2 ^ 64"
    and "unat elem \<le> hpg heap" "unat cnt * unat elem \<le> hpg heap \<or> unat elem dvd hpg heap"
  shows "\<exists>r heap'. hostmem_heap_block_alloc_array dbg heap cnt elem = Some (r, heap') \<and>
    same_heap heap heap' \<and> alloc_outcome heap' L (unat cnt * unat elem) r"
proof -
  from assms(1) obtain bs where bs: "heap_blocks heap bs" and L: "L = payloads (unat (virt heap)) (pg heap) bs"
    by (auto simp: heap_live_def)
  from heap_alloc_array_refines [OF bs assms(2-6), of dbg] first_fit_outcome [OF bs L]
  show ?thesis by blast
qed

lemma heap_free_blocks:
  assumes bs: "heap_blocks heap bs" and p: "unat p \<in> fst ` set (payloads (unat (virt heap)) (pg heap) bs)"
  obtains heap' x where "hostmem_heap_block_free heap p = Some heap'" "same_heap heap heap'"
    "heap_blocks heap' (ff_free (pg heap) x bs)"
    "payloads (unat (virt heap)) (pg heap) (ff_free (pg heap) x bs) =
       filter (\<lambda>z. fst z \<noteq> unat p) (payloads (unat (virt heap)) (pg heap) bs)"
proof -
  let ?P = "pg heap" and ?v = "virt heap" and ?S = "unat (memsize heap)"
  from bs have sp: "space_ok ?v ?S" and t: "tiles ?P ?S 0 bs" by (simp_all add: heap_blocks_def)
  from p obtain y where y: "y \<in> set (live ?P bs)" "unat p = unat ?v + fst y"
    by (auto simp: payloads_def)
  from live_block [OF y(1)] obtain x where x: "x \<in> b_off ` set bs" "fst y = x + ?P" by auto
  have xS: "x + ?P \<le> ?S" using live_bounds [OF t y(1)] x(2) by linarith
  have p: "p = ?v + of_nat (x + ?P)"
    using payload_addr(1) [OF sp xS] y(2) x(2) by (simp add: u64_eq_iff)
  from heap_free_refines [OF bs x(1) xS] obtain heap' where
    fr: "hostmem_heap_block_free heap p = Some heap'" "heap_blocks heap' (ff_free ?P x bs)"
    and same: "same_heap heap heap'" unfolding p same_heap_def by blast
  have "payloads (unat ?v) ?P (ff_free ?P x bs) = filter (\<lambda>z. fst z \<noteq> unat p) (payloads (unat ?v) ?P bs)"
    unfolding payloads_def ff_free_live filter_map
    by (rule arg_cong [where f = "map _"]) (simp add: y(2) x(2) o_def)
  with fr same that show thesis by blast
qed

lemma heap_free_live:
  assumes "heap_live heap L" "unat p \<in> fst ` set L"
  shows "\<exists>heap'. hostmem_heap_block_free heap p = Some heap' \<and> same_heap heap heap' \<and>
    heap_live heap' (filter (\<lambda>x. fst x \<noteq> unat p) L)"
proof -
  from assms(1) obtain bs where bs: "heap_blocks heap bs" and L: "L = payloads (unat (virt heap)) (pg heap) bs"
    by (auto simp: heap_live_def)
  from assms(2) L have "unat p \<in> fst ` set (payloads (unat (virt heap)) (pg heap) bs)" by simp
  then show ?thesis by (rule heap_free_blocks [OF bs]) (auto simp: heap_live_def same_heap_def L)
qed

end
