(* ===== verification/Dma_Translation.thy ===== *)
theory Dma_Translation
  imports Upcie_Prelude
begin

text \<open>
  The contract between a region of DMA-capable memory and the code that describes buffers to a
  device: the region is contiguous in the address space of the process, and physically
  contiguous page by page, one entry of a lookup table per page. The page is a hugepage on
  the host and a device page on a GPU.
\<close>

locale dma_translation =
  fixes valid :: "'h \<Rightarrow> bool"
    and v2p :: "'h \<Rightarrow> u64 \<Rightarrow> u64 option"
    and base :: "'h \<Rightarrow> u64"
    and hp :: "'h \<Rightarrow> nat"
    and lut :: "'h \<Rightarrow> nat \<Rightarrow> u64"
    and limit :: "'h \<Rightarrow> nat"
  assumes hp_pos: "valid h \<Longrightarrow> 0 < hp h"
    and fits: "valid h \<Longrightarrow> unat (base h) + limit h < 2 ^ 64"
    and translate: "valid h \<Longrightarrow> x < limit h \<Longrightarrow>
      v2p h (base h + of_nat x) = Some (lut h (x div hp h) + of_nat (x mod hp h))"
begin

definition phys :: "'h \<Rightarrow> nat \<Rightarrow> u64" where
  "phys h x = lut h (x div hp h) + of_nat (x mod hp h)"

lemma v2p_phys: "valid h \<Longrightarrow> x < limit h \<Longrightarrow> v2p h (base h + of_nat x) = Some (phys h x)"
  by (simp add: translate phys_def)

text \<open>Inside a page a step in the region is the same step in physical memory.\<close>

lemma phys_step:
  assumes "valid h" "x mod hp h + d < hp h"
  shows "phys h (x + d) = phys h x + of_nat d"
proof -
  have e: "x + d = x mod hp h + d + x div hp h * hp h"
    using div_mult_mod_eq [of x "hp h"] by linarith
  then have "(x + d) mod hp h = x mod hp h + d"
    using assms(2) by (metis mod_less mod_mult_self1)
  moreover have "(x + d) div hp h = x div hp h"
  proof -
    have "(x mod hp h + d + x div hp h * hp h) div hp h = x div hp h + (x mod hp h + d) div hp h"
      by (rule div_mult_self1) (use hp_pos [OF assms(1)] in simp)
    then show ?thesis using assms(2) by (simp only: e [symmetric] div_less add_0_right)
  qed
  ultimately show ?thesis by (simp add: phys_def)
qed

lemma v2p_addr:
  assumes "valid h" "unat (base h) \<le> unat a" "unat a - unat (base h) < limit h"
  shows "v2p h a = Some (phys h (unat a - unat (base h)))"
proof -
  have "base h + of_nat (unat a - unat (base h)) = a"
    using assms(2) by (simp add: of_nat_diff)
  with v2p_phys [OF assms(1,3)] show ?thesis by simp
qed

text \<open>An interval that stays in one page is physically contiguous.\<close>

lemma contiguous:
  assumes "valid h" "x div hp h = (x + n - 1) div hp h" "j < n"
  shows "phys h (x + j) = phys h x + of_nat j"
proof (rule phys_step [OF assms(1)])
  have "x + n - 1 = x div hp h * hp h + (x + n - 1) mod hp h"
    using assms(2) div_mult_mod_eq by metis
  moreover have "(x + n - 1) mod hp h < hp h" using hp_pos [OF assms(1)] by simp
  moreover have "x = x div hp h * hp h + x mod hp h" by simp
  ultimately show "x mod hp h + j < hp h" using assms(3) by linarith
qed

end

end
