(* ===== verification/Hostmem_Dma.thy ===== *)
theory Hostmem_Dma
  imports Hostmem_Alloc Dma_Translation
begin

unbundle bit_operations_syntax

text \<open>
  Address translation in \<open>include/upcie/hostmem_heap.h\<close> and the interface of
  \<open>include/upcie/hostmem_dma.h\<close> on top of the heap. A lookup outside \<open>phys_lut\<close> is undefined.
  The out-parameter of \<open>hostmem_heap_block_virt_to_phys\<close> is \<open>Inr\<close>, its error code \<open>Inl\<close>; a null
  table is the empty table.
\<close>

section \<open>Translation\<close>

definition hostmem_heap_block_virt_to_phys :: "hostmem_heap \<Rightarrow> u64 \<Rightarrow> (int + u64) option" where
  "hostmem_heap_block_virt_to_phys heap vaddr =
     (if phys_lut heap = [] \<or> vaddr = 0 then Some (Inl (- EINVAL))
      else if vaddr < virt heap \<or> virt heap + memsize heap \<le> vaddr then Some (Inl (- EINVAL))
      else
        let offset = vaddr - virt heap;
            hpage_idx = offset div size_of_int (hugepgsz (config heap));
            in_hpage_offset = offset mod size_of_int (hugepgsz (config heap))
        in if hugepgsz (config heap) = 0 then None
           else if nphys heap \<le> hpage_idx then Some (Inl (- EINVAL))
           else do {
             base \<leftarrow> array_get (phys_lut heap) (unat hpage_idx);
             Some (Inr (base + in_hpage_offset)) })"

definition hostmem_heap_block_vtp :: "bool \<Rightarrow> hostmem_heap \<Rightarrow> u64 \<Rightarrow> u64 option" where
  "hostmem_heap_block_vtp dbg heap vaddr =
     (let offset = vaddr - virt heap;
          hpage_idx = offset div size_of_int (hugepgsz (config heap));
          in_hpage_offset = offset mod size_of_int (hugepgsz (config heap))
      in if hugepgsz (config heap) = 0 then None
         else do {
           c_assert dbg (hpage_idx < nphys heap);
           base \<leftarrow> array_get (phys_lut heap) (unat hpage_idx);
           Some (base + in_hpage_offset) })"

definition hostmem_dma_v2p :: "hostmem_heap \<Rightarrow> u64 \<Rightarrow> u64 option" where
  "hostmem_dma_v2p heap vaddr =
     (let offset = vaddr - virt heap;
          hpage_idx = drop_bit (nat (hugepgsz_shift (config heap))) offset;
          in_hpage_offset = offset AND size_of_int (hugepgsz (config heap) - 1)
      in if hugepgsz_shift (config heap) < 0 \<or> 64 \<le> hugepgsz_shift (config heap) then None
         else do {
           base \<leftarrow> array_get (phys_lut heap) (unat hpage_idx);
           Some (base + in_hpage_offset) })"

section \<open>The interface of the DMA allocator\<close>

definition hostmem_dma_free :: "hostmem_heap \<Rightarrow> u64 \<Rightarrow> hostmem_heap option" where
  "hostmem_dma_free heap ptr = hostmem_heap_block_free heap ptr"

definition hostmem_dma_malloc :: "bool \<Rightarrow> hostmem_heap \<Rightarrow> u64 \<Rightarrow> ((int + u64) \<times> hostmem_heap) option" where
  "hostmem_dma_malloc dbg heap sz =
     (if sz = 0 then Some (Inl EINVAL, heap) else hostmem_heap_block_alloc dbg heap sz)"

definition hostmem_dma_malloc_aligned ::
  "bool \<Rightarrow> hostmem_heap \<Rightarrow> u64 \<Rightarrow> u64 \<Rightarrow> ((int + u64) \<times> hostmem_heap) option" where
  "hostmem_dma_malloc_aligned dbg heap sz alignment =
     hostmem_heap_block_alloc_aligned dbg heap sz alignment"

definition hostmem_dma_alloc_array ::
  "bool \<Rightarrow> hostmem_heap \<Rightarrow> u64 \<Rightarrow> u64 \<Rightarrow> ((int + u64) \<times> hostmem_heap) option" where
  "hostmem_dma_alloc_array dbg heap elem_count elem_size =
     (if elem_size = 0 \<or> elem_count = 0 then Some (Inl EINVAL, heap)
      else hostmem_heap_block_alloc_array dbg heap elem_count elem_size)"

section \<open>The heap provides the contract of an allocator\<close>

fun hostmem_request :: "bool \<Rightarrow> hostmem_heap \<Rightarrow> dma_request \<Rightarrow> ((int + u64) \<times> hostmem_heap) option" where
  "hostmem_request dbg heap (Bytes n) = hostmem_dma_malloc dbg heap n"
| "hostmem_request dbg heap (Array cnt elem) = hostmem_dma_alloc_array dbg heap cnt elem"

text \<open>
  The requests the contract covers: sizes whose rounding does not wrap, and arrays of whole
  pages that the code's check on hugepages lets through.
\<close>

fun hostmem_request_ok :: "hostmem_heap \<Rightarrow> dma_request \<Rightarrow> bool" where
  "hostmem_request_ok heap (Bytes n) = dma_size_ok n"
| "hostmem_request_ok heap (Array cnt elem) \<longleftrightarrow>
     pg heap dvd unat elem \<and> unat cnt * unat elem \<le> 2 ^ 63 \<and> unat elem \<le> hpg heap \<and>
     (unat cnt * unat elem \<le> hpg heap \<or> unat elem dvd hpg heap)"

lemma request_ok_same: "same_heap heap heap' \<Longrightarrow> hostmem_request_ok heap' = hostmem_request_ok heap"
  by (intro ext, rename_tac r, case_tac r) (simp_all add: same_heap_def)

lemma outcome_weaken: "alloc_outcome heap' L tot r \<Longrightarrow> n \<le> tot \<Longrightarrow> alloc_outcome heap' L n r"
proof -
  assume out: "alloc_outcome heap' L tot r" and n: "n \<le> tot"
  then have le: "unat p + tot \<le> e \<Longrightarrow> unat p + n \<le> e" for p :: u64 and e by linarith
  show "alloc_outcome heap' L n r"
  proof (cases r)
    case (Inr p)
    with out le show ?thesis unfolding alloc_outcome_def by simp blast
  qed (use out in \<open>simp add: alloc_outcome_def\<close>)
qed

lemma hostmem_request_live:
  assumes "heap_live heap L" "hostmem_request_ok heap r"
  shows "\<exists>x heap'. hostmem_request dbg heap r = Some (x, heap') \<and> same_heap heap heap' \<and>
    (alloc_outcome heap' L (nbytes r) x \<or> x = Inl EINVAL \<and> heap' = heap)"
proof -
  from assms(1) have cfg: "hostmem_config_ok (config heap)" by (auto simp: heap_live_def heap_blocks_def)
  note pages = config_pages [OF cfg]
  have refl: "same_heap heap heap" by (simp add: same_heap_def)
  show ?thesis
  proof (cases r)
    case (Bytes n)
    show ?thesis
    proof (cases "n = 0")
      case True
      with Bytes refl show ?thesis by (simp add: hostmem_dma_malloc_def)
    next
      case False
      from heap_alloc_live [OF assms(1), of n dbg] assms(2) Bytes False
        page_round_ge [OF pages(8), of "unat n"] show ?thesis
        by (auto simp: hostmem_dma_malloc_def dest: outcome_weaken)
    qed
  next
    case (Array cnt elem)
    show ?thesis
    proof (cases "elem = 0 \<or> cnt = 0")
      case True
      with Array refl show ?thesis by (auto simp: hostmem_dma_alloc_array_def)
    next
      case False
      with Array assms(2) pages(4,7) heap_alloc_array_live [OF assms(1), of elem cnt dbg]
      show ?thesis by (auto simp: hostmem_dma_alloc_array_def)
    qed
  qed
qed

interpretation hostmem: dma_allocator heap_live hostmem_request_ok "hostmem_request dbg" hostmem_dma_free
  for dbg
proof (unfold_locales, goal_cases)
  case (1 h L)
  then show ?case by (rule heap_live_order)
next
  case (2 h L n)
  from hostmem_request_live [OF 2, of dbg] obtain x heap' where
    x: "hostmem_request dbg h n = Some (x, heap')" "same_heap h heap'"
    "alloc_outcome heap' L (nbytes n) x \<or> x = Inl EINVAL \<and> heap' = h" by blast
  then show ?case
    using 2 request_ok_same [OF x(2)] by (cases x) (auto simp: alloc_outcome_def)
next
  case (3 h L p)
  from heap_free_live [OF 3] request_ok_same show ?case
    unfolding hostmem_dma_free_def by blast
qed

section \<open>The three translations agree\<close>

text \<open>What \<open>hostmem_heap_init\<close> establishes about the table: one entry per hugepage of the heap.\<close>

definition lut_ok :: "hostmem_heap \<Rightarrow> bool" where
  "lut_ok heap \<longleftrightarrow> hostmem_config_ok (config heap) \<and> space_ok (virt heap) (unat (memsize heap)) \<and>
     length (phys_lut heap) = unat (nphys heap) \<and> unat (nphys heap) * hpg heap \<le> unat (memsize heap)"

definition host_phys :: "hostmem_heap \<Rightarrow> nat \<Rightarrow> u64" where
  "host_phys heap x = phys_lut heap ! (x div hpg heap) + of_nat (x mod hpg heap)"

text \<open>The index and the offset into the page, computed by division or by shift and mask.\<close>

lemma offset_parts:
  assumes "hostmem_config_ok (config heap)"
  shows "unat (off div size_of_int (hugepgsz (config heap))) = unat off div hpg heap"
    and "off mod size_of_int (hugepgsz (config heap)) = of_nat (unat off mod hpg heap)"
    and "unat (drop_bit (nat (hugepgsz_shift (config heap))) (off :: u64)) = unat off div hpg heap"
    and "off AND size_of_int (hugepgsz (config heap) - 1) = of_nat (unat off mod hpg heap)"
    and "hugepgsz (config heap) \<noteq> 0" "0 \<le> hugepgsz_shift (config heap)"
        "hugepgsz_shift (config heap) < 64"
proof -
  obtain h where h: "h \<le> 30" "hugepgsz (config heap) = 2 ^ h" "hugepgsz_shift (config heap) = int h"
    "hpg heap = 2 ^ h" using assms by (elim config_okE)
  note pages = config_pages [OF assms]
  show "unat (off div size_of_int (hugepgsz (config heap))) = unat off div hpg heap"
    by (simp add: unat_div pages(6))
  show "off mod size_of_int (hugepgsz (config heap)) = of_nat (unat off mod hpg heap)"
    by (rule u64_eqI) (simp only: unat_mod pages(6) unat_mod_back)
  show "unat (drop_bit (nat (hugepgsz_shift (config heap))) off) = unat off div hpg heap"
    using unat_drop_bit_u64 [of h off] unfolding h(3,4) by simp
  have "size_of_int (hugepgsz (config heap) - 1) = 2 ^ h - 1" by (simp add: h(2) size_of_int_def)
  then show "off AND size_of_int (hugepgsz (config heap) - 1) = of_nat (unat off mod hpg heap)"
    by (intro u64_eqI) (simp only: unat_mod_back unat_and_mask h(4))
  show "hugepgsz (config heap) \<noteq> 0" "0 \<le> hugepgsz_shift (config heap)"
    "hugepgsz_shift (config heap) < 64" using h by simp_all
qed

lemma lut_index:
  assumes "lut_ok heap" "x < unat (nphys heap) * hpg heap"
  shows "x div hpg heap < unat (nphys heap)" "x < unat (memsize heap)"
    "unat (virt heap + of_nat x - virt heap) = x" "unat (virt heap + of_nat x) = unat (virt heap) + x"
proof -
  from assms show x: "x < unat (memsize heap)" by (simp add: lut_ok_def)
  show "x div hpg heap < unat (nphys heap)" using assms(2) by (simp add: less_mult_imp_div_less)
  have "x < 2 ^ 64" using x unat_u64_bound [of "memsize heap"] by linarith
  then show "unat (virt heap + of_nat x - virt heap) = x" by (simp add: unat_of_nat_u64)
  show "unat (virt heap + of_nat x) = unat (virt heap) + x"
    by (rule space_ok_addr(1)) (use assms(1) x in \<open>auto simp: lut_ok_def\<close>)
qed

lemma v2p_eq:
  assumes "lut_ok heap" "x < unat (nphys heap) * hpg heap"
  shows "hostmem_dma_v2p heap (virt heap + of_nat x) = Some (host_phys heap x)"
proof -
  have cfg: "hostmem_config_ok (config heap)" "length (phys_lut heap) = unat (nphys heap)"
    using assms(1) by (simp_all add: lut_ok_def)
  note parts = offset_parts [OF cfg(1)]
  show ?thesis
    using lut_index(1) [OF assms] parts(6,7) unfolding hostmem_dma_v2p_def Let_def parts(3,4)
      lut_index(3) [OF assms] host_phys_def
    by (simp add: cfg(2))
qed

lemma vtp_eq:
  assumes "lut_ok heap" "x < unat (nphys heap) * hpg heap"
  shows "hostmem_heap_block_vtp dbg heap (virt heap + of_nat x) = Some (host_phys heap x)"
proof -
  have cfg: "hostmem_config_ok (config heap)" "length (phys_lut heap) = unat (nphys heap)"
    using assms(1) by (simp_all add: lut_ok_def)
  note parts = offset_parts [OF cfg(1)]
  have "(virt heap + of_nat x - virt heap) div size_of_int (hugepgsz (config heap)) < nphys heap"
    using lut_index(1) [OF assms] by (simp only: word_less_nat_alt parts(1) lut_index(3) [OF assms])
  then show ?thesis
    using lut_index(1) [OF assms] parts(5) unfolding hostmem_heap_block_vtp_def Let_def parts(1,2)
      lut_index(3) [OF assms] host_phys_def
    by (simp add: cfg(2))
qed

lemma virt_to_phys_eq:
  assumes "lut_ok heap" "x < unat (nphys heap) * hpg heap"
  shows "hostmem_heap_block_virt_to_phys heap (virt heap + of_nat x) = Some (Inr (host_phys heap x))"
proof -
  have cfg: "hostmem_config_ok (config heap)" "length (phys_lut heap) = unat (nphys heap)"
    and sp: "space_ok (virt heap) (unat (memsize heap))"
    using assms(1) by (simp_all add: lut_ok_def)
  note parts = offset_parts [OF cfg(1)]
  have idx: "\<not> nphys heap \<le> (virt heap + of_nat x - virt heap) div size_of_int (hugepgsz (config heap))"
    using lut_index(1) [OF assms]
    by (simp only: word_le_nat_alt parts(1) lut_index(3) [OF assms] not_le)
  have "unat (virt heap + memsize heap) = unat (virt heap) + unat (memsize heap)"
    using sp by (simp add: space_ok_def unat_add_u64)
  then have "\<not> virt heap + of_nat x < virt heap" "\<not> virt heap + memsize heap \<le> virt heap + of_nat x"
    "virt heap + of_nat x \<noteq> 0"
    using lut_index(2,4) [OF assms] space_ok_addr(2) [OF sp, of x]
    by (auto simp: word_le_nat_alt word_less_nat_alt)
  moreover have "phys_lut heap \<noteq> []" using lut_index(1) [OF assms] cfg(2) by auto
  ultimately show ?thesis
    using idx lut_index(1) [OF assms] parts(5)
    unfolding hostmem_heap_block_virt_to_phys_def Let_def
    by (simp del: add_diff_cancel_left' add: cfg(2) parts(1,2) host_phys_def)
      (simp add: lut_index(3) [OF assms, simplified] cfg(2))
qed

interpretation host: dma_translation lut_ok hostmem_dma_v2p virt hpg "\<lambda>heap i. phys_lut heap ! i"
    "\<lambda>heap. unat (nphys heap) * hpg heap"
proof
  fix heap assume ok: "lut_ok heap"
    then have cfg: "hostmem_config_ok (config heap)" by (simp add: lut_ok_def)
    show "0 < hpg heap" by (rule config_pages(3) [OF cfg])
    show "unat (virt heap) + unat (nphys heap) * hpg heap < 2 ^ 64"
      using ok by (simp add: lut_ok_def space_ok_def)
    fix x assume "x < unat (nphys heap) * hpg heap"
    from v2p_eq [OF ok this] show "hostmem_dma_v2p heap (virt heap + of_nat x) =
        Some (phys_lut heap ! (x div hpg heap) + of_nat (x mod hpg heap))"
      by (simp add: host_phys_def)
qed

lemma host_phys_eq: "host.phys = host_phys"
  by (intro ext) (simp add: host.phys_def host_phys_def)

end
