(* ===== verification/Hostmem_Props.thy ===== *)
theory Hostmem_Props
  imports Hostmem_Dma
begin

unbundle bit_operations_syntax

text \<open>
  What the hugepage heap promises its clients, and where it does not keep a promise. The
  results rest on the refinement lemmas of \<open>Hostmem_Alloc\<close> and on the two contracts the heap
  provides, \<open>hostmem\<close> (allocation) and \<open>host\<close> (translation).
\<close>

section \<open>A fresh heap\<close>

text \<open>The heap as \<open>hostmem_heap_init\<close> leaves it: one free block, one table entry per hugepage.\<close>

definition fresh_heap :: "u64 \<Rightarrow> u64 \<Rightarrow> hostmem_config \<Rightarrow> u64 list \<Rightarrow> hostmem_heap" where
  "fresh_heap v sz cfg lut =
     \<lparr>virt = v, memsize = sz, hdrs = [v \<mapsto> \<lparr>size' = sz, free' = True, next' = 0\<rparr>], freelist = v,
      config = cfg, nphys = sz div size_of_int (hugepgsz cfg), phys_lut = lut\<rparr>"

lemma fresh_heap_simps [simp]:
  "virt (fresh_heap v sz cfg lut) = v" "memsize (fresh_heap v sz cfg lut) = sz"
  "config (fresh_heap v sz cfg lut) = cfg" "phys_lut (fresh_heap v sz cfg lut) = lut"
  "freelist (fresh_heap v sz cfg lut) = v"
  "nphys (fresh_heap v sz cfg lut) = sz div size_of_int (hugepgsz cfg)"
  "hdrs (fresh_heap v sz cfg lut) = [v \<mapsto> \<lparr>size' = sz, free' = True, next' = 0\<rparr>]"
  by (simp_all add: fresh_heap_def)

lemma fresh_heap_blocks:
  assumes "hostmem_config_ok cfg" "space_ok v (unat sz)"
  shows "heap_blocks (fresh_heap v sz cfg lut) [Blk 0 (unat sz) True]"
  using assms space_ok_addr(2) [OF assms(2), of 0] by (simp add: heap_blocks_def)

lemma fresh_heap_live:
  assumes "hostmem_config_ok cfg" "space_ok v (unat sz)"
  shows "heap_live (fresh_heap v sz cfg lut) []"
  using fresh_heap_blocks [OF assms] by (force simp: heap_live_def payloads_def)

lemma fresh_heap_lut:
  assumes "hostmem_config_ok cfg" "space_ok v (unat sz)"
    "length lut = unat (sz div size_of_int (hugepgsz cfg))"
  shows "lut_ok (fresh_heap v sz cfg lut)"
  using assms config_pages(6) [of "fresh_heap v sz cfg lut"]
  by (simp add: lut_ok_def unat_div)

text \<open>The heap of the examples: 8 MiB in hugepages of 2 MiB, pages of 4 KiB.\<close>

definition example_config :: hostmem_config where
  "example_config = \<lparr>hugetlb_path = ''/mnt/huge'', memfd_flags = 1409286148, backend = 1, count = 0,
     pagesize = 4096, pagesize_shift = 12, hugepgsz = 2097152, hugepgsz_shift = 21\<rparr>"

definition example_heap :: hostmem_heap where
  "example_heap = fresh_heap 0x40000000 0x800000 example_config
     [0x100000000, 0x80000000, 0x80200000, 0x140000000]"

lemma example_config_ok: "hostmem_config_ok example_config"
  by (simp add: hostmem_config_ok_def example_config_def)

lemma example_space: "space_ok 0x40000000 (unat (0x800000 :: u64))"
  by (simp add: space_ok_def)

lemma example_heap_live: "heap_live example_heap []"
  unfolding example_heap_def by (rule fresh_heap_live [OF example_config_ok example_space])

lemma example_heap_blocks: "heap_blocks example_heap [Blk 0 (unat (0x800000 :: u64)) True]"
  unfolding example_heap_def by (rule fresh_heap_blocks [OF example_config_ok example_space])

lemma example_heap_lut: "lut_ok example_heap"
  unfolding example_heap_def
  by (rule fresh_heap_lut [OF example_config_ok example_space]) (simp add: example_config_def unat_div)

section \<open>Allocation and release over the lifetime of a heap\<close>



text \<open>C22: the pointer-based array allocation computes what the first-fit allocator on lists
  computes, in every state a client can reach, and fails with \<open>ENOMEM\<close> exactly when first fit
  finds no block.\<close>

theorem hostmem_alloc_array_refines_first_fit:
  assumes "heap_blocks heap bs" "pg heap dvd unat elem" "elem \<noteq> 0"
    and "unat cnt * unat elem + pg heap < 2 ^ 64"
    and "unat elem \<le> hpg heap" "unat cnt * unat elem \<le> hpg heap \<or> unat elem dvd hpg heap"
  shows "\<exists>heap'. hostmem_heap_block_alloc_array dbg heap cnt elem = Some
      (case fst (ff_alloc (hpg heap) (pg heap) 24 (unat elem) (unat cnt * unat elem) bs) of
         None \<Rightarrow> Inl ENOMEM | Some x \<Rightarrow> Inr (virt heap + of_nat (x + pg heap)), heap') \<and>
    heap_blocks heap' (snd (ff_alloc (hpg heap) (pg heap) 24 (unat elem) (unat cnt * unat elem) bs))"
  using heap_alloc_array_refines [OF assms, of dbg] by blast

theorem hostmem_alloc_array_refines_first_fit_witness:
  "\<exists>heap'. hostmem_heap_block_alloc_array True example_heap 1 65536
     = Some (Inr 0x40001000, heap')"
proof -
  have c: "pg example_heap = 4096" "hpg example_heap = 2097152" "virt example_heap = 0x40000000"
    by (simp_all add: example_heap_def example_config_def)
  have "ff_alloc 2097152 4096 24 65536 65536 [Blk 0 8388608 True] =
      (Some 0, [Blk 0 65536 False, Blk 69632 8318976 True])"
    by (simp add: ff_alloc_fit)
  then show ?thesis
    using hostmem_alloc_array_refines_first_fit [OF example_heap_blocks, of 65536 1 True] c by auto
qed

section \<open>Elements are physically contiguous\<close>

lemma v2p_same: "same_heap heap heap' \<Longrightarrow> hostmem_dma_v2p heap' a = hostmem_dma_v2p heap a"
  by (cases heap, cases heap') (simp add: same_heap_def hostmem_dma_v2p_def Let_def)

lemma array_element_in_page:
  assumes "heap_blocks heap bs" "pg heap dvd e" "0 < e"
    and "e \<le> hpg heap" "n * e \<le> hpg heap \<or> e dvd hpg heap"
    and x: "fst (ff_alloc (hpg heap) (pg heap) 24 e (n * e) bs) = Some x" and i: "i < n"
  shows "(x + pg heap + i * e) div hpg heap = (x + pg heap + i * e + e - 1) div hpg heap"
    "x + pg heap + i * e + e \<le> unat (memsize heap)"
proof -
  from assms(1) have cfg: "hostmem_config_ok (config heap)" and a: "aligned (pg heap) bs"
    and t: "tiles (pg heap) (unat (memsize heap)) 0 bs" by (simp_all add: heap_blocks_def)
  note pages = config_pages [OF cfg]
  show "(x + pg heap + i * e) div hpg heap = (x + pg heap + i * e + e - 1) div hpg heap"
    by (rule ff_alloc_no_straddle [OF x le_refl pages(3) assms(3) pages(8) assms(5) pages(2) dvd_refl
          assms(2) le_refl a i])
  from ff_alloc_live_Some [OF x] obtain xs z ys where xs: "x + pg heap + n * e \<le> z"
    "live (pg heap) (snd (ff_alloc (hpg heap) (pg heap) 24 e (n * e) bs)) = xs @ (x + pg heap, z) # ys"
    by blast
  have "z \<le> unat (memsize heap)"
    using live_bounds [OF ff_alloc_tiles [OF t, of "hpg heap" 24 e "n * e"], of "(x + pg heap, z)"]
    unfolding xs(2) by simp
  moreover have "i * e + e \<le> n * e" using i by (metis Suc_leI add.commute mult_Suc mult_le_mono1)
  ultimately show "x + pg heap + i * e + e \<le> unat (memsize heap)" using xs(1) by linarith
qed

lemma array_elements_contiguous:
  assumes "heap_blocks heap bs" "lut_ok heap" "unat (memsize heap) = unat (nphys heap) * hpg heap"
    and "pg heap dvd unat elem" "elem \<noteq> 0" "unat cnt * unat elem + pg heap < 2 ^ 64"
    and "unat elem \<le> hpg heap" "unat cnt * unat elem \<le> hpg heap \<or> unat elem dvd hpg heap"
    and "hostmem_heap_block_alloc_array dbg heap cnt elem = Some (Inr p, heap')"
    and "i < unat cnt" "j < unat elem"
  shows "\<exists>y. hostmem_dma_v2p heap' (p + of_nat (i * unat elem)) = Some y \<and>
    hostmem_dma_v2p heap' (p + of_nat (i * unat elem + j)) = Some (y + of_nat j)"
proof -
  from heap_alloc_array_refines [OF assms(1,4-8), of dbg] assms(9) obtain x where
    x: "fst (ff_alloc (hpg heap) (pg heap) 24 (unat elem) (unat cnt * unat elem) bs) = Some x"
    "p = virt heap + of_nat (x + pg heap)" and same: "same_heap heap heap'"
    by (auto split: option.splits)
  let ?x = "x + pg heap + i * unat elem"
  have "0 < unat elem" using assms(5) by (simp add: unat_gt_0)
  note page = array_element_in_page [OF assms(1,4) this assms(7,8) x(1) assms(10)]
  have lim: "?x < unat (nphys heap) * hpg heap" "?x + j < unat (nphys heap) * hpg heap"
    using page(2) assms(3,11) by linarith+
  have "hostmem_dma_v2p heap (virt heap + of_nat ?x) = Some (host_phys heap ?x)"
    "hostmem_dma_v2p heap (virt heap + of_nat (?x + j)) = Some (host_phys heap (?x + j))"
    using host.v2p_phys [OF assms(2) lim(1)] host.v2p_phys [OF assms(2) lim(2)]
    unfolding host_phys_eq .
  moreover have "host_phys heap (?x + j) = host_phys heap ?x + of_nat j"
    using host.contiguous [OF assms(2) page(1) assms(11)] unfolding host_phys_eq .
  moreover have "virt heap + of_nat ?x = p + of_nat (i * unat elem)"
    "virt heap + of_nat (?x + j) = p + of_nat (i * unat elem + j)"
    by (simp_all add: x(2) add.assoc)
  ultimately show ?thesis unfolding v2p_same [OF same] by (metis (no_types, lifting))
qed

text \<open>C24: no element of an array straddles hugepages that are not physically adjacent: the
  physical address of byte \<open>j\<close> of an element is the physical address of the element plus \<open>j\<close>.\<close>

theorem hostmem_array_elements_contiguous:
  assumes "heap_blocks heap bs" "lut_ok heap" "unat (memsize heap) = unat (nphys heap) * hpg heap"
    and "pg heap dvd unat elem" "elem \<noteq> 0" "unat cnt * unat elem + pg heap < 2 ^ 64"
    and "unat elem \<le> hpg heap" "unat cnt * unat elem \<le> hpg heap \<or> unat elem dvd hpg heap"
    and "hostmem_heap_block_alloc_array dbg heap cnt elem = Some (Inr p, heap')"
    and "i < unat cnt" "j < unat elem"
  shows "\<exists>y. hostmem_dma_v2p heap' (p + of_nat (i * unat elem)) = Some y \<and>
    hostmem_dma_v2p heap' (p + of_nat (i * unat elem + j)) = Some (y + of_nat j)"
  by (rule array_elements_contiguous [OF assms])

theorem hostmem_array_elements_contiguous_witness:
  "\<exists>heap' y. hostmem_heap_block_alloc_array True example_heap 1024 4096 = Some (Inr 0x40001000, heap') \<and>
     hostmem_dma_v2p heap' (0x40001000 + of_nat (511 * 4096)) = Some y \<and>
     hostmem_dma_v2p heap' (0x40001000 + of_nat (511 * 4096 + 4095)) = Some (y + of_nat 4095)"
proof -
  have c: "pg example_heap = 4096" "hpg example_heap = 2097152" "virt example_heap = 0x40000000"
    "memsize example_heap = 0x800000" "nphys example_heap = 4"
    by (simp_all add: example_heap_def example_config_def)
  have "ff_alloc 2097152 4096 24 4096 4194304 [Blk 0 8388608 True] =
      (Some 0, [Blk 0 4194304 False, Blk 4198400 4190208 True])"
    by (simp add: ff_alloc_fit)
  then obtain heap' where h: "hostmem_heap_block_alloc_array True example_heap 1024 4096
      = Some (Inr 0x40001000, heap')"
    using heap_alloc_array_refines [OF example_heap_blocks, of 4096 1024 True] c by auto
  from hostmem_array_elements_contiguous [OF example_heap_blocks example_heap_lut _ _ _ _ _ _ h, of 511 4095]
  have "\<exists>y. hostmem_dma_v2p heap' (0x40001000 + of_nat (511 * 4096)) = Some y \<and>
      hostmem_dma_v2p heap' (0x40001000 + of_nat (511 * 4096 + 4095)) = Some (y + of_nat 4095)"
    by (simp add: c)
  with h show ?thesis by blast
qed

section \<open>Release merges\<close>

text \<open>C25: releasing a payload marks its block and merges neighbours: afterwards no two
  neighbouring blocks are free, the other payloads are untouched, and when it was the last
  payload the heap is again the single free block it started as.\<close>

theorem hostmem_free_merges:
  assumes "heap_blocks heap bs" "b \<in> set bs" "\<not> b_free b"
  shows "\<exists>heap' bs'. hostmem_heap_block_free heap (virt heap + of_nat (b_off b + pg heap)) = Some heap' \<and>
    heap_blocks heap' bs' \<and> merged bs' \<and>
    live (pg heap) bs' = filter (\<lambda>x. fst x \<noteq> b_off b + pg heap) (live (pg heap) bs) \<and>
    (live (pg heap) bs' = [] \<longrightarrow> bs' = [Blk 0 (unat (memsize heap)) True])"
proof -
  from assms(1) have t: "tiles (pg heap) (unat (memsize heap)) 0 bs" by (simp add: heap_blocks_def)
  have "b_off b + pg heap \<in> fst ` set (live (pg heap) bs)"
    using assms(2,3) by (induction bs) auto
  then have "b_off b + pg heap \<le> unat (memsize heap)" using live_bounds [OF t] by fastforce
  from heap_free_refines [OF assms(1) _ this] assms(2) obtain heap' where
    "hostmem_heap_block_free heap (virt heap + of_nat (b_off b + pg heap)) = Some heap'"
    "heap_blocks heap' (ff_free (pg heap) (b_off b) bs)" by blast
  then show ?thesis
    using ff_free_live [of "pg heap" "b_off b" bs] ff_free_last [OF t, of "b_off b"]
      ff_coalesce_merged [of "pg heap" "ff_mark (b_off b) bs"]
    by (intro exI conjI) (auto simp: ff_free_def)
qed

theorem hostmem_free_merges_witness:
  "\<exists>heap' heap'' bs'. hostmem_heap_block_alloc_array True example_heap 1 65536 = Some (Inr 0x40001000, heap') \<and>
     hostmem_heap_block_free heap' 0x40001000 = Some heap'' \<and> heap_blocks heap'' bs' \<and>
     bs' = [Blk 0 0x800000 True]"
proof -
  have c: "pg example_heap = 4096" "hpg example_heap = 2097152" "virt example_heap = 0x40000000"
    "memsize example_heap = 0x800000"
    by (simp_all add: example_heap_def example_config_def)
  have ff: "ff_alloc 2097152 4096 24 65536 65536 [Blk 0 8388608 True] =
      (Some 0, [Blk 0 65536 False, Blk 69632 8318976 True])"
    by (simp add: ff_alloc_fit)
  then obtain heap' where h: "hostmem_heap_block_alloc_array True example_heap 1 65536
      = Some (Inr 0x40001000, heap')" "heap_blocks heap' [Blk 0 65536 False, Blk 69632 8318976 True]"
    "same_heap example_heap heap'"
    using heap_alloc_array_refines [OF example_heap_blocks, of 65536 1 True] c by auto
  then have c': "pg heap' = 4096" "virt heap' = 0x40000000" "memsize heap' = 0x800000"
    using c by (simp_all add: same_heap_def)
  from hostmem_free_merges [OF h(2), of "Blk 0 65536 False"] c' h(1) show ?thesis by auto
qed

section \<open>Translation\<close>

text \<open>for every address of the heap the checked translation, the unchecked one and the one
  of the DMA interface (division and remainder, or shift and mask) give the same physical
  address: the table entry of its hugepage plus its offset in the hugepage.\<close>

theorem hostmem_translations_agree:
  assumes "lut_ok heap" "x < unat (nphys heap) * hpg heap"
  defines "a \<equiv> virt heap + of_nat x"
  shows "hostmem_dma_v2p heap a = Some (host_phys heap x) \<and>
    hostmem_heap_block_vtp dbg heap a = Some (host_phys heap x) \<and>
    hostmem_heap_block_virt_to_phys heap a = Some (Inr (host_phys heap x))"
  unfolding a_def
  by (intro conjI v2p_eq [OF assms(1,2)] vtp_eq [OF assms(1,2)] virt_to_phys_eq [OF assms(1,2)])

theorem hostmem_translations_agree_witness:
  "hostmem_dma_v2p example_heap (0x40000000 + of_nat 0x200123) = Some 0x80000123"
proof -
  have c: "hpg example_heap = 2097152" "virt example_heap = 0x40000000" "nphys example_heap = 4"
    by (simp_all add: example_heap_def example_config_def)
  have "host_phys example_heap 0x200123 = 0x80000123"
    unfolding host_phys_def c by (simp add: example_heap_def)
  then show ?thesis
    using hostmem_translations_agree [OF example_heap_lut, where x = "0x200123" and dbg = True] by (simp add: c)
qed

section \<open>Where the promises end\<close>

text \<open>on a fresh heap an array that does not fit in one hugepage is never allocated when its
  elements are larger than a page, however large the heap: the skip to an aligned element does
  not account for the descriptor in front of it.\<close>

theorem hostmem_large_elements_never_fit:
  assumes "heap_blocks heap [Blk 0 s True]" "pg heap dvd unat elem" "pg heap < unat elem"
    and "unat elem dvd hpg heap" "hpg heap < unat cnt * unat elem + pg heap"
    and "unat cnt * unat elem + pg heap < 2 ^ 64"
  shows "\<exists>heap'. hostmem_heap_block_alloc_array dbg heap cnt elem = Some (Inl ENOMEM, heap')"
proof -
  have cfg: "hostmem_config_ok (config heap)" using assms(1) by (simp add: heap_blocks_def)
  note pages = config_pages [OF cfg]
  have "elem \<noteq> 0" using assms(3) by auto
  moreover have "unat elem \<le> hpg heap" using assms(4) pages(3) by (rule dvd_imp_le)
  moreover have "fst (ff_alloc (hpg heap) (pg heap) 24 (unat elem) (unat cnt * unat elem) [Blk 0 s True]) = None"
    by (rule ff_alloc_never_fits [OF assms(3) pages(8) assms(4) pages(3) assms(5)]) simp
  ultimately show ?thesis
    using heap_alloc_array_refines [OF assms(1,2) _ assms(6), of dbg] assms(4) by auto
qed

theorem hostmem_large_elements_never_fit_witness:
  "\<exists>heap'. hostmem_heap_block_alloc_array True example_heap 33 65536 = Some (Inl ENOMEM, heap')"
  by (rule hostmem_large_elements_never_fit [OF example_heap_blocks])
    (simp_all add: example_heap_def example_config_def)

text \<open>A block that is not free and links to itself stops the walk from ending.\<close>

lemma alloc_loop_self_link:
  assumes "st block = Some \<lparr>size' = s, free' = False, next' = block\<rparr>" "block \<noteq> 0"
  shows "alloc_loop base hp tot elem al st block = None"
proof (rule ccontr)
  assume "alloc_loop base hp tot elem al st block \<noteq> None"
  then obtain y where "alloc_loop base hp tot elem al st block = Some y" by blast
  then have "st block = Some \<lparr>size' = s, free' = False, next' = block\<rparr> \<longrightarrow> block \<noteq> 0 \<longrightarrow> False"
  proof (rule alloc_loop.raw_induct [rotated, where P = "\<lambda>_ _ _ _ _ st block _.
        st block = Some \<lparr>size' = s, free' = False, next' = block\<rparr> \<longrightarrow> block \<noteq> 0 \<longrightarrow> False"],
      intro impI, goal_cases)
    case (1 f base hp tot elem al st block y)
    then have "f base hp tot elem al st block = Some y" by simp
    from 1(1) [OF this] 1(4,5) show False by blast
  qed
  with assms show False by simp
qed

text \<open>a request whose size plus the descriptor is \<open>2 ^ 64\<close> passes every check, is answered
  with a pointer although the heap has not that memory, and leaves the heap with a block that
  links to itself: the next allocation never returns.\<close>

theorem hostmem_alloc_array_wraps:
  assumes "hostmem_config_ok cfg" "pagesize cfg = 4096" "space_ok v (unat sz)" "24 < sz"
  shows "\<exists>heap'. hostmem_heap_block_alloc_array dbg (fresh_heap v sz cfg lut) (2 ^ 52 - 1) 4096
      = Some (Inr (v + 4096), heap') \<and>
    hostmem_heap_block_alloc_array dbg heap' 1 4096 = None"
proof -
  let ?heap = "fresh_heap v sz cfg lut" and ?hp = "size_of_int (hugepgsz cfg)"
  have v: "v \<noteq> 0" using assms(3) by (auto simp: space_ok_def)
  note pages = config_pages [of ?heap, simplified, OF assms(1)]
  have hp: "4096 dvd unat ?hp" "0 < unat ?hp" using pages(2,3,6) assms(2) by simp_all
  then have "4096 \<le> unat ?hp" by (rule dvd_imp_le)
  then have c1: "\<not> ?hp < 4096" by (simp add: word_less_nat_alt)
  have c2: "?hp mod 4096 = 0" using hp(1) by (simp add: u64_eq_iff unat_mod)
  have pg: "size_of_int (pagesize cfg) = 4096" by (simp add: assms(2))
  let ?st = "[v \<mapsto> \<lparr>size' = - 4096, free' = False, next' = v\<rparr>]"
  have loop1: "alloc_loop v ?hp (- 4096) 4096 4096 [v \<mapsto> \<lparr>size' = sz, free' = True, next' = 0\<rparr>] v
      = Some (Inr (v + 4096), ?st)"
    using v assms(4) by (subst alloc_loop.simps) (simp add: Let_def insert_block_def sizeof_block_def)
  have tot: "(2 ^ 52 - 1) * 4096 = (- 4096 :: u64)" by simp
  have "hostmem_heap_block_alloc_array dbg ?heap (2 ^ 52 - 1) 4096
      = Some (Inr (v + 4096), ?heap\<lparr>hdrs := ?st\<rparr>)"
    unfolding hostmem_heap_block_alloc_array_def hostmem_heap_block_alloc_array_aligned_def Let_def tot
    using c1 c2 loop1 by (simp add: pg SIZE_MAX_def sizeof_block_def)
  moreover have "hostmem_heap_block_alloc_array dbg (?heap\<lparr>hdrs := ?st\<rparr>) 1 4096 = None"
    unfolding hostmem_heap_block_alloc_array_def hostmem_heap_block_alloc_array_aligned_def Let_def
    using c1 c2 v alloc_loop_self_link [of ?st v "- 4096"]
    by (simp add: pg SIZE_MAX_def sizeof_block_def)
  ultimately show ?thesis by blast
qed

theorem hostmem_alloc_array_wraps_witness:
  "\<exists>heap'. hostmem_heap_block_alloc_array True example_heap (2 ^ 52 - 1) 4096 = Some (Inr 0x40001000, heap') \<and>
     hostmem_heap_block_alloc_array True heap' 1 4096 = None"
  using hostmem_alloc_array_wraps [OF example_config_ok _ example_space, of True]
  by (simp add: example_heap_def example_config_def)

end
