(* ===== verification/Prp_Builder.thy ===== *)
theory Prp_Builder
  imports Dma_Translation Nvme_Command Nvme_Request Util
begin

unbundle bit_operations_syntax

text \<open>
  The PRP builders of \<open>include/upcie/nvme/nvme_request.h\<close> and of its CUDA and HIP siblings. The
  bodies in the three headers are the same up to the translation function, the base of the
  region and the size of the physically contiguous page, which are parameters here; the
  headers' functions are instances.

  The page of memory at \<open>request->prp\<close> is a list of entries, returned updated; a store outside
  it is undefined.
\<close>

section \<open>A contiguous buffer\<close>

primrec prp_fill ::
  "(u64 \<Rightarrow> u64 option) \<Rightarrow> u64 \<Rightarrow> u64 \<Rightarrow> nat \<Rightarrow> u64 \<Rightarrow> nat \<Rightarrow> u64 \<Rightarrow> u64 \<Rightarrow> u64 \<Rightarrow> u64 list \<Rightarrow> u64 list option"
where
  "prp_fill v2p hps pagesize shift vbase 0 i page_phys strides_left lst = Some lst"
| "prp_fill v2p hps pagesize shift vbase (Suc k) i page_phys strides_left lst = do {
     (page_phys', strides_left') \<leftarrow>
       (if strides_left \<noteq> 0 then Some (page_phys + pagesize, strides_left - 1)
        else do {
          q \<leftarrow> v2p (vbase + push_bit shift i);
          Some (q, drop_bit shift hps - 1) });
     lst' \<leftarrow> array_set lst (unat (i - 1)) page_phys';
     prp_fill v2p hps pagesize shift vbase k (i + 1) page_phys' strides_left' lst' }"

definition prep_prps_contig ::
  "bool \<Rightarrow> (u64 \<Rightarrow> u64 option) \<Rightarrow> u64 \<Rightarrow> int \<Rightarrow> int \<Rightarrow> int \<Rightarrow> nvme_request \<Rightarrow> u64 \<Rightarrow> u64 \<Rightarrow>
   u64 list \<Rightarrow> nvme_command \<Rightarrow> (u64 list \<times> nvme_command) option" where
  "prep_prps_contig dbg v2p base hpsz pagesz pagesz_shift request dbuf dbuf_nbytes lst cmd =
     (if pagesz_shift < 0 \<or> 64 \<le> pagesz_shift then None
      else do {
        let pagesize = size_of_int pagesz;
        let shift = nat pagesz_shift;
        prp1 \<leftarrow> v2p dbuf;
        let cmd1 = cmd\<lparr>cmd_prp1 := prp1\<rparr>;
        let page_off = dbuf AND (pagesize - 1);
        let npages = drop_bit shift (page_off + dbuf_nbytes + pagesize - 1);
        c_assert dbg (npages \<le> 1 + 512);
        if npages = 1 then Some (lst, cmd1)
        else do {
          let vbase = dbuf - page_off;
          let hp_off = (vbase - base) AND size_of_int (hpsz - 1);
          let strides_left = drop_bit shift (size_of_int hpsz - hp_off) - 1;
          let page_phys = prp1 - page_off;
          if npages = 2 then do {
            prp2 \<leftarrow> (if strides_left \<noteq> 0 then Some (page_phys + pagesize)
                     else v2p (vbase + pagesize));
            Some (lst, cmd1\<lparr>cmd_prp2 := prp2\<rparr>) }
          else do {
            lst' \<leftarrow> prp_fill v2p (size_of_int hpsz) pagesize shift vbase (unat npages - 1) 1
                      page_phys strides_left lst;
            Some (lst', cmd1\<lparr>cmd_prp2 := req_prp_addr request\<rparr>) } } })"

section \<open>A scattered buffer\<close>

text \<open>The inner loop over the pages of one element; it need not end when the page size is 0.\<close>

partial_function (option) iov_pages ::
  "(u64 \<Rightarrow> u64 option) \<Rightarrow> u64 \<Rightarrow> u64 \<Rightarrow> u64 \<Rightarrow> u64 \<Rightarrow> nat \<Rightarrow> u64 list \<Rightarrow> (nat \<times> u64 list) option" where
  "iov_pages v2p pagesize base offset remaining prp_idx lst =
     (if remaining = 0 then Some (prp_idx, lst)
      else do {
        q \<leftarrow> v2p (base + offset);
        lst' \<leftarrow> array_set lst prp_idx q;
        iov_pages v2p pagesize base (offset + pagesize)
          (if pagesize < remaining then remaining - pagesize else 0) (prp_idx + 1) lst' })"

text \<open>The outer loop, on the elements after the first.\<close>

fun iov_rest ::
  "(u64 \<Rightarrow> u64 option) \<Rightarrow> u64 \<Rightarrow> (u64 \<times> u64) list \<Rightarrow> nat \<Rightarrow> u64 list \<Rightarrow> (nat \<times> u64 list) option" where
  "iov_rest v2p pagesize [] prp_idx lst = Some (prp_idx, lst)"
| "iov_rest v2p pagesize ((iov_base, iov_len) # dvec) prp_idx lst = do {
     (idx, lst') \<leftarrow> iov_pages v2p pagesize iov_base 0 iov_len prp_idx lst;
     iov_rest v2p pagesize dvec idx lst' }"

text \<open>The first element gives its first page to PRP1.\<close>

definition prep_prps_iov ::
  "(u64 \<Rightarrow> u64 option) \<Rightarrow> int \<Rightarrow> nvme_request \<Rightarrow> (u64 \<times> u64) list \<Rightarrow> u64 list \<Rightarrow> nvme_command \<Rightarrow>
   (u64 list \<times> nvme_command) option" where
  "prep_prps_iov v2p pagesz request dvec lst cmd =
     (case dvec of [] \<Rightarrow> None
      | (iov_base, iov_len) # rest \<Rightarrow> do {
          let pagesize = size_of_int pagesz;
          prp1 \<leftarrow> v2p iov_base;
          let cmd1 = cmd\<lparr>cmd_prp1 := prp1\<rparr>;
          let remaining = (if pagesize < iov_len then iov_len - pagesize else 0);
          (idx, lst1) \<leftarrow> iov_pages v2p pagesize iov_base pagesize remaining 0 lst;
          (prp_idx, lst') \<leftarrow> iov_rest v2p pagesize rest idx lst1;
          if prp_idx = 1 then do { e \<leftarrow> array_get lst' 0; Some (lst', cmd1\<lparr>cmd_prp2 := e\<rparr>) }
          else if 1 < prp_idx then Some (lst', cmd1\<lparr>cmd_prp2 := req_prp_addr request\<rparr>)
          else Some (lst', cmd1) })"

section \<open>What the controller reads\<close>

text \<open>
  The address of byte \<open>j\<close> of a data buffer of \<open>n\<close> bytes as the controller derives it from a
  command: the buffer starts \<open>off\<close> bytes into the page of PRP1, and its later pages are PRP2,
  or the entries of the list PRP2 points to when there are more than two.
\<close>

definition page_count :: "nat \<Rightarrow> nat \<Rightarrow> nat \<Rightarrow> nat" where
  "page_count P off n = (off + n + P - 1) div P"

definition prp_byte :: "nat \<Rightarrow> nat \<Rightarrow> nat \<Rightarrow> nvme_command \<Rightarrow> u64 list \<Rightarrow> nat \<Rightarrow> u64" where
  "prp_byte P off n cmd lst j =
     (let i = (off + j) div P in
      if i = 0 then cmd_prp1 cmd + of_nat j
      else (if page_count P off n \<le> 2 then cmd_prp2 cmd else lst ! (i - 1)) + of_nat ((off + j) mod P))"

lemma page_of_byte:
  "0 < P \<Longrightarrow> j < n \<Longrightarrow> (off + j) div P < page_count P off n"
proof -
  assume a: "0 < P" "j < n"
  have "(off + j) div P < (off + j + P) div P"
    unfolding div_add_self2 [OF less_imp_neq [OF a(1), symmetric]] by simp
  also have "\<dots> \<le> (off + n + P - 1) div P" by (rule div_le_mono) (use a in linarith)
  finally show ?thesis by (simp add: page_count_def)
qed

lemma page_start:
  assumes "0 < P" "i < page_count P off n" "0 < n"
  shows "i * P < off + n"
proof -
  have "Suc i * P \<le> page_count P off n * P" using assms(2) by (intro mult_le_mono1) simp
  also have "\<dots> \<le> off + n + P - 1" by (simp add: page_count_def)
  finally show ?thesis using assms(1) by simp
qed

section \<open>The builder describes the buffer\<close>

text \<open>
  The builders need more of a region than its translation: that its page and its physically
  contiguous page are powers of two, and that it starts at a page boundary.
\<close>

locale prp_region = dma_translation valid v2p base hp lut limit
  for valid :: "'h \<Rightarrow> bool" and v2p :: "'h \<Rightarrow> u64 \<Rightarrow> u64 option" and base :: "'h \<Rightarrow> u64"
    and hp :: "'h \<Rightarrow> nat" and lut :: "'h \<Rightarrow> nat \<Rightarrow> u64" and limit :: "'h \<Rightarrow> nat" +
  fixes page_shift :: "'h \<Rightarrow> nat" and hp_shift :: "'h \<Rightarrow> nat"
  assumes powers: "valid h \<Longrightarrow> hp h = 2 ^ hp_shift h \<and> page_shift h \<le> hp_shift h \<and> hp_shift h < 63"
    and page_start_base: "valid h \<Longrightarrow> 2 ^ page_shift h dvd unat (base h) \<and> 0 < unat (base h)"
begin

text \<open>Pages of a region: \<open>m\<close> pages of size \<open>P\<close> are physically contiguous.\<close>

lemma phys_next_page:
  assumes "valid h" "hp h = m * P" "0 < P" "q mod m + 1 < m"
  shows "phys h ((q + 1) * P) = phys h (q * P) + of_nat P"
proof -
  have "(q * P) mod hp h = q mod m * P" using assms(2) by (simp add: mult_mod_left)
  moreover have "q mod m * P + P < m * P"
    using mult_less_mono1 [OF assms(4,3)] by simp
  ultimately have "q * P mod hp h + P < hp h" using assms(2) by (simp only:)
  from phys_step [OF assms(1) this] show ?thesis by (simp add: algebra_simps)
qed

lemma mod_Suc_wrap: "0 < m \<Longrightarrow> \<not> q mod m + 1 < m \<Longrightarrow> (q + 1) mod m = (0 :: nat)"
  by (metis Suc_eq_plus1 le_antisym mod_Suc mod_less_divisor not_less Suc_leI)

lemma prp_fill_correct:
  assumes v: "valid h" and hp: "hp h = m * P" "0 < P" "0 < m" "hp h < 2 ^ 64"
    and ps: "pagesize = of_nat P" "P = 2 ^ shift" "shift < 64" and hps: "unat hps = hp h"
  shows "\<lbrakk> pp = phys h ((a + I) * P); unat sl = m - 1 - (a + I) mod m; i = of_nat (Suc I);
      (a + I + k) * P < limit h; I + k \<le> length lst; length lst < 2 ^ 32 \<rbrakk> \<Longrightarrow>
    \<exists>lst'. prp_fill (v2p h) hps pagesize shift (base h + of_nat (a * P)) k i pp sl lst = Some lst' \<and>
      length lst' = length lst \<and>
      (\<forall>q. lst' ! q = (if I \<le> q \<and> q < I + k then phys h ((a + Suc q) * P) else lst ! q))"
proof (induction k arbitrary: I pp sl i lst)
  case 0
  have "\<not> (I \<le> q \<and> q < I + 0)" for q by simp
  then show ?case by (simp only: prp_fill.simps) auto
next
  case (Suc k)
  let ?q = "a + I"
  have lim: "(?q + 1) * P < limit h"
    by (rule le_less_trans [OF mult_le_mono1 Suc.prems(4)]) simp
  have I: "Suc I < 2 ^ 64" using Suc.prems(5,6) by simp
  have idx: "unat (i - 1) = I" using I by (simp add: Suc.prems(3) unat_of_nat_u64)
  have pushed: "base h + of_nat (a * P) + push_bit shift i = base h + of_nat ((?q + 1) * P)"
    using Suc.prems(3) by (simp add: ps(2) push_bit_eq_mult algebra_simps)
  let ?next = "if sl \<noteq> 0 then Some (pp + pagesize, sl - 1)
    else do { q \<leftarrow> v2p h (base h + of_nat (a * P) + push_bit shift i); Some (q, drop_bit shift hps - 1) }"
  have "\<exists>sl'. ?next = Some (phys h ((?q + 1) * P), sl') \<and> unat sl' = m - 1 - (?q + 1) mod m"
  proof (cases "sl = 0")
    case False
    then have "0 < unat sl" by (simp add: unat_gt_0)
    then have lt: "?q mod m + 1 < m" using Suc.prems(2) by simp
    then have "(?q + 1) mod m = ?q mod m + 1" by (simp add: mod_Suc)
    moreover have "unat (sl - 1) = unat sl - 1" using False by (simp add: unat_minus_one)
    ultimately show ?thesis
      using False Suc.prems(1,2) phys_next_page [OF v hp(1,2) lt] ps(1) by simp
  next
    case True
    then have "\<not> ?q mod m + 1 < m" using Suc.prems(2) by simp
    then have w: "(?q + 1) mod m = 0" by (rule mod_Suc_wrap [OF hp(3)])
    have "unat (drop_bit shift hps) = m"
      using hp(1,2) by (simp add: unat_drop_bit_u64 hps ps(2))
    then have "unat (drop_bit shift hps - 1) = m - 1"
      using hp(3) by (subst unat_minus_one) auto
    then show ?thesis using w True unfolding pushed v2p_phys [OF v lim] by simp
  qed
  then obtain sl' where nxt: "?next = Some (phys h ((?q + 1) * P), sl')"
    and sl': "unat sl' = m - 1 - (a + Suc I) mod m" by auto
  have len: "I < length lst" using Suc.prems(5) by simp
  have "\<exists>lst'. prp_fill (v2p h) hps pagesize shift (base h + of_nat (a * P)) k (i + 1)
        (phys h ((?q + 1) * P)) sl' (lst[I := phys h ((?q + 1) * P)]) = Some lst' \<and>
      length lst' = length (lst[I := phys h ((?q + 1) * P)]) \<and>
      (\<forall>q. lst' ! q = (if Suc I \<le> q \<and> q < Suc I + k then phys h ((a + Suc q) * P)
                       else lst[I := phys h ((?q + 1) * P)] ! q))"
    by (rule Suc.IH) (use Suc.prems sl' in simp_all)
  then obtain lst' where IH: "prp_fill (v2p h) hps pagesize shift (base h + of_nat (a * P)) k (i + 1)
        (phys h ((?q + 1) * P)) sl' (lst[I := phys h ((?q + 1) * P)]) = Some lst'"
      "length lst' = length lst"
      "\<forall>q. lst' ! q = (if Suc I \<le> q \<and> q < Suc I + k then phys h ((a + Suc q) * P)
                       else lst[I := phys h ((?q + 1) * P)] ! q)" by auto
  have "prp_fill (v2p h) hps pagesize shift (base h + of_nat (a * P)) (Suc k) i pp sl lst = Some lst'"
    using IH(1) len unfolding prp_fill.simps nxt by (simp add: idx)
  moreover have "lst' ! q = (if I \<le> q \<and> q < I + Suc k then phys h ((a + Suc q) * P) else lst ! q)" for q
    using IH(3) len by (auto simp: nth_list_update)
  ultimately show ?case using IH(2) by blast
qed

definition geometry :: "'h \<Rightarrow> nat \<Rightarrow> nat \<Rightarrow> bool" where
  "geometry h sh hs \<longleftrightarrow> valid h \<and> hs = hp_shift h \<and> sh = page_shift h"

lemma geometryD:
  assumes "geometry h sh hs"
  shows "valid h" "hp h = 2 ^ hs" "sh \<le> hs" "hs < 63" "2 ^ sh dvd unat (base h)" "0 < unat (base h)"
  using assms powers page_start_base by (simp_all add: geometry_def)

definition in_region :: "'h \<Rightarrow> u64 \<Rightarrow> u64 \<Rightarrow> bool" where
  "in_region h dbuf n \<longleftrightarrow> 0 < unat n \<and> unat (base h) \<le> unat dbuf \<and>
     unat dbuf - unat (base h) + unat n \<le> limit h"

text \<open>The quantities the builder computes, as natural numbers.\<close>

lemma builder_arith:
  assumes g: "geometry h sh hs" and r: "in_region h dbuf n"
  defines "P \<equiv> (2 :: nat) ^ sh"
  defines "x \<equiv> unat dbuf - unat (base h)"
  defines "off \<equiv> unat dbuf mod P"
  shows "off = x mod P" "off \<le> x" "x = x div P * P + off"
    and "dbuf = base h + of_nat x"
    and "unat (dbuf AND (2 ^ sh - 1)) = off"
    and "unat (drop_bit sh ((dbuf AND (2 ^ sh - 1)) + n + 2 ^ sh - 1)) = page_count P off (unat n)"
    and "dbuf - (dbuf AND (2 ^ sh - 1)) = base h + of_nat (x div P * P)"
    and "unat (drop_bit sh (2 ^ hs - ((base h + of_nat (x div P * P) - base h) AND (2 ^ hs - 1))) - 1)
      = 2 ^ (hs - sh) - 1 - (x div P) mod 2 ^ (hs - sh)"
proof -
  have v: "valid h" and geo: "sh \<le> hs" "hs < 63" "P dvd unat (base h)" "0 < unat (base h)"
    using geometryD [OF g] by (simp_all add: P_def)
  have b: "unat (base h) \<le> unat dbuf" "x + unat n \<le> limit h" "0 < unat n"
    using r unfolding in_region_def x_def by blast+
  have P: "0 < P" by (simp add: P_def)
  have P64: "(2 :: u64) ^ sh = of_nat P" "unat ((2 :: u64) ^ sh) = P"
    using geo by (simp_all add: P_def unat_two_power)
  have dx: "unat dbuf = unat (base h) + x" using b(1) by (simp add: x_def)
  show o1: "off = x mod P" using geo(3) dx by (simp add: off_def mod_add_left_eq [symmetric])
  then show ole: "off \<le> x" by simp
  show xs: "x = x div P * P + off" using o1 by simp
  show db: "dbuf = base h + of_nat x" by (simp add: x_def b(1) of_nat_diff)
  show po: "unat (dbuf AND (2 ^ sh - 1)) = off" by (simp add: unat_and_mask off_def P_def)
  have bP: "P \<le> unat (base h)" using geo(3,4) by (rule dvd_imp_le)
  have tot: "off + unat n + P < 2 ^ 64"
    using fits [OF v] b(2) bP ole by linarith
  have "unat ((dbuf AND (2 ^ sh - 1)) + n) = off + unat n"
    using tot po by (simp add: unat_add_u64)
  then have "unat ((dbuf AND (2 ^ sh - 1)) + n + 2 ^ sh) = off + unat n + P"
    using tot P64(2) by (simp add: unat_add_u64)
  then have "unat ((dbuf AND (2 ^ sh - 1)) + n + 2 ^ sh - 1) = off + unat n + P - 1"
    using P by (subst unat_sub_u64) simp_all
  then show "unat (drop_bit sh ((dbuf AND (2 ^ sh - 1)) + n + 2 ^ sh - 1)) = page_count P off (unat n)"
    unfolding unat_drop_bit_u64 page_count_def by (simp add: P_def)
  have "dbuf AND (2 ^ sh - 1) = of_nat off" unfolding po [symmetric] by simp
  moreover have "x - off = x div P * P" using xs by linarith
  then have "of_nat (x div P * P) = (of_nat x - of_nat off :: u64)" using ole by (metis of_nat_diff)
  ultimately show "dbuf - (dbuf AND (2 ^ sh - 1)) = base h + of_nat (x div P * P)"
    using db by simp
  have x64: "x div P * P < 2 ^ 64" using xs fits [OF v] b(2,3) by linarith
  have hsm: "(2 :: nat) ^ hs = 2 ^ (hs - sh) * P" using geo(1) by (simp add: P_def flip: power_add)
  have "unat ((base h + of_nat (x div P * P) - base h) AND (2 ^ hs - 1)) = x div P * P mod 2 ^ hs"
    unfolding add_diff_cancel_left' unat_and_mask unat_of_nat_u64 [OF x64] ..
  moreover have "x div P * P mod 2 ^ hs = x div P mod 2 ^ (hs - sh) * P"
    unfolding hsm by (simp add: mult_mod_left)
  ultimately have hpo: "unat ((base h + of_nat (x div P * P) - base h) AND (2 ^ hs - 1)) =
      x div P mod 2 ^ (hs - sh) * P" by simp
  have lt: "x div P mod 2 ^ (hs - sh) < 2 ^ (hs - sh)" by simp
  then have le: "x div P mod 2 ^ (hs - sh) * P \<le> 2 ^ (hs - sh) * P" by simp
  have u: "unat ((2 :: u64) ^ hs) = 2 ^ (hs - sh) * P" using geo(2) hsm by (simp add: unat_two_power)
  have "unat (2 ^ hs - ((base h + of_nat (x div P * P) - base h) AND (2 ^ hs - 1))) =
      (2 ^ (hs - sh) - x div P mod 2 ^ (hs - sh)) * P"
    using le by (subst unat_sub_u64) (simp_all only: hpo u diff_mult_distrib)
  then have d: "unat (drop_bit sh (2 ^ hs - ((base h + of_nat (x div P * P) - base h) AND (2 ^ hs - 1)))) =
      2 ^ (hs - sh) - x div P mod 2 ^ (hs - sh)"
    using P unfolding unat_drop_bit_u64 by (simp add: P_def)
  have "drop_bit sh (2 ^ hs - ((base h + of_nat (x div P * P) - base h) AND (2 ^ hs - 1))) \<noteq> 0"
    (is "?w \<noteq> 0")
  proof
    assume "?w = 0"
    then have "unat ?w = 0" by (simp only: unsigned_0)
    with d lt show False by linarith
  qed
  then show "unat (drop_bit sh (2 ^ hs - ((base h + of_nat (x div P * P) - base h) AND (2 ^ hs - 1))) - 1)
      = 2 ^ (hs - sh) - 1 - (x div P) mod 2 ^ (hs - sh)"
    by (subst unat_minus_one) (simp_all only: d diff_commute simp_thms)
qed

lemma byte_of_page:
  assumes v: "valid h" and hp: "hp h = 2 ^ hs" "sh \<le> hs" and x: "x = x div 2 ^ sh * 2 ^ sh + off"
    and j: "x + j < limit h" "i = (off + j) div 2 ^ sh"
  shows "v2p h (base h + of_nat (x + j)) =
    Some (phys h ((x div 2 ^ sh + i) * 2 ^ sh) + of_nat ((off + j) mod 2 ^ sh))"
proof -
  let ?P = "(2 :: nat) ^ sh"
  have e: "x + j = (x div ?P + i) * ?P + (off + j) mod ?P"
    using div_mult_mod_eq [of "off + j" ?P] x j(2) by (simp only: add_mult_distrib)
  have "(x div ?P + i) * ?P mod hp h + (off + j) mod ?P < hp h"
  proof -
    have hsm: "hp h = 2 ^ (hs - sh) * ?P" using hp by (simp flip: power_add)
    have "(x div ?P + i) * ?P mod hp h = (x div ?P + i) mod 2 ^ (hs - sh) * ?P"
      unfolding hsm by (simp add: mult_mod_left)
    moreover have "(x div ?P + i) mod 2 ^ (hs - sh) + 1 \<le> 2 ^ (hs - sh)"
      by (metis Suc_eq_plus1 Suc_leI mod_less_divisor zero_less_numeral zero_less_power)
    then have "((x div ?P + i) mod 2 ^ (hs - sh) + 1) * ?P \<le> hp h"
      unfolding hsm by (rule mult_le_mono1)
    moreover have "(off + j) mod ?P < ?P" by simp
    ultimately show ?thesis by (simp only: add_mult_distrib)
  qed
  from phys_step [OF v this] v2p_phys [OF v j(1)] show ?thesis by (simp only: e [symmetric])
qed

text \<open>The pages of a buffer: the first one, where each starts, and where its bytes are.\<close>

lemma buffer_first_page:
  assumes g: "geometry h sh hs" and r: "in_region h dbuf n"
  defines "x \<equiv> unat dbuf - unat (base h)"
  shows "phys h x - (dbuf AND (2 ^ sh - 1)) = phys h (x div 2 ^ sh * 2 ^ sh)"
proof -
  let ?P = "(2 :: nat) ^ sh" and ?a = "x div 2 ^ sh" and ?m = "2 ^ (hs - sh) :: nat" and ?off = "unat dbuf mod 2 ^ sh"
  note ar = builder_arith [OF g r, folded x_def]
  have hpm: "hp h = ?m * ?P" using geometryD(2,3) [OF g] by (simp flip: power_add)
  have "phys h (?a * ?P + ?off) = phys h (?a * ?P) + of_nat ?off"
  proof (rule phys_step [OF geometryD(1) [OF g]])
    have "?a * ?P mod hp h = ?a mod ?m * ?P" unfolding hpm by (simp add: mult_mod_left)
    moreover have "(?a mod ?m + 1) * ?P \<le> ?m * ?P"
      by (rule mult_le_mono1) (metis Suc_eq_plus1 Suc_leI mod_less_divisor zero_less_numeral zero_less_power)
    moreover have "?off < ?P" by simp
    ultimately show "?a * ?P mod hp h + ?off < hp h"
      unfolding hpm by (simp only: add_mult_distrib)
  qed
  then have "phys h x = phys h (?a * ?P) + of_nat ?off" unfolding ar(3) [symmetric] .
  moreover have "of_nat ?off = dbuf AND (2 ^ sh - 1)" unfolding ar(5) [symmetric] by simp
  ultimately show ?thesis by simp
qed

lemma buffer_page_start:
  assumes g: "geometry h sh hs" and r: "in_region h dbuf n"
    and i: "i < page_count (2 ^ sh) (unat dbuf mod 2 ^ sh) (unat n)"
  shows "((unat dbuf - unat (base h)) div 2 ^ sh + i) * 2 ^ sh < limit h"
proof -
  have P: "0 < (2 :: nat) ^ sh" by simp
  from r have "unat dbuf - unat (base h) + unat n \<le> limit h" "0 < unat n" unfolding in_region_def by blast+
  with page_start [OF P i] builder_arith(3) [OF g r] show ?thesis unfolding add_mult_distrib by linarith
qed

lemma buffer_bytes:
  assumes g: "geometry h sh hs" and r: "in_region h dbuf n" and j: "j < unat n"
  defines "x \<equiv> unat dbuf - unat (base h)"
  defines "i \<equiv> (unat dbuf mod 2 ^ sh + j) div 2 ^ sh"
  shows "v2p h (dbuf + of_nat j) = Some (if i = 0 then phys h x + of_nat j
    else phys h ((x div 2 ^ sh + i) * 2 ^ sh) + of_nat ((unat dbuf mod 2 ^ sh + j) mod 2 ^ sh))"
proof -
  let ?P = "(2 :: nat) ^ sh" and ?off = "unat dbuf mod 2 ^ sh"
  note ar = builder_arith [OF g r, folded x_def]
  have "x + j < limit h" using j r unfolding in_region_def x_def by linarith
  note b = byte_of_page [OF geometryD(1-3) [OF g] ar(3) this refl, folded i_def]
  have d: "dbuf + of_nat j = base h + of_nat (x + j)"
    by (subst ar(4)) (simp only: of_nat_add add.assoc)
  have z: "phys h (x div ?P * ?P) + of_nat ((?off + j) mod ?P) = phys h x + of_nat j" if "i = 0"
  proof -
    have "(?off + j) mod ?P = ?off + j" using that by (simp add: i_def div_eq_0_iff)
    moreover have "of_nat ?off = dbuf AND (2 ^ sh - 1)" unfolding ar(5) [symmetric] by simp
    ultimately show ?thesis
      unfolding buffer_first_page [OF g r, folded x_def, symmetric] by (simp only: of_nat_add) simp
  qed
  show ?thesis unfolding d b
    by (cases "i = 0") (simp_all only: if_True if_False z add_0_right simp_thms if_cancel)
qed

text \<open>PRP2 of a buffer of two pages, by stride within the physical page or by translation.\<close>

lemma buffer_second_page:
  assumes g: "geometry h sh hs" and r: "in_region h dbuf n"
    and two: "page_count (2 ^ sh) (unat dbuf mod 2 ^ sh) (unat n) = 2"
  defines "x \<equiv> unat dbuf - unat (base h)"
  defines "vbase \<equiv> dbuf - (dbuf AND (2 ^ sh - 1))"
  shows "(if drop_bit sh (2 ^ hs - ((vbase - base h) AND (2 ^ hs - 1))) - 1 \<noteq> 0
      then Some (phys h x - (dbuf AND (2 ^ sh - 1)) + 2 ^ sh) else v2p h (vbase + 2 ^ sh)) =
    Some (phys h ((x div 2 ^ sh + 1) * 2 ^ sh))"
proof -
  let ?P = "(2 :: nat) ^ sh" and ?m = "2 ^ (hs - sh) :: nat" and ?a = "x div 2 ^ sh"
  let ?sl = "drop_bit sh (2 ^ hs - ((vbase - base h) AND (2 ^ hs - 1))) - 1"
  note v = geometryD(1) [OF g]
  have vb: "vbase = base h + of_nat (?a * ?P)"
    using builder_arith(7) [OF g r] unfolding vbase_def x_def .
  have sl: "unat ?sl = ?m - 1 - ?a mod ?m" unfolding vb x_def by (rule builder_arith(8) [OF g r])
  have hpm: "hp h = ?m * ?P" using geometryD(2,3) [OF g] by (simp flip: power_add)
  show ?thesis
  proof (cases "?sl = 0")
    case False
    then have "0 < unat ?sl" by (simp add: unat_gt_0)
    then have "?a mod ?m + 1 < ?m" using sl by linarith
    from phys_next_page [OF v hpm _ this] False show ?thesis
      unfolding buffer_first_page [OF g r, folded x_def] by simp
  next
    case True
    have "vbase + 2 ^ sh = base h + of_nat ((?a + 1) * ?P)" unfolding vb by (simp add: algebra_simps)
    moreover have "(?a + 1) * ?P < limit h" unfolding x_def by (rule buffer_page_start [OF g r]) (simp add: two)
    ultimately have "v2p h (vbase + 2 ^ sh) = Some (phys h ((?a + 1) * ?P))"
      by (simp only:) (rule v2p_phys [OF v])
    then show ?thesis unfolding True by (simp only: simp_thms if_False)
  qed
qed

lemma prep_contig_correct:
  assumes g: "geometry h sh hs" and r: "in_region h dbuf n"
    and sizes: "hpsz = 2 ^ hs" "pagesz = 2 ^ sh" "pagesz_shift = int sh"
    and cap: "page_count (2 ^ sh) (unat dbuf mod 2 ^ sh) (unat n) \<le> 1 + min 512 (length lst)"
    and len: "length lst < 2 ^ 32"
  shows "\<exists>lst' cmd'. prep_prps_contig dbg (v2p h) (base h) hpsz pagesz pagesz_shift request dbuf n lst cmd
      = Some (lst', cmd') \<and> length lst' = length lst \<and>
    cmd' = cmd\<lparr>cmd_prp1 := cmd_prp1 cmd', cmd_prp2 := cmd_prp2 cmd'\<rparr> \<and>
    (2 < page_count (2 ^ sh) (unat dbuf mod 2 ^ sh) (unat n) \<longrightarrow> cmd_prp2 cmd' = req_prp_addr request) \<and>
    (\<forall>j < unat n. v2p h (dbuf + of_nat j) =
       Some (prp_byte (2 ^ sh) (unat dbuf mod 2 ^ sh) (unat n) cmd' lst' j))"
proof -
  let ?P = "(2 :: nat) ^ sh" and ?x = "unat dbuf - unat (base h)"
  let ?off = "unat dbuf mod ?P" and ?a = "?x div ?P"
  let ?np = "page_count ?P ?off (unat n)" and ?m = "2 ^ (hs - sh) :: nat"
  note ar = builder_arith [OF g r]
  note v = geometryD(1) [OF g] and hp = geometryD(2-4) [OF g]
  from r have lim: "?x + unat n \<le> limit h" "0 < unat n" unfolding in_region_def by blast+
  have P: "0 < ?P" by simp
  have hpm: "hp h = ?m * ?P" using hp by (simp flip: power_add)
  have np0: "0 < ?np" using page_of_byte [OF P lim(2), of ?off] by linarith
  have prp1: "v2p h dbuf = Some (phys h ?x)"
    using v2p_phys [OF v, of ?x] lim ar(4) by simp
  let ?npages = "drop_bit sh ((dbuf AND (2 ^ sh - 1)) + n + 2 ^ sh - 1)"
  let ?vbase = "dbuf - (dbuf AND (2 ^ sh - 1))"
  have npc: "?npages = 1 \<longleftrightarrow> ?np = 1" "?npages = 2 \<longleftrightarrow> ?np = 2" "?npages \<le> 1 + 512"
    using ar(6) cap by (simp_all add: u64_eq_iff word_le_nat_alt)
  have conv: "size_of_int pagesz = 2 ^ sh" "nat pagesz_shift = sh" "size_of_int hpsz = 2 ^ hs"
    "size_of_int (hpsz - 1) = 2 ^ hs - 1" "\<not> (pagesz_shift < 0 \<or> 64 \<le> pagesz_shift)"
    using sizes hp by (simp_all add: size_of_int_def)
  let ?sl = "drop_bit sh (2 ^ hs - ((?vbase - base h) AND (2 ^ hs - 1))) - 1"
  have sl: "unat ?sl = ?m - 1 - ?a mod ?m" unfolding ar(7) by (rule ar(8))
  note pp = buffer_first_page [OF g r] and start = buffer_page_start [OF g r] and bytes = buffer_bytes [OF g r]
  consider (one) "?np = 1" | (two) "?np = 2" | (more) "2 < ?np" using np0 by linarith
  then show ?thesis
  proof cases
    case one
    let ?cmd = "cmd\<lparr>cmd_prp1 := phys h ?x\<rparr>"
    have "prep_prps_contig dbg (v2p h) (base h) hpsz pagesz pagesz_shift request dbuf n lst cmd
        = Some (lst, ?cmd)"
      unfolding prep_prps_contig_def conv Let_def using prp1 npc one conv(5) by simp
    moreover have "prp_byte ?P ?off (unat n) ?cmd lst j = phys h ?x + of_nat j" "(?off + j) div ?P = 0"
      if "j < unat n" for j
      using page_of_byte [OF P that, of ?off] one by (simp_all add: prp_byte_def)
    ultimately show ?thesis using bytes one by (intro exI [of _ lst] exI [of _ ?cmd]) simp
  next
    case two
    let ?cmd = "cmd\<lparr>cmd_prp1 := phys h ?x, cmd_prp2 := phys h ((?a + 1) * ?P)\<rparr>"
    note buffer_second_page [OF g r two]
    then have "prep_prps_contig dbg (v2p h) (base h) hpsz pagesz pagesz_shift request dbuf n lst cmd
        = Some (lst, ?cmd)"
      unfolding prep_prps_contig_def conv Let_def using prp1 npc two conv(5) by simp
    moreover have "prp_byte ?P ?off (unat n) ?cmd lst j = (if (?off + j) div ?P = 0 then phys h ?x + of_nat j
        else phys h ((?a + (?off + j) div ?P) * ?P) + of_nat ((?off + j) mod ?P))"
      if "j < unat n" for j
    proof -
      have "(?off + j) div ?P = 0 \<or> (?off + j) div ?P = 1"
        using page_of_byte [OF P that, of ?off] two by linarith
      then show ?thesis using two by (auto simp: prp_byte_def)
    qed
    ultimately show ?thesis using bytes two by (intro exI [of _ lst] exI [of _ ?cmd]) simp
  next
    case more
    let ?cmd = "cmd\<lparr>cmd_prp1 := phys h ?x, cmd_prp2 := req_prp_addr request\<rparr>"
    have hs64: "(2 :: nat) ^ hs < 2 ^ 64" by (rule power_strict_increasing) (use hp in simp_all)
    have "\<exists>lst'. prp_fill (v2p h) (2 ^ hs) (2 ^ sh) sh (base h + of_nat (?a * ?P)) (?np - 1) 1
        (phys h (?a * ?P)) ?sl lst = Some lst' \<and> length lst' = length lst \<and>
      (\<forall>q. lst' ! q = (if 0 \<le> q \<and> q < 0 + (?np - 1) then phys h ((?a + Suc q) * ?P) else lst ! q))"
      by (rule prp_fill_correct [OF v hpm P _ _ _ refl])
        (use hp hs64 sl start [of "?np - 1"] cap len more in \<open>simp_all add: unat_two_power\<close>)
    then obtain lst' where f: "prp_fill (v2p h) (2 ^ hs) (2 ^ sh) sh (base h + of_nat (?a * ?P)) (?np - 1) 1
        (phys h (?a * ?P)) ?sl lst = Some lst'" "length lst' = length lst"
      "\<And>q. q < ?np - 1 \<Longrightarrow> lst' ! q = phys h ((?a + Suc q) * ?P)" by auto
    have "prep_prps_contig dbg (v2p h) (base h) hpsz pagesz pagesz_shift request dbuf n lst cmd
        = Some (lst', ?cmd)"
      unfolding prep_prps_contig_def conv Let_def
      using prp1 npc more conv(5) f(1) [folded pp] unfolding ar(6) ar(7) by simp
    moreover have "prp_byte ?P ?off (unat n) ?cmd lst' j = (if (?off + j) div ?P = 0 then phys h ?x + of_nat j
        else phys h ((?a + (?off + j) div ?P) * ?P) + of_nat ((?off + j) mod ?P))"
      if "j < unat n" for j
    proof (cases "(?off + j) div ?P")
      case (Suc q)
      then have "q < ?np - 1" using page_of_byte [OF P that, of ?off] by linarith
      from f(3) [OF this] Suc more show ?thesis by (simp add: prp_byte_def)
    qed (simp add: prp_byte_def)
    ultimately show ?thesis using bytes f(2)
      by (intro exI [of _ lst'] exI [of _ ?cmd]) simp
  qed
qed

text \<open>
  The pages of a scattered buffer, each element in turn; \<open>P\<close> is the page size, elements are
  offset and length in the region.
\<close>

definition seg_pages :: "'h \<Rightarrow> nat \<Rightarrow> nat \<times> nat \<Rightarrow> u64 list" where
  "seg_pages h P seg = map (\<lambda>i. phys h (fst seg + i * P)) [0..<(snd seg + P - 1) div P]"

definition seg_ok :: "'h \<Rightarrow> nat \<times> nat \<Rightarrow> bool" where
  "seg_ok h seg \<longleftrightarrow> fst seg + snd seg \<le> limit h"

definition iovec_of :: "'h \<Rightarrow> nat \<times> nat \<Rightarrow> u64 \<times> u64" where
  "iovec_of h seg = (base h + of_nat (fst seg), of_nat (snd seg))"

lemma ceil_step:
  assumes "0 < (P :: nat)" "0 < r"
  shows "(r + P - 1) div P = Suc ((r - P + P - 1) div P)"
proof (cases "P \<le> r")
  case True
  then have "r + P - 1 = (r - P + P - 1) + P" using assms by simp
  then show ?thesis using assms(1) by (simp only: div_add_self2)
next
  case False
  then have "(r + P - 1) div P = 1"
    using assms by (intro div_nat_eqI) auto
  with False assms show ?thesis by simp
qed

lemma iov_pages_correct:
  assumes v: "valid h" and P: "0 < P" "unat pagesize = P"
  shows "\<lbrakk> b + offset = base h + of_nat o0;
      0 < unat remaining \<longrightarrow> o0 + unat remaining \<le> limit h; lst = pre @ post; length pre = idx;
      (unat remaining + P - 1) div P \<le> length post \<rbrakk> \<Longrightarrow>
    iov_pages (v2p h) pagesize b offset remaining idx lst =
      Some (idx + (unat remaining + P - 1) div P,
        pre @ map (\<lambda>i. phys h (o0 + i * P)) [0..<(unat remaining + P - 1) div P] @
          drop ((unat remaining + P - 1) div P) post)"
proof (induction "unat remaining" arbitrary: remaining o0 offset idx pre post lst rule: less_induct)
  case less
  show ?case
  proof (cases "remaining = 0")
    case True
    have "(P - 1) div P = 0" using P(1) by simp
    with True less.prems show ?thesis by (subst iov_pages.simps) simp
  next
    case False
    then have r: "0 < unat remaining" by (simp add: unat_gt_0)
    let ?k = "(unat remaining - P + P - 1) div P"
    note k = ceil_step [OF P(1) r]
    let ?rem = "if pagesize < remaining then remaining - pagesize else 0"
    have rem: "unat ?rem = unat remaining - P"
      using P(2) by (auto simp: word_less_nat_alt unat_sub_u64)
    obtain e post' where post: "post = e # post'" using less.prems(5) k by (cases post) auto
    have tr: "v2p h (b + offset) = Some (phys h o0)"
      unfolding less.prems(1) by (rule v2p_phys [OF v]) (use less.prems(2) [THEN mp, OF r] r in linarith)
    have set: "array_set lst idx (phys h o0) = Some ((pre @ [phys h o0]) @ post')"
      using less.prems(3) post by (simp add: array_set_def list_update_append less.prems(4) [symmetric])
    have nx: "b + (offset + pagesize) = base h + of_nat (o0 + P)"
      unfolding add.assoc [symmetric] less.prems(1) P(2) [symmetric] by simp
    have "iov_pages (v2p h) pagesize b (offset + pagesize) ?rem (idx + 1) ((pre @ [phys h o0]) @ post') =
        Some (idx + 1 + (unat ?rem + P - 1) div P,
          (pre @ [phys h o0]) @ map (\<lambda>i. phys h (o0 + P + i * P)) [0..<(unat ?rem + P - 1) div P] @
            drop ((unat ?rem + P - 1) div P) post')"
    proof (rule less.hyps [OF _ nx _ refl])
      show "unat ?rem < unat remaining" using rem r P(1) by simp
      show "0 < unat ?rem \<longrightarrow> o0 + P + unat ?rem \<le> limit h"
        using less.prems(2) [THEN mp, OF r] rem by linarith
    qed (use less.prems(4,5) rem k post in simp_all)
    then have "iov_pages (v2p h) pagesize b offset remaining idx lst =
        Some (idx + 1 + ?k, (pre @ [phys h o0]) @ map (\<lambda>i. phys h (o0 + P + i * P)) [0..<?k] @ drop ?k post')"
      using False tr set unfolding rem by (subst iov_pages.simps) simp
    moreover have "map (\<lambda>i. phys h (o0 + i * P)) [0..<Suc ?k] =
        phys h o0 # map (\<lambda>i. phys h (o0 + P + i * P)) [0..<?k]"
      by (simp add: upt_conv_Cons map_Suc_upt [symmetric] o_def add.assoc del: upt_Suc)
    ultimately show ?thesis unfolding k post by (simp del: upt_Suc)
  qed
qed

lemma length_seg_pages [simp]: "length (seg_pages h P seg) = (snd seg + P - 1) div P"
  by (simp add: seg_pages_def)

lemma iov_rest_correct:
  assumes v: "valid h" and P: "0 < P" "unat pagesize = P"
  shows "\<lbrakk> \<forall>seg \<in> set segs. seg_ok h seg; length pre = idx;
      length (concat (map (seg_pages h P) segs)) \<le> length post \<rbrakk> \<Longrightarrow>
    iov_rest (v2p h) pagesize (map (iovec_of h) segs) idx (pre @ post) =
      Some (idx + length (concat (map (seg_pages h P) segs)),
        pre @ concat (map (seg_pages h P) segs) @
          drop (length (concat (map (seg_pages h P) segs))) post)"
proof (induction segs arbitrary: idx pre post)
  case Nil
  then show ?case by simp
next
  case (Cons seg segs)
  let ?k = "(snd seg + P - 1) div P" and ?all = "concat (map (seg_pages h P) segs)"
  have ok: "fst seg + snd seg \<le> limit h" using Cons.prems(1) by (simp add: seg_ok_def)
  then have len: "unat (of_nat (snd seg) :: u64) = snd seg"
    using fits [OF v] by (intro unat_of_nat_u64) linarith
  have "iov_pages (v2p h) pagesize (base h + of_nat (fst seg)) 0 (of_nat (snd seg)) idx (pre @ post) =
      Some (idx + ?k, pre @ seg_pages h P seg @ drop ?k post)"
    using iov_pages_correct [OF v P, of "base h + of_nat (fst seg)" 0 "fst seg" "of_nat (snd seg)"
        "pre @ post" pre post idx] ok Cons.prems(2,3) by (simp add: len seg_pages_def)
  moreover have "iov_rest (v2p h) pagesize (map (iovec_of h) segs) (idx + ?k)
      ((pre @ seg_pages h P seg) @ drop ?k post) =
      Some (idx + ?k + length ?all, (pre @ seg_pages h P seg) @ ?all @ drop (length ?all) (drop ?k post))"
    by (rule Cons.IH) (use Cons.prems in simp_all)
  ultimately show ?case by (simp add: iovec_of_def [of h seg] add.commute add.left_commute)
qed

lemma prep_iov_correct:
  assumes v: "valid h" and P: "pagesz = 2 ^ sh" "sh < 63"
    and segs: "\<forall>seg \<in> set (seg # segs). seg_ok h seg" "0 < snd seg"
  defines "all \<equiv> concat (map (seg_pages h (2 ^ sh)) (seg # segs))"
  assumes cap: "length all \<le> 1 + length lst"
  shows "prep_prps_iov (v2p h) pagesz request (map (iovec_of h) (seg # segs)) lst cmd =
    Some (tl all @ drop (length all - 1) lst,
      (if length all = 1 then cmd\<lparr>cmd_prp1 := hd all\<rparr>
       else if length all = 2 then cmd\<lparr>cmd_prp1 := hd all, cmd_prp2 := all ! 1\<rparr>
       else cmd\<lparr>cmd_prp1 := hd all, cmd_prp2 := req_prp_addr request\<rparr>))"
proof -
  let ?P = "(2 :: nat) ^ sh" and ?rest = "concat (map (seg_pages h (2 ^ sh)) segs)"
  let ?k = "(snd seg - ?P + ?P - 1) div ?P"
  let ?first = "map (\<lambda>i. phys h (fst seg + ?P + i * ?P)) [0..<?k]"
  have pos: "0 < ?P" by simp
  have pgs: "size_of_int pagesz = 2 ^ sh" using P by (simp add: size_of_int_def)
  have pg: "unat ((2 :: u64) ^ sh) = ?P" using P(2) by (simp add: unat_two_power)
  have ok: "fst seg + snd seg \<le> limit h" using segs(1) by (simp add: seg_ok_def)
  then have len: "unat (of_nat (snd seg) :: u64) = snd seg"
    using fits [OF v] by (intro unat_of_nat_u64) linarith
  have sp: "seg_pages h ?P seg = phys h (fst seg) # ?first"
    unfolding seg_pages_def ceil_step [OF pos segs(2)]
    by (simp add: upt_conv_Cons map_Suc_upt [symmetric] o_def add.assoc del: upt_Suc)
  have all: "all = phys h (fst seg) # ?first @ ?rest" by (simp add: all_def sp)
  let ?rem = "if (2 :: u64) ^ sh < of_nat (snd seg) then of_nat (snd seg) - 2 ^ sh else (0 :: u64)"
  have rem: "unat ?rem = snd seg - ?P"
    using pg len by (auto simp: word_less_nat_alt unat_sub_u64)
  have tr: "v2p h (base h + of_nat (fst seg)) = Some (phys h (fst seg))"
    by (rule v2p_phys [OF v]) (use ok segs(2) in linarith)
  have ml: "length (?first @ ?rest) \<le> length lst" using cap by (simp add: all)
  have "iov_pages (v2p h) (2 ^ sh) (base h + of_nat (fst seg)) (2 ^ sh) ?rem 0 ([] @ lst) =
      Some (0 + ?k, [] @ ?first @ drop ?k lst)"
    using iov_pages_correct [OF v pos pg, of "base h + of_nat (fst seg)" "2 ^ sh" "fst seg + ?P" ?rem
        "[] @ lst" "[]" lst 0] ok ml unfolding rem by (simp add: add.assoc)
  moreover have "iov_rest (v2p h) (2 ^ sh) (map (iovec_of h) segs) ?k (?first @ drop ?k lst) =
      Some (?k + length ?rest, ?first @ ?rest @ drop (length ?rest) (drop ?k lst))"
    by (rule iov_rest_correct [OF v pos pg]) (use segs(1) ml in simp_all)
  moreover define T where "T = ?first @ ?rest"
  ultimately have
    "iov_pages (v2p h) (2 ^ sh) (base h + of_nat (fst seg)) (2 ^ sh) ?rem 0 lst = Some (?k, ?first @ drop ?k lst)"
    "iov_rest (v2p h) (2 ^ sh) (map (iovec_of h) segs) ?k (?first @ drop ?k lst) =
      Some (length T, T @ drop (length T) lst)"
    by (simp_all add: add.commute)
  then obtain k lst1 where run:
    "iov_pages (v2p h) (2 ^ sh) (base h + of_nat (fst seg)) (2 ^ sh) ?rem 0 lst = Some (k, lst1)"
    "iov_rest (v2p h) (2 ^ sh) (map (iovec_of h) segs) k lst1 = Some (length T, T @ drop (length T) lst)"
    by blast
  have all: "all = phys h (fst seg) # T" by (simp add: all T_def)
  have "prep_prps_iov (v2p h) pagesz request (map (iovec_of h) (seg # segs)) lst cmd =
      (let cmd1 = cmd\<lparr>cmd_prp1 := phys h (fst seg)\<rparr>; lst' = T @ drop (length T) lst in
       if length T = 1 then do { e \<leftarrow> array_get lst' 0; Some (lst', cmd1\<lparr>cmd_prp2 := e\<rparr>) }
       else if 1 < length T then Some (lst', cmd1\<lparr>cmd_prp2 := req_prp_addr request\<rparr>)
       else Some (lst', cmd1))"
    unfolding prep_prps_iov_def pgs by (simp add: iovec_of_def [of h seg] tr run Let_def)
  then show ?thesis by (cases T) (auto simp: all Let_def)
qed

end

end
