(* ===== verification/Nvme_Prps.thy ===== *)
theory Nvme_Prps
  imports Prp_Builder Hostmem_Props
begin

unbundle bit_operations_syntax

text \<open>
  The part of \<open>include/upcie/nvme/nvme_request.h\<close> that works on host memory: the page of PRP
  entries of each request, and the PRP builders for buffers of the hugepage heap.
\<close>

section \<open>The PRP pages of a pool\<close>

text \<open>
  The result of \<open>nvme_request_pool_init_prps\<close> carries, after the return code, the \<open>errno\<close> that
  the failing allocation left behind, since the caller reports it.
\<close>

definition prps_step :: "hostmem_heap \<Rightarrow> u64 \<Rightarrow> nat \<Rightarrow> nvme_request list \<Rightarrow> nvme_request list option" where
  "prps_step heap base i rs =
     (if 2 ^ 31 \<le> int i * pagesize (config heap) then None
      else do {
        let prp = base + size_of_int (int i * pagesize (config heap));
        r \<leftarrow> array_get rs i;
        addr \<leftarrow> hostmem_dma_v2p heap prp;
        array_set rs i (r\<lparr>req_prp := prp, req_prp_addr := addr\<rparr>) })"

definition nvme_request_pool_init_prps ::
  "bool \<Rightarrow> nvme_request_pool \<Rightarrow> hostmem_heap \<Rightarrow>
   (int \<times> int \<times> nvme_request_pool \<times> hostmem_heap) option" where
  "nvme_request_pool_init_prps dbg pool heap = do {
     (r, heap') \<leftarrow> hostmem_dma_alloc_array dbg heap (of_nat NVME_REQUEST_POOL_LEN)
                    (size_of_int (pagesize (config heap)));
     case r of
       Inl e \<Rightarrow> Some (- ENOMEM, e, pool\<lparr>prps := 0\<rparr>, heap')
     | Inr p \<Rightarrow> do {
         rs \<leftarrow> for_each (prps_step heap' p) [0..<NVME_REQUEST_POOL_LEN] (reqs pool);
         Some (0, 0, pool\<lparr>prps := p, reqs := rs\<rparr>, heap') } }"

definition nvme_request_pool_term_prps ::
  "nvme_request_pool \<Rightarrow> hostmem_heap \<Rightarrow> hostmem_heap option" where
  "nvme_request_pool_term_prps pool heap = hostmem_dma_free heap (prps pool)"

section \<open>The builders on host memory\<close>

definition nvme_request_prp_retranslate :: "hostmem_heap \<Rightarrow> u64 \<Rightarrow> u64 option" where
  "nvme_request_prp_retranslate heap vaddr = hostmem_dma_v2p heap vaddr"

definition nvme_request_prep_command_prps_contig ::
  "bool \<Rightarrow> nvme_request \<Rightarrow> hostmem_heap \<Rightarrow> u64 \<Rightarrow> u64 \<Rightarrow> u64 list \<Rightarrow> nvme_command \<Rightarrow>
   (u64 list \<times> nvme_command) option" where
  "nvme_request_prep_command_prps_contig dbg request heap dbuf dbuf_nbytes lst cmd =
     prep_prps_contig dbg (nvme_request_prp_retranslate heap) (virt heap) (hugepgsz (config heap))
       (pagesize (config heap)) (pagesize_shift (config heap)) request dbuf dbuf_nbytes lst cmd"

definition nvme_request_prep_command_prps_iov ::
  "nvme_request \<Rightarrow> hostmem_heap \<Rightarrow> (u64 \<times> u64) list \<Rightarrow> u64 list \<Rightarrow> nvme_command \<Rightarrow>
   (u64 list \<times> nvme_command) option" where
  "nvme_request_prep_command_prps_iov request heap dvec lst cmd =
     prep_prps_iov (hostmem_dma_v2p heap) (pagesize (config heap)) request dvec lst cmd"

lemma retranslate_eq: "nvme_request_prp_retranslate = hostmem_dma_v2p"
  by (intro ext) (simp add: nvme_request_prp_retranslate_def)

section \<open>Buffers of the heap\<close>

text \<open>A heap whose memory starts at a page boundary, as \<open>mmap\<close> of hugepages returns it.\<close>

definition dma_heap :: "hostmem_heap \<Rightarrow> bool" where
  "dma_heap heap \<longleftrightarrow> lut_ok heap \<and> pg heap dvd unat (virt heap)"

definition in_heap :: "hostmem_heap \<Rightarrow> u64 \<Rightarrow> u64 \<Rightarrow> bool" where
  "in_heap heap a n \<longleftrightarrow> 0 < unat n \<and> unat (virt heap) \<le> unat a \<and>
     unat a - unat (virt heap) + unat n \<le> unat (nphys heap) * hpg heap"

text \<open>The heap provides the contract the builders rely on.\<close>

lemma dma_heapD:
  assumes "dma_heap heap"
  obtains k h where "lut_ok heap" "pg heap dvd unat (virt heap)" "0 < unat (virt heap)"
    "k \<le> h" "h \<le> 30" "pagesize (config heap) = 2 ^ k"
    "hugepgsz (config heap) = 2 ^ h" "pagesize_shift (config heap) = int k"
    "hugepgsz_shift (config heap) = int h" "pg heap = 2 ^ k" "hpg heap = 2 ^ h"
proof -
  from assms have ok: "lut_ok heap" and al: "pg heap dvd unat (virt heap)" by (simp_all add: dma_heap_def)
  then have cfg: "hostmem_config_ok (config heap)" and sp: "0 < unat (virt heap)"
    by (simp_all add: lut_ok_def space_ok_def)
  from cfg ok al sp that show thesis by (elim config_okE)
qed

abbreviation page_bits :: "hostmem_heap \<Rightarrow> nat" where
  "page_bits heap \<equiv> nat (pagesize_shift (config heap))"
abbreviation hugepage_bits :: "hostmem_heap \<Rightarrow> nat" where
  "hugepage_bits heap \<equiv> nat (hugepgsz_shift (config heap))"

interpretation buffers: prp_region dma_heap hostmem_dma_v2p virt hpg "\<lambda>heap i. phys_lut heap ! i"
    "\<lambda>heap. unat (nphys heap) * hpg heap" page_bits hugepage_bits
proof
  fix heap assume "dma_heap heap"
  then obtain k h where kh: "lut_ok heap" "pg heap dvd unat (virt heap)" "0 < unat (virt heap)"
    "k \<le> h" "h \<le> 30" "pagesize (config heap) = 2 ^ k"
    "hugepgsz (config heap) = 2 ^ h" "pagesize_shift (config heap) = int k"
    "hugepgsz_shift (config heap) = int h" "pg heap = 2 ^ k" "hpg heap = 2 ^ h" by (rule dma_heapD)
  show "0 < hpg heap" by (simp add: kh(7))
  show "unat (virt heap) + unat (nphys heap) * hpg heap < 2 ^ 64" by (rule host.fits [OF kh(1)])
  show "hostmem_dma_v2p heap (virt heap + of_nat x) =
      Some (phys_lut heap ! (x div hpg heap) + of_nat (x mod hpg heap))"
    if "x < unat (nphys heap) * hpg heap" for x by (rule host.translate [OF kh(1) that])
  show "hpg heap = 2 ^ hugepage_bits heap \<and> page_bits heap \<le> hugepage_bits heap \<and> hugepage_bits heap < 63"
    unfolding kh(11) using kh(4,5,8,9) by simp
  show "2 ^ page_bits heap dvd unat (virt heap) \<and> 0 < unat (virt heap)"
    using kh(2,3) unfolding kh(8,10) by simp
qed

lemma buffers_phys: "buffers.phys = host_phys"
  by (intro ext) (simp add: buffers.phys_def host_phys_def)

lemma buffers_sizes:
  assumes "dma_heap heap"
  shows "hugepgsz (config heap) = 2 ^ hugepage_bits heap" "pagesize (config heap) = 2 ^ page_bits heap"
    "pagesize_shift (config heap) = int (page_bits heap)" "pg heap = 2 ^ page_bits heap"
    "page_bits heap < 63" "buffers.geometry heap (page_bits heap) (hugepage_bits heap)"
proof -
  from assms obtain k h where kh: "k \<le> h" "h \<le> 30" "pagesize (config heap) = 2 ^ k"
    "hugepgsz (config heap) = 2 ^ h" "pagesize_shift (config heap) = int k"
    "hugepgsz_shift (config heap) = int h" "pg heap = 2 ^ k" by (rule dma_heapD)
  then show "hugepgsz (config heap) = 2 ^ hugepage_bits heap" "pagesize (config heap) = 2 ^ page_bits heap"
    "pagesize_shift (config heap) = int (page_bits heap)" "page_bits heap < 63" by simp_all
  show "pg heap = 2 ^ page_bits heap" unfolding kh(5,7) by simp
  show "buffers.geometry heap (page_bits heap) (hugepage_bits heap)"
    using assms by (simp add: buffers.geometry_def)
qed

lemma in_heap_region: "in_heap heap a n = buffers.in_region heap a n"
  by (simp add: in_heap_def buffers.in_region_def)

text \<open>C1: for a contiguous buffer of at most 513 pages anywhere in the heap, at any offset into a
  page, the builder succeeds and what it leaves in the command and the PRP list describes the
  buffer byte for byte: the address the controller derives for byte \<open>j\<close> is the physical
  address of byte \<open>j\<close>, also where the buffer crosses into a hugepage that lies elsewhere.\<close>

theorem nvme_prep_contig_describes_buffer:
  assumes "dma_heap heap" "in_heap heap dbuf n"
    and "page_count (pg heap) (unat dbuf mod pg heap) (unat n) \<le> 1 + min 512 (length lst)"
    and "length lst < 2 ^ 32"
  shows "\<exists>lst' cmd'. nvme_request_prep_command_prps_contig dbg request heap dbuf n lst cmd = Some (lst', cmd') \<and>
    cmd' = cmd\<lparr>cmd_prp1 := cmd_prp1 cmd', cmd_prp2 := cmd_prp2 cmd'\<rparr> \<and>
    (2 < page_count (pg heap) (unat dbuf mod pg heap) (unat n) \<longrightarrow> cmd_prp2 cmd' = req_prp_addr request) \<and>
    (\<forall>j < unat n. hostmem_dma_v2p heap (dbuf + of_nat j) =
       Some (prp_byte (pg heap) (unat dbuf mod pg heap) (unat n) cmd' lst' j))"
proof -
  note g = buffers_sizes [OF assms(1)]
  from buffers.prep_contig_correct [OF g(6) _ g(1-3), of dbuf n lst dbg request cmd] assms(2-4)
  show ?thesis
    unfolding nvme_request_prep_command_prps_contig_def retranslate_eq in_heap_region g(4) by blast
qed

lemma example_facts:
  "pg example_heap = 4096" "hpg example_heap = 2097152" "virt example_heap = 0x40000000"
  "memsize example_heap = 0x800000" "nphys example_heap = 4" "page_bits example_heap = 12"
  by (simp_all add: example_heap_def example_config_def)

lemma example_dma_heap: "dma_heap example_heap"
  using example_heap_lut by (simp add: dma_heap_def example_facts)

theorem nvme_prep_contig_describes_buffer_witness:
  "\<exists>lst' cmd'. nvme_request_prep_command_prps_contig True
      \<lparr>req_cid = 7, req_user = 0, req_prp_addr = 0x1000, req_prp = 0x40001000\<rparr>
      example_heap 0x401FE800 0x3000 (replicate 512 0) zero_command = Some (lst', cmd') \<and>
    (\<forall>j < 0x3000. hostmem_dma_v2p example_heap (0x401FE800 + of_nat j) =
       Some (prp_byte 4096 0x800 0x3000 cmd' lst' j))"
proof -
  have h: "in_heap example_heap 0x401FE800 0x3000" by (simp add: in_heap_def example_facts)
  show ?thesis
    using nvme_prep_contig_describes_buffer [OF example_dma_heap h, of "replicate 512 0" True
        "\<lparr>req_cid = 7, req_user = 0, req_prp_addr = 0x1000, req_prp = 0x40001000\<rparr>" zero_command]
    by (simp add: example_facts page_count_def) blast
qed

text \<open>C27: for a scattered buffer whose elements lie in the heap and whose first element is not
  empty, the builder writes, in order, the physical address of every page of every element:
  the first to PRP1, the rest to the list (or, when there are two in all, the second to PRP2).\<close>

theorem nvme_prep_iov_lists_pages:
  assumes "dma_heap heap" "\<forall>seg \<in> set (seg # segs). fst seg + snd seg \<le> unat (nphys heap) * hpg heap"
    and "0 < snd seg"
  defines "pages \<equiv> concat (map (\<lambda>s. map (\<lambda>i. host_phys heap (fst s + i * pg heap))
      [0..<(snd s + pg heap - 1) div pg heap]) (seg # segs))"
  assumes "length pages \<le> 1 + length lst"
  shows "nvme_request_prep_command_prps_iov request heap
      (map (\<lambda>s. (virt heap + of_nat (fst s), of_nat (snd s))) (seg # segs)) lst cmd =
    Some (tl pages @ drop (length pages - 1) lst,
      (if length pages = 1 then cmd\<lparr>cmd_prp1 := hd pages\<rparr>
       else if length pages = 2 then cmd\<lparr>cmd_prp1 := hd pages, cmd_prp2 := pages ! 1\<rparr>
       else cmd\<lparr>cmd_prp1 := hd pages, cmd_prp2 := req_prp_addr request\<rparr>))"
proof -
  note g = buffers_sizes [OF assms(1)]
  have seg: "buffers.seg_pages heap (2 ^ page_bits heap) = (\<lambda>s. map (\<lambda>i. host_phys heap (fst s + i * pg heap))
      [0..<(snd s + pg heap - 1) div pg heap])"
    by (intro ext) (simp add: buffers.seg_pages_def buffers_phys g(4))
  have iov: "buffers.iovec_of heap = (\<lambda>s. (virt heap + of_nat (fst s), of_nat (snd s)))"
    by (intro ext) (simp add: buffers.iovec_of_def)
  have cap: "length (concat (map (buffers.seg_pages heap (2 ^ page_bits heap)) (seg # segs))) \<le> 1 + length lst"
    using assms(5) unfolding pages_def seg [symmetric] .
  show ?thesis
    unfolding nvme_request_prep_command_prps_iov_def iov [symmetric] pages_def seg [symmetric]
    by (rule buffers.prep_iov_correct [OF assms(1) g(2,5) _ assms(3) cap])
      (use assms(2) in \<open>simp add: buffers.seg_ok_def\<close>)
qed

theorem nvme_prep_iov_lists_pages_witness:
  "nvme_request_prep_command_prps_iov \<lparr>req_cid = 7, req_user = 0, req_prp_addr = 0x1000, req_prp = 0x40001000\<rparr>
     example_heap [(0x40000000 + of_nat 0x1FF000, of_nat 0x2000), (0x40000000 + of_nat 0x5000, of_nat 1)]
     (replicate 3 0) zero_command =
   Some ([0x80000000, 0x100005000, 0], zero_command\<lparr>cmd_prp1 := 0x1001FF000, cmd_prp2 := 0x1000\<rparr>)"
proof -
  have p: "host_phys example_heap x = [0x100000000, 0x80000000, 0x80200000, 0x140000000] ! (x div 2097152)
      + of_nat (x mod 2097152)" for x
    unfolding host_phys_def example_facts by (simp add: example_heap_def)
  have u: "[0..<2] = [0, 1 :: nat]" "[0..<Suc 0] = [0 :: nat]" by (simp_all add: upt_rec)
  show ?thesis
    using nvme_prep_iov_lists_pages [OF example_dma_heap, of "(0x1FF000, 0x2000)" "[(0x5000, 1)]" "replicate 3 0"
        "\<lparr>req_cid = 7, req_user = 0, req_prp_addr = 0x1000, req_prp = 0x40001000\<rparr>" zero_command]
    by (simp add: example_facts p u)
qed

section \<open>The PRP pages are the requests' own\<close>

lemma prps_step_eq:
  assumes "dma_heap heap" "page_bits heap \<le> 21" "i < NVME_REQUEST_POOL_LEN"
    and "length rs = NVME_REQUEST_POOL_LEN"
    and "hostmem_dma_v2p heap (p + of_nat (i * pg heap)) = Some y"
  shows "prps_step heap p i rs =
    Some (rs[i := (rs ! i)\<lparr>req_prp := p + of_nat (i * pg heap), req_prp_addr := y\<rparr>])"
proof -
  have pz: "pagesize (config heap) = 2 ^ page_bits heap" by (rule buffers_sizes(2) [OF assms(1)])
  have "(2 :: int) ^ page_bits heap \<le> 2 ^ 21" by (rule power_increasing) (use assms(2) in simp_all)
  then have "int i * pagesize (config heap) \<le> 1023 * 2 ^ 21"
    unfolding pz by (intro mult_mono) (use assms(3) in \<open>simp_all add: NVME_REQUEST_POOL_LEN_def\<close>)
  then have c: "\<not> 2 ^ 31 \<le> int i * pagesize (config heap)" by simp
  have "int i * pagesize (config heap) = int (i * pg heap)" by (simp add: pz)
  then have "size_of_int (int i * pagesize (config heap)) = of_nat (i * pg heap)"
    by (simp only: size_of_int_def of_int_of_nat_eq)
  then show ?thesis using c assms(3-5) unfolding prps_step_def Let_def by simp
qed

text \<open>What every request of the pool holds afterwards.\<close>

definition own_pages :: "hostmem_heap \<Rightarrow> nvme_request_pool \<Rightarrow> nvme_request_pool \<Rightarrow> bool" where
  "own_pages heap pool pool' \<longleftrightarrow>
     top pool' = top pool \<and> stack pool' = stack pool \<and> length (reqs pool') = NVME_REQUEST_POOL_LEN \<and>
     (\<forall>i < NVME_REQUEST_POOL_LEN.
        req_cid (reqs pool' ! i) = req_cid (reqs pool ! i) \<and>
        req_prp (reqs pool' ! i) = prps pool' + of_nat (i * pg heap) \<and>
        (\<forall>j < pg heap. hostmem_dma_v2p heap (req_prp (reqs pool' ! i) + of_nat j) =
           Some (req_prp_addr (reqs pool' ! i) + of_nat j)))"

lemma prps_request_ok:
  assumes "hostmem_config_ok (config heap)"
  shows "hostmem_request_ok heap (Array (of_nat NVME_REQUEST_POOL_LEN) (size_of_int (pagesize (config heap))))"
    "unat (of_nat NVME_REQUEST_POOL_LEN :: u64) = NVME_REQUEST_POOL_LEN"
    "hostmem_dma_alloc_array dbg heap (of_nat NVME_REQUEST_POOL_LEN) (size_of_int (pagesize (config heap))) =
     hostmem_heap_block_alloc_array dbg heap (of_nat NVME_REQUEST_POOL_LEN) (size_of_int (pagesize (config heap)))"
proof -
  note pages = config_pages [OF assms]
  show n: "unat (of_nat NVME_REQUEST_POOL_LEN :: u64) = NVME_REQUEST_POOL_LEN"
    by (simp add: NVME_REQUEST_POOL_LEN_def)
  show "hostmem_request_ok heap (Array (of_nat NVME_REQUEST_POOL_LEN) (size_of_int (pagesize (config heap))))"
    using pages(2,4,7) by (simp only: hostmem_request_ok.simps n pages(5)) (simp add: NVME_REQUEST_POOL_LEN_def)
  have "size_of_int (pagesize (config heap)) \<noteq> 0" using pages(5,8) by auto
  then show "hostmem_dma_alloc_array dbg heap (of_nat NVME_REQUEST_POOL_LEN) (size_of_int (pagesize (config heap))) =
     hostmem_heap_block_alloc_array dbg heap (of_nat NVME_REQUEST_POOL_LEN) (size_of_int (pagesize (config heap)))"
    by (simp add: hostmem_dma_alloc_array_def NVME_REQUEST_POOL_LEN_def)
qed

text \<open>The loop fills in the pages of an allocation that succeeded.\<close>

lemma prps_loop:
  assumes blocks: "heap_blocks heap bs" and dma: "dma_heap heap"
    and mem: "unat (memsize heap) = unat (nphys heap) * hpg heap"
    and bits: "page_bits heap \<le> 21" and len: "length rs = NVME_REQUEST_POOL_LEN"
    and al: "hostmem_heap_block_alloc_array dbg heap (of_nat NVME_REQUEST_POOL_LEN)
      (size_of_int (pagesize (config heap))) = Some (Inr p, heap')"
    and same: "same_heap heap heap'"
  shows "\<exists>y. for_each (prps_step heap' p) [0..<NVME_REQUEST_POOL_LEN] rs =
      Some (map (\<lambda>i. (rs ! i)\<lparr>req_prp := p + of_nat (i * pg heap), req_prp_addr := y i\<rparr>)
        [0..<NVME_REQUEST_POOL_LEN]) \<and>
    (\<forall>i < NVME_REQUEST_POOL_LEN. \<forall>j < pg heap.
       hostmem_dma_v2p heap' (p + of_nat (i * pg heap) + of_nat j) = Some (y i + of_nat j))"
proof -
  have ok: "lut_ok heap" using dma by (simp add: dma_heap_def)
  have cfg: "hostmem_config_ok (config heap)" using blocks by (simp add: heap_blocks_def)
  note pages = config_pages [OF cfg] and n = prps_request_ok(2) [OF cfg]
  let ?el = "size_of_int (pagesize (config heap))" and ?n = "of_nat NVME_REQUEST_POOL_LEN :: u64"
  have el: "unat ?el = pg heap" "?el \<noteq> 0" using pages(5,8) by auto
  have args: "pg heap dvd unat ?el" "?el \<noteq> 0" "unat ?n * unat ?el + pg heap < 2 ^ 64"
    "unat ?el \<le> hpg heap" "unat ?n * unat ?el \<le> hpg heap \<or> unat ?el dvd hpg heap"
    using pages(2,4,7) el unfolding n by (simp_all add: NVME_REQUEST_POOL_LEN_def)
  have "\<exists>y. \<forall>j < pg heap. hostmem_dma_v2p heap' (p + of_nat (i * pg heap) + of_nat j) = Some (y + of_nat j)"
    if "i < NVME_REQUEST_POOL_LEN" for i
  proof -
    have "\<exists>y. hostmem_dma_v2p heap' (p + of_nat (i * pg heap)) = Some y \<and>
        hostmem_dma_v2p heap' (p + of_nat (i * pg heap + j)) = Some (y + of_nat j)" if "j < pg heap" for j
      using array_elements_contiguous [OF blocks ok mem args al, of i j] that \<open>i < _\<close>
      unfolding n el(1) by blast
    then show ?thesis using pages(8) by (metis (no_types, lifting) add.assoc of_nat_add option.inject)
  qed
  then obtain y where y: "\<And>i j. i < NVME_REQUEST_POOL_LEN \<Longrightarrow> j < pg heap \<Longrightarrow>
      hostmem_dma_v2p heap' (p + of_nat (i * pg heap) + of_nat j) = Some (y i + of_nat j)" by metis
  have dma': "dma_heap heap'" "page_bits heap' = page_bits heap" "pg heap' = pg heap"
    using dma same by (simp_all add: dma_heap_def lut_ok_def same_heap_def)
  let ?g = "\<lambda>i r. r\<lparr>req_prp := p + of_nat (i * pg heap), req_prp_addr := y i\<rparr>"
  have "for_each (prps_step heap' p) [0..<NVME_REQUEST_POOL_LEN] rs =
      Some (take 0 rs @ map (\<lambda>i. ?g i (rs ! i)) [0..<NVME_REQUEST_POOL_LEN])"
  proof (rule for_each_table)
    fix i and rs :: "nvme_request list"
    assume i: "i < NVME_REQUEST_POOL_LEN" "length rs = NVME_REQUEST_POOL_LEN"
    show "prps_step heap' p i rs = Some (rs[i := ?g i (rs ! i)])"
      using prps_step_eq [OF dma'(1) _ i, of p "y i"] bits y [OF i(1) pages(8)] dma'(2,3) by simp
  qed (simp_all add: len)
  with y show ?thesis by auto
qed

lemma init_prps_result:
  assumes live: "heap_live heap L" and dma: "dma_heap heap"
    and mem: "unat (memsize heap) = unat (nphys heap) * hpg heap"
    and bits: "page_bits heap \<le> 21" and len: "length (reqs pool) = NVME_REQUEST_POOL_LEN"
  obtains (fails) heap' where
      "nvme_request_pool_init_prps dbg pool heap = Some (- ENOMEM, ENOMEM, pool\<lparr>prps := 0\<rparr>, heap')"
      "same_heap heap heap'" "heap_live heap' L"
    | (gives) heap' pool' xs e ys where
      "nvme_request_pool_init_prps dbg pool heap = Some (0, 0, pool', heap')"
      "same_heap heap heap'" "prps pool' \<noteq> 0" "L = xs @ ys"
      "unat (prps pool') + NVME_REQUEST_POOL_LEN * pg heap \<le> e"
      "heap_live heap' (xs @ (unat (prps pool'), e) # ys)" "own_pages heap' pool pool'"
proof -
  from live obtain bs where blocks: "heap_blocks heap bs" by (auto simp: heap_live_def)
  then have cfg: "hostmem_config_ok (config heap)" by (simp add: heap_blocks_def)
  let ?el = "size_of_int (pagesize (config heap))" and ?n = "of_nat NVME_REQUEST_POOL_LEN :: u64"
  note req = prps_request_ok [OF cfg]
  have nz: "?el \<noteq> 0" using config_pages(5,8) [OF cfg] by auto
  from hostmem_request_live [OF live req(1), of dbg] obtain x heap' where
    al: "hostmem_heap_block_alloc_array dbg heap ?n ?el = Some (x, heap')" and same: "same_heap heap heap'"
    and x: "alloc_outcome heap' L (nbytes (Array ?n ?el)) x \<or> x = Inl EINVAL \<and> heap' = heap"
    by (auto simp: req(3))
  have not_einval: "x \<noteq> Inl EINVAL"
    using al heap_alloc_array_refines [OF blocks, of ?el ?n dbg] req(1) nz config_pages(4,7) [OF cfg]
    by (auto split: option.splits)
  show thesis
  proof (cases x)
    case (Inl e)
    with x not_einval have "e = ENOMEM" "heap_live heap' L" by (auto simp: alloc_outcome_def)
    with al Inl same show thesis
      by (intro fails [of heap']) (simp_all add: nvme_request_pool_init_prps_def req(3))
  next
    case (Inr p)
    with x obtain xs e ys where p: "p \<noteq> 0" "L = xs @ ys" "unat p + unat ?n * unat ?el \<le> e"
      "heap_live heap' (xs @ (unat p, e) # ys)" by (auto simp: alloc_outcome_def)
    from prps_loop [OF blocks dma mem bits len al [unfolded Inr] same] obtain y where
      y: "for_each (prps_step heap' p) [0..<NVME_REQUEST_POOL_LEN] (reqs pool) =
        Some (map (\<lambda>i. (reqs pool ! i)\<lparr>req_prp := p + of_nat (i * pg heap), req_prp_addr := y i\<rparr>)
          [0..<NVME_REQUEST_POOL_LEN])"
      "\<forall>i < NVME_REQUEST_POOL_LEN. \<forall>j < pg heap.
         hostmem_dma_v2p heap' (p + of_nat (i * pg heap) + of_nat j) = Some (y i + of_nat j)" by blast
    let ?pool = "pool\<lparr>prps := p, reqs := map (\<lambda>i. (reqs pool ! i)\<lparr>req_prp := p + of_nat (i * pg heap),
        req_prp_addr := y i\<rparr>) [0..<NVME_REQUEST_POOL_LEN]\<rparr>"
    have "own_pages heap' pool ?pool" using y(2) same by (simp add: own_pages_def same_heap_def)
    then show thesis using al Inr y(1) p same config_pages(5) [OF cfg] req(2)
      by (intro gives [of ?pool heap' xs ys e]) (simp_all add: nvme_request_pool_init_prps_def req(3))
  qed
qed

text \<open>C26: when the pool of PRP pages can be allocated, it is memory that overlaps nothing handed
  out before, request \<open>i\<close> gets page \<open>i\<close> of it with the physical address of that page, the
  identifiers stay as they were, and no PRP page straddles hugepages; when it cannot, the call
  reports \<open>-ENOMEM\<close>, the pool has no PRP memory and the heap has lost none.\<close>

theorem nvme_request_pool_init_prps_own_pages:
  assumes "heap_live heap L" "dma_heap heap" "unat (memsize heap) = unat (nphys heap) * hpg heap"
    and "page_bits heap \<le> 21" "length (reqs pool) = NVME_REQUEST_POOL_LEN"
  shows "\<exists>heap'.
    nvme_request_pool_init_prps dbg pool heap = Some (- ENOMEM, ENOMEM, pool\<lparr>prps := 0\<rparr>, heap') \<and>
      heap_live heap' L \<or>
    (\<exists>pool' xs e ys. nvme_request_pool_init_prps dbg pool heap = Some (0, 0, pool', heap') \<and>
       own_pages heap' pool pool' \<and> L = xs @ ys \<and>
       unat (prps pool') + NVME_REQUEST_POOL_LEN * pg heap \<le> e \<and>
       heap_live heap' (xs @ (unat (prps pool'), e) # ys))"
  using init_prps_result [OF assms, of dbg] by metis

theorem nvme_request_pool_init_prps_own_pages_witness:
  "\<exists>heap'.
    nvme_request_pool_init_prps True zero_pool example_heap = Some (- ENOMEM, ENOMEM, zero_pool\<lparr>prps := 0\<rparr>, heap') \<or>
     (\<exists>pool'. nvme_request_pool_init_prps True zero_pool example_heap = Some (0, 0, pool', heap') \<and>
       own_pages heap' zero_pool pool')"
proof -
  have "length (reqs zero_pool) = NVME_REQUEST_POOL_LEN" by (simp add: zero_pool_def)
  from nvme_request_pool_init_prps_own_pages [OF example_heap_live example_dma_heap _ _ this, of True]
  show ?thesis by (simp add: example_facts) blast
qed

end
