(* ===== verification/Nvme_Qpair.thy ===== *)
theory Nvme_Qpair
  imports Nvme_Regs Nvme_Prps
begin

unbundle bit_operations_syntax

text \<open>
  The queue pair of \<open>include/upcie/nvme/nvme_qpair.h\<close>: set-up and tear-down, the submission
  ring and its doorbell, the completion ring, and the synchronous submissions.

  The rings and PRP lists are memory that host and device share. Host accesses to them are part
  of the hardware parameter: the entry a load finds is up to the device, and each of the three
  loads of an entry in \<open>nvme_qpair_reap_cpl\<close> is one access. A ring access past the 64 KiB the
  code allocates is undefined, as is a use of the request pool when it was not allocated or
  has been freed.
\<close>

section \<open>Data\<close>

record 'd dma_hw = "'d hw" +
  hw_cqe :: "'d \<Rightarrow> u64 \<Rightarrow> nvme_completion \<times> 'd"   \<comment> \<open>a load of the completion entry at an address\<close>
  hw_sqe :: "'d \<Rightarrow> u64 \<Rightarrow> nvme_command \<Rightarrow> 'd"      \<comment> \<open>a store of a command at an address\<close>
  hw_zero :: "'d \<Rightarrow> u64 \<Rightarrow> u64 \<Rightarrow> 'd"              \<comment> \<open>\<open>memset\<close> to zero of an address range\<close>
  hw_list :: "'d \<Rightarrow> u64 \<Rightarrow> u64 list"               \<comment> \<open>the page of PRP entries at an address\<close>
  hw_set_list :: "'d \<Rightarrow> u64 \<Rightarrow> u64 list \<Rightarrow> 'd"     \<comment> \<open>and a store to it\<close>

text \<open>A pointer to an object of the C heap.\<close>

datatype 'a cptr = Null | Live (target: 'a) | Dangling

fun deref :: "'a cptr \<Rightarrow> 'a option" where
  "deref (Live x) = Some x"
| "deref _ = None"

record nvme_qpair =
  qp_sq :: u64
  qp_cq :: u64
  qp_sqdb :: u32
  qp_cqdb :: u32
  qp_qid :: u32
  qp_depth :: u16
  qp_tail :: u16
  qp_tail_last_written :: u16
  qp_head :: u16
  qp_phase :: u8
  qp_rpool :: "nvme_request_pool cptr"

definition QPAIR_NBYTES :: u64 where "QPAIR_NBYTES = 1024 * 64"
definition UINT16_MAX :: u16 where "UINT16_MAX = 0xFFFF"

text \<open>Addresses of ring entries: commands of 64 bytes, completions of 16.\<close>

definition sqe_addr :: "nvme_qpair \<Rightarrow> u64 option" where
  "sqe_addr qp = (if QPAIR_NBYTES < 64 * (ucast (qp_tail qp) + 1) then None
     else Some (qp_sq qp + 64 * ucast (qp_tail qp)))"

definition cqe_addr :: "nvme_qpair \<Rightarrow> u64 option" where
  "cqe_addr qp = (if QPAIR_NBYTES < 16 * (ucast (qp_head qp) + 1) then None
     else Some (qp_cq qp + 16 * ucast (qp_head qp)))"

section \<open>Set-up and tear-down\<close>

text \<open>A doorbell of BAR0; the shift is on \<open>uint32_t\<close>, and no BAR0 reaches past 4 GiB.\<close>

definition doorbell :: "u32 \<Rightarrow> nat \<Rightarrow> u32 option" where
  "doorbell index dstrd =
     (let off = push_bit (2 + dstrd) index in
      if 2 ^ 32 \<le> 0x1000 + unat off then None else Some (0x1000 + off))"

definition nvme_qpair_term ::
  "nvme_qpair \<Rightarrow> hostmem_heap \<Rightarrow> (nvme_qpair \<times> hostmem_heap) option" where
  "nvme_qpair_term qp heap = do {
     pool \<leftarrow> deref (qp_rpool qp);
     heap1 \<leftarrow> nvme_request_pool_term_prps pool heap;
     let qp1 = qp\<lparr>qp_rpool := Dangling\<rparr>;
     heap2 \<leftarrow> hostmem_dma_free heap1 (qp_sq qp);
     heap3 \<leftarrow> hostmem_dma_free heap2 (qp_cq qp);
     Some (qp1, heap3) }"

text \<open>\<open>calloc_ok\<close> is whether the \<open>calloc\<close> of the request pool succeeds.\<close>

definition nvme_qpair_init ::
  "bool \<Rightarrow> ('d, 'x) dma_hw_scheme \<Rightarrow> bool \<Rightarrow> nvme_qpair \<Rightarrow> u32 \<Rightarrow> u16 \<Rightarrow> hostmem_heap \<Rightarrow> 'd \<Rightarrow>
   (int \<times> nvme_qpair \<times> hostmem_heap \<times> 'd) option" where
  "nvme_qpair_init dbg hw calloc_ok qp qid depth heap d = do {
     let (cap, d1) = nvme_mmio_cap_read hw d;
     let dstrd = unat (nvme_reg_cap_get_dstrd cap);
     sqdb \<leftarrow> doorbell (2 * qid) dstrd;
     cqdb \<leftarrow> doorbell (2 * qid + 1) dstrd;
     let qp1 = qp\<lparr>qp_sqdb := sqdb, qp_cqdb := cqdb, qp_qid := qid, qp_tail := 0,
       qp_tail_last_written := UINT16_MAX, qp_head := 0, qp_depth := depth, qp_phase := 1\<rparr>;
     (r, heap1) \<leftarrow> hostmem_dma_alloc_array dbg heap 1 QPAIR_NBYTES;
     case r of
       Inl e \<Rightarrow> Some (- e, qp1\<lparr>qp_sq := 0\<rparr>, heap1, d1)
     | Inr sq \<Rightarrow> do {
         let d2 = hw_zero hw d1 sq QPAIR_NBYTES;
         let qp2 = qp1\<lparr>qp_sq := sq\<rparr>;
         (r, heap2) \<leftarrow> hostmem_dma_alloc_array dbg heap1 1 QPAIR_NBYTES;
         case r of
           Inl e \<Rightarrow> do {
             heap3 \<leftarrow> hostmem_dma_free heap2 sq;
             Some (- e, qp2\<lparr>qp_cq := 0\<rparr>, heap3, d2) }
         | Inr cq \<Rightarrow> do {
             let d3 = hw_zero hw d2 cq QPAIR_NBYTES;
             let qp3 = qp2\<lparr>qp_cq := cq\<rparr>;
             if \<not> calloc_ok then do {
               heap3 \<leftarrow> hostmem_dma_free heap2 sq;
               heap4 \<leftarrow> hostmem_dma_free heap3 cq;
               Some (- ENOMEM, qp3\<lparr>qp_rpool := Null\<rparr>, heap4, d3) }
             else do {
               (err, errno, pool, heap3) \<leftarrow>
                 nvme_request_pool_init_prps dbg (nvme_request_pool_init zero_pool) heap2;
               if err \<noteq> 0 then do {
                 heap4 \<leftarrow> hostmem_dma_free heap3 sq;
                 heap5 \<leftarrow> hostmem_dma_free heap4 cq;
                 Some (- errno, qp3\<lparr>qp_rpool := Dangling\<rparr>, heap5, d3) }
               else Some (0, qp3\<lparr>qp_rpool := Live pool\<rparr>, heap3, d3) } } } }"

section \<open>The rings\<close>

definition cq_advance :: "nvme_qpair \<Rightarrow> nvme_qpair" where
  "cq_advance qp =
     (let head = qp_head qp + 1 in
      if head = qp_depth qp then qp\<lparr>qp_head := 0, qp_phase := qp_phase qp XOR 1\<rparr>
      else qp\<lparr>qp_head := head\<rparr>)"

text \<open>The polling loop, \<open>left\<close> iterations of which remain.\<close>

primrec reap_loop ::
  "('d, 'x) dma_hw_scheme \<Rightarrow> nvme_qpair \<Rightarrow> nat \<Rightarrow> nvme_completion \<Rightarrow> 'd \<Rightarrow>
   (int \<times> nvme_qpair \<times> nvme_completion \<times> 'd) option" where
  "reap_loop hw qp 0 cpl d = Some (- EAGAIN, qp, cpl, d)"
| "reap_loop hw qp (Suc left) cpl d = do {
     a \<leftarrow> cqe_addr qp;
     let (cqe, d1) = hw_cqe hw d a;
     if cpl_cid cqe < 0xFFFF then
       let (cqe, d2) = hw_cqe hw d1 a in
       if ucast (cpl_status cqe AND 0x1) = qp_phase qp then
         let (cqe, d3) = hw_cqe hw d2 a; qp' = cq_advance qp in
         Some (0, qp', cqe, mmio_write32 hw d3 (qp_cqdb qp') (ucast (qp_head qp')))
       else reap_loop hw qp left cpl (hw_usleep hw d2 1000)
     else reap_loop hw qp left cpl (hw_usleep hw d1 1000) }"

definition nvme_qpair_reap_cpl ::
  "('d, 'x) dma_hw_scheme \<Rightarrow> nvme_qpair \<Rightarrow> int \<Rightarrow> nvme_completion \<Rightarrow> 'd \<Rightarrow>
   (int \<times> nvme_qpair \<times> nvme_completion \<times> 'd) option" where
  "nvme_qpair_reap_cpl hw qp timeout_ms cpl d = reap_loop hw qp (nat timeout_ms) cpl d"

definition nvme_qpair_sqdb_update ::
  "('d, 'x) hw_scheme \<Rightarrow> nvme_qpair \<Rightarrow> 'd \<Rightarrow> nvme_qpair \<times> 'd" where
  "nvme_qpair_sqdb_update hw qp d =
     (if qp_tail qp = qp_tail_last_written qp then (qp, d)
      else (qp\<lparr>qp_tail_last_written := qp_tail qp\<rparr>,
            mmio_write32 hw d (qp_sqdb qp) (ucast (qp_tail qp))))"

text \<open>The sum is an \<open>int\<close>, so it does not wrap; a depth of 0 is a division by zero.\<close>

definition nvme_qpair_enqueue ::
  "('d, 'x) dma_hw_scheme \<Rightarrow> nvme_qpair \<Rightarrow> nvme_command \<Rightarrow> 'd \<Rightarrow> (int \<times> nvme_qpair \<times> 'd) option" where
  "nvme_qpair_enqueue hw qp cmd d = do {
     a \<leftarrow> sqe_addr qp;
     let d1 = hw_sqe hw d a cmd;
     if qp_depth qp = 0 then None
     else Some (0, qp\<lparr>qp_tail := of_nat ((unat (qp_tail qp) + 1) mod unat (qp_depth qp))\<rparr>, d1) }"

section \<open>Synchronous submission\<close>

text \<open>
  The three submissions share everything but the preparation of the command: \<open>prep\<close> gets the
  request and the command with its identifier.
\<close>

definition submit_sync_with ::
  "bool \<Rightarrow> ('d, 'x) dma_hw_scheme \<Rightarrow> (nvme_request \<Rightarrow> nvme_command \<Rightarrow> 'd \<Rightarrow> (nvme_command \<times> 'd) option) \<Rightarrow>
   nvme_qpair \<Rightarrow> nvme_command \<Rightarrow> int \<Rightarrow> nvme_completion \<Rightarrow> 'd \<Rightarrow>
   (int \<times> nvme_qpair \<times> nvme_command \<times> nvme_completion \<times> 'd) option" where
  "submit_sync_with dbg hw prep qp cmd timeout_ms cpl d = do {
     pool \<leftarrow> deref (qp_rpool qp);
     (r, pool1) \<leftarrow> nvme_request_alloc dbg pool;
     case r of
       Inl e \<Rightarrow> Some (- e, qp, cmd, cpl, d)
     | Inr req \<Rightarrow> do {
         request \<leftarrow> array_get (reqs pool1) req;
         let qp1 = qp\<lparr>qp_rpool := Live pool1\<rparr>;
         (cmd1, d1) \<leftarrow> prep request (cmd\<lparr>cmd_cid := req_cid request\<rparr>) d;
         (err, qp2, d2) \<leftarrow> nvme_qpair_enqueue hw qp1 cmd1 d1;
         if err \<noteq> 0 then Some (- err, qp2, cmd1, cpl, d2)
         else do {
           let (qp3, d3) = nvme_qpair_sqdb_update hw qp2 d2;
           (err, qp4, cpl1, d4) \<leftarrow> nvme_qpair_reap_cpl hw qp3 timeout_ms cpl d3;
           if err \<noteq> 0 then Some (- err, qp4, cmd1, cpl1, d4)
           else do {
             pool2 \<leftarrow> nvme_request_free dbg pool1 (req_cid request);
             Some (if cpl_status cpl1 AND 0x1FE \<noteq> 0 then - EIO else 0,
               qp4\<lparr>qp_rpool := Live pool2\<rparr>, cmd1, cpl1, d4) } } } }"

definition nvme_qpair_submit_sync ::
  "bool \<Rightarrow> ('d, 'x) dma_hw_scheme \<Rightarrow> nvme_qpair \<Rightarrow> nvme_command \<Rightarrow> int \<Rightarrow> nvme_completion \<Rightarrow> 'd \<Rightarrow>
   (int \<times> nvme_qpair \<times> nvme_command \<times> nvme_completion \<times> 'd) option" where
  "nvme_qpair_submit_sync dbg hw qp cmd timeout_ms cpl d =
     submit_sync_with dbg hw (\<lambda>request cmd d. Some (cmd, d)) qp cmd timeout_ms cpl d"

definition nvme_qpair_submit_sync_contig_prps ::
  "bool \<Rightarrow> ('d, 'x) dma_hw_scheme \<Rightarrow> nvme_qpair \<Rightarrow> hostmem_heap \<Rightarrow> u64 \<Rightarrow> u64 \<Rightarrow> nvme_command \<Rightarrow> int \<Rightarrow>
   nvme_completion \<Rightarrow> 'd \<Rightarrow> (int \<times> nvme_qpair \<times> nvme_command \<times> nvme_completion \<times> 'd) option" where
  "nvme_qpair_submit_sync_contig_prps dbg hw qp heap dbuf dbuf_nbytes cmd timeout_ms cpl d =
     submit_sync_with dbg hw
       (\<lambda>request cmd d. do {
          (lst, cmd') \<leftarrow> nvme_request_prep_command_prps_contig dbg request heap dbuf dbuf_nbytes
                          (hw_list hw d (req_prp request)) cmd;
          Some (cmd', hw_set_list hw d (req_prp request) lst) })
       qp cmd timeout_ms cpl d"

definition nvme_qpair_submit_sync_iov_prps ::
  "bool \<Rightarrow> ('d, 'x) dma_hw_scheme \<Rightarrow> nvme_qpair \<Rightarrow> hostmem_heap \<Rightarrow> (u64 \<times> u64) list \<Rightarrow> nvme_command \<Rightarrow>
   int \<Rightarrow> nvme_completion \<Rightarrow> 'd \<Rightarrow>
   (int \<times> nvme_qpair \<times> nvme_command \<times> nvme_completion \<times> 'd) option" where
  "nvme_qpair_submit_sync_iov_prps dbg hw qp heap dvec cmd timeout_ms cpl d =
     submit_sync_with dbg hw
       (\<lambda>request cmd d. do {
          (lst, cmd') \<leftarrow> nvme_request_prep_command_prps_iov request heap dvec
                          (hw_list hw d (req_prp request)) cmd;
          Some (cmd', hw_set_list hw d (req_prp request) lst) })
       qp cmd timeout_ms cpl d"

end
