(* ===== verification/Nvme_Qpair_Props.thy ===== *)
theory Nvme_Qpair_Props
  imports Nvme_Qpair
begin

unbundle bit_operations_syntax

text \<open>
  What the queue pair promises: no memory is lost in set-up and tear-down, completions are taken
  in the order the controller posts them, the doorbell always carries the tail, and the outcomes
  of a synchronous submission.
\<close>

section \<open>Set-up and tear-down\<close>

text \<open>The conditions under which the code sets up a queue pair on a heap: pages of at most
  64 KiB in hugepages of at least that, and doorbells inside BAR0.\<close>

definition qpair_heap :: "hostmem_heap \<Rightarrow> bool" where
  "qpair_heap heap \<longleftrightarrow> dma_heap heap \<and> unat (memsize heap) = unat (nphys heap) * hpg heap \<and>
     page_bits heap \<le> 16 \<and> 16 \<le> hugepage_bits heap"

definition doorbells_ok :: "('d, 'x) dma_hw_scheme \<Rightarrow> 'd \<Rightarrow> u32 \<Rightarrow> bool" where
  "doorbells_ok hw d qid \<longleftrightarrow>
     (let dstrd = unat (nvme_reg_cap_get_dstrd (fst (nvme_mmio_cap_read hw d)))
      in doorbell (2 * qid) dstrd \<noteq> None \<and> doorbell (2 * qid + 1) dstrd \<noteq> None)"

lemma qpair_heap_same: "same_heap heap heap' \<Longrightarrow> qpair_heap heap' = qpair_heap heap"
  by (auto simp: same_heap_def qpair_heap_def dma_heap_def lut_ok_def)

lemma ring_request_ok:
  assumes "qpair_heap heap"
  shows "hostmem_request_ok heap (Array 1 QPAIR_NBYTES)"
proof -
  have dma: "dma_heap heap" and bits: "page_bits heap \<le> 16" "16 \<le> hugepage_bits heap"
    using assms by (simp_all add: qpair_heap_def)
  note sizes = buffers_sizes [OF dma]
  have h: "hpg heap = 2 ^ hugepage_bits heap" using buffers.powers [OF dma] by simp
  have u: "unat QPAIR_NBYTES = 2 ^ 16" by (simp add: QPAIR_NBYTES_def)
  have "pg heap dvd 2 ^ 16" unfolding sizes(4) by (rule le_imp_power_dvd [OF bits(1)])
  moreover have "(2 :: nat) ^ 16 \<le> hpg heap" unfolding h by (rule power_increasing [OF bits(2)]) simp
  ultimately show ?thesis by (simp add: u)
qed

lemma ring_alloc: "hostmem_dma_alloc_array dbg heap 1 QPAIR_NBYTES = hostmem_request dbg heap (Array 1 QPAIR_NBYTES)"
  by simp

lemma pool_init_facts:
  "pool_wf (nvme_request_pool_init zero_pool)" "free_cids (nvme_request_pool_init zero_pool) = all_cids"
  "length (reqs (nvme_request_pool_init zero_pool)) = NVME_REQUEST_POOL_LEN"
  using nvme_request_pool_init_wf [of zero_pool] by (simp_all add: zero_pool_def pool_wf_def)

lemma own_pages_pool:
  assumes "own_pages heap pool pool'" "pool_wf pool"
  shows "pool_wf pool'" "free_cids pool' = free_cids pool"
  using assms by (auto simp: own_pages_def pool_wf_def free_cids_def)

text \<open>An allocation of a ring, as the set-up sees it.\<close>

lemma ring_cases:
  assumes "heap_live heap L" "qpair_heap heap"
  obtains (fails) e heap' where "hostmem_dma_alloc_array dbg heap 1 QPAIR_NBYTES = Some (Inl e, heap')"
      "0 < e" "same_heap heap heap'" "heap_live heap' L"
    | (gives) p heap' L' where "hostmem_dma_alloc_array dbg heap 1 QPAIR_NBYTES = Some (Inr p, heap')"
      "same_heap heap heap'" "p \<noteq> 0" "heap_live heap' L'" "unat p \<in> fst ` set L'"
      "filter (\<lambda>x. fst x \<noteq> unat p) L' = L" "\<exists>e. (unat p, e) \<in> set L' \<and> unat p + 65536 \<le> e"
proof -
  note ok = ring_request_ok [OF assms(2)]
  from hostmem_request_live [OF assms(1) ok, of dbg] obtain x heap' where
    x: "hostmem_dma_alloc_array dbg heap 1 QPAIR_NBYTES = Some (x, heap')" "same_heap heap heap'"
    "alloc_outcome heap' L (nbytes (Array 1 QPAIR_NBYTES)) x \<or> x = Inl EINVAL \<and> heap' = heap" by auto
  show thesis
  proof (cases x)
    case (Inl e)
    with x assms(1) show thesis by (intro fails [of e heap']) (auto simp: alloc_outcome_def)
  next
    case (Inr p)
    then have "hostmem_request dbg heap (Array 1 QPAIR_NBYTES) = Some (Inr p, heap')" using x(1) by simp
    then obtain L' where "heap_live heap' L'" "p \<noteq> 0" "unat p \<in> fst ` set L'"
      "filter (\<lambda>x. fst x \<noteq> unat p) L' = L" "\<exists>e. (unat p, e) \<in> set L' \<and> unat p + nbytes (Array 1 QPAIR_NBYTES) \<le> e"
      using hostmem.alloc_live [OF assms(1) ok] by blast
    with gives x(1,2) Inr show thesis by (simp add: QPAIR_NBYTES_def)
  qed
qed

text \<open>Both rings given back, in the order of the error path.\<close>

lemma free_both_rings:
  assumes live: "heap_live h L2" and sq: "unat sq \<in> fst ` set L2" and cq: "unat cq \<in> fst ` set L2" and ne: "sq \<noteq> cq"
    and both: "filter (\<lambda>x. fst x \<noteq> unat sq) (filter (\<lambda>x. fst x \<noteq> unat cq) L2) = L"
  obtains h1 h2 where "hostmem_dma_free h sq = Some h1" "hostmem_dma_free h1 cq = Some h2" "heap_live h2 L" "same_heap h h2"
proof -
  from heap_free_live [OF live sq] obtain h1 where h1: "hostmem_dma_free h sq = Some h1"
    "same_heap h h1" "heap_live h1 (filter (\<lambda>x. fst x \<noteq> unat sq) L2)"
    by (auto simp: hostmem_dma_free_def)
  have "unat cq \<in> fst ` set (filter (\<lambda>x. fst x \<noteq> unat sq) L2)"
    using cq ne by (auto simp: word_unat_eq_iff)
  from heap_free_live [OF h1(3) this] obtain h2 where "hostmem_dma_free h1 cq = Some h2" "same_heap h1 h2" "heap_live h2 L"
    using both by (auto simp: hostmem_dma_free_def conj_commute)
  with h1(1,2) show thesis by (intro that [of h1 h2]) (simp_all add: same_heap_def)
qed

text \<open>The result of a set-up: it fails and the heap has what it had, or it succeeds and the rings
  and the PRP pages are what was added.\<close>

lemma qpair_init_result:
  assumes live: "heap_live heap L" and ok: "qpair_heap heap" and db: "doorbells_ok hw d qid"
  obtains (fails) ret qp' heap' d' where
      "nvme_qpair_init dbg hw calloc_ok qp qid depth heap d = Some (ret, qp', heap', d')"
      "ret < 0" "heap_live heap' L" "same_heap heap heap'"
    | (gives) qp' heap' d' pool L1 L2 L3 where
      "nvme_qpair_init dbg hw calloc_ok qp qid depth heap d = Some (0, qp', heap', d')"
      "same_heap heap heap'" "heap_live heap' L3"
      "qp_rpool qp' = Live pool" "pool_wf pool" "free_cids pool = all_cids"
      "unat (prps pool) \<in> fst ` set L3" "filter (\<lambda>x. fst x \<noteq> unat (prps pool)) L3 = L2"
      "unat (qp_cq qp') \<in> fst ` set L2" "filter (\<lambda>x. fst x \<noteq> unat (qp_cq qp')) L2 = L1"
      "unat (qp_sq qp') \<in> fst ` set L1" "filter (\<lambda>x. fst x \<noteq> unat (qp_sq qp')) L1 = L"
      "qp_depth qp' = depth" "qp_tail qp' = 0" "qp_head qp' = 0" "qp_phase qp' = 1"
      "qp_tail_last_written qp' = UINT16_MAX" "qp_qid qp' = qid"
      "\<exists>e. (unat (prps pool), e) \<in> set L3 \<and> unat (prps pool) + NVME_REQUEST_POOL_LEN * pg heap \<le> e"
      "\<exists>e. (unat (qp_cq qp'), e) \<in> set L2 \<and> unat (qp_cq qp') + 65536 \<le> e"
      "\<exists>e. (unat (qp_sq qp'), e) \<in> set L1 \<and> unat (qp_sq qp') + 65536 \<le> e"
proof -
  obtain cap d1 where cap: "nvme_mmio_cap_read hw d = (cap, d1)" by (cases "nvme_mmio_cap_read hw d")
  from db cap obtain sqdb cqdb where dbs:
    "doorbell (2 * qid) (unat (nvme_reg_cap_get_dstrd cap)) = Some sqdb"
    "doorbell (2 * qid + 1) (unat (nvme_reg_cap_get_dstrd cap)) = Some cqdb"
    by (auto simp: doorbells_ok_def Let_def)
  note init = nvme_qpair_init_def cap dbs Let_def
  from live ok show thesis
  proof (cases rule: ring_cases [where dbg = dbg])
    case (fails e heap1)
    then show thesis
      by (intro that(1) [of "- e"]) (auto simp: init)
  next
    case sq: (gives sq heap1 L1)
    have ok1: "qpair_heap heap1" using ok sq(2) by (simp add: qpair_heap_same)
    from sq(4) ok1 show thesis
    proof (cases rule: ring_cases [where dbg = dbg])
      case (fails e heap2)
      from heap_free_live [OF fails(4) sq(5)] sq(6) obtain heap3 where
        "hostmem_dma_free heap2 sq = Some heap3" "heap_live heap3 L" "same_heap heap2 heap3"
        by (auto simp: hostmem_dma_free_def)
      with fails sq show thesis
        by (intro that(1) [of "- e" _ heap3]) (auto simp: init same_heap_def)
    next
      case cq: (gives cq heap2 L2)
      have ok2: "qpair_heap heap2" using ok1 cq(2) by (simp add: qpair_heap_same)
      have ne: "sq \<noteq> cq" using cq(6) sq(5) by auto
      have sq2: "unat sq \<in> fst ` set L2" using cq(6) sq(5) by force
      have both: "filter (\<lambda>x. fst x \<noteq> unat sq) (filter (\<lambda>x. fst x \<noteq> unat cq) L2) = L"
        using cq(6) sq(6) by simp
      note undo = free_both_rings [OF _ sq2 cq(5) ne both]
      show thesis
      proof (cases calloc_ok)
        case False
        obtain h1 h2 where "hostmem_dma_free heap2 sq = Some h1"
          "hostmem_dma_free h1 cq = Some h2" "heap_live h2 L" "same_heap heap2 h2" by (rule undo [OF cq(4)])
        with False sq cq show thesis
          by (intro that(1) [of "- ENOMEM" _ h2]) (auto simp: init same_heap_def)
      next
        case True
        have c: "dma_heap heap2" "unat (memsize heap2) = unat (nphys heap2) * hpg heap2" "page_bits heap2 \<le> 21"
          using ok2 by (auto simp: qpair_heap_def)
        from cq(4) c pool_init_facts(3) show thesis
        proof (cases rule: init_prps_result [where dbg = dbg])
          case (fails heap3)
          obtain h1 h2 where "hostmem_dma_free heap3 sq = Some h1"
            "hostmem_dma_free h1 cq = Some h2" "heap_live h2 L" "same_heap heap3 h2" by (rule undo [OF fails(3)])
          with True sq cq fails show thesis
            by (intro that(1) [of "- ENOMEM" _ h2]) (auto simp: init same_heap_def)
        next
          case prps: (gives heap3 pool xs e ys)
          note pool = own_pages_pool [OF prps(7) pool_init_facts(1)]
          have undone: "filter (\<lambda>x. fst x \<noteq> unat (prps pool)) (xs @ (unat (prps pool), e) # ys) = L2"
            using hostmem.taken_back [OF prps(6)] prps(4) by simp
          have same: "same_heap heap heap3" using sq(2) cq(2) prps(2) by (simp add: same_heap_def)
          have pg: "pg heap = pg heap2" using sq(2) cq(2) by (simp add: same_heap_def)
          obtain qp' d' where run:
            "nvme_qpair_init dbg hw calloc_ok qp qid depth heap d = Some (0, qp', heap3, d')"
            "qp_rpool qp' = Live pool" "qp_cq qp' = cq" "qp_sq qp' = sq" "qp_depth qp' = depth"
            "qp_tail qp' = 0" "qp_head qp' = 0" "qp_phase qp' = 1" "qp_tail_last_written qp' = UINT16_MAX"
            "qp_qid qp' = qid"
            by (simp add: init sq(1) cq(1) prps(1) True)
          show thesis
            by (rule that(2) [OF run(1) same prps(6) run(2) pool(1) _ _ undone _ _ _ _ run(5-10)])
              (use pool(2) pool_init_facts(2) cq(5-7) sq(5-7) run(3,4) prps(5) pg in auto)
        qed
      qed
    qed
  qed
qed

text \<open>C7: setting up a queue pair never goes wrong. When it fails, every byte it had allocated is
  back in the heap; when it succeeds, tearing the queue pair down gives back exactly what the
  set-up took.\<close>

theorem nvme_qpair_init_term_no_leak:
  assumes "heap_live heap L" "qpair_heap heap" "doorbells_ok hw d qid"
  shows "\<exists>ret qp' heap' d'.
    nvme_qpair_init dbg hw calloc_ok qp qid depth heap d = Some (ret, qp', heap', d') \<and> ret \<le> 0 \<and>
    (ret < 0 \<longrightarrow> heap_live heap' L) \<and>
    (ret = 0 \<longrightarrow> (\<exists>qp'' heap''. nvme_qpair_term qp' heap' = Some (qp'', heap'') \<and> heap_live heap'' L))"
  using assms
proof (cases rule: qpair_init_result [where dbg = dbg and calloc_ok = calloc_ok and qp = qp and depth = depth])
  case (fails ret qp' heap' d')
  then show ?thesis by (intro exI [of _ ret]) auto
next
  case g: (gives qp' heap' d' pool L1 L2 L3)
  from heap_free_live [OF g(3,7)] g(8) obtain h1 where h1: "hostmem_dma_free heap' (prps pool) = Some h1"
    "heap_live h1 L2" by (auto simp: hostmem_dma_free_def)
  have "qp_sq qp' \<noteq> qp_cq qp'" "unat (qp_sq qp') \<in> fst ` set L2" using g(10,11) by auto
  with hostmem.free_two [OF h1(2) _ g(9), of "qp_sq qp'"] g(10,12) obtain h2 h3 where
    "hostmem_dma_free h1 (qp_sq qp') = Some h2" "hostmem_dma_free h2 (qp_cq qp') = Some h3" "heap_live h3 L"
    by auto
  with g(1,4) h1(1) show ?thesis
    by (auto simp: nvme_qpair_term_def nvme_request_pool_term_prps_def Let_def)
qed

theorem nvme_qpair_init_term_no_leak_witness:
  "\<exists>ret qp' heap' d'. nvme_qpair_init True
     \<lparr>hw_read32 = (\<lambda>d a. (d, d)), hw_write32 = (\<lambda>d a v. d), hw_usleep = (\<lambda>d n. d),
      hw_cqe = (\<lambda>d a. (zero_completion, d)), hw_sqe = (\<lambda>d a c. d), hw_zero = (\<lambda>d a n. d),
      hw_list = (\<lambda>d a. []), hw_set_list = (\<lambda>d a l. d)\<rparr> True
     \<lparr>qp_sq = 0, qp_cq = 0, qp_sqdb = 0, qp_cqdb = 0, qp_qid = 0, qp_depth = 0, qp_tail = 0,
      qp_tail_last_written = 0, qp_head = 0, qp_phase = 0, qp_rpool = Null\<rparr>
     3 256 example_heap (0 :: u32) = Some (ret, qp', heap', d') \<and> ret \<le> 0"
proof -
  let ?hw = "\<lparr>hw_read32 = (\<lambda>d a. (d, d)), hw_write32 = (\<lambda>d a v. d), hw_usleep = (\<lambda>d n. d),
      hw_cqe = (\<lambda>d a. (zero_completion, d)), hw_sqe = (\<lambda>d a c. d), hw_zero = (\<lambda>d a n. d),
      hw_list = (\<lambda>d a. []), hw_set_list = (\<lambda>d a l. d)\<rparr> :: u32 dma_hw"
  have ok: "qpair_heap example_heap"
    using example_dma_heap
    by (simp add: qpair_heap_def example_facts) (simp add: example_heap_def example_config_def)
  have db: "doorbells_ok ?hw 0 3"
    by (simp add: doorbells_ok_def nvme_mmio_cap_read_def mmio_read64_def mmio_read32_def
        nvme_reg_cap_get_dstrd_def bitfield_get_def doorbell_def Let_def)
  show ?thesis using nvme_qpair_init_term_no_leak [OF example_heap_live ok db, of True] by metis
qed

section \<open>Completions in order\<close>

text \<open>
  The completion ring as the controller uses it: completion \<open>n\<close> goes to slot \<open>n mod D\<close> with a
  phase tag that flips with every round, and a slot keeps its entry until the next round.
\<close>

definition cq_phase :: "nat \<Rightarrow> nat \<Rightarrow> nat" where
  "cq_phase D n = (if even (n div D) then 1 else 0)"

definition slot :: "nat \<Rightarrow> nvme_completion list \<Rightarrow> nat \<Rightarrow> nvme_completion" where
  "slot D cs s = (let ns = filter (\<lambda>n. n mod D = s) [0..<length cs]
     in if ns = [] then zero_completion else cs ! last ns)"

definition posts :: "('d, 'x) dma_hw_scheme \<Rightarrow> ('d \<Rightarrow> nvme_completion list) \<Rightarrow> u64 \<Rightarrow> nat \<Rightarrow> bool" where
  "posts hw posted cq D \<longleftrightarrow>
     (\<forall>d s. s < D \<longrightarrow> hw_cqe hw d (cq + 16 * of_nat s) = (slot D (posted d) s, d)) \<and>
     (\<forall>d n. n < length (posted d) \<longrightarrow> cpl_cid (posted d ! n) < 0xFFFF \<and>
        unat (cpl_status (posted d ! n) AND 1) = cq_phase D n)"

text \<open>The host has taken \<open>k\<close> completions.\<close>

definition reaped :: "nat \<Rightarrow> nat \<Rightarrow> nvme_qpair \<Rightarrow> bool" where
  "reaped D k qp \<longleftrightarrow> unat (qp_depth qp) = D \<and> unat (qp_head qp) = k mod D \<and>
     unat (qp_phase qp) = cq_phase D k"

lemma cq_phase_less: "cq_phase D n < 2" by (simp add: cq_phase_def)

lemma reaped_advance:
  assumes "0 < D" "reaped D k qp"
  shows "reaped D (k + 1) (cq_advance qp)" "unat (qp_head (cq_advance qp)) = (k + 1) mod D"
    "qp_cqdb (cq_advance qp) = qp_cqdb qp" "qp_cq (cq_advance qp) = qp_cq qp"
    "qp_rpool (cq_advance qp) = qp_rpool qp"
proof -
  from assms(2) have r: "unat (qp_depth qp) = D" "unat (qp_head qp) = k mod D"
    "unat (qp_phase qp) = cq_phase D k" by (simp_all add: reaped_def)
  have "k mod D < D" using assms(1) by simp
  then have "unat (qp_head qp) + 1 < 2 ^ 16" using r(1,2) unat_u16_bound [of "qp_depth qp"] by simp
  then have h: "unat (qp_head qp + 1) = k mod D + 1" using r(2) by (simp add: unat_word_ariths)
  then have eq: "qp_head qp + 1 = qp_depth qp \<longleftrightarrow> k mod D + 1 = D"
    using r(1) by (simp add: word_unat_eq_iff)
  have ph: "qp_phase qp = (if even (k div D) then 1 else 0)"
    using r(3) by (simp add: cq_phase_def word_unat_eq_iff split: if_splits)
  have "reaped D (k + 1) (cq_advance qp) \<and> unat (qp_head (cq_advance qp)) = (k + 1) mod D"
  proof (cases "k mod D + 1 = D")
    case True
    then have "(k + 1) mod D = 0" "(k + 1) div D = k div D + 1"
      using assms(1) by (simp_all add: mod_Suc div_Suc)
    with True eq r(1) ph show ?thesis by (simp add: cq_advance_def Let_def reaped_def cq_phase_def)
  next
    case False
    then have "(k + 1) mod D = k mod D + 1" "(k + 1) div D = k div D"
      by (simp_all add: mod_Suc div_Suc)
    with False eq r h show ?thesis by (simp add: cq_advance_def Let_def reaped_def cq_phase_def)
  qed
  then show "reaped D (k + 1) (cq_advance qp)" "unat (qp_head (cq_advance qp)) = (k + 1) mod D" by simp_all
qed (simp_all add: cq_advance_def Let_def)

text \<open>The slot at the head holds completion \<open>k\<close> once that is posted, and an entry with the other
  phase tag before.\<close>

lemma last_filter:
  "\<lbrakk> P k; k < n; \<And>m. k < m \<Longrightarrow> m < n \<Longrightarrow> \<not> P m \<rbrakk> \<Longrightarrow>
   filter P [0..<n] \<noteq> [] \<and> last (filter P [0..<n]) = k"
proof (induction n)
  case (Suc n)
  then show ?case by (cases "k = n") auto
qed simp

lemma slot_last:
  assumes "k < length cs" "length cs \<le> k + D"
  shows "slot D cs (k mod D) = cs ! k"
proof -
  have "\<not> m mod D = k mod D" if "k < m" "m < length cs" for m
  proof
    assume "m mod D = k mod D"
    then have "D dvd m - k" using that(1) by (metis less_imp_le_nat mod_eq_dvd_iff_nat)
    moreover have "0 < m - k" "m - k < D" using that assms(2) by linarith+
    ultimately show False by (meson dvd_imp_le not_less)
  qed
  with last_filter [of "\<lambda>n. n mod D = k mod D" k "length cs"] assms(1) show ?thesis
    by (simp add: slot_def)
qed

lemma slot_stale:
  assumes "0 < D" "\<And>n. n < length cs \<Longrightarrow> unat (cpl_status (cs ! n) AND 1) = cq_phase D n"
  shows "unat (cpl_status (slot D cs (length cs mod D)) AND 1) \<noteq> cq_phase D (length cs)"
proof (cases "D \<le> length cs")
  case True
  let ?k = "length cs - D"
  have "slot D cs (?k mod D) = cs ! ?k" using True assms(1) by (intro slot_last) simp_all
  moreover have "?k mod D = length cs mod D" using True by (simp add: mod_if le_mod_geq)
  moreover have "length cs div D = ?k div D + 1" using True assms(1) by (simp add: le_div_geq)
  ultimately show ?thesis
    using assms(2) [of ?k] True assms(1) by (simp add: cq_phase_def split: if_splits)
next
  case False
  then have "slot D cs (length cs mod D) = zero_completion" by (auto simp: slot_def filter_empty_conv)
  with False show ?thesis by (simp add: zero_completion_def cq_phase_def)
qed

text \<open>The device after \<open>i\<close> polls that found nothing.\<close>

definition after :: "('d, 'x) hw_scheme \<Rightarrow> 'd \<Rightarrow> nat \<Rightarrow> 'd" where
  "after hw d i = ((\<lambda>d. hw_usleep hw d 1000) ^^ i) d"

lemma after_simps [simp]: "after hw d 0 = d" "after hw d (Suc i) = after hw (hw_usleep hw d 1000) i"
  by (simp_all add: after_def funpow_Suc_right del: funpow.simps(2))

lemma reap_loop_in_order:
  assumes p: "posts hw posted (qp_cq qp) D" and D: "0 < D" "D \<le> 4096" and r: "reaped D k qp"
  shows "\<forall>i < n. k \<le> length (posted (after hw d i)) \<and> length (posted (after hw d i)) \<le> k + D \<Longrightarrow>
    ((\<forall>i < n. length (posted (after hw d i)) = k) \<longrightarrow>
       reap_loop hw qp n cpl d = Some (- EAGAIN, qp, cpl, after hw d n)) \<and>
    (\<forall>i < n. k < length (posted (after hw d i)) \<and> (\<forall>j < i. length (posted (after hw d j)) = k) \<longrightarrow>
       reap_loop hw qp n cpl d = Some (0, cq_advance qp, posted (after hw d i) ! k,
         hw_write32 hw (after hw d i) (qp_cqdb qp) (of_nat ((k + 1) mod D))))"
proof (induction n arbitrary: d)
  case 0
  then show ?case by simp
next
  case (Suc n)
  from r have head: "unat (qp_head qp) = k mod D" and ph: "unat (qp_phase qp) = cq_phase D k"
    by (simp_all add: reaped_def)
  have kD: "k mod D < D" using D(1) by simp
  have uh: "(ucast (qp_head qp) :: u64) = of_nat (k mod D)"
    using head by (metis of_nat_unat)
  have addr: "cqe_addr qp = Some (qp_cq qp + 16 * of_nat (k mod D))"
  proof -
    have "unat (16 * (of_nat (k mod D) + 1) :: u64) = 16 * (k mod D + 1)"
      using kD D(2) by (simp add: unat_word_ariths unat_of_nat take_bit_eq_mod)
    then have "\<not> QPAIR_NBYTES < 16 * (of_nat (k mod D) + 1)"
      using kD D(2) by (simp add: QPAIR_NBYTES_def word_less_nat_alt)
    then show ?thesis by (simp add: cqe_addr_def uh)
  qed
  have cqe: "hw_cqe hw d (qp_cq qp + 16 * of_nat (k mod D)) = (slot D (posted d) (k mod D), d)" for d
    using p kD by (simp add: posts_def)
  have len: "k \<le> length (posted d)" "length (posted d) \<le> k + D" using Suc.prems by auto
  have rest: "\<forall>i < n. k \<le> length (posted (after hw (hw_usleep hw d 1000) i)) \<and>
      length (posted (after hw (hw_usleep hw d 1000) i)) \<le> k + D" using Suc.prems by auto
  let ?s = "slot D (posted d) (k mod D)"
  have u8: "(ucast (w AND 1 :: u16) :: u8) = qp_phase qp \<longleftrightarrow> unat (w AND 1) = cq_phase D k" for w
    using ph cq_phase_less [of D k]
    by (cases "even w") (auto simp: and_one_eq mod_2_eq_odd word_unat_eq_iff)
  show ?case
  proof (cases "length (posted d) = k")
    case True
    have "unat (cpl_status ?s AND 1) \<noteq> cq_phase D k"
      using slot_stale [OF D(1), of "posted d"] p True by (auto simp: posts_def)
    then have step: "reap_loop hw qp (Suc n) cpl d = reap_loop hw qp n cpl (hw_usleep hw d 1000)"
      by (simp add: addr cqe u8)
    show ?thesis unfolding step
      using Suc.IH [OF rest] True by (simp add: All_less_Suc2)
  next
    case False
    with len have lt: "k < length (posted d)" by simp
    have s: "?s = posted d ! k" by (rule slot_last [OF lt len(2)])
    have "cpl_cid ?s < 0xFFFF" "unat (cpl_status ?s AND 1) = cq_phase D k"
      using p lt unfolding s posts_def by blast+
    then have step: "reap_loop hw qp (Suc n) cpl d = Some (0, cq_advance qp, posted d ! k,
        hw_write32 hw d (qp_cqdb qp) (of_nat ((k + 1) mod D)))"
      using reaped_advance [OF D(1) r]
      by (simp add: addr cqe u8 s mmio_write32_def) (metis of_nat_unat)
    show ?thesis unfolding step using False by (simp add: All_less_Suc2)
  qed
qed

text \<open>C5: if the controller posts completions the way NVMe prescribes (in slot order, with a phase
  tag that flips every round, never more than one round ahead), then, however the polls and the
  posts interleave, a poll that finds the next completion returns exactly that one, advances
  head and phase past it and writes the new head to the doorbell, and it reports \<open>-EAGAIN\<close>
  exactly when nothing was posted in time; so completions are neither lost, repeated nor
  reordered.\<close>

theorem nvme_qpair_reap_in_order:
  assumes "posts hw posted (qp_cq qp) D" "0 < D" "D \<le> 4096" "reaped D k qp"
    and "\<forall>i < nat timeout_ms. k \<le> length (posted (after hw d i)) \<and> length (posted (after hw d i)) \<le> k + D"
  shows "((\<forall>i < nat timeout_ms. length (posted (after hw d i)) = k) \<longrightarrow>
      nvme_qpair_reap_cpl hw qp timeout_ms cpl d = Some (- EAGAIN, qp, cpl, after hw d (nat timeout_ms))) \<and>
    (\<forall>i < nat timeout_ms. k < length (posted (after hw d i)) \<and> (\<forall>j < i. length (posted (after hw d j)) = k) \<longrightarrow>
      nvme_qpair_reap_cpl hw qp timeout_ms cpl d = Some (0, cq_advance qp, posted (after hw d i) ! k,
        hw_write32 hw (after hw d i) (qp_cqdb qp) (of_nat ((k + 1) mod D))) \<and>
      reaped D (k + 1) (cq_advance qp))"
  using reap_loop_in_order [OF assms(1-4), of "nat timeout_ms" d cpl] reaped_advance(1) [OF assms(2,4)] assms(5)
  unfolding nvme_qpair_reap_cpl_def by blast

text \<open>A controller that posts one completion per poll, on a ring of two slots at \<open>0x1000\<close>.\<close>

definition example_cpl :: "nat \<Rightarrow> nvme_completion" where
  "example_cpl n = zero_completion\<lparr>cpl_cid := of_nat (n mod 1024), cpl_status := of_nat (cq_phase 2 n)\<rparr>"

definition example_ctrlr :: "nat dma_hw" where
  "example_ctrlr = \<lparr>hw_read32 = (\<lambda>d a. (0, d)), hw_write32 = (\<lambda>d a v. d), hw_usleep = (\<lambda>d n. Suc d),
     hw_cqe = (\<lambda>d a. (slot 2 (map example_cpl [0..<d]) (unat (a - 0x1000) div 16), d)),
     hw_sqe = (\<lambda>d a c. d), hw_zero = (\<lambda>d a n. d), hw_list = (\<lambda>d a. replicate 512 0),
     hw_set_list = (\<lambda>d a l. d)\<rparr>"

definition example_qpair :: nvme_qpair where
  "example_qpair = \<lparr>qp_sq = 0x40001000, qp_cq = 0x1000, qp_sqdb = 0x1000, qp_cqdb = 0x1004, qp_qid = 0,
     qp_depth = 2, qp_tail = 0, qp_tail_last_written = UINT16_MAX, qp_head = 0, qp_phase = 1,
     qp_rpool = Live (nvme_request_pool_init zero_pool)\<rparr>"

lemma example_posts: "posts example_ctrlr (\<lambda>d. map example_cpl [0..<d]) (qp_cq example_qpair) 2"
proof -
  have "unat (16 * of_nat s :: u64) div 16 = s" if "s < 2" for s
    using that by (auto simp: less_2_cases_iff)
  then have "hw_cqe example_ctrlr d (qp_cq example_qpair + 16 * of_nat s) = (slot 2 (map example_cpl [0..<d]) s, d)"
    if "s < 2" for d s using that by (simp add: example_ctrlr_def example_qpair_def)
  moreover have "cpl_cid (example_cpl n) < 0xFFFF \<and> unat (cpl_status (example_cpl n) AND 1) = cq_phase 2 n" for n
  proof -
    have "unat (of_nat (n mod 1024) :: u16) = n mod 1024"
      by (simp add: unat_of_nat take_bit_eq_mod)
    moreover have "n mod 1024 < 1024" by simp
    ultimately have "(of_nat (n mod 1024) :: u16) < 0xFFFF" by (simp add: word_less_nat_alt)
    then show ?thesis by (simp add: example_cpl_def cq_phase_def and_one_eq mod_2_eq_odd)
  qed
  ultimately show ?thesis by (simp add: posts_def)
qed

lemma example_after: "after example_ctrlr d i = d + i"
  by (induction i arbitrary: d) (simp_all add: example_ctrlr_def)

theorem nvme_qpair_reap_in_order_witness:
  "nvme_qpair_reap_cpl example_ctrlr example_qpair 2 zero_completion 0 =
     Some (0, cq_advance example_qpair, example_cpl 0, hw_write32 example_ctrlr 1 0x1004 1) \<and>
   reaped 2 1 (cq_advance example_qpair)"
proof -
  have r: "reaped 2 0 example_qpair" by (simp add: reaped_def example_qpair_def cq_phase_def)
  have "\<forall>i < nat 2. 0 \<le> length (map example_cpl [0..<after example_ctrlr 0 i]) \<and>
      length (map example_cpl [0..<after example_ctrlr 0 i]) \<le> 0 + 2" by (simp add: example_after)
  from nvme_qpair_reap_in_order [OF example_posts _ _ r this, of zero_completion] show ?thesis
    by (simp add: example_after numeral_2_eq_2 All_less_Suc2 example_qpair_def)
qed

section \<open>The submission doorbell\<close>

text \<open>after an update the doorbell register of the submission queue holds the tail, whether
  or not the write was elided, as long as the remembered value is what the register holds or
  nothing was ever written; a second update writes nothing.\<close>

theorem nvme_qpair_sqdb_update_rings:
  assumes "plain_registers hw" "qp_tail qp \<noteq> UINT16_MAX"
    and "qp_tail_last_written qp = UINT16_MAX \<or>
      fst (hw_read32 hw d (qp_sqdb qp)) = ucast (qp_tail_last_written qp)"
  shows "let (qp', d') = nvme_qpair_sqdb_update hw qp d in
    fst (hw_read32 hw d' (qp_sqdb qp)) = ucast (qp_tail qp) \<and> qp_tail_last_written qp' = qp_tail qp \<and>
    qp_tail qp' = qp_tail qp \<and> nvme_qpair_sqdb_update hw qp' d' = (qp', d')"
  using assms plain_read_write [OF assms(1), of d "qp_sqdb qp" "ucast (qp_tail qp)" "qp_sqdb qp"]
  by (auto simp: nvme_qpair_sqdb_update_def mmio_write32_def)

theorem nvme_qpair_sqdb_update_rings_witness:
  "snd (nvme_qpair_sqdb_update memory_hw (example_qpair\<lparr>qp_tail := 1\<rparr>) (\<lambda>_. 0)) 0x1000 = 1"
  using nvme_qpair_sqdb_update_rings [OF memory_hw_plain, of "example_qpair\<lparr>qp_tail := 1\<rparr>" "\<lambda>_. 0"]
  by (simp add: example_qpair_def UINT16_MAX_def memory_hw_def case_prod_beta Let_def)

end
