(* ===== verification/Nvme_Submit.thy ===== *)
theory Nvme_Submit
  imports Nvme_Qpair_Props
begin

unbundle bit_operations_syntax

text \<open>
  Synchronous submissions over the lifetime of a queue pair: command identifiers are conserved
  as long as the controller answers in time, and lost one by one when it does not.
\<close>

section \<open>One submission\<close>

definition qp_ok :: "nvme_qpair \<Rightarrow> bool" where
  "qp_ok qp \<longleftrightarrow> 0 < unat (qp_depth qp) \<and> unat (qp_depth qp) \<le> 1024 \<and>
     unat (qp_tail qp) < unat (qp_depth qp) \<and> unat (qp_head qp) < unat (qp_depth qp)"

lemma sqe_addr_ok:
  assumes "qp_ok qp"
  shows "sqe_addr qp = Some (qp_sq qp + 64 * ucast (qp_tail qp))"
proof -
  have t: "unat (qp_tail qp) < 1024" using assms by (simp add: qp_ok_def)
  have u: "(ucast (qp_tail qp) :: u64) = of_nat (unat (qp_tail qp))" by simp
  have "unat (64 * (of_nat (unat (qp_tail qp)) + 1) :: u64) = 64 * (unat (qp_tail qp) + 1)"
    using t by (simp only: unat_word_ariths unat_of_nat take_bit_eq_mod) simp
  then have "\<not> QPAIR_NBYTES < 64 * (ucast (qp_tail qp) + 1)"
    using t unfolding u by (simp add: QPAIR_NBYTES_def word_less_nat_alt)
  then show ?thesis by (simp add: sqe_addr_def)
qed

text \<open>The queue pair as the poll of a submission finds it.\<close>

definition enqueued :: "nvme_qpair \<Rightarrow> nvme_request_pool \<Rightarrow> nvme_qpair" where
  "enqueued qp pool = qp\<lparr>qp_rpool := Live pool,
     qp_tail := of_nat ((unat (qp_tail qp) + 1) mod unat (qp_depth qp)),
     qp_tail_last_written := of_nat ((unat (qp_tail qp) + 1) mod unat (qp_depth qp))\<rparr>"

lemma enqueued_simps [simp]:
  "qp_sq (enqueued qp pool) = qp_sq qp" "qp_cq (enqueued qp pool) = qp_cq qp"
  "qp_depth (enqueued qp pool) = qp_depth qp" "qp_head (enqueued qp pool) = qp_head qp"
  "qp_phase (enqueued qp pool) = qp_phase qp" "qp_rpool (enqueued qp pool) = Live pool"
  "qp_cqdb (enqueued qp pool) = qp_cqdb qp"
  by (simp_all add: enqueued_def)

lemma enqueued_ok: "qp_ok qp \<Longrightarrow> qp_ok (enqueued qp pool)"
proof -
  assume ok: "qp_ok qp"
  then have m: "(unat (qp_tail qp) + 1) mod unat (qp_depth qp) < unat (qp_depth qp)" by (simp add: qp_ok_def)
  then have "unat (of_nat ((unat (qp_tail qp) + 1) mod unat (qp_depth qp)) :: u16) =
      (unat (qp_tail qp) + 1) mod unat (qp_depth qp)"
    using unat_u16_bound [of "qp_depth qp"] by (simp add: unat_of_nat take_bit_eq_mod)
  with ok m show ?thesis by (simp add: qp_ok_def enqueued_def)
qed

lemma sqdb_update_enqueued:
  obtains d3 where
    "nvme_qpair_sqdb_update hw (qp\<lparr>qp_rpool := Live pool,
       qp_tail := of_nat ((unat (qp_tail qp) + 1) mod unat (qp_depth qp))\<rparr>) d = (enqueued qp pool, d3)"
    "d3 = d \<or> (\<exists>v. d3 = hw_write32 hw d (qp_sqdb qp) v)"
    "qp_tail (enqueued qp pool) \<noteq> qp_tail_last_written qp \<longrightarrow> d3 = hw_write32 hw d (qp_sqdb qp) (ucast (qp_tail (enqueued qp pool)))"
  by (cases "of_nat ((unat (qp_tail qp) + 1) mod unat (qp_depth qp)) = qp_tail_last_written qp")
    (auto simp: nvme_qpair_sqdb_update_def enqueued_def mmio_write32_def)

lemma submit_sync_run:
  assumes ok: "qp_ok qp" and pool: "qp_rpool qp = Live pool" "pool_wf pool" "0 < top pool"
  obtains cid d2 d3 where "cid \<in> free_cids pool"
    "free_cids (pool\<lparr>top := top pool - 1\<rparr>) = free_cids pool - {cid}" "pool_wf (pool\<lparr>top := top pool - 1\<rparr>)"
    "d2 = hw_sqe hw d (qp_sq qp + 64 * ucast (qp_tail qp)) (cmd\<lparr>cmd_cid := of_nat cid\<rparr>)"
    "d3 = d2 \<or> (\<exists>v. d3 = hw_write32 hw d2 (qp_sqdb qp) v)"
    "qp_tail (enqueued qp pool) \<noteq> qp_tail_last_written qp \<longrightarrow> d3 = hw_write32 hw d2 (qp_sqdb qp) (ucast (qp_tail (enqueued qp pool)))"
    "nvme_qpair_submit_sync dbg hw qp cmd timeout_ms cpl d = do {
       (err, qp4, cpl1, d4) \<leftarrow> nvme_qpair_reap_cpl hw (enqueued qp (pool\<lparr>top := top pool - 1\<rparr>)) timeout_ms cpl d3;
       if err \<noteq> 0 then Some (- err, qp4, cmd\<lparr>cmd_cid := of_nat cid\<rparr>, cpl1, d4)
       else do {
         pool2 \<leftarrow> nvme_request_free dbg (pool\<lparr>top := top pool - 1\<rparr>) (of_nat cid);
         Some (if cpl_status cpl1 AND 0x1FE \<noteq> 0 then - EIO else 0,
           qp4\<lparr>qp_rpool := Live pool2\<rparr>, cmd\<lparr>cmd_cid := of_nat cid\<rparr>, cpl1, d4) } }"
proof -
  define pool1 where "pool1 = pool\<lparr>top := top pool - 1\<rparr>"
  from nvme_request_alloc_pops [OF pool(2,3), of dbg, folded pool1_def] obtain cid where
    al: "nvme_request_alloc dbg pool = Some (Inr cid, pool1)" and cid: "cid \<in> free_cids pool"
    and wf1: "free_cids pool1 = free_cids pool - {cid}" "pool_wf pool1" by blast
  have lt: "cid < NVME_REQUEST_POOL_LEN" using cid pool(2) by (auto simp: pool_wf_def all_cids_def)
  then have req: "array_get (reqs pool1) cid = Some (reqs pool ! cid)" "req_cid (reqs pool ! cid) = of_nat cid"
    using pool(2) by (simp_all add: pool_wf_def pool1_def)
  let ?d2 = "hw_sqe hw d (qp_sq qp + 64 * ucast (qp_tail qp)) (cmd\<lparr>cmd_cid := of_nat cid\<rparr>)"
  obtain d3 where d3: "nvme_qpair_sqdb_update hw (qp\<lparr>qp_rpool := Live pool1,
       qp_tail := of_nat ((unat (qp_tail qp) + 1) mod unat (qp_depth qp))\<rparr>) ?d2 = (enqueued qp pool1, d3)"
    "d3 = ?d2 \<or> (\<exists>v. d3 = hw_write32 hw ?d2 (qp_sqdb qp) v)"
    "qp_tail (enqueued qp pool1) \<noteq> qp_tail_last_written qp \<longrightarrow> d3 = hw_write32 hw ?d2 (qp_sqdb qp) (ucast (qp_tail (enqueued qp pool1)))"
    by (rule sqdb_update_enqueued)
  have tail: "qp_tail (enqueued qp pool1) = qp_tail (enqueued qp pool)" by (simp add: enqueued_def)
  have "qp_depth qp \<noteq> 0" using ok by (auto simp: qp_ok_def)
  then have enq: "nvme_qpair_enqueue hw (qp\<lparr>qp_rpool := Live pool1\<rparr>) (cmd\<lparr>cmd_cid := of_nat cid\<rparr>) d =
      Some (0, qp\<lparr>qp_rpool := Live pool1,
        qp_tail := of_nat ((unat (qp_tail qp) + 1) mod unat (qp_depth qp))\<rparr>, ?d2)"
    using sqe_addr_ok [OF ok] by (simp add: nvme_qpair_enqueue_def sqe_addr_def split: if_splits)
  have "nvme_qpair_submit_sync dbg hw qp cmd timeout_ms cpl d = do {
       (err, qp4, cpl1, d4) \<leftarrow> nvme_qpair_reap_cpl hw (enqueued qp pool1) timeout_ms cpl d3;
       if err \<noteq> 0 then Some (- err, qp4, cmd\<lparr>cmd_cid := of_nat cid\<rparr>, cpl1, d4)
       else do {
         pool2 \<leftarrow> nvme_request_free dbg pool1 (of_nat cid);
         Some (if cpl_status cpl1 AND 0x1FE \<noteq> 0 then - EIO else 0,
           qp4\<lparr>qp_rpool := Live pool2\<rparr>, cmd\<lparr>cmd_cid := of_nat cid\<rparr>, cpl1, d4) } }"
    by (simp add: nvme_qpair_submit_sync_def submit_sync_with_def pool(1) al req enq
        d3(1) [unfolded Suc_eq_plus1 [symmetric]] Let_def cong del: if_weak_cong)
  from that [OF cid wf1 [unfolded pool1_def] refl d3(2) d3(3) [unfolded tail] this [unfolded pool1_def]] show thesis .
qed

lemma cqe_addr_ok:
  assumes "qp_ok qp"
  shows "cqe_addr qp = Some (qp_cq qp + 16 * ucast (qp_head qp))"
proof -
  have h: "unat (qp_head qp) < 1024" using assms by (simp add: qp_ok_def)
  have u: "(ucast (qp_head qp) :: u64) = of_nat (unat (qp_head qp))" by simp
  have "unat (16 * (of_nat (unat (qp_head qp)) + 1) :: u64) = 16 * (unat (qp_head qp) + 1)"
    using h by (simp only: unat_word_ariths unat_of_nat take_bit_eq_mod) simp
  then have "\<not> QPAIR_NBYTES < 16 * (ucast (qp_head qp) + 1)"
    using h unfolding u by (simp add: QPAIR_NBYTES_def word_less_nat_alt)
  then show ?thesis by (simp add: cqe_addr_def)
qed

text \<open>No operation but set-up and tear-down changes where the rings are.\<close>

definition same_rings :: "nvme_qpair \<Rightarrow> nvme_qpair \<Rightarrow> bool" where
  "same_rings qp qp' \<longleftrightarrow> qp_sq qp' = qp_sq qp \<and> qp_cq qp' = qp_cq qp \<and> qp_qid qp' = qp_qid qp \<and> qp_depth qp' = qp_depth qp"

text \<open>Whatever the device answers, a poll ends with a completion or with \<open>-EAGAIN\<close>.\<close>

lemma cq_advance_ok:
  assumes "qp_ok qp"
  shows "qp_ok (cq_advance qp)" "qp_rpool (cq_advance qp) = qp_rpool qp" "same_rings qp (cq_advance qp)"
proof -
  have h: "unat (qp_head qp) < unat (qp_depth qp)" "unat (qp_depth qp) \<le> 1024"
    using assms by (simp_all add: qp_ok_def)
  then have "unat (qp_head qp + 1) = unat (qp_head qp) + 1" by (simp add: unat_word_ariths)
  with h have "qp_head qp + 1 \<noteq> qp_depth qp \<Longrightarrow> unat (qp_head qp + 1) < unat (qp_depth qp)"
    using word_unat_eq_iff [of "qp_head qp + 1" "qp_depth qp"] by linarith
  with assms show "qp_ok (cq_advance qp)" by (simp add: qp_ok_def cq_advance_def Let_def)
  show "qp_rpool (cq_advance qp) = qp_rpool qp" "same_rings qp (cq_advance qp)"
    by (simp_all add: cq_advance_def same_rings_def Let_def)
qed

lemma reap_loop_outcomes:
  assumes "qp_ok qp"
  shows "\<exists>err qp' cpl' d'. reap_loop hw qp n cpl d = Some (err, qp', cpl', d') \<and> err \<in> {0, - EAGAIN} \<and>
    qp_ok qp' \<and> qp_rpool qp' = qp_rpool qp \<and> same_rings qp qp'"
proof (induction n arbitrary: d)
  case 0
  show ?case using assms by (simp add: same_rings_def)
next
  case (Suc n)
  then show ?case
    using cq_advance_ok [OF assms]
    by (simp add: cqe_addr_ok [OF assms] case_prod_beta Let_def)
qed

section \<open>Every controller\<close>

lemma submit_outcomes:
  assumes "qp_ok qp" "qp_rpool qp = Live pool" "pool_wf pool" "0 < top pool"
  obtains ret qp' cmd' cpl' d' pool' where
    "nvme_qpair_submit_sync dbg hw qp cmd timeout_ms cpl d = Some (ret, qp', cmd', cpl', d')"
    "ret \<in> {0, - EIO, EAGAIN}" "qp_ok qp'" "qp_rpool qp' = Live pool'" "pool_wf pool'"
    "top pool' = (if ret = EAGAIN then top pool - 1 else top pool)" "same_rings qp qp'" "prps pool' = prps pool"
proof -
  let ?pool1 = "pool\<lparr>top := top pool - 1\<rparr>"
  obtain cid d3 where c: "cid \<in> free_cids pool" "free_cids ?pool1 = free_cids pool - {cid}" "pool_wf ?pool1"
    "nvme_qpair_submit_sync dbg hw qp cmd timeout_ms cpl d = do {
       (err, qp4, cpl1, d4) \<leftarrow> nvme_qpair_reap_cpl hw (enqueued qp ?pool1) timeout_ms cpl d3;
       if err \<noteq> 0 then Some (- err, qp4, cmd\<lparr>cmd_cid := of_nat cid\<rparr>, cpl1, d4)
       else do {
         pool2 \<leftarrow> nvme_request_free dbg ?pool1 (of_nat cid);
         Some (if cpl_status cpl1 AND 0x1FE \<noteq> 0 then - EIO else 0,
           qp4\<lparr>qp_rpool := Live pool2\<rparr>, cmd\<lparr>cmd_cid := of_nat cid\<rparr>, cpl1, d4) } }"
    by (rule submit_sync_run [OF assms, of hw d cmd dbg timeout_ms cpl])
  have "cid \<in> all_cids" using c(1) assms(3) by (auto simp: pool_wf_def)
  then have u: "unat (of_nat cid :: u16) = cid" by (simp add: unat_of_nat_cid all_cids_iff)
  obtain pool2 where f: "nvme_request_free dbg ?pool1 (of_nat cid) = Some pool2" "pool_wf pool2"
      "top pool2 = top pool" "prps pool2 = prps pool"
    using nvme_request_free_pushes [OF c(3), of "of_nat cid" dbg] c(2) u \<open>cid \<in> all_cids\<close> assms(4) by auto
  obtain err qp4 cpl1 d4 where r: "nvme_qpair_reap_cpl hw (enqueued qp ?pool1) timeout_ms cpl d3 = Some (err, qp4, cpl1, d4)"
      "err \<in> {0, - EAGAIN}" "qp_ok qp4" "qp_rpool qp4 = Live ?pool1" "same_rings qp qp4"
    using reap_loop_outcomes [OF enqueued_ok [OF assms(1)], of hw ?pool1 "nat timeout_ms" cpl d3]
    by (auto simp: nvme_qpair_reap_cpl_def same_rings_def enqueued_def)
  show thesis
  proof (cases "err = 0")
    case True
    have "qp_ok (qp4\<lparr>qp_rpool := Live pool2\<rparr>)" using r(3) by (simp add: qp_ok_def)
    with True f r(1,5) c(4) show ?thesis
      by (intro that [of "if cpl_status cpl1 AND 0x1FE \<noteq> 0 then - EIO else 0"
          "qp4\<lparr>qp_rpool := Live pool2\<rparr>" "cmd\<lparr>cmd_cid := of_nat cid\<rparr>" cpl1 d4 pool2]) (auto simp: same_rings_def)
  next
    case False
    with r c(3,4) show ?thesis
      by (intro that [of EAGAIN qp4 "cmd\<lparr>cmd_cid := of_nat cid\<rparr>" cpl1 d4 ?pool1]) auto
  qed
qed

fun submit_all ::
  "bool \<Rightarrow> ('d, 'x) dma_hw_scheme \<Rightarrow> int \<Rightarrow> nvme_command list \<Rightarrow> nvme_qpair \<Rightarrow> 'd \<Rightarrow>
   (int list \<times> nvme_qpair \<times> 'd) option" where
  "submit_all dbg hw timeout_ms [] qp d = Some ([], qp, d)"
| "submit_all dbg hw timeout_ms (cmd # cmds) qp d = do {
     (ret, qp', cmd', cpl, d') \<leftarrow> nvme_qpair_submit_sync dbg hw qp cmd timeout_ms zero_completion d;
     (rets, qp'', d'') \<leftarrow> submit_all dbg hw timeout_ms cmds qp' d';
     Some (ret # rets, qp'', d'') }"



section \<open>A controller that does not answer\<close>

text \<open>No entry of the ring ever carries the phase tag the host waits for.\<close>

definition silent :: "('d, 'x) dma_hw_scheme \<Rightarrow> u8 \<Rightarrow> bool" where
  "silent hw phase \<longleftrightarrow> (\<forall>d a. ucast (cpl_status (fst (hw_cqe hw d a)) AND 1) \<noteq> phase)"

lemma reap_silent:
  assumes "silent hw (qp_phase qp)" "qp_ok qp"
  shows "\<exists>d'. reap_loop hw qp n cpl d = Some (- EAGAIN, qp, cpl, d')"
proof (induction n arbitrary: d)
  case (Suc n)
  show ?case
    using assms(1) Suc.IH by (simp add: cqe_addr_ok [OF assms(2)] silent_def case_prod_beta Let_def)
qed simp

lemma submit_timeout:
  assumes "silent hw (qp_phase qp)" "qp_ok qp" "qp_rpool qp = Live pool" "pool_wf pool" "0 < top pool"
  obtains qp' cmd' d' pool' where
    "nvme_qpair_submit_sync dbg hw qp cmd timeout_ms cpl d = Some (EAGAIN, qp', cmd', cpl, d')"
    "qp_ok qp'" "qp_phase qp' = qp_phase qp" "qp_rpool qp' = Live pool'" "pool_wf pool'"
    "top pool' = top pool - 1"
proof -
  let ?pool1 = "pool\<lparr>top := top pool - 1\<rparr>"
  obtain cid d3 where c: "pool_wf ?pool1"
    "nvme_qpair_submit_sync dbg hw qp cmd timeout_ms cpl d = do {
       (err, qp4, cpl1, d4) \<leftarrow> nvme_qpair_reap_cpl hw (enqueued qp ?pool1) timeout_ms cpl d3;
       if err \<noteq> 0 then Some (- err, qp4, cmd\<lparr>cmd_cid := of_nat cid\<rparr>, cpl1, d4)
       else do {
         pool2 \<leftarrow> nvme_request_free dbg ?pool1 (of_nat cid);
         Some (if cpl_status cpl1 AND 0x1FE \<noteq> 0 then - EIO else 0,
           qp4\<lparr>qp_rpool := Live pool2\<rparr>, cmd\<lparr>cmd_cid := of_nat cid\<rparr>, cpl1, d4) } }"
    by (rule submit_sync_run [OF assms(2-5)])
  have ok: "qp_ok (enqueued qp ?pool1)" by (rule enqueued_ok [OF assms(2)])
  obtain d' where "nvme_qpair_reap_cpl hw (enqueued qp ?pool1) timeout_ms cpl d3 =
      Some (- EAGAIN, enqueued qp ?pool1, cpl, d')"
    using reap_silent [OF _ ok, of hw "nat timeout_ms" cpl d3] assms(1) by (auto simp: nvme_qpair_reap_cpl_def)
  then show thesis using c ok by (intro that [of "enqueued qp ?pool1" _ d' ?pool1]) simp_all
qed

text \<open>C31: every submission that times out returns the positive \<open>EAGAIN\<close>, not the negative code
  its contract announces, and keeps its command identifier: after as many timeouts as there
  were identifiers, the next submission stops a debug build and fails with \<open>-ENOMEM\<close> in a
  release build, although nothing is in flight that the host could still wait for.\<close>

theorem nvme_qpair_submit_timeouts_exhaust:
  assumes "silent hw (qp_phase qp)" "qp_ok qp" "qp_rpool qp = Live pool" "pool_wf pool"
    and "length cmds = card (free_cids pool)"
  shows "\<exists>qp' d'. submit_all dbg hw timeout_ms cmds qp d =
      Some (replicate (card (free_cids pool)) EAGAIN, qp', d') \<and>
    nvme_qpair_submit_sync True hw qp' cmd timeout_ms cpl d' = None \<and>
    nvme_qpair_submit_sync False hw qp' cmd timeout_ms cpl d' = Some (- ENOMEM, qp', cmd, cpl, d')"
proof -
  have "\<exists>qp' d' pool'. submit_all dbg hw timeout_ms cmds qp d =
        Some (replicate (length cmds) EAGAIN, qp', d') \<and> qp_rpool qp' = Live pool' \<and> top pool' = 0"
    using assms(1-4) assms(5) [unfolded card_free_cids [OF assms(4)]]
  proof (induction cmds arbitrary: qp pool d)
    case (Cons c cmds)
    have "0 < top pool" using Cons.prems(5) by simp
    with Cons.prems(1-4) obtain qp1 c1 d1 pool1 where
      s: "nvme_qpair_submit_sync dbg hw qp c timeout_ms zero_completion d = Some (EAGAIN, qp1, c1, zero_completion, d1)"
      "qp_ok qp1" "qp_phase qp1 = qp_phase qp" "qp_rpool qp1 = Live pool1" "pool_wf pool1"
      "top pool1 = top pool - 1" by (rule submit_timeout)
    have "silent hw (qp_phase qp1)" "length cmds = top pool1" using Cons.prems(1,5) s(3,6) by simp_all
    from Cons.IH [OF this(1) s(2,4,5) this(2), of d1] obtain qp' d' pool' where
      "submit_all dbg hw timeout_ms cmds qp1 d1 = Some (replicate (length cmds) EAGAIN, qp', d')"
      "qp_rpool qp' = Live pool'" "top pool' = 0" by blast
    then show ?case by (simp add: s(1))
  qed simp
  then obtain qp' d' pool' where r: "submit_all dbg hw timeout_ms cmds qp d =
        Some (replicate (length cmds) EAGAIN, qp', d')" "qp_rpool qp' = Live pool'" "top pool' = 0" by blast
  then show ?thesis
    by (simp add: assms(5) nvme_qpair_submit_sync_def submit_sync_with_def nvme_request_alloc_def)
qed

theorem nvme_qpair_submit_timeouts_exhaust_witness:
  "\<exists>qp' d'. submit_all False (example_ctrlr\<lparr>hw_cqe := (\<lambda>d a. (zero_completion, d))\<rparr>) 10
       (replicate 1024 zero_command) example_qpair 0 = Some (replicate 1024 EAGAIN, qp', d')"
proof -
  let ?p = "nvme_request_pool_init zero_pool"
  have "card (free_cids ?p) = 1024"
    using pool_init_facts(2) by (simp add: all_cids_def NVME_REQUEST_POOL_LEN_def)
  moreover have "silent (example_ctrlr\<lparr>hw_cqe := (\<lambda>d a. (zero_completion, d))\<rparr>) (qp_phase example_qpair)"
    "qp_ok example_qpair" "qp_rpool example_qpair = Live ?p"
    by (simp_all add: silent_def zero_completion_def qp_ok_def example_qpair_def)
  ultimately have "length (replicate 1024 zero_command) = card (free_cids ?p)"
    "silent (example_ctrlr\<lparr>hw_cqe := (\<lambda>d a. (zero_completion, d))\<rparr>) (qp_phase example_qpair)"
    "qp_ok example_qpair" "qp_rpool example_qpair = Live ?p" and c: "card (free_cids ?p) = 1024" by simp_all
  from nvme_qpair_submit_timeouts_exhaust [OF this(2-4) pool_init_facts(1) this(1), of False 10 0 zero_command zero_completion]
  show ?thesis unfolding c by blast
qed

end
