(* ===== verification/Os.thy ===== *)
theory Os
  imports Upcie_Prelude
begin

text \<open>
  The calls into the C library, the kernel and the GPU driver that the dma-buf, device-memory and
  PCI headers make. They are not under \<open>src/\<close>: a record of functions on a state \<open>'k\<close> of the
  outside world stands for them, and every operation that makes such a call takes the record as a
  parameter and passes the state on. A failing call is \<open>Inl\<close> of the error it reports (\<open>errno\<close>, or
  the driver's result code), a succeeding one \<open>Inr\<close> of its value.
\<close>

record 'k os =
  os_malloc :: "'k \<Rightarrow> bool \<times> 'k"            \<comment> \<open>\<open>malloc\<close> or \<open>calloc\<close>: whether it gives memory\<close>
  os_open :: "'k \<Rightarrow> string \<Rightarrow> (int + int) \<times> 'k"
  os_close :: "'k \<Rightarrow> int \<Rightarrow> 'k"

record 'k dmabuf_os = "'k os" +
  udmabuf_attach :: "'k \<Rightarrow> int \<Rightarrow> int \<Rightarrow> (int + u32) \<times> 'k"   \<comment> \<open>gives the number of entries\<close>
  udmabuf_get_map :: "'k \<Rightarrow> int \<Rightarrow> int \<Rightarrow> u32 \<Rightarrow> (int + (u64 \<times> u64) list) \<times> 'k"
  udmabuf_detach :: "'k \<Rightarrow> int \<Rightarrow> int \<Rightarrow> (int + unit) \<times> 'k"

record 'k gpu_os = "'k dmabuf_os" +
  gpu_alloc :: "'k \<Rightarrow> u64 \<Rightarrow> (int + u64) \<times> 'k"
  gpu_free :: "'k \<Rightarrow> u64 \<Rightarrow> 'k"
  gpu_export :: "'k \<Rightarrow> u64 \<Rightarrow> u64 \<Rightarrow> (int + int) \<times> 'k"       \<comment> \<open>a dma-buf of an address range\<close>

record 'k map_os = "'k gpu_os" +
  os_mmap :: "'k \<Rightarrow> u64 \<Rightarrow> bool \<times> 'k"          \<comment> \<open>anonymous pages, zero when first read\<close>
  os_munmap :: "'k \<Rightarrow> u64 \<Rightarrow> 'k"

text \<open>The resources a program holds in the outside world, and what the calls do to them.\<close>

definition os_lawful :: "('k, 'x) os_scheme \<Rightarrow> ('k \<Rightarrow> int set) \<Rightarrow> bool" where
  "os_lawful os fds \<longleftrightarrow>
     (\<forall>k. fds (snd (os_malloc os k)) = fds k) \<and>
     (\<forall>k path. case fst (os_open os k path) of
        Inl e \<Rightarrow> 0 < e \<and> fds (snd (os_open os k path)) = fds k
      | Inr fd \<Rightarrow> 0 \<le> fd \<and> fd \<notin> fds k \<and> fds (snd (os_open os k path)) = insert fd (fds k)) \<and>
     (\<forall>k fd. fds (os_close os k fd) = fds k - {fd})"

definition dmabuf_lawful :: "('k, 'x) dmabuf_os_scheme \<Rightarrow> ('k \<Rightarrow> int set) \<Rightarrow> bool" where
  "dmabuf_lawful os fds \<longleftrightarrow> os_lawful os fds \<and>
     (\<forall>k u f. fds (snd (udmabuf_attach os k u f)) = fds k \<and>
        (\<forall>e. fst (udmabuf_attach os k u f) = Inl e \<longrightarrow> 0 < e)) \<and>
     (\<forall>k u f n. fds (snd (udmabuf_get_map os k u f n)) = fds k \<and>
        (case fst (udmabuf_get_map os k u f n) of Inl e \<Rightarrow> 0 < e | Inr es \<Rightarrow> length es \<le> unat n)) \<and>
     (\<forall>k u f. fds (snd (udmabuf_detach os k u f)) = fds k \<and>
        (\<forall>e. fst (udmabuf_detach os k u f) = Inl e \<longrightarrow> 0 < e))"

definition gpu_lawful :: "('k, 'x) gpu_os_scheme \<Rightarrow> ('k \<Rightarrow> int set) \<Rightarrow> ('k \<Rightarrow> u64 set) \<Rightarrow> bool" where
  "gpu_lawful os fds mem \<longleftrightarrow> dmabuf_lawful os fds \<and>
     (\<forall>k n. case fst (gpu_alloc os k n) of
        Inl e \<Rightarrow> 0 < e \<and> fds (snd (gpu_alloc os k n)) = fds k \<and> mem (snd (gpu_alloc os k n)) = mem k
      | Inr a \<Rightarrow> a \<notin> mem k \<and> fds (snd (gpu_alloc os k n)) = fds k \<and>
          mem (snd (gpu_alloc os k n)) = insert a (mem k)) \<and>
     (\<forall>k a. fds (gpu_free os k a) = fds k \<and> mem (gpu_free os k a) = mem k - {a}) \<and>
     (\<forall>k a n. mem (snd (gpu_export os k a n)) = mem k \<and>
        (case fst (gpu_export os k a n) of
           Inl e \<Rightarrow> 0 < e \<and> fds (snd (gpu_export os k a n)) = fds k
         | Inr fd \<Rightarrow> 0 \<le> fd \<and> fd \<notin> fds k \<and> fds (snd (gpu_export os k a n)) = insert fd (fds k))) \<and>
     (\<forall>k. mem (snd (os_malloc os k)) = mem k) \<and> (\<forall>k p. mem (snd (os_open os k p)) = mem k) \<and>
     (\<forall>k f. mem (os_close os k f) = mem k) \<and>
     (\<forall>k u f. mem (snd (udmabuf_attach os k u f)) = mem k) \<and>
     (\<forall>k u f n. mem (snd (udmabuf_get_map os k u f n)) = mem k) \<and>
     (\<forall>k u f. mem (snd (udmabuf_detach os k u f)) = mem k)"

lemma os_lawfulD:
  assumes "os_lawful os fds"
  shows "fds (snd (os_malloc os k)) = fds k" "fds (os_close os k fd) = fds k - {fd}"
    "os_open os k path = (Inl e, k') \<Longrightarrow> 0 < e \<and> fds k' = fds k"
    "os_open os k path = (Inr fd, k') \<Longrightarrow> 0 \<le> fd \<and> fd \<notin> fds k \<and> fds k' = insert fd (fds k)"
proof -
  show "fds (snd (os_malloc os k)) = fds k" "fds (os_close os k fd) = fds k - {fd}"
    using assms by (simp_all add: os_lawful_def)
  have "case fst (os_open os k path) of Inl e \<Rightarrow> 0 < e \<and> fds (snd (os_open os k path)) = fds k
      | Inr fd \<Rightarrow> 0 \<le> fd \<and> fd \<notin> fds k \<and> fds (snd (os_open os k path)) = insert fd (fds k)"
    using assms by (simp add: os_lawful_def)
  then show "os_open os k path = (Inl e, k') \<Longrightarrow> 0 < e \<and> fds k' = fds k"
    "os_open os k path = (Inr fd, k') \<Longrightarrow> 0 \<le> fd \<and> fd \<notin> fds k \<and> fds k' = insert fd (fds k)" by simp_all
qed

end
