(* ===== verification/Dmabuf.thy ===== *)
theory Dmabuf
  imports Os
begin

text \<open>
  Physical addresses from a dma-buf, \<open>include/upcie/dmabuf.h\<close>: attaching to a dma-buf through
  \<open>/dev/udmabuf\<close> (the variant for kernels that support it), detaching, and the lookup table.
  \<open>dm_pages\<close> is the array \<open>pages\<close> of address and length, empty when it is \<open>NULL\<close>.
\<close>

section \<open>Attaching\<close>

record dmabuf =
  dm_fd :: int
  dm_npages :: nat
  dm_pages :: "(u64 \<times> u64) list"

definition no_dmabuf :: dmabuf where
  "no_dmabuf = \<lparr>dm_fd = 0, dm_npages = 0, dm_pages = []\<rparr>"

definition UDMABUF_PATH :: string where "UDMABUF_PATH = ''/dev/udmabuf''"

text \<open>Leaving through \<open>exit\<close> closes the descriptor of the device.\<close>

definition attach_mapped ::
  "('k, 'x) dmabuf_os_scheme \<Rightarrow> int \<Rightarrow> int \<Rightarrow> u32 \<Rightarrow> dmabuf \<Rightarrow> 'k \<Rightarrow> (int \<times> dmabuf \<times> 'k) option" where
  "attach_mapped os udmabuf_fd dmabuf_fd cnt dmabuf k =
     (let (ok, k1) = os_malloc os k in
      if \<not> ok then Some (- ENOMEM, dmabuf, snd (udmabuf_detach os k1 udmabuf_fd dmabuf_fd))
      else case udmabuf_get_map os k1 udmabuf_fd dmabuf_fd cnt of
        (Inl e, k2) \<Rightarrow> Some (- e, dmabuf, snd (udmabuf_detach os k2 udmabuf_fd dmabuf_fd))
      | (Inr entries, k2) \<Rightarrow>
          if unat cnt < length entries then None
          else let (ok, k3) = os_malloc os k2 in
            if \<not> ok then Some (- ENOMEM,
              \<lparr>dm_fd = dmabuf_fd, dm_npages = length entries, dm_pages = []\<rparr>,
              snd (udmabuf_detach os k3 udmabuf_fd dmabuf_fd))
            else Some (0, \<lparr>dm_fd = dmabuf_fd, dm_npages = length entries, dm_pages = entries\<rparr>, k3))"

definition dmabuf_attach ::
  "('k, 'x) dmabuf_os_scheme \<Rightarrow> int \<Rightarrow> dmabuf \<Rightarrow> 'k \<Rightarrow> (int \<times> dmabuf \<times> 'k) option" where
  "dmabuf_attach os dmabuf_fd dmabuf k =
     (case os_open os k UDMABUF_PATH of
        (Inl e, k1) \<Rightarrow> Some (- e, dmabuf, k1)
      | (Inr udmabuf_fd, k1) \<Rightarrow> do {
          (err, dmabuf', k2) \<leftarrow>
            (case udmabuf_attach os k1 udmabuf_fd dmabuf_fd of
               (Inl e, k2) \<Rightarrow> Some (- e, dmabuf, k2)
             | (Inr cnt, k2) \<Rightarrow> attach_mapped os udmabuf_fd dmabuf_fd cnt dmabuf k2);
          Some (err, dmabuf', os_close os k2 udmabuf_fd) })"

definition dmabuf_detach :: "('k, 'x) dmabuf_os_scheme \<Rightarrow> dmabuf \<Rightarrow> 'k \<Rightarrow> int \<times> 'k" where
  "dmabuf_detach os dmabuf k =
     (case os_open os k UDMABUF_PATH of
        (Inl e, k1) \<Rightarrow> (- e, k1)
      | (Inr udmabuf_fd, k1) \<Rightarrow>
          let (r, k2) = udmabuf_detach os k1 udmabuf_fd (dm_fd dmabuf);
              err = (case r of Inl e \<Rightarrow> - e | Inr u \<Rightarrow> 0)
          in (err, os_close os (os_close os k2 (dm_fd dmabuf)) udmabuf_fd))"

section \<open>The lookup table\<close>

text \<open>The inner loop, \<open>left\<close> iterations of which remain; \<open>None\<close> in the first component is going
  on, \<open>Some\<close> the return from the function.\<close>

primrec lut_entry ::
  "u64 \<Rightarrow> u64 \<Rightarrow> u64 \<Rightarrow> nat \<Rightarrow> u64 \<Rightarrow> u64 \<Rightarrow> u64 list \<Rightarrow> (int option \<times> u64 \<times> u64 list) option" where
  "lut_entry nphys page_size addr 0 k i lut = Some (None, i, lut)"
| "lut_entry nphys page_size addr (Suc left) k i lut =
     (if nphys \<le> i then Some (Some (- EINVAL), i, lut)
      else do {
        lut' \<leftarrow> array_set lut (unat i) (addr + k * page_size);
        lut_entry nphys page_size addr left (k + 1) (i + 1) lut' })"

fun lut_entries ::
  "u64 \<Rightarrow> u64 \<Rightarrow> (u64 \<times> u64) option list \<Rightarrow> u64 \<Rightarrow> u64 list \<Rightarrow> (int \<times> u64 list) option" where
  "lut_entries nphys page_size [] i lut = Some (if i \<noteq> nphys then - EINVAL else 0, lut)"
| "lut_entries nphys page_size (p # ps) i lut = do {
     (addr, len) \<leftarrow> p;
     if page_size = 0 then None
     else do {
       (r, i', lut') \<leftarrow> lut_entry nphys page_size addr (unat (len div page_size)) 0 i lut;
       case r of Some err \<Rightarrow> Some (err, lut') | None \<Rightarrow> lut_entries nphys page_size ps i' lut' } }"

definition dmabuf_get_lut :: "dmabuf \<Rightarrow> u64 \<Rightarrow> u64 list \<Rightarrow> u64 \<Rightarrow> (int \<times> u64 list) option" where
  "dmabuf_get_lut dmabuf nphys phys_lut page_size =
     lut_entries nphys page_size (map (array_get (dm_pages dmabuf)) [0..<dm_npages dmabuf]) 0 phys_lut"

section \<open>What the table holds\<close>

definition dmabuf_ok :: "dmabuf \<Rightarrow> bool" where
  "dmabuf_ok dmabuf \<longleftrightarrow> dm_npages dmabuf = length (dm_pages dmabuf)"

text \<open>The physical pages of a dma-buf, entry by entry.\<close>

definition entry_pages :: "u64 \<Rightarrow> u64 \<times> u64 \<Rightarrow> u64 list" where
  "entry_pages page_size p = map (\<lambda>k. fst p + of_nat k * page_size) [0..<unat (snd p) div unat page_size]"

definition dmabuf_phys :: "u64 \<Rightarrow> dmabuf \<Rightarrow> u64 list" where
  "dmabuf_phys page_size dmabuf = concat (map (entry_pages page_size) (dm_pages dmabuf))"

lemma lut_entry_fits:
  "unat i + left \<le> unat nphys \<Longrightarrow> length lut = unat nphys \<Longrightarrow>
   lut_entry nphys page_size addr left k i lut = Some (None, i + of_nat left,
     take (unat i) lut @ map (\<lambda>j. addr + (k + of_nat j) * page_size) [0..<left] @ drop (unat i + left) lut)"
proof (induction left arbitrary: k i lut)
  case (Suc left)
  have lt: "unat i < unat nphys" using Suc.prems(1) by linarith
  then have i: "\<not> nphys \<le> i" by (simp add: word_le_nat_alt)
  have i1: "unat (i + 1) = unat i + 1" by (rule unat_suc_u64 [OF lt])
  let ?lut = "lut[unat i := addr + k * page_size]"
  have "take (unat i + 1) ?lut = take (unat i) lut @ [addr + k * page_size]"
    using lt Suc.prems(2) by (simp add: take_Suc_conv_app_nth)
  moreover have "drop (unat i + 1 + left) ?lut = drop (unat i + 1 + left) lut" by simp
  moreover have "map (\<lambda>j. addr + (k + of_nat j) * page_size) [0..<Suc left] =
      (addr + k * page_size) # map (\<lambda>j. addr + (k + 1 + of_nat j) * page_size) [0..<left]"
    by (subst upt_conv_Cons) (simp_all add: map_Suc_upt [symmetric] add.assoc del: upt_Suc)
  ultimately show ?case
    using Suc.IH [of "i + 1" ?lut "k + 1"] Suc.prems lt i by (simp add: i1 del: upt_Suc)
qed simp

lemma lut_entry_full:
  "unat nphys < unat i + left \<Longrightarrow> unat i \<le> unat nphys \<Longrightarrow> length lut = unat nphys \<Longrightarrow>
   \<exists>i' lut'. lut_entry nphys page_size addr left k i lut = Some (Some (- EINVAL), i', lut')"
proof (induction left arbitrary: k i lut)
  case (Suc left)
  show ?case
  proof (cases "nphys \<le> i")
    case False
    then have lt: "unat i < unat nphys" by (simp add: word_le_nat_alt)
    then have "unat (i + 1) = unat i + 1" by (rule unat_suc_u64)
    with Suc.IH [of "i + 1" "lut[unat i := addr + k * page_size]" "k + 1"] Suc.prems lt False show ?thesis by simp
  qed simp
qed simp

lemma lut_entries_result:
  assumes "page_size \<noteq> 0" "unat i \<le> unat nphys" "length lut = unat nphys"
  shows "if unat i + length (concat (map (entry_pages page_size) ps)) = unat nphys
    then lut_entries nphys page_size (map Some ps) i lut =
      Some (0, take (unat i) lut @ concat (map (entry_pages page_size) ps))
    else \<exists>lut'. lut_entries nphys page_size (map Some ps) i lut = Some (- EINVAL, lut')"
  using assms(2,3)
proof (induction ps arbitrary: i lut)
  case Nil
  then show ?case by (auto simp: u64_eq_iff)
next
  case (Cons p ps)
  obtain addr len where p: "p = (addr, len)" by (cases p)
  let ?n = "unat len div unat page_size"
  have n: "unat (len div page_size) = ?n" by (simp add: unat_div)
  have e: "entry_pages page_size p = map (\<lambda>j. addr + (0 + of_nat j) * page_size) [0..<?n]"
    by (simp add: entry_pages_def p)
  show ?case
  proof (cases "unat i + ?n \<le> unat nphys")
    case True
    let ?lut = "take (unat i) lut @ entry_pages page_size p @ drop (unat i + ?n) lut"
    have step: "lut_entry nphys page_size addr ?n 0 i lut = Some (None, i + of_nat ?n, ?lut)"
      unfolding e by (rule lut_entry_fits [OF True Cons.prems(2)])
    have "?n < 2 ^ 64" using True unat_u64_bound [of nphys] by linarith
    then have i': "unat (i + of_nat ?n) = unat i + ?n"
      using True unat_u64_bound [of nphys] by (simp add: unat_add_u64 unat_of_nat_u64)
    have len: "length ?lut = unat nphys" using Cons.prems True by (simp add: entry_pages_def p)
    have tk: "take (unat i + ?n) ?lut = take (unat i) lut @ entry_pages page_size p"
      using Cons.prems by (simp add: entry_pages_def p)
    have "lut_entries nphys page_size (map Some (p # ps)) i lut =
        lut_entries nphys page_size (map Some ps) (i + of_nat ?n) ?lut"
      using assms(1) step by (simp add: p n)
    moreover have "concat (map (entry_pages page_size) (p # ps)) =
        entry_pages page_size p @ concat (map (entry_pages page_size) ps)" by simp
    moreover have "length (entry_pages page_size p) = ?n" by (simp add: entry_pages_def p)
    ultimately show ?thesis
      using Cons.IH [of "i + of_nat ?n" ?lut, unfolded i' tk, OF True len]
      by (simp only: append_assoc length_append add.assoc)
  next
    case False
    with lut_entry_full [of nphys i ?n lut page_size addr 0] Cons.prems
    obtain i' lut' where "lut_entry nphys page_size addr ?n 0 i lut = Some (Some (- EINVAL), i', lut')" by auto
    then have "lut_entries nphys page_size (map Some (p # ps)) i lut = Some (- EINVAL, lut')"
      using assms(1) by (simp add: p n)
    with False show ?thesis by (auto simp: entry_pages_def p)
  qed
qed

lemma get_lut_result:
  assumes "dmabuf_ok dmabuf" "page_size \<noteq> 0" "length lut = unat nphys"
  shows "if length (dmabuf_phys page_size dmabuf) = unat nphys
    then dmabuf_get_lut dmabuf nphys lut page_size = Some (0, dmabuf_phys page_size dmabuf)
    else \<exists>lut'. dmabuf_get_lut dmabuf nphys lut page_size = Some (- EINVAL, lut')"
proof -
  have "map (array_get (dm_pages dmabuf)) [0..<dm_npages dmabuf] = map Some (dm_pages dmabuf)"
    using assms(1) by (intro nth_equalityI) (simp_all add: dmabuf_ok_def)
  then show ?thesis
    using lut_entries_result [OF assms(2), of 0 nphys lut "dm_pages dmabuf"] assms(3)
    by (simp add: dmabuf_get_lut_def dmabuf_phys_def)
qed

text \<open>C33: the lookup table of a dma-buf lists the physical address of each of its pages in order,
  however many pages an entry covers; a dma-buf with more or fewer pages than the table has
  slots is refused with \<open>-EINVAL\<close>, and no store goes outside the table.\<close>

theorem dmabuf_get_lut_lists_pages:
  assumes "dmabuf_ok dmabuf" "page_size \<noteq> 0" "length lut = unat nphys"
  shows "if length (dmabuf_phys page_size dmabuf) = unat nphys
    then dmabuf_get_lut dmabuf nphys lut page_size = Some (0, dmabuf_phys page_size dmabuf)
    else \<exists>lut'. dmabuf_get_lut dmabuf nphys lut page_size = Some (- EINVAL, lut')"
  by (rule get_lut_result [OF assms])

theorem dmabuf_get_lut_lists_pages_witness:
  "dmabuf_get_lut \<lparr>dm_fd = 3, dm_npages = 2, dm_pages = [(0x10000, 0x2000), (0x80000, 0x1000)]\<rparr> 3
     (replicate 3 0) 0x1000 = Some (0, [0x10000, 0x11000, 0x80000])"
  using dmabuf_get_lut_lists_pages
    [of "\<lparr>dm_fd = 3, dm_npages = 2, dm_pages = [(0x10000, 0x2000), (0x80000, 0x1000)]\<rparr>" "0x1000" "replicate 3 0" 3]
  by (simp add: dmabuf_ok_def dmabuf_phys_def entry_pages_def upt_rec)

section \<open>File descriptors\<close>

lemma dmabuf_lawfulD:
  assumes "dmabuf_lawful os fds"
  shows "os_lawful os fds"
    "udmabuf_attach os k u f = (Inl e, k') \<Longrightarrow> 0 < e" "fds (snd (udmabuf_attach os k u f)) = fds k"
    "udmabuf_get_map os k u f n = (Inl e, k') \<Longrightarrow> 0 < e"
    "udmabuf_get_map os k u f n = (Inr es, k') \<Longrightarrow> length es \<le> unat n"
    "fds (snd (udmabuf_get_map os k u f n)) = fds k"
    "udmabuf_detach os k u f = (Inl e, k') \<Longrightarrow> 0 < e" "fds (snd (udmabuf_detach os k u f)) = fds k"
proof -
  show "os_lawful os fds" "fds (snd (udmabuf_attach os k u f)) = fds k"
    "fds (snd (udmabuf_get_map os k u f n)) = fds k" "fds (snd (udmabuf_detach os k u f)) = fds k"
    using assms by (simp_all add: dmabuf_lawful_def)
  show "udmabuf_attach os k u f = (Inl e, k') \<Longrightarrow> 0 < e" "udmabuf_detach os k u f = (Inl e, k') \<Longrightarrow> 0 < e"
    using assms unfolding dmabuf_lawful_def by (metis fst_conv)+
  have "case fst (udmabuf_get_map os k u f n) of Inl e \<Rightarrow> 0 < e | Inr es \<Rightarrow> length es \<le> unat n"
    using assms by (simp add: dmabuf_lawful_def)
  then show "udmabuf_get_map os k u f n = (Inl e, k') \<Longrightarrow> 0 < e"
    "udmabuf_get_map os k u f n = (Inr es, k') \<Longrightarrow> length es \<le> unat n" by simp_all
qed

text \<open>Attaching leaves no descriptor of \<open>/dev/udmabuf\<close> behind, whatever fails.\<close>

lemma dmabuf_attach_result:
  assumes "dmabuf_lawful os fds"
  obtains err buf k' where "dmabuf_attach os fd d k = Some (err, buf, k')" "fds k' = fds k" "err \<le> 0"
    "err = 0 \<Longrightarrow> dmabuf_ok buf \<and> dm_fd buf = fd"
proof -
  note law = dmabuf_lawfulD [OF assms] and os = os_lawfulD [OF dmabuf_lawfulD(1) [OF assms]]
  obtain r k1 where o1: "os_open os k UDMABUF_PATH = (r, k1)" by (cases "os_open os k UDMABUF_PATH")
  show thesis
  proof (cases r)
    case (Inl e)
    with o1 os(3) [of k UDMABUF_PATH e k1] show thesis
      by (intro that [of "- e" d k1]) (auto simp: dmabuf_attach_def)
  next
    case (Inr u)
    with o1 os(4) [of k UDMABUF_PATH u k1] have u: "u \<notin> fds k" "fds k1 = insert u (fds k)" by simp_all
    have "\<exists>err buf k2. (case udmabuf_attach os k1 u fd of (Inl e, k2) \<Rightarrow> Some (- e, d, k2)
        | (Inr cnt, k2) \<Rightarrow> attach_mapped os u fd cnt d k2) = Some (err, buf, k2) \<and> fds k2 = fds k1 \<and>
      err \<le> 0 \<and> (err = 0 \<longrightarrow> dmabuf_ok buf \<and> dm_fd buf = fd)"
    proof (cases "udmabuf_attach os k1 u fd")
      case (Pair a k2)
      have k2: "fds k2 = fds k1" using law(3) [of k1 u fd] Pair by simp
      show ?thesis
      proof (cases a)
        case (Inl e)
        with law(2) [of k1 u fd e k2] Pair k2 show ?thesis by simp
      next
        case (Inr cnt)
        obtain ok k3 where m: "os_malloc os k2 = (ok, k3)" by (cases "os_malloc os k2")
        have k3: "fds k3 = fds k2" using os(1) [of k2] m by simp
        obtain g k4 where g: "udmabuf_get_map os k3 u fd cnt = (g, k4)" by (cases "udmabuf_get_map os k3 u fd cnt")
        have k4: "fds k4 = fds k3" using law(6) [of k3 u fd cnt] g by simp
        obtain ok' k5 where m': "os_malloc os k4 = (ok', k5)" by (cases "os_malloc os k4")
        have k5: "fds k5 = fds k4" using os(1) [of k4] m' by simp
        have gl: "g = Inl e \<Longrightarrow> 0 < e" "g = Inr es \<Longrightarrow> length es \<le> unat cnt" for e es
          using law(4) [of k3 u fd cnt e k4] law(5) [of k3 u fd cnt es k4] g by simp_all
        show ?thesis
          using Pair Inr k2 k3 k4 k5 m g m' gl law(8)
          by (cases g) (auto simp: attach_mapped_def dmabuf_ok_def)
      qed
    qed
    then obtain err buf k2 where b: "(case udmabuf_attach os k1 u fd of (Inl e, k2) \<Rightarrow> Some (- e, d, k2)
        | (Inr cnt, k2) \<Rightarrow> attach_mapped os u fd cnt d k2) = Some (err, buf, k2)" "fds k2 = fds k1"
      "err \<le> 0" "err = 0 \<longrightarrow> dmabuf_ok buf \<and> dm_fd buf = fd" by blast
    have "dmabuf_attach os fd d k = Some (err, buf, os_close os k2 u)"
      using o1 Inr b(1) by (simp add: dmabuf_attach_def)
    moreover have "fds (os_close os k2 u) = fds k" using os(2) [of k2 u] b(2) u by simp
    ultimately show thesis using b(3,4) by (intro that) blast+
  qed
qed

lemma dmabuf_detach_result:
  assumes "dmabuf_lawful os fds"
  obtains (detached) err k' where "dmabuf_detach os d k = (err, k')" "fds k' = fds k - {dm_fd d}" "err \<le> 0"
    | (leaked) e k1 where "os_open os k UDMABUF_PATH = (Inl e, k1)" "dmabuf_detach os d k = (- e, k1)"
      "fds k1 = fds k" "0 < e"
proof -
  note law = dmabuf_lawfulD [OF assms] and os = os_lawfulD [OF dmabuf_lawfulD(1) [OF assms]]
  obtain r k1 where o1: "os_open os k UDMABUF_PATH = (r, k1)" by (cases "os_open os k UDMABUF_PATH")
  show thesis
  proof (cases r)
    case (Inl e)
    with o1 os(3) [of k UDMABUF_PATH e k1] show thesis
      by (intro leaked [of e k1]) (auto simp: dmabuf_detach_def)
  next
    case (Inr u)
    with o1 os(4) [of k UDMABUF_PATH u k1] have u: "u \<notin> fds k" "fds k1 = insert u (fds k)" by simp_all
    obtain x k2 where x: "udmabuf_detach os k1 u (dm_fd d) = (x, k2)" by (cases "udmabuf_detach os k1 u (dm_fd d)")
    have "fds k2 = fds k1" using law(8) [of k1 u "dm_fd d"] x by simp
    then have "fds (os_close os (os_close os k2 (dm_fd d)) u) = fds k - {dm_fd d}" using u by (auto simp: os(2))
    moreover have "x = Inl e \<Longrightarrow> 0 < e" for e using law(7) [of k1 u "dm_fd d" e k2] x by simp
    ultimately show thesis using o1 Inr x
      by (intro detached [of "case x of Inl e \<Rightarrow> - e | Inr v \<Rightarrow> 0" "os_close os (os_close os k2 (dm_fd d)) u"])
        (auto simp: dmabuf_detach_def less_imp_le split: sum.split)
  qed
qed

end
