(* ===== verification/Cudamem_Heap.thy ===== *)
theory Cudamem_Heap
  imports Dmabuf Util
begin

unbundle bit_operations_syntax

text \<open>
  The heap on GPU memory of \<open>include/upcie/cudamem_heap.h\<close>, the interface on top of it of
  \<open>include/upcie/cudamem_dma.h\<close>, and the configuration record of \<open>include/upcie/cudamem_config.h\<close>.

  The block descriptors are host objects that only the free list points to: the list is an
  Isabelle list, and the loops that follow and rewrite \<open>next\<close> pointers are recursions that
  return the list rewritten. A \<open>malloc\<close> of a descriptor may fail.
\<close>

section \<open>Data\<close>

record cudamem_config =
  dc_pagesize :: int
  dc_pagesize_shift :: int
  dc_device_pagesize :: int
  dc_device_pagesize_shift :: int
  dc_device_memsize :: u64
  dc_bar1_size :: u64
  dc_alloc_granularity :: u64
  dc_alloc_granularity_shift :: int

record cudamem_heap_block =
  db_vaddr :: u64
  db_size :: u64
  db_free :: bool

record cudamem_heap =
  dh_vaddr :: u64
  dh_freelist :: "cudamem_heap_block list"
  dh_dmabuf :: dmabuf
  dh_config :: cudamem_config
  dh_size :: u64
  dh_nphys :: u64
  dh_phys_lut :: "u64 list"

section \<open>Release\<close>

fun device_free_loop :: "u64 \<Rightarrow> cudamem_heap_block list \<Rightarrow> cudamem_heap_block list" where
  "device_free_loop vaddr (b # n # rest) =
     (let b' = (if db_vaddr b = vaddr then b\<lparr>db_free := True\<rparr> else b);
          n' = (if db_vaddr b \<noteq> vaddr \<and> db_vaddr n = vaddr then n\<lparr>db_free := True\<rparr> else n)
      in if db_free b' \<and> db_free n'
         then device_free_loop vaddr (b'\<lparr>db_size := db_size b' + db_size n'\<rparr> # rest)
         else b' # device_free_loop vaddr (n' # rest))"
| "device_free_loop vaddr [b] = [if db_vaddr b = vaddr then b\<lparr>db_free := True\<rparr> else b]"
| "device_free_loop vaddr [] = []"

definition cudamem_heap_block_free :: "cudamem_heap \<Rightarrow> u64 \<Rightarrow> cudamem_heap" where
  "cudamem_heap_block_free heap ptr =
     (if ptr = 0 then heap else heap\<lparr>dh_freelist := device_free_loop ptr (dh_freelist heap)\<rparr>)"

section \<open>Allocation\<close>

text \<open>The bytes before a device page boundary that do not make up an element.\<close>

definition page_misfit :: "u64 \<Rightarrow> u64 \<Rightarrow> u64 \<Rightarrow> cudamem_heap_block \<Rightarrow> u64 \<times> u64" where
  "page_misfit base dpage elem_size b =
     (let offset = db_vaddr b - base; dpage_remaining = dpage - offset mod dpage
      in (dpage_remaining, dpage_remaining mod elem_size))"

lemma page_misfit_decreases:
  assumes "total_size \<le> db_size b" "(rem, dis) = page_misfit base dpage elem_size b"
    "rem < total_size" "dis \<noteq> 0"
  shows "unat (db_size b - dis) < unat (db_size b)"
proof -
  have "unat dis \<le> unat rem" using assms(2) by (auto simp: page_misfit_def Let_def unat_mod)
  also have "unat rem < unat (db_size b)" using assms(1,3) by (simp add: word_le_nat_alt word_less_nat_alt)
  finally have "unat dis < unat (db_size b)" .
  moreover have "0 < unat dis" using assms(4) by (simp add: unat_gt_0)
  ultimately show ?thesis by (simp add: unat_sub_u64)
qed

function (sequential) device_alloc_loop ::
  "('k, 'x) os_scheme \<Rightarrow> u64 \<Rightarrow> u64 \<Rightarrow> u64 \<Rightarrow> u64 \<Rightarrow> cudamem_heap_block list \<Rightarrow> 'k \<Rightarrow>
   (int + u64) \<times> cudamem_heap_block list \<times> 'k"
where
  "device_alloc_loop os base dpage total_size elem_size [] k = (Inl ENOMEM, [], k)"
| "device_alloc_loop os base dpage total_size elem_size (b # bs) k =
     (if db_free b \<and> total_size \<le> db_size b then
        (let (dpage_remaining, disalignment) = page_misfit base dpage elem_size b in
         if dpage_remaining < total_size \<and> disalignment \<noteq> 0 then
           (let (ok, k1) = os_malloc os k in
            if \<not> ok then (Inl ENOMEM, b # bs, k1)
            else
              let newblock = \<lparr>db_vaddr = db_vaddr b + disalignment,
                              db_size = db_size b - disalignment, db_free = True\<rparr>;
                  (r, bs', k2) = device_alloc_loop os base dpage total_size elem_size (newblock # bs) k1
              in (r, b\<lparr>db_size := disalignment\<rparr> # bs', k2))
         else
           let remaining = db_size b - total_size in
           if remaining \<noteq> 0 then
             (let (ok, k1) = os_malloc os k in
              if \<not> ok then (Inl ENOMEM, b # bs, k1)
              else
                let newblock = \<lparr>db_vaddr = db_vaddr b + total_size, db_size = remaining, db_free = True\<rparr>
                in (Inr (db_vaddr b), b\<lparr>db_size := total_size, db_free := False\<rparr> # newblock # bs, k1))
           else (Inr (db_vaddr b), b\<lparr>db_free := False\<rparr> # bs, k))
      else
        let (r, bs', k1) = device_alloc_loop os base dpage total_size elem_size bs k
        in (r, b # bs', k1))"
  by pat_completeness auto

termination
  by (relation "measure (\<lambda>(os, base, dpage, total_size, elem_size, bs, k).
      sum_list (map (\<lambda>b. Suc (unat (db_size b))) bs))")
    (use page_misfit_decreases in \<open>fastforce simp: less_Suc_eq_le [symmetric]\<close>)+

text \<open>A page size of 0 is refused by the first check, so the loop does not divide by it.\<close>

definition cudamem_heap_block_alloc_array_aligned ::
  "('k, 'x) os_scheme \<Rightarrow> cudamem_heap \<Rightarrow> u64 \<Rightarrow> u64 \<Rightarrow> u64 \<Rightarrow> 'k \<Rightarrow>
   ((int + u64) \<times> cudamem_heap \<times> 'k) option" where
  "cudamem_heap_block_alloc_array_aligned os heap elem_count elem_size alignment k =
     (if elem_size = 0 then None
      else if SIZE_MAX div elem_size < elem_count then Some (Inl EINVAL, heap, k)
      else
        let total_size = elem_count * elem_size;
            dpage = size_of_int (dc_device_pagesize (dh_config heap))
        in if dpage < elem_size \<or> (dpage < total_size \<and> dpage mod elem_size \<noteq> 0)
           then Some (Inl ENOMEM, heap, k)
           else
             let total_size = (total_size + alignment - 1) AND NOT (alignment - 1);
                 (r, bs, k') = device_alloc_loop os (dh_vaddr heap) dpage total_size elem_size
                                 (dh_freelist heap) k
             in Some (r, heap\<lparr>dh_freelist := bs\<rparr>, k'))"

definition cudamem_heap_block_alloc_array ::
  "('k, 'x) os_scheme \<Rightarrow> cudamem_heap \<Rightarrow> u64 \<Rightarrow> u64 \<Rightarrow> 'k \<Rightarrow>
   ((int + u64) \<times> cudamem_heap \<times> 'k) option" where
  "cudamem_heap_block_alloc_array os heap elem_count elem_size k =
     cudamem_heap_block_alloc_array_aligned os heap elem_count elem_size
       (size_of_int (dc_pagesize (dh_config heap))) k"

definition cudamem_heap_block_alloc_aligned ::
  "('k, 'x) os_scheme \<Rightarrow> cudamem_heap \<Rightarrow> u64 \<Rightarrow> u64 \<Rightarrow> 'k \<Rightarrow>
   ((int + u64) \<times> cudamem_heap \<times> 'k) option" where
  "cudamem_heap_block_alloc_aligned os heap sz alignment k =
     (let pg = size_of_int (dc_pagesize (dh_config heap)) in
      if pg = 0 then None
      else
        let total_size = (sz + pg - 1) AND size_of_int (NOT (dc_pagesize (dh_config heap) - 1));
            elem_count = total_size div pg;
            elem_size = pg
        in cudamem_heap_block_alloc_array_aligned os heap elem_count elem_size alignment k)"

definition cudamem_heap_block_alloc ::
  "('k, 'x) os_scheme \<Rightarrow> cudamem_heap \<Rightarrow> u64 \<Rightarrow> 'k \<Rightarrow> ((int + u64) \<times> cudamem_heap \<times> 'k) option" where
  "cudamem_heap_block_alloc os heap sz k =
     cudamem_heap_block_alloc_aligned os heap sz (size_of_int (dc_pagesize (dh_config heap))) k"

section \<open>Translation\<close>

definition cudamem_heap_contains :: "cudamem_heap \<Rightarrow> u64 \<Rightarrow> bool" where
  "cudamem_heap_contains heap vaddr \<longleftrightarrow>
     dh_vaddr heap \<le> vaddr \<and> vaddr < dh_vaddr heap + dh_size heap"

definition cudamem_heap_block_virt_to_phys :: "cudamem_heap \<Rightarrow> u64 \<Rightarrow> (int + u64) option" where
  "cudamem_heap_block_virt_to_phys heap vaddr =
     (if dh_phys_lut heap = [] \<or> vaddr = 0 then Some (Inl (- EINVAL))
      else if vaddr < dh_vaddr heap \<or> dh_vaddr heap + dh_size heap \<le> vaddr then Some (Inl (- EINVAL))
      else
        let offset = vaddr - dh_vaddr heap;
            dpage = size_of_int (dc_device_pagesize (dh_config heap));
            page_idx = offset div dpage;
            in_page_offset = offset mod dpage
        in if dpage = 0 then None
           else if dh_nphys heap \<le> page_idx then Some (Inl (- EINVAL))
           else do {
             base \<leftarrow> array_get (dh_phys_lut heap) (unat page_idx);
             Some (Inr (base + in_page_offset)) })"

definition cudamem_heap_block_vtp :: "bool \<Rightarrow> cudamem_heap \<Rightarrow> u64 \<Rightarrow> u64 option" where
  "cudamem_heap_block_vtp dbg heap vaddr =
     (let offset = vaddr - dh_vaddr heap;
          shift = dc_device_pagesize_shift (dh_config heap);
          page_idx = drop_bit (nat shift) offset;
          in_page_offset = offset AND size_of_int (dc_device_pagesize (dh_config heap) - 1)
      in if shift < 0 \<or> 64 \<le> shift then None
         else do {
           c_assert dbg (page_idx < dh_nphys heap);
           base \<leftarrow> array_get (dh_phys_lut heap) (unat page_idx);
           Some (base + in_page_offset) })"

section \<open>The interface of the DMA allocator\<close>

definition cudamem_dma_free :: "cudamem_heap \<Rightarrow> u64 \<Rightarrow> cudamem_heap" where
  "cudamem_dma_free heap ptr = cudamem_heap_block_free heap ptr"

definition cudamem_dma_malloc ::
  "('k, 'x) os_scheme \<Rightarrow> cudamem_heap \<Rightarrow> u64 \<Rightarrow> 'k \<Rightarrow> ((int + u64) \<times> cudamem_heap \<times> 'k) option" where
  "cudamem_dma_malloc os heap sz k =
     (if sz = 0 then Some (Inl EINVAL, heap, k) else cudamem_heap_block_alloc os heap sz k)"

definition cudamem_dma_malloc_aligned ::
  "('k, 'x) os_scheme \<Rightarrow> cudamem_heap \<Rightarrow> u64 \<Rightarrow> u64 \<Rightarrow> 'k \<Rightarrow>
   ((int + u64) \<times> cudamem_heap \<times> 'k) option" where
  "cudamem_dma_malloc_aligned os heap sz alignment k =
     cudamem_heap_block_alloc_aligned os heap sz alignment k"

definition cudamem_dma_alloc_array ::
  "('k, 'x) os_scheme \<Rightarrow> cudamem_heap \<Rightarrow> u64 \<Rightarrow> u64 \<Rightarrow> 'k \<Rightarrow>
   ((int + u64) \<times> cudamem_heap \<times> 'k) option" where
  "cudamem_dma_alloc_array os heap elem_count elem_size k =
     (if elem_size = 0 \<or> elem_count = 0 then Some (Inl EINVAL, heap, k)
      else cudamem_heap_block_alloc_array os heap elem_count elem_size k)"

definition cudamem_dma_v2p :: "bool \<Rightarrow> cudamem_heap \<Rightarrow> u64 \<Rightarrow> u64 option" where
  "cudamem_dma_v2p dbg heap vaddr = cudamem_heap_block_vtp dbg heap vaddr"

end
