(* ===== verification/Cudamem_Alloc.thy ===== *)
theory Cudamem_Alloc
  imports Cudamem_Heap First_Fit Dma_Allocator
begin

unbundle bit_operations_syntax

text \<open>
  The heap on GPU memory computes first fit on blocks without headers: the refinement of its two
  loops, the operations on the payloads that are handed out, and the contract of an allocator.
\<close>

section \<open>Well-formed heaps\<close>

definition cudamem_config_ok :: "cudamem_config \<Rightarrow> bool" where
  "cudamem_config_ok c \<longleftrightarrow> 0 \<le> dc_pagesize_shift c \<and> dc_pagesize_shift c \<le> dc_device_pagesize_shift c \<and>
     dc_device_pagesize_shift c \<le> 30 \<and> dc_pagesize c = 2 ^ nat (dc_pagesize_shift c) \<and>
     dc_device_pagesize c = 2 ^ nat (dc_device_pagesize_shift c)"

abbreviation dpg :: "cudamem_heap \<Rightarrow> nat" where
  "dpg heap \<equiv> nat (dc_device_pagesize (dh_config heap))"
abbreviation dhpg :: "cudamem_heap \<Rightarrow> nat" where
  "dhpg heap \<equiv> nat (dc_pagesize (dh_config heap))"

lemma device_configE:
  assumes "cudamem_config_ok c"
  obtains k h where "k \<le> h" "h \<le> 30" "dc_pagesize c = 2 ^ k" "dc_device_pagesize c = 2 ^ h"
    "dc_pagesize_shift c = int k" "dc_device_pagesize_shift c = int h"
    "nat (dc_pagesize c) = 2 ^ k" "nat (dc_device_pagesize c) = 2 ^ h"
    "size_of_int (dc_pagesize c) = 2 ^ k" "size_of_int (dc_device_pagesize c) = 2 ^ h"
proof -
  have b: "0 \<le> dc_pagesize_shift c" "0 \<le> dc_device_pagesize_shift c"
    using assms by (auto simp: cudamem_config_ok_def)
  show thesis
    by (rule that [of "nat (dc_pagesize_shift c)" "nat (dc_device_pagesize_shift c)"])
      (use assms b in \<open>auto simp: cudamem_config_ok_def size_of_int_def nat_power_eq\<close>)
qed

lemma device_pages:
  assumes "cudamem_config_ok (dh_config heap)"
  shows "dhpg heap dvd dpg heap" "0 < dpg heap" "dpg heap \<le> 2 ^ 30" "0 < dhpg heap" "dhpg heap \<le> dpg heap"
    "unat (size_of_int (dc_pagesize (dh_config heap))) = dhpg heap"
    "unat (size_of_int (dc_device_pagesize (dh_config heap))) = dpg heap"
proof -
  obtain k h where kh: "k \<le> h" "h \<le> 30" "dhpg heap = 2 ^ k" "dpg heap = 2 ^ h"
    "size_of_int (dc_pagesize (dh_config heap)) = 2 ^ k" "size_of_int (dc_device_pagesize (dh_config heap)) = 2 ^ h"
    using assms by (elim device_configE)
  show "dhpg heap dvd dpg heap" unfolding kh(3,4) by (rule le_imp_power_dvd [OF kh(1)])
  show "0 < dpg heap" "0 < dhpg heap" unfolding kh(3,4) by simp_all
  show "dpg heap \<le> 2 ^ 30" unfolding kh(4) by (rule power_increasing [OF kh(2)]) simp
  show "dhpg heap \<le> dpg heap" unfolding kh(3,4) by (rule power_increasing [OF kh(1)]) simp
  show "unat (size_of_int (dc_pagesize (dh_config heap))) = dhpg heap"
    "unat (size_of_int (dc_device_pagesize (dh_config heap))) = dpg heap"
    using kh(1,2) unfolding kh(3-6) by (simp_all add: unat_two_power)
qed

text \<open>The descriptors as blocks of the abstract allocator.\<close>

definition device_blk :: "u64 \<Rightarrow> cudamem_heap_block \<Rightarrow> blk" where
  "device_blk base b = Blk (unat (db_vaddr b - base)) (unat (db_size b)) (db_free b)"

lemma device_blk_simps [simp]:
  "b_off (device_blk base b) = unat (db_vaddr b - base)" "b_size (device_blk base b) = unat (db_size b)"
  "b_free (device_blk base b) = db_free b"
  by (simp_all add: device_blk_def)

abbreviation device_blks :: "u64 \<Rightarrow> cudamem_heap_block list \<Rightarrow> blk list" where
  "device_blks base bs \<equiv> map (device_blk base) bs"

definition device_ok :: "cudamem_heap \<Rightarrow> bool" where
  "device_ok heap \<longleftrightarrow> cudamem_config_ok (dh_config heap) \<and>
     space_ok (dh_vaddr heap) (unat (dh_size heap)) \<and>
     tiles 0 (unat (dh_size heap)) 0 (device_blks (dh_vaddr heap) (dh_freelist heap)) \<and>
     positive (device_blks (dh_vaddr heap) (dh_freelist heap))"

section \<open>Release\<close>

lemma device_blk_off_iff: "b_off (device_blk base b) = unat (v - base) \<longleftrightarrow> db_vaddr b = v"
  by (simp add: u64_eq_iff [symmetric])

lemma device_mark:
  "ff_mark (unat (v - base)) (device_blks base bs) =
    device_blks base (map (\<lambda>b. if db_vaddr b = v then b\<lparr>db_free := True\<rparr> else b) bs)"
proof -
  have "(if b_off (device_blk base b) = unat (v - base)
      then Blk (b_off (device_blk base b)) (b_size (device_blk base b)) True else device_blk base b) =
    device_blk base (if db_vaddr b = v then b\<lparr>db_free := True\<rparr> else b)" for b
    unfolding device_blk_off_iff by (simp add: device_blk_def)
  then show ?thesis by (simp add: ff_mark_def)
qed

lemma device_free_loop_refines:
  assumes "unat base + S < 2 ^ 64"
  shows "tiles 0 S p (device_blks base bs) \<Longrightarrow> distinct (map db_vaddr bs) \<Longrightarrow>
    device_blks base (device_free_loop v bs) = ff_free 0 (unat (v - base)) (device_blks base bs)"
proof (induction v bs arbitrary: p rule: device_free_loop.induct)
  case (1 v b n rest)
  let ?b = "if db_vaddr b = v then b\<lparr>db_free := True\<rparr> else b"
  let ?n = "if db_vaddr b \<noteq> v \<and> db_vaddr n = v then n\<lparr>db_free := True\<rparr> else n"
  let ?mark = "map (\<lambda>b. if db_vaddr b = v then b\<lparr>db_free := True\<rparr> else b)"
  from "1.prems" have off: "unat (db_vaddr b - base) = p" "unat (db_vaddr n - base) = p + unat (db_size b)"
    and t: "tiles 0 S (p + unat (db_size b)) (device_blks base (n # rest))"
    and d: "db_vaddr n \<noteq> db_vaddr b" "distinct (map db_vaddr (n # rest))" "db_vaddr b \<notin> db_vaddr ` set rest"
    by auto
  have "p + unat (db_size b) + unat (db_size n) \<le> S"
    using tiles_offsets [OF t, of "device_blk base n"] by (simp add: off(2))
  then have sum: "unat (db_size b + db_size n) = unat (db_size b) + unat (db_size n)"
    using assms by (intro unat_add_u64) linarith
  have n': "?mark [n] = [?n]" using d(1) by auto
  show ?case
  proof (cases "db_free ?b \<and> db_free ?n")
    case True
    let ?m = "?b\<lparr>db_size := db_size ?b + db_size ?n\<rparr>"
    have m: "device_blk base ?m = Blk p (unat (db_size b) + unat (db_size n)) True"
      using True off(1) sum by (auto simp: device_blk_def)
    have t': "tiles 0 S p (device_blks base (?m # rest))"
      using t unfolding list.map m by (auto split: if_splits simp: add.assoc)
    have d': "distinct (map db_vaddr (?m # rest))" using d by auto
    have mm: "(if db_vaddr ?m = v then ?m\<lparr>db_free := True\<rparr> else ?m) = ?m" using True by auto
    have "device_blks base (device_free_loop v (b # n # rest)) = device_blks base (device_free_loop v (?m # rest))"
      using True by (simp only: device_free_loop.simps Let_def if_True simp_thms)
    also have "\<dots> = ff_free 0 (unat (v - base)) (device_blks base (?m # rest))"
      by (rule "1.IH"(1) [OF refl refl True t' d'])
    also have "\<dots> = ff_coalesce 0 (device_blk base ?m # device_blks base (?mark rest))"
      unfolding ff_free_def device_mark by (simp only: list.map mm)
    also have "\<dots> = ff_coalesce 0 (device_blk base ?b # device_blk base ?n # device_blks base (?mark rest))"
    proof -
      have "device_blk base ?b = Blk p (unat (db_size b)) True"
        "device_blk base ?n = Blk (p + unat (db_size b)) (unat (db_size n)) True"
        using True off by (auto simp: device_blk_def)
      then show ?thesis unfolding m by (simp only: ff_coalesce.simps simp_thms if_True add_0_right)
    qed
    also have "\<dots> = ff_free 0 (unat (v - base)) (device_blks base (b # n # rest))"
      unfolding ff_free_def device_mark using n' by simp
    finally show ?thesis .
  next
    case False
    have t': "tiles 0 S (p + unat (db_size b)) (device_blks base (?n # rest))"
      using t by auto
    have d': "distinct (map db_vaddr (?n # rest))" using d by auto
    have nn: "(if db_vaddr ?n = v then ?n\<lparr>db_free := True\<rparr> else ?n) = ?n" using d(1) by auto
    have "device_blks base (device_free_loop v (b # n # rest)) =
        device_blk base ?b # device_blks base (device_free_loop v (?n # rest))"
      by (simp only: device_free_loop.simps Let_def False if_False list.map)
    also have "device_blks base (device_free_loop v (?n # rest)) =
        ff_free 0 (unat (v - base)) (device_blks base (?n # rest))"
      by (rule "1.IH"(2) [OF refl refl False t' d'])
    also have "\<dots> = ff_coalesce 0 (device_blk base ?n # device_blks base (?mark rest))"
      unfolding ff_free_def device_mark by (simp only: list.map nn)
    also have "device_blk base ?b # \<dots> =
        ff_coalesce 0 (device_blk base ?b # device_blk base ?n # device_blks base (?mark rest))"
      by (simp only: device_blk_def ff_coalesce.simps False if_False)
    also have "\<dots> = ff_free 0 (unat (v - base)) (device_blks base (b # n # rest))"
      unfolding ff_free_def device_mark using n' by simp
    finally show ?thesis .
  qed
next
  case (2 v b)
  show ?case unfolding ff_free_def device_mark by simp
next
  case (3 v)
  show ?case by (simp add: ff_free_def)
qed

section \<open>Allocation\<close>

lemma page_misfit_unat:
  assumes "page_misfit base dpage elem b = (rem, dis)" "0 < unat dpage"
  shows "unat rem = unat dpage - unat (db_vaddr b - base) mod unat dpage"
    "unat dis = unat rem mod unat elem"
proof -
  have "unat ((db_vaddr b - base) mod dpage) \<le> unat dpage"
    using assms(2) by (simp add: unat_mod less_imp_le)
  then show "unat rem = unat dpage - unat (db_vaddr b - base) mod unat dpage"
    using assms(1) by (auto simp: page_misfit_def Let_def unat_sub_u64 unat_mod)
  show "unat dis = unat rem mod unat elem"
    using assms(1) by (auto simp: page_misfit_def Let_def unat_mod)
qed

text \<open>The block behind the first \<open>x\<close> bytes of a block.\<close>

lemma device_blk_behind:
  assumes "unat base + S < 2 ^ 64" "unat (db_vaddr b - base) + unat (db_size b) \<le> S" "x \<le> db_size b"
  shows "device_blk base \<lparr>db_vaddr = db_vaddr b + x, db_size = db_size b - x, db_free = f\<rparr> =
    Blk (unat (db_vaddr b - base) + unat x) (unat (db_size b) - unat x) f"
proof -
  have x: "unat x \<le> unat (db_size b)" using assms(3) by (simp add: word_le_nat_alt)
  have "unat (db_vaddr b - base + x) = unat (db_vaddr b - base) + unat x"
    using x assms(1,2) by (intro unat_add_u64) linarith
  moreover have e: "db_vaddr b + x - base = db_vaddr b - base + x" by simp
  ultimately have "unat (db_vaddr b + x - base) = unat (db_vaddr b - base) + unat x" by metis
  then show ?thesis using x by (simp only: device_blk_def cudamem_heap_block.select_convs unat_sub_u64)
qed

text \<open>
  The loop gives what first fit gives, unless a descriptor cannot be allocated; then it has at
  most split free blocks.
\<close>

definition loop_refines ::
  "('k, 'x) os_scheme \<Rightarrow> u64 \<Rightarrow> nat \<Rightarrow> nat \<Rightarrow> nat option \<times> blk list \<Rightarrow> blk list \<Rightarrow>
   int + u64 \<Rightarrow> cudamem_heap_block list \<Rightarrow> bool" where
  "loop_refines os base S p ff bs r bs' \<longleftrightarrow>
     (\<exists>q \<le> S. r = Inr (base + of_nat q) \<and> ff = (Some q, device_blks base bs')) \<or>
     (r = Inl ENOMEM \<and> (if bs = [] then bs' = [] else tiles 0 S p (device_blks base bs')) \<and>
      positive (device_blks base bs') \<and> live 0 (device_blks base bs') = live 0 bs \<and>
      ((\<forall>k. fst (os_malloc os k)) \<longrightarrow> ff = (None, device_blks base bs')))"

lemma loop_refines_Cons:
  assumes "loop_refines os base S (p + unat (db_size b)) ff bs2 r bs'"
    and b: "unat (db_vaddr b - base) = p" "db_size b \<noteq> 0"
    and "live 0 bs = (if db_free b then [] else [(p, p + unat (db_size b))]) @ live 0 bs2"
    and "bs2 = [] \<Longrightarrow> p + unat (db_size b) = S" "bs \<noteq> []"
  shows "loop_refines os base S p (fst ff, device_blk base b # snd ff) bs r (b # bs')"
proof -
  have "0 < unat (db_size b)" using b(2) by (simp add: unat_gt_0)
  with assms show ?thesis
    unfolding loop_refines_def by (cases "bs2 = []") (auto simp: b split: if_splits)
qed

lemma loop_refines_failed:
  assumes "tiles 0 S p (device_blks base bs)" "positive (device_blks base bs)" "os_malloc os k = (False, k1)"
  shows "loop_refines os base S p ff (device_blks base bs) (Inl ENOMEM) bs"
proof -
  have "\<not> (\<forall>k. fst (os_malloc os k))" using assms(3) by (metis fst_conv)
  moreover have "bs \<noteq> []" using assms(1) by auto
  ultimately show ?thesis using assms(1,2) unfolding loop_refines_def by auto
qed

text \<open>The loop from \<open>bs\<close>, which lies at offset \<open>p\<close>, against first fit.\<close>

abbreviation loop_correct ::
  "('k, 'x) os_scheme \<Rightarrow> u64 \<Rightarrow> nat \<Rightarrow> u64 \<Rightarrow> u64 \<Rightarrow> u64 \<Rightarrow> nat \<Rightarrow> cudamem_heap_block list \<Rightarrow> 'k \<Rightarrow> bool" where
  "loop_correct os base S dpage tot elem p bs k \<equiv>
     loop_refines os base S p (ff_alloc (unat dpage) 0 0 (unat elem) (unat tot) (device_blks base bs))
       (device_blks base bs) (fst (device_alloc_loop os base dpage tot elem bs k))
       (fst (snd (device_alloc_loop os base dpage tot elem bs k)))"

lemma tiles_device_Cons:
  assumes "tiles 0 S p (device_blks base (b # bs))"
  shows "unat (db_vaddr b - base) = p" "p + unat (db_size b) \<le> S"
    "bs = [] \<or> tiles 0 S (p + unat (db_size b)) (device_blks base bs)"
    "bs = [] \<Longrightarrow> p + unat (db_size b) = S" "device_blk base b = Blk p (unat (db_size b)) (db_free b)"
proof -
  have tb: "tiles 0 S p (device_blk base b # device_blks base bs)" using assms unfolding list.map by blast
  then show off: "unat (db_vaddr b - base) = p" by simp
  show "p + unat (db_size b) \<le> S" using tiles_offsets [OF tb, of "device_blk base b"] off by simp
  show "bs = [] \<or> tiles 0 S (p + unat (db_size b)) (device_blks base bs)"
    "bs = [] \<Longrightarrow> p + unat (db_size b) = S" using tb by (auto split: if_splits)
  show "device_blk base b = Blk p (unat (db_size b)) (db_free b)" by (simp add: device_blk_def off)
qed

text \<open>A block that is taken or too small is passed.\<close>

lemma device_loop_walk:
  assumes tb: "tiles 0 S p (device_blks base (b # bs))" and sz: "db_size b \<noteq> 0"
    and guard: "\<not> (db_free b \<and> tot \<le> db_size b)"
    and ih: "loop_correct os base S dpage tot elem (p + unat (db_size b)) bs k"
  shows "loop_correct os base S dpage tot elem p (b # bs) k"
proof -
  let ?ff = "ff_alloc (unat dpage) 0 0 (unat elem) (unat tot)"
  note t = tiles_device_Cons [OF tb]
  obtain r bs' k' where l: "device_alloc_loop os base dpage tot elem bs k = (r, bs', k')"
    by (cases "device_alloc_loop os base dpage tot elem bs k")
  from loop_refines_Cons [OF ih [unfolded l fst_conv snd_conv] t(1) sz, of "device_blks base (b # bs)"] t(4)
  have "loop_refines os base S p (fst (?ff (device_blks base bs)), device_blk base b # snd (?ff (device_blks base bs)))
    (device_blks base (b # bs)) r (b # bs')" by (simp add: t(1))
  moreover have "\<not> (db_free b \<and> unat tot + 0 \<le> unat (db_size b))" using guard by (simp add: word_le_nat_alt)
  ultimately show ?thesis using l unfolding list.map t(5)
    by (simp add: ff_alloc_walk if_not_P [OF guard])
qed

text \<open>A block that does not fit in its page is cut, and the walk goes on with its second part.\<close>

lemma device_loop_skip:
  fixes b bs base dis
  defines "new \<equiv> \<lparr>db_vaddr = db_vaddr b + dis, db_size = db_size b - dis, db_free = True\<rparr>"
  assumes tb: "tiles 0 S p (device_blks base (b # bs))" and pb: "positive (device_blks base (b # bs))"
    and sp: "unat base + S < 2 ^ 64" "0 < unat dpage"
    and guard: "db_free b \<and> tot \<le> db_size b" and pm: "page_misfit base dpage elem b = (rem, dis)"
    and cut: "rem < tot \<and> dis \<noteq> 0" and m: "os_malloc os k = (ok, k1)"
    and ih: "ok \<Longrightarrow> tiles 0 S (p + unat dis) (device_blks base (new # bs)) \<Longrightarrow>
      positive (device_blks base (new # bs)) \<Longrightarrow> loop_correct os base S dpage tot elem (p + unat dis) (new # bs) k1"
  shows "loop_correct os base S dpage tot elem p (b # bs) k"
proof (cases ok)
  case False
  have e: "device_alloc_loop os base dpage tot elem (b # bs) k = (Inl ENOMEM, b # bs, k1)"
    using guard pm cut m False by simp
  show ?thesis unfolding e fst_conv snd_conv
    by (rule loop_refines_failed [OF tb pb]) (use m False in simp)
next
  case ok: True
  let ?ff = "ff_alloc (unat dpage) 0 0 (unat elem) (unat tot)"
  note t = tiles_device_Cons [OF tb]
  note u = page_misfit_unat [OF pm sp(2), unfolded t(1)]
  have fits: "unat tot + 0 \<le> unat (db_size b)" using guard by (simp add: word_le_nat_alt)
  have c: "unat dpage - p mod unat dpage < unat tot + 0" "(unat dpage - p mod unat dpage - 0) mod unat elem = unat dis"
    using cut u by (simp_all add: word_less_nat_alt)
  have d0: "unat dis \<noteq> 0" using cut by (simp add: unat_eq_0)
  have "unat dis \<le> unat rem" using u(2) by simp
  then have d_less: "unat dis < unat (db_size b)" using cut fits by (simp add: word_less_nat_alt)
  then have d_le: "dis \<le> db_size b" by (simp add: word_le_nat_alt)
  have new: "device_blk base new = Blk (p + 0 + unat dis) (unat (db_size b) - 0 - unat dis) True"
    using device_blk_behind [OF sp(1) _ d_le, of True] t(2) unfolding t(1) new_def by simp
  have "tiles 0 S (p + unat dis) (device_blks base (new # bs))"
    using t(3,4) d_less unfolding list.map new by (auto simp: add.assoc)
  moreover have "positive (device_blks base (new # bs))"
    using pb d_less unfolding list.map new by simp
  ultimately have correct: "loop_correct os base S dpage tot elem (p + unat dis) (new # bs) k1" by (rule ih [OF ok])
  obtain r bs' k' where l: "device_alloc_loop os base dpage tot elem (new # bs) k1 = (r, bs', k')"
    by (cases "device_alloc_loop os base dpage tot elem (new # bs) k1")
  from loop_refines_Cons [of os base S p "b\<lparr>db_size := dis\<rparr>", simplified, OF correct [unfolded l fst_conv snd_conv] t(1),
      of "device_blks base (b # bs)"]
  have "loop_refines os base S p (fst (?ff (device_blks base (new # bs))),
      device_blk base (b\<lparr>db_size := dis\<rparr>) # snd (?ff (device_blks base (new # bs))))
    (device_blks base (b # bs)) r (b\<lparr>db_size := dis\<rparr> # bs')"
    using guard cut unfolding list.map new by simp
  moreover have "device_blk base (b\<lparr>db_size := dis\<rparr>) = Blk p (unat dis) True"
    using guard t(1) by (simp add: device_blk_def)
  moreover have "device_alloc_loop os base dpage tot elem (b # bs) k = (r, b\<lparr>db_size := dis\<rparr> # bs', k')"
    using guard pm cut m ok l by (simp add: Let_def new_def)
  moreover have "?ff (device_blks base (b # bs)) = (fst (?ff (device_blks base (new # bs))),
      Blk p (unat dis) True # snd (?ff (device_blks base (new # bs))))"
    using guard ff_alloc_skip [OF fits c d0, of 0 "device_blks base bs"] unfolding list.map t(5) new by simp
  ultimately show ?thesis by simp
qed

text \<open>A block that fits is handed out, its rest as a block of its own.\<close>

lemma device_loop_fit:
  assumes tb: "tiles 0 S p (device_blks base (b # bs))" and pb: "positive (device_blks base (b # bs))"
    and sp: "unat base + S < 2 ^ 64" "0 < unat dpage" "0 < unat tot"
    and guard: "db_free b \<and> tot \<le> db_size b" and pm: "page_misfit base dpage elem b = (rem, dis)"
    and fit: "\<not> (rem < tot \<and> dis \<noteq> 0)"
  shows "loop_correct os base S dpage tot elem p (b # bs) k"
proof -
  note t = tiles_device_Cons [OF tb]
  note u = page_misfit_unat [OF pm sp(2), unfolded t(1)]
  have fits: "unat tot + 0 \<le> unat (db_size b)" using guard by (simp add: word_le_nat_alt)
  have c: "\<not> (unat dpage - p mod unat dpage < unat tot + 0 \<and> (unat dpage - p mod unat dpage - 0) mod unat elem \<noteq> 0)"
    using fit u by (auto simp: word_less_nat_alt unat_eq_0 [symmetric])
  have pS: "p \<le> S" using t(2) by simp
  have va: "db_vaddr b = base + of_nat p" unfolding t(1) [symmetric] by simp
  note ff = ff_alloc_fit [OF fits c, of 0 "device_blks base bs"]
  show ?thesis
  proof (cases "db_size b - tot = 0")
    case eq: True
    then have "unat tot = unat (db_size b)" by simp
    moreover have "device_alloc_loop os base dpage tot elem (b # bs) k = (Inr (db_vaddr b), b\<lparr>db_free := False\<rparr> # bs, k)"
      using guard pm eq by (simp add: if_not_P [OF fit])
    ultimately show ?thesis
      using ff guard pS va t(1) unfolding list.map t(5) loop_refines_def by (auto simp: device_blk_def)
  next
    case ne: False
    have lt: "unat tot < unat (db_size b)"
      using ne fits by (metis add_0_right eq_iff_diff_eq_0 le_neq_implies_less u64_eq_iff)
    obtain ok k1 where m: "os_malloc os k = (ok, k1)" by (cases "os_malloc os k")
    show ?thesis
    proof (cases ok)
      case False
      have e: "device_alloc_loop os base dpage tot elem (b # bs) k = (Inl ENOMEM, b # bs, k1)"
        using guard pm ne m False by (simp add: Let_def if_not_P [OF fit])
      show ?thesis unfolding e fst_conv snd_conv
        by (rule loop_refines_failed [OF tb pb]) (use m False in simp)
    next
      case ok: True
      let ?new = "\<lparr>db_vaddr = db_vaddr b + tot, db_size = db_size b - tot, db_free = True\<rparr>"
      have new: "device_blk base ?new = Blk (p + 0 + unat tot) (unat (db_size b) - unat tot - 0) True"
        using device_blk_behind [OF sp(1), of b tot True] guard t(2) unfolding t(1) by simp
      have "device_alloc_loop os base dpage tot elem (b # bs) k =
          (Inr (db_vaddr b), b\<lparr>db_size := tot, db_free := False\<rparr> # ?new # bs, k1)"
        using guard pm ne m ok by (simp add: Let_def if_not_P [OF fit])
      moreover have "device_blk base (b\<lparr>db_size := tot, db_free := False\<rparr>) = Blk p (unat tot) False"
        using t(1) by (simp add: device_blk_def)
      ultimately show ?thesis
        using ff guard lt pS va new unfolding list.map t(5) loop_refines_def by auto
    qed
  qed
qed

lemma device_alloc_loop_refines:
  assumes sp: "unat base + S < 2 ^ 64" and pos: "0 < unat dpage" "0 < unat tot"
  shows "bs = [] \<or> tiles 0 S p (device_blks base bs) \<Longrightarrow> positive (device_blks base bs) \<Longrightarrow>
    loop_correct os base S dpage tot elem p bs k"
  using sp pos
proof (induction os base dpage tot elem bs k arbitrary: p rule: device_alloc_loop.induct)
  case (1 os base dpage tot elem k)
  then show ?case by (simp add: loop_refines_def)
next
  case (2 os base dpage tot elem b bs k)
  have tb: "tiles 0 S p (device_blks base (b # bs))" using "2.prems"(1) by blast
  have sz: "db_size b \<noteq> 0" and pbs: "positive (device_blks base bs)" using "2.prems"(2) by auto
  obtain rem dis where pm: "page_misfit base dpage elem b = (rem, dis)" by (cases "page_misfit base dpage elem b")
  obtain ok k1 where m: "os_malloc os k = (ok, k1)" by (cases "os_malloc os k")
  consider (walk) "\<not> (db_free b \<and> tot \<le> db_size b)"
    | (skip) "db_free b \<and> tot \<le> db_size b" "rem < tot \<and> dis \<noteq> 0"
    | (fit) "db_free b \<and> tot \<le> db_size b" "\<not> (rem < tot \<and> dis \<noteq> 0)" by blast
  then show ?case
  proof cases
    case walk
    show ?thesis
      by (rule device_loop_walk [OF tb sz walk "2.IH"(2) [OF walk tiles_device_Cons(3) [OF tb] pbs "2.prems"(3-5)]])
  next
    case skip
    show ?thesis
      by (rule device_loop_skip [OF tb "2.prems"(2-4) skip(1) pm skip(2) m
            "2.IH"(1) [OF skip(1) pm [symmetric] refl skip(2) m [symmetric] refl _ refl disjI2 _ "2.prems"(3-5)]])
        (subst not_not)
  next
    case fit
    show ?thesis by (rule device_loop_fit [OF tb "2.prems"(2-5) fit(1) pm fit(2)])
  qed
qed

section \<open>The operations\<close>

definition same_device :: "cudamem_heap \<Rightarrow> cudamem_heap \<Rightarrow> bool" where
  "same_device heap heap' \<longleftrightarrow> heap' = heap\<lparr>dh_freelist := dh_freelist heap'\<rparr>"

lemma same_deviceD:
  assumes "same_device heap heap'"
  shows "dh_vaddr heap' = dh_vaddr heap" "dh_size heap' = dh_size heap" "dh_config heap' = dh_config heap"
    "dh_nphys heap' = dh_nphys heap" "dh_phys_lut heap' = dh_phys_lut heap"
  using assms unfolding same_device_def
  by (metis cudamem_heap.select_convs cudamem_heap.surjective cudamem_heap.update_convs(2))+

text \<open>The blocks of a heap, and the intervals of addresses that are handed out.\<close>

abbreviation heap_blks :: "cudamem_heap \<Rightarrow> blk list" where
  "heap_blks heap \<equiv> device_blks (dh_vaddr heap) (dh_freelist heap)"

definition device_payloads :: "cudamem_heap \<Rightarrow> (nat \<times> nat) list" where
  "device_payloads heap = map (\<lambda>x. (unat (dh_vaddr heap) + fst x, unat (dh_vaddr heap) + snd x)) (live 0 (heap_blks heap))"

text \<open>The size of an array in bytes, rounded up to whole pages, and the checks before the loop.\<close>

lemma device_array_size:
  assumes cfg: "cudamem_config_ok (dh_config heap)" and pos: "elem \<noteq> 0" "cnt \<noteq> 0"
    and tot: "unat cnt * unat elem + dhpg heap \<le> 2 ^ 64"
  defines "al \<equiv> size_of_int (dc_pagesize (dh_config heap))" and "dp \<equiv> size_of_int (dc_device_pagesize (dh_config heap))"
  defines "n \<equiv> unat cnt * unat elem"
  shows "unat ((cnt * elem + al - 1) AND NOT (al - 1)) = page_round (dhpg heap) n" "0 < page_round (dhpg heap) n"
    "\<not> SIZE_MAX div elem < cnt"
    "dp < elem \<or> (dp < cnt * elem \<and> dp mod elem \<noteq> 0) \<longleftrightarrow>
      \<not> (unat elem \<le> dpg heap \<and> (n \<le> dpg heap \<or> unat elem dvd dpg heap))"
proof -
  note pages = device_pages [OF cfg]
  obtain s h where sh: "s \<le> h" "h \<le> 30" "al = 2 ^ s" "dhpg heap = 2 ^ s"
    using cfg unfolding al_def by (elim device_configE)
  have lt: "n < 2 ^ 64" using tot pages(4) unfolding n_def by linarith
  then have nu: "unat (cnt * elem) = n" by (simp add: unat_mult_u64 n_def)
  have n0: "0 < n" using pos by (simp add: unat_gt_0 n_def)
  have "unat (cnt * elem + 2 ^ s - 1) = n + 2 ^ s - 1"
    using unat_plus_page [of "cnt * elem" s] tot sh(1,2,4) unfolding nu n_def by simp
  then show "unat ((cnt * elem + al - 1) AND NOT (al - 1)) = page_round (dhpg heap) n"
    unfolding sh(3) unat_round_down page_round_def sh(4) by simp
  show "0 < page_round (dhpg heap) n" using page_round_ge [OF pages(4), of n] n0 by linarith
  have "unat SIZE_MAX = 2 ^ 64 - 1" by (simp add: SIZE_MAX_def unsigned_minus_1_eq_mask mask_eq_exp_minus_1)
  moreover have "0 < unat elem" using pos(1) by (simp add: unat_gt_0)
  moreover have "unat cnt * unat elem \<le> 2 ^ 64 - 1" using lt unfolding n_def by linarith
  ultimately have "unat cnt \<le> unat (SIZE_MAX div elem)" by (simp add: unat_div less_eq_div_iff_mult_less_eq)
  then show "\<not> SIZE_MAX div elem < cnt" by (simp add: word_less_nat_alt)
  show "dp < elem \<or> (dp < cnt * elem \<and> dp mod elem \<noteq> 0) \<longleftrightarrow>
      \<not> (unat elem \<le> dpg heap \<and> (n \<le> dpg heap \<or> unat elem dvd dpg heap))"
    using nu pages(7) unfolding dp_def by (auto simp: word_less_nat_alt u64_eq_iff unat_mod mod_eq_0_iff_dvd)
qed

lemma device_array_outcome:
  assumes ok: "device_ok heap" and pos: "elem \<noteq> 0" "cnt \<noteq> 0"
    and tot: "unat cnt * unat elem + dhpg heap \<le> 2 ^ 64"
  obtains r heap' k' where
    "cudamem_heap_block_alloc_array os heap cnt elem k = Some (r, heap', k')" "device_ok heap'" "same_device heap heap'"
    "(r = Inl ENOMEM \<and> device_payloads heap' = device_payloads heap) \<or>
     (\<exists>q \<le> unat (dh_size heap). r = Inr (dh_vaddr heap + of_nat q) \<and>
       unat elem \<le> dpg heap \<and> (unat cnt * unat elem \<le> dpg heap \<or> unat elem dvd dpg heap) \<and>
       ff_alloc (dpg heap) 0 0 (unat elem) (page_round (dhpg heap) (unat cnt * unat elem)) (heap_blks heap) =
         (Some q, heap_blks heap'))"
    "\<forall>k. fst (os_malloc os k) \<Longrightarrow> unat elem \<le> dpg heap \<Longrightarrow>
       unat cnt * unat elem \<le> dpg heap \<or> unat elem dvd dpg heap \<Longrightarrow>
       heap_blks heap' =
       snd (ff_alloc (dpg heap) 0 0 (unat elem) (page_round (dhpg heap) (unat cnt * unat elem)) (heap_blks heap)) \<and>
       r = (case fst (ff_alloc (dpg heap) 0 0 (unat elem) (page_round (dhpg heap) (unat cnt * unat elem)) (heap_blks heap)) of
         None \<Rightarrow> Inl ENOMEM | Some q \<Rightarrow> Inr (dh_vaddr heap + of_nat q))"
proof -
  from ok have cfg: "cudamem_config_ok (dh_config heap)" and sp: "space_ok (dh_vaddr heap) (unat (dh_size heap))"
    and t: "tiles 0 (unat (dh_size heap)) 0 (heap_blks heap)" and p: "positive (heap_blks heap)"
    by (simp_all add: device_ok_def)
  note pages = device_pages [OF cfg]
  let ?dp = "size_of_int (dc_device_pagesize (dh_config heap))"
  let ?al = "size_of_int (dc_pagesize (dh_config heap))"
  let ?n = "unat cnt * unat elem" and ?P = "dhpg heap"
  let ?tot = "(cnt * elem + ?al - 1) AND NOT (?al - 1)"
  note size = device_array_size [OF cfg pos tot]
  have tu: "unat ?tot = page_round ?P ?n" by (rule size(1))
  have tp: "0 < unat ?tot" unfolding tu by (rule size(2))
  let ?loop = "device_alloc_loop os (dh_vaddr heap) ?dp ?tot elem (dh_freelist heap) k"
  obtain r bs k' where l: "?loop = (r, bs, k')" by (cases ?loop)
  have run: "cudamem_heap_block_alloc_array os heap cnt elem k =
      (if unat elem \<le> dpg heap \<and> (?n \<le> dpg heap \<or> unat elem dvd dpg heap)
       then Some (r, heap\<lparr>dh_freelist := bs\<rparr>, k') else Some (Inl ENOMEM, heap, k))"
    unfolding cudamem_heap_block_alloc_array_def cudamem_heap_block_alloc_array_aligned_def Let_def size(4) l
    using size(3) pos(1) by simp
  show thesis
  proof (cases "unat elem \<le> dpg heap \<and> (?n \<le> dpg heap \<or> unat elem dvd dpg heap)")
    case False
    then show thesis using run ok that [of "Inl ENOMEM" heap k] by (auto simp: same_device_def)
  next
    case True
    let ?heap = "heap\<lparr>dh_freelist := bs\<rparr>"
    let ?ff = "ff_alloc (dpg heap) 0 0 (unat elem) (page_round ?P ?n) (heap_blks heap)"
    have ne: "heap_blks heap \<noteq> []" using t by auto
    have "loop_refines os (dh_vaddr heap) (unat (dh_size heap)) 0 ?ff (heap_blks heap) r bs"
      using device_alloc_loop_refines [of "dh_vaddr heap" "unat (dh_size heap)" ?dp ?tot "dh_freelist heap" 0 os elem k]
        sp t p pages(2,7) tp l by (simp add: space_ok_def tu)
    then consider (gives) q where "q \<le> unat (dh_size heap)" "r = Inr (dh_vaddr heap + of_nat q)"
        "?ff = (Some q, heap_blks ?heap)"
      | (fails) "r = Inl ENOMEM" "tiles 0 (unat (dh_size heap)) 0 (heap_blks ?heap)" "positive (heap_blks ?heap)"
        "live 0 (heap_blks ?heap) = live 0 (heap_blks heap)"
        "(\<forall>k. fst (os_malloc os k)) \<longrightarrow> ?ff = (None, heap_blks ?heap)"
      unfolding loop_refines_def using ne by auto
    then show thesis
    proof cases
      case gives
      have "tiles 0 (unat (dh_size heap)) 0 (heap_blks ?heap)" "positive (heap_blks ?heap)"
        using ff_alloc_tiles [OF t, of "dpg heap" 0 "unat elem" "page_round ?P ?n"]
          ff_alloc_positive [OF tp [unfolded tu] p, of "dpg heap" "unat elem"] unfolding gives(3) by simp_all
      then have "device_ok ?heap" using cfg sp by (simp add: device_ok_def)
      with gives True run show thesis by (intro that [of r ?heap k']) (auto simp: same_device_def)
    next
      case fails
      have "device_ok ?heap" using cfg sp fails(2,3) by (simp add: device_ok_def)
      with fails True run show thesis
        by (intro that [of r ?heap k']) (auto simp: same_device_def device_payloads_def)
    qed
  qed
qed

section \<open>The heap provides the contract of an allocator\<close>

text \<open>A heap together with the outside world that its descriptors are allocated from.\<close>

definition device_live :: "cudamem_heap \<times> 'k \<Rightarrow> (nat \<times> nat) list \<Rightarrow> bool" where
  "device_live hk L \<longleftrightarrow> device_ok (fst hk) \<and> L = device_payloads (fst hk)"

fun device_request ::
  "('k, 'x) os_scheme \<Rightarrow> cudamem_heap \<times> 'k \<Rightarrow> dma_request \<Rightarrow> ((int + u64) \<times> (cudamem_heap \<times> 'k)) option" where
  "device_request os (heap, k) (Bytes n) = cudamem_dma_malloc os heap n k"
| "device_request os (heap, k) (Array cnt elem) = cudamem_dma_alloc_array os heap cnt elem k"

definition device_release :: "cudamem_heap \<times> 'k \<Rightarrow> u64 \<Rightarrow> (cudamem_heap \<times> 'k) option" where
  "device_release hk p = Some (cudamem_dma_free (fst hk) p, snd hk)"

text \<open>Requests whose rounding up to whole pages does not wrap.\<close>

definition device_request_ok :: "cudamem_heap \<times> 'k \<Rightarrow> dma_request \<Rightarrow> bool" where
  "device_request_ok hk r \<longleftrightarrow> nbytes r \<le> 2 ^ 63"

definition device_outcome :: "cudamem_heap \<Rightarrow> (nat \<times> nat) list \<Rightarrow> nat \<Rightarrow> int + u64 \<Rightarrow> bool" where
  "device_outcome heap' L n r \<longleftrightarrow> device_ok heap' \<and>
     (case r of Inl e \<Rightarrow> 0 < e \<and> device_payloads heap' = L
      | Inr p \<Rightarrow> p \<noteq> 0 \<and> (\<exists>xs e ys. L = xs @ ys \<and> unat p + n \<le> e \<and>
          device_payloads heap' = xs @ (unat p, e) # ys))"

lemma device_outcome_weaken:
  assumes "device_outcome heap' L m r" "n \<le> m"
  shows "device_outcome heap' L n r"
proof (cases r)
  case (Inr p)
  with assms obtain xs e ys where "p \<noteq> 0" "L = xs @ ys" "unat p + m \<le> e"
    "device_payloads heap' = xs @ (unat p, e) # ys" "device_ok heap'" by (auto simp: device_outcome_def)
  moreover from this have "unat p + n \<le> e" using assms(2) by linarith
  ultimately show ?thesis using Inr unfolding device_outcome_def by auto
qed (use assms in \<open>simp add: device_outcome_def\<close>)

lemma device_array_live:
  assumes ok: "device_ok heap" and pos: "elem \<noteq> 0" "cnt \<noteq> 0"
    and tot: "unat cnt * unat elem + dhpg heap \<le> 2 ^ 64"
  shows "\<exists>r heap' k'. cudamem_heap_block_alloc_array os heap cnt elem k = Some (r, heap', k') \<and>
    same_device heap heap' \<and> device_outcome heap' (device_payloads heap) (unat cnt * unat elem) r"
proof -
  let ?n = "unat cnt * unat elem" and ?v = "unat (dh_vaddr heap)"
  obtain r heap' k' where run:
    "cudamem_heap_block_alloc_array os heap cnt elem k = Some (r, heap', k')" "device_ok heap'" "same_device heap heap'"
    "(r = Inl ENOMEM \<and> device_payloads heap' = device_payloads heap) \<or>
     (\<exists>q \<le> unat (dh_size heap). r = Inr (dh_vaddr heap + of_nat q) \<and>
       unat elem \<le> dpg heap \<and> (?n \<le> dpg heap \<or> unat elem dvd dpg heap) \<and>
       ff_alloc (dpg heap) 0 0 (unat elem) (page_round (dhpg heap) ?n) (heap_blks heap) =
         (Some q, heap_blks heap'))" by (rule device_array_outcome [OF assms, of os k])
  note same = same_deviceD [OF run(3)]
  have sp: "space_ok (dh_vaddr heap) (unat (dh_size heap))" and cfg: "cudamem_config_ok (dh_config heap)"
    using ok by (simp_all add: device_ok_def)
  have "device_outcome heap' (device_payloads heap) ?n r"
  proof (cases "r = Inl ENOMEM \<and> device_payloads heap' = device_payloads heap")
    case False
    with run(4) obtain q where q: "q \<le> unat (dh_size heap)" "r = Inr (dh_vaddr heap + of_nat q)"
      and ff: "ff_alloc (dpg heap) 0 0 (unat elem) (page_round (dhpg heap) ?n) (heap_blks heap) = (Some q, heap_blks heap')"
      by blast
    note addr = space_ok_addr [OF sp q(1)]
    from ff_alloc_live_Some [of "dpg heap" 0 0 "unat elem" "page_round (dhpg heap) ?n" "heap_blks heap" q] ff
    obtain xs e ys where L: "live 0 (heap_blks heap) = xs @ ys" "q + page_round (dhpg heap) ?n \<le> e"
      "live 0 (heap_blks heap') = xs @ (q, e) # ys" by auto
    let ?abs = "map (\<lambda>x. (?v + fst x, ?v + snd x))"
    have "device_payloads heap = ?abs xs @ ?abs ys" by (simp add: device_payloads_def L(1))
    moreover have "device_payloads heap' = ?abs xs @ (unat (dh_vaddr heap + of_nat q), ?v + e) # ?abs ys"
      using L(3) by (simp add: device_payloads_def same(1) addr(1))
    moreover have "unat (dh_vaddr heap + of_nat q) + ?n \<le> ?v + e"
      using L(2) page_round_ge [OF device_pages(4) [OF cfg], of ?n] unfolding addr(1) by linarith
    ultimately show ?thesis
      using addr(2) run(2) unfolding device_outcome_def q(2) by auto
  qed (use run(2) in \<open>simp add: device_outcome_def\<close>)
  with run(1,3) show ?thesis by blast
qed

lemma device_alloc_eq_array:
  assumes "cudamem_config_ok (dh_config heap)" "unat n + dhpg heap \<le> 2 ^ 64"
  shows "\<exists>cnt. cudamem_heap_block_alloc os heap n k =
      cudamem_heap_block_alloc_array os heap cnt (size_of_int (dc_pagesize (dh_config heap))) k \<and>
    unat cnt * dhpg heap = page_round (dhpg heap) (unat n)"
proof -
  note pages = device_pages [OF assms(1)]
  obtain s h where sh: "s \<le> h" "h \<le> 30" "dc_pagesize (dh_config heap) = 2 ^ s"
    "size_of_int (dc_pagesize (dh_config heap)) = 2 ^ s" "dhpg heap = 2 ^ s"
    using assms(1) by (elim device_configE)
  let ?pg = "size_of_int (dc_pagesize (dh_config heap))"
  let ?tot = "(n + ?pg - 1) AND size_of_int (NOT (dc_pagesize (dh_config heap) - 1))"
  have "unat (n + 2 ^ s - 1) = unat n + 2 ^ s - 1"
    using unat_plus_page [of n s] assms(2) sh(1,2,5) by simp
  then have tot: "unat ?tot = page_round (dhpg heap) (unat n)"
    unfolding sh(4) unfolding sh(3,5) unat_round_mask page_round_def by (simp add: nat_power_eq)
  have nz: "?pg \<noteq> 0" using pages(4,6) by auto
  have "unat (?tot div ?pg) * dhpg heap = page_round (dhpg heap) (unat n)"
    using pages(4) unfolding unat_div tot pages(6) page_round_def by simp
  moreover have "cudamem_heap_block_alloc os heap n k = cudamem_heap_block_alloc_array os heap (?tot div ?pg) ?pg k"
    using nz by (simp add: cudamem_heap_block_alloc_def cudamem_heap_block_alloc_aligned_def
        cudamem_heap_block_alloc_array_def Let_def)
  ultimately show ?thesis by blast
qed

lemma device_request_live:
  assumes "device_ok heap" "device_request_ok (heap, k) r"
  shows "\<exists>x heap' k'. device_request os (heap, k) r = Some (x, (heap', k')) \<and> same_device heap heap' \<and>
    device_outcome heap' (device_payloads heap) (nbytes r) x"
proof -
  have cfg: "cudamem_config_ok (dh_config heap)" using assms(1) by (simp add: device_ok_def)
  note pages = device_pages [OF cfg]
  have same: "same_device heap heap" by (simp add: same_device_def)
  have small: "dhpg heap \<le> 2 ^ 30" using pages(3,5) by linarith
  have bad: "device_outcome heap (device_payloads heap) m (Inl EINVAL)" for m
    using assms(1) by (simp add: device_outcome_def)
  show ?thesis
  proof (cases r)
    case (Array cnt elem)
    then have "unat cnt * unat elem + dhpg heap \<le> 2 ^ 64"
      using assms(2) small by (simp add: device_request_ok_def)
    with device_array_live [OF assms(1), of elem cnt os k] Array same bad show ?thesis
      by (cases "elem = 0 \<or> cnt = 0") (auto simp: cudamem_dma_alloc_array_def)
  next
    case (Bytes n)
    show ?thesis
    proof (cases "n = 0")
      case True
      with Bytes same bad show ?thesis by (auto simp: cudamem_dma_malloc_def)
    next
      case False
      have n: "unat n \<le> 2 ^ 63" using assms(2) Bytes by (simp add: device_request_ok_def)
      then have "unat n + dhpg heap \<le> 2 ^ 64" using small by simp
      from device_alloc_eq_array [OF cfg this, of os k] obtain cnt where
        c: "cudamem_heap_block_alloc os heap n k =
          cudamem_heap_block_alloc_array os heap cnt (size_of_int (dc_pagesize (dh_config heap))) k"
        "unat cnt * dhpg heap = page_round (dhpg heap) (unat n)" by blast
      have ge: "unat n \<le> page_round (dhpg heap) (unat n)" by (rule page_round_ge [OF pages(4)])
      have "page_round (dhpg heap) (unat n) \<le> unat n + dhpg heap - 1"
        by (simp add: page_round_def div_times_less_eq_dividend)
      then have tot: "unat cnt * unat (size_of_int (dc_pagesize (dh_config heap))) + dhpg heap \<le> 2 ^ 64"
        unfolding pages(6) c(2) using n small by simp
      have "cnt \<noteq> 0" using c(2) ge False by (auto simp: unat_eq_0)
      moreover have "size_of_int (dc_pagesize (dh_config heap)) \<noteq> 0" using pages(4,6) by auto
      ultimately obtain x heap' k' where x: "cudamem_heap_block_alloc os heap n k = Some (x, heap', k')"
        "same_device heap heap'" "device_outcome heap' (device_payloads heap) (page_round (dhpg heap) (unat n)) x"
        using device_array_live [OF assms(1) _ _ tot, of os k] unfolding c(1) pages(6) c(2) by blast
      have "device_outcome heap' (device_payloads heap) (unat n) x"
        by (rule device_outcome_weaken [OF x(3) ge])
      with x(1,2) Bytes False show ?thesis by (auto simp: cudamem_dma_malloc_def)
    qed
  qed
qed

text \<open>A release keeps the heap in order, also of an address that was never given out.\<close>

lemma device_free_keeps:
  assumes "device_ok heap"
  shows "device_ok (cudamem_heap_block_free heap p)" "same_device heap (cudamem_heap_block_free heap p)"
    "p \<noteq> 0 \<longrightarrow> heap_blks (cudamem_heap_block_free heap p) = ff_free 0 (unat (p - dh_vaddr heap)) (heap_blks heap)"
proof -
  let ?v = "dh_vaddr heap" and ?S = "unat (dh_size heap)"
  from assms have sp: "space_ok ?v ?S" and t: "tiles 0 ?S 0 (heap_blks heap)" and ps: "positive (heap_blks heap)"
    and cfg: "cudamem_config_ok (dh_config heap)" by (simp_all add: device_ok_def)
  have "distinct (map db_vaddr (dh_freelist heap))"
  proof -
    have "map b_off (heap_blks heap) = map (\<lambda>a. unat (a - ?v)) (map db_vaddr (dh_freelist heap))" by simp
    then have "distinct (map (\<lambda>a. unat (a - ?v)) (map db_vaddr (dh_freelist heap)))"
      using positive_offsets [OF t ps] by (simp only: map_map o_def device_blk_simps)
    then show ?thesis by (simp only: distinct_map)
  qed
  from device_free_loop_refines [OF _ t this, of p] sp
  have ff: "device_blks ?v (device_free_loop p (dh_freelist heap)) = ff_free 0 (unat (p - ?v)) (heap_blks heap)"
    by (simp add: space_ok_def)
  have h: "cudamem_heap_block_free heap p =
      (if p = 0 then heap else heap\<lparr>dh_freelist := device_free_loop p (dh_freelist heap)\<rparr>)"
    by (simp add: cudamem_heap_block_free_def)
  show "same_device heap (cudamem_heap_block_free heap p)" by (simp add: h same_device_def)
  show "p \<noteq> 0 \<longrightarrow> heap_blks (cudamem_heap_block_free heap p) = ff_free 0 (unat (p - ?v)) (heap_blks heap)"
    using ff by (simp add: h)
  show "device_ok (cudamem_heap_block_free heap p)"
    using assms cfg sp ff ff_free_tiles [OF t, of "unat (p - ?v)"] ff_free_positive [OF ps, of 0 "unat (p - ?v)"]
    by (simp add: device_ok_def h)
qed

lemma device_release_live:
  assumes "device_ok heap" "unat p \<in> fst ` set (device_payloads heap)"
  shows "device_ok (cudamem_dma_free heap p)" "same_device heap (cudamem_dma_free heap p)"
    "heap_blks (cudamem_dma_free heap p) = ff_free 0 (unat (p - dh_vaddr heap)) (heap_blks heap)"
    "device_payloads (cudamem_dma_free heap p) = filter (\<lambda>x. fst x \<noteq> unat p) (device_payloads heap)"
proof -
  let ?v = "dh_vaddr heap"
  have nz: "p \<noteq> 0" using assms by (auto simp: device_payloads_def space_ok_def device_ok_def)
  have h: "cudamem_dma_free heap p = cudamem_heap_block_free heap p" by (simp add: cudamem_dma_free_def)
  note keeps = device_free_keeps [OF assms(1), of p]
  show "device_ok (cudamem_dma_free heap p)" "same_device heap (cudamem_dma_free heap p)" using keeps(1,2) by (simp_all only: h)
  show blks: "heap_blks (cudamem_dma_free heap p) = ff_free 0 (unat (p - ?v)) (heap_blks heap)"
    using keeps(3) nz by (simp only: h simp_thms)
  have va: "dh_vaddr (cudamem_dma_free heap p) = ?v" by (rule same_deviceD(1)) (simp only: h keeps(2))
  from assms(2) obtain y where y: "y \<in> set (live 0 (heap_blks heap))" "unat p = unat ?v + fst y"
    by (auto simp: device_payloads_def)
  then have "unat (p - ?v) = fst y" by (simp add: unat_sub_u64)
  then have "device_payloads (cudamem_dma_free heap p) =
      map (\<lambda>x. (unat ?v + fst x, unat ?v + snd x)) (filter (\<lambda>x. fst x \<noteq> fst y) (live 0 (heap_blks heap)))"
    using blks va by (simp add: device_payloads_def ff_free_live)
  also have "\<dots> = filter (\<lambda>x. fst x \<noteq> unat p) (device_payloads heap)"
    unfolding device_payloads_def filter_map by (rule arg_cong [where f = "map _"]) (simp add: y(2) o_def)
  finally show "device_payloads (cudamem_dma_free heap p) = filter (\<lambda>x. fst x \<noteq> unat p) (device_payloads heap)" .
qed

lemma device_payloads_order:
  assumes "device_ok heap"
  shows "sorted_wrt (\<lambda>x y. fst x < fst y \<and> snd x \<le> fst y) (device_payloads heap)"
  using live_ordered_positive [of "unat (dh_size heap)" 0 "heap_blks heap"] assms
  by (simp add: device_ok_def device_payloads_def sorted_wrt_map)

interpretation device: dma_allocator device_live device_request_ok "device_request os" device_release for os
proof (unfold_locales, goal_cases)
  case (1 hk L)
  then show ?case using device_payloads_order by (auto simp: device_live_def)
next
  case (2 hk L n)
  obtain heap k where hk: "hk = (heap, k)" by (cases hk)
  from 2 have ok: "device_ok heap" and L: "L = device_payloads heap" by (simp_all add: hk device_live_def)
  from device_request_live [OF ok, of k n os] 2(2) obtain x heap' k' where
    x: "device_request os (heap, k) n = Some (x, (heap', k'))"
    "device_outcome heap' (device_payloads heap) (nbytes n) x" by (auto simp: hk)
  have "device_request_ok (heap', k') = device_request_ok (heap, k)" by (intro ext) (simp add: device_request_ok_def)
  with x show ?case unfolding hk L
    by (intro exI [of _ x] exI [of _ "(heap', k')"])
      (cases x; auto simp: device_outcome_def device_live_def; blast)
next
  case (3 hk L p)
  then have "device_ok (fst hk)" "unat p \<in> fst ` set (device_payloads (fst hk))" by (auto simp: device_live_def)
  note r = device_release_live [OF this]
  have "device_request_ok (cudamem_dma_free (fst hk) p, snd hk) = device_request_ok hk"
    by (intro ext) (simp add: device_request_ok_def)
  with r 3 show ?case by (simp add: device_release_def device_live_def)
qed

end
