(* ===== verification/Cudamem_Dma.thy ===== *)
theory Cudamem_Dma
  imports Cudamem_Alloc Prp_Builder
begin

unbundle bit_operations_syntax

text \<open>
  Translation of GPU addresses to physical addresses, the contract the PRP builders rely on, and
  the builders for buffers of the heap on GPU memory
  (\<open>include/upcie/nvme/nvme_request_cuda.h\<close>).
\<close>

section \<open>Translation\<close>

text \<open>What \<open>cudamem_heap_init\<close> establishes: one entry of the table per device page.\<close>

definition device_lut_ok :: "cudamem_heap \<Rightarrow> bool" where
  "device_lut_ok heap \<longleftrightarrow> cudamem_config_ok (dh_config heap) \<and>
     space_ok (dh_vaddr heap) (unat (dh_size heap)) \<and>
     length (dh_phys_lut heap) = unat (dh_nphys heap) \<and>
     unat (dh_nphys heap) * dpg heap \<le> unat (dh_size heap)"

definition device_phys :: "cudamem_heap \<Rightarrow> nat \<Rightarrow> u64" where
  "device_phys heap x = dh_phys_lut heap ! (x div dpg heap) + of_nat (x mod dpg heap)"

abbreviation device_limit :: "cudamem_heap \<Rightarrow> nat" where
  "device_limit heap \<equiv> unat (dh_nphys heap) * dpg heap"

lemma device_offset:
  assumes "device_lut_ok heap" "x < device_limit heap"
  shows "x div dpg heap < unat (dh_nphys heap)" "x < unat (dh_size heap)"
    "unat (dh_vaddr heap + of_nat x - dh_vaddr heap) = x" "unat (dh_vaddr heap + of_nat x) = unat (dh_vaddr heap) + x"
proof -
  from assms show x: "x < unat (dh_size heap)" by (simp add: device_lut_ok_def)
  show "x div dpg heap < unat (dh_nphys heap)" using assms(2) by (simp add: less_mult_imp_div_less)
  have "x < 2 ^ 64" using x unat_u64_bound [of "dh_size heap"] by linarith
  then show "unat (dh_vaddr heap + of_nat x - dh_vaddr heap) = x" by (simp add: unat_of_nat_u64)
  show "unat (dh_vaddr heap + of_nat x) = unat (dh_vaddr heap) + x"
    by (rule space_ok_addr(1)) (use assms(1) x in \<open>auto simp: device_lut_ok_def\<close>)
qed

lemma device_offset_parts:
  assumes "cudamem_config_ok (dh_config heap)"
  shows "unat (off div size_of_int (dc_device_pagesize (dh_config heap))) = unat off div dpg heap"
    and "off mod size_of_int (dc_device_pagesize (dh_config heap)) = of_nat (unat off mod dpg heap)"
    and "unat (drop_bit (nat (dc_device_pagesize_shift (dh_config heap))) (off :: u64)) = unat off div dpg heap"
    and "off AND size_of_int (dc_device_pagesize (dh_config heap) - 1) = of_nat (unat off mod dpg heap)"
    and "size_of_int (dc_device_pagesize (dh_config heap)) \<noteq> 0"
        "0 \<le> dc_device_pagesize_shift (dh_config heap)" "dc_device_pagesize_shift (dh_config heap) < 64"
proof -
  obtain h where h: "h \<le> 30" "dc_device_pagesize (dh_config heap) = 2 ^ h"
    "dc_device_pagesize_shift (dh_config heap) = int h" "dpg heap = 2 ^ h" using assms by (elim device_configE)
  note pages = device_pages [OF assms]
  show "unat (off div size_of_int (dc_device_pagesize (dh_config heap))) = unat off div dpg heap"
    by (simp add: unat_div pages(7))
  show "off mod size_of_int (dc_device_pagesize (dh_config heap)) = of_nat (unat off mod dpg heap)"
    by (rule u64_eqI) (simp only: unat_mod pages(7) unat_mod_back)
  show "unat (drop_bit (nat (dc_device_pagesize_shift (dh_config heap))) off) = unat off div dpg heap"
    using unat_drop_bit_u64 [of h off] unfolding h(3,4) by simp
  have "size_of_int (dc_device_pagesize (dh_config heap) - 1) = 2 ^ h - 1" by (simp add: h(2) size_of_int_def)
  then show "off AND size_of_int (dc_device_pagesize (dh_config heap) - 1) = of_nat (unat off mod dpg heap)"
    by (intro u64_eqI) (simp only: unat_mod_back unat_and_mask h(4))
  show "size_of_int (dc_device_pagesize (dh_config heap)) \<noteq> 0" using pages(2,7) by auto
  show "0 \<le> dc_device_pagesize_shift (dh_config heap)" "dc_device_pagesize_shift (dh_config heap) < 64"
    using h by simp_all
qed

lemma device_vtp_eq:
  assumes "device_lut_ok heap" "x < device_limit heap"
  shows "cudamem_heap_block_vtp dbg heap (dh_vaddr heap + of_nat x) = Some (device_phys heap x)"
proof -
  have cfg: "cudamem_config_ok (dh_config heap)" "length (dh_phys_lut heap) = unat (dh_nphys heap)"
    using assms(1) by (simp_all add: device_lut_ok_def)
  note parts = device_offset_parts [OF cfg(1)]
  have "drop_bit (nat (dc_device_pagesize_shift (dh_config heap))) (dh_vaddr heap + of_nat x - dh_vaddr heap) < dh_nphys heap"
    using device_offset(1) [OF assms] by (simp only: word_less_nat_alt parts(3) device_offset(3) [OF assms])
  then show ?thesis
    using device_offset(1) [OF assms] parts(6,7) unfolding cudamem_heap_block_vtp_def Let_def parts(3,4)
      device_offset(3) [OF assms] device_phys_def
    by (simp add: cfg(2))
qed

lemma device_virt_to_phys_eq:
  assumes "device_lut_ok heap" "x < device_limit heap"
  shows "cudamem_heap_block_virt_to_phys heap (dh_vaddr heap + of_nat x) = Some (Inr (device_phys heap x))"
proof -
  have cfg: "cudamem_config_ok (dh_config heap)" "length (dh_phys_lut heap) = unat (dh_nphys heap)"
    and sp: "space_ok (dh_vaddr heap) (unat (dh_size heap))"
    using assms(1) by (simp_all add: device_lut_ok_def)
  note parts = device_offset_parts [OF cfg(1)]
  let ?off = "dh_vaddr heap + of_nat x - dh_vaddr heap"
  have idx: "\<not> dh_nphys heap \<le> ?off div size_of_int (dc_device_pagesize (dh_config heap))"
    using device_offset(1) [OF assms]
    by (simp only: word_le_nat_alt parts(1) device_offset(3) [OF assms] not_le)
  have "unat (dh_vaddr heap + dh_size heap) = unat (dh_vaddr heap) + unat (dh_size heap)"
    using sp by (simp add: space_ok_def unat_add_u64)
  then have in_range: "\<not> dh_vaddr heap + of_nat x < dh_vaddr heap" "\<not> dh_vaddr heap + dh_size heap \<le> dh_vaddr heap + of_nat x"
    "dh_vaddr heap + of_nat x \<noteq> 0"
    using device_offset(2,4) [OF assms] space_ok_addr(2) [OF sp, of x]
    by (auto simp: word_le_nat_alt word_less_nat_alt)
  have lut: "dh_phys_lut heap \<noteq> []" using device_offset(1) [OF assms] cfg(2) by auto
  have get: "array_get (dh_phys_lut heap) (x div dpg heap) = Some (dh_phys_lut heap ! (x div dpg heap))"
    using device_offset(1) [OF assms] cfg(2) by simp
  show ?thesis
    using in_range lut unfolding cudamem_heap_block_virt_to_phys_def Let_def
    by (simp only: idx parts(1,2,5) device_offset(3) [OF assms] get device_phys_def if_False simp_thms
        bind.bind_lunit)
qed

interpretation device_space: dma_translation device_lut_ok "cudamem_heap_block_vtp dbg" dh_vaddr dpg
    "\<lambda>heap i. dh_phys_lut heap ! i" device_limit for dbg
proof
  fix heap assume ok: "device_lut_ok heap"
  then have cfg: "cudamem_config_ok (dh_config heap)" by (simp add: device_lut_ok_def)
  show "0 < dpg heap" by (rule device_pages(2) [OF cfg])
  show "unat (dh_vaddr heap) + device_limit heap < 2 ^ 64"
    using ok by (simp add: device_lut_ok_def space_ok_def)
  show "cudamem_heap_block_vtp dbg heap (dh_vaddr heap + of_nat x) =
      Some (dh_phys_lut heap ! (x div dpg heap) + of_nat (x mod dpg heap))" if "x < device_limit heap" for x
    using device_vtp_eq [OF ok that, of dbg] by (simp add: device_phys_def)
qed

lemma device_space_phys: "device_space.phys = device_phys"
  by (intro ext) (simp add: device_space.phys_def device_phys_def)

definition device_dma :: "cudamem_heap \<Rightarrow> bool" where
  "device_dma heap \<longleftrightarrow> device_lut_ok heap \<and> dhpg heap dvd unat (dh_vaddr heap)"

abbreviation dpage_bits :: "cudamem_heap \<Rightarrow> nat" where
  "dpage_bits heap \<equiv> nat (dc_pagesize_shift (dh_config heap))"
abbreviation device_page_bits :: "cudamem_heap \<Rightarrow> nat" where
  "device_page_bits heap \<equiv> nat (dc_device_pagesize_shift (dh_config heap))"

interpretation device_buffers: prp_region device_dma "cudamem_heap_block_vtp dbg" dh_vaddr dpg
    "\<lambda>heap i. dh_phys_lut heap ! i" device_limit dpage_bits device_page_bits for dbg
proof
  fix heap assume dma: "device_dma heap"
  then have ok: "device_lut_ok heap" by (simp add: device_dma_def)
  then have cfg: "cudamem_config_ok (dh_config heap)" by (simp add: device_lut_ok_def)
  then obtain k h where kh: "k \<le> h" "h \<le> 30" "dc_pagesize_shift (dh_config heap) = int k"
    "dc_device_pagesize_shift (dh_config heap) = int h" "dhpg heap = 2 ^ k" "dpg heap = 2 ^ h" by (elim device_configE)
  show "0 < dpg heap" by (rule device_space.hp_pos [OF ok])
  show "unat (dh_vaddr heap) + device_limit heap < 2 ^ 64" by (rule device_space.fits [OF ok])
  show "cudamem_heap_block_vtp dbg heap (dh_vaddr heap + of_nat x) =
      Some (dh_phys_lut heap ! (x div dpg heap) + of_nat (x mod dpg heap))" if "x < device_limit heap" for x
    by (rule device_space.translate [OF ok that])
  show "dpg heap = 2 ^ device_page_bits heap \<and> dpage_bits heap \<le> device_page_bits heap \<and> device_page_bits heap < 63"
    using kh by simp
  show "2 ^ dpage_bits heap dvd unat (dh_vaddr heap) \<and> 0 < unat (dh_vaddr heap)"
    using dma ok kh unfolding device_dma_def device_lut_ok_def space_ok_def by simp
qed

lemma device_buffers_phys: "device_buffers.phys = device_phys"
  by (intro ext) (simp add: device_buffers.phys_def device_phys_def)

lemma device_buffers_sizes:
  assumes "device_dma heap"
  shows "dc_device_pagesize (dh_config heap) = 2 ^ device_page_bits heap"
    "dc_pagesize (dh_config heap) = 2 ^ dpage_bits heap"
    "dc_pagesize_shift (dh_config heap) = int (dpage_bits heap)" "dhpg heap = 2 ^ dpage_bits heap"
    "dpage_bits heap < 63" "device_buffers.geometry heap (dpage_bits heap) (device_page_bits heap)"
proof -
  from assms have cfg: "cudamem_config_ok (dh_config heap)" by (simp add: device_dma_def device_lut_ok_def)
  then obtain k h where kh: "k \<le> h" "h \<le> 30" "dc_pagesize (dh_config heap) = 2 ^ k"
    "dc_device_pagesize (dh_config heap) = 2 ^ h" "dc_pagesize_shift (dh_config heap) = int k"
    "dc_device_pagesize_shift (dh_config heap) = int h" "dhpg heap = 2 ^ k" by (elim device_configE)
  then show "dc_device_pagesize (dh_config heap) = 2 ^ device_page_bits heap"
    "dc_pagesize (dh_config heap) = 2 ^ dpage_bits heap"
    "dc_pagesize_shift (dh_config heap) = int (dpage_bits heap)" "dpage_bits heap < 63" by simp_all
  show "dhpg heap = 2 ^ dpage_bits heap" unfolding kh(5,7) by simp
  show "device_buffers.geometry heap (dpage_bits heap) (device_page_bits heap)"
    using assms by (simp add: device_buffers.geometry_def)
qed

section \<open>The PRP builders on GPU memory\<close>

definition nvme_request_prp_retranslate_cuda :: "bool \<Rightarrow> cudamem_heap \<Rightarrow> u64 \<Rightarrow> u64 option" where
  "nvme_request_prp_retranslate_cuda dbg heap vaddr = cudamem_heap_block_vtp dbg heap vaddr"

definition nvme_request_prep_command_prps_contig_cuda ::
  "bool \<Rightarrow> nvme_request \<Rightarrow> cudamem_heap \<Rightarrow> u64 \<Rightarrow> u64 \<Rightarrow> u64 list \<Rightarrow> nvme_command \<Rightarrow>
   (u64 list \<times> nvme_command) option" where
  "nvme_request_prep_command_prps_contig_cuda dbg request heap dbuf dbuf_nbytes lst cmd =
     prep_prps_contig dbg (nvme_request_prp_retranslate_cuda dbg heap) (dh_vaddr heap)
       (dc_device_pagesize (dh_config heap)) (dc_pagesize (dh_config heap)) (dc_pagesize_shift (dh_config heap))
       request dbuf dbuf_nbytes lst cmd"

definition nvme_request_prep_command_prps_iov_cuda ::
  "bool \<Rightarrow> nvme_request \<Rightarrow> cudamem_heap \<Rightarrow> (u64 \<times> u64) list \<Rightarrow> u64 list \<Rightarrow> nvme_command \<Rightarrow>
   (u64 list \<times> nvme_command) option" where
  "nvme_request_prep_command_prps_iov_cuda dbg request heap dvec lst cmd =
     prep_prps_iov (cudamem_heap_block_vtp dbg heap) (dc_pagesize (dh_config heap)) request dvec lst cmd"

lemma retranslate_cuda_eq: "nvme_request_prp_retranslate_cuda = cudamem_heap_block_vtp"
  by (intro ext) (simp add: nvme_request_prp_retranslate_cuda_def)

end
