(* ===== verification/Cudamem_Props.thy ===== *)
theory Cudamem_Props
  imports Cudamem_Dma
begin

unbundle bit_operations_syntax

text \<open>
  What the heap on GPU memory promises its clients, from the refinement of \<open>Cudamem_Alloc\<close> and
  the contracts \<open>device\<close> (allocation) and \<open>device_buffers\<close> (translation and PRP entries).
\<close>

section \<open>A fresh heap\<close>

text \<open>The heap as \<open>cudamem_heap_init\<close> leaves it.\<close>

definition fresh_device :: "u64 \<Rightarrow> u64 \<Rightarrow> cudamem_config \<Rightarrow> dmabuf \<Rightarrow> u64 list \<Rightarrow> cudamem_heap" where
  "fresh_device v sz cfg buf lut =
     \<lparr>dh_vaddr = v, dh_freelist = [\<lparr>db_vaddr = v, db_size = sz, db_free = True\<rparr>], dh_dmabuf = buf,
      dh_config = cfg, dh_size = sz, dh_nphys = sz div size_of_int (dc_device_pagesize cfg), dh_phys_lut = lut\<rparr>"

lemma fresh_device_ok:
  assumes "cudamem_config_ok cfg" "space_ok v (unat sz)" "sz \<noteq> 0"
  shows "device_ok (fresh_device v sz cfg buf lut)" "device_payloads (fresh_device v sz cfg buf lut) = []"
    "heap_blks (fresh_device v sz cfg buf lut) = [Blk 0 (unat sz) True]"
  using assms by (simp_all add: fresh_device_def device_ok_def device_payloads_def device_blk_def unat_gt_0)

lemma fresh_device_lut:
  assumes "cudamem_config_ok cfg" "space_ok v (unat sz)" "length lut = unat sz div nat (dc_device_pagesize cfg)"
  shows "device_lut_ok (fresh_device v sz cfg buf lut)"
proof -
  have "unat (size_of_int (dc_device_pagesize cfg)) = nat (dc_device_pagesize cfg)"
    using device_pages(7) [of "fresh_device v sz cfg buf lut"] assms(1) by (simp add: fresh_device_def)
  then show ?thesis using assms by (simp add: device_lut_ok_def fresh_device_def unat_div)
qed

text \<open>The heap of the examples: 256 KiB in device pages of 64 KiB, host pages of 4 KiB, and a
  \<open>malloc\<close> that always succeeds.\<close>

definition example_device_config :: cudamem_config where
  "example_device_config = \<lparr>dc_pagesize = 4096, dc_pagesize_shift = 12, dc_device_pagesize = 65536,
     dc_device_pagesize_shift = 16, dc_device_memsize = 0x200000000, dc_bar1_size = 0x200000000,
     dc_alloc_granularity = 0x200000, dc_alloc_granularity_shift = 21\<rparr>"

definition example_device :: cudamem_heap where
  "example_device = fresh_device 0x7F0000000000 0x40000 example_device_config
     \<lparr>dm_fd = 5, dm_npages = 2, dm_pages = [(0x380000000, 0x30000), (0x390000000, 0x10000)]\<rparr>
     [0x380000000, 0x380010000, 0x380020000, 0x390000000]"

definition plain_os :: "unit os" where
  "plain_os = \<lparr>os_malloc = (\<lambda>k. (True, k)), os_open = (\<lambda>k p. (Inl 2, k)), os_close = (\<lambda>k f. k)\<rparr>"

lemma plain_malloc: "\<forall>k. fst (os_malloc plain_os k)"
  by (simp add: plain_os_def)

lemma example_device_config_ok: "cudamem_config_ok example_device_config"
  by (simp add: cudamem_config_ok_def example_device_config_def)

lemma example_device_space: "space_ok 0x7F0000000000 (unat (0x40000 :: u64))"
  by (simp add: space_ok_def)

lemma example_device_ok:
  "device_ok example_device" "device_payloads example_device = []"
  "heap_blks example_device = [Blk 0 0x40000 True]"
  using fresh_device_ok [OF example_device_config_ok example_device_space] unfolding example_device_def by simp_all

lemma example_device_facts:
  "dpg example_device = 65536" "dhpg example_device = 4096" "dh_vaddr example_device = 0x7F0000000000"
  "dh_size example_device = 0x40000" "dh_nphys example_device = 4" "dpage_bits example_device = 12"
  by (simp_all add: example_device_def fresh_device_def example_device_config_def)

lemma example_device_dma: "device_dma example_device" "device_lut_ok example_device"
proof -
  show lut: "device_lut_ok example_device"
    unfolding example_device_def
    by (rule fresh_device_lut [OF example_device_config_ok example_device_space])
      (simp add: example_device_config_def)
  then show "device_dma example_device" by (simp add: device_dma_def example_device_facts)
qed

section \<open>Allocation and release\<close>

text \<open>C32: no sequence of allocations and releases on a GPU heap by a client that frees only what
  it was given goes wrong, whichever allocations of descriptors fail; the buffers the client
  holds at its end are pairwise disjoint, and one payload belongs to each.\<close>

theorem cudamem_dma_run_apart:
  assumes "device_ok heap" "device_payloads heap = []"
    and "list_all (event_ok (\<lambda>r. nbytes r \<le> 2 ^ 63)) evs"
  shows "\<exists>heap' k' owned. dma_run (device_request os) device_release evs ((heap, k), [])
      = Some ((heap', k'), owned) \<and> sorted_wrt apart owned \<and> device_ok heap' \<and>
    length (device_payloads heap') = length owned"
proof -
  have "device_live (heap, k) []" using assms(1,2) by (simp add: device_live_def)
  moreover have "device_request_ok (heap, k) = (\<lambda>r. nbytes r \<le> 2 ^ 63)"
    by (intro ext) (simp add: device_request_ok_def)
  ultimately show ?thesis
    using device.run_apart [of "(heap, k)" evs os] assms(3) by (fastforce simp: device_live_def)
qed

theorem cudamem_dma_run_apart_witness:
  "\<exists>heap' k' owned. dma_run (device_request plain_os) device_release
     [Malloc (Bytes 4096), Malloc (Array 16 4096), Free 0x7F0000000000, Malloc (Array 1 65536)]
     ((example_device, ()), []) = Some ((heap', k'), owned) \<and> sorted_wrt apart owned"
  using cudamem_dma_run_apart [OF example_device_ok(1,2), of
    "[Malloc (Bytes 4096), Malloc (Array 16 4096), Free 0x7F0000000000, Malloc (Array 1 65536)]" plain_os "()"]
  by auto

text \<open>while descriptors can be allocated, the array allocation on GPU memory computes what
  first fit on blocks without headers computes, and it fails with \<open>ENOMEM\<close> exactly when first
  fit finds no block.\<close>

theorem cudamem_alloc_array_refines_first_fit:
  assumes "device_ok heap" "elem \<noteq> 0" "cnt \<noteq> 0" "unat cnt * unat elem + dhpg heap \<le> 2 ^ 64"
    and "unat elem \<le> dpg heap" "unat cnt * unat elem \<le> dpg heap \<or> unat elem dvd dpg heap"
    and "\<forall>k. fst (os_malloc os k)"
  shows "let ff = ff_alloc (dpg heap) 0 0 (unat elem) (page_round (dhpg heap) (unat cnt * unat elem)) (heap_blks heap)
    in \<exists>heap' k'. cudamem_heap_block_alloc_array os heap cnt elem k = Some
      (case fst ff of None \<Rightarrow> Inl ENOMEM | Some q \<Rightarrow> Inr (dh_vaddr heap + of_nat q), heap', k') \<and>
      heap_blks heap' = snd ff \<and> device_ok heap'"
  using device_array_outcome [OF assms(1-4), of os k] assms(5-7) by (simp add: Let_def) metis

theorem cudamem_alloc_array_refines_first_fit_witness:
  "\<exists>heap' k'. cudamem_heap_block_alloc_array plain_os example_device 3 0x8000 () =
     Some (Inr 0x7F0000000000, heap', k') \<and> heap_blks heap' = [Blk 0 0x18000 False, Blk 0x18000 0x28000 True]"
proof -
  have ff: "ff_alloc 65536 0 0 (unat (0x8000 :: u64)) (page_round 4096 (unat (3 :: u64) * unat (0x8000 :: u64))) [Blk 0 0x40000 True] =
      (Some 0, [Blk 0 0x18000 False, Blk 0x18000 0x28000 True])"
    by (simp add: ff_alloc_fit page_round_def)
  note r = cudamem_alloc_array_refines_first_fit [OF example_device_ok(1) _ _ _ _ _ plain_malloc, of "0x8000" 3 "()",
      unfolded example_device_ok(3), unfolded example_device_facts, unfolded Let_def ff]
  have "\<exists>heap' k'. cudamem_heap_block_alloc_array plain_os example_device 3 0x8000 () =
      Some (Inr (0x7F0000000000 + of_nat 0), heap', k') \<and> heap_blks heap' = [Blk 0 0x18000 False, Blk 0x18000 0x28000 True]"
    using r by fastforce
  then show ?thesis by simp
qed

text \<open>Elements of an array never straddle device pages, so each is physically contiguous.\<close>

lemma device_elements_contiguous:
  assumes ok: "device_ok heap" "device_lut_ok heap" "unat (dh_size heap) = device_limit heap"
    and pos: "elem \<noteq> 0" "cnt \<noteq> 0" and tot: "unat cnt * unat elem + dhpg heap \<le> 2 ^ 64"
    and run: "cudamem_heap_block_alloc_array os heap cnt elem k = Some (Inr p, heap', k')"
    and ij: "i < unat cnt" "j < unat elem"
  shows "\<exists>y. cudamem_dma_v2p dbg heap' (p + of_nat (i * unat elem)) = Some y \<and>
    cudamem_dma_v2p dbg heap' (p + of_nat (i * unat elem + j)) = Some (y + of_nat j)"
proof -
  let ?e = "unat elem" and ?n = "unat cnt" and ?v = "dh_vaddr heap"
  from device_array_outcome [OF ok(1) pos tot, of os k] run obtain q where
    q: "q \<le> unat (dh_size heap)" "p = ?v + of_nat q" "?e \<le> dpg heap" "?n * ?e \<le> dpg heap \<or> ?e dvd dpg heap"
    and ff: "ff_alloc (dpg heap) 0 0 ?e (page_round (dhpg heap) (?n * ?e)) (heap_blks heap) = (Some q, heap_blks heap')"
    and ok': "device_ok heap'" and same: "same_device heap heap'" by auto
  from ok(1) have cfg: "cudamem_config_ok (dh_config heap)"
    and t: "tiles 0 (unat (dh_size heap)) 0 (heap_blks heap)" by (simp_all add: device_ok_def)
  note pages = device_pages [OF cfg] and same' = same_deviceD [OF same]
  have ge: "?n * ?e \<le> page_round (dhpg heap) (?n * ?e)" by (rule page_round_ge [OF pages(4)])
  have one: "aligned 1 (heap_blks heap)" by (simp add: aligned_def)
  have straddle: "(q + 0 + i * ?e) div dpg heap = (q + 0 + i * ?e + ?e - 1) div dpg heap"
    by (rule ff_alloc_no_straddle [where thr = 0, OF _ ge pages(2) _ _ q(4) _ _ _ _ one ij(1)])
      (use ff pos(1) in \<open>simp_all add: unat_gt_0\<close>)
  from ff_alloc_live_Some [of "dpg heap" 0 0 ?e "page_round (dhpg heap) (?n * ?e)" "heap_blks heap" q] ff
  obtain xs e ys where L: "live 0 (heap_blks heap') = xs @ (q, e) # ys" "q + page_round (dhpg heap) (?n * ?e) \<le> e" by auto
  then have "(q, e) \<in> set (live 0 (heap_blks heap'))" by simp
  moreover have "tiles 0 (unat (dh_size heap)) 0 (heap_blks heap')"
    using ok' same' by (simp add: device_ok_def)
  ultimately have "q + ?n * ?e \<le> unat (dh_size heap)" using live_bounds L(2) ge by fastforce
  moreover have "i * ?e + ?e \<le> ?n * ?e" using ij(1) by (metis Suc_leI mult_Suc mult_le_mono1 add.commute)
  ultimately have lim: "q + i * ?e + ?e \<le> device_limit heap'" using ok(3) same' by simp
  have lut': "device_lut_ok heap'" using ok(2) same' by (simp add: device_lut_ok_def)
  have v2p: "cudamem_dma_v2p dbg heap' (?v + of_nat x) = Some (device_phys heap' x)" if "x < device_limit heap'" for x
    using device_vtp_eq [OF lut' that, of dbg] same' by (simp add: cudamem_dma_v2p_def)
  have "device_phys heap' (q + i * ?e + j) = device_phys heap' (q + i * ?e) + of_nat j"
    using device_space.contiguous [OF lut', of "q + i * ?e" ?e j] straddle ij(2) same'
    unfolding device_space_phys by simp
  with v2p [of "q + i * ?e"] v2p [of "q + i * ?e + j"] lim ij(2) q(2) show ?thesis
    by (simp add: add.assoc)
qed

text \<open>each element of an array on GPU memory is physically contiguous, also where the
  array crosses device pages whose physical addresses are not adjacent.\<close>

theorem cudamem_array_elements_contiguous:
  assumes "device_ok heap" "device_lut_ok heap" "unat (dh_size heap) = device_limit heap"
    and "elem \<noteq> 0" "cnt \<noteq> 0" "unat cnt * unat elem + dhpg heap \<le> 2 ^ 64"
    and "cudamem_heap_block_alloc_array os heap cnt elem k = Some (Inr p, heap', k')"
    and "i < unat cnt" "j < unat elem"
  shows "\<exists>y. cudamem_dma_v2p dbg heap' (p + of_nat (i * unat elem)) = Some y \<and>
    cudamem_dma_v2p dbg heap' (p + of_nat (i * unat elem + j)) = Some (y + of_nat j)"
  by (rule device_elements_contiguous [OF assms])

theorem cudamem_array_elements_contiguous_witness:
  "\<exists>heap' y. cudamem_heap_block_alloc_array plain_os example_device 2 65536 () = Some (Inr 0x7F0000000000, heap', ()) \<and>
     cudamem_dma_v2p True heap' (0x7F0000000000 + of_nat (1 * 65536)) = Some y \<and>
     cudamem_dma_v2p True heap' (0x7F0000000000 + of_nat (1 * 65536 + 4095)) = Some (y + of_nat 4095)"
proof -
  have "ff_alloc 65536 0 0 65536 131072 [Blk 0 0x40000 True] = (Some 0, [Blk 0 0x20000 False, Blk 0x20000 0x20000 True])"
    by (simp add: ff_alloc_fit)
  moreover have b: "heap_blks example_device = [Blk 0 0x40000 True]" by (rule example_device_ok(3))
  ultimately obtain heap' where h: "cudamem_heap_block_alloc_array plain_os example_device 2 65536 () =
      Some (Inr 0x7F0000000000, heap', ())"
    using device_array_outcome [OF example_device_ok(1), of 65536 2 plain_os "()"] plain_malloc
    unfolding example_device_facts by (auto simp: page_round_def)
  from cudamem_array_elements_contiguous [OF example_device_ok(1) example_device_dma(2) _ _ _ _ h, of 1 4095 True] h
  show ?thesis by (auto simp: example_device_facts)
qed

section \<open>Release\<close>

text \<open>releasing GPU memory merges neighbours: afterwards no two neighbouring blocks are free,
  the other payloads are untouched, and after the last release the free list is the single
  block of the fresh heap, also when the released block was the last of the list.\<close>

theorem cudamem_free_merges:
  assumes "device_ok heap" "unat p \<in> fst ` set (device_payloads heap)"
  shows "device_ok (cudamem_heap_block_free heap p) \<and> merged (heap_blks (cudamem_heap_block_free heap p)) \<and>
    device_payloads (cudamem_heap_block_free heap p) = filter (\<lambda>x. fst x \<noteq> unat p) (device_payloads heap) \<and>
    (device_payloads (cudamem_heap_block_free heap p) = [] \<longrightarrow>
      dh_freelist (cudamem_heap_block_free heap p) =
        [\<lparr>db_vaddr = dh_vaddr heap, db_size = dh_size heap, db_free = True\<rparr>])"
proof -
  have d: "cudamem_dma_free = cudamem_heap_block_free" by (intro ext) (simp add: cudamem_dma_free_def)
  note r = device_release_live [OF assms, unfolded d]
  let ?heap = "cudamem_heap_block_free heap p"
  have t: "tiles 0 (unat (dh_size heap)) 0 (heap_blks heap)" using assms(1) by (simp add: device_ok_def)
  have "dh_freelist ?heap = [\<lparr>db_vaddr = dh_vaddr heap, db_size = dh_size heap, db_free = True\<rparr>]"
    if "device_payloads ?heap = []"
  proof -
    have "live 0 (heap_blks ?heap) = []" using that by (simp add: device_payloads_def)
    then have "heap_blks ?heap = [Blk 0 (unat (dh_size heap)) True]"
      using ff_free_last [OF t] unfolding r(3) by simp
    then obtain b where "dh_freelist ?heap = [b]" "device_blk (dh_vaddr heap) b = Blk 0 (unat (dh_size heap)) True"
      using same_deviceD(1) [OF r(2)] by (auto simp: map_eq_Cons_conv)
    then show ?thesis
      by (simp add: device_blk_def unat_eq_0 u64_eq_iff [symmetric])
  qed
  then show ?thesis using r ff_coalesce_merged by (simp add: ff_free_def)
qed

theorem cudamem_free_merges_witness:
  "\<exists>heap'. cudamem_heap_block_alloc_array plain_os example_device 1 65536 () = Some (Inr 0x7F0000000000, heap', ()) \<and>
     (device_payloads (cudamem_heap_block_free heap' 0x7F0000000000) = [] \<longrightarrow>
       dh_freelist (cudamem_heap_block_free heap' 0x7F0000000000) =
         [\<lparr>db_vaddr = 0x7F0000000000, db_size = 0x40000, db_free = True\<rparr>])"
proof -
  have "ff_alloc 65536 0 0 65536 65536 [Blk 0 0x40000 True] = (Some 0, [Blk 0 0x10000 False, Blk 0x10000 0x30000 True])"
    by (simp add: ff_alloc_fit)
  moreover have "heap_blks example_device = [Blk 0 0x40000 True]" by (rule example_device_ok(3))
  ultimately obtain heap' where h: "cudamem_heap_block_alloc_array plain_os example_device 1 65536 () =
      Some (Inr 0x7F0000000000, heap', ())" "device_ok heap'" "same_device example_device heap'"
    "heap_blks heap' = [Blk 0 0x10000 False, Blk 0x10000 0x30000 True]"
    using device_array_outcome [OF example_device_ok(1), of 65536 1 plain_os "()"] plain_malloc
    unfolding example_device_facts by (auto simp: page_round_def)
  have "unat (0x7F0000000000 :: u64) \<in> fst ` set (device_payloads heap')"
    using h(4) same_deviceD(1) [OF h(3)] unfolding device_payloads_def by (simp add: example_device_facts)
  from cudamem_free_merges [OF h(2) this] h(1) same_deviceD(1,2) [OF h(3)] show ?thesis
    by (auto simp: example_device_facts)
qed

section \<open>Requests that wrap\<close>

text \<open>an array whose size lies less than a page below \<open>2 ^ 64\<close> passes the overflow check, but
  rounding it up to whole pages wraps to zero: the call returns a pointer, and the block it
  hands out has size 0, at the address of the free block that follows.\<close>

theorem cudamem_alloc_array_wraps:
  assumes "cudamem_config_ok cfg" "space_ok v (unat sz)" "sz \<noteq> 0"
    and "elem \<noteq> 0" "unat elem \<le> nat (dc_device_pagesize cfg)" "unat elem dvd nat (dc_device_pagesize cfg)"
    and "unat cnt * unat elem < 2 ^ 64" "2 ^ 64 < unat cnt * unat elem + nat (dc_pagesize cfg)"
    and "os_malloc os k = (True, k')"
  shows "cudamem_dma_alloc_array os (fresh_device v sz cfg buf lut) cnt elem k =
    Some (Inr v, (fresh_device v sz cfg buf lut)\<lparr>dh_freelist :=
      [\<lparr>db_vaddr = v, db_size = 0, db_free = False\<rparr>, \<lparr>db_vaddr = v, db_size = sz, db_free = True\<rparr>]\<rparr>, k')"
proof -
  let ?heap = "fresh_device v sz cfg buf lut"
  have heap: "dh_config ?heap = cfg" "dh_vaddr ?heap = v" "dh_freelist ?heap = [\<lparr>db_vaddr = v, db_size = sz, db_free = True\<rparr>]"
    by (simp_all add: fresh_device_def)
  obtain s h where sh: "s \<le> h" "h \<le> 30" "size_of_int (dc_pagesize cfg) = 2 ^ s" "nat (dc_pagesize cfg) = 2 ^ s"
    using assms(1) by (elim device_configE)
  let ?dp = "size_of_int (dc_device_pagesize cfg)" and ?al = "size_of_int (dc_pagesize cfg)"
  let ?n = "unat cnt * unat elem"
  have dp: "unat ?dp = nat (dc_device_pagesize cfg)" using device_pages(7) [of ?heap] assms(1) by (simp add: heap)
  have nu: "unat (cnt * elem) = ?n" using assms(7) by (simp add: unat_mult_u64)
  have cnt: "cnt \<noteq> 0"
  proof
    assume "cnt = 0"
    with assms(8) have "(2 :: nat) ^ 64 < 2 ^ s" by (simp add: sh(4))
    moreover have "(2 :: nat) ^ s \<le> 2 ^ 30" by (rule power_increasing) (use sh in simp_all)
    ultimately show False by simp
  qed
  have c1: "\<not> SIZE_MAX div elem < cnt"
  proof -
    have "unat SIZE_MAX = 2 ^ 64 - 1" by (simp add: SIZE_MAX_def unsigned_minus_1_eq_mask mask_eq_exp_minus_1)
    moreover have "0 < unat elem" using assms(4) by (simp add: unat_gt_0)
    moreover have "?n \<le> 2 ^ 64 - 1" using assms(7) by linarith
    ultimately have "unat cnt \<le> unat (SIZE_MAX div elem)" by (simp add: unat_div less_eq_div_iff_mult_less_eq)
    then show ?thesis by (simp add: word_less_nat_alt)
  qed
  have c2: "\<not> (?dp < elem \<or> (?dp < cnt * elem \<and> ?dp mod elem \<noteq> 0))"
    using assms(5,6) dp by (auto simp: word_less_nat_alt u64_eq_iff unat_mod mod_eq_0_iff_dvd)
  have "unat (cnt * elem + (2 ^ s - 1)) = (?n + (2 ^ s - 1)) mod 2 ^ 64"
    using unat_sub_u64 [of 1 "2 ^ s"] unat_two_power [of s] sh(1,2) by (simp add: unat_add_wrap nu)
  moreover have "(?n + (2 ^ s - 1)) mod 2 ^ 64 < 2 ^ s"
  proof -
    have two_s: "(2 :: nat) ^ s \<le> 2 ^ 30" by (rule power_increasing) (use sh in simp_all)
    have "(2 :: nat) ^ 30 \<le> 2 ^ 64" "0 < (2 :: nat) ^ s" by simp_all
    then have "2 ^ 64 \<le> ?n + (2 ^ s - 1)" "?n + (2 ^ s - 1) - 2 ^ 64 < 2 ^ s" "?n + (2 ^ s - 1) - 2 ^ 64 < 2 ^ 64"
      using assms(7,8) sh(1,2) two_s unfolding sh(4) by linarith+
    then show ?thesis by (metis le_mod_geq mod_less)
  qed
  ultimately have "unat ((cnt * elem + ?al - 1) AND NOT (?al - 1)) = 0"
    unfolding sh(3) unat_round_down by (simp add: add_diff_eq [symmetric] div_less)
  then have tot: "(cnt * elem + ?al - 1) AND NOT (?al - 1) = 0" by (simp only: unat_eq_0)
  obtain rem dis where pm: "page_misfit v ?dp elem \<lparr>db_vaddr = v, db_size = sz, db_free = True\<rparr> = (rem, dis)"
    by (cases "page_misfit v ?dp elem \<lparr>db_vaddr = v, db_size = sz, db_free = True\<rparr>")
  have "device_alloc_loop os v ?dp 0 elem [\<lparr>db_vaddr = v, db_size = sz, db_free = True\<rparr>] k =
      (Inr v, [\<lparr>db_vaddr = v, db_size = 0, db_free = False\<rparr>, \<lparr>db_vaddr = v, db_size = sz, db_free = True\<rparr>], k')"
    using pm assms(3,9) by (simp add: Let_def)
  then show ?thesis
    unfolding cudamem_dma_alloc_array_def cudamem_heap_block_alloc_array_def cudamem_heap_block_alloc_array_aligned_def
      heap tot Let_def using assms(4) cnt c1 c2 by simp
qed

theorem cudamem_alloc_array_wraps_witness:
  "\<exists>heap'. cudamem_dma_alloc_array plain_os example_device (2 ^ 64 - 1) 1 () = Some (Inr 0x7F0000000000, heap', ())"
proof -
  have "unat (2 ^ 64 - 1 :: u64) = 2 ^ 64 - 1" by simp
  then show ?thesis
    using cudamem_alloc_array_wraps [OF example_device_config_ok example_device_space, of 1 "2 ^ 64 - 1" plain_os "()" "()"]
    unfolding example_device_def by (simp add: example_device_config_def plain_os_def)
qed

end
