(* ===== verification/Cudamem_Mapping.thy ===== *)
theory Cudamem_Mapping
  imports Cudamem_Heap
begin

unbundle bit_operations_syntax

text \<open>
  The registry of GPU buffers that somebody else allocated,
  \<open>include/upcie/cudamem_mapping.h\<close>: a cache of one dma-buf per chunk of the address space, with
  reference counts, and the translation through it.

  The two lookup tables are anonymous mappings that read as zero until written: functions of the
  slot, present when the mapping is, with an access past the capacity undefined. The list of
  registrations owns its nodes, so it is a list. The pointers \<open>registry\<close>, \<open>config\<close> and \<open>phys\<close> are
  not null; the addresses the mappings have are not modelled, since nothing computes with them.
\<close>

section \<open>Data\<close>

definition CUDAMEM_MAPPING_VA_BITS :: nat where "CUDAMEM_MAPPING_VA_BITS = 48"

record cudamem_mapping_chunk_meta =
  cm_rc :: u32
  cm_attach :: dmabuf

record cudamem_mapping_registration =
  mr_vaddr :: u64
  mr_size :: u64

record cudamem_mapping_registry =
  rg_gran_shift :: int
  rg_gran_mask :: u64
  rg_lut_capacity :: u64
  rg_lut_phys :: "(nat \<Rightarrow> u64) option"
  rg_lut_meta :: "(nat \<Rightarrow> cudamem_mapping_chunk_meta) option"
  rg_list :: "cudamem_mapping_registration list"

definition zero_meta :: cudamem_mapping_chunk_meta where
  "zero_meta = \<lparr>cm_rc = 0, cm_attach = no_dmabuf\<rparr>"

definition sizeof_chunk_meta :: u64 where "sizeof_chunk_meta = 32"

text \<open>Loads and stores of slots.\<close>

definition slot_phys :: "cudamem_mapping_registry \<Rightarrow> u64 \<Rightarrow> u64 option" where
  "slot_phys reg idx = (case rg_lut_phys reg of None \<Rightarrow> None
     | Some f \<Rightarrow> if idx < rg_lut_capacity reg then Some (f (unat idx)) else None)"

definition slot_meta :: "cudamem_mapping_registry \<Rightarrow> u64 \<Rightarrow> cudamem_mapping_chunk_meta option" where
  "slot_meta reg idx = (case rg_lut_meta reg of None \<Rightarrow> None
     | Some f \<Rightarrow> if idx < rg_lut_capacity reg then Some (f (unat idx)) else None)"

definition set_phys :: "u64 \<Rightarrow> u64 \<Rightarrow> cudamem_mapping_registry \<Rightarrow> cudamem_mapping_registry option" where
  "set_phys idx a reg = (case rg_lut_phys reg of None \<Rightarrow> None
     | Some f \<Rightarrow> if idx < rg_lut_capacity reg then Some (reg\<lparr>rg_lut_phys := Some (f(unat idx := a))\<rparr>) else None)"

definition set_meta ::
  "u64 \<Rightarrow> cudamem_mapping_chunk_meta \<Rightarrow> cudamem_mapping_registry \<Rightarrow> cudamem_mapping_registry option" where
  "set_meta idx cm reg = (case rg_lut_meta reg of None \<Rightarrow> None
     | Some f \<Rightarrow> if idx < rg_lut_capacity reg then Some (reg\<lparr>rg_lut_meta := Some (f(unat idx := cm))\<rparr>) else None)"

section \<open>Set-up\<close>

definition cudamem_mapping_registry_init ::
  "('k, 'x) map_os_scheme \<Rightarrow> cudamem_mapping_registry \<Rightarrow> cudamem_config \<Rightarrow> 'k \<Rightarrow>
   (int \<times> cudamem_mapping_registry \<times> 'k) option" where
  "cudamem_mapping_registry_init os reg config k =
     (let shift = dc_alloc_granularity_shift config in
      if shift < 0 \<or> 64 \<le> shift then None
      else
        let reg1 = reg\<lparr>rg_gran_shift := shift, rg_gran_mask := dc_alloc_granularity config - 1,
              rg_lut_capacity := drop_bit (nat shift) (push_bit CUDAMEM_MAPPING_VA_BITS 1), rg_list := []\<rparr>;
            (ok, k1) = os_mmap os k (rg_lut_capacity reg1 * 8)
        in if \<not> ok then Some (- ENOMEM, reg1\<lparr>rg_lut_phys := None\<rparr>, k1)
           else
             let (ok, k2) = os_mmap os k1 (rg_lut_capacity reg1 * sizeof_chunk_meta) in
             if \<not> ok then Some (- ENOMEM, reg1\<lparr>rg_lut_phys := None, rg_lut_meta := None\<rparr>,
               os_munmap os k2 (rg_lut_capacity reg1 * 8))
             else Some (0, reg1\<lparr>rg_lut_phys := Some (\<lambda>_. 0), rg_lut_meta := Some (\<lambda>_. zero_meta)\<rparr>, k2))"

text \<open>The chunks of a range of addresses: the first, and how many. The sum wraps.\<close>

definition chunk_first :: "cudamem_mapping_registry \<Rightarrow> u64 \<Rightarrow> u64" where
  "chunk_first reg va = drop_bit (nat (rg_gran_shift reg)) va"

definition chunk_cnt :: "cudamem_mapping_registry \<Rightarrow> u64 \<Rightarrow> u64 \<Rightarrow> u64" where
  "chunk_cnt reg va nb =
     drop_bit (nat (rg_gran_shift reg)) ((va AND rg_gran_mask reg) + nb + rg_gran_mask reg)"

section \<open>Reference counts\<close>

text \<open>The loop over chunks, from slot \<open>idx\<close> on, with \<open>n\<close> chunks left.\<close>

primrec deref_loop ::
  "('k, 'x) dmabuf_os_scheme \<Rightarrow> nat \<Rightarrow> u64 \<Rightarrow> cudamem_mapping_registry \<Rightarrow> 'k \<Rightarrow>
   (cudamem_mapping_registry \<times> 'k) option" where
  "deref_loop os 0 idx reg k = Some (reg, k)"
| "deref_loop os (Suc n) idx reg k = do {
     cm \<leftarrow> slot_meta reg idx;
     if cm_rc cm = 0 then deref_loop os n (idx + 1) reg k
     else if cm_rc cm - 1 = 0 then do {
       let (r, k1) = dmabuf_detach os (cm_attach cm) k;
       reg1 \<leftarrow> set_meta idx \<lparr>cm_rc = 0, cm_attach = no_dmabuf\<rparr> reg;
       reg2 \<leftarrow> set_phys idx 0 reg1;
       deref_loop os n (idx + 1) reg2 k1 }
     else do {
       reg1 \<leftarrow> set_meta idx (cm\<lparr>cm_rc := cm_rc cm - 1\<rparr>) reg;
       deref_loop os n (idx + 1) reg1 k } }"

definition cudamem_mapping_chunk_deref ::
  "('k, 'x) dmabuf_os_scheme \<Rightarrow> cudamem_mapping_registry \<Rightarrow> u64 \<Rightarrow> u64 \<Rightarrow> 'k \<Rightarrow>
   (cudamem_mapping_registry \<times> 'k) option" where
  "cudamem_mapping_chunk_deref os reg first cnt k = deref_loop os (unat cnt) first reg k"

definition deref_registration ::
  "('k, 'x) dmabuf_os_scheme \<Rightarrow> cudamem_mapping_registration \<Rightarrow> cudamem_mapping_registry \<Rightarrow> 'k \<Rightarrow>
   (cudamem_mapping_registry \<times> 'k) option" where
  "deref_registration os m reg k =
     (if rg_gran_shift reg < 0 \<or> 64 \<le> rg_gran_shift reg then None
      else cudamem_mapping_chunk_deref os reg (chunk_first reg (mr_vaddr m))
        (chunk_cnt reg (mr_vaddr m) (mr_size m)) k)"

fun clear_loop ::
  "('k, 'x) dmabuf_os_scheme \<Rightarrow> cudamem_mapping_registration list \<Rightarrow> cudamem_mapping_registry \<Rightarrow> 'k \<Rightarrow>
   (cudamem_mapping_registry \<times> 'k) option" where
  "clear_loop os [] reg k = Some (reg, k)"
| "clear_loop os (m # ms) reg k = do {
     (reg1, k1) \<leftarrow> deref_registration os m reg k;
     clear_loop os ms reg1 k1 }"

definition cudamem_mapping_clear ::
  "('k, 'x) dmabuf_os_scheme \<Rightarrow> cudamem_mapping_registry \<Rightarrow> 'k \<Rightarrow> (cudamem_mapping_registry \<times> 'k) option" where
  "cudamem_mapping_clear os reg k = do {
     (reg1, k1) \<leftarrow> clear_loop os (rg_list reg) reg k;
     Some (reg1\<lparr>rg_list := []\<rparr>, k1) }"

definition cudamem_mapping_registry_term ::
  "('k, 'x) map_os_scheme \<Rightarrow> cudamem_mapping_registry \<Rightarrow> 'k \<Rightarrow> (cudamem_mapping_registry \<times> 'k) option" where
  "cudamem_mapping_registry_term os reg k = do {
     (reg1, k1) \<leftarrow> cudamem_mapping_clear os reg k;
     let (reg2, k2) = (case rg_lut_phys reg1 of None \<Rightarrow> (reg1, k1)
       | Some f \<Rightarrow> (reg1\<lparr>rg_lut_phys := None\<rparr>, os_munmap os k1 (rg_lut_capacity reg1 * 8)));
     let (reg3, k3) = (case rg_lut_meta reg2 of None \<Rightarrow> (reg2, k2)
       | Some f \<Rightarrow> (reg2\<lparr>rg_lut_meta := None\<rparr>, os_munmap os k2 (rg_lut_capacity reg2 * sizeof_chunk_meta)));
     Some (reg3\<lparr>rg_lut_capacity := 0\<rparr>, k3) }"

section \<open>Registration\<close>

text \<open>On success the base address and the attachment, on failure the error.\<close>

definition cudamem_mapping_chunk_populate ::
  "('k, 'x) gpu_os_scheme \<Rightarrow> u64 \<Rightarrow> cudamem_config \<Rightarrow> 'k \<Rightarrow> ((int + u64 \<times> dmabuf) \<times> 'k) option" where
  "cudamem_mapping_chunk_populate os chunk_va config k =
     (if dc_pagesize_shift config < 0 \<or> 64 \<le> dc_pagesize_shift config then None
      else do {
        let pagesize = size_of_int (dc_pagesize config);
        let gran = dc_alloc_granularity config;
        let nphys = drop_bit (nat (dc_pagesize_shift config)) gran;
        let (ok, k1) = os_malloc os k;
        if \<not> ok then Some (Inl (- ENOMEM), k1)
        else case gpu_export os k1 chunk_va gran of
          (Inl e, k2) \<Rightarrow> Some (Inl (- EIO), k2)
        | (Inr dmabuf_fd, k2) \<Rightarrow> do {
            (err, attach, k3) \<leftarrow> dmabuf_attach os dmabuf_fd no_dmabuf k2;
            if err \<noteq> 0 then Some (Inl err, os_close os k3 dmabuf_fd)
            else do {
              (err, tmp) \<leftarrow> dmabuf_get_lut attach nphys (replicate (unat nphys) 0) pagesize;
              if err \<noteq> 0 then Some (Inl err, snd (dmabuf_detach os attach k3))
              else if \<exists>i \<in> set [1..<unat nphys]. tmp ! i \<noteq> tmp ! 0 + of_nat i * pagesize
              then Some (Inl (- EOPNOTSUPP), snd (dmabuf_detach os attach k3))
              else do {
                phys_base \<leftarrow> array_get tmp 0;
                Some (Inr (phys_base, attach), k3) } } } })"

text \<open>The loop of \<open>cudamem_mapping_add\<close>: the error, if any, and how many chunks were bumped.\<close>

primrec add_loop ::
  "('k, 'x) gpu_os_scheme \<Rightarrow> cudamem_config \<Rightarrow> nat \<Rightarrow> u64 \<Rightarrow> u64 \<Rightarrow> cudamem_mapping_registry \<Rightarrow> 'k \<Rightarrow>
   (int option \<times> u64 \<times> cudamem_mapping_registry \<times> 'k) option" where
  "add_loop os config 0 idx bumped reg k = Some (None, bumped, reg, k)"
| "add_loop os config (Suc n) idx bumped reg k = do {
     cm \<leftarrow> slot_meta reg idx;
     if cm_rc cm = 0 then do {
       (r, k1) \<leftarrow> cudamem_mapping_chunk_populate os (push_bit (nat (rg_gran_shift reg)) idx) config k;
       case r of
         Inl err \<Rightarrow> Some (Some err, bumped, reg, k1)
       | Inr (phys_base, attach) \<Rightarrow> do {
           reg1 \<leftarrow> set_phys idx phys_base reg;
           reg2 \<leftarrow> set_meta idx \<lparr>cm_rc = cm_rc cm + 1, cm_attach = attach\<rparr> reg1;
           add_loop os config n (idx + 1) (bumped + 1) reg2 k1 } }
     else do {
       reg1 \<leftarrow> set_meta idx (cm\<lparr>cm_rc := cm_rc cm + 1\<rparr>) reg;
       add_loop os config n (idx + 1) (bumped + 1) reg1 k } }"

definition cudamem_mapping_add ::
  "('k, 'x) gpu_os_scheme \<Rightarrow> cudamem_mapping_registry \<Rightarrow> cudamem_config \<Rightarrow> u64 \<Rightarrow> u64 \<Rightarrow> 'k \<Rightarrow>
   (int \<times> cudamem_mapping_registry \<times> 'k) option" where
  "cudamem_mapping_add os reg config vaddr nb k =
     (if vaddr = 0 \<or> nb = 0 then Some (- EINVAL, reg, k)
      else if rg_gran_shift reg < 0 \<or> 64 \<le> rg_gran_shift reg then None
      else
        let first = chunk_first reg vaddr; cnt = chunk_cnt reg vaddr nb in
        if rg_lut_capacity reg < first + cnt then Some (- EINVAL, reg, k)
        else
          let (ok, k1) = os_malloc os k in
          if \<not> ok then Some (- ENOMEM, reg, k1)
          else do {
            (e, bumped, reg1, k2) \<leftarrow> add_loop os config (unat cnt) first 0 reg k1;
            case e of
              Some err \<Rightarrow> do {
                (reg2, k3) \<leftarrow> cudamem_mapping_chunk_deref os reg1 first bumped k2;
                Some (err, reg2, k3) }
            | None \<Rightarrow> Some (0, reg1\<lparr>rg_list := \<lparr>mr_vaddr = vaddr, mr_size = nb\<rparr> # rg_list reg1\<rparr>, k2) })"

text \<open>The first registration with an address, and the list without it.\<close>

fun unlink ::
  "u64 \<Rightarrow> cudamem_mapping_registration list \<Rightarrow>
   (cudamem_mapping_registration \<times> cudamem_mapping_registration list) option" where
  "unlink key [] = None"
| "unlink key (m # ms) =
     (if mr_vaddr m = key then Some (m, ms)
      else case unlink key ms of None \<Rightarrow> None | Some (x, ms') \<Rightarrow> Some (x, m # ms'))"

definition cudamem_mapping_remove ::
  "('k, 'x) dmabuf_os_scheme \<Rightarrow> cudamem_mapping_registry \<Rightarrow> u64 \<Rightarrow> 'k \<Rightarrow>
   (int \<times> cudamem_mapping_registry \<times> 'k) option" where
  "cudamem_mapping_remove os reg vaddr k =
     (case unlink vaddr (rg_list reg) of
        None \<Rightarrow> Some (- EINVAL, reg, k)
      | Some (m, rest) \<Rightarrow> do {
          (reg1, k1) \<leftarrow> deref_registration os m reg k;
          Some (0, reg1\<lparr>rg_list := rest\<rparr>, k1) })"

section \<open>Translation\<close>

definition cudamem_mapping_virt_to_phys ::
  "cudamem_mapping_registry \<Rightarrow> u64 \<Rightarrow> (int + u64) option" where
  "cudamem_mapping_virt_to_phys reg va =
     (if va = 0 then Some (Inl (- EINVAL))
      else if rg_gran_shift reg < 0 \<or> 64 \<le> rg_gran_shift reg then None
      else
        let idx = chunk_first reg va in
        if rg_lut_capacity reg \<le> idx then Some (Inl (- EINVAL))
        else do {
          base \<leftarrow> slot_phys reg idx;
          if base = 0 then Some (Inl (- EINVAL))
          else Some (Inr (base + (va AND rg_gran_mask reg))) })"

end
