(* ===== verification/Cudamem_Mapping_Refs.thy ===== *)
theory Cudamem_Mapping_Refs
  imports Cudamem_Mapping
begin

unbundle bit_operations_syntax

text \<open>
  The reference counts of the mapping registry: what populating, bumping and releasing a window
  of chunks does to the two tables, the invariant that ties them to the list of registrations,
  and its preservation by every operation.
\<close>

section \<open>Tables\<close>

abbreviation metas :: "cudamem_mapping_registry \<Rightarrow> nat \<Rightarrow> cudamem_mapping_chunk_meta" where
  "metas reg \<equiv> the (rg_lut_meta reg)"
abbreviation physs :: "cudamem_mapping_registry \<Rightarrow> nat \<Rightarrow> u64" where
  "physs reg \<equiv> the (rg_lut_phys reg)"
abbreviation capacity :: "cudamem_mapping_registry \<Rightarrow> nat" where
  "capacity reg \<equiv> unat (rg_lut_capacity reg)"

text \<open>The registry has its geometry and both tables, as after its initialisation.\<close>

definition reg_geometry :: "cudamem_mapping_registry \<Rightarrow> bool" where
  "reg_geometry reg \<longleftrightarrow> 0 < rg_gran_shift reg \<and> nat (rg_gran_shift reg) \<le> CUDAMEM_MAPPING_VA_BITS \<and>
     rg_gran_mask reg = 2 ^ nat (rg_gran_shift reg) - 1 \<and>
     capacity reg = 2 ^ (CUDAMEM_MAPPING_VA_BITS - nat (rg_gran_shift reg)) \<and>
     rg_lut_phys reg \<noteq> None \<and> rg_lut_meta reg \<noteq> None"

definition with_tables ::
  "(nat \<Rightarrow> u64) \<Rightarrow> (nat \<Rightarrow> cudamem_mapping_chunk_meta) \<Rightarrow> cudamem_mapping_registry \<Rightarrow> cudamem_mapping_registry" where
  "with_tables ph mt reg = reg\<lparr>rg_lut_phys := Some ph, rg_lut_meta := Some mt\<rparr>"

lemma with_tables_simps [simp]:
  "metas (with_tables ph mt reg) = mt" "physs (with_tables ph mt reg) = ph"
  "rg_lut_phys (with_tables ph mt reg) = Some ph" "rg_lut_meta (with_tables ph mt reg) = Some mt"
  "rg_lut_capacity (with_tables ph mt reg) = rg_lut_capacity reg" "rg_list (with_tables ph mt reg) = rg_list reg"
  "rg_gran_shift (with_tables ph mt reg) = rg_gran_shift reg" "rg_gran_mask (with_tables ph mt reg) = rg_gran_mask reg"
  "with_tables ph mt (with_tables ph' mt' reg) = with_tables ph mt reg"
  "chunk_first (with_tables ph mt reg) = chunk_first reg" "chunk_cnt (with_tables ph mt reg) = chunk_cnt reg"
  by (simp_all add: with_tables_def chunk_first_def chunk_cnt_def fun_eq_iff)

lemma with_tables_same: "reg_geometry reg \<Longrightarrow> with_tables (physs reg) (metas reg) reg = reg"
  by (auto simp: with_tables_def reg_geometry_def)

lemma geometry_with_tables [simp]: "reg_geometry reg \<Longrightarrow> reg_geometry (with_tables ph mt reg)"
  by (simp add: reg_geometry_def)

lemma slot_accesses:
  assumes "reg_geometry reg" "unat idx < capacity reg"
  shows "slot_meta reg idx = Some (metas reg (unat idx))" "slot_phys reg idx = Some (physs reg (unat idx))"
    "set_meta idx cm reg = Some (with_tables (physs reg) ((metas reg)(unat idx := cm)) reg)"
    "set_phys idx a reg = Some (with_tables ((physs reg)(unat idx := a)) (metas reg) reg)"
  using assms
  by (auto simp: slot_meta_def slot_phys_def set_meta_def set_phys_def with_tables_def reg_geometry_def word_less_nat_alt)

section \<open>Releasing a window\<close>

definition drop_ref :: "cudamem_mapping_chunk_meta \<Rightarrow> cudamem_mapping_chunk_meta" where
  "drop_ref cm = (if cm_rc cm = 0 then cm else if cm_rc cm = 1 then zero_meta else cm\<lparr>cm_rc := cm_rc cm - 1\<rparr>)"

abbreviation in_window :: "nat \<Rightarrow> nat \<Rightarrow> nat \<Rightarrow> bool" where
  "in_window first cnt i \<equiv> first \<le> i \<and> i < first + cnt"

definition dropped :: "nat \<Rightarrow> nat \<Rightarrow> cudamem_mapping_registry \<Rightarrow> cudamem_mapping_registry" where
  "dropped first cnt reg = with_tables
     (\<lambda>i. if in_window first cnt i \<and> cm_rc (metas reg i) = 1 then 0 else physs reg i)
     (\<lambda>i. if in_window first cnt i then drop_ref (metas reg i) else metas reg i) reg"

lemma dropped_empty: "reg_geometry reg \<Longrightarrow> dropped first 0 reg = reg"
proof -
  assume "reg_geometry reg"
  moreover have "\<not> in_window first 0 i" for i by simp
  ultimately show ?thesis by (simp only: dropped_def if_False simp_thms with_tables_same)
qed

lemma dropped_step:
  "dropped (i + 1) n (with_tables (if cm_rc (metas reg i) = 1 then (physs reg)(i := 0) else physs reg)
      ((metas reg)(i := drop_ref (metas reg i))) reg) = dropped i (Suc n) reg"
proof -
  have w: "in_window i (Suc n) j \<longleftrightarrow> j = i \<or> in_window (i + 1) n j" for j by auto
  have "\<not> in_window (i + 1) n i" by simp
  then show ?thesis
    unfolding dropped_def with_tables_simps w
    by (intro arg_cong2 [where f = "\<lambda>a b. with_tables a b reg"] ext) (auto split del: if_split split: if_splits)
qed

lemma deref_loop_result:
  assumes "reg_geometry reg" "unat idx + n \<le> capacity reg"
  shows "\<exists>k'. deref_loop os n idx reg k = Some (dropped (unat idx) n reg, k')"
  using assms
proof (induction n arbitrary: idx reg k)
  case 0
  then show ?case by (simp add: dropped_empty)
next
  case (Suc n)
  have lt: "unat idx < capacity reg" using Suc.prems(2) by simp
  note acc = slot_accesses [OF Suc.prems(1) lt]
  have i1: "unat (idx + 1) = unat idx + 1" by (rule unat_suc_u64 [OF lt])
  let ?cm = "metas reg (unat idx)"
  let ?reg = "with_tables (if cm_rc ?cm = 1 then (physs reg)(unat idx := 0) else physs reg)
      ((metas reg)(unat idx := drop_ref ?cm)) reg"
  have "\<exists>k1. deref_loop os (Suc n) idx reg k = deref_loop os n (idx + 1) ?reg k1"
  proof (cases "cm_rc ?cm = 0")
    case True
    then show ?thesis using with_tables_same [OF Suc.prems(1)] by (auto simp: acc drop_ref_def)
  next
    case False
    show ?thesis
    proof (cases "cm_rc ?cm = 1")
      case True
      let ?r1 = "with_tables (physs reg) ((metas reg)(unat idx := zero_meta)) reg"
      have "set_phys idx 0 ?r1 = Some ?reg"
        using slot_accesses(4) [of ?r1 idx 0] Suc.prems(1) lt True by (simp add: drop_ref_def)
      then show ?thesis using True acc by (auto simp: case_prod_beta zero_meta_def)
    next
      case gt: False
      then have "cm_rc ?cm - 1 \<noteq> 0" by simp
      then show ?thesis using False gt acc by (auto simp: drop_ref_def)
    qed
  qed
  moreover have "\<exists>k'. deref_loop os n (idx + 1) ?reg k1 = Some (dropped (unat idx + 1) n ?reg, k')" for k1
    using Suc.IH [of ?reg "idx + 1" k1] Suc.prems by (simp add: i1)
  moreover have "dropped (unat idx + 1) n ?reg = dropped (unat idx) (Suc n) reg" by (rule dropped_step)
  ultimately show ?case by metis
qed

section \<open>Populating a chunk\<close>

definition map_config_ok :: "cudamem_config \<Rightarrow> bool" where
  "map_config_ok c \<longleftrightarrow> 0 < dc_pagesize_shift c \<and> dc_pagesize_shift c \<le> dc_alloc_granularity_shift c \<and>
     dc_pagesize_shift c \<le> 30 \<and> nat (dc_alloc_granularity_shift c) \<le> CUDAMEM_MAPPING_VA_BITS \<and>
     dc_pagesize c = 2 ^ nat (dc_pagesize_shift c) \<and>
     dc_alloc_granularity c = 2 ^ nat (dc_alloc_granularity_shift c)"

text \<open>A chunk's base address describes its dma-buf: page by page, in one run.\<close>

definition chunk_desc :: "cudamem_config \<Rightarrow> u64 \<Rightarrow> dmabuf \<Rightarrow> bool" where
  "chunk_desc c base buf \<longleftrightarrow> dmabuf_ok buf \<and>
     dmabuf_phys (size_of_int (dc_pagesize c)) buf =
       map (\<lambda>i. base + of_nat i * size_of_int (dc_pagesize c))
         [0..<2 ^ (nat (dc_alloc_granularity_shift c) - nat (dc_pagesize_shift c))]"

lemma unat_shifted_power:
  assumes "s \<le> g" "g < 64"
  shows "unat (drop_bit s (2 ^ g :: u64)) = 2 ^ (g - s)"
  using assms by (simp add: unat_drop_bit_u64 unat_two_power power_diff)

lemma map_configE:
  assumes "map_config_ok c"
  obtains s g where "dc_pagesize_shift c = int s" "dc_alloc_granularity_shift c = int g"
    "s \<le> g" "s \<le> 30" "g \<le> 48" "size_of_int (dc_pagesize c) = 2 ^ s" "dc_alloc_granularity c = 2 ^ g"
proof
  show "dc_pagesize_shift c = int (nat (dc_pagesize_shift c))"
    "dc_alloc_granularity_shift c = int (nat (dc_alloc_granularity_shift c))"
    "nat (dc_pagesize_shift c) \<le> nat (dc_alloc_granularity_shift c)"
    "nat (dc_pagesize_shift c) \<le> 30" "nat (dc_alloc_granularity_shift c) \<le> 48"
    "size_of_int (dc_pagesize c) = 2 ^ nat (dc_pagesize_shift c)"
    "dc_alloc_granularity c = 2 ^ nat (dc_alloc_granularity_shift c)"
    using assms by (auto simp: map_config_ok_def CUDAMEM_MAPPING_VA_BITS_def size_of_int_def)
qed

lemma run_of_pages:
  assumes "length xs = n" "\<not> (\<exists>i \<in> set [1..<n]. xs ! i \<noteq> xs ! 0 + of_nat i * p)"
  shows "xs = map (\<lambda>i. xs ! 0 + of_nat i * (p :: u64)) [0..<n]"
proof (rule nth_equalityI)
  fix i assume "i < length xs"
  with assms show "xs ! i = map (\<lambda>i. xs ! 0 + of_nat i * p) [0..<n] ! i" by (cases "i = 0") auto
qed (simp add: assms(1))

text \<open>The part after the dma-buf is attached.\<close>

lemma populate_attached:
  assumes config: "map_config_ok config" and m: "os_malloc os k = (True, k1)"
    and x: "gpu_export os k1 va (dc_alloc_granularity config) = (Inr fd, k2)"
    and a: "dmabuf_attach os fd no_dmabuf k2 = Some (0, buf, k3)" and buf: "dmabuf_ok buf"
  obtains e where "e < 0" "cudamem_mapping_chunk_populate os va config k = Some (Inl e, snd (dmabuf_detach os buf k3))"
    | base where "chunk_desc config base buf" "cudamem_mapping_chunk_populate os va config k = Some (Inr (base, buf), k3)"
proof -
  obtain s g where sg: "dc_pagesize_shift config = int s" "dc_alloc_granularity_shift config = int g"
    "s \<le> g" "s \<le> 30" "g \<le> 48" "size_of_int (dc_pagesize config) = 2 ^ s" "dc_alloc_granularity config = 2 ^ g"
    using config by (rule map_configE)
  let ?ps = "size_of_int (dc_pagesize config)"
  let ?n = "drop_bit (nat (dc_pagesize_shift config)) (dc_alloc_granularity config)"
  let ?lst = "dmabuf_phys ?ps buf"
  have n: "unat ?n = 2 ^ (g - s)" using unat_shifted_power [of s g] sg by simp
  have "unat ?ps = 2 ^ s" unfolding sg(6) by (rule unat_two_power) (use sg(4) in simp)
  then have ps: "?ps \<noteq> 0" by auto
  have shift: "\<not> (dc_pagesize_shift config < 0 \<or> 64 \<le> dc_pagesize_shift config)" using sg by simp
  note run = cudamem_mapping_chunk_populate_def [of os va config k, unfolded Let_def m x prod.case sum.case a if_not_P [OF shift]]
  have lut: "if length ?lst = unat ?n
    then dmabuf_get_lut buf ?n (replicate (unat ?n) 0) ?ps = Some (0, ?lst)
    else \<exists>lut'. dmabuf_get_lut buf ?n (replicate (unat ?n) 0) ?ps = Some (- EINVAL, lut')"
    by (rule get_lut_result [OF buf ps]) simp
  show thesis
  proof (cases "length ?lst = unat ?n")
    case False
    with lut run show thesis by (auto intro: that(1) [of "- EINVAL"])
  next
    case True
    show thesis
    proof (cases "\<exists>i \<in> set [1..<unat ?n]. ?lst ! i \<noteq> ?lst ! 0 + of_nat i * ?ps")
      case gap: True
      with lut True run show thesis by (intro that(1) [of "- EOPNOTSUPP"]) auto
    next
      case gapless: False
      from run_of_pages [OF True this, unfolded n] have "chunk_desc config (?lst ! 0) buf"
        unfolding chunk_desc_def sg(1,2) nat_int by (simp add: buf)
      with lut True run gapless n show thesis by (intro that(2) [of "?lst ! 0"]) (auto simp: array_get_def)
    qed
  qed
qed

lemma populate_result:
  assumes "dmabuf_lawful os fds" "map_config_ok config"
  obtains r k' where "cudamem_mapping_chunk_populate os va config k = Some (r, k')"
    "\<And>e. r = Inl e \<Longrightarrow> e < 0" "\<And>base buf. r = Inr (base, buf) \<Longrightarrow> chunk_desc config base buf"
proof -
  have shift: "\<not> (dc_pagesize_shift config < 0 \<or> 64 \<le> dc_pagesize_shift config)"
    using assms(2) by (auto simp: map_config_ok_def)
  obtain ok k1 where m: "os_malloc os k = (ok, k1)" by (cases "os_malloc os k")
  obtain x k2 where x: "gpu_export os k1 va (dc_alloc_granularity config) = (x, k2)"
    by (cases "gpu_export os k1 va (dc_alloc_granularity config)")
  show thesis
  proof (cases ok)
    case False
    with m shift show thesis
      by (intro that [of "Inl (- ENOMEM)" k1]) (simp_all add: cudamem_mapping_chunk_populate_def)
  next
    case ok: True
    show thesis
    proof (cases x)
      case (Inl e)
      with m shift ok x show thesis
        by (intro that [of "Inl (- EIO)" k2]) (simp_all add: cudamem_mapping_chunk_populate_def)
    next
      case (Inr fd)
      obtain err buf k3 where a: "dmabuf_attach os fd no_dmabuf k2 = Some (err, buf, k3)" "fds k3 = fds k2" "err \<le> 0"
        "err = 0 \<Longrightarrow> dmabuf_ok buf \<and> dm_fd buf = fd"
        using dmabuf_attach_result [OF assms(1), of fd no_dmabuf k2] by metis
      show thesis
      proof (cases "err = 0")
        case False
        with m shift ok x Inr a show thesis
          by (intro that [of "Inl err" "os_close os k3 fd"]) (auto simp: cudamem_mapping_chunk_populate_def)
      next
        case True
        then have full: "os_malloc os k = (True, k1)"
          "gpu_export os k1 va (dc_alloc_granularity config) = (Inr fd, k2)"
          "dmabuf_attach os fd no_dmabuf k2 = Some (0, buf, k3)" "dmabuf_ok buf"
          using m ok x Inr a by simp_all
        show thesis
          by (rule populate_attached [OF assms(2) full]) (rule that, assumption, simp_all)+
      qed
    qed
  qed
qed


section \<open>Bumping a window\<close>

text \<open>The tables after the counts of a window went up by one: a chunk nobody held was populated.\<close>

definition slot_bumped ::
  "cudamem_config \<Rightarrow> cudamem_mapping_chunk_meta \<Rightarrow> u64 \<Rightarrow> cudamem_mapping_chunk_meta \<Rightarrow> u64 \<Rightarrow> bool" where
  "slot_bumped config cm ph cm' ph' \<longleftrightarrow> cm_rc cm' = cm_rc cm + 1 \<and>
     (if cm_rc cm = 0 then chunk_desc config ph' (cm_attach cm')
      else cm_attach cm' = cm_attach cm \<and> ph' = ph)"

definition bumped_tables ::
  "cudamem_config \<Rightarrow> nat \<Rightarrow> nat \<Rightarrow> cudamem_mapping_registry \<Rightarrow> cudamem_mapping_registry \<Rightarrow> bool" where
  "bumped_tables config first cnt reg reg' \<longleftrightarrow> reg' = with_tables (physs reg') (metas reg') reg \<and>
     (\<forall>i. if in_window first cnt i
        then slot_bumped config (metas reg i) (physs reg i) (metas reg' i) (physs reg' i)
        else metas reg' i = metas reg i \<and> physs reg' i = physs reg i)"

lemma bumped_tables_none: "reg_geometry reg \<Longrightarrow> bumped_tables config first 0 reg reg"
  by (auto simp: bumped_tables_def with_tables_same)

lemma bumped_tables_join:
  assumes "bumped_tables config first 1 reg reg1" "bumped_tables config (first + 1) n reg1 reg2"
  shows "bumped_tables config first (Suc n) reg reg2"
  unfolding bumped_tables_def
proof (intro conjI allI)
  have "reg2 = with_tables (physs reg2) (metas reg2) (with_tables (physs reg1) (metas reg1) reg)"
    using assms by (metis bumped_tables_def)
  then show "reg2 = with_tables (physs reg2) (metas reg2) reg" by simp
next
  fix i
  let ?s = "\<lambda>first cnt reg reg'. if in_window first cnt i
        then slot_bumped config (metas reg i) (physs reg i) (metas reg' i) (physs reg' i)
        else metas reg' i = metas reg i \<and> physs reg' i = physs reg i"
  have s: "?s first 1 reg reg1" "?s (first + 1) n reg1 reg2" using assms unfolding bumped_tables_def by blast+
  consider "i = first" | "in_window (first + 1) n i" | "\<not> in_window first (Suc n) i" by fastforce
  then show "?s first (Suc n) reg reg2" by cases (use s in \<open>auto split: if_splits\<close>)
qed

lemma add_loop_step:
  assumes "dmabuf_lawful os fds" "map_config_ok config" "reg_geometry reg" "unat idx < capacity reg"
  obtains (failed) err k' where "add_loop os config (Suc n) idx bumped reg k = Some (Some err, bumped, reg, k')" "err < 0"
    | (bumped) reg' k' where "bumped_tables config (unat idx) 1 reg reg'"
        "add_loop os config (Suc n) idx bumped reg k = add_loop os config n (idx + 1) (bumped + 1) reg' k'"
proof -
  note acc = slot_accesses [OF assms(3,4)]
  have w: "in_window (unat idx) 1 i \<longleftrightarrow> i = unat idx" for i by auto
  let ?cm = "metas reg (unat idx)"
  let ?new = "\<lambda>ph cm. with_tables ((physs reg)(unat idx := ph)) ((metas reg)(unat idx := cm)) reg"
  show thesis
  proof (cases "cm_rc ?cm = 0")
    case False
    let ?reg = "?new (physs reg (unat idx)) (?cm\<lparr>cm_rc := cm_rc ?cm + 1\<rparr>)"
    have "bumped_tables config (unat idx) 1 reg ?reg"
      unfolding bumped_tables_def w using False by (auto simp: slot_bumped_def)
    moreover have "add_loop os config (Suc n) idx bumped reg k = add_loop os config n (idx + 1) (bumped + 1) ?reg k"
      using False by (simp add: acc)
    ultimately show thesis by (rule bumped)
  next
    case True
    obtain r k1 where p: "cudamem_mapping_chunk_populate os (push_bit (nat (rg_gran_shift reg)) idx) config k = Some (r, k1)"
      "\<And>e. r = Inl e \<Longrightarrow> e < 0" "\<And>base buf. r = Inr (base, buf) \<Longrightarrow> chunk_desc config base buf"
      using populate_result [OF assms(1,2)] by metis
    show thesis
    proof (cases r)
      case (Inl e)
      with p True show thesis by (intro failed [of e k1]) (simp_all add: acc)
    next
      case (Inr x)
      obtain base buf where x: "x = (base, buf)" by (cases x)
      let ?reg = "?new base \<lparr>cm_rc = cm_rc ?cm + 1, cm_attach = buf\<rparr>"
      have "bumped_tables config (unat idx) 1 reg ?reg"
        unfolding bumped_tables_def w using True p(3) Inr x by (auto simp: slot_bumped_def)
      moreover have "set_meta idx cm (with_tables ph mt reg) = Some (with_tables ph (mt(unat idx := cm)) reg)" for ph mt cm
        using slot_accesses(3) [of "with_tables ph mt reg" idx cm] assms(3,4) by simp
      then have "add_loop os config (Suc n) idx bumped reg k = add_loop os config n (idx + 1) (bumped + 1) ?reg k1"
        using True Inr x p(1) by (simp add: acc)
      ultimately show thesis by (rule bumped)
    qed
  qed
qed

lemma bumped_tables_simps:
  assumes "bumped_tables config first n reg reg'"
  shows "reg_geometry reg \<Longrightarrow> reg_geometry reg'" "rg_lut_capacity reg' = rg_lut_capacity reg" "rg_list reg' = rg_list reg"
    "chunk_first reg' = chunk_first reg" "chunk_cnt reg' = chunk_cnt reg" "rg_gran_shift reg' = rg_gran_shift reg"
proof -
  obtain ph mt where r: "reg' = with_tables ph mt reg" using assms by (auto simp: bumped_tables_def)
  show "reg_geometry reg \<Longrightarrow> reg_geometry reg'" "rg_lut_capacity reg' = rg_lut_capacity reg" "rg_list reg' = rg_list reg"
    "chunk_first reg' = chunk_first reg" "chunk_cnt reg' = chunk_cnt reg" "rg_gran_shift reg' = rg_gran_shift reg"
    unfolding r by simp_all
qed

lemma add_loop_result:
  assumes "dmabuf_lawful os fds" "map_config_ok config" "reg_geometry reg" "unat idx + n \<le> capacity reg"
  shows "\<exists>e b reg' k'. add_loop os config n idx bumped reg k = Some (e, bumped + of_nat b, reg', k') \<and> b \<le> n \<and>
    bumped_tables config (unat idx) b reg reg' \<and> (e = None \<longrightarrow> b = n) \<and> (\<forall>err. e = Some err \<longrightarrow> err < 0)"
  using assms(3,4)
proof (induction n arbitrary: idx bumped reg k)
  case 0
  then show ?case using bumped_tables_none by fastforce
next
  case (Suc n)
  then have lt: "unat idx < capacity reg" by simp
  have i1: "unat (idx + 1) = unat idx + 1" by (rule unat_suc_u64 [OF lt])
  from assms(1,2) Suc.prems(1) lt show ?case
  proof (cases rule: add_loop_step [where bumped = bumped and k = k and n = n])
    case (failed err k')
    moreover have "bumped_tables config (unat idx) 0 reg reg" by (rule bumped_tables_none [OF Suc.prems(1)])
    ultimately show ?thesis by (intro exI [of _ "Some err"] exI [of _ 0] exI [of _ reg] exI [of _ k']) simp
  next
    case (bumped reg1 k1)
    note s = bumped_tables_simps [OF bumped(1)]
    obtain e b reg' k' where "add_loop os config n (idx + 1) (bumped + 1) reg1 k1 = Some (e, bumped + 1 + of_nat b, reg', k')"
      "b \<le> n" "bumped_tables config (unat (idx + 1)) b reg1 reg'" "e = None \<longrightarrow> b = n" "\<forall>err. e = Some err \<longrightarrow> err < 0"
      using Suc.IH [of reg1 "idx + 1" "bumped + 1" k1] Suc.prems s(1,2) i1 by auto
    then show ?thesis using bumped bumped_tables_join [OF bumped(1), of b reg'] i1
      by (intro exI [of _ e] exI [of _ "Suc b"] exI [of _ reg'] exI [of _ k']) (simp add: add.assoc)
  qed
qed

end
