(* ===== verification/Cudamem_Mapping_Inv.thy ===== *)
theory Cudamem_Mapping_Inv
  imports Cudamem_Mapping_Refs "HOL-Library.Multiset"
begin

unbundle bit_operations_syntax

text \<open>
  The invariant of the mapping registry: the reference count of a chunk is the number of
  registrations that cover it, a chunk nobody covers is unattached and has no address, and a
  chunk somebody covers is attached to a dma-buf that its address describes. Every operation keeps
  it, and a failing registration changes nothing.
\<close>

section \<open>Counts\<close>

abbreviation covers :: "cudamem_mapping_registry \<Rightarrow> nat \<Rightarrow> cudamem_mapping_registration \<Rightarrow> bool" where
  "covers reg i m \<equiv> in_window (unat (chunk_first reg (mr_vaddr m))) (unat (chunk_cnt reg (mr_vaddr m) (mr_size m))) i"

definition refs :: "cudamem_mapping_registry \<Rightarrow> cudamem_mapping_registration list \<Rightarrow> nat \<Rightarrow> nat" where
  "refs reg ms i = length (filter (covers reg i) ms)"

definition in_capacity :: "cudamem_mapping_registry \<Rightarrow> cudamem_mapping_registration \<Rightarrow> bool" where
  "in_capacity reg m \<longleftrightarrow>
     unat (chunk_first reg (mr_vaddr m)) + unat (chunk_cnt reg (mr_vaddr m) (mr_size m)) \<le> capacity reg"

definition slot_counts :: "cudamem_config \<Rightarrow> nat \<Rightarrow> cudamem_mapping_chunk_meta \<Rightarrow> u64 \<Rightarrow> bool" where
  "slot_counts config n cm ph \<longleftrightarrow> unat (cm_rc cm) = n \<and>
     (if n = 0 then cm = zero_meta \<and> ph = 0 else chunk_desc config ph (cm_attach cm))"

definition counted :: "cudamem_config \<Rightarrow> cudamem_mapping_registration list \<Rightarrow> cudamem_mapping_registry \<Rightarrow> bool" where
  "counted config ms reg \<longleftrightarrow> reg_geometry reg \<and> (\<forall>m \<in> set ms. in_capacity reg m) \<and>
     (\<forall>i. slot_counts config (refs reg ms i) (metas reg i) (physs reg i))"

lemma refs_Cons: "refs reg (m # ms) i = refs reg ms i + (if covers reg i m then 1 else 0)"
  by (simp add: refs_def)

lemma refs_le: "refs reg ms i \<le> length ms"
  by (simp add: refs_def)

lemma counted_cong:
  assumes "\<And>i. refs reg ms' i = refs reg ms i" "set ms' = set ms"
  shows "counted config ms' reg = counted config ms reg"
  using assms by (simp add: counted_def)

lemma slot_counts_drop:
  assumes "slot_counts config (Suc n) cm ph"
  shows "slot_counts config n (drop_ref cm) (if cm_rc cm = 1 then 0 else ph)"
proof -
  have rc: "unat (cm_rc cm) = Suc n" using assms by (simp add: slot_counts_def)
  then have "cm_rc cm = 1 \<longleftrightarrow> n = 0" by (simp add: word_unat_eq_iff)
  moreover have "unat (cm_rc cm - 1) = n" using rc by (simp add: unat_sub word_le_nat_alt)
  moreover have "cm_rc cm \<noteq> 0" using rc by auto
  ultimately show ?thesis using assms by (auto simp: slot_counts_def drop_ref_def zero_meta_def)
qed

lemma slot_counts_bump:
  assumes "slot_counts config n cm ph" "slot_bumped config cm ph cm' ph'" "n < 2 ^ 32 - 1"
  shows "slot_counts config (Suc n) cm' ph'"
proof -
  have "unat (cm_rc cm) = n" "cm_rc cm' = cm_rc cm + 1" using assms(1,2) by (simp_all add: slot_counts_def slot_bumped_def)
  moreover from this have "unat (cm_rc cm') = Suc n" using assms(3) by (simp add: unat_word_ariths)
  moreover have "cm_rc cm = 0 \<longleftrightarrow> n = 0" using calculation(1) by (simp add: word_unat_eq_iff)
  ultimately show ?thesis using assms(1,2) by (auto simp: slot_counts_def slot_bumped_def split: if_splits)
qed

text \<open>Dropping a bump gives the slot back.\<close>

lemma slot_counts_undo:
  assumes "slot_counts config n cm ph" "slot_bumped config cm ph cm' ph'" "n < 2 ^ 32 - 1"
  shows "drop_ref cm' = cm" "(if cm_rc cm' = 1 then 0 else ph') = ph"
proof -
  have rc: "unat (cm_rc cm) = n" "cm_rc cm' = cm_rc cm + 1" using assms(1,2) by (simp_all add: slot_counts_def slot_bumped_def)
  then have "unat (cm_rc cm') = Suc n" using assms(3) by (simp add: unat_word_ariths)
  then have z: "cm_rc cm' \<noteq> 0" "cm_rc cm' = 1 \<longleftrightarrow> n = 0" by (auto simp: word_unat_eq_iff)
  have n0: "cm_rc cm = 0 \<longleftrightarrow> n = 0" using rc(1) by (simp add: word_unat_eq_iff)
  show "drop_ref cm' = cm" "(if cm_rc cm' = 1 then 0 else ph') = ph"
    using z n0 rc(2) assms(1,2) by (auto simp: drop_ref_def slot_counts_def slot_bumped_def split: if_splits)
qed

section \<open>Releasing a registration\<close>

lemma refs_dropped [simp]: "refs (dropped first n reg) = refs reg"
  by (simp add: refs_def dropped_def fun_eq_iff)

lemma in_capacity_dropped [simp]: "in_capacity (dropped first n reg) = in_capacity reg"
  by (simp add: in_capacity_def dropped_def fun_eq_iff)

lemma dropped_simps [simp]:
  "rg_list (dropped first n reg) = rg_list reg" "rg_gran_shift (dropped first n reg) = rg_gran_shift reg"
  "reg_geometry reg \<Longrightarrow> reg_geometry (dropped first n reg)"
  by (simp_all add: dropped_def)

lemma geometry_shift: "reg_geometry reg \<Longrightarrow> \<not> (rg_gran_shift reg < 0 \<or> 64 \<le> rg_gran_shift reg)"
  by (auto simp: reg_geometry_def CUDAMEM_MAPPING_VA_BITS_def)

abbreviation released :: "cudamem_mapping_registration \<Rightarrow> cudamem_mapping_registry \<Rightarrow> cudamem_mapping_registry" where
  "released m reg \<equiv> dropped (unat (chunk_first reg (mr_vaddr m))) (unat (chunk_cnt reg (mr_vaddr m) (mr_size m))) reg"

lemma deref_registration_counted:
  assumes "counted config (m # ms) reg"
  obtains k' where "deref_registration os m reg k = Some (released m reg, k')" "counted config ms (released m reg)"
proof -
  have g: "reg_geometry reg" and cap: "in_capacity reg m" using assms by (simp_all add: counted_def)
  obtain k' where "deref_registration os m reg k = Some (released m reg, k')"
    using deref_loop_result [OF g cap [unfolded in_capacity_def], of os k] geometry_shift [OF g]
    unfolding deref_registration_def cudamem_mapping_chunk_deref_def by (metis (no_types))
  moreover have "counted config ms (released m reg)" unfolding counted_def
  proof (intro conjI allI)
    fix i
    have c: "slot_counts config (refs reg (m # ms) i) (metas reg i) (physs reg i)" using assms by (simp add: counted_def)
    show "slot_counts config (refs (released m reg) ms i) (metas (released m reg) i) (physs (released m reg) i)"
    proof (cases "covers reg i m")
      case True
      with slot_counts_drop [of config "refs reg ms i"] c show ?thesis
        by (simp add: refs_Cons) (simp add: dropped_def)
    next
      case False
      then have "metas (released m reg) i = metas reg i" "physs (released m reg) i = physs reg i"
        unfolding dropped_def with_tables_simps option.sel by (simp_all only: if_False simp_thms)
      moreover have "refs reg (m # ms) i = refs reg ms i" unfolding refs_Cons using False by (simp only: if_False add_0_right)
      ultimately show ?thesis using c by simp
    qed
  qed (use assms in \<open>simp_all add: counted_def\<close>)
  ultimately show thesis by (rule that)
qed

lemma counted_list_irrelevant [simp]: "counted config ms (reg\<lparr>rg_list := l\<rparr>) = counted config ms reg"
  by (simp add: counted_def reg_geometry_def in_capacity_def refs_def chunk_first_def chunk_cnt_def cong: conj_cong)

lemma clear_loop_counted:
  "counted config ms reg \<Longrightarrow> \<exists>reg' k'. clear_loop os ms reg k = Some (reg', k') \<and> counted config [] reg' \<and>
     rg_gran_shift reg' = rg_gran_shift reg"
proof (induction ms arbitrary: reg k)
  case (Cons m ms)
  obtain k1 where "deref_registration os m reg k = Some (released m reg, k1)" "counted config ms (released m reg)"
    using Cons.prems by (rule deref_registration_counted)
  with Cons.IH [of "released m reg" k1] show ?case by simp
qed simp

text \<open>Taking a registration off the list.\<close>

lemma unlink_result:
  "(case unlink key ms of None \<Rightarrow> \<forall>m \<in> set ms. mr_vaddr m \<noteq> key
    | Some (m, rest) \<Rightarrow> mr_vaddr m = key \<and> mset ms = mset (m # rest))"
  by (induction ms) (auto split: option.splits)

lemma refs_mset:
  assumes "mset ms = mset ms'"
  shows "refs reg ms i = refs reg ms' i"
proof -
  have "mset (filter P ms) = mset (filter P ms')" for P using assms by simp
  then show ?thesis unfolding refs_def by (rule mset_eq_length)
qed

lemma counted_mset: "mset ms = mset ms' \<Longrightarrow> counted config ms reg = counted config ms' reg"
  by (intro counted_cong) (auto intro: refs_mset dest: mset_eq_setD)

end
