(* ===== verification/Cudamem_Mapping_Runs.thy ===== *)
theory Cudamem_Mapping_Runs
  imports Cudamem_Mapping_Inv
begin

unbundle bit_operations_syntax

text \<open>
  Runs of the mapping registry: the outcomes of its initialisation, of a registration and of a
  removal, and what any sequence of them keeps.
\<close>

section \<open>Initialisation\<close>

lemma unat_capacity:
  assumes "g \<le> CUDAMEM_MAPPING_VA_BITS"
  shows "unat (drop_bit g (push_bit CUDAMEM_MAPPING_VA_BITS 1) :: u64) = 2 ^ (CUDAMEM_MAPPING_VA_BITS - g)"
proof -
  have "push_bit CUDAMEM_MAPPING_VA_BITS 1 = (2 ^ CUDAMEM_MAPPING_VA_BITS :: u64)" by (simp add: push_bit_eq_mult)
  then show ?thesis using unat_shifted_power [OF assms] by (simp only: CUDAMEM_MAPPING_VA_BITS_def)
qed

lemma registry_init_counted:
  assumes "map_config_ok config" "cudamem_mapping_registry_init os reg config k = Some (0, reg', k')"
  shows "counted config [] reg'" "rg_list reg' = []" "rg_gran_shift reg' = dc_alloc_granularity_shift config"
proof -
  have g: "0 < dc_alloc_granularity_shift config" "nat (dc_alloc_granularity_shift config) \<le> CUDAMEM_MAPPING_VA_BITS"
    "dc_alloc_granularity config = 2 ^ nat (dc_alloc_granularity_shift config)"
    using assms(1) by (auto simp: map_config_ok_def)
  have r: "rg_gran_shift reg' = dc_alloc_granularity_shift config"
    "rg_gran_mask reg' = dc_alloc_granularity config - 1" "rg_list reg' = []"
    "rg_lut_capacity reg' = drop_bit (nat (dc_alloc_granularity_shift config)) (push_bit CUDAMEM_MAPPING_VA_BITS 1)"
    "rg_lut_phys reg' = Some (\<lambda>_. 0)" "rg_lut_meta reg' = Some (\<lambda>_. zero_meta)"
    using assms(2) by (auto simp: cudamem_mapping_registry_init_def Let_def split: prod.splits if_splits)
  show "counted config [] reg'"
    using g unat_capacity [OF g(2)]
    by (simp add: counted_def reg_geometry_def r refs_def slot_counts_def zero_meta_def)
  show "rg_list reg' = []" "rg_gran_shift reg' = dc_alloc_granularity_shift config" by (simp_all add: r)
qed

section \<open>Registration\<close>

lemma window_no_wrap:
  assumes "reg_geometry reg" "\<not> rg_lut_capacity reg < chunk_first reg va + chunk_cnt reg va nb"
  shows "unat (chunk_first reg va) + unat (chunk_cnt reg va nb) \<le> capacity reg"
proof -
  let ?g = "nat (rg_gran_shift reg)"
  have g: "1 \<le> ?g" "?g < 64" using assms(1) by (auto simp: reg_geometry_def CUDAMEM_MAPPING_VA_BITS_def)
  have half: "unat (drop_bit ?g (x :: u64)) < 2 ^ 63" for x
  proof -
    have "unat x < 2 ^ 63 * 2 ^ 1" using unat_u64_bound [of x] by simp
    also have "\<dots> \<le> 2 ^ 63 * 2 ^ ?g" by (rule mult_le_mono2) (use power_increasing [OF g(1), of "2 :: nat"] in simp)
    finally show ?thesis by (simp add: unat_drop_bit_u64 div_less_iff_less_mult)
  qed
  have "unat (chunk_first reg va) < 2 ^ 63" "unat (chunk_cnt reg va nb) < 2 ^ 63"
    unfolding chunk_first_def chunk_cnt_def by (rule half)+
  then have "unat (chunk_first reg va + chunk_cnt reg va nb) = unat (chunk_first reg va) + unat (chunk_cnt reg va nb)"
    by (intro unat_add_u64) simp
  then show ?thesis using assms(2) by (simp add: word_less_nat_alt)
qed

lemma refs_bumped:
  assumes "bumped_tables config first n reg reg'"
  shows "refs reg' = refs reg" "in_capacity reg' = in_capacity reg"
  by (simp_all add: refs_def in_capacity_def fun_eq_iff bumped_tables_simps [OF assms])

text \<open>A full window bumped counts one registration more, a partial one can be taken back.\<close>

lemma bumped_counted:
  assumes "counted config ms reg" "length ms < 2 ^ 32 - 1" "in_capacity reg m"
    "bumped_tables config (unat (chunk_first reg (mr_vaddr m))) (unat (chunk_cnt reg (mr_vaddr m) (mr_size m))) reg reg'"
  shows "counted config (m # ms) reg'"
  unfolding counted_def refs_bumped [OF assms(4)]
proof (intro conjI allI)
  fix i
  have c: "slot_counts config (refs reg ms i) (metas reg i) (physs reg i)" using assms(1) by (simp add: counted_def)
  have b: "if covers reg i m then slot_bumped config (metas reg i) (physs reg i) (metas reg' i) (physs reg' i)
      else metas reg' i = metas reg i \<and> physs reg' i = physs reg i"
    using assms(4) unfolding bumped_tables_def by blast
  have n: "refs reg ms i < 2 ^ 32 - 1" using refs_le [of reg ms i] assms(2) by linarith
  show "slot_counts config (refs reg (m # ms) i) (metas reg' i) (physs reg' i)"
  proof (cases "covers reg i m")
    case True
    with b have "slot_bumped config (metas reg i) (physs reg i) (metas reg' i) (physs reg' i)" by (simp only: if_True simp_thms)
    from slot_counts_bump [OF c this n] True show ?thesis by (simp add: refs_Cons)
  next
    case False
    then have "refs reg (m # ms) i = refs reg ms i" unfolding refs_Cons by (simp only: if_False add_0_right)
    moreover have "metas reg' i = metas reg i" "physs reg' i = physs reg i" using b False by (simp_all only: if_False)
    ultimately show ?thesis using c by simp
  qed
next
  show "reg_geometry reg'" using assms(1) bumped_tables_simps(1) [OF assms(4)] by (simp add: counted_def)
next
  show "\<forall>m \<in> set (m # ms). in_capacity reg m" using assms(1,3) by (simp add: counted_def)
qed

lemma bumped_undone:
  assumes "counted config ms reg" "length ms < 2 ^ 32 - 1" "bumped_tables config first n reg reg'"
  shows "dropped first n reg' = reg"
proof -
  have slot: "(if in_window first n i \<and> cm_rc (metas reg' i) = 1 then 0 else physs reg' i) = physs reg i \<and>
      (if in_window first n i then drop_ref (metas reg' i) else metas reg' i) = metas reg i" for i
  proof -
    have c: "slot_counts config (refs reg ms i) (metas reg i) (physs reg i)" using assms(1) by (simp add: counted_def)
    have b: "if in_window first n i then slot_bumped config (metas reg i) (physs reg i) (metas reg' i) (physs reg' i)
        else metas reg' i = metas reg i \<and> physs reg' i = physs reg i"
      using assms(3) unfolding bumped_tables_def by blast
    have n: "refs reg ms i < 2 ^ 32 - 1" using refs_le [of reg ms i] assms(2) by linarith
    show ?thesis
    proof (cases "in_window first n i")
      case True
      with b have "slot_bumped config (metas reg i) (physs reg i) (metas reg' i) (physs reg' i)" by (simp only: if_True simp_thms)
      from slot_counts_undo [OF c this n] True show ?thesis by simp
    qed (use b in \<open>simp only: if_False simp_thms\<close>)
  qed
  have "reg' = with_tables (physs reg') (metas reg') reg" using assms(3) by (simp add: bumped_tables_def)
  then have "dropped first n reg' = with_tables (physs reg) (metas reg) reg"
    unfolding dropped_def slot [THEN conjunct1] slot [THEN conjunct2] by (metis with_tables_simps(9))
  then show ?thesis using assms(1) by (simp add: counted_def with_tables_same)
qed


text \<open>The outcomes of a registration.\<close>

lemma add_result:
  assumes os: "dmabuf_lawful os fds" and config: "map_config_ok config"
    and inv: "counted config (rg_list reg) reg" and few: "length (rg_list reg) < 2 ^ 32 - 1"
  obtains (refused) err k' where "cudamem_mapping_add os reg config vaddr nb k = Some (err, reg, k')" "err < 0"
    | (registered) reg' k' where "cudamem_mapping_add os reg config vaddr nb k = Some (0, reg', k')"
        "rg_list reg' = \<lparr>mr_vaddr = vaddr, mr_size = nb\<rparr> # rg_list reg" "counted config (rg_list reg') reg'"
        "rg_gran_shift reg' = rg_gran_shift reg" "vaddr \<noteq> 0" "nb \<noteq> 0"
proof -
  have g: "reg_geometry reg" using inv by (simp add: counted_def)
  let ?first = "chunk_first reg vaddr" and ?cnt = "chunk_cnt reg vaddr nb"
  let ?m = "\<lparr>mr_vaddr = vaddr, mr_size = nb\<rparr>"
  note run = cudamem_mapping_add_def [of os reg config vaddr nb k, unfolded if_not_P [OF geometry_shift [OF g]] Let_def]
  show thesis
  proof (cases "vaddr = 0 \<or> nb = 0 \<or> rg_lut_capacity reg < ?first + ?cnt")
    case True
    then show thesis by (intro refused [of "- EINVAL" k]) (auto simp: run)
  next
    case False
    then have nz: "\<not> (vaddr = 0 \<or> nb = 0)" and fit: "\<not> rg_lut_capacity reg < ?first + ?cnt" by simp_all
    have cap: "unat ?first + unat ?cnt \<le> capacity reg" using window_no_wrap [OF g fit] .
    note run = run [unfolded if_not_P [OF nz] if_not_P [OF fit]]
    obtain ok k1 where m: "os_malloc os k = (ok, k1)" by (cases "os_malloc os k")
    obtain e b reg1 k2 where loop: "add_loop os config (unat ?cnt) ?first 0 reg k1 = Some (e, 0 + of_nat b, reg1, k2)"
      "b \<le> unat ?cnt" "bumped_tables config (unat ?first) b reg reg1" "e = None \<longrightarrow> b = unat ?cnt" "\<forall>err. e = Some err \<longrightarrow> err < 0"
      using add_loop_result [OF os config g cap, of 0 k1] by metis
    note s = bumped_tables_simps [OF loop(3)]
    show thesis
    proof (cases "ok")
      case False
      then show thesis by (intro refused [of "- ENOMEM" k1]) (simp_all add: run m)
    next
      case ok: True
      show thesis
      proof (cases e)
        case None
        have cap1: "in_capacity reg ?m" using cap by (simp add: in_capacity_def)
        have "counted config (?m # rg_list reg) reg1"
          using bumped_counted [OF inv few cap1] loop(3,4) None by simp
        with ok None loop(1) s show thesis
          by (intro registered [of "reg1\<lparr>rg_list := ?m # rg_list reg1\<rparr>" k2]) (use nz in \<open>simp_all add: run m\<close>)
      next
        case (Some err)
        have "unat (of_nat b :: u64) = b" using loop(2) unat_u64_bound [of ?cnt] by (intro unat_of_nat_u64) simp
        moreover have "unat ?first + b \<le> capacity reg1" using loop(2) cap s(2) by simp
        ultimately obtain k3 where "cudamem_mapping_chunk_deref os reg1 ?first (of_nat b) k2 = Some (reg, k3)"
          using deref_loop_result [OF s(1) [OF g], of ?first b os k2] bumped_undone [OF inv few loop(3)]
          unfolding cudamem_mapping_chunk_deref_def by auto
        with ok Some loop(1,5) show thesis by (intro refused [of err k3]) (simp_all add: run m)
      qed
    qed
  qed
qed

section \<open>Runs\<close>

datatype mapping_op = Register u64 u64 | Unregister u64 | Clear

text \<open>What a client of the registry does; the codes the calls return are the client's to ignore.\<close>

fun mapping_step ::
  "('k, 'x) gpu_os_scheme \<Rightarrow> cudamem_config \<Rightarrow> mapping_op \<Rightarrow> cudamem_mapping_registry \<times> 'k \<Rightarrow>
   (cudamem_mapping_registry \<times> 'k) option" where
  "mapping_step os config (Register vaddr nb) (reg, k) =
     map_option snd (cudamem_mapping_add os reg config vaddr nb k)"
| "mapping_step os config (Unregister vaddr) (reg, k) =
     map_option snd (cudamem_mapping_remove os reg vaddr k)"
| "mapping_step os config Clear (reg, k) = cudamem_mapping_clear os reg k"

fun mapping_run ::
  "('k, 'x) gpu_os_scheme \<Rightarrow> cudamem_config \<Rightarrow> mapping_op list \<Rightarrow> cudamem_mapping_registry \<times> 'k \<Rightarrow>
   (cudamem_mapping_registry \<times> 'k) option" where
  "mapping_run os config [] s = Some s"
| "mapping_run os config (op # ops) s = Option.bind (mapping_step os config op s) (mapping_run os config ops)"

lemma remove_result:
  assumes inv: "counted config (rg_list reg) reg"
  obtains err reg' k' where "cudamem_mapping_remove os reg vaddr k = Some (err, reg', k')"
    "counted config (rg_list reg') reg'" "length (rg_list reg') \<le> length (rg_list reg)" "rg_gran_shift reg' = rg_gran_shift reg"
proof (cases "unlink vaddr (rg_list reg)")
  case None
  then show thesis using inv by (intro that [of "- EINVAL" reg k]) (simp_all add: cudamem_mapping_remove_def)
next
  case (Some x)
  obtain m rest where x: "x = (m, rest)" by (cases x)
  have ms: "mset (rg_list reg) = mset (m # rest)" using unlink_result [where key = vaddr and ms = "rg_list reg"] Some x by simp
  have "counted config (m # rest) reg" using inv counted_mset [OF ms] by simp
  then obtain k' where "deref_registration os m reg k = Some (released m reg, k')" "counted config rest (released m reg)"
    by (rule deref_registration_counted)
  moreover have "length rest \<le> length (rg_list reg)" using mset_eq_length [OF ms] by simp
  ultimately show thesis using Some x
    by (intro that [of 0 "released m reg\<lparr>rg_list := rest\<rparr>" k']) (simp_all add: cudamem_mapping_remove_def)
qed

lemma mapping_step_counted:
  assumes "dmabuf_lawful os fds" "map_config_ok config" "counted config (rg_list reg) reg" "length (rg_list reg) < 2 ^ 32 - 1"
  obtains reg' k' where "mapping_step os config op (reg, k) = Some (reg', k')" "counted config (rg_list reg') reg'"
    "length (rg_list reg') \<le> Suc (length (rg_list reg))" "rg_gran_shift reg' = rg_gran_shift reg"
proof (cases op)
  case (Register vaddr nb)
  from assms show thesis
    by (cases rule: add_result [where vaddr = vaddr and nb = nb and k = k]) (use that Register assms(3) in \<open>auto\<close>)
next
  case (Unregister vaddr)
  from assms(3) show thesis
    by (cases rule: remove_result [where os = os and vaddr = vaddr and k = k]) (use that Unregister in auto)
next
  case Clear
  obtain reg1 k1 where "clear_loop os (rg_list reg) reg k = Some (reg1, k1)" "counted config [] reg1"
    "rg_gran_shift reg1 = rg_gran_shift reg"
    using clear_loop_counted [OF assms(3), of os k] by blast
  then show thesis using Clear
    by (intro that [of "reg1\<lparr>rg_list := []\<rparr>" k1]) (simp_all add: cudamem_mapping_clear_def)
qed

lemma mapping_run_counted:
  assumes os: "dmabuf_lawful os fds" and config: "map_config_ok config"
  shows "counted config (rg_list reg) reg \<Longrightarrow> length (rg_list reg) + length ops < 2 ^ 32 \<Longrightarrow>
    \<exists>reg' k'. mapping_run os config ops (reg, k) = Some (reg', k') \<and> counted config (rg_list reg') reg' \<and>
      rg_gran_shift reg' = rg_gran_shift reg \<and> length (rg_list reg') \<le> length (rg_list reg) + length ops"
proof (induction ops arbitrary: reg k)
  case (Cons op ops)
  from Cons.prems(2) have "length (rg_list reg) < 2 ^ 32 - 1" by simp
  with os config Cons.prems(1) obtain reg1 k1 where "mapping_step os config op (reg, k) = Some (reg1, k1)"
    "counted config (rg_list reg1) reg1" "length (rg_list reg1) \<le> Suc (length (rg_list reg))" "rg_gran_shift reg1 = rg_gran_shift reg"
    by (rule mapping_step_counted)
  with Cons.IH [of reg1 k1] Cons.prems(2) show ?case by auto
qed simp


text \<open>What a run from the initialisation reaches.\<close>

definition registry_after ::
  "('k, 'x) map_os_scheme \<Rightarrow> cudamem_config \<Rightarrow> mapping_op list \<Rightarrow> cudamem_mapping_registry \<Rightarrow> 'k \<Rightarrow>
   cudamem_mapping_registry \<Rightarrow> 'k \<Rightarrow> bool" where
  "registry_after os config ops reg0 k0 reg k \<longleftrightarrow> (case cudamem_mapping_registry_init os reg0 config k0 of
     Some (err, reg1, k1) \<Rightarrow> err = 0 \<and> mapping_run os config ops (reg1, k1) = Some (reg, k)
   | None \<Rightarrow> False)"

lemma registry_afterD:
  assumes "registry_after os config ops reg0 k0 reg k" "dmabuf_lawful os fds" "map_config_ok config" "length ops < 2 ^ 32"
  shows "counted config (rg_list reg) reg" "rg_gran_shift reg = dc_alloc_granularity_shift config"
    "length (rg_list reg) \<le> length ops"
proof -
  obtain reg1 k1 where init: "cudamem_mapping_registry_init os reg0 config k0 = Some (0, reg1, k1)"
    and run: "mapping_run os config ops (reg1, k1) = Some (reg, k)"
    using assms(1) by (auto simp: registry_after_def split: option.splits)
  note i = registry_init_counted [OF assms(3) init]
  show "counted config (rg_list reg) reg" "rg_gran_shift reg = dc_alloc_granularity_shift config"
    "length (rg_list reg) \<le> length ops"
    using mapping_run_counted [OF assms(2,3), of reg1 ops k1] i run assms(4) by auto
qed

end
