(* ===== verification/Cudamem_Mapping_Props.thy ===== *)
theory Cudamem_Mapping_Props
  imports Cudamem_Mapping_Runs
begin

unbundle bit_operations_syntax

text \<open>
  The properties of the mapping registry: from its initialisation on, every sequence of
  registrations, removals and clears is defined and keeps the reference counts; a failing
  registration changes nothing; a translation gives what the dma-bufs say.
\<close>

section \<open>Translation\<close>

text \<open>The bytes of a registration: a range of addresses below the end of the address space.\<close>

definition registered_byte :: "cudamem_mapping_registration list \<Rightarrow> u64 \<Rightarrow> bool" where
  "registered_byte ms va \<longleftrightarrow> (\<exists>m \<in> set ms. unat (mr_vaddr m) \<le> unat va \<and> unat va < unat (mr_vaddr m) + unat (mr_size m) \<and>
     unat (mr_vaddr m) + unat (mr_size m) \<le> 2 ^ CUDAMEM_MAPPING_VA_BITS)"

lemma byte_in_window:
  fixes v n x g :: nat
  assumes "v \<le> x" "x < v + n" "0 < g"
  shows "v div g \<le> x div g \<and> x div g < v div g + (v mod g + n + (g - 1)) div g"
proof
  show "v div g \<le> x div g" using assms(1) by (rule div_le_mono)
  have "x div g * g \<le> x" by (rule div_times_less_eq_dividend)
  moreover have "x < v div g * g + (v mod g + n)" using assms(2) div_mult_mod_eq [of v g] by linarith
  moreover have "v mod g + n + g - 1 = v mod g + n + (g - 1)" using assms(3) by simp
  then have "v mod g + n \<le> (v mod g + n + (g - 1)) div g * g"
    using page_round_ge [OF assms(3), of "v mod g + n"] by (simp only: page_round_def)
  ultimately have "x div g * g < (v div g + (v mod g + n + (g - 1)) div g) * g"
    unfolding add_mult_distrib by linarith
  then show "x div g < v div g + (v mod g + n + (g - 1)) div g" using assms(3) by simp
qed


abbreviation gran_of :: "cudamem_mapping_registry \<Rightarrow> nat" where
  "gran_of reg \<equiv> 2 ^ nat (rg_gran_shift reg)"

lemma unat_chunk_first: "unat (chunk_first reg va) = unat va div gran_of reg"
  by (simp add: chunk_first_def unat_drop_bit_u64)

lemma unat_chunk_cnt:
  assumes "reg_geometry reg" "unat va + unat nb \<le> 2 ^ CUDAMEM_MAPPING_VA_BITS"
  shows "unat (chunk_cnt reg va nb) = (unat va mod gran_of reg + unat nb + (gran_of reg - 1)) div gran_of reg"
proof -
  have g: "rg_gran_mask reg = 2 ^ nat (rg_gran_shift reg) - 1" "nat (rg_gran_shift reg) \<le> 48"
    using assms(1) by (auto simp: reg_geometry_def CUDAMEM_MAPPING_VA_BITS_def)
  have p: "(2 :: nat) ^ nat (rg_gran_shift reg) \<le> 2 ^ 48" using g(2) by (rule power_increasing) simp
  have m: "unat (2 ^ nat (rg_gran_shift reg) - 1 :: u64) = gran_of reg - 1"
    using unat_sub_u64 [of 1 "2 ^ nat (rg_gran_shift reg)"] unat_two_power [of "nat (rg_gran_shift reg)"] g(2) by simp
  have r: "unat (va AND rg_gran_mask reg) = unat va mod gran_of reg" unfolding g(1) by (rule unat_and_mask)
  have b: "unat va mod gran_of reg + unat nb \<le> 2 ^ 48"
    using assms(2) mod_less_eq_dividend [of "unat va" "gran_of reg"] unfolding CUDAMEM_MAPPING_VA_BITS_def by linarith
  then have s: "unat ((va AND rg_gran_mask reg) + nb) = unat va mod gran_of reg + unat nb"
    using unat_add_u64 [of "va AND rg_gran_mask reg" nb] r by simp
  have lt: "unat va mod gran_of reg + unat nb + (gran_of reg - 1) < 2 ^ 64" using b p by simp
  have "unat ((va AND rg_gran_mask reg) + nb + rg_gran_mask reg) = unat va mod gran_of reg + unat nb + (gran_of reg - 1)"
    using unat_add_u64 [of "(va AND rg_gran_mask reg) + nb" "rg_gran_mask reg"] s m lt by (simp add: g(1))
  then show ?thesis by (simp add: chunk_cnt_def unat_drop_bit_u64)
qed

lemma registered_refs:
  assumes "reg_geometry reg" "registered_byte ms va"
  shows "refs reg ms (unat va div gran_of reg) \<noteq> 0"
proof -
  obtain m where m: "m \<in> set ms" "unat (mr_vaddr m) \<le> unat va" "unat va < unat (mr_vaddr m) + unat (mr_size m)"
    "unat (mr_vaddr m) + unat (mr_size m) \<le> 2 ^ CUDAMEM_MAPPING_VA_BITS"
    using assms(2) by (auto simp: registered_byte_def)
  have "covers reg (unat va div gran_of reg) m"
    unfolding unat_chunk_first unat_chunk_cnt [OF assms(1) m(4)] by (rule byte_in_window [OF m(2,3)]) simp
  with m(1) show ?thesis by (auto simp: refs_def filter_empty_conv)
qed

lemma counted_capacity:
  assumes "counted config ms reg" "refs reg ms i \<noteq> 0"
  shows "i < capacity reg"
proof -
  obtain m where m: "m \<in> set ms" "covers reg i m"
    using assms(2) by (auto simp: refs_def filter_empty_conv)
  with assms(1) show ?thesis by (fastforce simp: counted_def in_capacity_def)
qed

lemma virt_to_phys_counted:
  assumes "counted config ms reg"
  shows "cudamem_mapping_virt_to_phys reg va =
    (let ph = physs reg (unat va div gran_of reg) in
     if va = 0 \<or> ph = 0 then Some (Inl (- EINVAL)) else Some (Inr (ph + of_nat (unat va mod gran_of reg))))"
proof -
  have g: "reg_geometry reg" using assms by (simp add: counted_def)
  have c: "slot_counts config (refs reg ms i) (metas reg i) (physs reg i)" for i using assms by (simp add: counted_def)
  have m: "va AND rg_gran_mask reg = of_nat (unat va mod gran_of reg)"
    using g unat_and_mask [of va "nat (rg_gran_shift reg)"] unat_mod_back [of va "gran_of reg"]
    by (intro u64_eqI) (simp add: reg_geometry_def)
  show ?thesis
  proof (cases "rg_lut_capacity reg \<le> chunk_first reg va")
    case True
    then have "\<not> unat va div gran_of reg < capacity reg" by (simp add: word_le_nat_alt unat_chunk_first)
    then have "refs reg ms (unat va div gran_of reg) = 0" using counted_capacity [OF assms] by blast
    with c [of "unat va div gran_of reg"] True geometry_shift [OF g] show ?thesis
      by (simp add: cudamem_mapping_virt_to_phys_def slot_counts_def)
  next
    case False
    then have "unat (chunk_first reg va) < capacity reg" by (simp add: word_less_nat_alt word_le_nat_alt)
    with slot_accesses(2) [OF g this] False geometry_shift [OF g] show ?thesis
      by (simp add: cudamem_mapping_virt_to_phys_def unat_chunk_first m Let_def)
  qed
qed

text \<open>An address inside a chunk is the address of its page plus the offset in the page.\<close>

lemma chunk_desc_byte:
  assumes "map_config_ok config" "chunk_desc config base buf" "off < unat (dc_alloc_granularity config)"
  shows "base + of_nat off = dmabuf_phys (size_of_int (dc_pagesize config)) buf ! (off div nat (dc_pagesize config)) +
      of_nat (off mod nat (dc_pagesize config))"
    "dmabuf_phys (size_of_int (dc_pagesize config)) buf ! 0 = base"
proof -
  obtain s g where sg: "dc_pagesize_shift config = int s" "dc_alloc_granularity_shift config = int g"
    "s \<le> g" "s \<le> 30" "g \<le> 48" "size_of_int (dc_pagesize config) = 2 ^ s" "dc_alloc_granularity config = 2 ^ g"
    using assms(1) by (rule map_configE)
  have p: "nat (dc_pagesize config) = 2 ^ s" using assms(1) sg(1) by (auto simp: map_config_ok_def nat_power_eq)
  have d: "dmabuf_phys (size_of_int (dc_pagesize config)) buf = map (\<lambda>i. base + of_nat i * 2 ^ s) [0..<2 ^ (g - s)]"
    using assms(2) unfolding chunk_desc_def sg by simp
  have "off < 2 ^ s * 2 ^ (g - s)"
    using assms(3) sg(3,5,7) unat_two_power [of g] by (simp add: power_add [symmetric])
  then have j: "off div 2 ^ s < 2 ^ (g - s)" by (simp add: less_mult_imp_div_less mult.commute)
  have "(of_nat off :: u64) = of_nat (off div 2 ^ s * 2 ^ s + off mod 2 ^ s)" by (simp only: div_mult_mod_eq)
  also have "\<dots> = of_nat (off div 2 ^ s) * 2 ^ s + of_nat (off mod 2 ^ s)" by (simp only: of_nat_add of_nat_mult of_nat_power of_nat_numeral)
  finally show "base + of_nat off = dmabuf_phys (size_of_int (dc_pagesize config)) buf ! (off div nat (dc_pagesize config)) +
      of_nat (off mod nat (dc_pagesize config))"
    using j by (simp add: d p)
  show "dmabuf_phys (size_of_int (dc_pagesize config)) buf ! 0 = base" by (simp add: d)
qed


section \<open>A world to run in\<close>

text \<open>
  The open descriptors; a buffer exports one descriptor, and its dma-buf is one run of physical
  memory at 1 GiB.
\<close>

definition fresh_fd :: "int list \<Rightarrow> int" where "fresh_fd k = 1 + foldr max k 0"

definition ledger_os :: "int list map_os" where
  "ledger_os = \<lparr>os_malloc = \<lambda>k. (True, k), os_open = \<lambda>k path. (Inr (fresh_fd k), fresh_fd k # k),
     os_close = \<lambda>k fd. filter (\<lambda>x. x \<noteq> fd) k, udmabuf_attach = \<lambda>k u f. (Inr 1, k),
     udmabuf_get_map = \<lambda>k u f n. (if n = 0 then Inr [] else Inr [(2 ^ 30, 2 ^ 14)], k),
     udmabuf_detach = \<lambda>k u f. (Inr (), k),
     gpu_alloc = \<lambda>k n. (Inl 2, k), gpu_free = \<lambda>k a. k, gpu_export = \<lambda>k a n. (Inr (fresh_fd k), fresh_fd k # k),
     os_mmap = \<lambda>k n. (True, k), os_munmap = \<lambda>k n. k\<rparr>"

lemma fresh_fd: "0 \<le> fresh_fd k" "fresh_fd k \<notin> set k"
proof -
  have "x \<le> foldr max k 0" if "x \<in> set k" for x using that by (induction k) (auto simp: le_max_iff_disj)
  moreover have "0 \<le> foldr max k 0" by (induction k) auto
  ultimately show "0 \<le> fresh_fd k" "fresh_fd k \<notin> set k" by (fastforce simp: fresh_fd_def)+
qed

lemma ledger_lawful: "dmabuf_lawful ledger_os set"
  by (auto simp: dmabuf_lawful_def os_lawful_def ledger_os_def fresh_fd word_neq_0_conv [symmetric] Suc_le_eq unat_gt_0)

definition example_map_config :: cudamem_config where
  "example_map_config = \<lparr>dc_pagesize = 2 ^ 12, dc_pagesize_shift = 12, dc_device_pagesize = 2 ^ 16,
     dc_device_pagesize_shift = 16, dc_device_memsize = 2 ^ 30, dc_bar1_size = 2 ^ 30, dc_alloc_granularity = 2 ^ 14, dc_alloc_granularity_shift = 14\<rparr>"


lemma example_map_config: "map_config_ok example_map_config"
  by (simp add: map_config_ok_def example_map_config_def CUDAMEM_MAPPING_VA_BITS_def)

definition blank_registry :: cudamem_mapping_registry where
  "blank_registry = \<lparr>rg_gran_shift = 0, rg_gran_mask = 0, rg_lut_capacity = 0, rg_lut_phys = None,
     rg_lut_meta = None, rg_list = []\<rparr>"

definition example_registry :: cudamem_mapping_registry where
  "example_registry = \<lparr>rg_gran_shift = 14, rg_gran_mask = 2 ^ 14 - 1, rg_lut_capacity = 2 ^ 34, rg_lut_phys = Some (\<lambda>_. 0),
     rg_lut_meta = Some (\<lambda>_. zero_meta), rg_list = []\<rparr>"

lemma example_registry_init: "registry_after ledger_os example_map_config [] blank_registry [] example_registry []"
  by (simp add: registry_after_def cudamem_mapping_registry_init_def ledger_os_def example_map_config_def
      blank_registry_def example_registry_def CUDAMEM_MAPPING_VA_BITS_def Let_def)

section \<open>Properties\<close>

text \<open>C34: From a successful initialisation on, every sequence of registrations, removals and clears
  (fewer than 2 to the 32 of them) runs without undefined behaviour, and after it every chunk's
  reference count is the number of registrations that cover the chunk; a chunk nobody covers has
  neither attachment nor address, and a chunk somebody covers has the address of a dma-buf that
  is physically contiguous.\<close>

theorem cudamem_mapping_run_counts:
  assumes "dmabuf_lawful os fds" "map_config_ok config" "length ops < 2 ^ 32"
    and "cudamem_mapping_registry_init os reg0 config k0 = Some (0, reg1, k1)"
  shows "\<exists>reg k. mapping_run os config ops (reg1, k1) = Some (reg, k) \<and>
    (\<forall>i. unat (cm_rc (metas reg i)) = length (filter (covers reg i) (rg_list reg)) \<and>
       (if cm_rc (metas reg i) = 0 then metas reg i = zero_meta \<and> physs reg i = 0
        else chunk_desc config (physs reg i) (cm_attach (metas reg i))))"
proof -
  note init = registry_init_counted [OF assms(2,4)]
  obtain reg k where run: "mapping_run os config ops (reg1, k1) = Some (reg, k)" "counted config (rg_list reg) reg"
    using mapping_run_counted [OF assms(1,2), of reg1 ops k1] init assms(3) by auto
  have "unat (cm_rc cm) = n \<and> (if cm_rc cm = 0 then cm = zero_meta \<and> ph = 0 else chunk_desc config ph (cm_attach cm))"
    if "slot_counts config n cm ph" for n cm ph
    using that by (auto simp: slot_counts_def word_unat_eq_iff)
  with run show ?thesis unfolding counted_def refs_def by blast
qed

theorem cudamem_mapping_run_counts_witness:
  "\<exists>reg k. mapping_run ledger_os example_map_config [Register 4096 8192, Register 4096 100, Unregister 4096, Clear]
      (example_registry, []) = Some (reg, k) \<and>
    (\<forall>i. unat (cm_rc (metas reg i)) = length (filter (covers reg i) (rg_list reg)) \<and>
       (if cm_rc (metas reg i) = 0 then metas reg i = zero_meta \<and> physs reg i = 0
        else chunk_desc example_map_config (physs reg i) (cm_attach (metas reg i))))"
proof (rule cudamem_mapping_run_counts [OF ledger_lawful example_map_config])
  show "cudamem_mapping_registry_init ledger_os blank_registry example_map_config [] = Some (0, example_registry, [])"
    by (simp add: cudamem_mapping_registry_init_def ledger_os_def example_map_config_def
      blank_registry_def example_registry_def CUDAMEM_MAPPING_VA_BITS_def Let_def)
qed simp

text \<open>C35: Registering a buffer in a registry that is in use either succeeds, and adds the
  registration, or returns a negative error and leaves the registry exactly as it was, also when
  the failure came after some of the chunks had been counted up or populated.\<close>

theorem cudamem_mapping_add_all_or_nothing:
  assumes "dmabuf_lawful os fds" "map_config_ok config" "length ops < 2 ^ 32 - 1"
    and "registry_after os config ops reg0 k0 reg k"
  shows "\<exists>err reg' k'. cudamem_mapping_add os reg config vaddr nb k = Some (err, reg', k') \<and>
    (if err = 0 then rg_list reg' = \<lparr>mr_vaddr = vaddr, mr_size = nb\<rparr> # rg_list reg else err < 0 \<and> reg' = reg)"
proof -
  note r = registry_afterD [OF assms(4,1,2)]
  have "length (rg_list reg) < 2 ^ 32 - 1" using r(3) assms(3) by simp
  with assms(1,2) r(1) show ?thesis
    by (cases rule: add_result [where vaddr = vaddr and nb = nb and k = k]) (use assms(3) in auto)
qed

theorem cudamem_mapping_add_all_or_nothing_witness:
  "\<exists>err reg' k'. cudamem_mapping_add ledger_os example_registry example_map_config 4096 8192 [] = Some (err, reg', k') \<and>
    (if err = 0 then rg_list reg' = \<lparr>mr_vaddr = 4096, mr_size = 8192\<rparr> # rg_list example_registry else err < 0 \<and> reg' = example_registry)"
  by (rule cudamem_mapping_add_all_or_nothing [OF ledger_lawful example_map_config _ example_registry_init]) simp

text \<open>C36: A byte of a registered buffer translates to the address that the dma-buf of its chunk has
  for it: the physical page it lies on plus its offset in that page (the chunk whose first page
  is at physical address 0 counts as absent). An address in a chunk that no registration covers is
  refused with -EINVAL.\<close>

theorem cudamem_mapping_translates:
  assumes "dmabuf_lawful os fds" "map_config_ok config" "length ops < 2 ^ 32"
    and "registry_after os config ops reg0 k0 reg k"
  shows "(registered_byte (rg_list reg) va \<longrightarrow> va \<noteq> 0 \<longrightarrow>
      (let off = unat va mod unat (dc_alloc_granularity config);
           buf = cm_attach (metas reg (unat va div unat (dc_alloc_granularity config)));
           pages = dmabuf_phys (size_of_int (dc_pagesize config)) buf
       in cudamem_mapping_virt_to_phys reg va =
          (if pages ! 0 = 0 then Some (Inl (- EINVAL))
           else Some (Inr (pages ! (off div nat (dc_pagesize config)) + of_nat (off mod nat (dc_pagesize config))))))) \<and>
    ((\<forall>m \<in> set (rg_list reg). \<not> covers reg (unat va div unat (dc_alloc_granularity config)) m) \<longrightarrow>
      cudamem_mapping_virt_to_phys reg va = Some (Inl (- EINVAL)))"
proof -
  note r = registry_afterD [OF assms(4,1,2,3)]
  let ?i = "unat va div unat (dc_alloc_granularity config)"
  have g: "reg_geometry reg" using r(1) by (simp add: counted_def)
  have gran: "unat (dc_alloc_granularity config) = gran_of reg"
    using assms(2) r(2) unat_two_power [of "nat (rg_gran_shift reg)"]
    by (auto simp: map_config_ok_def CUDAMEM_MAPPING_VA_BITS_def)
  have c: "slot_counts config (refs reg (rg_list reg) i) (metas reg i) (physs reg i)" for i using r(1) by (simp add: counted_def)
  note v = virt_to_phys_counted [OF r(1), of va, folded gran]
  show ?thesis
  proof (intro conjI impI)
    assume "registered_byte (rg_list reg) va" "va \<noteq> 0"
    then have "refs reg (rg_list reg) ?i \<noteq> 0" using registered_refs [OF g] by (simp add: gran)
    with c [of ?i] have d: "chunk_desc config (physs reg ?i) (cm_attach (metas reg ?i))" by (simp add: slot_counts_def)
    have "unat va mod unat (dc_alloc_granularity config) < unat (dc_alloc_granularity config)" by (simp add: gran)
    from chunk_desc_byte [OF assms(2) d this] show "let off = unat va mod unat (dc_alloc_granularity config);
           buf = cm_attach (metas reg (unat va div unat (dc_alloc_granularity config)));
           pages = dmabuf_phys (size_of_int (dc_pagesize config)) buf
       in cudamem_mapping_virt_to_phys reg va =
          (if pages ! 0 = 0 then Some (Inl (- EINVAL))
           else Some (Inr (pages ! (off div nat (dc_pagesize config)) + of_nat (off mod nat (dc_pagesize config)))))"
      using v \<open>va \<noteq> 0\<close> by (simp add: Let_def)
  next
    assume "\<forall>m \<in> set (rg_list reg). \<not> covers reg ?i m"
    then have "refs reg (rg_list reg) ?i = 0" by (auto simp: refs_def filter_empty_conv)
    with c [of ?i] v show "cudamem_mapping_virt_to_phys reg va = Some (Inl (- EINVAL))"
      by (simp add: slot_counts_def)
  qed
qed


definition example_registered :: cudamem_mapping_registry where
  "example_registered = example_registry\<lparr>
     rg_lut_phys := Some ((\<lambda>_. 0)(0 := 2 ^ 30)),
     rg_lut_meta := Some ((\<lambda>_. zero_meta)(0 := \<lparr>cm_rc = 1, cm_attach = \<lparr>dm_fd = 1, dm_npages = 1, dm_pages = [(2 ^ 30, 2 ^ 14)]\<rparr>\<rparr>)),
     rg_list := [\<lparr>mr_vaddr = 4096, mr_size = 8192\<rparr>]\<rparr>"

lemma example_populate:
  "cudamem_mapping_chunk_populate ledger_os 0 example_map_config [] =
    Some (Inr (2 ^ 30, \<lparr>dm_fd = 1, dm_npages = 1, dm_pages = [(2 ^ 30, 2 ^ 14)]\<rparr>), [1])"
  by code_simp

lemma example_registered_run:
  "registry_after ledger_os example_map_config [Register 4096 8192] blank_registry [] example_registered [1]"
proof -
  have "cudamem_mapping_add ledger_os example_registry example_map_config 4096 8192 [] = Some (0, example_registered, [1])"
  proof -
    have "chunk_first example_registry 4096 = 0" "chunk_cnt example_registry 4096 8192 = 1"
      "rg_lut_capacity example_registry = 2 ^ 34" by code_simp+
    moreover have "example_registry = with_tables (\<lambda>_. 0) (\<lambda>_. zero_meta) example_registry"
      by (simp add: with_tables_def example_registry_def)
    ultimately show ?thesis using example_populate
      by (simp add: cudamem_mapping_add_def ledger_os_def slot_meta_def set_meta_def set_phys_def example_registered_def
        example_registry_def zero_meta_def)
  qed
  then show ?thesis using example_registry_init by (auto simp: registry_after_def split: option.splits)
qed


theorem cudamem_mapping_translates_witness:
  "cudamem_mapping_virt_to_phys example_registered 5000 = Some (Inr (2 ^ 30 + 5000))"
proof -
  have b: "registered_byte (rg_list example_registered) 5000"
    by (simp add: registered_byte_def example_registered_def CUDAMEM_MAPPING_VA_BITS_def)
  have "unat (dc_alloc_granularity example_map_config) = 2 ^ 14" "nat (dc_pagesize example_map_config) = 2 ^ 12"
    "cm_attach (metas example_registered 0) = \<lparr>dm_fd = 1, dm_npages = 1, dm_pages = [(2 ^ 30, 2 ^ 14)]\<rparr>"
    by (simp_all add: example_map_config_def example_registered_def)
  moreover have "dmabuf_phys (size_of_int (dc_pagesize example_map_config)) \<lparr>dm_fd = 1, dm_npages = 1, dm_pages = [(2 ^ 30, 2 ^ 14)]\<rparr> =
      [2 ^ 30, 2 ^ 30 + 2 ^ 12, 2 ^ 30 + 2 ^ 13, 2 ^ 30 + 2 ^ 13 + 2 ^ 12]"
    by (simp add: dmabuf_phys_def entry_pages_def example_map_config_def upt_rec)
  ultimately show ?thesis
    using cudamem_mapping_translates [OF ledger_lawful example_map_config _ example_registered_run, of 5000] b by simp
qed

text \<open>The sum that rounds a size up to chunks wraps: a registration of SIZE_MAX bytes at the start of
  a chunk is granted, is put on the list, and covers no chunk at all.\<close>

theorem cudamem_mapping_add_wraps:
  assumes "map_config_ok config" "registry_after os config [] reg0 k0 reg k"
    and "vaddr \<noteq> 0" "unat vaddr mod unat (dc_alloc_granularity config) = 0" "unat vaddr < 2 ^ 48"
    and "os_malloc os k = (True, k1)"
  shows "cudamem_mapping_add os reg config vaddr (- 1) k =
      Some (0, reg\<lparr>rg_list := [\<lparr>mr_vaddr = vaddr, mr_size = - 1\<rparr>]\<rparr>, k1) \<and>
    cudamem_mapping_virt_to_phys (reg\<lparr>rg_list := [\<lparr>mr_vaddr = vaddr, mr_size = - 1\<rparr>]\<rparr>) vaddr = Some (Inl (- EINVAL))"
proof -
  have init: "cudamem_mapping_registry_init os reg0 config k0 = Some (0, reg, k)"
    using assms(2) by (auto simp: registry_after_def split: option.splits)
  note i = registry_init_counted [OF assms(1) init]
  have g: "reg_geometry reg" using i(1) by (simp add: counted_def)
  let ?g = "nat (rg_gran_shift reg)"
  have sh: "1 \<le> ?g" "?g \<le> 48" using g by (auto simp: reg_geometry_def CUDAMEM_MAPPING_VA_BITS_def)
  have gran: "unat (dc_alloc_granularity config) = gran_of reg"
    using assms(1) i(3) unat_two_power [of ?g] by (auto simp: map_config_ok_def CUDAMEM_MAPPING_VA_BITS_def)
  have m: "rg_gran_mask reg = 2 ^ ?g - 1" using g by (simp add: reg_geometry_def)
  have z: "vaddr AND rg_gran_mask reg = 0"
    by (intro u64_eqI) (simp only: m unat_and_mask assms(4) [unfolded gran] unsigned_0)
  have two: "(2 :: nat) \<le> 2 ^ ?g" using power_increasing [OF sh(1), of "2 :: nat"] by simp
  have u: "unat (2 ^ ?g - 1 :: u64) = gran_of reg - 1"
    using unat_sub_u64 [of 1 "2 ^ ?g"] unat_two_power [of ?g] sh(2) by simp
  have e: "(vaddr AND rg_gran_mask reg) + - 1 + rg_gran_mask reg = (2 ^ ?g - 1) - 1" unfolding z by (simp add: m)
  have "unat ((2 ^ ?g - 1) - 1 :: u64) = gran_of reg - 2"
    using unat_sub_u64 [of 1 "2 ^ ?g - 1"] u two by simp
  then have cnt: "chunk_cnt reg vaddr (- 1) = 0"
    unfolding chunk_cnt_def e using two by (intro u64_eqI) (simp add: unat_drop_bit_u64)
  have "unat (chunk_first reg vaddr) < 2 ^ (48 - ?g)"
    using assms(5) sh(2) by (simp add: unat_chunk_first div_less_iff_less_mult power_add [symmetric])
  then have "\<not> rg_lut_capacity reg < chunk_first reg vaddr"
    using g by (simp add: reg_geometry_def word_less_nat_alt CUDAMEM_MAPPING_VA_BITS_def)
  then have "cudamem_mapping_add os reg config vaddr (- 1) k =
      Some (0, reg\<lparr>rg_list := [\<lparr>mr_vaddr = vaddr, mr_size = - 1\<rparr>]\<rparr>, k1)"
    using geometry_shift [OF g] assms(3,6) i(2) cnt by (simp add: cudamem_mapping_add_def)
  moreover have "counted config [] (reg\<lparr>rg_list := [\<lparr>mr_vaddr = vaddr, mr_size = - 1\<rparr>]\<rparr>)" using i(1,2) by simp
  from virt_to_phys_counted [OF this, of vaddr] i(1,2)
  have "cudamem_mapping_virt_to_phys (reg\<lparr>rg_list := [\<lparr>mr_vaddr = vaddr, mr_size = - 1\<rparr>]\<rparr>) vaddr = Some (Inl (- EINVAL))"
    by (simp add: counted_def refs_def slot_counts_def Let_def)
  ultimately show ?thesis by blast
qed

theorem cudamem_mapping_add_wraps_witness:
  "cudamem_mapping_add ledger_os example_registry example_map_config 16384 (- 1) [] =
    Some (0, example_registry\<lparr>rg_list := [\<lparr>mr_vaddr = 16384, mr_size = - 1\<rparr>]\<rparr>, [])"
  using cudamem_mapping_add_wraps [OF example_map_config example_registry_init, of 16384 "[]"]
  by (simp add: example_map_config_def ledger_os_def)

end
