(* ===== verification/Text_Io.thy ===== *)
theory Text_Io
  imports Os
begin

text \<open>
  The parts of the C library that the sysfs code computes with: hexadecimal conversions of
  \<open>sscanf\<close>, \<open>strtoul\<close> and \<open>snprintf\<close> on strings without NUL, and the calls on files, directories
  and mappings, which are parameters.

  \<open>sscanf\<close> with \<open>%Nx\<close> skips white space, then takes at most \<open>N\<close> characters of an optional sign, an
  optional \<open>0x\<close> and hexadecimal digits; a negative number is stored wrapped, which is the
  negative number again when the variable is an \<open>int\<close>, as it is here.
\<close>

section \<open>Hexadecimal numbers\<close>

definition is_space :: "char \<Rightarrow> bool" where
  "is_space c \<longleftrightarrow> of_char c \<in> {32, 9, 10, 11, 12, 13 :: nat}"

definition hex_val :: "char \<Rightarrow> nat option" where
  "hex_val c = (let n = of_char c in
     if 48 \<le> n \<and> n \<le> 57 then Some (n - 48)
     else if 97 \<le> n \<and> n \<le> 102 then Some (n - 87)
     else if 65 \<le> n \<and> n \<le> 70 then Some (n - 55)
     else None)"

definition hex_char :: "nat \<Rightarrow> char" where
  "hex_char d = char_of (if d < 10 then d + 48 else d + 87)"

fun hex_digits :: "nat \<Rightarrow> string \<Rightarrow> nat list \<times> string" where
  "hex_digits 0 s = ([], s)"
| "hex_digits (Suc w) [] = ([], [])"
| "hex_digits (Suc w) (c # s) =
     (case hex_val c of None \<Rightarrow> ([], c # s) | Some d \<Rightarrow> let (ds, r) = hex_digits w s in (d # ds, r))"

definition hex_value :: "nat list \<Rightarrow> nat" where
  "hex_value ds = foldl (\<lambda>a d. 16 * a + d) 0 ds"

definition scan_sign :: "nat \<Rightarrow> string \<Rightarrow> bool \<times> nat \<times> string" where
  "scan_sign w s = (case s of
     c # r \<Rightarrow> if 0 < w \<and> c = CHR ''-'' then (True, w - 1, r)
             else if 0 < w \<and> c = CHR ''+'' then (False, w - 1, r) else (False, w, s)
   | [] \<Rightarrow> (False, w, s))"

definition scan_prefix :: "nat \<Rightarrow> string \<Rightarrow> nat \<times> string" where
  "scan_prefix w s = (case s of
     c # d # r \<Rightarrow> if 2 \<le> w \<and> c = CHR ''0'' \<and> (d = CHR ''x'' \<or> d = CHR ''X'') then (w - 2, r) else (w, s)
   | _ \<Rightarrow> (w, s))"

text \<open>\<open>%Nx\<close>: the number stored in an \<open>int\<close> and the rest of the text, or no conversion.\<close>

definition scan_hex :: "nat \<Rightarrow> string \<Rightarrow> (int \<times> string) option" where
  "scan_hex w s =
     (let (neg, w1, s1) = scan_sign w (dropWhile is_space s);
          (w2, s2) = scan_prefix w1 s1;
          (ds, rest) = hex_digits w2 s2
      in if ds = [] then None
         else Some (if neg then - int (hex_value ds) else int (hex_value ds), rest))"

definition scan_char :: "char \<Rightarrow> string \<Rightarrow> string option" where
  "scan_char c s = (case s of d # r \<Rightarrow> if d = c then Some r else None | [] \<Rightarrow> None)"

text \<open>\<open>strtoul(s, NULL, 16)\<close>, for texts of at most 15 characters, which cannot overflow.\<close>

definition strtoul16 :: "string \<Rightarrow> u64" where
  "strtoul16 s =
     (let (neg, w1, s1) = scan_sign (length s) (dropWhile is_space s);
          (w2, s2) = scan_prefix (length s1) s1;
          v = of_nat (hex_value (fst (hex_digits w2 s2)))
      in if neg then - v else v)"

text \<open>\<open>%0Nx\<close> of a number that fits \<open>N\<close> digits, and \<open>%u\<close> of a small one.\<close>

primrec print_hex :: "nat \<Rightarrow> nat \<Rightarrow> string" where
  "print_hex 0 n = []"
| "print_hex (Suc w) n = print_hex w (n div 16) @ [hex_char (n mod 16)]"

fun print_dec :: "nat \<Rightarrow> string" where
  "print_dec n = (if n < 10 then [char_of (n + 48)] else print_dec (n div 10) @ [char_of (n mod 10 + 48)])"

declare print_dec.simps [simp del]

text \<open>\<open>%d\<close>: printed, and scanned where the number fits an \<open>int\<close>.\<close>

definition print_int :: "int \<Rightarrow> string" where
  "print_int i = (if i < 0 then CHR ''-'' # print_dec (nat (- i)) else print_dec (nat i))"

definition scan_dec :: "string \<Rightarrow> int option" where
  "scan_dec s =
     (let (neg, w, s1) = scan_sign (length s) (dropWhile is_space s);
          digits = takeWhile (\<lambda>c. 48 \<le> (of_char c :: nat) \<and> (of_char c :: nat) \<le> 57) s1;
          v = foldl (\<lambda>a c. 10 * a + (of_char c - 48)) (0 :: nat) digits
      in if digits = [] then None else Some (if neg then - int v else int v))"

section \<open>Files and directories\<close>

record 'k fs_os = "'k os" +
  fs_read :: "'k \<Rightarrow> int \<Rightarrow> nat \<Rightarrow> (int + string) \<times> 'k"
  fs_stat :: "'k \<Rightarrow> string \<Rightarrow> (int + u64) \<times> 'k"          \<comment> \<open>the size\<close>
  fs_map :: "'k \<Rightarrow> int \<Rightarrow> u64 \<Rightarrow> (int + u64) \<times> 'k"
  fs_unmap :: "'k \<Rightarrow> u64 \<Rightarrow> u64 \<Rightarrow> 'k"
  fs_opendir :: "'k \<Rightarrow> string \<Rightarrow> (int + string list) \<times> 'k"  \<comment> \<open>the names it will list\<close>
  fs_closedir :: "'k \<Rightarrow> 'k"

text \<open>What the calls do to the open descriptors and to the mappings, by address and size.\<close>

definition fs_lawful :: "('k, 'x) fs_os_scheme \<Rightarrow> ('k \<Rightarrow> int set) \<Rightarrow> ('k \<Rightarrow> (u64 \<times> u64) set) \<Rightarrow> bool" where
  "fs_lawful os fds maps \<longleftrightarrow> os_lawful os fds \<and>
     (\<forall>k. maps (snd (os_malloc os k)) = maps k) \<and> (\<forall>k p. maps (snd (os_open os k p)) = maps k) \<and>
     (\<forall>k f. maps (os_close os k f) = maps k) \<and>
     (\<forall>k f n. fds (snd (fs_read os k f n)) = fds k \<and> maps (snd (fs_read os k f n)) = maps k \<and>
        (case fst (fs_read os k f n) of Inl e \<Rightarrow> 0 < e | Inr s \<Rightarrow> length s \<le> n)) \<and>
     (\<forall>k p. fds (snd (fs_stat os k p)) = fds k \<and> maps (snd (fs_stat os k p)) = maps k \<and>
        (\<forall>e. fst (fs_stat os k p) = Inl e \<longrightarrow> 0 < e)) \<and>
     (\<forall>k f n. fds (snd (fs_map os k f n)) = fds k \<and>
        (case fst (fs_map os k f n) of
           Inl e \<Rightarrow> 0 < e \<and> maps (snd (fs_map os k f n)) = maps k
         | Inr a \<Rightarrow> a \<noteq> 0 \<and> (a, n) \<notin> maps k \<and> maps (snd (fs_map os k f n)) = insert (a, n) (maps k))) \<and>
     (\<forall>k a n. fds (fs_unmap os k a n) = fds k \<and> maps (fs_unmap os k a n) = maps k - {(a, n)}) \<and>
     (\<forall>k p. fds (snd (fs_opendir os k p)) = fds k \<and> maps (snd (fs_opendir os k p)) = maps k \<and>
        (\<forall>e. fst (fs_opendir os k p) = Inl e \<longrightarrow> 0 < e)) \<and>
     (\<forall>k. fds (fs_closedir os k) = fds k \<and> maps (fs_closedir os k) = maps k)"

section \<open>Printed numbers scan back\<close>

lemma hex_val_char: "d < 16 \<Longrightarrow> hex_val (hex_char d) = Some d"
  by (auto simp: hex_val_def hex_char_def Let_def)

lemma hex_char_plain:
  assumes "d < 16"
  shows "\<not> is_space (hex_char d)" "hex_char d \<noteq> CHR ''-''" "hex_char d \<noteq> CHR ''+''"
    "hex_char d \<noteq> CHR ''x''" "hex_char d \<noteq> CHR ''X''"
proof -
  have n: "of_char (hex_char d) = (if d < 10 then d + 48 else d + 87)" using assms by (simp add: hex_char_def)
  then show "\<not> is_space (hex_char d)" using assms by (simp add: is_space_def)
  have "of_char (hex_char d) \<noteq> (of_char CHR ''-'' :: nat)" "of_char (hex_char d) \<noteq> (of_char CHR ''+'' :: nat)"
    "of_char (hex_char d) \<noteq> (of_char CHR ''x'' :: nat)" "of_char (hex_char d) \<noteq> (of_char CHR ''X'' :: nat)"
    using assms by (simp_all add: n)
  then show "hex_char d \<noteq> CHR ''-''" "hex_char d \<noteq> CHR ''+''" "hex_char d \<noteq> CHR ''x''" "hex_char d \<noteq> CHR ''X''"
    by metis+
qed

primrec hex_list :: "nat \<Rightarrow> nat \<Rightarrow> nat list" where
  "hex_list 0 n = []"
| "hex_list (Suc w) n = hex_list w (n div 16) @ [n mod 16]"

lemma print_hex_list: "print_hex w n = map hex_char (hex_list w n)"
  by (induction w arbitrary: n) simp_all

lemma hex_list_props: "length (hex_list w n) = w" "d \<in> set (hex_list w n) \<Longrightarrow> d < 16"
  by (induction w arbitrary: n) auto

lemma hex_value_list: "n < 16 ^ w \<Longrightarrow> hex_value (hex_list w n) = n"
  by (induction w arbitrary: n) (simp_all add: hex_value_def less_mult_imp_div_less)

lemma hex_digits_list:
  "(\<forall>d \<in> set ds. d < 16) \<Longrightarrow> hex_digits (length ds) (map hex_char ds @ rest) = (ds, rest)"
  by (induction ds) (simp_all add: hex_val_char)

lemma scan_print_hex:
  assumes "0 < w" "n < 16 ^ w"
  shows "scan_hex w (print_hex w n @ rest) = Some (int n, rest)"
proof -
  let ?ds = "hex_list w n"
  have ds: "length ?ds = w" "\<forall>d \<in> set ?ds. d < 16" using hex_list_props by auto
  obtain d es where d: "?ds = d # es" using ds(1) assms(1) by (cases ?ds) auto
  note dp = hex_char_plain [of d]
  have d16: "d < 16" using ds(2) d by simp
  have s: "dropWhile is_space (map hex_char ?ds @ rest) = map hex_char ?ds @ rest"
    using dp(1) [OF d16] by (simp add: d)
  have sign: "scan_sign w (map hex_char ?ds @ rest) = (False, w, map hex_char ?ds @ rest)"
    using dp(2,3) [OF d16] by (simp add: d scan_sign_def)
  have pre: "scan_prefix w (map hex_char ?ds @ rest) = (w, map hex_char ?ds @ rest)"
  proof (cases es)
    case Nil
    then have "w = 1" using ds(1) d by simp
    then show ?thesis by (auto simp: scan_prefix_def split: list.splits)
  next
    case (Cons e fs)
    then have "e < 16" using ds(2) d by simp
    from hex_char_plain(4,5) [OF this] show ?thesis by (simp add: d Cons scan_prefix_def)
  qed
  have dig: "hex_digits w (map hex_char ?ds @ rest) = (?ds, rest)"
    using hex_digits_list [OF ds(2), of rest] unfolding ds(1) .
  have "?ds \<noteq> []" using d by simp
  then show ?thesis
    unfolding scan_hex_def print_hex_list s sign Let_def prod.case pre dig
    using hex_value_list [OF assms(2)] by simp
qed

end
