(* ===== verification/Pci.thy ===== *)
theory Pci
  imports Text_Io
begin

unbundle bit_operations_syntax

text \<open>
  PCI functions through sysfs, \<open>include/upcie/pci.h\<close>: addresses and their texts, opening a function,
  the sizes and mappings of its BARs, and the scan over all functions.

  Shifts of an \<open>int\<close> to the left behave as gcc and clang define them: on the two's complement.
  The unused bytes of the arrays for texts are not modelled, a text is its characters up to the
  terminating NUL.
\<close>

section \<open>Addresses\<close>

definition PCI_BDF_LEN :: nat where "PCI_BDF_LEN = 12"
definition PCI_NBARS :: nat where "PCI_NBARS = 6"

definition PCI_SCAN_ACTION_CLAIM_FUNC :: int where "PCI_SCAN_ACTION_CLAIM_FUNC = 1"
definition PCI_SCAN_ACTION_RELEASE_FUNC :: int where "PCI_SCAN_ACTION_RELEASE_FUNC = 2"

record pci_addr =
  pa_value :: u32

definition pci_addr_get_function :: "u32 \<Rightarrow> u8" where
  "pci_addr_get_function bdf = ucast (bdf AND 0x7)"
definition pci_addr_get_device :: "u32 \<Rightarrow> u8" where
  "pci_addr_get_device bdf = ucast (drop_bit 3 bdf AND 0x1f)"
definition pci_addr_get_bus :: "u32 \<Rightarrow> u8" where
  "pci_addr_get_bus bdf = ucast (drop_bit 8 bdf AND 0xff)"
definition pci_addr_get_domain :: "u32 \<Rightarrow> u16" where
  "pci_addr_get_domain bdf = ucast (drop_bit 16 bdf AND 0xffff)"

text \<open>The four conversions of \<open>sscanf(text, "%4x:%2x:%2x.%1x", ...)\<close>.\<close>

definition scan_bdf :: "string \<Rightarrow> (int \<times> int \<times> int \<times> int) option" where
  "scan_bdf text = do {
     (domain, s) \<leftarrow> scan_hex 4 text;
     s \<leftarrow> scan_char CHR '':'' s;
     (bus, s) \<leftarrow> scan_hex 2 s;
     s \<leftarrow> scan_char CHR '':'' s;
     (device, s) \<leftarrow> scan_hex 2 s;
     s \<leftarrow> scan_char CHR ''.'' s;
     (function, s) \<leftarrow> scan_hex 1 s;
     Some (domain, bus, device, function) }"

definition pci_addr_from_text :: "string \<Rightarrow> pci_addr \<Rightarrow> int \<times> pci_addr" where
  "pci_addr_from_text text addr =
     (case scan_bdf text of
        None \<Rightarrow> (- EINVAL, addr)
      | Some (domain, bus, device, function) \<Rightarrow>
          if 0xFFFF < domain \<or> 0xFF < bus \<or> 0x1F < device \<or> 0x07 < function then (- EINVAL, addr)
          else (0, \<lparr>pa_value = push_bit 16 (word_of_int domain) OR push_bit 8 (word_of_int bus) OR
                  push_bit 3 (word_of_int device) OR word_of_int function\<rparr>))"

definition pci_addr_to_text :: "pci_addr \<Rightarrow> int \<times> string" where
  "pci_addr_to_text addr =
     (0, take PCI_BDF_LEN (print_hex 4 (unat (pci_addr_get_domain (pa_value addr))) @ '':'' @
       print_hex 2 (unat (pci_addr_get_bus (pa_value addr))) @ '':'' @
       print_hex 2 (unat (pci_addr_get_device (pa_value addr))) @ ''.'' @
       print_hex 1 (unat (pci_addr_get_function (pa_value addr)))))"

section \<open>Functions\<close>

record pci_idents =
  pi_vendor_id :: u16
  pi_device_id :: u16
  pi_classcode :: u32

record pci_func_bar =
  pb_size :: u64
  pb_region :: u64
  pb_id :: "u8"
  pb_fd :: int

record pci_func =
  pf_addr :: pci_addr
  pf_bdf :: string
  pf_ident :: pci_idents
  pf_bars :: "pci_func_bar list"

definition zero_func :: pci_func where
  "zero_func = \<lparr>pf_addr = \<lparr>pa_value = 0\<rparr>, pf_bdf = '''', pf_ident = \<lparr>pi_vendor_id = 0, pi_device_id = 0, pi_classcode = 0\<rparr>,
     pf_bars = replicate PCI_NBARS \<lparr>pb_size = 0, pb_region = 0, pb_id = 0, pb_fd = 0\<rparr>\<rparr>"

definition sysfs_root :: string where "sysfs_root = ''/sys/bus/pci/devices''"

text \<open>Reading one identifier: open, read at most 15 characters, close, convert.\<close>

definition read_ident :: "('k, 'x) fs_os_scheme \<Rightarrow> string \<Rightarrow> 'k \<Rightarrow> ((int + u64) \<times> 'k) option" where
  "read_ident os path k =
     (case os_open os k path of
        (Inl e, k1) \<Rightarrow> Some (Inl (- e), k1)
      | (Inr fd, k1) \<Rightarrow>
          (case fs_read os k1 fd 15 of
             (Inl e, k2) \<Rightarrow> Some (Inl (- e), os_close os k2 fd)
           | (Inr buf, k2) \<Rightarrow>
               if 15 < length buf then None else Some (Inr (strtoul16 buf), os_close os k2 fd)))"

text \<open>The identifiers from \<open>vendor\<close> on: on failure the code and the function as filled in so far.\<close>

definition open_idents :: "('k, 'x) fs_os_scheme \<Rightarrow> pci_func \<Rightarrow> 'k \<Rightarrow> (int \<times> pci_func \<times> 'k) option" where
  "open_idents os func k = do {
     (r, k) \<leftarrow> read_ident os (sysfs_root @ ''/'' @ pf_bdf func @ ''/vendor'') k;
     case r of Inl err \<Rightarrow> Some (err, func, k)
     | Inr v \<Rightarrow> do {
         let func = func\<lparr>pf_ident := (pf_ident func)\<lparr>pi_vendor_id := ucast v\<rparr>\<rparr>;
         (r, k) \<leftarrow> read_ident os (sysfs_root @ ''/'' @ pf_bdf func @ ''/device'') k;
         case r of Inl err \<Rightarrow> Some (err, func, k)
         | Inr v \<Rightarrow> do {
             let func = func\<lparr>pf_ident := (pf_ident func)\<lparr>pi_device_id := ucast v\<rparr>\<rparr>;
             (r, k) \<leftarrow> read_ident os (sysfs_root @ ''/'' @ pf_bdf func @ ''/class'') k;
             case r of Inl err \<Rightarrow> Some (err, func, k)
             | Inr v \<Rightarrow> Some (0, func\<lparr>pf_ident := (pf_ident func)\<lparr>pi_classcode := ucast v\<rparr>\<rparr>, k) } } }"

definition pci_func_open ::
  "('k, 'x) fs_os_scheme \<Rightarrow> string \<Rightarrow> pci_func \<Rightarrow> 'k \<Rightarrow> (int \<times> pci_func \<times> 'k) option" where
  "pci_func_open os bdf func k =
     (let (err, addr) = pci_addr_from_text bdf (pf_addr func) in
      if err \<noteq> 0 then Some (err, func, k)
      else do {
        (err, func1, k1) \<leftarrow> open_idents os (func\<lparr>pf_addr := addr, pf_bdf := take PCI_BDF_LEN bdf\<rparr>) k;
        if err \<noteq> 0 then Some (err, func1, k1)
        else Some (0, func1\<lparr>pf_bars := map (\<lambda>(i, b). b\<lparr>pb_id := of_nat i, pb_fd := - 1\<rparr>) (zip [0..<PCI_NBARS] (pf_bars func1))\<rparr>, k1) })"

section \<open>BARs\<close>

definition pci_bar_unmap :: "('k, 'x) fs_os_scheme \<Rightarrow> pci_func_bar \<Rightarrow> 'k \<Rightarrow> pci_func_bar \<times> 'k" where
  "pci_bar_unmap os bar k =
     (bar\<lparr>pb_fd := - 1, pb_region := 0\<rparr>,
      if pb_region bar \<noteq> 0 then os_close os (fs_unmap os k (pb_region bar) (pb_size bar)) (pb_fd bar) else k)"

definition bar_path :: "string \<Rightarrow> u8 \<Rightarrow> string" where
  "bar_path bdf ident = ''/sys/bus/pci/devices/'' @ take PCI_BDF_LEN bdf @ ''/resource'' @ print_dec (unat ident)"

definition pci_bar_size :: "('k, 'x) fs_os_scheme \<Rightarrow> string \<Rightarrow> u8 \<Rightarrow> u64 \<Rightarrow> 'k \<Rightarrow> int \<times> u64 \<times> 'k" where
  "pci_bar_size os bdf ident sz k =
     (case fs_stat os k (bar_path bdf ident) of
        (Inl e, k1) \<Rightarrow> (- e, sz, k1)
      | (Inr st_size, k1) \<Rightarrow> (0, st_size, k1))"

text \<open>The loop over the BARs from \<open>i\<close> on, \<open>n\<close> of which remain: the largest so far and whether any
  was found, or the error.\<close>

primrec largest_loop ::
  "('k, 'x) fs_os_scheme \<Rightarrow> string \<Rightarrow> nat \<Rightarrow> u8 \<Rightarrow> u64 \<Rightarrow> bool \<Rightarrow> 'k \<Rightarrow> (int + u64 \<times> bool) \<times> 'k" where
  "largest_loop os bdf 0 i largest found k = (Inr (largest, found), k)"
| "largest_loop os bdf (Suc n) i largest found k =
     (let (err, bar, k1) = pci_bar_size os bdf i 0 k in
      if err = - ENOENT then largest_loop os bdf n (i + 1) largest found k1
      else if err \<noteq> 0 then (Inl err, k1)
      else largest_loop os bdf n (i + 1) (if largest < bar then bar else largest) True k1)"

definition pci_bar_largest_size :: "('k, 'x) fs_os_scheme \<Rightarrow> string \<Rightarrow> u64 \<Rightarrow> 'k \<Rightarrow> int \<times> u64 \<times> 'k" where
  "pci_bar_largest_size os bdf sz k =
     (case largest_loop os bdf PCI_NBARS 0 0 False k of
        (Inl err, k1) \<Rightarrow> (err, sz, k1)
      | (Inr (largest, found), k1) \<Rightarrow> if \<not> found then (- ENOENT, sz, k1) else (0, largest, k1))"

definition pci_bar_map ::
  "('k, 'x) fs_os_scheme \<Rightarrow> string \<Rightarrow> u8 \<Rightarrow> pci_func_bar \<Rightarrow> 'k \<Rightarrow> int \<times> pci_func_bar \<times> 'k" where
  "pci_bar_map os bdf ident bar k =
     (case fs_stat os k (bar_path bdf ident) of
        (Inl e, k1) \<Rightarrow> (- e, bar, k1)
      | (Inr st_size, k1) \<Rightarrow>
          (case os_open os k1 (bar_path bdf ident) of
             (Inl e, k2) \<Rightarrow> (- e, bar\<lparr>pb_fd := - 1\<rparr>, k2)
           | (Inr fd, k2) \<Rightarrow>
               let bar1 = bar\<lparr>pb_fd := fd, pb_size := st_size, pb_id := ident\<rparr> in
               (case fs_map os k2 fd st_size of
                  (Inl e, k3) \<Rightarrow> (- e, bar1\<lparr>pb_fd := - 1, pb_region := 0\<rparr>, os_close os k3 fd)
                | (Inr a, k3) \<Rightarrow> (0, bar1\<lparr>pb_region := a\<rparr>, k3))))"

fun unmap_all :: "('k, 'x) fs_os_scheme \<Rightarrow> pci_func_bar list \<Rightarrow> 'k \<Rightarrow> pci_func_bar list \<times> 'k" where
  "unmap_all os [] k = ([], k)"
| "unmap_all os (b # bs) k =
     (let (b', k1) = pci_bar_unmap os b k; (bs', k2) = unmap_all os bs k1 in (b' # bs', k2))"

definition pci_func_close :: "('k, 'x) fs_os_scheme \<Rightarrow> pci_func \<Rightarrow> 'k \<Rightarrow> pci_func \<times> 'k" where
  "pci_func_close os func k = (let (bars, k1) = unmap_all os (pf_bars func) k in (func\<lparr>pf_bars := bars\<rparr>, k1))"

section \<open>The scan\<close>

text \<open>
  The loop over the names that \<open>readdir\<close> lists. The callback gets a function, may change it and
  the world, and answers with an action; \<open>err\<close> is the value of that variable, and the flag of the
  result says that the loop was left through \<open>return\<close>, past \<open>closedir\<close>.
\<close>

fun scan_loop ::
  "('k, 'x) fs_os_scheme \<Rightarrow> (pci_func \<Rightarrow> 'k \<Rightarrow> int \<times> pci_func \<times> 'k) \<Rightarrow> string list \<Rightarrow> int \<Rightarrow> 'k \<Rightarrow>
   (bool \<times> int \<times> 'k) option" where
  "scan_loop os callback [] err k = Some (False, err, k)"
| "scan_loop os callback (name # names) err k =
     (if name \<noteq> [] \<and> hd name = CHR ''.'' then scan_loop os callback names err k
      else
        let (ok, k1) = os_malloc os k in
        if \<not> ok then Some (True, - ENOMEM, k1)
        else do {
          (err1, func, k2) \<leftarrow> pci_func_open os name zero_func k1;
          if err1 \<noteq> 0 then scan_loop os callback names err1 k2
          else
            let (action, func1, k3) = callback func k2 in
            if action = PCI_SCAN_ACTION_CLAIM_FUNC then scan_loop os callback names 0 k3
            else
              let (func2, k4) = pci_func_close os func1 k3 in
              if action = PCI_SCAN_ACTION_RELEASE_FUNC then scan_loop os callback names 0 k4
              else Some (False, - EIO, k4) })"

definition pci_scan ::
  "('k, 'x) fs_os_scheme \<Rightarrow> (pci_func \<Rightarrow> 'k \<Rightarrow> int \<times> pci_func \<times> 'k) \<Rightarrow> 'k \<Rightarrow> (int \<times> 'k) option" where
  "pci_scan os callback k =
     (case fs_opendir os k ''/sys/bus/pci/devices'' of
        (Inl e, k1) \<Rightarrow> Some (- e, k1)
      | (Inr names, k1) \<Rightarrow> do {
          (returned, err, k2) \<leftarrow> scan_loop os callback names 0 k1;
          Some (err, if returned then k2 else fs_closedir os k2) })"

section \<open>Addresses and their texts\<close>

lemma addr_masks:
  "(0xffff :: u32) = mask 16" "(0xff :: u32) = mask 8" "(0x1f :: u32) = mask 5" "(0x7 :: u32) = mask 3"
  by (simp_all add: mask_eq_exp_minus_1)

lemma addr_fields_join:
  "push_bit 16 (drop_bit 16 v AND 0xffff) OR push_bit 8 (drop_bit 8 v AND 0xff) OR
     push_bit 3 (drop_bit 3 v AND 0x1f) OR (v AND 0x7) = (v :: u32)"
  unfolding addr_masks
proof (rule bit_eqI)
  fix n assume "possible_bit TYPE(u32) n"
  then have "n < 32" by simp
  then consider "n < 3" | "3 \<le> n" "n < 8" | "8 \<le> n" "n < 16" | "16 \<le> n" "n < 32" by linarith
  then show "bit (push_bit 16 (drop_bit 16 v AND mask 16) OR push_bit 8 (drop_bit 8 v AND mask 8) OR
      push_bit 3 (drop_bit 3 v AND mask 5) OR v AND mask 3) n = bit v n"
    by cases (auto simp: bit_simps)
qed

lemma addr_field_values:
  "of_nat (unat (pci_addr_get_domain v)) = (drop_bit 16 v AND 0xffff :: u32)"
  "of_nat (unat (pci_addr_get_bus v)) = (drop_bit 8 v AND 0xff :: u32)"
  "of_nat (unat (pci_addr_get_device v)) = (drop_bit 3 v AND 0x1f :: u32)"
  "of_nat (unat (pci_addr_get_function v)) = (v AND 0x7 :: u32)"
  unfolding pci_addr_get_domain_def pci_addr_get_bus_def pci_addr_get_device_def pci_addr_get_function_def addr_masks
  by (rule bit_eqI; auto simp: bit_simps)+

lemma addr_field_bounds:
  "unat (pci_addr_get_domain v) < 16 ^ 4" "unat (pci_addr_get_bus v) < 16 ^ 2"
  "unat (pci_addr_get_device v) < 32" "unat (pci_addr_get_function v) < 8"
proof -
  show "unat (pci_addr_get_domain v) < 16 ^ 4" using unat_u16_bound [of "pci_addr_get_domain v"] by simp
  show "unat (pci_addr_get_bus v) < 16 ^ 2" using unsigned_less [of "pci_addr_get_bus v"] by simp
  have small: "unat x < 2 ^ n" if "take_bit n x = x" for x :: u8 and n
  proof -
    have "take_bit n (unat x) = unat x" unfolding unsigned_take_bit_eq [symmetric] that ..
    then show ?thesis using take_bit_nat_less_exp [of n "unat x"] by simp
  qed
  have "take_bit 5 (pci_addr_get_device v) = pci_addr_get_device v" "take_bit 3 (pci_addr_get_function v) = pci_addr_get_function v"
    unfolding pci_addr_get_device_def pci_addr_get_function_def addr_masks by (rule bit_eqI; auto simp: bit_simps)+
  from this [THEN small] show "unat (pci_addr_get_device v) < 32" "unat (pci_addr_get_function v) < 8" by simp_all
qed

text \<open>C39: Every PCI address written as text and scanned again is the same address, whatever the
  address object held before, and the text has the twelve characters of its array.\<close>

theorem pci_addr_text_roundtrip:
  "pci_addr_from_text (snd (pci_addr_to_text a)) b = (0, a) \<and> length (snd (pci_addr_to_text a)) = PCI_BDF_LEN"
proof -
  let ?v = "pa_value a"
  note bd = addr_field_bounds [of ?v]
  let ?text = "print_hex 4 (unat (pci_addr_get_domain ?v)) @ '':'' @ print_hex 2 (unat (pci_addr_get_bus ?v)) @ '':'' @
       print_hex 2 (unat (pci_addr_get_device ?v)) @ ''.'' @ print_hex 1 (unat (pci_addr_get_function ?v))"
  have len: "length ?text = PCI_BDF_LEN" by (simp add: print_hex_list hex_list_props PCI_BDF_LEN_def)
  then have shown: "snd (pci_addr_to_text a) = ?text" by (simp add: pci_addr_to_text_def)
  have "scan_hex 4 ?text = Some (int (unat (pci_addr_get_domain ?v)), '':'' @ print_hex 2 (unat (pci_addr_get_bus ?v)) @ '':'' @
       print_hex 2 (unat (pci_addr_get_device ?v)) @ ''.'' @ print_hex 1 (unat (pci_addr_get_function ?v)))"
    by (rule scan_print_hex [OF _ bd(1)]) simp
  moreover have "scan_hex 2 (print_hex 2 (unat (pci_addr_get_bus ?v)) @ r) = Some (int (unat (pci_addr_get_bus ?v)), r)" for r
    by (rule scan_print_hex [OF _ bd(2)]) simp
  moreover have "scan_hex 2 (print_hex 2 (unat (pci_addr_get_device ?v)) @ r) = Some (int (unat (pci_addr_get_device ?v)), r)" for r
    by (rule scan_print_hex) (use bd(3) in simp_all)
  moreover have "scan_hex 1 (print_hex 1 (unat (pci_addr_get_function ?v)) @ []) = Some (int (unat (pci_addr_get_function ?v)), [])"
    by (rule scan_print_hex) (use bd(4) in simp_all)
  ultimately have scan: "scan_bdf ?text = Some (int (unat (pci_addr_get_domain ?v)), int (unat (pci_addr_get_bus ?v)),
      int (unat (pci_addr_get_device ?v)), int (unat (pci_addr_get_function ?v)))"
    unfolding scan_bdf_def by (simp add: scan_char_def)
  have ok: "\<not> (0xFFFF < int (unat (pci_addr_get_domain ?v)) \<or> 0xFF < int (unat (pci_addr_get_bus ?v)) \<or>
      0x1F < int (unat (pci_addr_get_device ?v)) \<or> 0x07 < int (unat (pci_addr_get_function ?v)))"
  proof -
    have "(16 :: nat) ^ 4 = 65536" "(16 :: nat) ^ 2 = 256" by simp_all
    then show ?thesis using bd unfolding de_Morgan_disj by (intro conjI; linarith)
  qed
  have joined: "push_bit 16 (word_of_int (int (unat (pci_addr_get_domain ?v)))) OR push_bit 8 (word_of_int (int (unat (pci_addr_get_bus ?v)))) OR
      push_bit 3 (word_of_int (int (unat (pci_addr_get_device ?v)))) OR word_of_int (int (unat (pci_addr_get_function ?v))) = ?v"
    unfolding of_int_of_nat_eq addr_field_values by (rule addr_fields_join)
  show ?thesis
    unfolding shown len pci_addr_from_text_def scan option.case prod.case if_not_P [OF ok] joined by simp
qed


text \<open>The scan accepts a sign, and the range check has no lower bound.\<close>

lemma pci_addr_accepts_negative:
  "pci_addr_from_text ''-001:00:00.0'' b = (0, \<lparr>pa_value = 0xFFFF0000\<rparr>)"
  by code_simp

section \<open>What the BAR operations leave behind\<close>

lemma fs_lawfulD:
  assumes "fs_lawful os fds maps"
  shows "os_lawful os fds" "os_malloc os k = (ok, k') \<Longrightarrow> fds k' = fds k \<and> maps k' = maps k"
    "os_open os k p = (Inl e, k') \<Longrightarrow> 0 < e \<and> fds k' = fds k \<and> maps k' = maps k"
    "os_open os k p = (Inr fd, k') \<Longrightarrow> 0 \<le> fd \<and> fd \<notin> fds k \<and> fds k' = insert fd (fds k) \<and> maps k' = maps k"
    "fds (os_close os k f) = fds k - {f}" "maps (os_close os k f) = maps k"
    "fs_read os k f n = (Inl e, k') \<Longrightarrow> 0 < e" "fs_read os k f n = (Inr s, k') \<Longrightarrow> length s \<le> n"
    "fs_read os k f n = (x, k') \<Longrightarrow> fds k' = fds k \<and> maps k' = maps k"
    "fs_stat os k p = (Inl e, k') \<Longrightarrow> 0 < e" "fs_stat os k p = (y, k') \<Longrightarrow> fds k' = fds k \<and> maps k' = maps k"
    "fs_map os k f sz = (Inl e, k') \<Longrightarrow> 0 < e \<and> fds k' = fds k \<and> maps k' = maps k"
    "fs_map os k f sz = (Inr a, k') \<Longrightarrow> a \<noteq> 0 \<and> (a, sz) \<notin> maps k \<and> fds k' = fds k \<and> maps k' = insert (a, sz) (maps k)"
    "fds (fs_unmap os k a sz) = fds k" "maps (fs_unmap os k a sz) = maps k - {(a, sz)}"
proof -
  show law: "os_lawful os fds" using assms by (simp add: fs_lawful_def)
  note l = os_lawfulD [OF law]
  have m: "maps (snd (os_malloc os k)) = maps k" "maps (snd (os_open os k p)) = maps k" "maps (os_close os k f) = maps k"
    "fds (snd (fs_read os k f n)) = fds k" "maps (snd (fs_read os k f n)) = maps k"
    "fds (snd (fs_stat os k p)) = fds k" "maps (snd (fs_stat os k p)) = maps k"
    "fds (snd (fs_map os k f sz)) = fds k"
    "fds (fs_unmap os k a sz) = fds k" "maps (fs_unmap os k a sz) = maps k - {(a, sz)}" for k p f n sz a
    using assms by (simp_all add: fs_lawful_def)
  show "os_malloc os k = (ok, k') \<Longrightarrow> fds k' = fds k \<and> maps k' = maps k" using l(1) [of k] m(1) [of k] by simp
  show "os_open os k p = (Inl e, k') \<Longrightarrow> 0 < e \<and> fds k' = fds k \<and> maps k' = maps k"
    "os_open os k p = (Inr fd, k') \<Longrightarrow> 0 \<le> fd \<and> fd \<notin> fds k \<and> fds k' = insert fd (fds k) \<and> maps k' = maps k"
    using l(3,4) [of k p] m(2) [of k p] by auto
  show "fds (os_close os k f) = fds k - {f}" by (rule l(2))
  show "maps (os_close os k f) = maps k" "fds (fs_unmap os k a sz) = fds k" "maps (fs_unmap os k a sz) = maps k - {(a, sz)}"
    by (rule m)+
  have "case fst (fs_read os k f n) of Inl e \<Rightarrow> 0 < e | Inr s \<Rightarrow> length s \<le> n" using assms by (simp add: fs_lawful_def)
  then show "fs_read os k f n = (Inl e, k') \<Longrightarrow> 0 < e" "fs_read os k f n = (Inr s, k') \<Longrightarrow> length s \<le> n" by simp_all
  show "fs_read os k f n = (x, k') \<Longrightarrow> fds k' = fds k \<and> maps k' = maps k"
    "fs_stat os k p = (y, k') \<Longrightarrow> fds k' = fds k \<and> maps k' = maps k"
    using m(4,5) [of k f n] m(6,7) [of k p] by simp_all
  show "fs_stat os k p = (Inl e, k') \<Longrightarrow> 0 < e" using assms unfolding fs_lawful_def by (metis fst_conv)
  have "case fst (fs_map os k f sz) of Inl e \<Rightarrow> 0 < e \<and> maps (snd (fs_map os k f sz)) = maps k
      | Inr a \<Rightarrow> a \<noteq> 0 \<and> (a, sz) \<notin> maps k \<and> maps (snd (fs_map os k f sz)) = insert (a, sz) (maps k)"
    using assms by (simp add: fs_lawful_def)
  then show "fs_map os k f sz = (Inl e, k') \<Longrightarrow> 0 < e \<and> fds k' = fds k \<and> maps k' = maps k"
    "fs_map os k f sz = (Inr a, k') \<Longrightarrow> a \<noteq> 0 \<and> (a, sz) \<notin> maps k \<and> fds k' = fds k \<and> maps k' = insert (a, sz) (maps k)"
    using m(8) [of k f sz] by simp_all
qed

lemma pci_bar_map_result:
  assumes "fs_lawful os fds maps"
  obtains (failed) err bar' k' where "pci_bar_map os bdf ident bar k = (err, bar', k')" "err < 0" "fds k' = fds k" "maps k' = maps k"
    | (mapped) bar' k' where "pci_bar_map os bdf ident bar k = (0, bar', k')" "pb_region bar' \<noteq> 0" "pb_fd bar' \<notin> fds k"
      "(pb_region bar', pb_size bar') \<notin> maps k" "fds k' = insert (pb_fd bar') (fds k)"
      "maps k' = insert (pb_region bar', pb_size bar') (maps k)" "pb_id bar' = ident"
proof -
  note l = fs_lawfulD [OF assms]
  obtain x k1 where s: "fs_stat os k (bar_path bdf ident) = (x, k1)" by (cases "fs_stat os k (bar_path bdf ident)")
  have k1: "fds k1 = fds k" "maps k1 = maps k" using l(11) [OF s] by simp_all
  show thesis
  proof (cases x)
    case (Inl e)
    with s l(10) [of k _ e k1] k1 show thesis by (intro failed [of "- e" bar k1]) (simp_all add: pci_bar_map_def)
  next
    case sz: (Inr sz)
    obtain y k2 where o2: "os_open os k1 (bar_path bdf ident) = (y, k2)" by (cases "os_open os k1 (bar_path bdf ident)")
    show thesis
    proof (cases y)
      case (Inl e)
      with s sz o2 l(3) [of k1 _ e k2] k1 show thesis
        by (intro failed [of "- e" "bar\<lparr>pb_fd := - 1\<rparr>" k2]) (simp_all add: pci_bar_map_def)
    next
      case fd: (Inr fd)
      have k2: "fd \<notin> fds k" "fds k2 = insert fd (fds k)" "maps k2 = maps k" using l(4) [of k1 _ fd k2] o2 fd k1 by auto
      obtain z k3 where m: "fs_map os k2 fd sz = (z, k3)" by (cases "fs_map os k2 fd sz")
      show thesis
      proof (cases z)
        case (Inl e)
        with s sz o2 fd m k2 l(12) [of k2 fd sz e k3] show thesis
          by (intro failed [of "- e" "bar\<lparr>pb_fd := - 1, pb_size := sz, pb_id := ident, pb_region := 0\<rparr>" "os_close os k3 fd"])
            (simp_all add: pci_bar_map_def l(5,6))
      next
        case (Inr a)
        with s sz o2 fd m k2 l(13) [of k2 fd sz a k3] show thesis
          by (intro mapped [of "bar\<lparr>pb_fd := fd, pb_size := sz, pb_id := ident, pb_region := a\<rparr>" k3])
            (simp_all add: pci_bar_map_def)
      qed
    qed
  qed
qed

text \<open>Mapping a BAR either fails with a negative code and leaves descriptors and mappings as they
  were, or returns 0 with a new mapping and a new descriptor, which unmapping the BAR gives back;
  unmapping it once more changes nothing.\<close>

theorem pci_bar_map_unmap_balanced:
  assumes "fs_lawful os fds maps"
  shows "\<exists>err bar' k'. pci_bar_map os bdf ident bar k = (err, bar', k') \<and>
    (if err \<noteq> 0 then err < 0 \<and> fds k' = fds k \<and> maps k' = maps k
     else (pb_region bar', pb_size bar') \<in> maps k' - maps k \<and> pb_fd bar' \<in> fds k' - fds k \<and>
       (\<exists>bar'' k''. pci_bar_unmap os bar' k' = (bar'', k'') \<and> fds k'' = fds k \<and> maps k'' = maps k \<and>
          pci_bar_unmap os bar'' k'' = (bar'', k'')))"
  using assms
proof (cases rule: pci_bar_map_result [where bdf = bdf and ident = ident and bar = bar and k = k])
  case (failed err bar' k')
  then show ?thesis by simp
next
  case (mapped bar' k')
  note l = fs_lawfulD [OF assms]
  have "fds (os_close os (fs_unmap os k' (pb_region bar') (pb_size bar')) (pb_fd bar')) = fds k"
    "maps (os_close os (fs_unmap os k' (pb_region bar') (pb_size bar')) (pb_fd bar')) = maps k"
    using mapped by (simp_all add: l(5,6,14,15))
  with mapped show ?thesis by (simp add: pci_bar_unmap_def)
qed


section \<open>The largest BAR\<close>

text \<open>The sizes of the BARs that exist, when looking at them changes nothing.\<close>

definition bar_sizes :: "(string \<Rightarrow> int + u64) \<Rightarrow> string \<Rightarrow> nat \<Rightarrow> nat \<Rightarrow> u64 list" where
  "bar_sizes f bdf i n = concat (map (\<lambda>i. case f (bar_path bdf (of_nat i)) of Inl e \<Rightarrow> [] | Inr s \<Rightarrow> [s]) [i..<i + n])"

lemma largest_loop_result:
  assumes "\<And>k p. fs_stat os k p = (f p, k)"
  shows "(\<forall>j. i \<le> j \<and> j < i + n \<longrightarrow> f (bar_path bdf (of_nat j)) = Inl ENOENT \<or> (\<exists>s. f (bar_path bdf (of_nat j)) = Inr s)) \<Longrightarrow>
    largest_loop os bdf n (of_nat i) m found k = (Inr (fold max (bar_sizes f bdf i n) m, found \<or> bar_sizes f bdf i n \<noteq> []), k)"
proof (induction n arbitrary: i m found)
  case 0
  then show ?case by (simp add: bar_sizes_def)
next
  case (Suc n)
  have e: "bar_sizes f bdf i (Suc n) = (case f (bar_path bdf (of_nat i)) of Inl e \<Rightarrow> [] | Inr s \<Rightarrow> [s]) @ bar_sizes f bdf (Suc i) n"
    unfolding bar_sizes_def by (simp add: upt_conv_Cons del: upt_Suc)
  have i: "of_nat i + 1 = (of_nat (Suc i) :: u8)" by simp
  have IH: "largest_loop os bdf n (of_nat (Suc i)) m found k =
      (Inr (fold max (bar_sizes f bdf (Suc i) n) m, found \<or> bar_sizes f bdf (Suc i) n \<noteq> []), k)" for m found
    by (rule Suc.IH) (use Suc.prems in auto)
  have m: "(if m < s then s else m) = max s m" for s by (auto simp: max_def)
  have "f (bar_path bdf (of_nat i)) = Inl ENOENT \<or> (\<exists>s. f (bar_path bdf (of_nat i)) = Inr s)" using Suc.prems by simp
  then show ?case
  proof
    assume b: "f (bar_path bdf (of_nat i)) = Inl ENOENT"
    show ?thesis by (simp add: pci_bar_size_def assms e b i IH del: of_nat_Suc)
  next
    assume "\<exists>s. f (bar_path bdf (of_nat i)) = Inr s"
    then obtain s where b: "f (bar_path bdf (of_nat i)) = Inr s" ..
    show ?thesis by (simp add: pci_bar_size_def assms e b i IH m del: of_nat_Suc)
  qed
qed

text \<open>The size reported for a function is that of its largest existing BAR, missing ones skipped;
  when none exists the call says so and leaves the caller's variable alone.\<close>

theorem pci_bar_largest_size_max:
  assumes "\<And>k p. fs_stat os k p = (f p, k)"
    and "\<forall>i < PCI_NBARS. f (bar_path bdf (of_nat i)) = Inl ENOENT \<or> (\<exists>s. f (bar_path bdf (of_nat i)) = Inr s)"
  defines "sizes \<equiv> {s. \<exists>i < PCI_NBARS. f (bar_path bdf (of_nat i)) = Inr s}"
  shows "pci_bar_largest_size os bdf sz k = (if sizes = {} then (- ENOENT, sz, k) else (0, Max sizes, k))"
proof -
  let ?l = "bar_sizes f bdf 0 PCI_NBARS"
  have set: "set ?l = sizes"
    by (auto simp: bar_sizes_def sizes_def split: sum.splits)
  have "largest_loop os bdf PCI_NBARS 0 0 False k = (Inr (fold max ?l 0, ?l \<noteq> []), k)"
    using largest_loop_result [where i = 0 and n = PCI_NBARS and os = os and f = f, OF assms(1)] assms(2) by simp
  moreover have "fold max ?l 0 = Max sizes" if "?l \<noteq> []"
  proof -
    have "fold max ?l 0 = Max (set (0 # ?l))" by (simp only: Max.set_eq_fold)
    also have "\<dots> = Max (set ?l)"
      using that Max_in [of "set ?l"] by (simp add: max_def)
    finally show ?thesis by (simp only: set)
  qed
  ultimately show ?thesis using set by (auto simp: pci_bar_largest_size_def)
qed

section \<open>The scan\<close>

lemma read_ident_result:
  assumes "fs_lawful os fds maps"
  obtains r k' where "read_ident os path k = Some (r, k')" "fds k' = fds k" "maps k' = maps k" "\<And>e. r = Inl e \<Longrightarrow> e < 0"
proof -
  note l = fs_lawfulD [OF assms]
  obtain x k1 where x: "os_open os k path = (x, k1)" by (cases "os_open os k path")
  show thesis
  proof (cases x)
    case (Inl e)
    with x l(3) [of k path e k1] show thesis by (intro that [of "Inl (- e)" k1]) (simp_all add: read_ident_def)
  next
    case (Inr fd)
    with x l(4) [of k path fd k1] have k1: "fd \<notin> fds k" "fds k1 = insert fd (fds k)" "maps k1 = maps k" by simp_all
    obtain y k2 where y: "fs_read os k1 fd 15 = (y, k2)" by (cases "fs_read os k1 fd 15")
    have k2: "fds k2 = insert fd (fds k)" "maps k2 = maps k" using l(9) [OF y] k1 by simp_all
    show thesis
    proof (cases y)
      case (Inl e)
      with x Inr y k1 k2 l(7) [of k1 fd 15 e k2] show thesis
        by (intro that [of "Inl (- e)" "os_close os k2 fd"]) (simp_all add: read_ident_def l(5,6))
    next
      case (Inr s)
      with x \<open>x = Inr fd\<close> y k1 k2 l(8) [of k1 fd 15 s k2] show thesis
        by (intro that [of "Inr (strtoul16 s)" "os_close os k2 fd"]) (simp_all add: read_ident_def l(5,6))
    qed
  qed
qed

lemma open_idents_result:
  assumes "fs_lawful os fds maps"
  shows "\<exists>err func' k'. open_idents os func k = Some (err, func', k') \<and> fds k' = fds k \<and> maps k' = maps k \<and> err \<le> 0"
proof -
  note r = read_ident_result [OF assms]
  obtain r1 k1 where r1: "read_ident os (sysfs_root @ ''/'' @ pf_bdf func @ ''/vendor'') k = Some (r1, k1)" "fds k1 = fds k" "maps k1 = maps k" "\<And>e. r1 = Inl e \<Longrightarrow> e < 0"
    using r [of _ k] by metis
  obtain r2 k2 where r2: "read_ident os (sysfs_root @ ''/'' @ pf_bdf func @ ''/device'') k1 = Some (r2, k2)" "fds k2 = fds k1" "maps k2 = maps k1" "\<And>e. r2 = Inl e \<Longrightarrow> e < 0"
    using r [of _ k1] by metis
  obtain r3 k3 where r3: "read_ident os (sysfs_root @ ''/'' @ pf_bdf func @ ''/class'') k2 = Some (r3, k3)" "fds k3 = fds k2" "maps k3 = maps k2" "\<And>e. r3 = Inl e \<Longrightarrow> e < 0"
    using r [of _ k2] by metis
  show ?thesis
    using r1 r2 r3 by (cases r1; cases r2; cases r3) (auto simp: open_idents_def less_imp_le)
qed


lemma pci_func_open_result:
  assumes "fs_lawful os fds maps"
  shows "\<exists>err func' k'. pci_func_open os bdf func k = Some (err, func', k') \<and> fds k' = fds k \<and> maps k' = maps k \<and> err \<le> 0"
proof -
  obtain err addr where a: "pci_addr_from_text bdf (pf_addr func) = (err, addr)" by (cases "pci_addr_from_text bdf (pf_addr func)")
  then have "err \<le> 0" by (auto simp: pci_addr_from_text_def split: option.splits if_splits prod.splits)
  moreover obtain err1 func1 k1 where "open_idents os (func\<lparr>pf_addr := addr, pf_bdf := take PCI_BDF_LEN bdf\<rparr>) k = Some (err1, func1, k1)"
    "fds k1 = fds k" "maps k1 = maps k" "err1 \<le> 0"
    using open_idents_result [OF assms] by blast
  ultimately show ?thesis using a by (auto simp: pci_func_open_def)
qed

text \<open>A callback that keeps nothing: it claims no function, and what it mapped is released when the
  function is closed.\<close>

definition keeps_nothing ::
  "('k, 'x) fs_os_scheme \<Rightarrow> ('k \<Rightarrow> int set) \<Rightarrow> ('k \<Rightarrow> (u64 \<times> u64) set) \<Rightarrow>
   (pci_func \<Rightarrow> 'k \<Rightarrow> int \<times> pci_func \<times> 'k) \<Rightarrow> bool" where
  "keeps_nothing os fds maps callback \<longleftrightarrow> (\<forall>func k. case callback func k of (action, func1, k1) \<Rightarrow>
     action \<noteq> PCI_SCAN_ACTION_CLAIM_FUNC \<and> fds (snd (pci_func_close os func1 k1)) = fds k \<and>
     maps (snd (pci_func_close os func1 k1)) = maps k)"

lemma scan_loop_result:
  assumes law: "fs_lawful os fds maps" and cb: "keeps_nothing os fds maps callback"
  shows "\<exists>ret err' k'. scan_loop os callback names err k = Some (ret, err', k') \<and> fds k' = fds k \<and> maps k' = maps k"
proof (induction names arbitrary: err k)
  case Nil
  show ?case by (auto simp: prod_eq_iff)
next
  case (Cons name names)
  show ?case
  proof (cases "name \<noteq> [] \<and> hd name = CHR ''.''")
    case True
    with Cons.IH [of err k] show ?thesis by auto
  next
    case name: False
    obtain ok k1 where m: "os_malloc os k = (ok, k1)" by (cases "os_malloc os k")
    have k1: "fds k1 = fds k" "maps k1 = maps k" using fs_lawfulD(2) [OF law m] by simp_all
    show ?thesis
    proof (cases ok)
      case False
      then have "scan_loop os callback (name # names) err k = Some (True, - ENOMEM, k1)"
        using name m by auto
      with k1 show ?thesis by blast
    next
      case True
      obtain err1 func k2 where o1: "pci_func_open os name zero_func k1 = Some (err1, func, k2)" "fds k2 = fds k1" "maps k2 = maps k1"
        using pci_func_open_result [OF law] by blast
      obtain action func1 k3 where c: "callback func k2 = (action, func1, k3)" by (cases "callback func k2")
      obtain func2 k4 where cl: "pci_func_close os func1 k3 = (func2, k4)" by (cases "pci_func_close os func1 k3")
      have "case callback func k2 of (action, func1, k1) \<Rightarrow>
          action \<noteq> PCI_SCAN_ACTION_CLAIM_FUNC \<and> fds (snd (pci_func_close os func1 k1)) = fds k2 \<and>
          maps (snd (pci_func_close os func1 k1)) = maps k2"
        using cb [unfolded keeps_nothing_def, THEN spec, of func, THEN spec, of k2] .
      then have k4: "action \<noteq> PCI_SCAN_ACTION_CLAIM_FUNC" "fds k4 = fds k" "maps k4 = maps k"
        using c cl o1 k1 by simp_all
      have run: "scan_loop os callback (name # names) err k =
          (if err1 \<noteq> 0 then scan_loop os callback names err1 k2
           else if action = PCI_SCAN_ACTION_RELEASE_FUNC then scan_loop os callback names 0 k4 else Some (False, - EIO, k4))"
        unfolding scan_loop.simps if_not_P [OF name] using True m o1 c cl k4(1) by simp
      have "fds k2 = fds k" "maps k2 = maps k" using o1 k1 by simp_all
      with Cons.IH [of err1 k2] Cons.IH [of 0 k4] k4(2,3) show ?thesis unfolding run by auto
    qed
  qed
qed


end
