(* ===== verification/Pci_Examples.thy ===== *)
theory Pci_Examples
  imports Pci
begin

text \<open>
  A world for the properties of \<open>Pci\<close> to hold in: a directory with one function that has one BAR,
  and a ledger of open descriptors and of mappings.
\<close>

definition spare_fd :: "int list \<Rightarrow> int" where "spare_fd l = 1 + foldr max l 0"

lemma spare_fd: "0 \<le> spare_fd l" "spare_fd l \<notin> set l"
proof -
  have "x \<le> foldr max l 0" if "x \<in> set l" for x using that by (induction l) (auto simp: le_max_iff_disj)
  moreover have "0 \<le> foldr max l 0" by (induction l) auto
  ultimately show "0 \<le> spare_fd l" "spare_fd l \<notin> set l" by (fastforce simp: spare_fd_def)+
qed

definition one_bar :: "string \<Rightarrow> int + u64" where
  "one_bar path = (if path = bar_path ''0000:01:00.0'' 0 then Inr 0x4000 else Inl ENOENT)"

definition bus_os :: "(int list \<times> (u64 \<times> u64) list) fs_os" where
  "bus_os = \<lparr>os_malloc = \<lambda>k. (True, k), os_open = \<lambda>(f, m) path. (Inr (spare_fd f), (spare_fd f # f, m)),
     os_close = \<lambda>(f, m) fd. (filter (\<lambda>x. x \<noteq> fd) f, m),
     fs_read = \<lambda>k f n. (if n < 7 then Inl 5 else Inr ''0x1b36'', k), fs_stat = \<lambda>k path. (one_bar path, k),
     fs_map = \<lambda>(f, m) fd n. (if m = [] then (Inr 0x7F0000000000, (f, [(0x7F0000000000, n)])) else (Inl 12, (f, m))),
     fs_unmap = \<lambda>(f, m) a n. (f, filter (\<lambda>x. x \<noteq> (a, n)) m),
     fs_opendir = \<lambda>k path. (Inr [''.'', ''0000:01:00.0''], k), fs_closedir = \<lambda>k. k\<rparr>"

lemma bus_lawful: "fs_lawful bus_os (\<lambda>(f, m). set f) (\<lambda>(f, m). set m)"
  by (auto simp: fs_lawful_def os_lawful_def bus_os_def spare_fd one_bar_def)

theorem pci_bar_map_unmap_balanced_witness:
  "\<exists>err bar' k'. pci_bar_map bus_os ''0000:01:00.0'' 0 \<lparr>pb_size = 0, pb_region = 0, pb_id = 0, pb_fd = - 1\<rparr> ([], []) = (err, bar', k') \<and>
    (if err \<noteq> 0 then err < 0 \<and> (\<lambda>(f, m). set f) k' = {} \<and> (\<lambda>(f, m). set m) k' = {}
     else (\<exists>bar'' k''. pci_bar_unmap bus_os bar' k' = (bar'', k'') \<and> (\<lambda>(f, m). set f) k'' = {}))"
  using pci_bar_map_unmap_balanced [OF bus_lawful, of "''0000:01:00.0''" 0 "\<lparr>pb_size = 0, pb_region = 0, pb_id = 0, pb_fd = - 1\<rparr>" "([], [])"]
  by (auto split: if_splits)

theorem pci_bar_largest_size_max_witness:
  "pci_bar_largest_size bus_os ''0000:01:00.0'' 0 ([], []) = (0, 0x4000, ([], []))"
proof -
  have inj: "bar_path ''0000:01:00.0'' (of_nat i) = bar_path ''0000:01:00.0'' 0 \<longleftrightarrow> i = 0" if "i < PCI_NBARS" for i
  proof -
    have "\<forall>i \<in> set [0..<6]. bar_path ''0000:01:00.0'' (of_nat i) = bar_path ''0000:01:00.0'' 0 \<longleftrightarrow> i = 0" by code_simp
    then show ?thesis using that by (simp add: PCI_NBARS_def)
  qed
  have "{s. \<exists>i < PCI_NBARS. one_bar (bar_path ''0000:01:00.0'' (of_nat i)) = Inr s} = {0x4000}"
    using inj by (auto simp: one_bar_def PCI_NBARS_def intro!: exI [of _ 0])
  moreover have "fs_stat bus_os k p = (one_bar p, k)" for k p by (simp add: bus_os_def)
  moreover have "\<forall>i < PCI_NBARS. one_bar (bar_path ''0000:01:00.0'' (of_nat i)) = Inl ENOENT \<or>
      (\<exists>s. one_bar (bar_path ''0000:01:00.0'' (of_nat i)) = Inr s)" by (simp add: one_bar_def)
  ultimately show ?thesis
    using pci_bar_largest_size_max [of bus_os one_bar "''0000:01:00.0''" 0 "([], [])"] by simp
qed

definition look_only :: "pci_func \<Rightarrow> int list \<times> (u64 \<times> u64) list \<Rightarrow> int \<times> pci_func \<times> (int list \<times> (u64 \<times> u64) list)" where
  "look_only func k = (PCI_SCAN_ACTION_RELEASE_FUNC, func\<lparr>pf_bars := []\<rparr>, k)"


end
