(* ===== verification/Gpu_Config.thy ===== *)
theory Gpu_Config
  imports Pci_Examples Util Cudamem_Mapping_Refs Cudamem_Alloc
begin

unbundle bit_operations_syntax

text \<open>
  The configurations of a GPU, \<open>include/upcie/cudamem_config.h\<close> and \<open>include/upcie/hipmem_config.h\<close>:
  what the runtime and sysfs report, checked and stored with the shifts. The runtime's queries are
  parameters, failing ones \<open>Inl\<close> of the driver's code; the BAR size comes from the model of
  \<open>pci.h\<close>. The result is the code and the configuration as filled in so far, \<open>None\<close> where an
  assertion fails.
\<close>

record 'k gpu_query =
  gq_pagesize :: int                                  \<comment> \<open>\<open>getpagesize\<close>\<close>
  gq_device_get :: "'k \<Rightarrow> int \<Rightarrow> (int + int) \<times> 'k"
  gq_total_mem :: "'k \<Rightarrow> int \<Rightarrow> (int + u64) \<times> 'k"
  gq_bus_id :: "'k \<Rightarrow> int \<Rightarrow> (int + string) \<times> 'k"
  gq_granularity :: "'k \<Rightarrow> int \<Rightarrow> (int + u64) \<times> 'k"

definition lower_hex :: "char \<Rightarrow> char" where
  "lower_hex c = (let n = of_char c :: nat in if 65 \<le> n \<and> n \<le> 70 then char_of (n + 32) else c)"

text \<open>The two pages, before the device is asked anything.\<close>

definition config_pages :: "bool \<Rightarrow> int \<Rightarrow> int \<Rightarrow> cudamem_config \<Rightarrow> cudamem_config option" where
  "config_pages dbg page dpage config = do {
     shift \<leftarrow> upcie_util_shift_from_size dbg (size_of_int page);
     dshift \<leftarrow> upcie_util_shift_from_size dbg (size_of_int dpage);
     Some (config\<lparr>dc_pagesize := page, dc_pagesize_shift := int shift,
       dc_device_pagesize := dpage, dc_device_pagesize_shift := int dshift\<rparr>) }"

text \<open>The device's memory and its largest BAR, which must span it.\<close>

definition config_memory ::
  "('k, 'x) fs_os_scheme \<Rightarrow> ('k, 'y) gpu_query_scheme \<Rightarrow> int \<Rightarrow> cudamem_config \<Rightarrow> 'k \<Rightarrow> (int + int) \<times> cudamem_config \<times> 'k" where
  "config_memory fs q gpu_id config k =
     (case gq_device_get q k gpu_id of
        (Inl e, k1) \<Rightarrow> (Inl (- ENODEV), config, k1)
      | (Inr dev, k1) \<Rightarrow>
          (case gq_total_mem q k1 dev of
             (Inl e, k2) \<Rightarrow> (Inl (- EIO), config, k2)
           | (Inr total_mem, k2) \<Rightarrow>
               let config1 = config\<lparr>dc_device_memsize := total_mem\<rparr> in
               (case gq_bus_id q k2 dev of
                  (Inl e, k3) \<Rightarrow> (Inl (- EIO), config1, k3)
                | (Inr bdf, k3) \<Rightarrow>
                    let (err, bar1, k4) = pci_bar_largest_size fs (map lower_hex (take PCI_BDF_LEN bdf)) (dc_bar1_size config1) k3;
                        config2 = config1\<lparr>dc_bar1_size := bar1\<rparr>
                    in if err \<noteq> 0 then (Inl err, config2, k4)
                       else if dc_bar1_size config2 < dc_device_memsize config2 then (Inl (- EOPNOTSUPP), config2, k4)
                       else (Inr dev, config2, k4))))"

definition cudamem_config_init ::
  "bool \<Rightarrow> ('k, 'x) fs_os_scheme \<Rightarrow> ('k, 'y) gpu_query_scheme \<Rightarrow> cudamem_config \<Rightarrow> int \<Rightarrow> 'k \<Rightarrow>
   (int \<times> cudamem_config \<times> 'k) option" where
  "cudamem_config_init dbg fs q config gpu_id k = do {
     config1 \<leftarrow> config_pages dbg (gq_pagesize q) 65536 config;
     case config_memory fs q gpu_id config1 k of
       (Inl err, config2, k1) \<Rightarrow> Some (err, config2, k1)
     | (Inr dev, config2, k1) \<Rightarrow>
         (case gq_granularity q k1 dev of
            (Inl e, k2) \<Rightarrow> Some (- EIO, config2, k2)
          | (Inr gran, k2) \<Rightarrow>
              if gran = 0 \<or> gran AND (gran - 1) \<noteq> 0 then Some (- EINVAL, config2, k2)
              else do {
                shift \<leftarrow> upcie_util_shift_from_size dbg gran;
                Some (0, config2\<lparr>dc_alloc_granularity := gran, dc_alloc_granularity_shift := int shift\<rparr>, k2) }) }"

definition hipmem_config_init ::
  "bool \<Rightarrow> ('k, 'x) fs_os_scheme \<Rightarrow> ('k, 'y) gpu_query_scheme \<Rightarrow> cudamem_config \<Rightarrow> int \<Rightarrow> 'k \<Rightarrow>
   (int \<times> cudamem_config \<times> 'k) option" where
  "hipmem_config_init dbg fs q config gpu_id k = do {
     config1 \<leftarrow> config_pages dbg (gq_pagesize q) 4096 config;
     case config_memory fs q gpu_id config1 k of
       (Inl err, config2, k1) \<Rightarrow> Some (err, config2, k1)
     | (Inr dev, config2, k1) \<Rightarrow> do {
         let gran = size_of_int (dc_device_pagesize config2);
         shift \<leftarrow> upcie_util_shift_from_size dbg (size_of_int (dc_device_pagesize config2));
         Some (0, config2\<lparr>dc_alloc_granularity := gran, dc_alloc_granularity_shift := int shift\<rparr>, k1) } }"

section \<open>Configurations that were accepted\<close>

lemma power_of_two_word:
  assumes "x \<noteq> 0" "x AND (x - 1) = (0 :: u64)"
  obtains k where "k < 64" "x = 2 ^ k"
proof -
  have n: "0 < unat x" using assms(1) by (simp add: unat_gt_0)
  then obtain k where k: "2 ^ k \<le> unat x" "unat x < 2 ^ (k + 1)" using ex_power_ivl1 [of 2 "unat x"] by auto
  have k64: "k < 64"
  proof (rule ccontr)
    assume "\<not> k < 64"
    then have "(2 :: nat) ^ 64 \<le> 2 ^ k" by (intro power_increasing) simp_all
    with k(1) unat_u64_bound [of x] show False by simp
  qed
  have "unat x = 2 ^ k"
  proof (rule ccontr)
    assume "unat x \<noteq> 2 ^ k"
    then have gt: "2 ^ k \<le> unat x - 1" "unat x - 1 < 2 ^ (k + 1)" using k by simp_all
    have one: "m div 2 ^ k = 1" if "2 ^ k \<le> m" "m < 2 ^ (k + 1)" for m :: nat
      using that by (intro div_nat_eqI) simp_all
    have "unat (x - 1) = unat x - 1" using n by (simp add: unat_sub_u64)
    then have "bit x k" "bit (x - 1) k"
      using one [OF k] one [OF gt] by (simp_all add: bit_unat_u64 bit_iff_odd)
    then have "bit (x AND (x - 1)) k" by (simp add: bit_and_iff)
    then show False by (simp add: assms(2))
  qed
  then have "x = 2 ^ k" using k64 by (simp add: u64_eq_iff unat_two_power)
  with k64 show thesis by (rule that)
qed

lemma config_memory_pages:
  assumes "config_memory fs q gpu_id config k = (Inr dev, config', k')"
  shows "dc_pagesize config' = dc_pagesize config" "dc_pagesize_shift config' = dc_pagesize_shift config"
    "dc_device_pagesize config' = dc_device_pagesize config" "dc_device_pagesize_shift config' = dc_device_pagesize_shift config"
    "dc_device_memsize config' \<le> dc_bar1_size config'"
  using assms by (auto simp: config_memory_def Let_def not_less split: prod.splits sum.splits if_splits)

text \<open>On a machine with pages of 4 KiB to 64 KiB, a configuration that was initialised with result 0 has shifts
  that match its sizes, a device whose memory its largest BAR spans, and is one the heap's
  allocator is correct for; when the granularity is between a host page and 2 to the 48, also one that the
  mapping registry is correct for.\<close>

theorem cudamem_config_init_ok:
  assumes "cudamem_config_init dbg fs q config gpu_id k = Some (0, config', k')"
    and "gq_pagesize q = 2 ^ s" "12 \<le> s" "s \<le> 16"
  shows "cudamem_config_ok config' \<and> dc_pagesize config' = 2 ^ s \<and> dc_device_pagesize config' = 65536 \<and>
    dc_device_memsize config' \<le> dc_bar1_size config' \<and>
    (\<exists>g. dc_alloc_granularity config' = 2 ^ g \<and> dc_alloc_granularity_shift config' = int g \<and>
       (s \<le> g \<and> g \<le> 48 \<longrightarrow> map_config_ok config'))"
proof -
  have s: "upcie_util_shift_from_size dbg (size_of_int (gq_pagesize q)) = Some s"
    "upcie_util_shift_from_size dbg (size_of_int 65536) = Some 16"
    using shift_from_power [of s dbg] shift_from_power [of 16 dbg] assms(2-4) by (simp_all add: size_of_int_def)
  let ?c1 = "config\<lparr>dc_pagesize := gq_pagesize q, dc_pagesize_shift := int s, dc_device_pagesize := 65536,
     dc_device_pagesize_shift := int 16\<rparr>"
  have c1: "config_pages dbg (gq_pagesize q) 65536 config = Some ?c1"
    by (simp only: config_pages_def s bind.bind_lunit)
  obtain r config2 k1 where m: "config_memory fs q gpu_id ?c1 k = (r, config2, k1)" by (cases "config_memory fs q gpu_id ?c1 k")
  note run = assms(1) [unfolded cudamem_config_init_def c1 bind.bind_lunit m prod.case]
  obtain dev where r: "r = Inr dev"
  proof (cases r)
    case (Inl e)
    with run have "e = 0" by simp
    with m Inl have False
      by (auto simp: config_memory_def Let_def split: prod.splits sum.splits if_splits)
    then show thesis ..
  qed
  note pages = config_memory_pages [OF m [unfolded r]]
  obtain x k2 where g: "gq_granularity q k1 dev = (x, k2)" by (cases "gq_granularity q k1 dev")
  obtain gran where x: "x = Inr gran" using run by (cases x) (auto simp: r g)
  note run = run [unfolded r sum.case g x prod.case]
  from run have p2: "gran \<noteq> 0" "gran AND (gran - 1) = 0" by (auto split: if_splits)
  then obtain e where e: "e < 64" "gran = 2 ^ e" by (rule power_of_two_word)
  have c': "config' = config2\<lparr>dc_alloc_granularity := 2 ^ e, dc_alloc_granularity_shift := int e\<rparr>"
    using run p2 shift_from_power [OF e(1), of dbg] by (simp add: e(2))
  have pow: "(65536 :: int) = 2 ^ 16" by simp
  show ?thesis
  proof (intro conjI exI [of _ e] impI)
    show "cudamem_config_ok config'" using assms(2-4) by (simp add: c' cudamem_config_ok_def pages)
    assume "s \<le> e \<and> e \<le> 48"
    then show "map_config_ok config'" using assms(2-4)
      by (simp add: c' map_config_ok_def pages CUDAMEM_MAPPING_VA_BITS_def)
  qed (use pages assms(2) in \<open>simp_all add: c'\<close>)
qed


text \<open>A GPU on the bus of \<open>Pci_Examples\<close>.\<close>

definition small_gpu :: "(int list \<times> (u64 \<times> u64) list) gpu_query" where
  "small_gpu = \<lparr>gq_pagesize = 4096, gq_device_get = \<lambda>k i. (Inr i, k), gq_total_mem = \<lambda>k d. (Inr 0x4000, k),
     gq_bus_id = \<lambda>k d. (Inr ''0000:01:00.0'', k), gq_granularity = \<lambda>k d. (Inr 0x200000, k)\<rparr>"

definition blank_config :: cudamem_config where
  "blank_config = \<lparr>dc_pagesize = 0, dc_pagesize_shift = 0, dc_device_pagesize = 0, dc_device_pagesize_shift = 0,
     dc_device_memsize = 0, dc_bar1_size = 0, dc_alloc_granularity = 0, dc_alloc_granularity_shift = 0\<rparr>"

lemma small_gpu_bar: "pci_bar_largest_size bus_os (map lower_hex (take PCI_BDF_LEN ''0000:01:00.0'')) 0 ([], []) = (0, 0x4000, ([], []))"
  by code_simp

lemma small_gpu_config:
  "cudamem_config_init dbg bus_os small_gpu blank_config 0 ([], []) =
    Some (0, \<lparr>dc_pagesize = 4096, dc_pagesize_shift = 12, dc_device_pagesize = 65536, dc_device_pagesize_shift = 16,
     dc_device_memsize = 0x4000, dc_bar1_size = 0x4000, dc_alloc_granularity = 0x200000, dc_alloc_granularity_shift = 21\<rparr>, ([], []))"
proof -
  have "upcie_util_shift_from_size dbg 4096 = Some 12" "upcie_util_shift_from_size dbg 65536 = Some 16"
    "upcie_util_shift_from_size dbg 0x200000 = Some 21"
    using shift_from_power [of 12 dbg] shift_from_power [of 16 dbg] shift_from_power [of 21 dbg] by simp_all
  then show ?thesis using small_gpu_bar
    by (simp add: cudamem_config_init_def config_pages_def config_memory_def small_gpu_def blank_config_def Let_def)
qed

theorem cudamem_config_init_ok_witness:
  "\<exists>config'. cudamem_config_init True bus_os small_gpu blank_config 0 ([], []) = Some (0, config', ([], [])) \<and>
    cudamem_config_ok config' \<and> map_config_ok config'"
proof -
  note run = small_gpu_config [of True]
  have "gq_pagesize small_gpu = 2 ^ 12" by (simp add: small_gpu_def)
  from cudamem_config_init_ok [OF run this] have "cudamem_config_ok \<lparr>dc_pagesize = 4096, dc_pagesize_shift = 12, dc_device_pagesize = 65536,
     dc_device_pagesize_shift = 16, dc_device_memsize = 0x4000, dc_bar1_size = 0x4000, dc_alloc_granularity = 0x200000, dc_alloc_granularity_shift = 21\<rparr> \<and>
     map_config_ok \<lparr>dc_pagesize = 4096, dc_pagesize_shift = 12, dc_device_pagesize = 65536,
     dc_device_pagesize_shift = 16, dc_device_memsize = 0x4000, dc_bar1_size = 0x4000, dc_alloc_granularity = 0x200000, dc_alloc_granularity_shift = 21\<rparr>"
    by auto
  then show ?thesis unfolding run by blast
qed

end
