(* ===== verification/Cudamem_Setup.thy ===== *)
theory Cudamem_Setup
  imports Cudamem_Props
begin

text \<open>
  Set-up and tear-down of the GPU heap (\<open>include/upcie/cudamem_heap.h\<close>): what the heap holds after
  either outcome, and that device memory and file descriptors are given back.

  \<open>cudamem_heap_empty_freelist\<close> frees the descriptors of the blocks, which have no state of their
  own here. Every \<open>malloc\<close> that fails sets \<open>errno\<close> to \<open>ENOMEM\<close>.
\<close>

section \<open>Operations\<close>

definition zero_device :: "cudamem_config \<Rightarrow> cudamem_heap" where
  "zero_device config = \<lparr>dh_vaddr = 0, dh_freelist = [], dh_dmabuf = no_dmabuf, dh_config = config,
     dh_size = 0, dh_nphys = 0, dh_phys_lut = []\<rparr>"

definition cudamem_heap_term :: "('k, 'x) gpu_os_scheme \<Rightarrow> cudamem_heap \<Rightarrow> 'k \<Rightarrow> 'k" where
  "cudamem_heap_term os heap k = (let (err, k1) = dmabuf_detach os (dh_dmabuf heap) k in gpu_free os k1 (dh_vaddr heap))"

text \<open>From the attached dma-buf on; failing here leaves through \<open>error_after_attach\<close>.\<close>

definition init_attached ::
  "('k, 'x) gpu_os_scheme \<Rightarrow> cudamem_heap \<Rightarrow> 'k \<Rightarrow> (int \<times> cudamem_heap \<times> 'k) option" where
  "init_attached os heap k =
     (if dc_device_pagesize (dh_config heap) = 0 then None
      else do {
        let dpage = size_of_int (dc_device_pagesize (dh_config heap));
        let heap1 = heap\<lparr>dh_nphys := dh_size heap div dpage\<rparr>;
        let (ok, k1) = os_malloc os k;
        (err, lut) \<leftarrow>
          (if \<not> ok then Some (- ENOMEM, [])
           else dmabuf_get_lut (dh_dmabuf heap1) (dh_nphys heap1) (replicate (unat (dh_nphys heap1)) 0) dpage);
        if err \<noteq> 0 then
          Some (err, heap1, gpu_free os (snd (dmabuf_detach os (dh_dmabuf heap1) k1)) (dh_vaddr heap1))
        else Some (0, heap1\<lparr>dh_phys_lut := lut\<rparr>, k1) })"

definition cudamem_heap_init ::
  "('k, 'x) gpu_os_scheme \<Rightarrow> u64 \<Rightarrow> cudamem_config \<Rightarrow> 'k \<Rightarrow> (int \<times> cudamem_heap \<times> 'k) option" where
  "cudamem_heap_init os sz config k =
     (case gpu_alloc os k sz of
        (Inl err, k1) \<Rightarrow> Some (err, zero_device config, k1)
      | (Inr vaddr, k1) \<Rightarrow>
          (case gpu_export os k1 vaddr sz of
             (Inl err, k2) \<Rightarrow> Some (err, zero_device config, gpu_free os k2 vaddr)
           | (Inr dmabuf_fd, k2) \<Rightarrow>
               let heap = (zero_device config)\<lparr>dh_vaddr := vaddr, dh_size := sz\<rparr>;
                   (ok, k3) = os_malloc os k2;
                   closed = (\<lambda>k. gpu_free os (if 0 \<le> dmabuf_fd then os_close os k dmabuf_fd else k) vaddr)
               in if \<not> ok then Some (- ENOMEM, heap, closed k3)
                  else do {
                    let heap1 = heap\<lparr>dh_freelist := [\<lparr>db_vaddr = vaddr, db_size = sz, db_free = True\<rparr>]\<rparr>;
                    (err, dmabuf, k4) \<leftarrow> dmabuf_attach os dmabuf_fd no_dmabuf k3;
                    if err \<noteq> 0 then Some (err, heap1\<lparr>dh_dmabuf := dmabuf\<rparr>, closed k4)
                    else init_attached os (heap1\<lparr>dh_dmabuf := dmabuf\<rparr>) k4 }))"

section \<open>Device memory\<close>

text \<open>The calls that do not concern device memory leave the ledger of it alone.\<close>

lemma gpu_lawfulD:
  assumes "gpu_lawful os fds mem"
  shows "dmabuf_lawful os fds"
    "gpu_alloc os k n = (Inl e, k') \<Longrightarrow> 0 < e \<and> fds k' = fds k \<and> mem k' = mem k"
    "gpu_alloc os k n = (Inr a, k') \<Longrightarrow> a \<notin> mem k \<and> fds k' = fds k \<and> mem k' = insert a (mem k)"
    "gpu_export os k a n = (Inl e, k') \<Longrightarrow> 0 < e \<and> fds k' = fds k \<and> mem k' = mem k"
    "gpu_export os k a n = (Inr fd, k') \<Longrightarrow> 0 \<le> fd \<and> fd \<notin> fds k \<and> fds k' = insert fd (fds k) \<and> mem k' = mem k"
    "fds (gpu_free os k a) = fds k" "mem (gpu_free os k a) = mem k - {a}"
    "os_malloc os k = (ok, k') \<Longrightarrow> fds k' = fds k \<and> mem k' = mem k" "mem (os_close os k f) = mem k"
    "os_open os k p = (r, k') \<Longrightarrow> mem k' = mem k"
    "udmabuf_attach os k u f = (x, k') \<Longrightarrow> mem k' = mem k"
    "udmabuf_get_map os k u f cnt = (y, k') \<Longrightarrow> mem k' = mem k"
    "udmabuf_detach os k u f = (z, k') \<Longrightarrow> mem k' = mem k"
proof -
  show law: "dmabuf_lawful os fds" using assms by (simp add: gpu_lawful_def)
  have "case fst (gpu_alloc os k n) of
        Inl e \<Rightarrow> 0 < e \<and> fds (snd (gpu_alloc os k n)) = fds k \<and> mem (snd (gpu_alloc os k n)) = mem k
      | Inr a \<Rightarrow> a \<notin> mem k \<and> fds (snd (gpu_alloc os k n)) = fds k \<and>
          mem (snd (gpu_alloc os k n)) = insert a (mem k)" using assms by (simp add: gpu_lawful_def)
  then show "gpu_alloc os k n = (Inl e, k') \<Longrightarrow> 0 < e \<and> fds k' = fds k \<and> mem k' = mem k"
    "gpu_alloc os k n = (Inr a, k') \<Longrightarrow> a \<notin> mem k \<and> fds k' = fds k \<and> mem k' = insert a (mem k)" by simp_all
  have "mem (snd (gpu_export os k a n)) = mem k \<and>
        (case fst (gpu_export os k a n) of
           Inl e \<Rightarrow> 0 < e \<and> fds (snd (gpu_export os k a n)) = fds k
         | Inr fd \<Rightarrow> 0 \<le> fd \<and> fd \<notin> fds k \<and> fds (snd (gpu_export os k a n)) = insert fd (fds k))"
    using assms by (simp add: gpu_lawful_def)
  then show "gpu_export os k a n = (Inl e, k') \<Longrightarrow> 0 < e \<and> fds k' = fds k \<and> mem k' = mem k"
    "gpu_export os k a n = (Inr fd, k') \<Longrightarrow> 0 \<le> fd \<and> fd \<notin> fds k \<and> fds k' = insert fd (fds k) \<and> mem k' = mem k"
    by simp_all
  show "fds (gpu_free os k a) = fds k" "mem (gpu_free os k a) = mem k - {a}" "mem (os_close os k f) = mem k"
    using assms by (simp_all add: gpu_lawful_def)
  have "mem (snd (os_malloc os k)) = mem k" "mem (snd (os_open os k p)) = mem k"
    "mem (snd (udmabuf_attach os k u f)) = mem k" "mem (snd (udmabuf_get_map os k u f cnt)) = mem k"
    "mem (snd (udmabuf_detach os k u f)) = mem k"
    using assms by (simp_all add: gpu_lawful_def)
  moreover have "fds (snd (os_malloc os k)) = fds k" by (rule os_lawfulD(1) [OF dmabuf_lawfulD(1) [OF law]])
  ultimately show "os_malloc os k = (ok, k') \<Longrightarrow> fds k' = fds k \<and> mem k' = mem k" "os_open os k p = (r, k') \<Longrightarrow> mem k' = mem k"
    "udmabuf_attach os k u f = (x, k') \<Longrightarrow> mem k' = mem k" "udmabuf_get_map os k u f cnt = (y, k') \<Longrightarrow> mem k' = mem k"
    "udmabuf_detach os k u f = (z, k') \<Longrightarrow> mem k' = mem k" by simp_all
qed

lemma attach_mapped_mem:
  assumes "gpu_lawful os fds mem" "attach_mapped os u fd cnt d k = Some (err, buf, k')"
  shows "mem k' = mem k"
proof -
  note law = gpu_lawfulD [OF assms(1)]
  show ?thesis using assms(2) unfolding attach_mapped_def
    by (auto simp: law split: prod.splits if_splits sum.splits dest!: law(8,12,13)) (metis law(13) prod.collapse)+
qed

lemma dmabuf_attach_mem:
  assumes "gpu_lawful os fds mem" "dmabuf_attach os fd d k = Some (err, buf, k')"
  shows "mem k' = mem k"
proof -
  note law = gpu_lawfulD [OF assms(1)]
  from assms(2) show ?thesis unfolding dmabuf_attach_def
    by (auto simp: law(9) split: prod.splits sum.splits bind_splits dest!: law(10,11) attach_mapped_mem [OF assms(1)])
qed

lemma dmabuf_detach_mem:
  assumes "gpu_lawful os fds mem"
  shows "mem (snd (dmabuf_detach os d k)) = mem k"
proof -
  note law = gpu_lawfulD [OF assms]
  show ?thesis unfolding dmabuf_detach_def Let_def
    by (auto simp: law(9) split: prod.splits sum.splits dest!: law(10,13))
qed


section \<open>Outcomes\<close>

text \<open>Tear-down gives back everything unless the kernel's dma-buf device could not be opened.\<close>

definition udmabuf_gone :: "('k, 'x) os_scheme \<Rightarrow> bool" where
  "udmabuf_gone os \<longleftrightarrow> (\<exists>k e. fst (os_open os k UDMABUF_PATH) = Inl e)"

lemma detach_free:
  assumes "gpu_lawful os fds mem"
  shows "mem (gpu_free os (snd (dmabuf_detach os d k)) v) = mem k - {v}"
    "fds (gpu_free os (snd (dmabuf_detach os d k)) v) = fds k - {dm_fd d} \<or>
     udmabuf_gone os \<and> fds (gpu_free os (snd (dmabuf_detach os d k)) v) = fds k"
proof -
  note law = gpu_lawfulD [OF assms]
  show "mem (gpu_free os (snd (dmabuf_detach os d k)) v) = mem k - {v}"
    by (simp add: law(7) dmabuf_detach_mem [OF assms])
  from law(1) show "fds (gpu_free os (snd (dmabuf_detach os d k)) v) = fds k - {dm_fd d} \<or>
     udmabuf_gone os \<and> fds (gpu_free os (snd (dmabuf_detach os d k)) v) = fds k"
  proof (cases rule: dmabuf_detach_result [where d = d and k = k])
    case (leaked e k1)
    then show ?thesis by (auto simp: law(6) udmabuf_gone_def intro: exI [of _ k])
  qed (simp_all add: law(6))
qed

lemma init_attached_result:
  assumes law: "gpu_lawful os fds mem" and page: "0 < dc_device_pagesize config" "dc_device_pagesize config < 2 ^ 31"
    and buf: "dmabuf_ok buf" and h: "heap = \<lparr>dh_vaddr = v, dh_freelist = [\<lparr>db_vaddr = v, db_size = sz, db_free = True\<rparr>],
      dh_dmabuf = buf, dh_config = config, dh_size = sz, dh_nphys = 0, dh_phys_lut = []\<rparr>"
  obtains (failed) err heap' k' where "init_attached os heap k = Some (err, heap', k')" "err \<noteq> 0" "mem k' = mem k - {v}"
      "fds k' = fds k - {dm_fd buf} \<or> udmabuf_gone os \<and> fds k' = fds k"
    | (ready) lut k' where "init_attached os heap k = Some (0, fresh_device v sz config buf lut, k')"
      "lut = dmabuf_phys (size_of_int (dc_device_pagesize config)) buf"
      "length lut = unat (sz div size_of_int (dc_device_pagesize config))" "fds k' = fds k" "mem k' = mem k"
proof -
  let ?dp = "size_of_int (dc_device_pagesize config)"
  let ?heap = "heap\<lparr>dh_nphys := sz div ?dp\<rparr>"
  have "unat ?dp \<noteq> 0" using page by (simp add: unat_size_of_int)
  then have "?dp \<noteq> 0" by auto
  note lut = get_lut_result [OF buf this, of "replicate (unat (sz div ?dp)) 0" "sz div ?dp"]
  obtain ok k1 where m: "os_malloc os k = (ok, k1)" by (cases "os_malloc os k")
  have k1: "fds k1 = fds k" "mem k1 = mem k" using gpu_lawfulD(8) [OF law m] by simp_all
  let ?gone = "gpu_free os (snd (dmabuf_detach os buf k1)) v"
  note gone = detach_free [OF law, of buf k1 v, unfolded k1]
  have out: thesis if "init_attached os heap k = Some (err, ?heap, ?gone)" "err \<noteq> 0" for err
    using failed [OF that gone] .
  have nz: "dc_device_pagesize config \<noteq> 0" using page by simp
  show thesis
  proof (cases "ok \<and> length (dmabuf_phys ?dp buf) = unat (sz div ?dp)")
    case True
    with lut m nz k1 show thesis
      by (intro ready [of "dmabuf_phys ?dp buf" k1]) (simp_all add: init_attached_def fresh_device_def h Let_def)
  next
    case False
    show thesis
    proof (cases ok)
      case True
      with False lut obtain lut' where "dmabuf_get_lut buf (sz div ?dp) (replicate (unat (sz div ?dp)) 0) ?dp = Some (- EINVAL, lut')"
        by auto
      then show thesis using True m nz by (intro out [of "- EINVAL"]) (simp_all add: init_attached_def h Let_def)
    qed (use m nz in \<open>auto intro!: out [of "- ENOMEM"] simp: init_attached_def h Let_def\<close>)
  qed
qed

lemma heap_init_result:
  assumes law: "gpu_lawful os fds mem" and page: "0 < dc_device_pagesize config" "dc_device_pagesize config < 2 ^ 31"
  obtains (failed) err heap' k' where "cudamem_heap_init os sz config k = Some (err, heap', k')" "err \<noteq> 0" "mem k' = mem k"
      "fds k' = fds k \<or> udmabuf_gone os \<and> (\<exists>fd. fds k' = insert fd (fds k))"
    | (ready) v buf lut k' ka where "cudamem_heap_init os sz config k = Some (0, fresh_device v sz config buf lut, k')"
      "gpu_alloc os k sz = (Inr v, ka)" "dmabuf_ok buf" "dm_fd buf \<notin> fds k"
      "lut = dmabuf_phys (size_of_int (dc_device_pagesize config)) buf"
      "length lut = unat (sz div size_of_int (dc_device_pagesize config))"
      "fds k' = insert (dm_fd buf) (fds k)" "v \<notin> mem k" "mem k' = insert v (mem k)"
proof -
  note l = gpu_lawfulD [OF law]
  obtain r ka where a: "gpu_alloc os k sz = (r, ka)" by (cases "gpu_alloc os k sz")
  show thesis
  proof (cases r)
    case (Inl e)
    with a l(2) [of k sz e ka] show thesis
      by (intro failed [of e "zero_device config" ka]) (simp_all add: cudamem_heap_init_def)
  next
    case (Inr v)
    have v: "v \<notin> mem k" "fds ka = fds k" "mem ka = insert v (mem k)" using l(3) [of k sz v ka] a Inr by simp_all
    obtain x kx where x: "gpu_export os ka v sz = (x, kx)" by (cases "gpu_export os ka v sz")
    show thesis
    proof (cases x)
      case (Inl e)
      with a Inr x v l(4) [of ka v sz e kx] show thesis
        by (intro failed [of e "zero_device config" "gpu_free os kx v"]) (simp_all add: cudamem_heap_init_def l(6,7))
    next
      case fd: (Inr fd)
      have kx: "0 \<le> fd" "fd \<notin> fds k" "fds kx = insert fd (fds k)" "mem kx = insert v (mem k)"
        using l(5) [of ka v sz fd kx] x fd v by simp_all
      obtain ok km where m: "os_malloc os kx = (ok, km)" by (cases "os_malloc os kx")
      have km: "fds km = insert fd (fds k)" "mem km = insert v (mem k)" using l(8) [OF m] kx by simp_all
      let ?heap = "(zero_device config)\<lparr>dh_vaddr := v, dh_size := sz\<rparr>"
      have closed: "fds (gpu_free os (os_close os j fd) v) = fds k" "mem (gpu_free os (os_close os j fd) v) = mem k"
        if "fds j = insert fd (fds k)" "mem j = insert v (mem k)" for j
        using that v(1) kx(2) os_lawfulD(2) [OF dmabuf_lawfulD(1) [OF l(1)], of j fd] by (simp_all add: l(6,7,9))
      show thesis
      proof (cases ok)
        case False
        with a Inr x fd m kx closed [OF km] show thesis
          by (intro failed [of "- ENOMEM" ?heap "gpu_free os (os_close os km fd) v"]) (simp_all add: cudamem_heap_init_def)
      next
        case ok: True
        let ?heap1 = "?heap\<lparr>dh_freelist := [\<lparr>db_vaddr = v, db_size = sz, db_free = True\<rparr>]\<rparr>"
        obtain err buf kb where b: "dmabuf_attach os fd no_dmabuf km = Some (err, buf, kb)" "fds kb = fds km"
          "err = 0 \<Longrightarrow> dmabuf_ok buf \<and> dm_fd buf = fd"
          using dmabuf_attach_result [OF l(1), of fd no_dmabuf km] by metis
        have kb: "fds kb = insert fd (fds k)" "mem kb = insert v (mem k)"
          using b(2) dmabuf_attach_mem [OF law b(1)] km by simp_all
        show thesis
        proof (cases "err = 0")
          case False
          with a Inr x fd m ok kx b(1) closed [OF kb] show thesis
            by (intro failed [of err "?heap1\<lparr>dh_dmabuf := buf\<rparr>" "gpu_free os (os_close os kb fd) v"])
              (simp_all add: cudamem_heap_init_def)
        next
          case True
          then have buf: "dmabuf_ok buf" "dm_fd buf = fd" using b(3) by simp_all
          have run: "cudamem_heap_init os sz config k = init_attached os (?heap1\<lparr>dh_dmabuf := buf\<rparr>) kb"
            using a Inr x fd m ok b(1) True by (simp add: cudamem_heap_init_def)
          have h: "?heap1\<lparr>dh_dmabuf := buf\<rparr> = \<lparr>dh_vaddr = v, dh_freelist = [\<lparr>db_vaddr = v, db_size = sz, db_free = True\<rparr>],
            dh_dmabuf = buf, dh_config = config, dh_size = sz, dh_nphys = 0, dh_phys_lut = []\<rparr>"
            by (simp add: zero_device_def)
          from law page buf(1) h show thesis
          proof (cases rule: init_attached_result [where k = kb])
            case (failed err heap' k')
            then show thesis using run kb buf(2) kx(2) v(1)
              by (intro that(1) [of err heap' k']) auto
          next
            case (ready lut k')
            then show thesis using run kb buf kx(2) v(1) a Inr
              by (intro that(2) [of v buf lut k' ka]) simp_all
          qed
        qed
      qed
    qed
  qed
qed


section \<open>Property\<close>

text \<open>Setting up a GPU heap returns. Either it fails, with no device memory allocated that was not
  before and no descriptor open that was not before, or it returns 0 with a heap that is one
  free block over the new memory, whose table gives every device page the physical address that
  the dma-buf of the memory lists for it; and tear-down of such a heap gives back the memory and
  the descriptor. The one exception in both cases is a descriptor of the dma-buf that stays open
  in a world where /dev/udmabuf cannot always be opened.\<close>

theorem cudamem_heap_init_term_no_leak:
  assumes "gpu_lawful os fds mem" "cudamem_config_ok config" "sz \<noteq> 0"
    and "\<And>v k'. gpu_alloc os k sz = (Inr v, k') \<Longrightarrow> 0 < unat v \<and> unat v + unat sz < 2 ^ 64"
  shows "\<exists>err heap k'. cudamem_heap_init os sz config k = Some (err, heap, k') \<and>
    (if err \<noteq> 0 then mem k' = mem k \<and> (fds k' = fds k \<or> udmabuf_gone os \<and> (\<exists>fd. fds k' = insert fd (fds k)))
     else device_ok heap \<and> device_payloads heap = [] \<and> device_lut_ok heap \<and> dh_config heap = config \<and> dh_size heap = sz \<and>
       dh_phys_lut heap = dmabuf_phys (size_of_int (dc_device_pagesize config)) (dh_dmabuf heap) \<and>
       mem k' = insert (dh_vaddr heap) (mem k) \<and> mem (cudamem_heap_term os heap k') = mem k \<and>
       (fds (cudamem_heap_term os heap k') = fds k \<or> udmabuf_gone os))"
proof -
  obtain h where cfg: "dc_device_pagesize config = 2 ^ h" "h \<le> 30" using assms(2) by (elim device_configE)
  have "(2 :: int) ^ h \<le> 2 ^ 30" using cfg(2) by (rule power_increasing) simp
  then have page: "0 < dc_device_pagesize config" "dc_device_pagesize config < 2 ^ 31" using cfg by simp_all
  from assms(1) page show ?thesis
  proof (cases rule: heap_init_result [where k = k and sz = sz])
    case (failed err heap' k')
    then show ?thesis by (intro exI [of _ err] exI [of _ heap'] exI [of _ k']) (simp only: if_True not_False_eq_True simp_thms)
  next
    case (ready v buf lut k' ka)
    let ?heap = "fresh_device v sz config buf lut"
    have sp: "space_ok v (unat sz)" using assms(4) [OF ready(2)] by (simp add: space_ok_def)
    have "unat (size_of_int (dc_device_pagesize config)) = nat (dc_device_pagesize config)"
      using page by (simp add: unat_size_of_int)
    then have "length lut = unat sz div nat (dc_device_pagesize config)" using ready(6) by (simp add: unat_div)
    from fresh_device_lut [OF assms(2) sp this] fresh_device_ok [OF assms(2) sp assms(3), of buf lut]
    have ok: "device_ok ?heap" "device_payloads ?heap = []" "device_lut_ok ?heap" by simp_all
    have t: "cudamem_heap_term os ?heap k' = gpu_free os (snd (dmabuf_detach os buf k')) v"
      by (simp add: cudamem_heap_term_def fresh_device_def case_prod_beta)
    have "mem (cudamem_heap_term os ?heap k') = mem k"
      using detach_free(1) [OF assms(1), of buf k' v] ready(8,9) by (simp add: t)
    moreover have "fds (cudamem_heap_term os ?heap k') = fds k \<or> udmabuf_gone os"
      using detach_free(2) [OF assms(1), of buf k' v] ready(4,7) by (auto simp: t)
    ultimately show ?thesis using ready(1,5,9) ok
      by (intro exI [of _ 0] exI [of _ ?heap] exI [of _ k']) (simp add: fresh_device_def)
  qed
qed


text \<open>A world that has one region of device memory to give, exported as one run of physical memory.\<close>

definition next_fd :: "int list \<Rightarrow> int" where "next_fd l = 1 + foldr max l 0"

definition lab_os :: "(int list \<times> u64 list) gpu_os" where
  "lab_os = \<lparr>os_malloc = \<lambda>k. (True, k), os_open = \<lambda>(f, m) path. (Inr (next_fd f), (next_fd f # f, m)),
     os_close = \<lambda>(f, m) fd. (filter (\<lambda>x. x \<noteq> fd) f, m), udmabuf_attach = \<lambda>k u f. (Inr 1, k),
     udmabuf_get_map = \<lambda>k u f n. (if n = 0 then Inr [] else Inr [(2 ^ 30, 0x40000)], k),
     udmabuf_detach = \<lambda>k u f. (Inr (), k),
     gpu_alloc = \<lambda>(f, m) n. (if m = [] then (Inr 0x7F0000000000, (f, [0x7F0000000000])) else (Inl 2, (f, m))),
     gpu_free = \<lambda>(f, m) a. (f, filter (\<lambda>x. x \<noteq> a) m),
     gpu_export = \<lambda>(f, m) a n. (Inr (next_fd f), (next_fd f # f, m))\<rparr>"

lemma next_fd: "0 \<le> next_fd l" "next_fd l \<notin> set l"
proof -
  have "x \<le> foldr max l 0" if "x \<in> set l" for x using that by (induction l) (auto simp: le_max_iff_disj)
  moreover have "0 \<le> foldr max l 0" by (induction l) auto
  ultimately show "0 \<le> next_fd l" "next_fd l \<notin> set l" by (fastforce simp: next_fd_def)+
qed

lemma lab_lawful: "gpu_lawful lab_os (\<lambda>(f, m). set f) (\<lambda>(f, m). set m)"
  by (auto simp: gpu_lawful_def dmabuf_lawful_def os_lawful_def lab_os_def next_fd Suc_le_eq unat_gt_0)

theorem cudamem_heap_init_term_no_leak_witness:
  "\<exists>err heap f m. cudamem_heap_init lab_os 0x40000 example_device_config ([], []) = Some (err, heap, (f, m)) \<and>
    (err \<noteq> 0 \<longrightarrow> m = [] \<and> f = []) \<and> (err = 0 \<longrightarrow> device_ok heap \<and> device_lut_ok heap \<and> snd (cudamem_heap_term lab_os heap (f, m)) = [])"
proof -
  have g: "\<not> udmabuf_gone lab_os" by (simp add: udmabuf_gone_def lab_os_def)
  have a: "0 < unat v \<and> unat v + unat (0x40000 :: u64) < 2 ^ 64" if "gpu_alloc lab_os ([], []) 0x40000 = (Inr v, k')" for v k'
    using that by (auto simp: lab_os_def)
  have "(0x40000 :: u64) \<noteq> 0" by simp
  from cudamem_heap_init_term_no_leak [OF lab_lawful example_device_config_ok this a, of "([], [])" "\<lambda>v k'. k'"]
  obtain err heap f m where r: "cudamem_heap_init lab_os 0x40000 example_device_config ([], []) = Some (err, heap, (f, m))"
    "if err \<noteq> 0 then set m = {} \<and> (set f = {} \<or> udmabuf_gone lab_os \<and> (\<exists>fd. set f = {fd}))
     else device_ok heap \<and> device_lut_ok heap \<and> (case cudamem_heap_term lab_os heap (f, m) of (f, m) \<Rightarrow> set m) = {}"
    by (auto split: if_splits)
  then show ?thesis using g by (intro exI [of _ err] exI [of _ heap] exI [of _ f] exI [of _ m]) (auto split: if_splits prod.splits)
qed

end
