(* ===== verification/Mapped_Prps.thy ===== *)
theory Mapped_Prps
  imports Prp_Builder
begin

unbundle bit_operations_syntax

text \<open>
  The PRP builders for buffers that are looked up page by page
  (\<open>nvme_request_prep_command_prps_contig_cuda_mapped\<close>, \<open>..._iov_cuda_mapped\<close> and their HIP
  twins), over the lookup as a parameter: \<open>Inr\<close> of a physical address or \<open>Inl\<close> of the negative
  error code; and the contract of a lookup under which they describe the buffer.

  A PRP list page holds \<open>pagesize / 8\<close> entries; the list of entries is returned updated, as in
  the other builders.
\<close>

section \<open>The builders\<close>

text \<open>The loop over the pages after the first, \<open>k\<close> of which remain, page \<open>i\<close> being the next.\<close>

primrec mapped_fill ::
  "(u64 \<Rightarrow> (int + u64) option) \<Rightarrow> nat \<Rightarrow> u64 \<Rightarrow> nat \<Rightarrow> u64 \<Rightarrow> u64 list \<Rightarrow> (int \<times> u64 list) option" where
  "mapped_fill v2p shift page_base 0 i lst = Some (0, lst)"
| "mapped_fill v2p shift page_base (Suc k) i lst = do {
     r \<leftarrow> v2p (page_base + push_bit shift i);
     case r of
       Inl err \<Rightarrow> Some (err, lst)
     | Inr phys \<Rightarrow> do {
         lst' \<leftarrow> array_set lst (unat (i - 1)) phys;
         mapped_fill v2p shift page_base k (i + 1) lst' } }"

definition prep_contig_mapped ::
  "(u64 \<Rightarrow> (int + u64) option) \<Rightarrow> int \<Rightarrow> int \<Rightarrow> nvme_request \<Rightarrow> u64 \<Rightarrow> u64 \<Rightarrow> u64 list \<Rightarrow> nvme_command \<Rightarrow>
   (int \<times> u64 list \<times> nvme_command) option" where
  "prep_contig_mapped v2p pagesz pagesz_shift request dbuf dbuf_nbytes lst cmd =
     (if pagesz_shift < 0 \<or> 64 \<le> pagesz_shift then None
      else do {
        let pagesize = size_of_int pagesz;
        let shift = nat pagesz_shift;
        let prp_cap = pagesize div 8;
        let page_off = dbuf AND (pagesize - 1);
        let page_base = dbuf - page_off;
        let npages = drop_bit shift (page_off + dbuf_nbytes + pagesize - 1);
        if 1 + prp_cap < npages then Some (- EINVAL, lst, cmd)
        else do {
          r \<leftarrow> v2p dbuf;
          case r of
            Inl err \<Rightarrow> Some (err, lst, cmd)
          | Inr prp1 \<Rightarrow>
              let cmd1 = cmd\<lparr>cmd_prp1 := prp1\<rparr> in
              if npages = 1 then Some (0, lst, cmd1)
              else if npages = 2 then do {
                r2 \<leftarrow> v2p (page_base + pagesize);
                case r2 of
                  Inl err \<Rightarrow> Some (err, lst, cmd1)
                | Inr prp2 \<Rightarrow> Some (0, lst, cmd1\<lparr>cmd_prp2 := prp2\<rparr>) }
              else do {
                (err, lst') \<leftarrow> mapped_fill v2p shift page_base (unat npages - 1) 1 lst;
                Some (err, lst', cmd1\<lparr>cmd_prp2 := req_prp_addr request\<rparr>) } } })"

text \<open>The loop over the pages of one element: the code to leave with, if any, and the next index.\<close>

partial_function (option) mapped_iov_pages ::
  "(u64 \<Rightarrow> (int + u64) option) \<Rightarrow> u64 \<Rightarrow> u64 \<Rightarrow> u64 \<Rightarrow> u64 \<Rightarrow> u64 \<Rightarrow> nat \<Rightarrow> u64 list \<Rightarrow>
   (int option \<times> nat \<times> u64 list) option" where
  "mapped_iov_pages v2p pagesize prp_cap base offset remaining prp_idx lst =
     (if remaining = 0 then Some (None, prp_idx, lst)
      else if unat prp_cap \<le> prp_idx then Some (Some (- EINVAL), prp_idx, lst)
      else do {
        r \<leftarrow> v2p (base + offset);
        case r of
          Inl err \<Rightarrow> Some (Some err, prp_idx + 1, lst)
        | Inr phys \<Rightarrow> do {
            lst' \<leftarrow> array_set lst prp_idx phys;
            mapped_iov_pages v2p pagesize prp_cap base (offset + pagesize)
              (if pagesize < remaining then remaining - pagesize else 0) (prp_idx + 1) lst' } })"

text \<open>The loop over the elements, \<open>first\<close> being set for element 0, whose first page is PRP1.\<close>

fun mapped_iov ::
  "bool \<Rightarrow> (u64 \<Rightarrow> (int + u64) option) \<Rightarrow> u64 \<Rightarrow> bool \<Rightarrow> (u64 \<times> u64) list \<Rightarrow> nat \<Rightarrow> u64 list \<Rightarrow> nvme_command \<Rightarrow>
   (int option \<times> nat \<times> u64 list \<times> nvme_command) option" where
  "mapped_iov dbg v2p pagesize first [] prp_idx lst cmd = Some (None, prp_idx, lst, cmd)"
| "mapped_iov dbg v2p pagesize first ((base, iov_len) # dvec) prp_idx lst cmd = do {
     c_assert dbg (base AND (pagesize - 1) = 0);
     (stop, cmd1) \<leftarrow>
       (if first then do {
          r \<leftarrow> v2p base;
          case r of Inl err \<Rightarrow> Some (Some err, cmd) | Inr prp1 \<Rightarrow> Some (None, cmd\<lparr>cmd_prp1 := prp1\<rparr>) }
        else Some (None, cmd));
     case stop of Some err \<Rightarrow> Some (Some err, prp_idx, lst, cmd1)
     | None \<Rightarrow> do {
         let offset = (if first then pagesize else 0);
         let remaining = (if first then (if pagesize < iov_len then iov_len - pagesize else 0) else iov_len);
         (stop, idx, lst') \<leftarrow> mapped_iov_pages v2p pagesize (pagesize div 8) base offset remaining prp_idx lst;
         case stop of Some err \<Rightarrow> Some (Some err, idx, lst', cmd1)
         | None \<Rightarrow> mapped_iov dbg v2p pagesize False dvec idx lst' cmd1 } }"

definition prep_iov_mapped ::
  "bool \<Rightarrow> (u64 \<Rightarrow> (int + u64) option) \<Rightarrow> int \<Rightarrow> nvme_request \<Rightarrow> (u64 \<times> u64) list \<Rightarrow> u64 list \<Rightarrow> nvme_command \<Rightarrow>
   (int \<times> u64 list \<times> nvme_command) option" where
  "prep_iov_mapped dbg v2p pagesz request dvec lst cmd =
     (if dvec = [] then Some (- EINVAL, lst, cmd)
      else do {
        (stop, prp_idx, lst', cmd') \<leftarrow> mapped_iov dbg v2p (size_of_int pagesz) True dvec 0 lst cmd;
        case stop of
          Some err \<Rightarrow> Some (err, lst', cmd')
        | None \<Rightarrow>
            if prp_idx = 1 then do { e \<leftarrow> array_get lst' 0; Some (0, lst', cmd'\<lparr>cmd_prp2 := e\<rparr>) }
            else if 1 < prp_idx then Some (0, lst', cmd'\<lparr>cmd_prp2 := req_prp_addr request\<rparr>)
            else Some (0, lst', cmd') })"

section \<open>The contract of a lookup\<close>

text \<open>
  A lookup answers always, with an address or an error that is not 0, and inside a page it is
  linear: the answer for one byte gives that of every later byte of the same page.
\<close>

locale page_lookup =
  fixes valid :: "'h \<Rightarrow> bool" and v2p :: "'h \<Rightarrow> u64 \<Rightarrow> (int + u64) option" and page_shift :: "'h \<Rightarrow> nat"
  assumes answers: "valid h \<Longrightarrow> (\<exists>a. v2p h va = Some (Inr a)) \<or> v2p h va = Some (Inl (- EINVAL))"
    and linear: "valid h \<Longrightarrow> v2p h va = Some (Inr a) \<Longrightarrow> unat va mod 2 ^ page_shift h + x < 2 ^ page_shift h \<Longrightarrow>
      v2p h (va + of_nat x) = Some (Inr (a + of_nat x))"
    and shift_bound: "valid h \<Longrightarrow> page_shift h \<le> 30"
begin

definition present :: "'h \<Rightarrow> u64 \<Rightarrow> bool" where
  "present h va \<longleftrightarrow> (\<exists>a. v2p h va = Some (Inr a))"

definition resolved :: "'h \<Rightarrow> u64 \<Rightarrow> u64" where
  "resolved h va = (case v2p h va of Some (Inr a) \<Rightarrow> a | _ \<Rightarrow> 0)"

lemma lookup_eq:
  "valid h \<Longrightarrow> v2p h va = Some (if present h va then Inr (resolved h va) else Inl (- EINVAL))"
  using answers [of h va] by (auto simp: present_def resolved_def)

lemma linear_resolved:
  assumes "valid h" "present h va" "unat va mod 2 ^ page_shift h + x < 2 ^ page_shift h"
  shows "present h (va + of_nat x)" "resolved h (va + of_nat x) = resolved h va + of_nat x"
proof -
  obtain a where a: "v2p h va = Some (Inr a)" using assms(2) by (auto simp: present_def)
  from linear [OF assms(1) this assms(3)] a
  show "present h (va + of_nat x)" "resolved h (va + of_nat x) = resolved h va + of_nat x"
    by (simp_all add: present_def resolved_def)
qed

text \<open>The loop over the later pages.\<close>

lemma mapped_fill_correct:
  assumes v: "valid h"
  shows "i = of_nat (Suc I) \<Longrightarrow> I + k \<le> length lst \<Longrightarrow> length lst < 2 ^ 32 \<Longrightarrow>
    (if \<forall>q. I \<le> q \<and> q < I + k \<longrightarrow> present h (pb + of_nat (Suc q * 2 ^ page_shift h))
     then mapped_fill (v2p h) (page_shift h) pb k i lst =
       Some (0, take I lst @ map (\<lambda>q. resolved h (pb + of_nat (Suc q * 2 ^ page_shift h))) [I..<I + k] @ drop (I + k) lst)
     else \<exists>lst'. mapped_fill (v2p h) (page_shift h) pb k i lst = Some (- EINVAL, lst'))"
proof (induction k arbitrary: I i lst)
  case 0
  have "\<not> (I \<le> q \<and> q < I + 0)" for q by simp
  then show ?case by simp
next
  case (Suc k)
  have I: "Suc I < 2 ^ 64" using Suc.prems(2,3) by simp
  have idx: "unat (i - 1) = I" using I by (simp add: Suc.prems(1) unat_of_nat_u64)
  let ?p = "\<lambda>q. pb + of_nat (Suc q * 2 ^ page_shift h)"
  have a: "pb + push_bit (page_shift h) i = ?p I" by (simp add: Suc.prems(1) push_bit_eq_mult algebra_simps)
  have l: "v2p h (pb + push_bit (page_shift h) i) = Some (if present h (?p I) then Inr (resolved h (?p I)) else Inl (- EINVAL))"
    unfolding a by (rule lookup_eq [OF v])
  show ?case
  proof (cases "present h (?p I)")
    case False
    then have "\<not> (\<forall>q. I \<le> q \<and> q < I + Suc k \<longrightarrow> present h (?p q))" by auto
    moreover have "mapped_fill (v2p h) (page_shift h) pb (Suc k) i lst = Some (- EINVAL, lst)"
      unfolding mapped_fill.simps l if_not_P [OF False] by simp
    ultimately show ?thesis by (metis (no_types, lifting))
  next
    case True
    let ?lst = "lst[I := resolved h (?p I)]"
    have run: "mapped_fill (v2p h) (page_shift h) pb (Suc k) i lst = mapped_fill (v2p h) (page_shift h) pb k (i + 1) ?lst"
      unfolding mapped_fill.simps l if_P [OF True] using Suc.prems(2) by (simp add: idx)
    have all: "(\<forall>q. I \<le> q \<and> q < I + Suc k \<longrightarrow> present h (?p q)) \<longleftrightarrow> (\<forall>q. Suc I \<le> q \<and> q < Suc I + k \<longrightarrow> present h (?p q))"
      using True by (metis add_Suc add_Suc_right le_neq_implies_less Suc_leI Suc_leD)
    have split: "take (Suc I) ?lst @ map (\<lambda>q. resolved h (?p q)) [Suc I..<Suc I + k] @ drop (Suc I + k) ?lst =
        take I lst @ map (\<lambda>q. resolved h (?p q)) [I..<I + Suc k] @ drop (I + Suc k) lst"
    proof -
      have "[I..<I + Suc k] = I # [Suc I..<Suc I + k]" by (simp add: upt_conv_Cons del: upt_Suc)
      then show ?thesis using Suc.prems(2) by (simp add: take_Suc_conv_app_nth del: upt_Suc)
    qed
    have "i + 1 = of_nat (Suc (Suc I))" using Suc.prems(1) by simp
    from Suc.IH [OF this, of ?lst] Suc.prems(2,3) show ?thesis
      unfolding run all split by simp
  qed
qed

text \<open>The pages of a buffer: the first begins at the buffer itself, the others at page boundaries.\<close>

definition page_addr :: "'h \<Rightarrow> u64 \<Rightarrow> nat \<Rightarrow> u64" where
  "page_addr h dbuf i = (if i = 0 then dbuf
     else dbuf - of_nat (unat dbuf mod 2 ^ page_shift h) + of_nat (i * 2 ^ page_shift h))"

lemma byte_addr:
  assumes "unat (dbuf :: u64) mod P + j = i * P + x"
  shows "dbuf + of_nat j = dbuf - of_nat (unat dbuf mod P) + of_nat (i * P) + of_nat x"
proof -
  have "of_nat (unat dbuf mod P) + of_nat j = (of_nat (i * P) + of_nat x :: u64)"
    by (simp only: of_nat_add [symmetric] assms)
  then show ?thesis by (simp add: algebra_simps)
qed

lemma page_addr_aligned:
  assumes "0 < i" "unat dbuf + j < 2 ^ 64" "(unat dbuf mod 2 ^ page_shift h + j) div 2 ^ page_shift h = i"
  shows "unat (page_addr h dbuf i) mod 2 ^ page_shift h = 0"
proof -
  let ?P = "2 ^ page_shift h :: nat"
  have le: "i * ?P \<le> unat dbuf mod ?P + j" using assms(3) div_times_less_eq_dividend by blast
  have d: "unat dbuf - unat dbuf mod ?P = unat dbuf div ?P * ?P" by (simp add: minus_mod_eq_div_mult)
  have "dbuf - of_nat (unat dbuf mod ?P) = of_nat (unat dbuf div ?P * ?P)"
    unfolding d [symmetric] by (simp add: of_nat_diff)
  then have "page_addr h dbuf i = of_nat ((unat dbuf div ?P + i) * ?P)"
    using assms(1) by (simp add: page_addr_def algebra_simps)
  moreover have "(unat dbuf div ?P + i) * ?P \<le> unat dbuf + j"
    using le div_mult_mod_eq [of "unat dbuf" ?P] unfolding add_mult_distrib by linarith
  ultimately have "unat (page_addr h dbuf i) = (unat dbuf div ?P + i) * ?P"
    using assms(2) by (simp only: unat_of_nat_u64 le_less_trans)
  then show ?thesis by simp
qed

lemma byte_resolved:
  assumes "valid h" "unat dbuf + j < 2 ^ 64"
  defines "P \<equiv> 2 ^ page_shift h"
  defines "i \<equiv> (unat dbuf mod P + j) div P"
  assumes "present h (page_addr h dbuf i)"
  shows "present h (dbuf + of_nat j)"
    "resolved h (dbuf + of_nat j) = resolved h (page_addr h dbuf i) +
      of_nat (if i = 0 then j else (unat dbuf mod P + j) mod P)"
proof -
  have P: "0 < P" by (simp add: P_def)
  have mod_i: "unat dbuf mod P + j = i * P + (unat dbuf mod P + j) mod P" by (simp add: i_def)
  have "present h (dbuf + of_nat j) \<and> resolved h (dbuf + of_nat j) = resolved h (page_addr h dbuf i) +
      of_nat (if i = 0 then j else (unat dbuf mod P + j) mod P)"
  proof (cases "i = 0")
    case True
    then have "unat dbuf mod P + j < P" using P by (simp add: i_def div_eq_0_iff)
    with linear_resolved [OF assms(1), of dbuf j] assms(5) True show ?thesis by (simp add: page_addr_def P_def)
  next
    case False
    then have z: "unat (page_addr h dbuf i) mod P = 0"
      unfolding P_def using assms(2) i_def P_def by (intro page_addr_aligned [of i dbuf j]) auto
    have "dbuf + of_nat j = page_addr h dbuf i + of_nat ((unat dbuf mod P + j) mod P)"
      using False byte_addr [of dbuf P j i "(unat dbuf mod P + j) mod P", OF mod_i] by (simp add: page_addr_def P_def)
    with linear_resolved [OF assms(1,5), of "(unat dbuf mod P + j) mod P"] z False P show ?thesis
      by (simp add: P_def)
  qed
  then show "present h (dbuf + of_nat j)"
    "resolved h (dbuf + of_nat j) = resolved h (page_addr h dbuf i) +
      of_nat (if i = 0 then j else (unat dbuf mod P + j) mod P)" by blast+
qed

lemma all_bytes_present:
  assumes "valid h" "0 < n" "unat dbuf + n \<le> 2 ^ 64"
  defines "P \<equiv> 2 ^ page_shift h"
  shows "(\<forall>j < n. present h (dbuf + of_nat j)) \<longleftrightarrow>
    (\<forall>i < page_count P (unat dbuf mod P) n. present h (page_addr h dbuf i))"
proof (intro iffI allI impI)
  fix i assume all: "\<forall>j < n. present h (dbuf + of_nat j)" and i: "i < page_count P (unat dbuf mod P) n"
  show "present h (page_addr h dbuf i)"
  proof (cases "i = 0")
    case True
    with all assms(2) show ?thesis using all [rule_format, of 0] by (simp add: page_addr_def)
  next
    case False
    have P: "0 < P" by (simp add: P_def)
    have lt: "i * P < unat dbuf mod P + n" by (rule page_start [OF P i assms(2)])
    have "unat dbuf mod P \<le> i * P"
      using False mod_less_divisor [OF P, of "unat dbuf"] by (metis less_imp_le_nat le_trans mult_le_mono1 One_nat_def Suc_leI nat_mult_1 neq0_conv)
    then have e: "unat dbuf mod P + (i * P - unat dbuf mod P) = i * P + 0" by simp
    have "i * P - unat dbuf mod P < n" using lt \<open>unat dbuf mod P \<le> i * P\<close> by linarith
    moreover have "page_addr h dbuf i = dbuf + of_nat (i * P - unat dbuf mod P)"
      unfolding byte_addr [OF e] using False by (simp add: page_addr_def P_def)
    ultimately show ?thesis using all by simp
  qed
next
  fix j assume all: "\<forall>i < page_count P (unat dbuf mod P) n. present h (page_addr h dbuf i)" and j: "j < n"
  have "(unat dbuf mod P + j) div P < page_count P (unat dbuf mod P) n"
    by (rule page_of_byte [OF _ j]) (simp add: P_def)
  with all byte_resolved(1) [OF assms(1), of dbuf j] j assms(3) show "present h (dbuf + of_nat j)"
    by (simp add: P_def)
qed

text \<open>What the builder computes for a buffer that ends before the last page of the address space.\<close>

lemma mapped_arith:
  assumes "valid h" "unat (dbuf :: u64) + unat (n :: u64) + 2 ^ page_shift h \<le> 2 ^ 64"
  defines "P \<equiv> 2 ^ page_shift h :: nat"
  shows "dbuf AND (2 ^ page_shift h - 1) = of_nat (unat dbuf mod P)"
    "unat (drop_bit (page_shift h) ((dbuf AND (2 ^ page_shift h - 1)) + n + 2 ^ page_shift h - 1)) =
      page_count P (unat dbuf mod P) (unat n)"
    "unat ((2 ^ page_shift h :: u64) div 8) = P div 8"
proof -
  have sh: "page_shift h < 64" using shift_bound [OF assms(1)] by simp
  show m: "dbuf AND (2 ^ page_shift h - 1) = of_nat (unat dbuf mod P)"
    by (intro u64_eqI) (simp only: unat_and_mask unat_mod_back P_def)
  have le: "unat dbuf mod P + unat n + P \<le> 2 ^ 64" using assms(2) mod_less_eq_dividend [of "unat dbuf" P] unfolding P_def by linarith
  moreover have "unat (of_nat (unat dbuf mod P) :: u64) = unat dbuf mod P" by (rule unat_mod_back)
  moreover have "0 < P" by (simp add: P_def)
  ultimately have "unat (of_nat (unat dbuf mod P) + n) = unat dbuf mod P + unat n" by (simp add: unat_add_u64)
  then have "unat (of_nat (unat dbuf mod P) + n + 2 ^ page_shift h - 1) = unat dbuf mod P + unat n + P - 1"
    using unat_plus_page [of "of_nat (unat dbuf mod P) + n" "page_shift h"] le sh by (simp add: P_def)
  then show "unat (drop_bit (page_shift h) ((dbuf AND (2 ^ page_shift h - 1)) + n + 2 ^ page_shift h - 1)) =
      page_count P (unat dbuf mod P) (unat n)"
    unfolding unat_drop_bit_u64 m page_count_def by (simp add: P_def)
  show "unat ((2 ^ page_shift h :: u64) div 8) = P div 8" using unat_two_power [OF sh] by (simp add: unat_div P_def)
qed

lemma prp_bytes_resolved:
  assumes "valid h" "unat dbuf + n \<le> 2 ^ 64" "0 < n"
  defines "P \<equiv> 2 ^ page_shift h :: nat"
  defines "np \<equiv> page_count P (unat dbuf mod P) n"
  assumes "\<forall>i < np. present h (page_addr h dbuf i)" "cmd_prp1 cmd = resolved h dbuf"
    and "\<forall>i. 0 < i \<and> i < np \<longrightarrow> (if np \<le> 2 then cmd_prp2 cmd else lst ! (i - 1)) = resolved h (page_addr h dbuf i)"
  shows "\<forall>j < n. resolved h (dbuf + of_nat j) = prp_byte P (unat dbuf mod P) n cmd lst j"
proof (intro allI impI)
  fix j assume j: "j < n"
  let ?i = "(unat dbuf mod P + j) div P"
  have i: "?i < np" unfolding np_def by (rule page_of_byte [OF _ j]) (simp add: P_def)
  then have pr: "present h (page_addr h dbuf ?i)" using assms(6) by blast
  have b: "unat dbuf + j < 2 ^ 64" using j assms(2) by simp
  from byte_resolved(2) [OF assms(1) b, folded P_def, OF pr] assms(7,8) i
  show "resolved h (dbuf + of_nat j) = prp_byte P (unat dbuf mod P) n cmd lst j"
    by (auto simp: prp_byte_def Let_def np_def page_addr_def)
qed

text \<open>The checks before the pages: the number of pages, and the translation of the first byte.\<close>

lemma mapped_start:
  assumes v: "valid h" and fits: "unat dbuf + unat n + 2 ^ page_shift h \<le> 2 ^ 64"
  defines "P \<equiv> 2 ^ page_shift h :: nat"
  defines "np \<equiv> page_count P (unat dbuf mod P) (unat n)" and "pb \<equiv> dbuf - of_nat (unat dbuf mod P)"
  shows "prep_contig_mapped (v2p h) (2 ^ page_shift h) (int (page_shift h)) request dbuf n lst cmd =
    (if 1 + P div 8 < np then Some (- EINVAL, lst, cmd)
     else if \<not> present h dbuf then Some (- EINVAL, lst, cmd)
     else let cmd1 = cmd\<lparr>cmd_prp1 := resolved h dbuf\<rparr> in
       if np = 1 then Some (0, lst, cmd1)
       else if np = 2 then Some (if present h (page_addr h dbuf 1)
         then (0, lst, cmd1\<lparr>cmd_prp2 := resolved h (page_addr h dbuf 1)\<rparr>) else (- EINVAL, lst, cmd1))
       else do {
         (err, lst') \<leftarrow> mapped_fill (v2p h) (page_shift h) pb (np - 1) 1 lst;
         Some (err, lst', cmd1\<lparr>cmd_prp2 := req_prp_addr request\<rparr>) })"
proof -
  note ar = mapped_arith [OF v fits, folded P_def]
  have ps: "size_of_int (2 ^ page_shift h) = 2 ^ page_shift h" by (simp add: size_of_int_def)
  have sh: "\<not> (int (page_shift h) < 0 \<or> 64 \<le> int (page_shift h))" using shift_bound [OF v] by simp
  let ?np = "drop_bit (page_shift h) (of_nat (unat dbuf mod P) + n + 2 ^ page_shift h - 1)"
  have np: "unat ?np = np" using ar(2) unfolding ar(1) np_def .
  have npw: "?np = 1 \<longleftrightarrow> np = 1" "?np = 2 \<longleftrightarrow> np = 2" using np by (auto simp: u64_eq_iff)
  have "P \<le> 2 ^ 30" unfolding P_def using shift_bound [OF v] by (rule power_increasing) simp
  then have "P div 8 < 2 ^ 63" using div_le_dividend [of P 8] by simp
  then have "unat (1 + (2 ^ page_shift h :: u64) div 8) = 1 + P div 8"
    using ar(3) by (subst unat_add_u64) simp_all
  then have cap: "1 + (2 ^ page_shift h :: u64) div 8 < ?np \<longleftrightarrow> 1 + P div 8 < np"
    by (simp add: word_less_nat_alt np)
  have a1: "page_addr h dbuf 1 = pb + 2 ^ page_shift h" by (simp add: page_addr_def P_def pb_def)
  show ?thesis
    unfolding prep_contig_mapped_def if_not_P [OF sh] Let_def ps nat_int ar(1) cap npw np pb_def [symmetric] a1
      lookup_eq [OF v] bind.bind_lunit
    by (simp split: if_split)
qed

text \<open>The pages after the first: the builder fails when one is not mapped, and enters each otherwise.\<close>

lemma mapped_pages:
  assumes v: "valid h" and fits: "unat dbuf + unat n + 2 ^ page_shift h \<le> 2 ^ 64" and n: "0 < unat n"
  defines "P \<equiv> 2 ^ page_shift h :: nat"
  defines "np \<equiv> page_count P (unat dbuf mod P) (unat n)"
  assumes room: "np - 1 \<le> length lst" "length lst < 2 ^ 32"
    and fit: "\<not> 1 + P div 8 < np" and first: "present h dbuf"
  shows "\<exists>err lst' cmd'. prep_contig_mapped (v2p h) (2 ^ page_shift h) (int (page_shift h)) request dbuf n lst cmd = Some (err, lst', cmd') \<and>
    err = (if \<exists>i. 0 < i \<and> i < np \<and> \<not> present h (page_addr h dbuf i) then - EINVAL else 0) \<and>
    (err = 0 \<longrightarrow> cmd_prp1 cmd' = resolved h dbuf \<and> (\<forall>i. 0 < i \<and> i < np \<longrightarrow>
      (if np \<le> 2 then cmd_prp2 cmd' else lst' ! (i - 1)) = resolved h (page_addr h dbuf i)))"
proof -
  let ?pb = "dbuf - of_nat (unat dbuf mod P)"
  note run = mapped_start [OF v fits, folded P_def, folded np_def, of request lst cmd, unfolded if_not_P [OF fit]]
  have np1: "1 \<le> np" using page_of_byte [of P 0 "unat n" "unat dbuf mod P"] n by (simp add: np_def P_def)
  consider (one) "np = 1" | (two) "np = 2" | (more) "2 < np" using np1 by linarith
  then show ?thesis
  proof cases
    case one
    with run first show ?thesis by simp
  next
    case two
    then have "i = 1" if "0 < i" "i < np" for i using that by simp
    moreover have "1 < np" using two by simp
    ultimately have "(\<exists>i. 0 < i \<and> i < np \<and> \<not> present h (page_addr h dbuf i)) \<longleftrightarrow> \<not> present h (page_addr h dbuf 1)"
      by (metis zero_less_one)
    with run first two show ?thesis by (auto simp: less_2_cases_iff)
  next
    case more
    have a: "page_addr h dbuf (Suc q) = ?pb + of_nat (Suc q * 2 ^ page_shift h)" for q by (simp add: page_addr_def P_def)
    note fill = mapped_fill_correct [OF v, of 1 0 "np - 1" lst ?pb, folded a]
    have "(\<exists>i. 0 < i \<and> i < np \<and> Q i) \<longleftrightarrow> (\<exists>q. q < np - 1 \<and> Q (Suc q))" for Q
      by (auto simp: gr0_conv_Suc less_diff_conv)
    then have idx: "(\<forall>q. 0 \<le> q \<and> q < 0 + (np - 1) \<longrightarrow> present h (page_addr h dbuf (Suc q))) \<longleftrightarrow>
        \<not> (\<exists>i. 0 < i \<and> i < np \<and> \<not> present h (page_addr h dbuf i))" by auto
    show ?thesis
    proof (cases "\<exists>i. 0 < i \<and> i < np \<and> \<not> present h (page_addr h dbuf i)")
      case True
      with fill idx room obtain lst' where "mapped_fill (v2p h) (page_shift h) ?pb (np - 1) 1 lst = Some (- EINVAL, lst')"
        by (auto split: if_splits)
      with run first more True show ?thesis by (simp add: Let_def)
    next
      case none: False
      have "mapped_fill (v2p h) (page_shift h) ?pb (np - 1) 1 lst =
          Some (0, map (\<lambda>q. resolved h (page_addr h dbuf (Suc q))) [0..<np - 1] @ drop (np - 1) lst)"
        using fill idx none room by simp
      with run first more none show ?thesis by (auto simp: Let_def nth_append)
    qed
  qed
qed

text \<open>
  The builder returns 0 exactly when every byte of the buffer is mapped, and then the entries
  describe the buffer byte for byte; otherwise it returns the lookup's error.
\<close>

lemma prep_contig_mapped_correct:
  assumes v: "valid h" and fits: "unat dbuf + unat n + 2 ^ page_shift h \<le> 2 ^ 64" and n: "0 < unat n"
  defines "P \<equiv> 2 ^ page_shift h :: nat"
  defines "np \<equiv> page_count P (unat dbuf mod P) (unat n)"
  assumes room: "np - 1 \<le> length lst" "length lst < 2 ^ 32"
  shows "\<exists>err lst' cmd'. prep_contig_mapped (v2p h) (2 ^ page_shift h) (int (page_shift h)) request dbuf n lst cmd = Some (err, lst', cmd') \<and>
    err = (if 1 + P div 8 < np \<or> (\<exists>j < unat n. \<not> present h (dbuf + of_nat j)) then - EINVAL else 0) \<and>
    (err = 0 \<longrightarrow> (\<forall>j < unat n. resolved h (dbuf + of_nat j) = prp_byte P (unat dbuf mod P) (unat n) cmd' lst' j))"
proof -
  have fits': "unat dbuf + unat n \<le> 2 ^ 64" using fits by simp
  have np1: "0 < np" using page_of_byte [of P 0 "unat n" "unat dbuf mod P"] n by (simp add: np_def P_def)
  have a0: "page_addr h dbuf 0 = dbuf" by (simp add: page_addr_def)
  have pages: "(\<exists>j < unat n. \<not> present h (dbuf + of_nat j)) \<longleftrightarrow> (\<exists>i < np. \<not> present h (page_addr h dbuf i))"
    using all_bytes_present [OF v n fits', folded P_def, folded np_def] by blast
  show ?thesis
  proof (cases "1 + P div 8 < np \<or> \<not> present h dbuf")
    case True
    then have "prep_contig_mapped (v2p h) (2 ^ page_shift h) (int (page_shift h)) request dbuf n lst cmd = Some (- EINVAL, lst, cmd)"
      unfolding mapped_start [OF v fits, folded P_def, folded np_def] by auto
    moreover have "1 + P div 8 < np \<or> (\<exists>i < np. \<not> present h (page_addr h dbuf i))" using True np1 a0 by metis
    ultimately show ?thesis unfolding pages by simp
  next
    case False
    then have c: "\<not> 1 + P div 8 < np" "present h dbuf" by simp_all
    have all: "(\<exists>i < np. \<not> present h (page_addr h dbuf i)) \<longleftrightarrow> (\<exists>i. 0 < i \<and> i < np \<and> \<not> present h (page_addr h dbuf i))"
      using c(2) a0 by (metis gr0I)
    obtain err lst' cmd' where r: "prep_contig_mapped (v2p h) (2 ^ page_shift h) (int (page_shift h)) request dbuf n lst cmd =
        Some (err, lst', cmd')" "err = (if \<exists>i. 0 < i \<and> i < np \<and> \<not> present h (page_addr h dbuf i) then - EINVAL else 0)"
      "err = 0 \<longrightarrow> cmd_prp1 cmd' = resolved h dbuf \<and> (\<forall>i. 0 < i \<and> i < np \<longrightarrow>
        (if np \<le> 2 then cmd_prp2 cmd' else lst' ! (i - 1)) = resolved h (page_addr h dbuf i))"
      using mapped_pages [OF v fits n, folded P_def, folded np_def, OF room c] by blast
    have "\<forall>j < unat n. resolved h (dbuf + of_nat j) = prp_byte P (unat dbuf mod P) (unat n) cmd' lst' j" if "err = 0"
    proof -
      have "\<forall>i < np. present h (page_addr h dbuf i)" using r(2) that all by (auto split: if_splits)
      from prp_bytes_resolved [OF v fits' n, folded P_def, folded np_def, OF this] r(3) that show ?thesis by blast
    qed
    with r(1,2) c(1) show ?thesis unfolding pages all by auto
  qed
qed

end

end
