(* ===== verification/Nvme_Request_Cuda.thy ===== *)
theory Nvme_Request_Cuda
  imports Mapped_Prps Cudamem_Mapping_Props Cudamem_Props Cudamem_Dma
begin

unbundle bit_operations_syntax

text \<open>
  The PRP builders of \<open>include/upcie/nvme/nvme_request_cuda.h\<close>: for buffers of the GPU heap (their
  definitions are in \<open>Cudamem_Dma\<close>) and for buffers registered with the mapping registry.
\<close>

section \<open>Buffers of the GPU heap\<close>

text \<open>C37: For a contiguous buffer of at most 513 pages anywhere in the GPU heap the builder succeeds and
  the address the controller derives for byte \<open>j\<close> is the physical address of byte \<open>j\<close>, also where
  the buffer crosses into a device page that lies elsewhere.\<close>

theorem nvme_prep_contig_cuda_describes_buffer:
  assumes "device_dma heap" "device_buffers.in_region heap dbuf n"
    and "page_count (dhpg heap) (unat dbuf mod dhpg heap) (unat n) \<le> 1 + min 512 (length lst)"
    and "length lst < 2 ^ 32"
  shows "\<exists>lst' cmd'. nvme_request_prep_command_prps_contig_cuda dbg request heap dbuf n lst cmd = Some (lst', cmd') \<and>
    (2 < page_count (dhpg heap) (unat dbuf mod dhpg heap) (unat n) \<longrightarrow> cmd_prp2 cmd' = req_prp_addr request) \<and>
    (\<forall>j < unat n. cudamem_heap_block_vtp dbg heap (dbuf + of_nat j) =
       Some (prp_byte (dhpg heap) (unat dbuf mod dhpg heap) (unat n) cmd' lst' j))"
proof -
  note g = device_buffers_sizes [OF assms(1)]
  from device_buffers.prep_contig_correct [OF g(6) assms(2) g(1-3), of lst dbg dbg request cmd] assms(3,4)
  show ?thesis
    unfolding nvme_request_prep_command_prps_contig_cuda_def retranslate_cuda_eq g(4) by blast
qed

theorem nvme_prep_contig_cuda_describes_buffer_witness:
  "\<exists>lst' cmd'. nvme_request_prep_command_prps_contig_cuda True
      \<lparr>req_cid = 7, req_user = 0, req_prp_addr = 0x1000, req_prp = 0x40001000\<rparr>
      example_device 0x7F000002E800 0x3000 (replicate 512 0) zero_command = Some (lst', cmd') \<and>
    (\<forall>j < 0x3000. cudamem_heap_block_vtp True example_device (0x7F000002E800 + of_nat j) =
       Some (prp_byte 4096 0x800 0x3000 cmd' lst' j))"
proof -
  have h: "device_buffers.in_region example_device 0x7F000002E800 0x3000"
    by (simp add: device_buffers.in_region_def example_device_facts)
  show ?thesis
    using nvme_prep_contig_cuda_describes_buffer [OF example_device_dma(1) h, of "replicate 512 0" True
        "\<lparr>req_cid = 7, req_user = 0, req_prp_addr = 0x1000, req_prp = 0x40001000\<rparr>" zero_command]
    by (simp add: example_device_facts page_count_def) blast
qed

section \<open>Registered buffers\<close>

definition nvme_request_prep_command_prps_contig_cuda_mapped ::
  "nvme_request \<Rightarrow> cudamem_mapping_registry \<Rightarrow> cudamem_config \<Rightarrow> u64 \<Rightarrow> u64 \<Rightarrow> u64 list \<Rightarrow> nvme_command \<Rightarrow>
   (int \<times> u64 list \<times> nvme_command) option" where
  "nvme_request_prep_command_prps_contig_cuda_mapped request registry config dbuf dbuf_nbytes lst cmd =
     prep_contig_mapped (cudamem_mapping_virt_to_phys registry) (dc_pagesize config) (dc_pagesize_shift config)
       request dbuf dbuf_nbytes lst cmd"

definition nvme_request_prep_command_prps_iov_cuda_mapped ::
  "bool \<Rightarrow> nvme_request \<Rightarrow> cudamem_mapping_registry \<Rightarrow> cudamem_config \<Rightarrow> (u64 \<times> u64) list \<Rightarrow> u64 list \<Rightarrow> nvme_command \<Rightarrow>
   (int \<times> u64 list \<times> nvme_command) option" where
  "nvme_request_prep_command_prps_iov_cuda_mapped dbg request registry config dvec lst cmd =
     prep_iov_mapped dbg (cudamem_mapping_virt_to_phys registry) (dc_pagesize config) request dvec lst cmd"

text \<open>A registry in use, with the configuration it was initialised with, is a lookup.\<close>

definition registry_in_use :: "cudamem_config \<times> cudamem_mapping_registry \<Rightarrow> bool" where
  "registry_in_use cr \<longleftrightarrow> (case cr of (config, reg) \<Rightarrow> map_config_ok config \<and>
     rg_gran_shift reg = dc_alloc_granularity_shift config \<and> counted config (rg_list reg) reg)"

lemma same_block:
  fixes v x P G :: nat
  assumes "P dvd G" "0 < G" "v mod P + x < P"
  shows "v mod G + x < G" "(v + x) div G = v div G" "(v + x) mod G = v mod G + x"
proof -
  obtain c where c: "G = P * c" using assms(1) by blast
  then have "0 < c" using assms(2) by auto
  have m: "v mod G = P * (v div P mod c) + v mod P" unfolding c by (rule mod_mult2_eq)
  have "P * (v div P mod c) + P \<le> P * c"
    using \<open>0 < c\<close> mod_less_divisor [of c "v div P"] by (metis Suc_leI mult_Suc_right mult_le_mono2 add.commute)
  then show lt: "v mod G + x < G" using m assms(3) c by linarith
  have e: "v + x = v mod G + x + v div G * G" using div_mult_mod_eq [of v G] by linarith
  show "(v + x) div G = v div G" using lt assms(2) unfolding e div_mult_self1 [OF less_imp_neq [OF assms(2), symmetric]] by simp
  show "(v + x) mod G = v mod G + x" using mod_mult_self1 [of "v mod G + x" "v div G" G] mod_less [OF lt] unfolding e [symmetric] by simp
qed

lemma registry_linear:
  assumes "registry_in_use (config, reg)" "cudamem_mapping_virt_to_phys reg va = Some (Inr a)"
    and "unat va mod 2 ^ nat (dc_pagesize_shift config) + x < 2 ^ nat (dc_pagesize_shift config)"
  shows "cudamem_mapping_virt_to_phys reg (va + of_nat x) = Some (Inr (a + of_nat x))"
proof -
  have inv: "counted config (rg_list reg) reg" and c: "map_config_ok config"
    and gr: "rg_gran_shift reg = dc_alloc_granularity_shift config" using assms(1) by (simp_all add: registry_in_use_def)
  have le: "nat (dc_pagesize_shift config) \<le> nat (rg_gran_shift reg)" "nat (dc_pagesize_shift config) \<le> 64"
    using c gr by (auto simp: map_config_ok_def)
  have "unat va + x < 2 ^ 64"
    using same_block(1) [OF le_imp_power_dvd [OF le(2)] _ assms(3)] unat_u64_bound [of va] by simp
  then have u: "unat (va + of_nat x) = unat va + x" by (simp add: unat_add_u64 unat_of_nat_u64)
  note b = same_block(2,3) [OF le_imp_power_dvd [OF le(1)] _ assms(3)]
  from assms(2) have va: "va \<noteq> 0" "physs reg (unat va div gran_of reg) \<noteq> 0"
    "a = physs reg (unat va div gran_of reg) + of_nat (unat va mod gran_of reg)"
    unfolding virt_to_phys_counted [OF inv] by (auto simp: Let_def split: if_splits)
  then have "va + of_nat x \<noteq> 0" using u by (metis add_is_0 unat_0_iff)
  with va b show ?thesis unfolding virt_to_phys_counted [OF inv] u by (simp add: Let_def add.assoc)
qed

interpretation mapped: page_lookup registry_in_use "\<lambda>(config, reg). cudamem_mapping_virt_to_phys reg"
    "\<lambda>(config, reg). nat (dc_pagesize_shift config)"
proof (unfold_locales, goal_cases)
  case (1 h va)
  then show ?case by (auto simp: registry_in_use_def virt_to_phys_counted Let_def split: prod.splits)
next
  case (2 h va a x)
  then show ?case using registry_linear by (auto split: prod.splits)
next
  case (3 h)
  then show ?case by (auto simp: registry_in_use_def map_config_ok_def split: prod.splits)
qed


lemma registry_after_in_use:
  assumes "registry_after os config ops reg0 k0 reg k" "dmabuf_lawful os fds" "map_config_ok config" "length ops < 2 ^ 32"
  shows "registry_in_use (config, reg)"
  using registry_afterD [OF assms] assms(3) by (simp add: registry_in_use_def)

text \<open>C38: For a registered buffer, looked up through a registry in any state its operations can reach,
  the builder returns 0 exactly when every byte of the buffer is mapped and the pages fit one list,
  and -EINVAL otherwise; when it returns 0, the address the controller derives for byte \<open>j\<close> is the
  physical address of byte \<open>j\<close>, at any offset into a page and across chunks.\<close>

theorem nvme_prep_contig_cuda_mapped_describes_buffer:
  fixes dbuf n :: u64
  assumes "registry_after os config ops reg0 k0 reg k" "dmabuf_lawful os fds" "map_config_ok config" "length ops < 2 ^ 32"
  defines "P \<equiv> nat (dc_pagesize config)"
  defines "np \<equiv> page_count P (unat dbuf mod P) (unat n)"
  assumes "unat dbuf + unat n + P \<le> 2 ^ 64" "0 < unat n" "np - 1 \<le> length lst" "length lst < 2 ^ 32"
  shows "\<exists>err lst' cmd'.
    nvme_request_prep_command_prps_contig_cuda_mapped request reg config dbuf n lst cmd = Some (err, lst', cmd') \<and>
    err = (if np \<le> 1 + P div 8 \<and> (\<forall>j < unat n. \<exists>a. cudamem_mapping_virt_to_phys reg (dbuf + of_nat j) = Some (Inr a))
      then 0 else - EINVAL) \<and>
    (err = 0 \<longrightarrow> (\<forall>j < unat n. cudamem_mapping_virt_to_phys reg (dbuf + of_nat j) =
      Some (Inr (prp_byte P (unat dbuf mod P) (unat n) cmd' lst' j))))"
proof -
  have v: "registry_in_use (config, reg)" by (rule registry_after_in_use [OF assms(1-4)])
  have sizes: "dc_pagesize config = 2 ^ nat (dc_pagesize_shift config)" "dc_pagesize_shift config = int (nat (dc_pagesize_shift config))"
    "P = 2 ^ nat (dc_pagesize_shift config)"
    using assms(3) by (auto simp: map_config_ok_def P_def nat_power_eq)
  obtain err lst' cmd' where r: "nvme_request_prep_command_prps_contig_cuda_mapped request reg config dbuf n lst cmd = Some (err, lst', cmd')"
    "err = (if 1 + P div 8 < np \<or> (\<exists>j < unat n. \<not> mapped.present (config, reg) (dbuf + of_nat j)) then - EINVAL else 0)"
    "err = 0 \<longrightarrow> (\<forall>j < unat n. mapped.resolved (config, reg) (dbuf + of_nat j) = prp_byte P (unat dbuf mod P) (unat n) cmd' lst' j)"
    using mapped.prep_contig_mapped_correct [OF v, of dbuf n lst request cmd] assms(7-10)
    unfolding nvme_request_prep_command_prps_contig_cuda_mapped_def np_def prod.case sizes(3) sizes(1,2) [symmetric] by blast
  have p: "mapped.present (config, reg) va \<longleftrightarrow> (\<exists>a. cudamem_mapping_virt_to_phys reg va = Some (Inr a))" for va
    by (simp add: mapped.present_def)
  have l: "cudamem_mapping_virt_to_phys reg va = Some (Inr (mapped.resolved (config, reg) va))" if "mapped.present (config, reg) va" for va
    using mapped.lookup_eq [OF v, of va] that by simp
  have e: "err = (if np \<le> 1 + P div 8 \<and> (\<forall>j < unat n. mapped.present (config, reg) (dbuf + of_nat j)) then 0 else - EINVAL)"
    unfolding r(2) by (auto simp only: not_less not_le split: if_split)
  then have "err = 0 \<longrightarrow> (\<forall>j < unat n. mapped.present (config, reg) (dbuf + of_nat j))" by (simp split: if_split)
  then have "err = 0 \<longrightarrow> (\<forall>j < unat n. cudamem_mapping_virt_to_phys reg (dbuf + of_nat j) =
      Some (Inr (prp_byte P (unat dbuf mod P) (unat n) cmd' lst' j)))"
    using r(3) l by metis
  with r(1) e show ?thesis unfolding p by blast
qed


theorem nvme_prep_contig_cuda_mapped_describes_buffer_witness:
  "\<exists>lst' cmd'. nvme_request_prep_command_prps_contig_cuda_mapped
      \<lparr>req_cid = 7, req_user = 0, req_prp_addr = 0x1000, req_prp = 0x40001000\<rparr>
      example_registered example_map_config 5000 6000 (replicate 512 0) zero_command = Some (0, lst', cmd') \<and>
    (\<forall>j < 6000. cudamem_mapping_virt_to_phys example_registered (5000 + of_nat j) =
      Some (Inr (prp_byte 4096 904 6000 cmd' lst' j)))"
proof -
  have P: "nat (dc_pagesize example_map_config) = 4096" by (simp add: example_map_config_def)
  have inv: "counted example_map_config (rg_list example_registered) example_registered"
    using registry_afterD(1) [OF example_registered_run ledger_lawful example_map_config] by simp
  have "\<exists>a. cudamem_mapping_virt_to_phys example_registered (5000 + of_nat j) = Some (Inr a)" if "j < 6000" for j
  proof -
    have u: "unat (5000 + of_nat j :: u64) = 5000 + j" using that by (simp add: unat_add_u64 unat_of_nat_u64)
    then have "(5000 + of_nat j :: u64) \<noteq> 0" by auto
    moreover have "gran_of example_registered = 2 ^ 14"
      "(5000 + j) div 2 ^ 14 = 0" "physs example_registered 0 = 2 ^ 30"
      using that by (simp_all add: example_registered_def example_registry_def)
    ultimately show ?thesis unfolding virt_to_phys_counted [OF inv] u by (simp add: Let_def)
  qed
  with nvme_prep_contig_cuda_mapped_describes_buffer [OF example_registered_run ledger_lawful example_map_config, of 5000 6000
      "replicate 512 0" "\<lparr>req_cid = 7, req_user = 0, req_prp_addr = 0x1000, req_prp = 0x40001000\<rparr>" zero_command]
  show ?thesis unfolding P by (simp add: page_count_def)
qed

end
