(* ===== verification/Hipmem.thy ===== *)
theory Hipmem
  imports Gpu_Config Cudamem_Setup Nvme_Request_Cuda
begin

unbundle bit_operations_syntax

text \<open>
  The HIP variants: \<open>include/upcie/hipmem_heap.h\<close>, \<open>hipmem_dma.h\<close>, \<open>hipmem_mapping.h\<close> and
  \<open>nvme/nvme_request_hip.h\<close>. Apart from the names of types, functions and runtime calls these headers
  are the CUDA ones line by line, with one difference in the code, the rounding of the heap's
  size, so their definitions are the CUDA ones with the HIP runtime in place of the driver, and every lemma about
  those holds of these.
\<close>

section \<open>Types\<close>

type_synonym hipmem_config = cudamem_config
type_synonym hipmem_heap_block = cudamem_heap_block
type_synonym hipmem_heap = cudamem_heap
type_synonym hipmem_mapping_chunk_meta = cudamem_mapping_chunk_meta
type_synonym hipmem_mapping_registration = cudamem_mapping_registration
type_synonym hipmem_mapping_registry = cudamem_mapping_registry

section \<open>The heap\<close>

text \<open>The size is rounded up to 2 MiB before anything is allocated.\<close>

definition hipmem_round :: "u64 \<Rightarrow> u64" where
  "hipmem_round sz = (sz + 2 * 1024 * 1024 - 1) AND NOT (2 * 1024 * 1024 - 1)"

definition hipmem_heap_init ::
  "('k, 'x) gpu_os_scheme \<Rightarrow> u64 \<Rightarrow> hipmem_config \<Rightarrow> 'k \<Rightarrow> (int \<times> hipmem_heap \<times> 'k) option" where
  "hipmem_heap_init os sz config k = cudamem_heap_init os (hipmem_round sz) config k"

definition hipmem_heap_term :: "('k, 'x) gpu_os_scheme \<Rightarrow> hipmem_heap \<Rightarrow> 'k \<Rightarrow> 'k" where
  "hipmem_heap_term = cudamem_heap_term"
definition hipmem_heap_block_free :: "hipmem_heap \<Rightarrow> u64 \<Rightarrow> hipmem_heap" where
  "hipmem_heap_block_free = cudamem_heap_block_free"
definition hipmem_heap_block_alloc_array_aligned ::
  "('k, 'x) os_scheme \<Rightarrow> hipmem_heap \<Rightarrow> u64 \<Rightarrow> u64 \<Rightarrow> u64 \<Rightarrow> 'k \<Rightarrow> ((int + u64) \<times> hipmem_heap \<times> 'k) option" where
  "hipmem_heap_block_alloc_array_aligned = cudamem_heap_block_alloc_array_aligned"
definition hipmem_heap_block_alloc_array ::
  "('k, 'x) os_scheme \<Rightarrow> hipmem_heap \<Rightarrow> u64 \<Rightarrow> u64 \<Rightarrow> 'k \<Rightarrow> ((int + u64) \<times> hipmem_heap \<times> 'k) option" where
  "hipmem_heap_block_alloc_array = cudamem_heap_block_alloc_array"
definition hipmem_heap_block_alloc_aligned ::
  "('k, 'x) os_scheme \<Rightarrow> hipmem_heap \<Rightarrow> u64 \<Rightarrow> u64 \<Rightarrow> 'k \<Rightarrow> ((int + u64) \<times> hipmem_heap \<times> 'k) option" where
  "hipmem_heap_block_alloc_aligned = cudamem_heap_block_alloc_aligned"
definition hipmem_heap_block_alloc ::
  "('k, 'x) os_scheme \<Rightarrow> hipmem_heap \<Rightarrow> u64 \<Rightarrow> 'k \<Rightarrow> ((int + u64) \<times> hipmem_heap \<times> 'k) option" where
  "hipmem_heap_block_alloc = cudamem_heap_block_alloc"
definition hipmem_heap_contains :: "hipmem_heap \<Rightarrow> u64 \<Rightarrow> bool" where
  "hipmem_heap_contains = cudamem_heap_contains"
definition hipmem_heap_block_virt_to_phys :: "hipmem_heap \<Rightarrow> u64 \<Rightarrow> (int + u64) option" where
  "hipmem_heap_block_virt_to_phys = cudamem_heap_block_virt_to_phys"
definition hipmem_heap_block_vtp :: "bool \<Rightarrow> hipmem_heap \<Rightarrow> u64 \<Rightarrow> u64 option" where
  "hipmem_heap_block_vtp = cudamem_heap_block_vtp"

section \<open>The DMA interface\<close>

definition hipmem_dma_free :: "hipmem_heap \<Rightarrow> u64 \<Rightarrow> hipmem_heap" where
  "hipmem_dma_free = cudamem_dma_free"
definition hipmem_dma_malloc ::
  "('k, 'x) os_scheme \<Rightarrow> hipmem_heap \<Rightarrow> u64 \<Rightarrow> 'k \<Rightarrow> ((int + u64) \<times> hipmem_heap \<times> 'k) option" where
  "hipmem_dma_malloc = cudamem_dma_malloc"
definition hipmem_dma_malloc_aligned ::
  "('k, 'x) os_scheme \<Rightarrow> hipmem_heap \<Rightarrow> u64 \<Rightarrow> u64 \<Rightarrow> 'k \<Rightarrow> ((int + u64) \<times> hipmem_heap \<times> 'k) option" where
  "hipmem_dma_malloc_aligned = cudamem_dma_malloc_aligned"
definition hipmem_dma_alloc_array ::
  "('k, 'x) os_scheme \<Rightarrow> hipmem_heap \<Rightarrow> u64 \<Rightarrow> u64 \<Rightarrow> 'k \<Rightarrow> ((int + u64) \<times> hipmem_heap \<times> 'k) option" where
  "hipmem_dma_alloc_array = cudamem_dma_alloc_array"
definition hipmem_dma_v2p :: "bool \<Rightarrow> hipmem_heap \<Rightarrow> u64 \<Rightarrow> u64 option" where
  "hipmem_dma_v2p = cudamem_dma_v2p"

section \<open>The mapping registry\<close>

definition HIPMEM_MAPPING_VA_BITS :: nat where "HIPMEM_MAPPING_VA_BITS = CUDAMEM_MAPPING_VA_BITS"

definition hipmem_mapping_registry_init ::
  "('k, 'x) map_os_scheme \<Rightarrow> hipmem_mapping_registry \<Rightarrow> hipmem_config \<Rightarrow> 'k \<Rightarrow>
   (int \<times> hipmem_mapping_registry \<times> 'k) option" where
  "hipmem_mapping_registry_init = cudamem_mapping_registry_init"
definition hipmem_mapping_chunk_deref ::
  "('k, 'x) dmabuf_os_scheme \<Rightarrow> hipmem_mapping_registry \<Rightarrow> u64 \<Rightarrow> u64 \<Rightarrow> 'k \<Rightarrow> (hipmem_mapping_registry \<times> 'k) option" where
  "hipmem_mapping_chunk_deref = cudamem_mapping_chunk_deref"
definition hipmem_mapping_clear ::
  "('k, 'x) dmabuf_os_scheme \<Rightarrow> hipmem_mapping_registry \<Rightarrow> 'k \<Rightarrow> (hipmem_mapping_registry \<times> 'k) option" where
  "hipmem_mapping_clear = cudamem_mapping_clear"
definition hipmem_mapping_registry_term ::
  "('k, 'x) map_os_scheme \<Rightarrow> hipmem_mapping_registry \<Rightarrow> 'k \<Rightarrow> (hipmem_mapping_registry \<times> 'k) option" where
  "hipmem_mapping_registry_term = cudamem_mapping_registry_term"
definition hipmem_mapping_chunk_populate ::
  "('k, 'x) gpu_os_scheme \<Rightarrow> u64 \<Rightarrow> hipmem_config \<Rightarrow> 'k \<Rightarrow> ((int + u64 \<times> dmabuf) \<times> 'k) option" where
  "hipmem_mapping_chunk_populate = cudamem_mapping_chunk_populate"
definition hipmem_mapping_add ::
  "('k, 'x) gpu_os_scheme \<Rightarrow> hipmem_mapping_registry \<Rightarrow> hipmem_config \<Rightarrow> u64 \<Rightarrow> u64 \<Rightarrow> 'k \<Rightarrow>
   (int \<times> hipmem_mapping_registry \<times> 'k) option" where
  "hipmem_mapping_add = cudamem_mapping_add"
definition hipmem_mapping_remove ::
  "('k, 'x) dmabuf_os_scheme \<Rightarrow> hipmem_mapping_registry \<Rightarrow> u64 \<Rightarrow> 'k \<Rightarrow> (int \<times> hipmem_mapping_registry \<times> 'k) option" where
  "hipmem_mapping_remove = cudamem_mapping_remove"
definition hipmem_mapping_virt_to_phys :: "hipmem_mapping_registry \<Rightarrow> u64 \<Rightarrow> (int + u64) option" where
  "hipmem_mapping_virt_to_phys = cudamem_mapping_virt_to_phys"

section \<open>PRP lists\<close>

definition nvme_request_prp_retranslate_hip :: "bool \<Rightarrow> hipmem_heap \<Rightarrow> u64 \<Rightarrow> u64 option" where
  "nvme_request_prp_retranslate_hip = nvme_request_prp_retranslate_cuda"
definition nvme_request_prep_command_prps_contig_hip ::
  "bool \<Rightarrow> nvme_request \<Rightarrow> hipmem_heap \<Rightarrow> u64 \<Rightarrow> u64 \<Rightarrow> u64 list \<Rightarrow> nvme_command \<Rightarrow> (u64 list \<times> nvme_command) option" where
  "nvme_request_prep_command_prps_contig_hip = nvme_request_prep_command_prps_contig_cuda"
definition nvme_request_prep_command_prps_iov_hip ::
  "bool \<Rightarrow> nvme_request \<Rightarrow> hipmem_heap \<Rightarrow> (u64 \<times> u64) list \<Rightarrow> u64 list \<Rightarrow> nvme_command \<Rightarrow> (u64 list \<times> nvme_command) option" where
  "nvme_request_prep_command_prps_iov_hip = nvme_request_prep_command_prps_iov_cuda"
definition nvme_request_prep_command_prps_contig_hip_mapped ::
  "nvme_request \<Rightarrow> hipmem_mapping_registry \<Rightarrow> hipmem_config \<Rightarrow> u64 \<Rightarrow> u64 \<Rightarrow> u64 list \<Rightarrow> nvme_command \<Rightarrow>
   (int \<times> u64 list \<times> nvme_command) option" where
  "nvme_request_prep_command_prps_contig_hip_mapped = nvme_request_prep_command_prps_contig_cuda_mapped"
definition nvme_request_prep_command_prps_iov_hip_mapped ::
  "bool \<Rightarrow> nvme_request \<Rightarrow> hipmem_mapping_registry \<Rightarrow> hipmem_config \<Rightarrow> (u64 \<times> u64) list \<Rightarrow> u64 list \<Rightarrow> nvme_command \<Rightarrow>
   (int \<times> u64 list \<times> nvme_command) option" where
  "nvme_request_prep_command_prps_iov_hip_mapped = nvme_request_prep_command_prps_iov_cuda_mapped"

section \<open>Accepted configurations and heaps\<close>

lemma unat_hipmem_round:
  assumes "unat sz + 2 ^ 21 \<le> 2 ^ 64"
  shows "unat (hipmem_round sz) = (unat sz + 2 ^ 21 - 1) div 2 ^ 21 * 2 ^ 21"
proof -
  have "hipmem_round sz = (sz + 2 ^ 21 - 1) AND NOT (2 ^ 21 - 1)" by (simp add: hipmem_round_def)
  then show ?thesis using unat_plus_page [OF assms] by (simp only: unat_round_down)
qed

text \<open>A HIP configuration that was initialised with result 0 on a machine with pages of 4 KiB is one that both
  the heap and the mapping registry are correct for, with every size 4 KiB; and a heap set up
  with it has the requested size rounded up to whole 2 MiB, all of it free.\<close>

theorem hipmem_init_ok:
  assumes "hipmem_config_init dbg fs q config gpu_id k = Some (0, config', k')" "gq_pagesize q = 4096"
    and "gpu_lawful os fds mem" "0 < unat sz" "unat sz + 2 ^ 21 \<le> 2 ^ 64"
    and "\<And>v j. gpu_alloc os j0 (hipmem_round sz) = (Inr v, j) \<Longrightarrow> 0 < unat v \<and> unat v + (unat sz + 2 ^ 21) < 2 ^ 64"
    and "hipmem_heap_init os sz config' j0 = Some (0, heap, j1)"
  shows "cudamem_config_ok config' \<and> map_config_ok config' \<and> dc_alloc_granularity config' = 4096 \<and>
    device_ok heap \<and> device_lut_ok heap \<and> device_payloads heap = [] \<and>
    unat sz \<le> unat (dh_size heap) \<and> unat (dh_size heap) < unat sz + 2 ^ 21 \<and> 2 ^ 21 dvd unat (dh_size heap)"
proof -
  have s: "upcie_util_shift_from_size dbg 4096 = Some 12" using shift_from_power [of 12 dbg] by simp
  let ?c1 = "config\<lparr>dc_pagesize := 4096, dc_pagesize_shift := 12, dc_device_pagesize := 4096, dc_device_pagesize_shift := 12\<rparr>"
  have c1: "config_pages dbg (gq_pagesize q) 4096 config = Some ?c1"
    by (simp add: config_pages_def assms(2) s)
  obtain r config2 k1 where m: "config_memory fs q gpu_id ?c1 k = (r, config2, k1)" by (cases "config_memory fs q gpu_id ?c1 k")
  note run = assms(1) [unfolded hipmem_config_init_def c1 bind.bind_lunit m prod.case]
  obtain dev where r: "r = Inr dev"
  proof (cases r)
    case (Inl e)
    with run have "e = 0" by simp
    with m Inl have False
      by (auto simp: config_memory_def Let_def split: prod.splits sum.splits if_splits)
    then show thesis ..
  qed
  note pages = config_memory_pages [OF m [unfolded r]]
  have c': "config' = config2\<lparr>dc_alloc_granularity := 4096, dc_alloc_granularity_shift := 12\<rparr>"
    using run pages by (simp add: r s)
  have ok: "cudamem_config_ok config'" "map_config_ok config'" "dc_alloc_granularity config' = 4096"
    by (simp_all add: c' pages cudamem_config_ok_def map_config_ok_def CUDAMEM_MAPPING_VA_BITS_def)
  let ?sz = "hipmem_round sz"
  have u: "unat ?sz = page_round (2 ^ 21) (unat sz)"
    unfolding unat_hipmem_round [OF assms(5)] page_round_def ..
  have ge: "unat sz \<le> unat ?sz" unfolding u by (rule page_round_ge) simp
  have lt: "unat ?sz < unat sz + 2 ^ 21"
    using div_times_less_eq_dividend [of "unat sz + 2 ^ 21 - 1" "2 ^ 21"] unfolding u page_round_def by simp
  have "2 ^ 21 dvd unat ?sz" unfolding u page_round_def by (rule dvd_triv_right)
  have page: "0 < dc_device_pagesize config'" "dc_device_pagesize config' < 2 ^ 31" by (simp_all add: c' pages)
  obtain v buf lut ja where h: "heap = fresh_device v ?sz config' buf lut" "gpu_alloc os j0 ?sz = (Inr v, ja)"
    "length lut = unat (?sz div size_of_int (dc_device_pagesize config'))"
    using assms(3) page
    by (cases rule: heap_init_result [where k = j0 and sz = ?sz]) (use assms(7) in \<open>auto simp: hipmem_heap_init_def\<close>)
  have nz: "?sz \<noteq> 0" using ge assms(4) by auto
  have sp: "space_ok v (unat ?sz)" using assms(6) [OF h(2)] lt by (simp add: space_ok_def)
  have "unat (size_of_int (dc_device_pagesize config')) = nat (dc_device_pagesize config')" using page by (simp add: unat_size_of_int)
  then have "length lut = unat ?sz div nat (dc_device_pagesize config')" using h(3) by (simp add: unat_div)
  from fresh_device_lut [OF ok(1) sp this] fresh_device_ok [OF ok(1) sp nz, of buf lut] ok ge lt \<open>2 ^ 21 dvd unat ?sz\<close>
  show ?thesis by (simp add: h(1)) (simp add: fresh_device_def)
qed


definition hip_os :: "(int list \<times> u64 list) gpu_os" where
  "hip_os = lab_os\<lparr>udmabuf_get_map := \<lambda>k u f n. (if n = 0 then Inr [] else Inr [(2 ^ 30, 0x200000)], k)\<rparr>"

lemma hip_lawful: "gpu_lawful hip_os (\<lambda>(f, m). set f) (\<lambda>(f, m). set m)"
  by (auto simp: hip_os_def gpu_lawful_def dmabuf_lawful_def os_lawful_def lab_os_def next_fd Suc_le_eq unat_gt_0)

definition example_hip_config :: hipmem_config where
  "example_hip_config = \<lparr>dc_pagesize = 4096, dc_pagesize_shift = 12, dc_device_pagesize = 4096, dc_device_pagesize_shift = 12,
     dc_device_memsize = 0x4000, dc_bar1_size = 0x4000, dc_alloc_granularity = 4096, dc_alloc_granularity_shift = 12\<rparr>"

lemma small_gpu_hip: "hipmem_config_init dbg bus_os small_gpu blank_config 0 ([], []) = Some (0, example_hip_config, ([], []))"
proof -
  have "upcie_util_shift_from_size dbg 4096 = Some 12" using shift_from_power [of 12 dbg] by simp
  then show ?thesis using small_gpu_bar
    by (simp add: hipmem_config_init_def config_pages_def config_memory_def small_gpu_def blank_config_def Let_def example_hip_config_def)
qed

lemma example_hip_heap:
  "\<exists>heap. hipmem_heap_init hip_os 100 example_hip_config ([], []) = Some (0, heap, ([1], [0x7F0000000000]))"
proof -
  let ?buf = "\<lparr>dm_fd = 1, dm_npages = 1, dm_pages = [(2 ^ 30, 0x200000)]\<rparr>"
  have sz: "hipmem_round 100 = 0x200000" by (simp add: hipmem_round_def)
  have attach: "dmabuf_attach hip_os 1 no_dmabuf ([1], [0x7F0000000000]) = Some (0, ?buf, ([1], [0x7F0000000000]))"
    by (simp add: hip_os_def lab_os_def dmabuf_attach_def attach_mapped_def next_fd_def)
  have ph: "length (dmabuf_phys 4096 ?buf) = 512" by (simp add: dmabuf_phys_def entry_pages_def)
  have "dmabuf_get_lut ?buf 512 (replicate 512 0) 4096 = Some (0, dmabuf_phys 4096 ?buf)"
    using get_lut_result [of ?buf 4096 "replicate 512 0" 512] ph by (simp add: dmabuf_ok_def)
  then have "init_attached hip_os \<lparr>dh_vaddr = 0x7F0000000000, dh_freelist = [\<lparr>db_vaddr = 0x7F0000000000, db_size = 0x200000, db_free = True\<rparr>],
      dh_dmabuf = ?buf, dh_config = example_hip_config, dh_size = 0x200000, dh_nphys = 0, dh_phys_lut = []\<rparr> ([1], [0x7F0000000000]) =
    Some (0, \<lparr>dh_vaddr = 0x7F0000000000, dh_freelist = [\<lparr>db_vaddr = 0x7F0000000000, db_size = 0x200000, db_free = True\<rparr>],
      dh_dmabuf = ?buf, dh_config = example_hip_config, dh_size = 0x200000, dh_nphys = 512, dh_phys_lut = dmabuf_phys 4096 ?buf\<rparr>, ([1], [0x7F0000000000]))"
    by (simp add: init_attached_def example_hip_config_def hip_os_def lab_os_def Let_def)
  moreover have "gpu_alloc hip_os ([], []) 0x200000 = (Inr 0x7F0000000000, ([], [0x7F0000000000]))"
    "gpu_export hip_os ([], [0x7F0000000000]) a n = (Inr 1, ([1], [0x7F0000000000]))" "os_malloc hip_os kk = (True, kk)" for a n kk
    by (simp_all add: hip_os_def lab_os_def next_fd_def)
  ultimately show ?thesis using attach
    by (simp add: hipmem_heap_init_def cudamem_heap_init_def sz zero_device_def Let_def)
qed

theorem hipmem_init_ok_witness:
  "\<exists>heap. hipmem_heap_init hip_os 100 example_hip_config ([], []) = Some (0, heap, ([1], [0x7F0000000000])) \<and>
    cudamem_config_ok example_hip_config \<and> map_config_ok example_hip_config \<and> device_ok heap \<and> 100 \<le> unat (dh_size heap)"
proof -
  obtain heap where h: "hipmem_heap_init hip_os 100 example_hip_config ([], []) = Some (0, heap, ([1], [0x7F0000000000]))"
    using example_hip_heap by blast
  have q: "gq_pagesize small_gpu = 4096" by (simp add: small_gpu_def)
  have a: "0 < unat v \<and> unat v + (unat (100 :: u64) + 2 ^ 21) < 2 ^ 64" if "gpu_alloc hip_os ([], []) (hipmem_round 100) = (Inr v, j)" for v j
    using that by (auto simp: hip_os_def lab_os_def)
  have "0 < unat (100 :: u64)" "unat (100 :: u64) + 2 ^ 21 \<le> 2 ^ 64" by simp_all
  from hipmem_init_ok [OF small_gpu_hip [of True] q hip_lawful this a h] h show ?thesis by auto
qed

end
