(* ===== verification/Heap_Owner.thy ===== *)
theory Heap_Owner
  imports Nvme_Submit "HOL-Library.Multiset"
begin

text \<open>
  Who holds the memory of the heap: the pointers that have been handed out, whatever order the
  heap keeps them in. A queue pair holds three of them, its two rings and the pages of its request
  pool. With it, set-up, tear-down and submission in the form that the controller needs, where
  several queue pairs and buffers share one heap.
\<close>

section \<open>Pointers that are handed out\<close>

definition owned_by :: "(nat \<times> nat) list \<Rightarrow> (u64 \<times> nat) list \<Rightarrow> bool" where
  "owned_by L ps \<longleftrightarrow> distinct (map fst ps) \<and> fst ` set L = unat ` fst ` set ps \<and>
     (\<forall>(p, n) \<in> set ps. \<exists>e. (unat p, e) \<in> set L \<and> unat p + n \<le> e)"

definition heap_owns :: "hostmem_heap \<Rightarrow> (u64 \<times> nat) list \<Rightarrow> bool" where
  "heap_owns heap ps \<longleftrightarrow> (\<exists>L. heap_live heap L \<and> owned_by L ps)"

lemma owned_by_perm: "mset ps = mset ps' \<Longrightarrow> owned_by L ps = owned_by L ps'"
proof -
  assume m: "mset ps = mset ps'"
  then have "mset (map fst ps) = mset (map fst ps')" by simp
  then have "distinct (map fst ps) = distinct (map fst ps')"
    by (metis distinct_count_atmost_1 mset_eq_setD)
  then show ?thesis using mset_eq_setD [OF m] by (simp add: owned_by_def)
qed

lemma heap_owns_perm: "mset ps = mset ps' \<Longrightarrow> heap_owns heap ps = heap_owns heap ps'"
  unfolding heap_owns_def using owned_by_perm by blast

lemma owned_byD: "owned_by L ps \<Longrightarrow> x \<in> set ps \<Longrightarrow> \<exists>e. (unat (fst x), e) \<in> set L \<and> unat (fst x) + snd x \<le> e"
  by (cases x) (auto simp: owned_by_def)

lemma owned_by_take:
  assumes "owned_by L ps" "unat p \<in> fst ` set L'" "filter (\<lambda>x. fst x \<noteq> unat p) L' = L"
    and "\<exists>e. (unat p, e) \<in> set L' \<and> unat p + n \<le> e"
  shows "owned_by L' ((p, n) # ps)"
proof -
  have s: "fst ` set L = fst ` set L' - {unat p}" using assms(3) by auto
  moreover have u: "unat ` fst ` set ps = fst ` set L" using assms(1) by (simp add: owned_by_def)
  ultimately have "unat p \<notin> unat ` fst ` set ps" by simp
  then have "p \<notin> fst ` set ps" by blast
  moreover have "fst ` set L' = insert (unat p) (unat ` fst ` set ps)" using s u assms(2) by auto
  moreover have "\<exists>e. (unat (fst x), e) \<in> set L' \<and> unat (fst x) + snd x \<le> e" if "x \<in> set ps" for x
    using owned_byD [OF assms(1) that] assms(3) by auto
  ultimately show ?thesis using assms(1,4) by (auto simp: owned_by_def)
qed

lemma owned_by_drop:
  assumes "owned_by L ((p, n) # ps)"
  shows "unat p \<in> fst ` set L" "owned_by (filter (\<lambda>x. fst x \<noteq> unat p) L) ps"
proof -
  show "unat p \<in> fst ` set L" using assms by (simp add: owned_by_def)
  have "p \<notin> fst ` set ps" using assms by (simp add: owned_by_def)
  then have p: "unat p \<notin> unat ` fst ` set ps" by (metis imageE word_unat_eq_iff)
  have "fst ` set (filter (\<lambda>x. fst x \<noteq> unat p) L) = fst ` set L - {unat p}" by auto
  also have "\<dots> = unat ` fst ` set ps" using assms p by (auto simp: owned_by_def)
  finally have "fst ` set (filter (\<lambda>x. fst x \<noteq> unat p) L) = unat ` fst ` set ps" .
  moreover have "\<exists>e. (unat (fst x), e) \<in> set (filter (\<lambda>x. fst x \<noteq> unat p) L) \<and> unat (fst x) + snd x \<le> e"
    if "x \<in> set ps" for x
  proof -
    have "unat (fst x) \<noteq> unat p" using p that by (metis imageI)
    then show ?thesis using owned_byD [OF assms, of x] that by auto
  qed
  ultimately show "owned_by (filter (\<lambda>x. fst x \<noteq> unat p) L) ps" using assms by (auto simp: owned_by_def)
qed

text \<open>Memory that is held lies in the heap, and no two pieces of it share a byte.\<close>

lemma heap_owns_inside:
  assumes "heap_owns heap ps" "(p, n) \<in> set ps"
  shows "unat (virt heap) + pg heap \<le> unat p" "unat p + n \<le> unat (virt heap) + unat (memsize heap)"
proof -
  obtain L e where L: "heap_live heap L" "(unat p, e) \<in> set L" "unat p + n \<le> e"
    using assms owned_byD unfolding heap_owns_def by fastforce
  from heap_live_bounds [OF L(1,2)] L(3) show "unat (virt heap) + pg heap \<le> unat p"
    "unat p + n \<le> unat (virt heap) + unat (memsize heap)" by simp_all
qed

definition disjoint :: "u64 \<times> nat \<Rightarrow> u64 \<times> nat \<Rightarrow> bool" where
  "disjoint x y \<longleftrightarrow> fst x \<noteq> fst y \<and> (unat (fst x) + snd x \<le> unat (fst y) \<or> unat (fst y) + snd y \<le> unat (fst x))"

lemma heap_owns_disjoint:
  assumes "heap_owns heap ps"
  shows "sorted_wrt disjoint ps"
  unfolding sorted_wrt_iff_nth_less
proof (intro allI impI)
  fix i j assume ij: "i < j" "j < length ps"
  obtain L where L: "heap_live heap L" "owned_by L ps" using assms by (auto simp: heap_owns_def)
  have ne: "fst (ps ! i) \<noteq> fst (ps ! j)"
    using L(2) ij nth_eq_iff_index_eq [of "map fst ps" i j] by (auto simp: owned_by_def)
  have "ps ! i \<in> set ps" "ps ! j \<in> set ps" using ij by auto
  from owned_byD [OF L(2) this(1)] owned_byD [OF L(2) this(2)]
  obtain e f where "(unat (fst (ps ! i)), e) \<in> set L" "unat (fst (ps ! i)) + snd (ps ! i) \<le> e"
    "(unat (fst (ps ! j)), f) \<in> set L" "unat (fst (ps ! j)) + snd (ps ! j) \<le> f" by blast
  with ordered_apart [OF heap_live_order [OF L(1)], of "(unat (fst (ps ! i)), e)" "(unat (fst (ps ! j)), f)"] ne
  show "disjoint (ps ! i) (ps ! j)" by (auto simp: disjoint_def word_unat_eq_iff)
qed

lemma heap_owns_free:
  assumes "heap_owns heap ((p, n) # ps)"
  obtains heap' where "hostmem_dma_free heap p = Some heap'" "same_heap heap heap'" "heap_owns heap' ps"
proof -
  obtain L where L: "heap_live heap L" "owned_by L ((p, n) # ps)" using assms by (auto simp: heap_owns_def)
  from heap_free_live [OF L(1) owned_by_drop(1) [OF L(2)]] owned_by_drop(2) [OF L(2)] that show thesis
    by (auto simp: heap_owns_def hostmem_dma_free_def)
qed

lemma heap_owns_malloc:
  assumes "heap_owns heap ps" "dma_size_ok n"
  obtains (fails) e heap' where "hostmem_dma_malloc dbg heap n = Some (Inl e, heap')" "0 < e"
      "same_heap heap heap'" "heap_owns heap' ps"
    | (gives) p heap' where "hostmem_dma_malloc dbg heap n = Some (Inr p, heap')" "p \<noteq> 0"
      "same_heap heap heap'" "heap_owns heap' ((p, unat n) # ps)"
proof -
  obtain L where L: "heap_live heap L" "owned_by L ps" using assms(1) by (auto simp: heap_owns_def)
  have ok: "hostmem_request_ok heap (Bytes n)" using assms(2) by simp
  from hostmem_request_live [OF L(1) ok, of dbg] obtain x heap' where
    x: "hostmem_request dbg heap (Bytes n) = Some (x, heap')" "same_heap heap heap'"
    "alloc_outcome heap' L (nbytes (Bytes n)) x \<or> x = Inl EINVAL \<and> heap' = heap" by auto
  show thesis
  proof (cases x)
    case (Inl e)
    with x L show thesis
      by (intro fails [of e heap']) (auto simp: alloc_outcome_def heap_owns_def)
  next
    case (Inr p)
    with x(1) have a: "hostmem_request dbg heap (Bytes n) = Some (Inr p, heap')" by simp
    obtain L' where "heap_live heap' L'" "p \<noteq> 0" "unat p \<in> fst ` set L'" "filter (\<lambda>x. fst x \<noteq> unat p) L' = L"
      "\<exists>e. (unat p, e) \<in> set L' \<and> unat p + nbytes (Bytes n) \<le> e"
      using hostmem.alloc_live [OF L(1) ok a] by blast
    with owned_by_take [OF L(2), of p L' "unat n"] have "owned_by L' ((p, unat n) # ps)" by simp
    with \<open>heap_live heap' L'\<close> \<open>p \<noteq> 0\<close> x(2) a that(2) show thesis by (auto simp: heap_owns_def)
  qed
qed

section \<open>What a queue pair holds\<close>

text \<open>A queue pair that can be used: its pool lives, its rings are in bounds.\<close>

fun qpair_pool :: "nvme_qpair \<Rightarrow> nvme_request_pool" where
  "qpair_pool qp = (case qp_rpool qp of Live pool \<Rightarrow> pool | _ \<Rightarrow> zero_pool)"

definition qpair_live :: "nvme_qpair \<Rightarrow> bool" where
  "qpair_live qp \<longleftrightarrow> (\<exists>pool. qp_rpool qp = Live pool \<and> pool_wf pool)"

definition qpair_mem :: "nat \<Rightarrow> nvme_qpair \<Rightarrow> (u64 \<times> nat) list" where
  "qpair_mem page qp = [(prps (qpair_pool qp), NVME_REQUEST_POOL_LEN * page), (qp_sq qp, 65536), (qp_cq qp, 65536)]"

lemma qpair_term_owns:
  assumes "heap_owns heap (qpair_mem page qp @ ps)" "qpair_live qp"
  obtains heap' where "nvme_qpair_term qp heap = Some (qp\<lparr>qp_rpool := Dangling\<rparr>, heap')"
    "same_heap heap heap'" "heap_owns heap' ps"
proof -
  obtain pool where pool: "qp_rpool qp = Live pool" using assms(2) by (auto simp: qpair_live_def)
  have "heap_owns heap ((prps pool, NVME_REQUEST_POOL_LEN * page) # (qp_sq qp, 65536) # (qp_cq qp, 65536) # ps)"
    using assms(1) pool by (simp add: qpair_mem_def)
  then obtain h1 where h1: "hostmem_dma_free heap (prps pool) = Some h1" "same_heap heap h1"
    "heap_owns h1 ((qp_sq qp, 65536) # (qp_cq qp, 65536) # ps)" by (rule heap_owns_free)
  from h1(3) obtain h2 where h2: "hostmem_dma_free h1 (qp_sq qp) = Some h2" "same_heap h1 h2"
    "heap_owns h2 ((qp_cq qp, 65536) # ps)" by (rule heap_owns_free)
  from h2(3) obtain h3 where "hostmem_dma_free h2 (qp_cq qp) = Some h3" "same_heap h2 h3" "heap_owns h3 ps"
    by (rule heap_owns_free)
  with h1 h2 pool that show thesis
    by (auto simp: nvme_qpair_term_def nvme_request_pool_term_prps_def same_heap_def)
qed

lemma qpair_init_owns:
  assumes "heap_owns heap ps" "qpair_heap heap" "doorbells_ok hw d qid"
  obtains (fails) ret qp' heap' d' where
      "nvme_qpair_init dbg hw calloc_ok qp qid depth heap d = Some (ret, qp', heap', d')"
      "ret < 0" "heap_owns heap' ps" "same_heap heap heap'"
    | (gives) qp' heap' d' where
      "nvme_qpair_init dbg hw calloc_ok qp qid depth heap d = Some (0, qp', heap', d')"
      "same_heap heap heap'" "heap_owns heap' (qpair_mem (pg heap) qp' @ ps)" "qpair_live qp'"
      "free_cids (qpair_pool qp') = all_cids" "qp_qid qp' = qid" "qp_depth qp' = depth" "qp_tail qp' = 0" "qp_head qp' = 0"
proof -
  obtain L where L: "heap_live heap L" "owned_by L ps" using assms(1) by (auto simp: heap_owns_def)
  from L(1) assms(2,3) show thesis
  proof (cases rule: qpair_init_result [where dbg = dbg and calloc_ok = calloc_ok and qp = qp and depth = depth])
    case (fails ret qp' heap' d')
    with L(2) that(1) show thesis by (auto simp: heap_owns_def)
  next
    case g: (gives qp' heap' d' pool L1 L2 L3)
    let ?mem = "[(prps pool, NVME_REQUEST_POOL_LEN * pg heap), (qp_cq qp', 65536), (qp_sq qp', 65536)]"
    have "owned_by L3 (?mem @ ps)"
      using owned_by_take [OF owned_by_take [OF owned_by_take [OF L(2) g(11,12,21)] g(9,10,20)] g(7,8,19)] by simp
    then have "heap_owns heap' (?mem @ ps)" using g(3) by (auto simp: heap_owns_def)
    moreover have "mset (?mem @ ps) = mset (qpair_mem (pg heap) qp' @ ps)" using g(4) by (simp add: qpair_mem_def)
    ultimately have "heap_owns heap' (qpair_mem (pg heap) qp' @ ps)" using heap_owns_perm by blast
    with g that(2) show thesis by (auto simp: qpair_live_def)
  qed
qed

text \<open>A submission on a queue pair that can be used returns, whatever the controller does, and uses up
  at most one identifier. A debug build asserts that one is left.\<close>

lemma submit_live:
  assumes "qp_ok qp" "qpair_live qp" "dbg \<Longrightarrow> 0 < top (qpair_pool qp)"
  obtains ret qp' cmd' cpl' d' where
    "nvme_qpair_submit_sync dbg hw qp cmd timeout_ms cpl d = Some (ret, qp', cmd', cpl', d')"
    "ret \<in> {0, - EIO, EAGAIN, - ENOMEM}" "qp_ok qp'" "qpair_live qp'" "\<forall>page. qpair_mem page qp' = qpair_mem page qp"
    "top (qpair_pool qp) \<le> top (qpair_pool qp') + 1" "qp_qid qp' = qp_qid qp"
proof -
  obtain pool where pool: "qp_rpool qp = Live pool" "pool_wf pool" using assms(2) by (auto simp: qpair_live_def)
  show thesis
  proof (cases "top pool = 0")
    case True
    with assms(3) pool(1) have "\<not> dbg" by auto
    with True pool assms(1,2) show thesis
      by (intro that [of "- ENOMEM" qp cmd cpl d])
        (simp_all add: nvme_qpair_submit_sync_def submit_sync_with_def nvme_request_alloc_def c_assert_def)
  next
    case False
    obtain ret qp' cmd' cpl' d' pool' where r:
      "nvme_qpair_submit_sync dbg hw qp cmd timeout_ms cpl d = Some (ret, qp', cmd', cpl', d')"
      "ret \<in> {0, - EIO, EAGAIN}" "qp_ok qp'" "qp_rpool qp' = Live pool'" "pool_wf pool'"
      "top pool' = (if ret = EAGAIN then top pool - 1 else top pool)" "same_rings qp qp'" "prps pool' = prps pool"
      by (rule submit_outcomes [OF assms(1) pool]) (use False in simp)
    with pool(1) show thesis
      by (intro that [of ret qp' cmd' cpl' d']) (auto simp: qpair_live_def qpair_mem_def same_rings_def)
  qed
qed

text \<open>The rings of a queue pair that has just been set up are in bounds.\<close>

lemma fresh_rings_ok:
  "qp_depth qp = depth \<Longrightarrow> qp_tail qp = 0 \<Longrightarrow> qp_head qp = 0 \<Longrightarrow> 0 < unat depth \<Longrightarrow> unat depth \<le> 1024 \<Longrightarrow> qp_ok qp"
  by (simp add: qp_ok_def)

end
