(* ===== verification/Nvme_Controller.thy ===== *)
theory Nvme_Controller
  imports Heap_Owner Nvme_Qid Pci_Examples
begin

unbundle bit_operations_syntax

text \<open>
  The controller of \<open>include/upcie/nvme/nvme_controller.h\<close>: the PCI function with BAR0 mapped, the
  admin queue pair, the bitmap of queue identifiers and a buffer, and the four operations on them.

  The operations act on three parts of the world: the heap the controller points to (passed along
  as in the queue pair), the device behind BAR0 (\<open>'d\<close>, with the hardware parameter) and the kernel
  (\<open>'k\<close>, with the calls of \<open>fs_os\<close>). An access through BAR0 needs the mapping: without it the model is
  undefined. \<open>calloc_ok\<close> is whether the \<open>calloc\<close> of the request pool succeeds. Shifts of a
  promoted \<open>uint16_t\<close> into the sign bit are taken as the compilers the code is built with define
  them, in two's complement. The fields \<open>csts\<close>, \<open>cap\<close> and \<open>cc\<close> are never used by the code.
\<close>

section \<open>Data\<close>

record nvme_controller =
  nc_func :: pci_func
  nc_aq :: nvme_qpair
  nc_qids :: "u64 list"
  nc_buf :: u64
  nc_csts :: u32
  nc_cap :: u32
  nc_cc :: u32
  nc_timeout_ms :: int

definition zero_qpair :: nvme_qpair where
  "zero_qpair = \<lparr>qp_sq = 0, qp_cq = 0, qp_sqdb = 0, qp_cqdb = 0, qp_qid = 0, qp_depth = 0, qp_tail = 0,
     qp_tail_last_written = 0, qp_head = 0, qp_phase = 0, qp_rpool = Null\<rparr>"

definition zero_controller :: nvme_controller where
  "zero_controller = \<lparr>nc_func = zero_func, nc_aq = zero_qpair, nc_qids = replicate NVME_QID_BITMAP_WORDS 0,
     nc_buf = 0, nc_csts = 0, nc_cap = 0, nc_cc = 0, nc_timeout_ms = 0\<rparr>"

section \<open>Closing\<close>

definition nvme_controller_close ::
  "('k, 'x) fs_os_scheme \<Rightarrow> nvme_controller \<Rightarrow> hostmem_heap \<Rightarrow> 'k \<Rightarrow> (nvme_controller \<times> hostmem_heap \<times> 'k) option"
where
  "nvme_controller_close os ctrlr heap k = do {
     heap1 \<leftarrow> (case qp_rpool (nc_aq ctrlr) of Null \<Rightarrow> Some heap
       | _ \<Rightarrow> do { (aq, h) \<leftarrow> nvme_qpair_term (nc_aq ctrlr) heap; Some h });
     heap2 \<leftarrow> (if nc_buf ctrlr \<noteq> 0 then hostmem_dma_free heap1 (nc_buf ctrlr) else Some heap1);
     let (func, k1) = pci_func_close os (nc_func ctrlr) k;
     Some (zero_controller, heap2, k1) }"

section \<open>Opening\<close>

text \<open>The PCI function and BAR0. Errors leave \<open>nvme_controller_open\<close> negated, hence positive.\<close>

definition open_bar0 ::
  "('k, 'x) fs_os_scheme \<Rightarrow> string \<Rightarrow> nvme_controller \<Rightarrow> 'k \<Rightarrow> (int \<times> nvme_controller \<times> 'k) option" where
  "open_bar0 os bdf ctrlr k = do {
     (err, func, k1) \<leftarrow> pci_func_open os bdf (nc_func ctrlr) k;
     if err \<noteq> 0 then Some (- err, ctrlr\<lparr>nc_func := func\<rparr>, k1)
     else do {
       bar0 \<leftarrow> array_get (pf_bars func) 0;
       let (err, bar0', k2) = pci_bar_map os (pf_bdf func) 0 bar0 k1;
       let ctrlr1 = ctrlr\<lparr>nc_func := func\<lparr>pf_bars := (pf_bars func)[0 := bar0']\<rparr>\<rparr>;
       if err \<noteq> 0 then Some (- err, ctrlr1, k2) else Some (0, ctrlr1, k2) } }"

text \<open>The value of CC that enables the controller.\<close>

definition enable_cc :: "u64 \<Rightarrow> u32" where
  "enable_cc cap =
     (let css = (if nvme_reg_cap_get_css cap AND push_bit 6 1 \<noteq> 0 then 0x6 else 0x0);
          cc = nvme_reg_cc_set_css 0 css;
          cc = nvme_reg_cc_set_shn cc 0x0;
          cc = nvme_reg_cc_set_mps cc 0x0;
          cc = nvme_reg_cc_set_ams cc 0x0;
          cc = nvme_reg_cc_set_iosqes cc 6;
          cc = nvme_reg_cc_set_iocqes cc 4
      in nvme_reg_cc_set_en cc 0x1)"

text \<open>From the capabilities on: the controller is disabled, gets its admin queue, and is enabled.\<close>

definition open_aq ::
  "bool \<Rightarrow> ('d, 'x) dma_hw_scheme \<Rightarrow> bool \<Rightarrow> nvme_controller \<Rightarrow> hostmem_heap \<Rightarrow> 'd \<Rightarrow>
   (int \<times> nvme_controller \<times> hostmem_heap \<times> 'd) option" where
  "open_aq dbg hw calloc_ok ctrlr heap d = do {
     let (cap, d1) = nvme_mmio_cap_read hw d;
     let ctrlr1 = ctrlr\<lparr>nc_timeout_ms := int (unat (nvme_reg_cap_get_to cap)) * 500\<rparr>;
     let d2 = nvme_mmio_cc_disable hw d1;
     let (err, d3) = nvme_mmio_csts_wait_until_not_ready hw d2 (nc_timeout_ms ctrlr1);
     if err \<noteq> 0 then Some (- err, ctrlr1, heap, d3)
     else do {
       (err, aq, heap1, d4) \<leftarrow> nvme_qpair_init dbg hw calloc_ok (nc_aq ctrlr1) 0 256 heap d3;
       let ctrlr2 = ctrlr1\<lparr>nc_aq := aq\<rparr>;
       if err \<noteq> 0 then Some (- err, ctrlr2, heap1, d4)
       else do {
         asq \<leftarrow> hostmem_dma_v2p heap1 (qp_sq aq);
         acq \<leftarrow> hostmem_dma_v2p heap1 (qp_cq aq);
         let d5 = nvme_mmio_aq_setup hw d4 asq acq (ucast (qp_depth aq));
         let d6 = nvme_mmio_cc_write hw d5 (enable_cc cap);
         let (err, d7) = nvme_mmio_csts_wait_until_ready hw d6 (nc_timeout_ms ctrlr2);
         if err \<noteq> 0 then Some (- err, ctrlr2, heap1, d7) else Some (0, ctrlr2, heap1, d7) } } }"

definition nvme_controller_open ::
  "bool \<Rightarrow> ('d, 'x) dma_hw_scheme \<Rightarrow> ('k, 'y) fs_os_scheme \<Rightarrow> bool \<Rightarrow> string \<Rightarrow> hostmem_heap \<Rightarrow> 'd \<Rightarrow> 'k \<Rightarrow>
   (int \<times> nvme_controller \<times> hostmem_heap \<times> 'd \<times> 'k) option" where
  "nvme_controller_open dbg hw os calloc_ok bdf heap d k = do {
     (r, heap1) \<leftarrow> hostmem_dma_malloc dbg heap 4096;
     case r of
       Inl e \<Rightarrow> Some (- e, zero_controller, heap1, d, k)
     | Inr buf \<Rightarrow> do {
         let d1 = hw_zero hw d buf 4096;
         (_, qids) \<leftarrow> nvme_qid_bitmap_init;
         (err, ctrlr1, k1) \<leftarrow> open_bar0 os bdf (zero_controller\<lparr>nc_buf := buf, nc_qids := qids\<rparr>) k;
         if err \<noteq> 0 then Some (err, ctrlr1, heap1, d1, k1)
         else do {
           (err, ctrlr2, heap2, d2) \<leftarrow> open_aq dbg hw calloc_ok ctrlr1 heap1 d1;
           Some (err, ctrlr2, heap2, d2, k1) } } }"

section \<open>Queue pairs\<close>

text \<open>An access to BAR0 needs its mapping.\<close>

definition bar0_mapped :: "nvme_controller \<Rightarrow> unit option" where
  "bar0_mapped ctrlr = do {
     bar0 \<leftarrow> array_get (pf_bars (nc_func ctrlr)) 0;
     if pb_region bar0 = 0 then None else Some () }"

definition nvme_controller_create_io_qpair ::
  "bool \<Rightarrow> ('d, 'x) dma_hw_scheme \<Rightarrow> bool \<Rightarrow> nvme_controller \<Rightarrow> nvme_qpair \<Rightarrow> u16 \<Rightarrow> hostmem_heap \<Rightarrow> 'd \<Rightarrow>
   (int \<times> nvme_controller \<times> nvme_qpair \<times> hostmem_heap \<times> 'd) option" where
  "nvme_controller_create_io_qpair dbg hw calloc_ok ctrlr qpair depth heap d = do {
     err \<leftarrow> nvme_qid_find_free (nc_qids ctrlr);
     if err < 1 then Some (- ENOMEM, ctrlr, qpair, heap, d)
     else do {
       let qid = (word_of_int err :: u16);
       (err, qids) \<leftarrow> nvme_qid_alloc (nc_qids ctrlr) qid;
       if err \<noteq> 0 then Some (err, ctrlr\<lparr>nc_qids := qids\<rparr>, qpair, heap, d)
       else do {
         bar0_mapped ctrlr;
         (err, qpair1, heap1, d1) \<leftarrow> nvme_qpair_init dbg hw calloc_ok qpair (ucast qid) depth heap d;
         if err \<noteq> 0 then do {
           (_, qids') \<leftarrow> nvme_qid_free qids qid;
           Some (err, ctrlr\<lparr>nc_qids := qids'\<rparr>, qpair1, heap1, d1) }
         else do {
           let cdw10 = push_bit 16 (ucast depth - 1) OR ucast qid;
           cq_phys \<leftarrow> hostmem_dma_v2p heap1 (qp_cq qpair1);
           (err, aq1, cmd1, cpl1, d2) \<leftarrow> nvme_qpair_submit_sync dbg hw (nc_aq ctrlr)
             (zero_command\<lparr>cmd_opc := 0x5, cmd_prp1 := cq_phys, cmd_cdw10 := cdw10, cmd_cdw11 := 0x1\<rparr>)
             (nc_timeout_ms ctrlr) zero_completion d1;
           if err \<noteq> 0 then Some (err, ctrlr\<lparr>nc_qids := qids, nc_aq := aq1\<rparr>, qpair1, heap1, d2)
           else do {
             sq_phys \<leftarrow> hostmem_dma_v2p heap1 (qp_sq qpair1);
             (err, aq2, cmd2, cpl2, d3) \<leftarrow> nvme_qpair_submit_sync dbg hw aq1
               (zero_command\<lparr>cmd_opc := 0x1, cmd_prp1 := sq_phys, cmd_cdw10 := cdw10,
                  cmd_cdw11 := push_bit 16 (ucast qid) OR 0x1\<rparr>)
               (nc_timeout_ms ctrlr) zero_completion d2;
             Some (err, ctrlr\<lparr>nc_qids := qids, nc_aq := aq2\<rparr>, qpair1, heap1, d3) } } } } }"

text \<open>The result of the first deletion is only printed.\<close>

definition nvme_controller_delete_io_qpair ::
  "bool \<Rightarrow> ('d, 'x) dma_hw_scheme \<Rightarrow> nvme_controller \<Rightarrow> nvme_qpair \<Rightarrow> hostmem_heap \<Rightarrow> 'd \<Rightarrow>
   (int \<times> nvme_controller \<times> nvme_qpair \<times> hostmem_heap \<times> 'd) option" where
  "nvme_controller_delete_io_qpair dbg hw ctrlr qpair heap d = do {
     let qid = (ucast (qp_qid qpair) :: u16);
     (err, aq1, cmd1, cpl1, d1) \<leftarrow> nvme_qpair_submit_sync dbg hw (nc_aq ctrlr)
       (zero_command\<lparr>cmd_opc := 0x0, cmd_cdw10 := ucast qid\<rparr>) (nc_timeout_ms ctrlr) zero_completion d;
     (err, aq2, cmd2, cpl2, d2) \<leftarrow> nvme_qpair_submit_sync dbg hw aq1
       (zero_command\<lparr>cmd_opc := 0x4, cmd_cdw10 := ucast qid\<rparr>) (nc_timeout_ms ctrlr) zero_completion d1;
     (qpair', heap') \<leftarrow> nvme_qpair_term qpair heap;
     (_, qids) \<leftarrow> nvme_qid_free (nc_qids ctrlr) qid;
     Some (err, ctrlr\<lparr>nc_aq := aq2, nc_qids := qids\<rparr>, qpair', heap', d2) }"

end
