(* ===== verification/Nvme_Qpair_Cuda.thy ===== *)
theory Nvme_Qpair_Cuda
  imports Nvme_Submit
begin

unbundle bit_operations_syntax

text \<open>
  The queue pair that GPU threads drive, \<open>include/upcie/nvme/nvme_qpair_cuda.h\<close>: a command is stored at
  an offset from the tail, a completion reaped at an offset from the head, and tail and head are
  advanced by a whole batch at once.

  The memory of the rings, the doorbells and the clock of the multiprocessor are behind the hardware
  parameter. The sixteen word stores of a command are one access, as the structure copy of the
  host is. A depth of 0 is a division by zero. The clock counts cycles and is taken not to
  run over within 63 bits; the product that is added to it is checked.
\<close>

section \<open>Data\<close>

record 'd gpu_hw = "'d dma_hw" +
  hw_clock :: "'d \<Rightarrow> int \<times> 'd"    \<comment> \<open>\<open>clock64\<close>\<close>

record nvme_qpair_cuda =
  qc_sq :: u64
  qc_cq :: u64
  qc_sqdb :: u32
  qc_cqdb :: u32
  qc_qid :: u32
  qc_depth :: u16
  qc_tail :: u16
  qc_head :: u16
  qc_phase :: u8
  qc_timeout_ms :: u32
  qc_clocks_per_ms :: u64

section \<open>Operations\<close>

definition nvme_qpair_cuda_enqueue_at_i ::
  "('d, 'x) dma_hw_scheme \<Rightarrow> nvme_qpair_cuda \<Rightarrow> nvme_command \<Rightarrow> u16 \<Rightarrow> 'd \<Rightarrow> 'd option" where
  "nvme_qpair_cuda_enqueue_at_i hw qp cmd offset d =
     (if qc_depth qp = 0 then None
      else let index = (unat (qc_tail qp) + unat offset) mod unat (qc_depth qp) in
        Some (hw_sqe hw d (qc_sq qp + 64 * of_nat index) cmd))"

definition nvme_qpair_cuda_sq_update ::
  "('d, 'x) hw_scheme \<Rightarrow> nvme_qpair_cuda \<Rightarrow> u16 \<Rightarrow> 'd \<Rightarrow> (nvme_qpair_cuda \<times> 'd) option" where
  "nvme_qpair_cuda_sq_update hw qp increment d =
     (if qc_depth qp = 0 then None
      else let qp' = qp\<lparr>qc_tail := of_nat ((unat (qc_tail qp) + unat increment) mod unat (qc_depth qp))\<rparr> in
        Some (qp', mmio_write32 hw d (qc_sqdb qp) (ucast (qc_tail qp'))))"

text \<open>The entry a thread waits for, and its phase: past the wrap it is the other one.\<close>

definition reap_target :: "nvme_qpair_cuda \<Rightarrow> u16 \<Rightarrow> (u64 \<times> u8) option" where
  "reap_target qp offset =
     (if qc_depth qp = 0 then None
      else let index = (unat (qc_head qp) + unat offset) mod unat (qc_depth qp) in
        Some (qc_cq qp + 16 * of_nat index,
          if qc_depth qp \<le> qc_head qp + offset then qc_phase qp XOR 1 else qc_phase qp))"

definition reap_deadline :: "nvme_qpair_cuda \<Rightarrow> int \<Rightarrow> int \<Rightarrow> int option" where
  "reap_deadline qp timeout_ms now =
     (let clocks = timeout_ms * sint (qc_clocks_per_ms qp) in
      if - (2 ^ 63) \<le> clocks \<and> clocks < 2 ^ 63 then Some (now + clocks) else None)"

text \<open>One look at an entry: the identifier, the status, and then the whole of it.\<close>

definition cqe_poll ::
  "('d, 'x) dma_hw_scheme \<Rightarrow> u64 \<Rightarrow> u8 \<Rightarrow> 'd \<Rightarrow> nvme_completion option \<times> 'd" where
  "cqe_poll hw a expected d =
     (let (cqe, d1) = hw_cqe hw d a in
      if cpl_cid cqe < 0xFFFF then
        let (cqe, d2) = hw_cqe hw d1 a in
        if ucast (cpl_status cqe AND 0x1) = expected then
          let (cqe, d3) = hw_cqe hw d2 a in (Some cqe, d3)
        else (None, d2)
      else (None, d1))"

partial_function (option) poll_until ::
  "('d, 'x) gpu_hw_scheme \<Rightarrow> u64 \<Rightarrow> u8 \<Rightarrow> int \<Rightarrow> nvme_completion \<Rightarrow> 'd \<Rightarrow>
   (int \<times> nvme_completion \<times> 'd) option" where
  "poll_until hw a expected deadline cpl d =
     (case cqe_poll hw a expected d of
        (Some cqe, d1) \<Rightarrow> Some (0, cqe, d1)
      | (None, d1) \<Rightarrow>
          (case hw_clock hw d1 of (now, d2) \<Rightarrow>
            if now < deadline then poll_until hw a expected deadline cpl d2
            else Some (- EAGAIN, cpl, d2)))"

definition nvme_qpair_cuda_reap_at_i ::
  "('d, 'x) gpu_hw_scheme \<Rightarrow> nvme_qpair_cuda \<Rightarrow> int \<Rightarrow> nvme_completion \<Rightarrow> u16 \<Rightarrow> 'd \<Rightarrow>
   (int \<times> nvme_completion \<times> 'd) option" where
  "nvme_qpair_cuda_reap_at_i hw qp timeout_ms cpl offset d = do {
     (a, expected) \<leftarrow> reap_target qp offset;
     let (now, d1) = hw_clock hw d;
     deadline \<leftarrow> reap_deadline qp timeout_ms now;
     poll_until hw a expected deadline cpl d1 }"

definition nvme_qpair_cuda_cq_update ::
  "('d, 'x) hw_scheme \<Rightarrow> nvme_qpair_cuda \<Rightarrow> u16 \<Rightarrow> 'd \<Rightarrow> nvme_qpair_cuda \<times> 'd" where
  "nvme_qpair_cuda_cq_update hw qp increment d =
     (let new_head = qc_head qp + increment;
          qp' = (if qc_depth qp \<le> new_head
                 then qp\<lparr>qc_head := new_head - qc_depth qp, qc_phase := qc_phase qp XOR 1\<rparr>
                 else qp\<lparr>qc_head := new_head\<rparr>)
      in (qp', mmio_write32 hw d (qc_cqdb qp) (ucast (qc_head qp'))))"

end
