(* ===== verification/Nvme_Controller_Cuda.thy ===== *)
theory Nvme_Controller_Cuda
  imports Nvme_Controller Nvme_Qpair_Cuda Cudamem_Heap
begin

unbundle bit_operations_syntax

text \<open>
  Queue pairs in the memory of a GPU, \<open>include/upcie/nvme/nvme_controller_cuda.h\<close>: the rings come from
  the GPU heap, the doorbells are registered with the driver so that kernels can write them, and the
  description of the queue pair is copied to the device. The calls of the driver are a parameter.
  Doorbells are offsets in BAR0; 0, where no doorbell is, stands for \<open>NULL\<close>.
\<close>

section \<open>The driver\<close>

record 'k cuda_os = "'k os" +
  cu_register :: "'k \<Rightarrow> u32 \<Rightarrow> int \<times> 'k"       \<comment> \<open>\<open>cuMemHostRegister\<close> of a doorbell\<close>
  cu_unregister :: "'k \<Rightarrow> u32 \<Rightarrow> int \<times> 'k"
  cu_clock_rate :: "'k \<Rightarrow> int \<times> 'k"             \<comment> \<open>in kHz, 0 when the driver does not know it\<close>
  cu_put_qpair :: "'k \<Rightarrow> u64 \<Rightarrow> nvme_qpair_cuda \<Rightarrow> int \<times> 'k"           \<comment> \<open>\<open>cuMemcpyHtoD\<close>\<close>
  cu_get_qpair :: "'k \<Rightarrow> u64 \<Rightarrow> (int + nvme_qpair_cuda) \<times> 'k"           \<comment> \<open>\<open>cuMemcpyDtoH\<close>\<close>

definition zero_qpair_cuda :: nvme_qpair_cuda where
  "zero_qpair_cuda = \<lparr>qc_sq = 0, qc_cq = 0, qc_sqdb = 0, qc_cqdb = 0, qc_qid = 0, qc_depth = 0, qc_tail = 0,
     qc_head = 0, qc_phase = 0, qc_timeout_ms = 0, qc_clocks_per_ms = 0\<rparr>"

section \<open>Creating\<close>

text \<open>The doorbell of a queue; unlike on the host the shift is on \<open>int\<close>.\<close>

definition int_doorbell :: "nat \<Rightarrow> nat \<Rightarrow> u32 option" where
  "int_doorbell index dstrd =
     (let off = index * 2 ^ (2 + dstrd) in if 2 ^ 31 \<le> off then None else Some (0x1000 + of_nat off))"

text \<open>Everything up to the commands: doorbells, rings, and the copy on the device. What a failing step
  finds is given back.\<close>

definition cuda_set_up ::
  "('d, 'x) hw_scheme \<Rightarrow> ('k, 'y) cuda_os_scheme \<Rightarrow> nvme_controller \<Rightarrow> u64 \<Rightarrow> u16 \<Rightarrow> u16 \<Rightarrow> cudamem_heap \<Rightarrow> 'd \<Rightarrow> 'k \<Rightarrow>
   (int \<times> nvme_qpair_cuda \<times> cudamem_heap \<times> 'd \<times> 'k) option" where
  "cuda_set_up hw os ctrlr qpair qid depth heap d k = do {
     bar0_mapped ctrlr;
     let (cap, d1) = nvme_mmio_cap_read hw d;
     let dstrd = unat (nvme_reg_cap_get_dstrd cap);
     let nbytes = ucast depth * 64;
     sqdb \<leftarrow> int_doorbell (2 * unat qid) dstrd;
     cqdb \<leftarrow> int_doorbell (2 * unat qid + 1) dstrd;
     let (khz, k1) = cu_clock_rate os k;
     let qp = zero_qpair_cuda\<lparr>qc_sqdb := sqdb, qc_cqdb := cqdb, qc_qid := ucast qid, qc_tail := 0, qc_head := 0,
       qc_depth := depth, qc_phase := 1, qc_timeout_ms := word_of_int (nc_timeout_ms ctrlr),
       qc_clocks_per_ms := word_of_int khz\<rparr>;
     let (err, k2) = cu_register os k1 sqdb;
     if err \<noteq> 0 then Some (err, qp, heap, d1, k2)
     else do {
       let (err, k3) = cu_register os k2 cqdb;
       if err \<noteq> 0 then Some (err, qp, heap, d1, snd (cu_unregister os k3 sqdb))
       else do {
         (r, heap1, k4) \<leftarrow> cudamem_heap_block_alloc os heap nbytes k3;
         case r of
           Inl e \<Rightarrow> Some (- e, qp, heap1, d1, snd (cu_unregister os (snd (cu_unregister os k4 sqdb)) cqdb))
         | Inr sq \<Rightarrow> do {
             (r, heap2, k5) \<leftarrow> cudamem_heap_block_alloc os heap1 nbytes k4;
             case r of
               Inl e \<Rightarrow> Some (- e, qp\<lparr>qc_sq := sq\<rparr>, cudamem_heap_block_free heap2 sq, d1,
                   snd (cu_unregister os (snd (cu_unregister os k5 sqdb)) cqdb))
             | Inr cq \<Rightarrow>
                 let qp' = qp\<lparr>qc_sq := sq, qc_cq := cq\<rparr>; (err, k6) = cu_put_qpair os k5 qpair qp' in
                 if err \<noteq> 0 then
                   Some (err, qp', cudamem_heap_block_free (cudamem_heap_block_free heap2 sq) cq, d1,
                     snd (cu_unregister os (snd (cu_unregister os k6 sqdb)) cqdb))
                 else Some (0, qp', heap2, d1, k6) } } } }"

definition nvme_controller_cuda_create_io_qpair ::
  "bool \<Rightarrow> ('d, 'x) dma_hw_scheme \<Rightarrow> ('k, 'y) cuda_os_scheme \<Rightarrow> nvme_controller \<Rightarrow> u64 \<Rightarrow> u16 \<Rightarrow> cudamem_heap \<Rightarrow> 'd \<Rightarrow> 'k \<Rightarrow>
   (int \<times> nvme_controller \<times> cudamem_heap \<times> 'd \<times> 'k) option" where
  "nvme_controller_cuda_create_io_qpair dbg hw os ctrlr qpair depth heap d k = do {
     err \<leftarrow> nvme_qid_find_free (nc_qids ctrlr);
     if err < 1 then Some (- ENOMEM, ctrlr, heap, d, k)
     else do {
       let qid = (word_of_int err :: u16);
       (err, qids) \<leftarrow> nvme_qid_alloc (nc_qids ctrlr) qid;
       let ctrlr1 = ctrlr\<lparr>nc_qids := qids\<rparr>;
       if err \<noteq> 0 then Some (err, ctrlr1, heap, d, k)
       else do {
         (err, qp, heap1, d1, k1) \<leftarrow> cuda_set_up hw os ctrlr1 qpair qid depth heap d k;
         if err \<noteq> 0 then Some (err, ctrlr1, heap1, d1, k1)
         else do {
           let cdw10 = push_bit 16 (ucast depth - 1) OR ucast qid;
           cq_phys \<leftarrow> cudamem_heap_block_vtp dbg heap1 (qc_cq qp);
           (err, aq1, cmd1, cpl1, d2) \<leftarrow> nvme_qpair_submit_sync dbg hw (nc_aq ctrlr1)
             (zero_command\<lparr>cmd_opc := 0x5, cmd_prp1 := cq_phys, cmd_cdw10 := cdw10, cmd_cdw11 := 0x1\<rparr>)
             (nc_timeout_ms ctrlr1) zero_completion d1;
           if err \<noteq> 0 then Some (err, ctrlr1\<lparr>nc_aq := aq1\<rparr>, heap1, d2, k1)
           else do {
             sq_phys \<leftarrow> cudamem_heap_block_vtp dbg heap1 (qc_sq qp);
             (err, aq2, cmd2, cpl2, d3) \<leftarrow> nvme_qpair_submit_sync dbg hw aq1
               (zero_command\<lparr>cmd_opc := 0x1, cmd_prp1 := sq_phys, cmd_cdw10 := cdw10,
                  cmd_cdw11 := push_bit 16 (ucast qid) OR 0x1\<rparr>)
               (nc_timeout_ms ctrlr1) zero_completion d2;
             Some (err, ctrlr1\<lparr>nc_aq := aq2\<rparr>, heap1, d3, k1) } } } } }"

section \<open>Deleting\<close>

text \<open>Failures are only printed: without the copy from the device all of the description is zero.\<close>

definition nvme_controller_cuda_delete_io_qpair ::
  "bool \<Rightarrow> ('d, 'x) dma_hw_scheme \<Rightarrow> ('k, 'y) cuda_os_scheme \<Rightarrow> nvme_controller \<Rightarrow> u64 \<Rightarrow> cudamem_heap \<Rightarrow> 'd \<Rightarrow> 'k \<Rightarrow>
   (nvme_controller \<times> cudamem_heap \<times> 'd \<times> 'k) option" where
  "nvme_controller_cuda_delete_io_qpair dbg hw os ctrlr qpair heap d k = do {
     let (r, k1) = cu_get_qpair os k qpair;
     let qp = (case r of Inl e \<Rightarrow> zero_qpair_cuda | Inr qp \<Rightarrow> qp);
     let (_, k2) = cu_unregister os k1 (qc_sqdb qp);
     let (_, k3) = cu_unregister os k2 (qc_cqdb qp);
     (err, aq1, cmd1, cpl1, d1) \<leftarrow> nvme_qpair_submit_sync dbg hw (nc_aq ctrlr)
       (zero_command\<lparr>cmd_opc := 0x0, cmd_cdw10 := qc_qid qp\<rparr>) (nc_timeout_ms ctrlr) zero_completion d;
     (err, aq2, cmd2, cpl2, d2) \<leftarrow> nvme_qpair_submit_sync dbg hw aq1
       (zero_command\<lparr>cmd_opc := 0x4, cmd_cdw10 := qc_qid qp\<rparr>) (nc_timeout_ms ctrlr) zero_completion d1;
     Some (ctrlr\<lparr>nc_aq := aq2\<rparr>, cudamem_heap_block_free (cudamem_heap_block_free heap (qc_sq qp)) (qc_cq qp),
       d2, k3) }"

end
