(* ===== verification/Nvme_Controller_Props.thy ===== *)
theory Nvme_Controller_Props
  imports Nvme_Controller
begin

unbundle bit_operations_syntax

text \<open>
  What the controller promises: opening and closing keep nothing of the heap, the descriptors and
  the mappings, whichever step of opening fails, with one exception that is spelled out.
\<close>

section \<open>Conditions on the device\<close>

text \<open>The doorbell stride is small enough for the doorbells of every queue to lie in the first 4 GiB of
  BAR0. The specification makes it a read-only field and devices use 0.\<close>

definition stride_ok :: "('d, 'x) dma_hw_scheme \<Rightarrow> bool" where
  "stride_ok hw \<longleftrightarrow> (\<forall>d. unat (nvme_reg_cap_get_dstrd (fst (nvme_mmio_cap_read hw d))) \<le> 12)"

lemma doorbell_fits:
  assumes "unat index < 2 ^ 17" "n \<le> 12"
  shows "doorbell index n \<noteq> None"
proof -
  have "(2 :: nat) ^ (2 + n) \<le> 2 ^ 14" by (rule power_increasing) (use assms(2) in auto)
  then have "unat index * 2 ^ (2 + n) \<le> 2 ^ 17 * 2 ^ 14" using assms(1) by (intro mult_le_mono) auto
  then have le: "unat index * 2 ^ (2 + n) \<le> 2 ^ 31" by simp
  have small: "x mod 2 ^ 32 = x" if "x \<le> 2 ^ 31" for x :: nat using that by simp
  have "push_bit (2 + n) index = of_nat (unat index * 2 ^ (2 + n))" by (simp add: push_bit_eq_mult)
  then have "unat (push_bit (2 + n) index) = unat index * 2 ^ (2 + n) mod 2 ^ 32"
    by (simp only: unat_of_nat take_bit_eq_mod) simp
  also have "\<dots> = unat index * 2 ^ (2 + n)" by (rule small) (rule le)
  finally have u: "unat (push_bit (2 + n) index) = unat index * 2 ^ (2 + n)" .
  have "\<not> 2 ^ 32 \<le> 0x1000 + x" if "x \<le> 2 ^ 31" for x :: nat using that by simp
  from this [OF le] show ?thesis by (simp only: doorbell_def Let_def u if_False) simp
qed

lemma stride_doorbells:
  assumes "stride_ok hw" "unat qid < 65536"
  shows "doorbells_ok hw d qid"
proof -
  have "unat (2 * qid) < 2 ^ 17" "unat (2 * qid + 1) < 2 ^ 17" using assms(2) by (simp_all add: unat_word_ariths)
  with assms(1) doorbell_fits show ?thesis by (simp add: doorbells_ok_def stride_ok_def Let_def)
qed

lemma zero_parts [simp]:
  "qp_rpool zero_qpair = Null" "nc_aq zero_controller = zero_qpair" "nc_func zero_controller = zero_func"
  by (simp_all add: zero_qpair_def zero_controller_def)

section \<open>The PCI function\<close>

lemma open_idents_bars: "open_idents os func k = Some (err, func', k') \<Longrightarrow> pf_bars func' = pf_bars func"
  by (auto simp: open_idents_def Let_def split: Option.bind_split_asm prod.split_asm sum.split_asm)

lemma func_open_bars:
  assumes "pci_func_open os bdf zero_func k = Some (err, func, k')"
  shows "length (pf_bars func) = PCI_NBARS" "\<forall>b \<in> set (pf_bars func). pb_region b = 0"
proof -
  have z: "length (pf_bars zero_func) = PCI_NBARS" "\<forall>b \<in> set (pf_bars zero_func). pb_region b = 0"
    by (simp_all add: zero_func_def)
  have "\<exists>bs. pf_bars func = bs \<and> length bs = PCI_NBARS \<and> (\<forall>b \<in> set bs. pb_region b = 0)"
    using assms z open_idents_bars
    by (fastforce simp: pci_func_open_def bind_eq_Some_conv Let_def set_zip split: prod.splits if_splits)
  then show "length (pf_bars func) = PCI_NBARS" "\<forall>b \<in> set (pf_bars func). pb_region b = 0" by auto
qed

lemma unmap_all_none: "\<forall>b \<in> set bs. pb_region b = 0 \<Longrightarrow> snd (unmap_all os bs k) = k"
  by (induction bs arbitrary: k) (simp_all add: pci_bar_unmap_def case_prod_beta Let_def)

lemma close_none:
  "\<forall>b \<in> set (pf_bars func). pb_region b = 0 \<Longrightarrow> snd (pci_func_close os func k) = k"
  by (simp add: pci_func_close_def case_prod_beta unmap_all_none Let_def)

lemma close_bar0:
  assumes "pf_bars func = b # bs" "\<forall>x \<in> set bs. pb_region x = 0"
  shows "snd (pci_func_close os func k) = snd (pci_bar_unmap os b k)"
  using assms by (simp add: pci_func_close_def case_prod_beta unmap_all_none Let_def)

text \<open>A BAR that is not mapped, mapped or not by a call, and unmapped again.\<close>

lemma bar_map_unmap:
  assumes "fs_lawful os fds maps" "pb_region bar = 0"
  obtains e bar' k' where "pci_bar_map os bdf ident bar k = (e, bar', k')" "e \<noteq> 0 \<longrightarrow> e < 0"
    "e = 0 \<longrightarrow> pb_region bar' \<noteq> 0" "fds (snd (pci_bar_unmap os bar' k')) = fds k"
    "maps (snd (pci_bar_unmap os bar' k')) = maps k"
proof -
  note l = fs_lawfulD [OF assms(1)]
  from assms(1) show thesis
  proof (cases rule: pci_bar_map_result [where bdf = bdf and ident = ident and bar = bar and k = k])
    case (failed err bar' k')
    have "pb_region bar' = 0"
      using failed(1) failed(2) assms(2) by (auto simp: pci_bar_map_def Let_def split: sum.splits prod.splits)
    with failed show thesis by (intro that [of err bar' k']) (simp_all add: pci_bar_unmap_def)
  next
    case (mapped bar' k')
    then show thesis
      by (intro that [of 0 bar' k']) (simp_all add: pci_bar_unmap_def l(5,6,14,15))
  qed
qed

text \<open>Opening up to BAR0 changes nothing of the controller but its PCI function, and closing that
  gives back what was opened and mapped, also when a step failed.\<close>

lemma open_bar0_result:
  assumes "fs_lawful os fds maps" "nc_func ctrlr = zero_func"
  obtains err func k' where
    "open_bar0 os bdf ctrlr k = Some (err, ctrlr\<lparr>nc_func := func\<rparr>, k')" "0 \<le> err"
    "err = 0 \<longrightarrow> bar0_mapped (ctrlr\<lparr>nc_func := func\<rparr>) = Some ()"
    "fds (snd (pci_func_close os func k')) = fds k" "maps (snd (pci_func_close os func k')) = maps k"
proof -
  obtain err func k1 where o1: "pci_func_open os bdf zero_func k = Some (err, func, k1)"
    "fds k1 = fds k" "maps k1 = maps k" "err \<le> 0" using pci_func_open_result [OF assms(1)] by blast
  note bars = func_open_bars [OF o1(1)]
  show thesis
  proof (cases "err = 0")
    case False
    with o1 assms(2) bars(2) show thesis
      by (intro that [of "- err" func k1]) (simp_all add: open_bar0_def close_none)
  next
    case True
    obtain b bs where b: "pf_bars func = b # bs" using bars(1) by (cases "pf_bars func") (simp_all add: PCI_NBARS_def)
    have none: "\<forall>x \<in> set bs. pb_region x = 0" "pb_region b = 0" using bars(2) b by simp_all
    have get: "array_get (pf_bars func) 0 = Some b" using b by (simp add: array_get_def)
    obtain e b' k2 where m: "pci_bar_map os (pf_bdf func) 0 b k1 = (e, b', k2)" "e \<noteq> 0 \<longrightarrow> e < 0"
      "e = 0 \<longrightarrow> pb_region b' \<noteq> 0" "fds (snd (pci_bar_unmap os b' k2)) = fds k1"
      "maps (snd (pci_bar_unmap os b' k2)) = maps k1"
      by (rule bar_map_unmap [OF assms(1) none(2)])
    let ?func = "func\<lparr>pf_bars := (pf_bars func)[0 := b']\<rparr>"
    have close: "snd (pci_func_close os ?func k2) = snd (pci_bar_unmap os b' k2)"
      by (rule close_bar0) (use b none(1) in simp_all)
    have "open_bar0 os bdf ctrlr k = Some (- e, ctrlr\<lparr>nc_func := ?func\<rparr>, k2)"
      using o1(1) True assms(2) get m(1) by (simp add: open_bar0_def Let_def)
    moreover have "e = 0 \<Longrightarrow> bar0_mapped (ctrlr\<lparr>nc_func := ?func\<rparr>) = Some ()"
      using m(3) b by (simp add: bar0_mapped_def array_get_def)
    ultimately show thesis
      by (intro that [of "- e" ?func k2]) (use m(2,4,5) o1(2,3) in \<open>auto simp: close\<close>)
  qed
qed

section \<open>The admin queue\<close>

lemma csts_poll_code: "fst (csts_poll hw rdy n d) \<in> {0, - ETIMEDOUT}"
  by (induction n arbitrary: d) (simp_all add: case_prod_beta Let_def)

lemma wait_not_ready_cases:
  obtains d' where "nvme_mmio_csts_wait_until_not_ready hw d ms = (0, d')"
    | d' where "nvme_mmio_csts_wait_until_not_ready hw d ms = (- ETIMEDOUT, d')"
  using csts_poll_code [of hw 0 "nat ms" d] by (auto simp: nvme_mmio_csts_wait_until_not_ready_def prod_eq_iff)

lemma wait_ready_cases:
  obtains d' where "nvme_mmio_csts_wait_until_ready hw d ms = (0, d')"
    | d' where "nvme_mmio_csts_wait_until_ready hw d ms = (- ETIMEDOUT, d')"
  using csts_poll_code [of hw 1 "nat ms" d] by (auto simp: nvme_mmio_csts_wait_until_ready_def prod_eq_iff)

text \<open>A set-up that fails leaves no pool behind, but possibly a pointer to one it has freed.\<close>

lemma qpair_init_fails_pool:
  assumes "nvme_qpair_init dbg hw calloc_ok qp qid depth heap d = Some (ret, qp', heap', d')" "ret \<noteq> 0"
  shows "qp_rpool qp' \<in> {qp_rpool qp, Null, Dangling}"
  using assms
  by (auto simp: nvme_qpair_init_def Let_def split: Option.bind_split_asm prod.split_asm sum.split_asm if_split_asm)

text \<open>Memory that is held has a physical address.\<close>

lemma owned_translates:
  assumes "heap_owns heap ps" "(p, n) \<in> set ps" "0 < n" "qpair_heap heap"
  obtains a where "hostmem_dma_v2p heap p = Some a"
proof -
  note ins = heap_owns_inside [OF assms(1,2)]
  have lut: "lut_ok heap" "unat (memsize heap) = unat (nphys heap) * hpg heap"
    using assms(4) by (simp_all add: qpair_heap_def dma_heap_def)
  let ?x = "unat p - unat (virt heap)"
  have "?x < unat (nphys heap) * hpg heap" "virt heap + of_nat ?x = p"
    using ins assms(3) by (simp_all add: lut(2) [symmetric] of_nat_diff)
  with v2p_eq [OF lut(1), of ?x] that show thesis by simp
qed

lemma open_aq_result:
  assumes "heap_owns heap ps" "qpair_heap heap" "stride_ok hw" "nc_aq ctrlr = zero_qpair"
  obtains (failed) err aq t heap' d' where
      "open_aq dbg hw calloc_ok ctrlr heap d = Some (err, ctrlr\<lparr>nc_timeout_ms := t, nc_aq := aq\<rparr>, heap', d')"
      "0 < err" "qp_rpool aq \<in> {Null, Dangling}" "same_heap heap heap'" "heap_owns heap' ps"
    | (set_up) err aq t heap' d' where
      "open_aq dbg hw calloc_ok ctrlr heap d = Some (err, ctrlr\<lparr>nc_timeout_ms := t, nc_aq := aq\<rparr>, heap', d')"
      "0 \<le> err" "qpair_live aq" "qp_ok aq" "free_cids (qpair_pool aq) = all_cids" "same_heap heap heap'"
      "heap_owns heap' (qpair_mem (pg heap) aq @ ps)"
proof -
  obtain cap d1 where cap: "nvme_mmio_cap_read hw d = (cap, d1)" by (cases "nvme_mmio_cap_read hw d")
  let ?t = "int (unat (nvme_reg_cap_get_to cap)) * 500"
  let ?d2 = "nvme_mmio_cc_disable hw d1"
  have same: "ctrlr\<lparr>nc_timeout_ms := t, nc_aq := zero_qpair\<rparr> = ctrlr\<lparr>nc_timeout_ms := t\<rparr>" for t
    using assms(4) by (cases ctrlr) simp
  note def = open_aq_def Let_def cap
  show thesis
  proof (cases rule: wait_not_ready_cases [of hw ?d2 ?t])
    case (2 d3)
    with assms(1) show thesis
      by (intro failed [of ETIMEDOUT zero_qpair ?t heap d3])
        (simp_all add: def same same_heap_def)
  next
    case (1 d3)
    have db: "doorbells_ok hw d3 0" by (rule stride_doorbells [OF assms(3)]) simp
    from assms(1,2) db show thesis
    proof (cases rule: qpair_init_owns [where dbg = dbg and calloc_ok = calloc_ok and qp = zero_qpair and depth = 256])
      case (fails ret aq heap' d')
      have "qp_rpool aq \<in> {Null, Dangling}"
        using qpair_init_fails_pool [OF fails(1)] fails(2) by auto
      with fails 1 assms(4) show thesis
        by (intro failed [of "- ret" aq ?t heap' d']) (simp_all add: def)
    next
      case (gives aq heap1 d4)
      have ok: "qpair_heap heap1" using assms(2) gives(2) by (simp add: qpair_heap_same)
      have rings: "(qp_sq aq, 65536) \<in> set (qpair_mem (pg heap) aq @ ps)" "(qp_cq aq, 65536) \<in> set (qpair_mem (pg heap) aq @ ps)"
        by (simp_all add: qpair_mem_def)
      obtain asq where asq: "hostmem_dma_v2p heap1 (qp_sq aq) = Some asq"
        by (rule owned_translates [OF gives(3) rings(1) _ ok]) simp
      obtain acq where acq: "hostmem_dma_v2p heap1 (qp_cq aq) = Some acq"
        by (rule owned_translates [OF gives(3) rings(2) _ ok]) simp
      have rings_ok: "qp_ok aq" by (rule fresh_rings_ok [OF gives(7-9)]) simp_all
      let ?d6 = "nvme_mmio_cc_write hw (nvme_mmio_aq_setup hw d4 asq acq (ucast (qp_depth aq))) (enable_cc cap)"
      obtain err d7 where w: "nvme_mmio_csts_wait_until_ready hw ?d6 ?t = (err, d7)" "err \<le> 0"
        by (rule wait_ready_cases [of hw ?d6 ?t]) auto
      with 1 gives(1) asq acq assms(4) show thesis
        by (intro set_up [of "- err" aq ?t heap1 d7]) (use gives rings_ok in \<open>simp_all add: def\<close>)
    qed
  qed
qed

section \<open>Opening and closing\<close>

text \<open>What an open controller is made of, on a heap where others hold \<open>ps\<close>.\<close>

definition controller_ready :: "nvme_controller \<Rightarrow> bool" where
  "controller_ready ctrlr \<longleftrightarrow> bar0_mapped ctrlr = Some () \<and> qpair_live (nc_aq ctrlr) \<and> qp_ok (nc_aq ctrlr) \<and>
     qid_wf (nc_qids ctrlr)"

definition controller_mem :: "nat \<Rightarrow> nvme_controller \<Rightarrow> (u64 \<times> nat) list" where
  "controller_mem page ctrlr = qpair_mem page (nc_aq ctrlr) @ [(nc_buf ctrlr, 4096)]"

lemma close_live:
  assumes "qpair_live (nc_aq ctrlr)" "nc_buf ctrlr \<noteq> 0" "heap_owns heap (controller_mem page ctrlr @ ps)"
  shows "\<exists>heap'. nvme_controller_close os ctrlr heap k =
    Some (zero_controller, heap', snd (pci_func_close os (nc_func ctrlr) k)) \<and> heap_owns heap' ps"
proof -
  have "heap_owns heap (qpair_mem page (nc_aq ctrlr) @ (nc_buf ctrlr, 4096) # ps)"
    using assms(3) by (simp add: controller_mem_def)
  then obtain h1 where h1: "nvme_qpair_term (nc_aq ctrlr) heap = Some ((nc_aq ctrlr)\<lparr>qp_rpool := Dangling\<rparr>, h1)"
    "heap_owns h1 ((nc_buf ctrlr, 4096) # ps)" by (rule qpair_term_owns [OF _ assms(1)])
  from h1(2) obtain h2 where "hostmem_dma_free h1 (nc_buf ctrlr) = Some h2" "heap_owns h2 ps" by (rule heap_owns_free)
  with h1(1) assms(1,2) show ?thesis
    by (auto simp: nvme_controller_close_def qpair_live_def case_prod_beta)
qed

lemma close_without_aq:
  assumes "qp_rpool (nc_aq ctrlr) = Null" "nc_buf ctrlr \<noteq> 0" "heap_owns heap ((nc_buf ctrlr, n) # ps)"
  shows "\<exists>heap'. nvme_controller_close os ctrlr heap k =
    Some (zero_controller, heap', snd (pci_func_close os (nc_func ctrlr) k)) \<and> heap_owns heap' ps"
proof -
  from assms(3) obtain h2 where "hostmem_dma_free heap (nc_buf ctrlr) = Some h2" "heap_owns h2 ps" by (rule heap_owns_free)
  with assms(1,2) show ?thesis by (auto simp: nvme_controller_close_def case_prod_beta)
qed

lemma close_dangling: "qp_rpool (nc_aq ctrlr) = Dangling \<Longrightarrow> nvme_controller_close os ctrlr heap k = None"
  by (simp add: nvme_controller_close_def nvme_qpair_term_def)

text \<open>The result of opening, by how far it came.\<close>

lemma open_result:
  assumes law: "fs_lawful os fds maps" and mem: "heap_owns heap ps" "qpair_heap heap" and hw: "stride_ok hw"
  obtains (refused) err heap' d' k' where
      "nvme_controller_open dbg hw os calloc_ok bdf heap d k = Some (err, zero_controller, heap', d', k')"
      "err < 0" "heap_owns heap' ps" "k' = k"
    | (no_aq) err ctrlr heap' d' k' where
      "nvme_controller_open dbg hw os calloc_ok bdf heap d k = Some (err, ctrlr, heap', d', k')"
      "0 < err" "qp_rpool (nc_aq ctrlr) \<in> {Null, Dangling}" "nc_buf ctrlr \<noteq> 0"
      "heap_owns heap' ((nc_buf ctrlr, 4096) # ps)"
      "fds (snd (pci_func_close os (nc_func ctrlr) k')) = fds k" "maps (snd (pci_func_close os (nc_func ctrlr) k')) = maps k"
    | (with_aq) err ctrlr heap' d' k' where
      "nvme_controller_open dbg hw os calloc_ok bdf heap d k = Some (err, ctrlr, heap', d', k')"
      "0 \<le> err" "controller_ready ctrlr" "nc_buf ctrlr \<noteq> 0" "qid_avail (nc_qids ctrlr) = io_qids"
      "free_cids (qpair_pool (nc_aq ctrlr)) = all_cids" "same_heap heap heap'"
      "heap_owns heap' (controller_mem (pg heap) ctrlr @ ps)"
      "fds (snd (pci_func_close os (nc_func ctrlr) k')) = fds k" "maps (snd (pci_func_close os (nc_func ctrlr) k')) = maps k"
proof -
  have sz: "dma_size_ok 4096" by (simp add: dma_size_ok_def)
  note def = nvme_controller_open_def Let_def
  from mem(1) sz show thesis
  proof (cases rule: heap_owns_malloc [where dbg = dbg])
    case (fails e heap')
    then show thesis using refused [of "- e" heap' d k] by (simp add: def)
  next
    case (gives buf heap1)
    obtain bm where bm: "nvme_qid_bitmap_init = Some (0, bm)" "qid_wf bm" "qid_avail bm = io_qids"
      using nvme_qid_bitmap_init_wf by blast
    let ?c = "zero_controller\<lparr>nc_buf := buf, nc_qids := bm\<rparr>"
    obtain err func k1 where o1: "open_bar0 os bdf ?c k = Some (err, ?c\<lparr>nc_func := func\<rparr>, k1)" "0 \<le> err"
      "err = 0 \<longrightarrow> bar0_mapped (?c\<lparr>nc_func := func\<rparr>) = Some ()"
      "fds (snd (pci_func_close os func k1)) = fds k" "maps (snd (pci_func_close os func k1)) = maps k"
      by (rule open_bar0_result [OF law, of ?c bdf k]) simp
    have ok: "qpair_heap heap1" using mem(2) gives(3) by (simp add: qpair_heap_same)
    have pg: "pg heap1 = pg heap" using gives(3) by (simp add: same_heap_def)
    have buf: "heap_owns heap1 ((buf, 4096) # ps)" using gives(4) by simp
    show thesis
    proof (cases "err = 0")
      case False
      with o1 gives(1,2) bm(1) buf show thesis
        by (intro no_aq [of err "?c\<lparr>nc_func := func\<rparr>" heap1 "hw_zero hw d buf 4096" k1])
          (simp_all add: def bm(1))
    next
      case True
      have aq: "nc_aq (?c\<lparr>nc_func := func\<rparr>) = zero_qpair" by simp
      let ?c1 = "\<lambda>t aq. ?c\<lparr>nc_func := func, nc_timeout_ms := t, nc_aq := aq\<rparr>"
      from buf ok hw aq show thesis
      proof (cases rule: open_aq_result [where dbg = dbg and calloc_ok = calloc_ok and d = "hw_zero hw d buf 4096"])
        case (failed err2 aq t heap2 d2)
        with o1 True gives(1,2) bm(1) show thesis
          by (intro no_aq [of err2 "?c1 t aq" heap2 d2 k1]) (simp_all add: def bm(1))
      next
        case (set_up err2 aq t heap2 d2)
        have "controller_ready (?c1 t aq)"
          using o1(3) True set_up(3,4) bm(2) by (simp add: controller_ready_def bar0_mapped_def)
        moreover have "heap_owns heap2 (controller_mem (pg heap) (?c1 t aq) @ ps)"
          using set_up(7) by (simp add: controller_mem_def pg)
        moreover have "same_heap heap heap2" using gives(3) set_up(6) by (simp add: same_heap_def)
        ultimately show thesis
          using o1 True gives(1,2) bm(1,3) set_up
          by (intro with_aq [of err2 "?c1 t aq" heap2 d2 k1]) (simp_all add: def bm(1))
      qed
    qed
  qed
qed

text \<open>C9: Opening a controller returns, whatever the PCI bus, the device and the heap answer. If the
  admin queue's request pool was not left dangling, closing the controller, whether it was opened or
  opening failed, gives back all memory, descriptors and mappings that opening took. If the
  pool was left dangling, which happens only when opening failed, closing uses it after it was
  freed.\<close>

theorem nvme_controller_open_close_no_leak:
  assumes "fs_lawful os fds maps" "heap_owns heap ps" "qpair_heap heap" "stride_ok hw"
  shows "\<exists>ret ctrlr heap' d' k'. nvme_controller_open dbg hw os calloc_ok bdf heap d k = Some (ret, ctrlr, heap', d', k') \<and>
    (if qp_rpool (nc_aq ctrlr) = Dangling
     then ret \<noteq> 0 \<and> nvme_controller_close os ctrlr heap' k' = None
     else \<exists>heap'' k''. nvme_controller_close os ctrlr heap' k' = Some (zero_controller, heap'', k'') \<and>
       heap_owns heap'' ps \<and> fds k'' = fds k \<and> maps k'' = maps k)"
  using assms
proof (cases rule: open_result [where dbg = dbg and calloc_ok = calloc_ok and bdf = bdf and d = d and k = k])
  case (refused err heap' d' k')
  have "snd (pci_func_close os zero_func k) = k" by (rule close_none) (simp add: zero_func_def)
  moreover have "nc_buf zero_controller = 0" by (simp add: zero_controller_def)
  ultimately have "nvme_controller_close os zero_controller heap' k' = Some (zero_controller, heap', k)"
    using refused(4) by (simp add: nvme_controller_close_def case_prod_beta)
  with refused(1,3) show ?thesis by auto
next
  case (no_aq err ctrlr heap' d' k')
  show ?thesis
  proof (cases "qp_rpool (nc_aq ctrlr) = Dangling")
    case True
    with no_aq(1,2) show ?thesis by (simp add: close_dangling)
  next
    case False
    with no_aq(3) have null: "qp_rpool (nc_aq ctrlr) = Null" by simp
    obtain heap'' where "nvme_controller_close os ctrlr heap' k' =
        Some (zero_controller, heap'', snd (pci_func_close os (nc_func ctrlr) k'))" "heap_owns heap'' ps"
      using close_without_aq [OF null no_aq(4,5), of os k'] by blast
    with False have "if qp_rpool (nc_aq ctrlr) = Dangling then err \<noteq> 0 \<and> nvme_controller_close os ctrlr heap' k' = None
      else \<exists>heap'' k''. nvme_controller_close os ctrlr heap' k' = Some (zero_controller, heap'', k'') \<and>
        heap_owns heap'' ps \<and> fds k'' = fds k \<and> maps k'' = maps k"
      using no_aq(6,7) by auto
    with no_aq(1) show ?thesis by blast
  qed
next
  case (with_aq err ctrlr heap' d' k')
  then have live: "qpair_live (nc_aq ctrlr)" by (simp add: controller_ready_def)
  then have "qp_rpool (nc_aq ctrlr) \<noteq> Dangling" by (auto simp: qpair_live_def)
  moreover obtain heap'' where "nvme_controller_close os ctrlr heap' k' =
      Some (zero_controller, heap'', snd (pci_func_close os (nc_func ctrlr) k'))" "heap_owns heap'' ps"
    using close_live [OF live with_aq(4,8), of os k'] by blast
  ultimately show ?thesis by (simp add: with_aq(1,9,10))
qed

text \<open>A device whose registers all read as zero: it never becomes ready.\<close>

definition dead_hw :: "unit dma_hw" where
  "dead_hw = \<lparr>hw_read32 = (\<lambda>d a. (0, d)), hw_write32 = (\<lambda>d a v. d), hw_usleep = (\<lambda>d n. d),
     hw_cqe = (\<lambda>d a. (zero_completion, d)), hw_sqe = (\<lambda>d a c. d), hw_zero = (\<lambda>d a n. d),
     hw_list = (\<lambda>d a. []), hw_set_list = (\<lambda>d a l. d)\<rparr>"

lemma dead_stride: "stride_ok dead_hw"
  by (simp add: stride_ok_def dead_hw_def nvme_mmio_cap_read_def mmio_read64_def mmio_read32_def
      nvme_reg_cap_get_dstrd_def bitfield_get_def Let_def)

lemma example_owns: "heap_owns example_heap []"
  using example_heap_live by (auto simp: heap_owns_def owned_by_def)

lemma example_qpair_heap: "qpair_heap example_heap"
  using example_dma_heap
  by (simp add: qpair_heap_def example_facts) (simp add: example_heap_def example_config_def)

theorem nvme_controller_open_close_no_leak_witness:
  "\<exists>ret ctrlr heap' d' k'. nvme_controller_open True dead_hw bus_os True ''0000:01:00.0'' example_heap () ([], []) =
      Some (ret, ctrlr, heap', d', k') \<and>
    (if qp_rpool (nc_aq ctrlr) = Dangling then ret \<noteq> 0
     else \<exists>heap'' k''. nvme_controller_close bus_os ctrlr heap' k' = Some (zero_controller, heap'', k'') \<and>
       heap_owns heap'' [] \<and> set (fst k'') = {} \<and> set (snd k'') = {})"
proof -
  from nvme_controller_open_close_no_leak [OF bus_lawful example_owns example_qpair_heap dead_stride, where
      dbg = True and calloc_ok = True and bdf = "''0000:01:00.0''" and d = "()" and k = "([], [])"]
  show ?thesis by (elim exE conjE) (auto simp: case_prod_beta split: if_splits)
qed

end
