(* ===== verification/Nvme_Controller_Runs.thy ===== *)
theory Nvme_Controller_Runs
  imports Nvme_Controller_Props
begin

unbundle bit_operations_syntax

text \<open>
  An open controller over its lifetime: queue pairs are created and deleted in any order, and the
  identifiers, the rings and the pools of those that exist never collide.
\<close>

lemma unat_mem_image: "unat (p :: 'a :: len word) \<in> unat ` A \<longleftrightarrow> p \<in> A"
  by (rule inj_image_mem_iff) (simp add: inj_def word_unat_eq_iff [symmetric])

section \<open>One creation\<close>

lemma qid_search:
  assumes "qid_wf bm"
  obtains (none) "nvme_qid_find_free bm = Some (- ENOMEM)"
    | (found) q bm' where "nvme_qid_find_free bm = Some (int q)" "0 < q" "q < 65472" "q \<notin> qid_used bm"
      "unat (word_of_int (int q) :: u16) = q" "nvme_qid_alloc bm (word_of_int (int q)) = Some (0, bm')"
      "qid_wf bm'" "qid_used bm' = insert q (qid_used bm)"
proof (cases "{..<65472} \<subseteq> qid_used bm")
  case True
  with assms none show thesis
    using nvme_qid_find_free_eq [of bm] by (simp add: qid_consts qid_wf_def)
next
  case False
  from assms have l: "length bm = 1023" "0 \<in> qid_used bm" by (simp_all add: qid_wf_def)
  let ?q = "LEAST q. q \<notin> qid_used bm"
  from False obtain p where p: "p \<notin> qid_used bm" "p < 65472" by auto
  have "?q \<notin> qid_used bm" by (rule LeastI [of _ p]) (rule p(1))
  moreover have "?q \<le> p" by (rule Least_le) (rule p(1))
  ultimately have q: "?q \<notin> qid_used bm" "?q < 65472" "0 < ?q" using p(2) l(2) by (simp, simp, metis gr0I)
  have w: "unat (word_of_int (int ?q) :: u16) = ?q" using q(2) by (simp add: unat_of_nat take_bit_eq_mod)
  have f: "nvme_qid_find_free bm = Some (int ?q)" using nvme_qid_find_free_eq [of bm] l False by (simp add: qid_consts)
  from nvme_qid_alloc_eq [of "word_of_int (int ?q)" bm] w q l obtain bm' where
    "nvme_qid_alloc bm (word_of_int (int ?q)) = Some (0, bm')" "length bm' = 1023"
    "qid_used bm' = insert ?q (qid_used bm)" by auto
  with f q w l show thesis by (intro found [of ?q bm']) (simp_all add: qid_wf_def)
qed

lemma qid_fresh_used:
  assumes "qid_wf bm" "qid_avail bm = io_qids"
  shows "qid_used bm = {0}"
proof (rule set_eqI)
  fix q
  have "q < 65472" if "q \<in> qid_used bm" using that assms(1) by (simp add: qid_wf_def qid_used_def)
  moreover have "q \<notin> io_qids" if "q \<in> qid_used bm" using that assms(2) by (metis DiffD2 qid_avail_def)
  moreover have "0 \<in> qid_used bm" using assms(1) by (simp add: qid_wf_def)
  ultimately show "q \<in> qid_used bm \<longleftrightarrow> q \<in> {0}" by (cases "q = 0") (auto simp: in_io_qids)
qed

lemma qid_give_back:
  assumes "qid_wf bm" "unat (q :: u16) < 65472" "q \<noteq> 0"
  obtains bm' where "nvme_qid_free bm q = Some (0, bm')" "qid_wf bm'" "qid_used bm' = qid_used bm - {unat q}"
proof -
  from assms(1) have l: "length bm = 1023" "0 \<in> qid_used bm" by (simp_all add: qid_wf_def)
  have "unat q \<noteq> 0" using assms(3) by (simp add: unat_eq_0)
  with nvme_qid_free_eq [of q bm] assms(2) l that show thesis by (auto simp: qid_wf_def)
qed

text \<open>A controller that differs only in its queue identifiers and in how far its admin queue has come.\<close>

definition controller_step :: "nvme_controller \<Rightarrow> nvme_controller \<Rightarrow> bool" where
  "controller_step c c' \<longleftrightarrow> controller_ready c' \<and> nc_func c' = nc_func c \<and> nc_buf c' = nc_buf c \<and>
     (\<forall>page. qpair_mem page (nc_aq c') = qpair_mem page (nc_aq c)) \<and>
     top (qpair_pool (nc_aq c)) \<le> top (qpair_pool (nc_aq c')) + 2"

lemma controller_mem_step: "controller_step c c' \<Longrightarrow> controller_mem page c' = controller_mem page c"
  by (simp add: controller_step_def controller_mem_def)

lemma controller_step_qids:
  "controller_step c (c\<lparr>nc_aq := aq\<rparr>) \<Longrightarrow> qid_wf bm \<Longrightarrow> controller_step c (c\<lparr>nc_qids := bm, nc_aq := aq\<rparr>)"
  by (simp add: controller_step_def controller_ready_def bar0_mapped_def)

text \<open>The two commands that make or remove a queue pair, the second only sent after the first.\<close>

lemma two_submissions:
  assumes ready: "controller_ready c" and budget: "dbg \<longrightarrow> 2 \<le> top (qpair_pool (nc_aq c))"
  obtains e1 aq1 cmd1' cpl1 d1 where
    "nvme_qpair_submit_sync dbg hw (nc_aq c) cmd1 (nc_timeout_ms c) zero_completion d = Some (e1, aq1, cmd1', cpl1, d1)"
    "e1 \<in> {0, - EIO, EAGAIN, - ENOMEM}" "controller_step c (c\<lparr>nc_aq := aq1\<rparr>)"
    "\<forall>cmd2. \<exists>e2 aq2 cmd2' cpl2 d2.
      nvme_qpair_submit_sync dbg hw aq1 cmd2 (nc_timeout_ms c) zero_completion d1 = Some (e2, aq2, cmd2', cpl2, d2) \<and>
      e2 \<in> {0, - EIO, EAGAIN, - ENOMEM} \<and> controller_step c (c\<lparr>nc_aq := aq2\<rparr>)"
proof -
  have c: "bar0_mapped c = Some ()" "qpair_live (nc_aq c)" "qp_ok (nc_aq c)" "qid_wf (nc_qids c)"
    using ready by (simp_all add: controller_ready_def)
  obtain e1 aq1 cmd1' cpl1 d1 where s1:
    "nvme_qpair_submit_sync dbg hw (nc_aq c) cmd1 (nc_timeout_ms c) zero_completion d = Some (e1, aq1, cmd1', cpl1, d1)"
    "e1 \<in> {0, - EIO, EAGAIN, - ENOMEM}" "qp_ok aq1" "qpair_live aq1" "\<forall>page. qpair_mem page aq1 = qpair_mem page (nc_aq c)"
    "top (qpair_pool (nc_aq c)) \<le> top (qpair_pool aq1) + 1"
    by (rule submit_live [OF c(3,2), where dbg = dbg and hw = hw and cmd = cmd1 and timeout_ms = "nc_timeout_ms c" and cpl = zero_completion and d = d]) (use budget in auto)
  have "\<exists>e2 aq2 cmd2' cpl2 d2.
      nvme_qpair_submit_sync dbg hw aq1 cmd2 (nc_timeout_ms c) zero_completion d1 = Some (e2, aq2, cmd2', cpl2, d2) \<and>
      e2 \<in> {0, - EIO, EAGAIN, - ENOMEM} \<and> controller_step c (c\<lparr>nc_aq := aq2\<rparr>)" for cmd2
  proof -
    obtain e2 aq2 cmd2' cpl2 d2 where s2:
      "nvme_qpair_submit_sync dbg hw aq1 cmd2 (nc_timeout_ms c) zero_completion d1 = Some (e2, aq2, cmd2', cpl2, d2)"
      "e2 \<in> {0, - EIO, EAGAIN, - ENOMEM}" "qp_ok aq2" "qpair_live aq2" "\<forall>page. qpair_mem page aq2 = qpair_mem page aq1"
      "top (qpair_pool aq1) \<le> top (qpair_pool aq2) + 1"
      by (rule submit_live [OF s1(3,4), where dbg = dbg and hw = hw and cmd = cmd2 and timeout_ms = "nc_timeout_ms c" and cpl = zero_completion and d = d1]) (use budget s1(6) in auto)
    with s1(5,6) c(1,4) show ?thesis
      by (intro exI [of _ e2] exI [of _ aq2] exI [of _ cmd2'] exI [of _ cpl2] exI [of _ d2])
        (simp add: controller_step_def controller_ready_def bar0_mapped_def)
  qed
  moreover have "controller_step c (c\<lparr>nc_aq := aq1\<rparr>)"
    using s1(3-6) c(1,4) by (simp add: controller_step_def controller_ready_def bar0_mapped_def)
  ultimately show thesis using that s1(1,2) by blast
qed

lemma create_result:
  assumes ready: "controller_ready c" and hw: "stride_ok hw" and heap: "heap_owns heap ps" "qpair_heap heap"
    and budget: "dbg \<longrightarrow> 2 \<le> top (qpair_pool (nc_aq c))"
  obtains (refused) err c' qp' heap' d' where
      "nvme_controller_create_io_qpair dbg hw calloc_ok c zero_qpair depth heap d = Some (err, c', qp', heap', d')"
      "err < 0" "qp_rpool qp' \<in> {Null, Dangling}" "controller_step c c'" "qid_used (nc_qids c') = qid_used (nc_qids c)"
      "same_heap heap heap'" "heap_owns heap' ps"
    | (made) err c' qp' heap' d' where
      "nvme_controller_create_io_qpair dbg hw calloc_ok c zero_qpair depth heap d = Some (err, c', qp', heap', d')"
      "err \<in> {0, - EIO, EAGAIN, - ENOMEM}" "qpair_live qp'" "controller_step c c'"
      "unat (qp_qid qp') \<notin> qid_used (nc_qids c)" "unat (qp_qid qp') < 65472" "0 < unat (qp_qid qp')"
      "qid_used (nc_qids c') = insert (unat (qp_qid qp')) (qid_used (nc_qids c))"
      "same_heap heap heap'" "heap_owns heap' (qpair_mem (pg heap) qp' @ ps)"
proof -
  have c: "bar0_mapped c = Some ()" "qpair_live (nc_aq c)" "qp_ok (nc_aq c)" "qid_wf (nc_qids c)"
    using ready by (simp_all add: controller_ready_def)
  have refl: "controller_step c c" using ready by (simp add: controller_step_def)
  note def = nvme_controller_create_io_qpair_def Let_def
  from c(4) show thesis
  proof (cases rule: qid_search)
    case none
    with refl heap show thesis
      by (intro refused [of "- ENOMEM" c zero_qpair heap d]) (simp_all add: def same_heap_def)
  next
    case (found q bm')
    let ?q = "word_of_int (int q) :: u16"
    have q0: "?q \<noteq> 0" using found(2,5) by (metis unat_0 less_irrefl)
    have wide: "unat (ucast ?q :: u32) = q" using found(3,5) by (simp add: unsigned_ucast_eq take_bit_eq_mod)
    have db: "doorbells_ok hw d (ucast ?q)" by (rule stride_doorbells [OF hw]) (use wide found(3) in simp)
    from heap db show thesis
    proof (cases rule: qpair_init_owns [where dbg = dbg and calloc_ok = calloc_ok and qp = zero_qpair and depth = depth])
      case (fails ret qp' heap' d')
      obtain bm'' where bm'': "nvme_qid_free bm' ?q = Some (0, bm'')" "qid_wf bm''" "qid_used bm'' = qid_used bm' - {unat ?q}"
        by (rule qid_give_back [OF found(7) _ q0]) (use found(3,5) in simp)
      have "qp_rpool qp' \<in> {Null, Dangling}"
        using qpair_init_fails_pool [OF fails(1)] fails(2) by auto
      moreover have "controller_step c (c\<lparr>nc_qids := bm''\<rparr>)"
        using ready bm''(2) by (simp add: controller_step_def controller_ready_def bar0_mapped_def)
      ultimately show thesis
        using fails found(1,2,4,5,6,8) c(1) bm''(1,3)
        by (intro refused [of ret "c\<lparr>nc_qids := bm''\<rparr>" qp' heap' d']) (simp_all add: def)
    next
      case (gives qp' heap1 d1)
      have ok: "qpair_heap heap1" using heap(2) gives(2) by (simp add: qpair_heap_same)
      have rings: "(qp_sq qp', 65536) \<in> set (qpair_mem (pg heap) qp' @ ps)" "(qp_cq qp', 65536) \<in> set (qpair_mem (pg heap) qp' @ ps)"
        by (simp_all add: qpair_mem_def)
      obtain sq_phys where sq: "hostmem_dma_v2p heap1 (qp_sq qp') = Some sq_phys"
        by (rule owned_translates [OF gives(3) rings(1) _ ok]) simp
      obtain cq_phys where cq: "hostmem_dma_v2p heap1 (qp_cq qp') = Some cq_phys"
        by (rule owned_translates [OF gives(3) rings(2) _ ok]) simp
      let ?cdw10 = "push_bit 16 (ucast depth - 1) OR ucast ?q :: u32"
      let ?cmd1 = "zero_command\<lparr>cmd_opc := 0x5, cmd_prp1 := cq_phys, cmd_cdw10 := ?cdw10, cmd_cdw11 := 0x1\<rparr>"
      let ?cmd2 = "zero_command\<lparr>cmd_opc := 0x1, cmd_prp1 := sq_phys, cmd_cdw10 := ?cdw10, cmd_cdw11 := push_bit 16 (ucast ?q) OR 0x1\<rparr>"
      obtain e1 aq1 cmd1' cpl1 d2 where s1:
        "nvme_qpair_submit_sync dbg hw (nc_aq c) ?cmd1 (nc_timeout_ms c) zero_completion d1 = Some (e1, aq1, cmd1', cpl1, d2)"
        "e1 \<in> {0, - EIO, EAGAIN, - ENOMEM}" "controller_step c (c\<lparr>nc_aq := aq1\<rparr>)"
        "\<forall>cmd2. \<exists>e2 aq2 cmd2' cpl2 d3.
          nvme_qpair_submit_sync dbg hw aq1 cmd2 (nc_timeout_ms c) zero_completion d2 = Some (e2, aq2, cmd2', cpl2, d3) \<and>
          e2 \<in> {0, - EIO, EAGAIN, - ENOMEM} \<and> controller_step c (c\<lparr>nc_aq := aq2\<rparr>)"
        by (rule two_submissions [OF ready budget, where ?cmd1.0 = ?cmd1 and d = d1 and hw = hw])
      from s1(4) obtain e2 aq2 cmd2' cpl2 d3 where s2:
        "nvme_qpair_submit_sync dbg hw aq1 ?cmd2 (nc_timeout_ms c) zero_completion d2 = Some (e2, aq2, cmd2', cpl2, d3)"
        "e2 \<in> {0, - EIO, EAGAIN, - ENOMEM}" "controller_step c (c\<lparr>nc_aq := aq2\<rparr>)" by blast
      let ?c = "\<lambda>aq. c\<lparr>nc_qids := bm', nc_aq := aq\<rparr>"
      have qid: "unat (qp_qid qp') = q" using gives(6) wide by simp
      have step: "controller_step c (?c aq1)" "controller_step c (?c aq2)"
        using s1(3) s2(3) found(7) by (simp_all only: controller_step_qids)
      show thesis
      proof (cases "e1 = 0")
        case False
        with gives found(1,2,3,4,6,8) c(1) cq s1(1,2) qid step(1) show thesis
          by (intro made [of e1 "?c aq1" qp' heap1 d2]) (simp_all add: def)
      next
        case True
        with gives found(1,2,3,4,6,8) c(1) cq sq s1(1) s2(1,2) qid step(2) show thesis
          by (intro made [of e2 "?c aq2" qp' heap1 d3]) (simp_all add: def)
      qed
    qed
  qed
qed

section \<open>One deletion\<close>

lemma delete_result:
  assumes ready: "controller_ready c" and heap: "heap_owns heap (qpair_mem page qp @ ps)"
    and qp: "qpair_live qp" "unat (qp_qid qp) < 65472" "0 < unat (qp_qid qp)"
    and budget: "dbg \<longrightarrow> 2 \<le> top (qpair_pool (nc_aq c))"
  obtains err c' qp' heap' d' where
    "nvme_controller_delete_io_qpair dbg hw c qp heap d = Some (err, c', qp', heap', d')"
    "err \<in> {0, - EIO, EAGAIN, - ENOMEM}" "controller_step c c'"
    "qid_used (nc_qids c') = qid_used (nc_qids c) - {unat (qp_qid qp)}" "same_heap heap heap'" "heap_owns heap' ps"
proof -
  have c: "bar0_mapped c = Some ()" "qpair_live (nc_aq c)" "qp_ok (nc_aq c)" "qid_wf (nc_qids c)"
    using ready by (simp_all add: controller_ready_def)
  let ?q = "ucast (qp_qid qp) :: u16"
  have q: "unat ?q = unat (qp_qid qp)" using qp(2) by (simp add: unsigned_ucast_eq take_bit_eq_mod)
  then have q0: "?q \<noteq> 0" using qp(3) by (metis unat_0 less_irrefl)
  let ?cmd1 = "zero_command\<lparr>cmd_opc := 0x0, cmd_cdw10 := ucast ?q\<rparr>"
  let ?cmd2 = "zero_command\<lparr>cmd_opc := 0x4, cmd_cdw10 := ucast ?q\<rparr>"
  obtain e1 aq1 cmd1' cpl1 d2 where s1:
    "nvme_qpair_submit_sync dbg hw (nc_aq c) ?cmd1 (nc_timeout_ms c) zero_completion d = Some (e1, aq1, cmd1', cpl1, d2)"
    "\<forall>cmd2. \<exists>e2 aq2 cmd2' cpl2 d3.
      nvme_qpair_submit_sync dbg hw aq1 cmd2 (nc_timeout_ms c) zero_completion d2 = Some (e2, aq2, cmd2', cpl2, d3) \<and>
      e2 \<in> {0, - EIO, EAGAIN, - ENOMEM} \<and> controller_step c (c\<lparr>nc_aq := aq2\<rparr>)"
    by (rule two_submissions [OF ready budget, where ?cmd1.0 = ?cmd1 and d = d and hw = hw])
  from s1(2) obtain e2 aq2 cmd2' cpl2 d3 where s2:
    "nvme_qpair_submit_sync dbg hw aq1 ?cmd2 (nc_timeout_ms c) zero_completion d2 = Some (e2, aq2, cmd2', cpl2, d3)"
    "e2 \<in> {0, - EIO, EAGAIN, - ENOMEM}" "controller_step c (c\<lparr>nc_aq := aq2\<rparr>)" by blast
  obtain heap' where h: "nvme_qpair_term qp heap = Some (qp\<lparr>qp_rpool := Dangling\<rparr>, heap')" "same_heap heap heap'"
    "heap_owns heap' ps" by (rule qpair_term_owns [OF heap qp(1)])
  obtain bm' where bm': "nvme_qid_free (nc_qids c) ?q = Some (0, bm')" "qid_wf bm'"
    "qid_used bm' = qid_used (nc_qids c) - {unat ?q}"
    by (rule qid_give_back [OF c(4) _ q0]) (use q qp(2) in simp)
  have "controller_step c (c\<lparr>nc_aq := aq2, nc_qids := bm'\<rparr>)"
    using controller_step_qids [OF s2(3) bm'(2)] by (simp add: controller_step_def controller_ready_def bar0_mapped_def)
  then show thesis
    by (intro that [of e2 "c\<lparr>nc_aq := aq2, nc_qids := bm'\<rparr>" "qp\<lparr>qp_rpool := Dangling\<rparr>" heap' d3])
      (use s1(1) s2(1,2) h bm' q in \<open>simp_all add: nvme_controller_delete_io_qpair_def Let_def\<close>)
qed

section \<open>Runs\<close>

text \<open>A client creates queue pairs of a depth of its choice, and deletes those it holds by their place
  in its list. Queue pairs that were set up but that the controller did not confirm are lost: the
  client holds an error and the code keeps their memory and their identifier.\<close>

datatype io_event = Create u16 bool | Delete nat

record 'd io_state =
  st_ctrlr :: nvme_controller
  st_qps :: "nvme_qpair list"
  st_lost :: "nvme_qpair list"
  st_heap :: hostmem_heap
  st_dev :: 'd

fun is_live :: "nvme_qpair \<Rightarrow> bool" where
  "is_live qp = (case qp_rpool qp of Live pool \<Rightarrow> True | _ \<Rightarrow> False)"

fun io_step :: "bool \<Rightarrow> ('d, 'x) dma_hw_scheme \<Rightarrow> io_event \<Rightarrow> 'd io_state \<Rightarrow> 'd io_state option" where
  "io_step dbg hw (Create depth calloc_ok) s = do {
     (err, c, qp, heap, d) \<leftarrow> nvme_controller_create_io_qpair dbg hw calloc_ok (st_ctrlr s) zero_qpair depth (st_heap s) (st_dev s);
     Some \<lparr>st_ctrlr = c, st_qps = (if err = 0 then qp # st_qps s else st_qps s),
       st_lost = (if err \<noteq> 0 \<and> is_live qp then qp # st_lost s else st_lost s), st_heap = heap, st_dev = d\<rparr> }"
| "io_step dbg hw (Delete i) s =
     (if length (st_qps s) \<le> i then Some s
      else do {
        (err, c, qp, heap, d) \<leftarrow> nvme_controller_delete_io_qpair dbg hw (st_ctrlr s) (st_qps s ! i) (st_heap s) (st_dev s);
        Some (s\<lparr>st_ctrlr := c, st_qps := take i (st_qps s) @ drop (Suc i) (st_qps s), st_heap := heap, st_dev := d\<rparr>) })"

fun io_run :: "bool \<Rightarrow> ('d, 'x) dma_hw_scheme \<Rightarrow> io_event list \<Rightarrow> 'd io_state \<Rightarrow> 'd io_state option" where
  "io_run dbg hw [] s = Some s"
| "io_run dbg hw (ev # evs) s = do { s' \<leftarrow> io_step dbg hw ev s; io_run dbg hw evs s' }"

text \<open>All memory in use: the queue pairs' and the controller's.\<close>

abbreviation all_qps :: "'d io_state \<Rightarrow> nvme_qpair list" where
  "all_qps s \<equiv> st_qps s @ st_lost s"

definition all_mem :: "nat \<Rightarrow> 'd io_state \<Rightarrow> (u64 \<times> nat) list" where
  "all_mem page s = concat (map (qpair_mem page) (all_qps s)) @ controller_mem page (st_ctrlr s)"

definition io_inv :: "nat \<Rightarrow> (u64 \<times> nat) list \<Rightarrow> 'd io_state \<Rightarrow> bool" where
  "io_inv page ps s \<longleftrightarrow> controller_ready (st_ctrlr s) \<and> qpair_heap (st_heap s) \<and> pg (st_heap s) = page \<and>
     (\<forall>qp \<in> set (all_qps s). qpair_live qp \<and> 0 < unat (qp_qid qp) \<and> unat (qp_qid qp) < 65472) \<and>
     distinct (map qp_qid (all_qps s)) \<and>
     qid_used (nc_qids (st_ctrlr s)) = insert 0 (unat ` qp_qid ` set (all_qps s)) \<and>
     heap_owns (st_heap s) (all_mem page s @ ps)"

lemma all_mem_pick:
  assumes "i < length (st_qps s)"
  shows "mset (all_mem page s @ ps) = mset (qpair_mem page (st_qps s ! i) @
    concat (map (qpair_mem page) (take i (st_qps s) @ drop (Suc i) (st_qps s) @ st_lost s)) @
    controller_mem page (st_ctrlr s) @ ps)"
proof -
  have "st_qps s = take i (st_qps s) @ st_qps s ! i # drop (Suc i) (st_qps s)" using assms by (rule id_take_nth_drop)
  then have "map (qpair_mem page) (st_qps s) =
      map (qpair_mem page) (take i (st_qps s)) @ qpair_mem page (st_qps s ! i) # map (qpair_mem page) (drop (Suc i) (st_qps s))"
    by (metis list.simps(9) map_append)
  then show ?thesis by (simp add: all_mem_def ac_simps)
qed

lemma io_invD:
  assumes "io_inv page ps s"
  shows "controller_ready (st_ctrlr s)" "qpair_heap (st_heap s)" "pg (st_heap s) = page"
    "\<forall>qp \<in> set (all_qps s). qpair_live qp \<and> 0 < unat (qp_qid qp) \<and> unat (qp_qid qp) < 65472"
    "distinct (map qp_qid (all_qps s))" "qid_used (nc_qids (st_ctrlr s)) = insert 0 (unat ` qp_qid ` set (all_qps s))"
    "heap_owns (st_heap s) (all_mem page s @ ps)"
  using assms by (simp_all add: io_inv_def)

text \<open>A queue pair is added to those in use, or taken from them.\<close>

lemma io_inv_add:
  assumes inv: "io_inv page ps s" and step: "controller_step (st_ctrlr s) (st_ctrlr s')"
    and qp: "qpair_live qp" "unat (qp_qid qp) \<notin> qid_used (nc_qids (st_ctrlr s))" "unat (qp_qid qp) < 65472" "0 < unat (qp_qid qp)"
    and used: "qid_used (nc_qids (st_ctrlr s')) = insert (unat (qp_qid qp)) (qid_used (nc_qids (st_ctrlr s)))"
    and heap: "same_heap (st_heap s) (st_heap s')" "heap_owns (st_heap s') (qpair_mem page qp @ all_mem page s @ ps)"
    and qps: "all_qps s' = xs @ qp # ys" "all_qps s = xs @ ys"
  shows "io_inv page ps s'"
proof -
  note i = io_invD [OF inv]
  have set: "set (all_qps s') = set (qp # all_qps s)" unfolding qps by simp
  have fresh: "qp_qid qp \<notin> qp_qid ` set (all_qps s)" using qp(2) i(6) by blast
  have "mset (all_mem page s' @ ps) = mset (qpair_mem page qp @ all_mem page s @ ps)"
    unfolding all_mem_def controller_mem_step [OF step] qps by simp
  then have "heap_owns (st_heap s') (all_mem page s' @ ps)" using heap(2) heap_owns_perm by blast
  moreover have "distinct (map qp_qid (all_qps s'))" using i(5) fresh unfolding qps by auto
  moreover have "\<forall>qp \<in> set (all_qps s'). qpair_live qp \<and> 0 < unat (qp_qid qp) \<and> unat (qp_qid qp) < 65472"
    unfolding set using i(4) qp by simp
  moreover have "qid_used (nc_qids (st_ctrlr s')) = insert 0 (unat ` qp_qid ` set (all_qps s'))"
    unfolding set using used i(6) by auto
  moreover have "controller_ready (st_ctrlr s')" using step by (simp only: controller_step_def)
  moreover have "qpair_heap (st_heap s')" using qpair_heap_same [OF heap(1)] i(2) by (simp only:)
  moreover have "pg (st_heap s') = page" using i(3) heap(1) by (simp only: same_heap_def)
  ultimately show ?thesis unfolding io_inv_def by (intro conjI)
qed

lemma io_inv_remove:
  assumes inv: "io_inv page ps s" and step: "controller_step (st_ctrlr s) (st_ctrlr s')"
    and n: "n < length (st_qps s)"
    and used: "qid_used (nc_qids (st_ctrlr s')) = qid_used (nc_qids (st_ctrlr s)) - {unat (qp_qid (st_qps s ! n))}"
    and heap: "same_heap (st_heap s) (st_heap s')" "heap_owns (st_heap s') (all_mem page s' @ ps)"
    and rest: "all_qps s' = take n (st_qps s) @ drop (Suc n) (st_qps s) @ st_lost s"
  shows "io_inv page ps s'"
proof -
  note i = io_invD [OF inv]
  let ?qp = "st_qps s ! n"
  have "st_qps s = take n (st_qps s) @ ?qp # drop (Suc n) (st_qps s)" by (rule id_take_nth_drop [OF n])
  then have qps: "all_qps s = take n (st_qps s) @ ?qp # drop (Suc n) (st_qps s) @ st_lost s"
    by (metis append.assoc append_Cons)
  have d: "qp_qid ?qp \<notin> qp_qid ` set (all_qps s')" "distinct (map qp_qid (all_qps s'))"
    using i(5) unfolding qps rest by auto
  define U where "U = unat ` qp_qid ` set (all_qps s')"
  have "unat ` qp_qid ` set (all_qps s) = insert (unat (qp_qid ?qp)) U" unfolding U_def qps rest by auto
  moreover have "unat (qp_qid ?qp) \<notin> U" using d(1) unfolding U_def unat_mem_image .
  moreover have "0 < unat (qp_qid ?qp)" using i(4) n by simp
  ultimately have "qid_used (nc_qids (st_ctrlr s')) = insert 0 (unat ` qp_qid ` set (all_qps s'))"
    unfolding U_def [symmetric] using used i(6) by (auto simp del: set_append)
  moreover have "\<forall>qp \<in> set (all_qps s'). qpair_live qp \<and> 0 < unat (qp_qid qp) \<and> unat (qp_qid qp) < 65472"
    using i(4) unfolding qps rest by auto
  moreover have "controller_ready (st_ctrlr s')" using step by (simp only: controller_step_def)
  moreover have "qpair_heap (st_heap s')" using qpair_heap_same [OF heap(1)] i(2) by (simp only:)
  moreover have "pg (st_heap s') = page" using i(3) heap(1) by (simp only: same_heap_def)
  ultimately show ?thesis using d(2) heap(2) unfolding io_inv_def by (intro conjI)
qed

lemma io_create_inv:
  assumes inv: "io_inv page ps s" and hw: "stride_ok hw"
    and budget: "dbg \<longrightarrow> 2 \<le> top (qpair_pool (nc_aq (st_ctrlr s)))"
  obtains s' where "io_step dbg hw (Create depth calloc_ok) s = Some s'" "io_inv page ps s'"
    "controller_step (st_ctrlr s) (st_ctrlr s')"
proof -
  note i = io_invD [OF inv]
  from i(1) hw i(7,2) budget show thesis
  proof (cases rule: create_result [where calloc_ok = calloc_ok and depth = depth and d = "st_dev s"])
    case (refused err c' qp' heap' d')
    let ?s = "s\<lparr>st_ctrlr := c', st_heap := heap', st_dev := d'\<rparr>"
    have "io_step dbg hw (Create depth calloc_ok) s = Some ?s" using refused(1,2,3) by auto
    moreover have "io_inv page ps ?s"
      using i refused(4-7) controller_mem_step [OF refused(4)]
      by (simp add: io_inv_def all_mem_def controller_step_def qpair_heap_same same_heap_def [of _ heap'])
    ultimately show thesis using refused(4) by (intro that [of ?s]) simp_all
  next
    case (made err c' qp' heap' d')
    let ?s = "\<lparr>st_ctrlr = c', st_qps = (if err = 0 then qp' # st_qps s else st_qps s),
      st_lost = (if err = 0 then st_lost s else qp' # st_lost s), st_heap = heap', st_dev = d'\<rparr>"
    have "is_live qp'" using made(3) by (auto simp: qpair_live_def)
    then have step: "io_step dbg hw (Create depth calloc_ok) s = Some ?s" using made(1) by simp
    have "io_inv page ps ?s"
    proof (rule io_inv_add [OF inv _ made(3) made(5-7)])
      show "all_qps ?s = (if err = 0 then [] else st_qps s) @ qp' # (if err = 0 then all_qps s else st_lost s)" by simp
    qed (use made(4,8-10) i(3) in simp_all)
    with step show thesis by (rule that) (simp add: made(4))
  qed
qed

lemma io_delete_inv:
  assumes inv: "io_inv page ps s" and n: "n < length (st_qps s)"
    and budget: "dbg \<longrightarrow> 2 \<le> top (qpair_pool (nc_aq (st_ctrlr s)))"
  obtains s' where "io_step dbg hw (Delete n) s = Some s'" "io_inv page ps s'"
    "controller_step (st_ctrlr s) (st_ctrlr s')"
proof -
  note i = io_invD [OF inv]
  let ?c = "st_ctrlr s" and ?qp = "st_qps s ! n" and ?rest = "take n (st_qps s) @ drop (Suc n) (st_qps s)"
  have m: "?qp \<in> set (all_qps s)" using n by simp
  have own: "heap_owns (st_heap s) (qpair_mem (pg (st_heap s)) ?qp @
      concat (map (qpair_mem page) (?rest @ st_lost s)) @ controller_mem page ?c @ ps)"
    using i(3,7) heap_owns_perm [OF all_mem_pick [OF n]] by simp
  have live: "qpair_live ?qp" "unat (qp_qid ?qp) < 65472" "0 < unat (qp_qid ?qp)" using i(4) m by auto
  obtain err c' qp' heap' d' where r:
    "nvme_controller_delete_io_qpair dbg hw ?c ?qp (st_heap s) (st_dev s) = Some (err, c', qp', heap', d')"
    "controller_step ?c c'" "qid_used (nc_qids c') = qid_used (nc_qids ?c) - {unat (qp_qid ?qp)}" "same_heap (st_heap s) heap'"
    "heap_owns heap' (concat (map (qpair_mem page) (?rest @ st_lost s)) @ controller_mem page ?c @ ps)"
    by (rule delete_result [OF i(1) own live]) (use budget in auto)
  let ?s = "s\<lparr>st_ctrlr := c', st_qps := ?rest, st_heap := heap', st_dev := d'\<rparr>"
  have "io_step dbg hw (Delete n) s = Some ?s" using n r(1) by simp
  moreover have mem: "all_mem page ?s @ ps = concat (map (qpair_mem page) (?rest @ st_lost s)) @ controller_mem page ?c @ ps"
    by (simp add: all_mem_def controller_mem_step [OF r(2)])
  have "io_inv page ps ?s"
    by (rule io_inv_remove [OF inv _ n]) (use r mem in simp_all)
  ultimately show thesis by (rule that) (simp add: r(2))
qed

lemma io_step_inv:
  assumes inv: "io_inv page ps s" and hw: "stride_ok hw"
    and budget: "dbg \<longrightarrow> 2 \<le> top (qpair_pool (nc_aq (st_ctrlr s)))"
  obtains s' where "io_step dbg hw ev s = Some s'" "io_inv page ps s'"
    "top (qpair_pool (nc_aq (st_ctrlr s))) \<le> top (qpair_pool (nc_aq (st_ctrlr s'))) + 2"
proof (cases ev)
  case (Create depth calloc_ok)
  with io_create_inv [OF inv hw budget] that show thesis unfolding controller_step_def by metis
next
  case (Delete n)
  show thesis
  proof (cases "n < length (st_qps s)")
    case True
    with Delete io_delete_inv [OF inv _ budget] that show thesis unfolding controller_step_def by metis
  next
    case False
    with Delete inv show thesis by (intro that [of s]) simp_all
  qed
qed

lemma io_run_inv:
  assumes "io_inv page ps s" "stride_ok hw" "dbg \<longrightarrow> 2 * length evs \<le> top (qpair_pool (nc_aq (st_ctrlr s)))"
  shows "\<exists>s'. io_run dbg hw evs s = Some s' \<and> io_inv page ps s'"
  using assms(1,3)
proof (induction evs arbitrary: s)
  case (Cons ev evs)
  from Cons.prems(2) have "dbg \<longrightarrow> 2 \<le> top (qpair_pool (nc_aq (st_ctrlr s)))" by auto
  then obtain s1 where s1: "io_step dbg hw ev s = Some s1" "io_inv page ps s1"
    "top (qpair_pool (nc_aq (st_ctrlr s))) \<le> top (qpair_pool (nc_aq (st_ctrlr s1))) + 2"
    by (rule io_step_inv [OF Cons.prems(1) assms(2)])
  have "dbg \<longrightarrow> 2 * length evs \<le> top (qpair_pool (nc_aq (st_ctrlr s1)))" using Cons.prems(2) s1(3) by auto
  from Cons.IH [OF s1(2) this] s1(1) show ?case by simp
qed simp

definition start_io :: "nvme_controller \<Rightarrow> hostmem_heap \<Rightarrow> 'd \<Rightarrow> 'd io_state" where
  "start_io ctrlr heap d = \<lparr>st_ctrlr = ctrlr, st_qps = [], st_lost = [], st_heap = heap, st_dev = d\<rparr>"

lemma full_pool_top: "pool_wf pool \<Longrightarrow> free_cids pool = all_cids \<Longrightarrow> top pool = NVME_REQUEST_POOL_LEN"
  using top_less_iff [of pool] by (auto simp: pool_wf_def)



end
