(* ===== verification/Nvme_Controller_Cuda_Props.thy ===== *)
theory Nvme_Controller_Cuda_Props
  imports Nvme_Controller_Cuda Nvme_Controller_Runs Cudamem_Props
begin

unbundle bit_operations_syntax

text \<open>
  Creating and deleting queue pairs on a GPU: what a failing creation gives back, and what neither of
  the two operations ever gives back.
\<close>

section \<open>The driver and the heap\<close>

text \<open>What the driver does to the doorbells that are registered: an address can be registered once, and
  the other calls register nothing. \<open>malloc\<close> is none of its calls.\<close>

definition cuda_lawful :: "('k, 'x) cuda_os_scheme \<Rightarrow> ('k \<Rightarrow> u32 set) \<Rightarrow> bool" where
  "cuda_lawful os regs \<longleftrightarrow>
     (\<forall>k a. if fst (cu_register os k a) = 0
        then a \<notin> regs k \<and> regs (snd (cu_register os k a)) = insert a (regs k)
        else regs (snd (cu_register os k a)) = regs k) \<and>
     (\<forall>k a. regs (snd (cu_unregister os k a)) = regs k - {a}) \<and>
     (\<forall>k. regs (snd (cu_clock_rate os k)) = regs k) \<and> (\<forall>k. regs (snd (os_malloc os k)) = regs k) \<and>
     (\<forall>k p qp. regs (snd (cu_put_qpair os k p qp)) = regs k) \<and> (\<forall>k p. regs (snd (cu_get_qpair os k p)) = regs k)"

lemma cuda_lawfulD:
  assumes "cuda_lawful os regs"
  shows "cu_register os k a = (0, k') \<Longrightarrow> a \<notin> regs k \<and> regs k' = insert a (regs k)"
    "cu_register os k a = (e, k') \<Longrightarrow> e \<noteq> 0 \<Longrightarrow> regs k' = regs k"
    "regs (snd (cu_unregister os k a)) = regs k - {a}" "cu_clock_rate os k = (hz, k') \<Longrightarrow> regs k' = regs k"
    "regs (snd (os_malloc os k)) = regs k" "cu_put_qpair os k p qp = (e, k') \<Longrightarrow> regs k' = regs k"
    "cu_get_qpair os k p = (x, k') \<Longrightarrow> regs k' = regs k"
proof -
  note d = assms [unfolded cuda_lawful_def]
  have r: "if fst (cu_register os k a) = 0
      then a \<notin> regs k \<and> regs (snd (cu_register os k a)) = insert a (regs k)
      else regs (snd (cu_register os k a)) = regs k" by (rule d [THEN conjunct1, rule_format])
  then show "cu_register os k a = (0, k') \<Longrightarrow> a \<notin> regs k \<and> regs k' = insert a (regs k)"
    "cu_register os k a = (e, k') \<Longrightarrow> e \<noteq> 0 \<Longrightarrow> regs k' = regs k" by simp_all
  show "regs (snd (cu_unregister os k a)) = regs k - {a}" "regs (snd (os_malloc os k)) = regs k"
    by (rule d [THEN conjunct2, THEN conjunct1, rule_format])
      (rule d [THEN conjunct2, THEN conjunct2, THEN conjunct2, THEN conjunct1, rule_format])
  have "regs (snd (cu_clock_rate os k)) = regs k" "regs (snd (cu_put_qpair os k p qp)) = regs k"
    "regs (snd (cu_get_qpair os k p)) = regs k"
    by (rule d [THEN conjunct2, THEN conjunct2, THEN conjunct1, rule_format]
        d [THEN conjunct2, THEN conjunct2, THEN conjunct2, THEN conjunct2, THEN conjunct1, rule_format]
        d [THEN conjunct2, THEN conjunct2, THEN conjunct2, THEN conjunct2, THEN conjunct2, rule_format])+
  then show "cu_clock_rate os k = (hz, k') \<Longrightarrow> regs k' = regs k" "cu_put_qpair os k p qp = (e, k') \<Longrightarrow> regs k' = regs k"
    "cu_get_qpair os k p = (x, k') \<Longrightarrow> regs k' = regs k" by simp_all
qed

lemma device_alloc_loop_keeps:
  assumes "\<forall>k. f (snd (os_malloc os k)) = f k"
  shows "f (snd (snd (device_alloc_loop os base dpage tot elem bs k))) = f k"
  using assms
proof (induction os base dpage tot elem bs k rule: device_alloc_loop.induct)
  case (2 os base dpage tot elem b bs k)
  obtain rem dis where pm: "page_misfit base dpage elem b = (rem, dis)" by (cases "page_misfit base dpage elem b")
  obtain ok k1 where m: "os_malloc os k = (ok, k1)" by (cases "os_malloc os k")
  have k1: "f k1 = f k" using "2.prems" m by (metis snd_conv)
  consider (skip) "db_free b \<and> tot \<le> db_size b" "rem < tot \<and> dis \<noteq> 0"
    | (fit) "db_free b \<and> tot \<le> db_size b" "\<not> (rem < tot \<and> dis \<noteq> 0)"
    | (walk) "\<not> (db_free b \<and> tot \<le> db_size b)" by blast
  then show ?case
  proof cases
    case skip
    let ?new = "\<lparr>db_vaddr = db_vaddr b + dis, db_size = db_size b - dis, db_free = True\<rparr>"
    have "ok \<Longrightarrow> f (snd (snd (device_alloc_loop os base dpage tot elem (?new # bs) k1))) = f k1"
      using "2.IH"(1) [OF skip(1) pm [symmetric] refl skip(2) m [symmetric] refl _ refl "2.prems"]
      by (simp del: device_alloc_loop.simps)
    with skip pm m k1 show ?thesis
      by (subst device_alloc_loop.simps(2)) (simp add: case_prod_beta Let_def del: device_alloc_loop.simps)
  next
    case fit
    with pm m k1 show ?thesis by (simp add: Let_def if_not_P [OF fit(2)])
  next
    case walk
    with "2.IH"(2) [OF walk "2.prems"] show ?thesis by (simp add: case_prod_beta if_not_P [OF walk])
  qed
qed simp

lemma block_alloc_keeps:
  assumes "\<forall>k. f (snd (os_malloc os k)) = f k" "cudamem_heap_block_alloc os heap n k = Some (r, heap', k')"
  shows "f k' = f k"
  using assms(2) device_alloc_loop_keeps [OF assms(1)]
  by (auto simp: cudamem_heap_block_alloc_def cudamem_heap_block_alloc_aligned_def
      cudamem_heap_block_alloc_array_aligned_def Let_def split: if_split_asm prod.split_asm) (metis snd_conv)+

text \<open>A heap all of which is translated, as \<open>cudamem_heap_init\<close> sets it up.\<close>

definition cuda_heap :: "cudamem_heap \<Rightarrow> bool" where
  "cuda_heap heap \<longleftrightarrow> device_ok heap \<and> device_lut_ok heap \<and> device_limit heap = unat (dh_size heap)"

lemma cuda_heap_same: "cuda_heap heap \<Longrightarrow> same_device heap heap' \<Longrightarrow> device_ok heap' \<Longrightarrow> cuda_heap heap'"
  by (simp add: cuda_heap_def device_lut_ok_def same_deviceD)

lemma live_nonempty: "positive bs \<Longrightarrow> x \<in> set (live 0 bs) \<Longrightarrow> fst x < snd x"
  by (induction bs) (auto split: if_split_asm)

text \<open>What was given out is translated.\<close>

lemma cuda_vtp:
  assumes "cuda_heap heap" "unat p \<in> fst ` set (device_payloads heap)"
  obtains a where "cudamem_heap_block_vtp dbg heap p = Some a"
proof -
  have ok: "device_ok heap" and lut: "device_lut_ok heap" and lim: "device_limit heap = unat (dh_size heap)"
    using assms(1) by (simp_all add: cuda_heap_def)
  obtain x where x: "x \<in> set (live 0 (heap_blks heap))" "unat p = unat (dh_vaddr heap) + fst x"
    using assms(2) by (auto simp: device_payloads_def)
  have t: "tiles 0 (unat (dh_size heap)) 0 (heap_blks heap)" "positive (heap_blks heap)" using ok by (simp_all add: device_ok_def)
  have "fst x < device_limit heap" using live_bounds [OF t(1) x(1)] live_nonempty [OF t(2) x(1)] lim by simp
  from device_space.v2p_phys [OF lut this, of dbg] have "cudamem_heap_block_vtp dbg heap (dh_vaddr heap + of_nat (fst x)) \<noteq> None" by simp
  moreover have "p = dh_vaddr heap + of_nat (fst x)" proof -
    have "(of_nat (unat p) :: u64) = dh_vaddr heap + of_nat (fst x)" by (simp add: x(2))
    then show ?thesis by simp
  qed
  ultimately show thesis using that by auto
qed

lemma cuda_alloc:
  assumes "cuda_heap heap" "n \<noteq> 0" "unat n \<le> 2 ^ 63" "\<forall>k. f (snd (os_malloc os k)) = f k"
  obtains (fails) e heap' k' where "cudamem_heap_block_alloc os heap n k = Some (Inl e, heap', k')" "0 < e"
      "cuda_heap heap'" "device_payloads heap' = device_payloads heap" "f k' = f k"
    | (gives) p heap' k' xs e ys where "cudamem_heap_block_alloc os heap n k = Some (Inr p, heap', k')"
      "cuda_heap heap'" "device_payloads heap = xs @ ys" "device_payloads heap' = xs @ (unat p, e) # ys" "f k' = f k"
proof -
  have ok: "device_ok heap" using assms(1) by (simp add: cuda_heap_def)
  have "device_request_ok (heap, k) (Bytes n)" using assms(3) by (simp add: device_request_ok_def)
  from device_request_live [OF ok this, of os] obtain x heap' k' where
    "device_request os (heap, k) (Bytes n) = Some (x, (heap', k'))" "same_device heap heap'"
    "device_outcome heap' (device_payloads heap) (unat n) x" by auto
  moreover from this have a: "cudamem_heap_block_alloc os heap n k = Some (x, heap', k')"
    using assms(2) by (auto simp: cudamem_dma_malloc_def split: Option.bind_split_asm)
  moreover have "f k' = f k" by (rule block_alloc_keeps [OF assms(4) a])
  moreover have "cuda_heap heap'" by (rule cuda_heap_same [OF assms(1)]) (use calculation in \<open>auto simp: device_outcome_def\<close>)
  ultimately show thesis
    using that by (cases x) (auto simp: device_outcome_def)
qed

text \<open>Giving blocks back.\<close>

lemma cuda_free:
  assumes "cuda_heap heap" "unat p \<in> fst ` set (device_payloads heap)"
  shows "cuda_heap (cudamem_heap_block_free heap p)"
    "device_payloads (cudamem_heap_block_free heap p) = filter (\<lambda>x. fst x \<noteq> unat p) (device_payloads heap)"
proof -
  have ok: "device_ok heap" using assms(1) by (simp add: cuda_heap_def)
  show "cuda_heap (cudamem_heap_block_free heap p)"
    by (rule cuda_heap_same [OF assms(1) device_free_keeps(2) [OF ok] device_free_keeps(1) [OF ok]])
  show "device_payloads (cudamem_heap_block_free heap p) = filter (\<lambda>x. fst x \<noteq> unat p) (device_payloads heap)"
    using device_release_live(4) [OF ok assms(2)] by (simp add: cudamem_dma_free_def)
qed

lemma cuda_taken:
  assumes "cuda_heap heap" "device_payloads heap = xs @ (unat p, e) # ys"
  shows "filter (\<lambda>x. fst x \<noteq> unat p) (device_payloads heap) = xs @ ys" "unat p \<in> fst ` set (device_payloads heap)"
    "unat p \<notin> fst ` set (xs @ ys)"
proof -
  have "distinct (map fst (device_payloads heap))"
    by (rule ordered_distinct [OF device_payloads_order]) (use assms(1) in \<open>simp add: cuda_heap_def\<close>)
  then show "unat p \<notin> fst ` set (xs @ ys)" unfolding assms(2) by auto
  then show "filter (\<lambda>x. fst x \<noteq> unat p) (device_payloads heap) = xs @ ys"
    unfolding assms(2) by (simp, intro arg_cong2 [where f = "(@)"] filter_True) (force)+
  show "unat p \<in> fst ` set (device_payloads heap)" using assms(2) by force
qed

section \<open>Set-up\<close>

lemma int_doorbell_fits:
  assumes "index < 2 ^ 17" "n \<le> 12"
  obtains off where "int_doorbell index n = Some off"
proof -
  have "(2 :: nat) ^ (2 + n) \<le> 2 ^ 14" by (rule power_increasing) (use assms(2) in auto)
  then have "index * 2 ^ (2 + n) \<le> index * 2 ^ 14" by (rule mult_le_mono2)
  also have "\<dots> < 2 ^ 17 * 2 ^ 14" using assms(1) by simp
  finally have "\<not> 2 ^ 31 \<le> index * 2 ^ (2 + n)" by simp
  then show thesis using that by (simp add: int_doorbell_def Let_def)
qed

lemma ring_bytes:
  assumes "depth \<noteq> 0"
  shows "(ucast (depth :: u16) * 64 :: u64) \<noteq> 0" "unat (ucast depth * 64 :: u64) \<le> 2 ^ 63"
proof -
  have b: "unat (ucast depth :: u64) = unat depth" "unat depth < 65536" "0 < unat depth"
    using unat_u16_bound [of depth] assms by (simp_all add: unsigned_ucast_eq take_bit_eq_mod unat_gt_0)
  then have u: "unat (ucast depth * 64 :: u64) = unat depth * 64" by (simp add: unat_word_ariths)
  show "unat (ucast depth * 64 :: u64) \<le> 2 ^ 63" unfolding u using b by simp
  show "(ucast depth * 64 :: u64) \<noteq> 0" using u b(3) by (metis mult_is_0 unat_0 zero_neq_numeral less_irrefl)
qed

text \<open>Both rings given back: the heap holds what it held before they were taken.\<close>

lemma cuda_free_rings:
  assumes sq: "cuda_heap heap1" "device_payloads heap = xs @ ys" "device_payloads heap1 = xs @ (unat sq, e) # ys"
    and cq: "cuda_heap heap2" "device_payloads heap1 = xs' @ ys'" "device_payloads heap2 = xs' @ (unat cq, e') # ys'"
  shows "cuda_heap (cudamem_heap_block_free (cudamem_heap_block_free heap2 sq) cq)"
    "device_payloads (cudamem_heap_block_free (cudamem_heap_block_free heap2 sq) cq) = device_payloads heap"
proof -
  note t1 = cuda_taken [OF sq(1,3)] and t2 = cuda_taken [OF cq(1,3)]
  have ne: "sq \<noteq> cq" using t1(2) t2(3) cq(2) by auto
  have m: "unat sq \<in> fst ` set (device_payloads heap2)" using t1(2) unfolding cq(2,3) by auto
  note f1 = cuda_free [OF cq(1) m]
  have "unat cq \<noteq> unat sq" using ne by (simp add: word_unat_eq_iff)
  then have "unat cq \<in> fst ` set (device_payloads (cudamem_heap_block_free heap2 sq))"
    unfolding f1(2) using t2(2) by fastforce
  note f2 = cuda_free [OF f1(1) this]
  show "cuda_heap (cudamem_heap_block_free (cudamem_heap_block_free heap2 sq) cq)" by (rule f2(1))
  have "filter (\<lambda>x. fst x \<noteq> unat cq) (filter (\<lambda>x. fst x \<noteq> unat sq) (device_payloads heap2)) =
      filter (\<lambda>x. fst x \<noteq> unat sq) (filter (\<lambda>x. fst x \<noteq> unat cq) (device_payloads heap2))"
    by (simp add: conj_commute)
  also have "\<dots> = device_payloads heap" using t1(1) t2(1) sq(2) cq(2) by simp
  finally show "device_payloads (cudamem_heap_block_free (cudamem_heap_block_free heap2 sq) cq) = device_payloads heap"
    using f1(2) f2(2) by simp
qed

text \<open>The set-up takes nothing when it fails, and two blocks and two registrations when it succeeds.\<close>

lemma cuda_set_up_result:
  assumes law: "cuda_lawful os regs" and heap: "cuda_heap heap" and c: "bar0_mapped c = Some ()"
    and hw: "stride_ok hw" and q: "unat qid < 65472" and depth: "depth \<noteq> 0"
  obtains (fails) err qp heap' d' k' where "cuda_set_up hw os c qpair qid depth heap d k = Some (err, qp, heap', d', k')"
      "err \<noteq> 0" "cuda_heap heap'" "device_payloads heap' = device_payloads heap" "regs k' = regs k"
    | (gives) qp heap' d' k' where "cuda_set_up hw os c qpair qid depth heap d k = Some (0, qp, heap', d', k')"
      "cuda_heap heap'" "mset (map fst (device_payloads heap')) =
        mset (unat (qc_sq qp) # unat (qc_cq qp) # map fst (device_payloads heap))"
      "regs k' = insert (qc_sqdb qp) (insert (qc_cqdb qp) (regs k))" "qc_qid qp = ucast qid"
proof -
  note reg = cuda_lawfulD [OF law]
  have mal: "\<forall>k. regs (snd (os_malloc os k)) = regs k" using reg(5) by blast
  obtain cap d1 where cap: "nvme_mmio_cap_read hw d = (cap, d1)" by (cases "nvme_mmio_cap_read hw d")
  let ?n = "unat (nvme_reg_cap_get_dstrd cap)"
  have n: "?n \<le> 12" using hw cap by (metis fst_conv stride_ok_def)
  obtain sqdb where sqdb: "int_doorbell (2 * unat qid) ?n = Some sqdb" by (rule int_doorbell_fits [OF _ n]) (use q in auto)
  obtain cqdb where cqdb: "int_doorbell (Suc (2 * unat qid)) ?n = Some cqdb" by (rule int_doorbell_fits [OF _ n]) (use q in auto)
  obtain khz k1 where hz: "cu_clock_rate os k = (khz, k1)" by (cases "cu_clock_rate os k")
  let ?qp = "zero_qpair_cuda\<lparr>qc_sqdb := sqdb, qc_cqdb := cqdb, qc_qid := ucast qid, qc_tail := 0, qc_head := 0,
       qc_depth := depth, qc_phase := 1, qc_timeout_ms := word_of_int (nc_timeout_ms c),
       qc_clocks_per_ms := word_of_int khz\<rparr>"
  obtain e1 k2 where r1: "cu_register os k1 sqdb = (e1, k2)" by (cases "cu_register os k1 sqdb")
  obtain e2 k3 where r2: "cu_register os k2 cqdb = (e2, k3)" by (cases "cu_register os k2 cqdb")
  note def = cuda_set_up_def Let_def c cap sqdb cqdb hz r1 r2
  have g1: "regs k1 = regs k" by (rule reg(4) [OF hz])
  note nz = ring_bytes [OF depth]
  show thesis
  proof (cases "e1 = 0 \<and> e2 = 0")
    case False
    show thesis
    proof (cases "e1 = 0")
      case True
      then have "regs (snd (cu_unregister os k3 sqdb)) = regs k"
        using reg(1) [of k1 sqdb k2] reg(2) [OF r2] reg(3) [of k3 sqdb] r1 False g1 by auto
      with True False heap show thesis by (intro fails [of e2 ?qp heap d1 "snd (cu_unregister os k3 sqdb)"]) (simp_all add: def)
    next
      case False
      with heap reg(2) [OF r1] g1 show thesis by (intro fails [of e1 ?qp heap d1 k2]) (simp_all add: def)
    qed
  next
    case True
    then have g3: "sqdb \<notin> regs k" "cqdb \<notin> insert sqdb (regs k)" "regs k3 = insert cqdb (insert sqdb (regs k))"
      using reg(1) [of k1 sqdb k2] reg(1) [of k2 cqdb k3] r1 r2 g1 by simp_all
    have unreg: "regs (snd (cu_unregister os (snd (cu_unregister os k' sqdb)) cqdb)) = regs k" if "regs k' = regs k3" for k'
      using g3 that by (auto simp: reg(3))
    from heap nz mal show thesis
    proof (cases rule: cuda_alloc [where k = k3])
      case a: (fails e heap1 k4)
      then show thesis
        by (intro fails [of "- e" ?qp heap1 d1 "snd (cu_unregister os (snd (cu_unregister os k4 sqdb)) cqdb)"])
          (simp_all add: def True unreg)
    next
      case a: (gives sq heap1 k4 xs e ys)
      from a(2) nz mal show thesis
      proof (cases rule: cuda_alloc [where k = k4])
        case b: (fails e' heap2 k5)
        have p: "device_payloads heap2 = xs @ (unat sq, e) # ys" using b(4) a(4) by simp
        note free = cuda_free [OF b(3) cuda_taken(2) [OF b(3) p]] and undo = cuda_taken(1) [OF b(3) p]
        show thesis
          by (rule fails [of "- e'" "?qp\<lparr>qc_sq := sq\<rparr>" "cudamem_heap_block_free heap2 sq" d1
                "snd (cu_unregister os (snd (cu_unregister os k5 sqdb)) cqdb)"])
            (use a b free undo unreg [of k5] in \<open>simp_all add: def True\<close>)
      next
        case b: (gives cq heap2 k5 xs' e' ys')
        let ?qp2 = "?qp\<lparr>qc_sq := sq, qc_cq := cq\<rparr>"
        obtain e3 k6 where put: "cu_put_qpair os k5 qpair ?qp2 = (e3, k6)" by (cases "cu_put_qpair os k5 qpair ?qp2")
        have k6: "regs k6 = regs k3" using reg(6) [OF put] a(5) b(5) by simp
        show thesis
        proof (cases "e3 = 0")
          case ok: True
          have "mset (map fst (device_payloads heap2)) = add_mset (unat cq) (mset (map fst (device_payloads heap1)))"
            unfolding b(3,4) by simp
          then have "mset (map fst (device_payloads heap2)) = mset (unat sq # unat cq # map fst (device_payloads heap))"
            unfolding a(3,4) by simp
          with a b put ok g3(3) k6 show thesis
            by (intro gives [of ?qp2 heap2 d1 k6]) (simp_all add: def True insert_commute)
        next
          case False
          note undo = cuda_free_rings [OF a(2-4) b(2-4)]
          with a b put k6 unreg [of k6] False show thesis
            by (intro fails [of e3 ?qp2 "cudamem_heap_block_free (cudamem_heap_block_free heap2 sq) cq" d1
                "snd (cu_unregister os (snd (cu_unregister os k6 sqdb)) cqdb)"]) (simp_all add: def True undo)
        qed
      qed
    qed
  qed
qed

section \<open>The two operations\<close>

lemma controller_step_trans:
  "controller_step c c' \<Longrightarrow> nc_aq c = nc_aq b \<Longrightarrow> nc_func c = nc_func b \<Longrightarrow> nc_buf c = nc_buf b \<Longrightarrow> controller_step b c'"
  by (simp add: controller_step_def)

text \<open>A creation: refused for want of an identifier, failed in its set-up, or left to the controller.\<close>

lemma cuda_create_result:
  assumes ready: "controller_ready c" and law: "cuda_lawful os regs" and heap: "cuda_heap heap"
    and hw: "stride_ok hw" and depth: "depth \<noteq> 0" and budget: "dbg \<longrightarrow> 2 \<le> top (qpair_pool (nc_aq c))"
  obtains (refused) "nvme_controller_cuda_create_io_qpair dbg hw os c qpair depth heap d k = Some (- ENOMEM, c, heap, d, k)"
      "{..<65472} \<subseteq> qid_used (nc_qids c)"
    | (failed) err c' heap' d' k' where
      "nvme_controller_cuda_create_io_qpair dbg hw os c qpair depth heap d k = Some (err, c', heap', d', k')" "err \<noteq> 0"
      "controller_step c c'" "cuda_heap heap'" "device_payloads heap' = device_payloads heap" "regs k' = regs k"
      "\<not> {..<65472} \<subseteq> qid_used (nc_qids c)"
      "qid_used (nc_qids c') = insert (LEAST q. q \<notin> qid_used (nc_qids c)) (qid_used (nc_qids c))"
    | (submitted) err c' heap' d' k' sq cq sqdb cqdb where
      "nvme_controller_cuda_create_io_qpair dbg hw os c qpair depth heap d k = Some (err, c', heap', d', k')"
      "controller_step c c'" "cuda_heap heap'" "regs k' = insert sqdb (insert cqdb (regs k))"
      "mset (map fst (device_payloads heap')) = mset (sq # cq # map fst (device_payloads heap))"
      "\<not> {..<65472} \<subseteq> qid_used (nc_qids c)"
      "qid_used (nc_qids c') = insert (LEAST q. q \<notin> qid_used (nc_qids c)) (qid_used (nc_qids c))"
proof -
  have c: "bar0_mapped c = Some ()" "qid_wf (nc_qids c)" using ready by (simp_all add: controller_ready_def)
  note def = nvme_controller_cuda_create_io_qpair_def Let_def
  show thesis
  proof (cases "{..<65472} \<subseteq> qid_used (nc_qids c)")
    case True
    then have "nvme_qid_find_free (nc_qids c) = Some (- ENOMEM)"
      using nvme_qid_find_free_eq [of "nc_qids c"] c(2) by (simp add: qid_consts qid_wf_def)
    with True refused show thesis by (simp add: def)
  next
    case False
    from c(2) obtain q bm' where f: "nvme_qid_find_free (nc_qids c) = Some (int q)" "0 < q" "q < 65472"
      "q \<notin> qid_used (nc_qids c)" "unat (word_of_int (int q) :: u16) = q"
      "nvme_qid_alloc (nc_qids c) (word_of_int (int q)) = Some (0, bm')"
      "qid_wf bm'" "qid_used bm' = insert q (qid_used (nc_qids c))"
    proof (cases rule: qid_search)
      case none
      with False c(2) show ?thesis using nvme_qid_find_free_eq [of "nc_qids c"] by (simp add: qid_consts qid_wf_def)
    qed
    have least: "(LEAST p. p \<notin> qid_used (nc_qids c)) = q"
      using f(1) False c(2) nvme_qid_find_free_eq [of "nc_qids c"] by (simp add: qid_consts qid_wf_def)
    let ?q = "word_of_int (int q) :: u16" and ?c = "c\<lparr>nc_qids := bm'\<rparr>"
    have c': "bar0_mapped ?c = Some ()" using c(1) by (simp add: bar0_mapped_def)
    have ready': "controller_ready ?c" using ready f(7) by (simp add: controller_ready_def bar0_mapped_def)
    have refl: "controller_step c ?c" using ready' by (simp add: controller_step_def)
    have q: "unat ?q < 65472" using f(3,5) by simp
    from law heap c' hw q depth show thesis
    proof (cases rule: cuda_set_up_result [where qpair = qpair and d = d and k = k])
      case s: (fails err qp heap' d' k')
      with f(1,2,6,8) False refl least show thesis by (intro failed [of err ?c heap' d' k']) (simp_all add: def)
    next
      case s: (gives qp heap' d' k')
      have "set (map fst (device_payloads heap')) = set (unat (qc_sq qp) # unat (qc_cq qp) # map fst (device_payloads heap))"
        using s(3) by (metis set_mset_mset)
      then have m: "unat (qc_sq qp) \<in> fst ` set (device_payloads heap')" "unat (qc_cq qp) \<in> fst ` set (device_payloads heap')"
        by auto
      obtain sqp where sqp: "cudamem_heap_block_vtp dbg heap' (qc_sq qp) = Some sqp" by (rule cuda_vtp [OF s(2) m(1)])
      obtain cqp where cqp: "cudamem_heap_block_vtp dbg heap' (qc_cq qp) = Some cqp" by (rule cuda_vtp [OF s(2) m(2)])
      let ?cdw10 = "push_bit 16 (ucast depth - 1) OR ucast ?q :: u32"
      let ?cmd1 = "zero_command\<lparr>cmd_opc := 0x5, cmd_prp1 := cqp, cmd_cdw10 := ?cdw10, cmd_cdw11 := 0x1\<rparr>"
      let ?cmd2 = "zero_command\<lparr>cmd_opc := 0x1, cmd_prp1 := sqp, cmd_cdw10 := ?cdw10, cmd_cdw11 := push_bit 16 (ucast ?q) OR 0x1\<rparr>"
      have b: "dbg \<longrightarrow> 2 \<le> top (qpair_pool (nc_aq ?c))" using budget by simp
      obtain e1 aq1 cmd1' cpl1 d1 where s1:
        "nvme_qpair_submit_sync dbg hw (nc_aq ?c) ?cmd1 (nc_timeout_ms ?c) zero_completion d' = Some (e1, aq1, cmd1', cpl1, d1)"
        "e1 \<in> {0, - EIO, EAGAIN, - ENOMEM}" "controller_step ?c (?c\<lparr>nc_aq := aq1\<rparr>)"
        "\<forall>cmd2. \<exists>e2 aq2 cmd2' cpl2 d2.
          nvme_qpair_submit_sync dbg hw aq1 cmd2 (nc_timeout_ms ?c) zero_completion d1 = Some (e2, aq2, cmd2', cpl2, d2) \<and>
          e2 \<in> {0, - EIO, EAGAIN, - ENOMEM} \<and> controller_step ?c (?c\<lparr>nc_aq := aq2\<rparr>)"
        by (rule two_submissions [OF ready' b, where ?cmd1.0 = ?cmd1 and d = d' and hw = hw])
      from s1(4) obtain e2 aq2 cmd2' cpl2 d2 where s2:
        "nvme_qpair_submit_sync dbg hw aq1 ?cmd2 (nc_timeout_ms ?c) zero_completion d1 = Some (e2, aq2, cmd2', cpl2, d2)"
        "controller_step ?c (?c\<lparr>nc_aq := aq2\<rparr>)" by blast
      have steps: "controller_step c (?c\<lparr>nc_aq := aq1\<rparr>)" "controller_step c (?c\<lparr>nc_aq := aq2\<rparr>)"
        using controller_step_trans [OF s1(3)] controller_step_trans [OF s2(2)] by simp_all
      show thesis
      proof (cases "e1 = 0")
        case False
        with f(1,2,6,8) s s1(1) cqp steps(1) \<open>\<not> {..<65472} \<subseteq> _\<close> least show thesis
          by (intro submitted [of e1 "?c\<lparr>nc_aq := aq1\<rparr>" heap' d1 k']) (simp_all add: def)
      next
        case True
        with f(1,2,6,8) s s1(1) s2(1) sqp cqp steps(2) False least show thesis
          by (intro submitted [of e2 "?c\<lparr>nc_aq := aq2\<rparr>" heap' d2 k']) (simp_all add: def)
      qed
    qed
  qed
qed

lemma cuda_delete_result:
  assumes ready: "controller_ready c" and heap: "cuda_heap heap" and budget: "dbg \<longrightarrow> 2 \<le> top (qpair_pool (nc_aq c))"
  obtains c' heap' d' k' where
    "nvme_controller_cuda_delete_io_qpair dbg hw os c qpair heap d k = Some (c', heap', d', k')"
    "controller_step c c'" "nc_qids c' = nc_qids c" "cuda_heap heap'"
proof -
  obtain r k1 where g: "cu_get_qpair os k qpair = (r, k1)" by (cases "cu_get_qpair os k qpair")
  define qp where "qp = (case r of Inl e \<Rightarrow> zero_qpair_cuda | Inr qp \<Rightarrow> qp)"
  let ?cmd1 = "zero_command\<lparr>cmd_opc := 0x0, cmd_cdw10 := qc_qid qp\<rparr>"
  let ?cmd2 = "zero_command\<lparr>cmd_opc := 0x4, cmd_cdw10 := qc_qid qp\<rparr>"
  obtain e1 aq1 cmd1' cpl1 d1 where s1:
    "nvme_qpair_submit_sync dbg hw (nc_aq c) ?cmd1 (nc_timeout_ms c) zero_completion d = Some (e1, aq1, cmd1', cpl1, d1)"
    "\<forall>cmd2. \<exists>e2 aq2 cmd2' cpl2 d2.
      nvme_qpair_submit_sync dbg hw aq1 cmd2 (nc_timeout_ms c) zero_completion d1 = Some (e2, aq2, cmd2', cpl2, d2) \<and>
      e2 \<in> {0, - EIO, EAGAIN, - ENOMEM} \<and> controller_step c (c\<lparr>nc_aq := aq2\<rparr>)"
    by (rule two_submissions [OF ready budget, where ?cmd1.0 = ?cmd1 and d = d and hw = hw])
  from s1(2) obtain e2 aq2 cmd2' cpl2 d2 where s2:
    "nvme_qpair_submit_sync dbg hw aq1 ?cmd2 (nc_timeout_ms c) zero_completion d1 = Some (e2, aq2, cmd2', cpl2, d2)"
    "controller_step c (c\<lparr>nc_aq := aq2\<rparr>)" by blast
  have free: "cuda_heap (cudamem_heap_block_free h p)" if "cuda_heap h" for h p
    by (rule cuda_heap_same [OF that]) (use that device_free_keeps [of h p] in \<open>simp_all add: cuda_heap_def\<close>)
  from s1(1) s2 g free [OF free [OF heap, of "qc_sq qp"], of "qc_cq qp"] show thesis
    by (intro that [of "c\<lparr>nc_aq := aq2\<rparr>" "cudamem_heap_block_free (cudamem_heap_block_free heap (qc_sq qp)) (qc_cq qp)" d2
          "snd (cu_unregister os (snd (cu_unregister os k1 (qc_sqdb qp))) (qc_cqdb qp))"])
      (simp_all add: nvme_controller_cuda_delete_io_qpair_def qp_def case_prod_beta Let_def)
qed

section \<open>Over the life of a controller\<close>

datatype cuda_io_event = CudaCreate u16 u64 | CudaDelete u64

fun cuda_io_step ::
  "bool \<Rightarrow> ('d, 'x) dma_hw_scheme \<Rightarrow> ('k, 'y) cuda_os_scheme \<Rightarrow> cuda_io_event \<Rightarrow>
   nvme_controller \<times> cudamem_heap \<times> 'd \<times> 'k \<Rightarrow> (nvme_controller \<times> cudamem_heap \<times> 'd \<times> 'k) option" where
  "cuda_io_step dbg hw os (CudaCreate depth qpair) (c, heap, d, k) =
     map_option snd (nvme_controller_cuda_create_io_qpair dbg hw os c qpair depth heap d k)"
| "cuda_io_step dbg hw os (CudaDelete qpair) (c, heap, d, k) =
     nvme_controller_cuda_delete_io_qpair dbg hw os c qpair heap d k"

fun cuda_io_run ::
  "bool \<Rightarrow> ('d, 'x) dma_hw_scheme \<Rightarrow> ('k, 'y) cuda_os_scheme \<Rightarrow> cuda_io_event list \<Rightarrow>
   nvme_controller \<times> cudamem_heap \<times> 'd \<times> 'k \<Rightarrow> (nvme_controller \<times> cudamem_heap \<times> 'd \<times> 'k) option" where
  "cuda_io_run dbg hw os [] s = Some s"
| "cuda_io_run dbg hw os (ev # evs) s = do { s' \<leftarrow> cuda_io_step dbg hw os ev s; cuda_io_run dbg hw os evs s' }"

fun is_create :: "cuda_io_event \<Rightarrow> bool" where
  "is_create (CudaCreate depth qpair) = True"
| "is_create (CudaDelete qpair) = False"

fun has_depth :: "cuda_io_event \<Rightarrow> bool" where
  "has_depth (CudaCreate depth qpair) = (depth \<noteq> 0)"
| "has_depth (CudaDelete qpair) = True"

lemma least_beyond: "(LEAST q :: nat. q \<notin> {..m}) = Suc m"
  by (rule Least_equality) auto

lemma cuda_io_step_used:
  assumes ready: "controller_ready c" and law: "cuda_lawful os regs" and heap: "cuda_heap heap"
    and hw: "stride_ok hw" and ev: "has_depth ev" and budget: "dbg \<longrightarrow> 2 \<le> top (qpair_pool (nc_aq c))"
    and used: "qid_used (nc_qids c) = {..n}" "n \<le> 65471"
  obtains c' heap' d' k' where "cuda_io_step dbg hw os ev (c, heap, d, k) = Some (c', heap', d', k')"
    "controller_ready c'" "cuda_heap heap'" "top (qpair_pool (nc_aq c)) \<le> top (qpair_pool (nc_aq c')) + 2"
    "qid_used (nc_qids c') = {..min (if is_create ev then Suc n else n) 65471}"
proof (cases ev)
  case (CudaDelete qpair)
  obtain c' heap' d' k' where r: "nvme_controller_cuda_delete_io_qpair dbg hw os c qpair heap d k = Some (c', heap', d', k')"
    "controller_step c c'" "nc_qids c' = nc_qids c" "cuda_heap heap'" by (rule cuda_delete_result [OF ready heap budget])
  with CudaDelete used show thesis
    by (intro that [of c' heap' d' k']) (simp_all add: controller_step_def min_def)
next
  case (CudaCreate depth qpair)
  with ev have depth: "depth \<noteq> 0" by simp
  have full: "{..<65472} \<subseteq> qid_used (nc_qids c) \<longleftrightarrow> n = 65471" using used by (auto simp: subset_iff dest: spec [of _ 65471])
  have grow: "insert (LEAST q. q \<notin> qid_used (nc_qids c)) (qid_used (nc_qids c)) = {..Suc n}"
    unfolding used(1) least_beyond by auto
  from ready law heap hw depth budget show thesis
  proof (cases rule: cuda_create_result [where qpair = qpair and d = d and k = k])
    case refused
    with CudaCreate ready heap used full show thesis by (intro that [of c heap d k]) simp_all
  next
    case (failed err c' heap' d' k')
    moreover have "n \<noteq> 65471" using failed(7) full by simp
    ultimately show thesis using CudaCreate used(2) grow
      by (intro that [of c' heap' d' k']) (simp_all add: controller_step_def min_def)
  next
    case (submitted err c' heap' d' k' sq cq sqdb cqdb)
    moreover have "n \<noteq> 65471" using submitted(6) full by simp
    ultimately show thesis using CudaCreate used(2) grow
      by (intro that [of c' heap' d' k']) (simp_all add: controller_step_def min_def)
  qed
qed

lemma cuda_io_run_used:
  assumes "cuda_lawful os regs" "stride_ok hw"
  shows "controller_ready c \<Longrightarrow> cuda_heap heap \<Longrightarrow> list_all has_depth evs \<Longrightarrow>
    (dbg \<longrightarrow> 2 * length evs \<le> top (qpair_pool (nc_aq c))) \<Longrightarrow> qid_used (nc_qids c) = {..n} \<Longrightarrow> n \<le> 65471 \<Longrightarrow>
    \<exists>c' heap' d' k'. cuda_io_run dbg hw os evs (c, heap, d, k) = Some (c', heap', d', k') \<and>
      controller_ready c' \<and> cuda_heap heap' \<and>
      qid_used (nc_qids c') = {..min (n + length (filter is_create evs)) 65471}"
proof (induction evs arbitrary: c heap d k n)
  case Nil
  then show ?case by (simp add: min_def)
next
  case (Cons ev evs)
  have b: "dbg \<longrightarrow> 2 \<le> top (qpair_pool (nc_aq c))" using Cons.prems(4) by auto
  obtain c1 heap1 d1 k1 where s: "cuda_io_step dbg hw os ev (c, heap, d, k) = Some (c1, heap1, d1, k1)"
    "controller_ready c1" "cuda_heap heap1" "top (qpair_pool (nc_aq c)) \<le> top (qpair_pool (nc_aq c1)) + 2"
    "qid_used (nc_qids c1) = {..min (if is_create ev then Suc n else n) 65471}"
    by (rule cuda_io_step_used [OF Cons.prems(1) assms(1) Cons.prems(2) assms(2) _ b Cons.prems(5,6)])
      (use Cons.prems(3) in auto)
  have b1: "dbg \<longrightarrow> 2 * length evs \<le> top (qpair_pool (nc_aq c1))" using Cons.prems(4) s(4) by auto
  have l: "list_all has_depth evs" using Cons.prems(3) by simp
  have e: "min (min (if is_create ev then Suc n else n) 65471 + length (filter is_create evs)) 65471 =
      min (n + length (filter is_create (ev # evs))) 65471" by (simp add: min_def)
  from Cons.IH [OF s(2,3) l b1 s(5), of d1 k1] s(1) show ?case unfolding e by simp
qed

section \<open>An open controller and a driver\<close>

definition example_open :: nvme_controller where
  "example_open = zero_controller\<lparr>
     nc_func := zero_func\<lparr>pf_bars := (pf_bars zero_func)[0 := \<lparr>pb_size = 0x4000, pb_region = 0x7000, pb_id = 0, pb_fd = 3\<rparr>]\<rparr>,
     nc_aq := zero_qpair\<lparr>qp_depth := 256, qp_phase := 1, qp_rpool := Live (nvme_request_pool_init zero_pool)\<rparr>,
     nc_qids := snd (the nvme_qid_bitmap_init), nc_timeout_ms := 500\<rparr>"

lemma example_open_ready:
  "controller_ready example_open" "qid_used (nc_qids example_open) = {0}"
  "top (qpair_pool (nc_aq example_open)) = NVME_REQUEST_POOL_LEN"
proof -
  obtain bm where bm: "nvme_qid_bitmap_init = Some (0, bm)" "qid_wf bm" "qid_avail bm = io_qids"
    using nvme_qid_bitmap_init_wf by blast
  then have q: "nc_qids example_open = bm" by (simp add: example_open_def bm(1))
  show "controller_ready example_open"
    using bm(2) pool_init_facts
    by (simp add: controller_ready_def q) (simp add: example_open_def bar0_mapped_def zero_func_def PCI_NBARS_def
        qpair_live_def qp_ok_def zero_qpair_def)
  show "qid_used (nc_qids example_open) = {0}" unfolding q by (rule qid_fresh_used [OF bm(2,3)])
  show "top (qpair_pool (nc_aq example_open)) = NVME_REQUEST_POOL_LEN"
    using pool_init_facts by (simp add: example_open_def full_pool_top)
qed

definition list_cuda :: "u32 list cuda_os" where
  "list_cuda = \<lparr>os_malloc = (\<lambda>k. (True, k)), os_open = (\<lambda>k p. (Inl 2, k)), os_close = (\<lambda>k f. k),
     cu_register = (\<lambda>k a. if a \<in> set k then (712, k) else (0, a # k)),
     cu_unregister = (\<lambda>k a. (0, filter (\<lambda>b. b \<noteq> a) k)), cu_clock_rate = (\<lambda>k. (1410000, k)),
     cu_put_qpair = (\<lambda>k p qp. (0, k)), cu_get_qpair = (\<lambda>k p. (Inl 1, k))\<rparr>"

lemma list_cuda_lawful: "cuda_lawful list_cuda set"
  by (auto simp: cuda_lawful_def list_cuda_def)

lemma example_cuda_heap: "cuda_heap example_device"
  using example_device_ok(1) example_device_dma(2) by (simp add: cuda_heap_def example_device_facts)

section \<open>Outcomes\<close>





section \<open>Rings and device pages\<close>


end
