(* ===== verification/Nvme_Qpair_Cuda_Props.thy ===== *)
theory Nvme_Qpair_Cuda_Props
  imports Nvme_Qpair_Cuda
begin

unbundle bit_operations_syntax

text \<open>
  The operations of a GPU queue pair on a batch against the host's, one command after the other.
\<close>

section \<open>The host's queue pair as the reference\<close>

definition same_queue :: "nvme_qpair \<Rightarrow> nvme_qpair_cuda \<Rightarrow> bool" where
  "same_queue hq gq \<longleftrightarrow> qc_sq gq = qp_sq hq \<and> qc_cq gq = qp_cq hq \<and> qc_sqdb gq = qp_sqdb hq \<and>
     qc_cqdb gq = qp_cqdb hq \<and> qc_depth gq = qp_depth hq \<and> qc_tail gq = qp_tail hq \<and>
     qc_head gq = qp_head hq \<and> qc_phase gq = qp_phase hq"

text \<open>A batch: the host stores its commands one after the other, the threads of a GPU each at its offset.\<close>

fun host_enqueues ::
  "('d, 'x) dma_hw_scheme \<Rightarrow> nvme_command list \<Rightarrow> nvme_qpair \<Rightarrow> 'd \<Rightarrow> (nvme_qpair \<times> 'd) option" where
  "host_enqueues hw [] qp d = Some (qp, d)"
| "host_enqueues hw (cmd # cmds) qp d = do {
     (err, qp1, d1) \<leftarrow> nvme_qpair_enqueue hw qp cmd d;
     host_enqueues hw cmds qp1 d1 }"

fun gpu_enqueues ::
  "('d, 'x) dma_hw_scheme \<Rightarrow> nvme_qpair_cuda \<Rightarrow> nat \<Rightarrow> nvme_command list \<Rightarrow> 'd \<Rightarrow> 'd option" where
  "gpu_enqueues hw qp i [] d = Some d"
| "gpu_enqueues hw qp i (cmd # cmds) d = do {
     d1 \<leftarrow> nvme_qpair_cuda_enqueue_at_i hw qp cmd (of_nat i) d;
     gpu_enqueues hw qp (Suc i) cmds d1 }"

abbreviation tail_at :: "nvme_qpair \<Rightarrow> nat \<Rightarrow> nvme_qpair" where
  "tail_at qp i \<equiv> qp\<lparr>qp_tail := of_nat ((unat (qp_tail qp) + i) mod unat (qp_depth qp))\<rparr>"

lemma unat_mod_u16: "0 < unat (depth :: u16) \<Longrightarrow> unat (of_nat (x mod unat depth) :: u16) = x mod unat depth"
proof -
  assume "0 < unat depth"
  then have "x mod unat depth < unat depth" by (rule mod_less_divisor)
  moreover have "unat depth < 65536" using unat_u16_bound [of depth] by simp
  ultimately have "x mod unat depth < 65536" by linarith
  then show ?thesis by (simp add: unat_of_nat take_bit_eq_mod)
qed

lemma tail_at_ok: "qp_ok hq \<Longrightarrow> qp_ok (tail_at hq i)"
  by (simp add: qp_ok_def unat_mod_u16)

lemma enqueue_step:
  assumes "qp_ok hq" "same_queue hq gq" "i < 65536"
  obtains d' where "nvme_qpair_enqueue hw (tail_at hq i) cmd d = Some (0, tail_at hq (Suc i), d')"
    "nvme_qpair_cuda_enqueue_at_i hw gq cmd (of_nat i) d = Some d'"
proof -
  let ?D = "unat (qp_depth hq)" and ?t = "(unat (qp_tail hq) + i) mod unat (qp_depth hq)"
  have D: "0 < ?D" using assms(1) by (simp add: qp_ok_def)
  then have t: "unat (of_nat ?t :: u16) = ?t" by (rule unat_mod_u16)
  have "(ucast w :: u64) = of_nat (unat w)" for w :: u16 by simp
  with t have u: "ucast (of_nat ?t :: u16) = (of_nat ?t :: u64)" by metis
  have a: "sqe_addr (tail_at hq i) = Some (qp_sq hq + 64 * of_nat ?t)"
    using sqe_addr_ok [OF tail_at_ok [OF assms(1)], of i] u by simp
  have "qp_depth hq \<noteq> 0" "unat (of_nat i :: u16) = i" using D assms(3) by (auto simp: unat_of_nat take_bit_eq_mod)
  moreover have "(?t + 1) mod ?D = (unat (qp_tail hq) + Suc i) mod ?D" by (simp add: mod_Suc_eq)
  ultimately show thesis
    using assms(2) a t
    by (intro that [of "hw_sqe hw d (qp_sq hq + 64 * of_nat ?t) cmd"])
      (simp_all add: nvme_qpair_enqueue_def nvme_qpair_cuda_enqueue_at_i_def same_queue_def Let_def)
qed

lemma enqueues_agree:
  assumes "qp_ok hq" "same_queue hq gq" "i + length cmds \<le> 65536"
  shows "\<exists>d'. host_enqueues hw cmds (tail_at hq i) d = Some (tail_at hq (i + length cmds), d') \<and>
    gpu_enqueues hw gq i cmds d = Some d'"
  using assms(3)
proof (induction cmds arbitrary: i d)
  case (Cons cmd cmds)
  then have "i < 65536" "Suc i + length cmds \<le> 65536" by simp_all
  note IH = Cons.IH [OF this(2)]
  obtain d1 where "nvme_qpair_enqueue hw (tail_at hq i) cmd d = Some (0, tail_at hq (Suc i), d1)"
    "nvme_qpair_cuda_enqueue_at_i hw gq cmd (of_nat i) d = Some d1"
    using enqueue_step [OF assms(1,2) \<open>i < 65536\<close>] .
  with IH [of d1] show ?case by simp
qed simp

text \<open>The completion ring after \<open>i\<close> completions.\<close>

lemma cq_advance_pow:
  assumes "qp_ok hq" "i \<le> unat (qp_depth hq)"
  shows "(cq_advance ^^ i) hq = hq\<lparr>qp_head := of_nat ((unat (qp_head hq) + i) mod unat (qp_depth hq)),
    qp_phase := if unat (qp_depth hq) \<le> unat (qp_head hq) + i then qp_phase hq XOR 1 else qp_phase hq\<rparr>"
  using assms(2)
proof (induction i)
  case 0
  with assms(1) show ?case by (simp add: qp_ok_def)
next
  case (Suc i)
  let ?D = "unat (qp_depth hq)" and ?h = "unat (qp_head hq)"
  have b: "?h < ?D" "?D \<le> 1024" "i < ?D" using assms(1) Suc.prems by (simp_all add: qp_ok_def)
  have v: "?D \<le> ?h + i \<Longrightarrow> (?h + i) mod ?D = ?h + i - ?D" using b by (simp add: mod_if)
  have m: "(?h + i) mod ?D < ?D" using b by simp
  then have s: "(of_nat ((?h + i) mod ?D) + 1 = qp_depth hq) = (Suc ((?h + i) mod ?D) = ?D)"
  proof -
    have "Suc ((?h + i) mod ?D) < 65536" "(?h + i) mod ?D < 65536" using m b(2) by linarith+
    then show ?thesis by (simp add: word_unat_eq_iff unat_word_ariths unat_of_nat take_bit_eq_mod)
  qed
  have e: "(?h + Suc i) mod ?D = (if Suc ((?h + i) mod ?D) = ?D then 0 else Suc ((?h + i) mod ?D))"
    by (simp add: mod_Suc)
  have f: "?D \<le> ?h + Suc i \<longleftrightarrow> (?D \<le> ?h + i) \<noteq> (Suc ((?h + i) mod ?D) = ?D)"
    using b v by (cases "?D \<le> ?h + i") auto
  have IH: "(cq_advance ^^ Suc i) hq = cq_advance (hq\<lparr>qp_head := of_nat ((?h + i) mod ?D),
      qp_phase := if ?D \<le> ?h + i then qp_phase hq XOR 1 else qp_phase hq\<rparr>)"
    using Suc.IH Suc.prems by (simp only: funpow.simps o_apply Suc_leD)
  show ?case
  proof (cases "Suc ((?h + i) mod ?D) = ?D")
    case True
    then have "?D \<le> ?h + Suc i \<longleftrightarrow> \<not> ?D \<le> ?h + i" using f by blast
    then show ?thesis unfolding IH e using True s by (simp add: cq_advance_def Let_def xor.assoc)
  next
    case False
    then have "?D \<le> ?h + Suc i \<longleftrightarrow> ?D \<le> ?h + i" using f by blast
    then show ?thesis unfolding IH e using False s by (simp add: cq_advance_def Let_def add.commute)
  qed
qed

section \<open>A batch is its commands in turn\<close>

lemma head_offset:
  assumes "qp_ok hq" "same_queue hq gq" "i \<le> unat (qp_depth hq)"
  shows "unat (qc_head gq + of_nat i) = unat (qp_head hq) + i"
    "(qc_depth gq \<le> qc_head gq + of_nat i) = (unat (qp_depth hq) \<le> unat (qp_head hq) + i)"
    "unat (of_nat i :: u16) = i"
    "(unat (qp_head hq) + i) mod unat (qp_depth hq) =
      (if unat (qp_depth hq) \<le> unat (qp_head hq) + i then unat (qp_head hq) + i - unat (qp_depth hq)
       else unat (qp_head hq) + i)"
proof -
  have b: "unat (qp_head hq) < unat (qp_depth hq)" "unat (qp_depth hq) \<le> 1024" "i \<le> 1024"
    using assms(1,3) by (simp_all add: qp_ok_def)
  show i: "unat (of_nat i :: u16) = i" using b by (simp add: unat_of_nat take_bit_eq_mod)
  have "unat (qp_head hq) + i < 65536" using b by linarith
  then have h: "unat (qp_head hq + of_nat i) = unat (qp_head hq) + i" by (simp add: unat_word_ariths i)
  with assms(2) show "unat (qc_head gq + of_nat i) = unat (qp_head hq) + i"
    "(qc_depth gq \<le> qc_head gq + of_nat i) = (unat (qp_depth hq) \<le> unat (qp_head hq) + i)"
    by (simp_all add: same_queue_def word_le_nat_alt)
  show "(unat (qp_head hq) + i) mod unat (qp_depth hq) =
      (if unat (qp_depth hq) \<le> unat (qp_head hq) + i then unat (qp_head hq) + i - unat (qp_depth hq)
       else unat (qp_head hq) + i)"
    using b assms(3) by (auto simp: mod_if)
qed

lemma reap_target_agrees:
  assumes "qp_ok hq" "same_queue hq gq" "i < unat (qp_depth hq)"
  shows "reap_target gq (of_nat i) =
    Some (the (cqe_addr ((cq_advance ^^ i) hq)), qp_phase ((cq_advance ^^ i) hq))"
proof -
  have D: "0 < unat (qp_depth hq)" using assms(1) by (simp add: qp_ok_def)
  let ?x = "(unat (qp_head hq) + i) mod unat (qp_depth hq)"
  let ?hq = "(cq_advance ^^ i) hq"
  have i: "i \<le> unat (qp_depth hq)" using assms(3) by simp
  note o = head_offset [OF assms(1,2) i]
  have e: "?hq = hq\<lparr>qp_head := of_nat ?x,
      qp_phase := if unat (qp_depth hq) \<le> unat (qp_head hq) + i then qp_phase hq XOR 1 else qp_phase hq\<rparr>"
    by (rule cq_advance_pow [OF assms(1) i])
  have u: "unat (of_nat ?x :: u16) = ?x" by (rule unat_mod_u16 [OF D])
  have "(ucast w :: u64) = of_nat (unat w)" for w :: u16 by simp
  with u have u': "ucast (of_nat ?x :: u16) = (of_nat ?x :: u64)" by metis
  have "?x < unat (qp_depth hq)" using D by simp
  then have x: "?x < 1024" using assms(1) unfolding qp_ok_def by linarith
  have "unat (16 * (of_nat ?x + 1) :: u64) = 16 * (?x + 1)"
    using x by (simp only: unat_word_ariths unat_of_nat take_bit_eq_mod) simp
  then have "\<not> QPAIR_NBYTES < 16 * (of_nat ?x + 1)" using x by (simp add: QPAIR_NBYTES_def word_less_nat_alt)
  then have "cqe_addr ?hq = Some (qp_cq hq + 16 * of_nat ?x)" unfolding e by (simp add: cqe_addr_def u')
  moreover have "qp_phase ?hq = (if unat (qp_depth hq) \<le> unat (qp_head hq) + i then qp_phase hq XOR 1 else qp_phase hq)"
    unfolding e by simp
  moreover have "qc_depth gq \<noteq> 0" using D assms(2) by (auto simp: same_queue_def)
  ultimately show ?thesis
    using o assms(2) by (simp add: reap_target_def Let_def same_queue_def)
qed

lemma cq_update_agrees:
  assumes "qp_ok hq" "same_queue hq gq" "n \<le> unat (qp_depth hq)"
  shows "\<exists>gq'. nvme_qpair_cuda_cq_update hw gq (of_nat n) d =
      (gq', mmio_write32 hw d (qp_cqdb hq) (ucast (qp_head ((cq_advance ^^ n) hq)))) \<and>
    same_queue ((cq_advance ^^ n) hq) gq'"
proof -
  let ?h = "unat (qp_head hq)" and ?D = "unat (qp_depth hq)"
  note o = head_offset [OF assms] and p = cq_advance_pow [OF assms(1,3)]
  have "(of_nat ((?h + n) mod ?D) :: u16) =
      (if ?D \<le> ?h + n then qc_head gq + of_nat n - qc_depth gq else qc_head gq + of_nat n)"
    using assms(2) unfolding o(4) by (simp add: same_queue_def of_nat_diff)
  then show ?thesis
    using assms(2) o(2) unfolding p nvme_qpair_cuda_cq_update_def Let_def
    by (simp add: same_queue_def)
qed

text \<open>C14: A batch on a GPU queue pair does what the host does command by command. The threads' stores and
  the one update of the tail leave the ring, the tail and the doorbell as \<open>n\<close> calls of
  \<open>nvme_qpair_enqueue\<close> and a write of the tail do; thread \<open>i\<close> waits for the entry and the phase that the host
  waits for after \<open>i\<close> completions, past the wrap too; and one update of the head by \<open>n\<close> leaves head, phase
  and doorbell as \<open>n\<close> single ones do.\<close>

theorem nvme_qpair_cuda_batch_equivalent:
  assumes "qp_ok hq" "same_queue hq gq" "length cmds = n" "n \<le> unat (qp_depth hq)"
  shows "(\<exists>hq' gq' d'. host_enqueues hw cmds hq d = Some (hq', d') \<and> gpu_enqueues hw gq 0 cmds d = Some d' \<and>
       nvme_qpair_cuda_sq_update hw gq (of_nat n) d' = Some (gq', mmio_write32 hw d' (qp_sqdb hq') (ucast (qp_tail hq'))) \<and>
       same_queue hq' gq') \<and>
    (\<forall>i < n. reap_target gq (of_nat i) = Some (the (cqe_addr ((cq_advance ^^ i) hq)), qp_phase ((cq_advance ^^ i) hq))) \<and>
    (\<exists>gq'. nvme_qpair_cuda_cq_update hw gq (of_nat n) d =
         (gq', mmio_write32 hw d (qp_cqdb hq) (ucast (qp_head ((cq_advance ^^ n) hq)))) \<and>
       same_queue ((cq_advance ^^ n) hq) gq')"
proof (intro conjI)
  have D: "0 < unat (qp_depth hq)" "unat (qp_depth hq) \<le> 1024" "unat (qp_tail hq) < unat (qp_depth hq)"
    using assms(1) by (simp_all add: qp_ok_def)
  then have t: "tail_at hq 0 = hq" by simp
  have "0 + length cmds \<le> 65536" using assms(3,4) D(2) by simp
  from enqueues_agree [OF assms(1,2) this, of hw d]
  obtain d' where d': "host_enqueues hw cmds hq d = Some (tail_at hq n, d')" "gpu_enqueues hw gq 0 cmds d = Some d'"
    by (simp only: t add_0 assms(3)) blast
  let ?gq = "gq\<lparr>qc_tail := of_nat ((unat (qp_tail hq) + n) mod unat (qp_depth hq))\<rparr>"
  have "qc_depth gq \<noteq> 0" using D(1) assms(2) by (auto simp: same_queue_def)
  then have "nvme_qpair_cuda_sq_update hw gq (of_nat n) d' =
      Some (?gq, mmio_write32 hw d' (qp_sqdb hq) (ucast (qp_tail (tail_at hq n))))"
    using assms(2) head_offset(3) [OF assms(1,2,4)]
    by (simp add: nvme_qpair_cuda_sq_update_def same_queue_def Let_def)
  moreover have "same_queue (tail_at hq n) ?gq" using assms(2) by (simp add: same_queue_def)
  ultimately show "\<exists>hq' gq' d'. host_enqueues hw cmds hq d = Some (hq', d') \<and> gpu_enqueues hw gq 0 cmds d = Some d' \<and>
      nvme_qpair_cuda_sq_update hw gq (of_nat n) d' = Some (gq', mmio_write32 hw d' (qp_sqdb hq') (ucast (qp_tail hq'))) \<and>
      same_queue hq' gq'"
    using d' by (intro exI [of _ "tail_at hq n"] exI [of _ ?gq] exI [of _ d'] conjI) simp_all
  show "\<forall>i < n. reap_target gq (of_nat i) = Some (the (cqe_addr ((cq_advance ^^ i) hq)), qp_phase ((cq_advance ^^ i) hq))"
    using reap_target_agrees [OF assms(1,2)] assms(4) by simp
  show "\<exists>gq'. nvme_qpair_cuda_cq_update hw gq (of_nat n) d =
      (gq', mmio_write32 hw d (qp_cqdb hq) (ucast (qp_head ((cq_advance ^^ n) hq)))) \<and>
    same_queue ((cq_advance ^^ n) hq) gq'"
    by (rule cq_update_agrees [OF assms(1,2,4)])
qed

text \<open>A device that remembers which slots were stored to.\<close>

definition slot_hw :: "u64 list dma_hw" where
  "slot_hw = \<lparr>hw_read32 = (\<lambda>d a. (0, d)), hw_write32 = (\<lambda>d a v. d), hw_usleep = (\<lambda>d n. d),
     hw_cqe = (\<lambda>d a. (zero_completion, d)), hw_sqe = (\<lambda>d a c. d @ [a]), hw_zero = (\<lambda>d a n. d),
     hw_list = (\<lambda>d a. []), hw_set_list = (\<lambda>d a l. d)\<rparr>"

theorem nvme_qpair_cuda_batch_equivalent_witness:
  "let hq = \<lparr>qp_sq = 0x1000, qp_cq = 0x2000, qp_sqdb = 0x1008, qp_cqdb = 0x100C, qp_qid = 1, qp_depth = 4,
         qp_tail = 3, qp_tail_last_written = 3, qp_head = 2, qp_phase = 1, qp_rpool = Null\<rparr>;
       gq = \<lparr>qc_sq = 0x1000, qc_cq = 0x2000, qc_sqdb = 0x1008, qc_cqdb = 0x100C, qc_qid = 1, qc_depth = 4,
         qc_tail = 3, qc_head = 2, qc_phase = 1, qc_timeout_ms = 500, qc_clocks_per_ms = 1000\<rparr>;
       cmds = [zero_command, zero_command, zero_command]
   in (\<exists>hq' d'. host_enqueues slot_hw cmds hq [] = Some (hq', d') \<and>
         gpu_enqueues slot_hw gq 0 cmds [] = Some d' \<and> d' = [0x10C0, 0x1000, 0x1040]) \<and>
      (\<forall>i < 3. reap_target gq (of_nat i) =
         Some (the (cqe_addr ((cq_advance ^^ i) hq)), qp_phase ((cq_advance ^^ i) hq)))"
proof -
  define hq where "hq = \<lparr>qp_sq = 0x1000, qp_cq = 0x2000, qp_sqdb = 0x1008, qp_cqdb = 0x100C, qp_qid = 1, qp_depth = 4,
    qp_tail = 3, qp_tail_last_written = 3, qp_head = 2, qp_phase = 1, qp_rpool = Null\<rparr>"
  define gq where "gq = \<lparr>qc_sq = 0x1000, qc_cq = 0x2000, qc_sqdb = 0x1008, qc_cqdb = 0x100C, qc_qid = 1, qc_depth = 4,
    qc_tail = 3, qc_head = 2, qc_phase = 1, qc_timeout_ms = 500, qc_clocks_per_ms = 1000\<rparr>"
  define cmds where "cmds = [zero_command, zero_command, zero_command]"
  have h: "qp_ok hq" "same_queue hq gq" "length cmds = 3" "3 \<le> unat (qp_depth hq)"
    by (simp_all add: hq_def gq_def cmds_def qp_ok_def same_queue_def)
  have g: "gpu_enqueues slot_hw gq 0 cmds [] = Some [0x10C0, 0x1000, 0x1040]"
    by (simp add: cmds_def gq_def slot_hw_def nvme_qpair_cuda_enqueue_at_i_def)
  from nvme_qpair_cuda_batch_equivalent [OF h, of slot_hw "[]"] g show ?thesis
    unfolding Let_def hq_def [symmetric] gq_def [symmetric] cmds_def [symmetric] by fastforce
qed

section \<open>A batch of the whole depth\<close>

text \<open>A ring of \<open>n\<close> entries holds \<open>n - 1\<close> commands: a batch of all its entries leaves the tail, and with it
  the doorbell, where it was, so the controller sees no command at all.\<close>

lemma nvme_qpair_cuda_full_batch_unseen:
  assumes "unat (qc_tail qp) < unat (qc_depth qp)"
  shows "nvme_qpair_cuda_sq_update hw qp (qc_depth qp) d =
    Some (qp, mmio_write32 hw d (qc_sqdb qp) (ucast (qc_tail qp)))"
  using assms by (auto simp: nvme_qpair_cuda_sq_update_def Let_def)

section \<open>The poll of a completion ends\<close>

text \<open>What is asked of the clock: it shows \<open>clk\<close>, advances with every look at it and never goes back.\<close>

definition clock_runs :: "('d, 'x) gpu_hw_scheme \<Rightarrow> ('d \<Rightarrow> int) \<Rightarrow> bool" where
  "clock_runs hw clk \<longleftrightarrow>
     (\<forall>d. fst (hw_clock hw d) = clk d \<and> clk d < clk (snd (hw_clock hw d))) \<and>
     (\<forall>d a. clk d \<le> clk (snd (hw_cqe hw d a))) \<and>
     (\<forall>d a cmd. clk d \<le> clk (hw_sqe hw d a cmd)) \<and>
     (\<forall>d a v. clk d \<le> clk (hw_write32 hw d a v))"

lemma clock_runsD:
  assumes "clock_runs hw clk"
  shows "fst (hw_clock hw d) = clk d" "clk d < clk (snd (hw_clock hw d))" "clk d \<le> clk (snd (hw_cqe hw d a))"
    "clk d \<le> clk (hw_sqe hw d a cmd)" "clk d \<le> clk (hw_write32 hw d r v)"
  using assms by (simp_all add: clock_runs_def)

lemma cqe_poll_clock:
  assumes "clock_runs hw clk"
  shows "clk d \<le> clk (snd (cqe_poll hw a expected d))"
proof -
  note c = clock_runsD(3) [OF assms]
  have "clk d \<le> clk (snd (hw_cqe hw (snd (hw_cqe hw d a)) a))" using c order_trans by blast
  moreover from this have "clk d \<le> clk (snd (hw_cqe hw (snd (hw_cqe hw (snd (hw_cqe hw d a)) a)) a))"
    using c order_trans by blast
  ultimately show ?thesis using c [of d a] by (simp add: cqe_poll_def Let_def split: prod.split) auto
qed

lemma poll_until_ends:
  assumes "clock_runs hw clk"
  shows "\<exists>ret cpl' d'. poll_until hw a expected deadline cpl d = Some (ret, cpl', d') \<and>
    ret \<in> {0, - EAGAIN} \<and> (ret \<noteq> 0 \<longrightarrow> cpl' = cpl)"
proof (induction "nat (deadline - clk d)" arbitrary: d rule: less_induct)
  case less
  obtain r d1 where p: "cqe_poll hw a expected d = (r, d1)" by (cases "cqe_poll hw a expected d")
  show ?case
  proof (cases r)
    case (Some cqe)
    with p show ?thesis by (simp add: poll_until.simps)
  next
    case None
    obtain now d2 where c: "hw_clock hw d1 = (now, d2)" by (cases "hw_clock hw d1")
    have m: "clk d \<le> clk d1" "now = clk d1" "clk d1 < clk d2"
      using cqe_poll_clock [OF assms, of d a expected] clock_runsD(1,2) [OF assms, of d1] p c by simp_all
    show ?thesis
    proof (cases "now < deadline")
      case True
      with m have "nat (deadline - clk d2) < nat (deadline - clk d)" by simp
      from less [OF this] True None p c show ?thesis by (simp add: poll_until.simps [where d = d])
    next
      case False
      with None p c show ?thesis by (simp add: poll_until.simps)
    qed
  qed
qed

text \<open>So a reap returns, with a completion or at the deadline.\<close>

lemma nvme_qpair_cuda_reap_at_i_ends:
  assumes "clock_runs hw clk" "qc_depth qp \<noteq> 0" "\<bar>timeout_ms * sint (qc_clocks_per_ms qp)\<bar> < 2 ^ 63"
  shows "\<exists>ret cpl' d'. nvme_qpair_cuda_reap_at_i hw qp timeout_ms cpl offset d = Some (ret, cpl', d') \<and>
    ret \<in> {0, - EAGAIN}"
proof -
  obtain a e where t: "reap_target qp offset = Some (a, e)" using assms(2) by (simp add: reap_target_def Let_def)
  obtain now d1 where c: "hw_clock hw d = (now, d1)" by (cases "hw_clock hw d")
  define clocks where "clocks = timeout_ms * sint (qc_clocks_per_ms qp)"
  have "- (2 ^ 63) \<le> clocks" "clocks < 2 ^ 63" using assms(3) unfolding clocks_def [symmetric] by linarith+
  then have "reap_deadline qp timeout_ms now = Some (now + clocks)"
    by (simp add: reap_deadline_def Let_def clocks_def)
  with t c poll_until_ends [OF assms(1), of a e] show ?thesis
    by (simp add: nvme_qpair_cuda_reap_at_i_def) blast
qed

end
