(* ===== verification/Nvme_Cuda_Block.thy ===== *)
theory Nvme_Cuda_Block
  imports Nvme_Qpair_Cuda_Props
begin

unbundle bit_operations_syntax

text \<open>
  A block of GPU threads in \<open>nvme_qpair_cuda_io\<close>: every thread runs the function on the queue pair they
  share, and two barriers hold them until all have come. A state has the queue pair, the place in
  the function that each thread has reached, its command, and the device; a step is one access
  of one thread to the shared parts (one look at the completion ring for the poll) or the
  opening of a barrier. Every interleaving of the threads is a run. Before the second barrier
  no thread writes what another one reads of the queue pair but the tail, which is read
  before the first barrier only.
\<close>

section \<open>Threads\<close>

datatype thread =
  Enqueue                                 \<comment> \<open>at the start\<close>
| Wait1                                   \<comment> \<open>at the first barrier\<close>
| Ring                                    \<comment> \<open>past it\<close>
| Reap                                    \<comment> \<open>about to call \<open>nvme_qpair_cuda_reap_at_i\<close>\<close>
| Poll u64 u8 int                         \<comment> \<open>in its loop: entry, phase, deadline\<close>
| Wait2 int nvme_completion               \<comment> \<open>at the second barrier: \<open>err\<close>, \<open>cpl\<close>\<close>
| Advance int nvme_completion             \<comment> \<open>past it\<close>
| Returned int

datatype cuda_event = Silent | Stored nat | RangSq | Reaped nat nvme_completion | GaveUp nat | RangCq

definition io_result :: "int \<Rightarrow> nvme_completion \<Rightarrow> int" where
  "io_result err cpl = (if err \<noteq> 0 then err else int (unat (drop_bit 1 (cpl_status cpl AND 0x1FE))))"

fun thread_step ::
  "('d, 'x) gpu_hw_scheme \<Rightarrow> nat \<Rightarrow> nat \<Rightarrow> thread \<Rightarrow> nvme_qpair_cuda \<Rightarrow> nvme_command \<Rightarrow> 'd \<Rightarrow>
   (cuda_event \<times> thread \<times> nvme_qpair_cuda \<times> nvme_command \<times> 'd) option" where
  "thread_step hw batch_size tid Enqueue qp cmd d =
     (if tid < batch_size then do {
        let cmd' = cmd\<lparr>cmd_cid := of_nat tid\<rparr>;
        d1 \<leftarrow> nvme_qpair_cuda_enqueue_at_i hw qp cmd' (of_nat tid) d;
        Some (Stored tid, Wait1, qp, cmd', d1) }
      else Some (Silent, Wait1, qp, cmd, d))"
| "thread_step hw batch_size tid Wait1 qp cmd d = None"
| "thread_step hw batch_size tid Ring qp cmd d =
     (if tid = 0 \<and> batch_size \<noteq> 0 then do {
        (qp', d1) \<leftarrow> nvme_qpair_cuda_sq_update hw qp (of_nat batch_size) d;
        Some (RangSq, Reap, qp', cmd, d1) }
      else Some (Silent, Reap, qp, cmd, d))"
| "thread_step hw batch_size tid Reap qp cmd d =
     (if tid < batch_size then do {
        (a, expected) \<leftarrow> reap_target qp (of_nat tid);
        let (now, d1) = hw_clock hw d;
        deadline \<leftarrow> reap_deadline qp (sint (qc_timeout_ms qp)) now;
        Some (Silent, Poll a expected deadline, qp, cmd, d1) }
      else Some (Silent, Wait2 0 zero_completion, qp, cmd, d))"
| "thread_step hw batch_size tid (Poll a expected deadline) qp cmd d =
     (case cqe_poll hw a expected d of
        (Some cqe, d1) \<Rightarrow> Some (Reaped tid cqe, Wait2 0 cqe, qp, cmd, d1)
      | (None, d1) \<Rightarrow>
          (case hw_clock hw d1 of (now, d2) \<Rightarrow>
            if now < deadline then Some (Silent, Poll a expected deadline, qp, cmd, d2)
            else Some (GaveUp tid, Wait2 (- EAGAIN) zero_completion, qp, cmd, d2)))"
| "thread_step hw batch_size tid (Wait2 err cpl) qp cmd d = None"
| "thread_step hw batch_size tid (Advance err cpl) qp cmd d =
     (if tid = 0 \<and> batch_size \<noteq> 0 then
        let (qp', d1) = nvme_qpair_cuda_cq_update hw qp (of_nat batch_size) d in
        Some (RangCq, Returned (io_result err cpl), qp', cmd, d1)
      else Some (Silent, Returned (io_result err cpl), qp, cmd, d))"
| "thread_step hw batch_size tid (Returned r) qp cmd d = None"

section \<open>Blocks\<close>

record 'd block =
  bk_qp :: nvme_qpair_cuda
  bk_threads :: "thread list"
  bk_cmds :: "nvme_command list"
  bk_dev :: 'd

fun waits2 :: "thread \<Rightarrow> bool" where
  "waits2 (Wait2 err cpl) = True"
| "waits2 _ = False"

fun release2 :: "thread \<Rightarrow> thread" where
  "release2 (Wait2 err cpl) = Advance err cpl"
| "release2 th = th"

inductive nvme_qpair_cuda_io ::
  "('d, 'x) gpu_hw_scheme \<Rightarrow> nat \<Rightarrow> 'd block \<Rightarrow> cuda_event \<Rightarrow> 'd block \<Rightarrow> bool"
  for hw batch_size where
  local: "nvme_qpair_cuda_io hw batch_size s e
      \<lparr>bk_qp = qp', bk_threads = (bk_threads s)[tid := th'], bk_cmds = (bk_cmds s)[tid := cmd'], bk_dev = d'\<rparr>"
    if "tid < length (bk_threads s)"
      "thread_step hw batch_size tid (bk_threads s ! tid) (bk_qp s) (bk_cmds s ! tid) (bk_dev s) =
        Some (e, th', qp', cmd', d')"
| sync1: "nvme_qpair_cuda_io hw batch_size s Silent (s\<lparr>bk_threads := map (\<lambda>_. Ring) (bk_threads s)\<rparr>)"
    if "\<forall>th \<in> set (bk_threads s). th = Wait1"
| sync2: "nvme_qpair_cuda_io hw batch_size s Silent (s\<lparr>bk_threads := map release2 (bk_threads s)\<rparr>)"
    if "\<forall>th \<in> set (bk_threads s). waits2 th"

text \<open>A run with the events of its steps in order.\<close>

inductive block_run ::
  "('d, 'x) gpu_hw_scheme \<Rightarrow> nat \<Rightarrow> 'd block \<Rightarrow> cuda_event list \<Rightarrow> 'd block \<Rightarrow> bool"
  for hw batch_size s0 where
  start: "block_run hw batch_size s0 [] s0"
| step: "block_run hw batch_size s0 (es @ [e]) s'"
    if "block_run hw batch_size s0 es s" "nvme_qpair_cuda_io hw batch_size s e s'"

definition start_block :: "nvme_qpair_cuda \<Rightarrow> nvme_command list \<Rightarrow> 'd \<Rightarrow> 'd block" where
  "start_block qp cmds d = \<lparr>bk_qp = qp, bk_threads = map (\<lambda>_. Enqueue) cmds, bk_cmds = cmds, bk_dev = d\<rparr>"

end
