(* ===== verification/Nvme_Cuda_Block_Props.thy ===== *)
theory Nvme_Cuda_Block_Props
  imports Nvme_Cuda_Block
begin

unbundle bit_operations_syntax

text \<open>
  What every interleaving of a block has in common: the two barriers divide a run into three rounds,
  and the invariant says where each thread is, what the queue pair holds and what has happened.
  From it the order of stores, polls and doorbells, the outcome, and that every run ends.
\<close>

section \<open>Rounds\<close>

fun rank :: "thread \<Rightarrow> nat" where
  "rank Enqueue = 7"
| "rank Wait1 = 6"
| "rank Ring = 5"
| "rank Reap = 4"
| "rank (Poll a expected deadline) = 3"
| "rank (Wait2 err cpl) = 2"
| "rank (Advance err cpl) = 1"
| "rank (Returned r) = 0"

text \<open>The queue pair after its tail, and after its head, has been advanced by the batch.\<close>

definition rung :: "nat \<Rightarrow> nvme_qpair_cuda \<Rightarrow> nvme_qpair_cuda" where
  "rung b qp = (if b = 0 then qp
     else qp\<lparr>qc_tail := of_nat ((unat (qc_tail qp) + unat (of_nat b :: u16)) mod unat (qc_depth qp))\<rparr>)"

definition advanced :: "nat \<Rightarrow> nvme_qpair_cuda \<Rightarrow> nvme_qpair_cuda" where
  "advanced b qp = (if b = 0 then qp
     else if qc_depth qp \<le> qc_head qp + of_nat b
     then qp\<lparr>qc_head := qc_head qp + of_nat b - qc_depth qp, qc_phase := qc_phase qp XOR 1\<rparr>
     else qp\<lparr>qc_head := qc_head qp + of_nat b\<rparr>)"

text \<open>What the events say of a thread: that its command is stored, that its poll is over.\<close>

definition stored :: "nat \<Rightarrow> cuda_event list \<Rightarrow> nat \<Rightarrow> bool" where
  "stored b es t \<longleftrightarrow> (t < b \<longrightarrow> Stored t \<in> set es)"

definition polled :: "nat \<Rightarrow> cuda_event list \<Rightarrow> nat \<Rightarrow> int \<Rightarrow> nvme_completion \<Rightarrow> bool" where
  "polled b es t err cpl \<longleftrightarrow>
     (if t < b then err = 0 \<and> Reaped t cpl \<in> set es \<or> err = - EAGAIN \<and> GaveUp t \<in> set es
      else err = 0 \<and> cpl = zero_completion)"

fun thread_inv :: "nat \<Rightarrow> nvme_qpair_cuda \<Rightarrow> cuda_event list \<Rightarrow> nat \<Rightarrow> thread \<Rightarrow> bool" where
  "thread_inv b qp es t Enqueue = True"
| "thread_inv b qp es t (Poll a expected deadline) =
     (t < b \<and> stored b es t \<and> reap_target qp (of_nat t) = Some (a, expected))"
| "thread_inv b qp es t (Wait2 err cpl) = (stored b es t \<and> polled b es t err cpl)"
| "thread_inv b qp es t (Advance err cpl) = (stored b es t \<and> polled b es t err cpl)"
| "thread_inv b qp es t (Returned r) = (stored b es t \<and> (\<exists>err cpl. polled b es t err cpl \<and> r = io_result err cpl))"
| "thread_inv b qp es t _ = stored b es t"

text \<open>An event has what it needs before it.\<close>

fun justified :: "nat \<Rightarrow> cuda_event list \<Rightarrow> cuda_event \<Rightarrow> bool" where
  "justified b es RangSq = (\<forall>t < b. Stored t \<in> set es)"
| "justified b es RangCq = (\<forall>t < b. (\<exists>cqe. Reaped t cqe \<in> set es) \<or> GaveUp t \<in> set es)"
| "justified b es _ = True"

definition in_order :: "nat \<Rightarrow> cuda_event list \<Rightarrow> bool" where
  "in_order b es \<longleftrightarrow> (\<forall>k < length es. justified b (take k es) (es ! k))"

lemma in_order_Nil [simp]: "in_order b []"
  by (simp add: in_order_def)

lemma in_order_snoc: "in_order b es \<Longrightarrow> justified b es e \<Longrightarrow> in_order b (es @ [e])"
  by (auto simp: in_order_def nth_append less_Suc_eq)

lemma stored_snoc: "stored b es t \<Longrightarrow> stored b (es @ [e]) t"
  by (simp add: stored_def)

lemma polled_snoc: "polled b es t err cpl \<Longrightarrow> polled b (es @ [e]) t err cpl"
  by (auto simp: polled_def split: if_split_asm)

lemma thread_inv_snoc: "thread_inv b qp es t th \<Longrightarrow> thread_inv b qp (es @ [e]) t th"
  by (cases th) (auto intro: stored_snoc polled_snoc)

lemma reap_target_rung [simp]: "reap_target (rung b qp) = reap_target qp"
  by (rule ext) (simp add: reap_target_def rung_def Let_def)

lemma rung_fields [simp]:
  "qc_depth (rung b qp) = qc_depth qp" "qc_timeout_ms (rung b qp) = qc_timeout_ms qp"
  "qc_clocks_per_ms (rung b qp) = qc_clocks_per_ms qp"
  by (simp_all add: rung_def)

definition round_of :: "nat \<Rightarrow> nat \<Rightarrow> thread list \<Rightarrow> bool" where
  "round_of lo hi ths \<longleftrightarrow> (\<forall>th \<in> set ths. lo \<le> rank th \<and> rank th \<le> hi)"

definition queue_inv :: "nat \<Rightarrow> nvme_qpair_cuda \<Rightarrow> cuda_event list \<Rightarrow> thread list \<Rightarrow> nvme_qpair_cuda \<Rightarrow> bool" where
  "queue_inv b qp0 es ths qp \<longleftrightarrow>
     round_of 6 7 ths \<and> qp = qp0 \<and> RangSq \<notin> set es \<and> RangCq \<notin> set es \<or>
     round_of 2 5 ths \<and> qp = (if ths ! 0 = Ring then qp0 else rung b qp0) \<and>
       (RangSq \<in> set es \<longleftrightarrow> b \<noteq> 0 \<and> ths ! 0 \<noteq> Ring) \<and> RangCq \<notin> set es \<or>
     round_of 0 1 ths \<and> qp = (if rank (ths ! 0) = 1 then rung b qp0 else advanced b (rung b qp0)) \<and>
       (RangSq \<in> set es \<longleftrightarrow> b \<noteq> 0) \<and> (RangCq \<in> set es \<longleftrightarrow> b \<noteq> 0 \<and> rank (ths ! 0) = 0)"

definition block_inv :: "nat \<Rightarrow> nat \<Rightarrow> nvme_qpair_cuda \<Rightarrow> cuda_event list \<Rightarrow> 'd block \<Rightarrow> bool" where
  "block_inv n b qp0 es s \<longleftrightarrow> length (bk_threads s) = n \<and> length (bk_cmds s) = n \<and>
     queue_inv b qp0 es (bk_threads s) (bk_qp s) \<and>
     (\<forall>t < n. thread_inv b qp0 es t (bk_threads s ! t)) \<and> in_order b es"

text \<open>A step of one thread lowers its rank by one, or leaves it in its loop, or takes it past the loop it
  does not enter; what it does to the queue pair is thread 0's.\<close>

lemma thread_step_result:
  assumes "thread_step hw b t th qp cmd d = Some (e, th', qp', cmd', d')"
  shows "rank th' \<le> rank th" "rank th' < rank th \<or> (\<exists>a x dl. th = Poll a x dl \<and> th' = th \<and> e = Silent)"
    "6 < rank th \<longrightarrow> rank th' = 6" "rank th \<noteq> 6 \<and> rank th \<noteq> 2 \<and> rank th \<noteq> 0"
    "2 < rank th \<longrightarrow> 2 \<le> rank th'" "th' \<noteq> Ring"
    "qp' = (if th = Ring \<and> t = 0 then rung b qp else if rank th = 1 \<and> t = 0 then advanced b qp else qp)"
    "e = RangSq \<longleftrightarrow> th = Ring \<and> t = 0 \<and> b \<noteq> 0" "e = RangCq \<longleftrightarrow> rank th = 1 \<and> t = 0 \<and> b \<noteq> 0"
  using assms
  by (cases th; auto simp: rung_def advanced_def nvme_qpair_cuda_sq_update_def nvme_qpair_cuda_cq_update_def
      Let_def split: if_split_asm Option.bind_split_asm prod.split_asm option.split_asm)+

lemma thread_step_inv:
  assumes "thread_step hw b t th qp cmd d = Some (e, th', qp', cmd', d')" "thread_inv b qp0 es t th"
    and "th = Reap \<longrightarrow> reap_target qp = reap_target qp0"
  shows "thread_inv b qp0 (es @ [e]) t th'"
proof (cases th)
  case (Advance err cpl)
  then have "th' = Returned (io_result err cpl)"
    using assms(1) by (auto split: if_split_asm prod.split_asm)
  moreover have "stored b (es @ [e]) t" "polled b (es @ [e]) t err cpl"
    using assms(2) Advance by (auto intro: stored_snoc polled_snoc)
  ultimately show ?thesis by auto
qed (use assms in \<open>auto simp: stored_def polled_def
    Let_def split: if_split_asm Option.bind_split_asm prod.split_asm option.split_asm\<close>)

section \<open>Every step keeps the invariant\<close>

lemma round_of_update:
  assumes "round_of lo hi ths" "t < length ths" "lo \<le> rank th'" "rank th' \<le> hi"
  shows "round_of lo hi (ths[t := th'])"
  using assms by (auto simp: round_of_def dest!: set_update_subset_insert [THEN subsetD])

lemma round_of_nth: "round_of lo hi ths \<Longrightarrow> t < length ths \<Longrightarrow> lo \<le> rank (ths ! t) \<and> rank (ths ! t) \<le> hi"
  by (simp add: round_of_def)

lemma rank_Ring: "th = Ring \<longleftrightarrow> rank th = 5"
  by (cases th) simp_all

lemma nth_update_0: "t < length ths \<Longrightarrow> (ths[t := th'] ! 0) = (if t = 0 then th' else ths ! 0)"
  by (cases ths; cases t) simp_all

lemma queue_inv_local:
  assumes inv: "queue_inv b qp0 es ths qp" and t: "t < length ths"
    and st: "thread_step hw b t (ths ! t) qp cmd d = Some (e, th', qp', cmd', d')"
  shows "queue_inv b qp0 (es @ [e]) (ths[t := th']) qp'"
proof -
  note r = thread_step_result [OF st]
  have z: "(ths[t := th'] ! 0) = (if t = 0 then th' else ths ! 0)" by (rule nth_update_0 [OF t])
  from inv consider
      (one) "round_of 6 7 ths" "qp = qp0" "RangSq \<notin> set es" "RangCq \<notin> set es"
    | (two) "round_of 2 5 ths" "qp = (if ths ! 0 = Ring then qp0 else rung b qp0)"
        "RangSq \<in> set es \<longleftrightarrow> b \<noteq> 0 \<and> ths ! 0 \<noteq> Ring" "RangCq \<notin> set es"
    | (three) "round_of 0 1 ths" "qp = (if rank (ths ! 0) = 1 then rung b qp0 else advanced b (rung b qp0))"
        "RangSq \<in> set es \<longleftrightarrow> b \<noteq> 0" "RangCq \<in> set es \<longleftrightarrow> b \<noteq> 0 \<and> rank (ths ! 0) = 0"
    unfolding queue_inv_def by blast
  then show ?thesis
  proof cases
    case one
    note k = round_of_nth [OF one(1) t]
    then have "rank th' = 6" using r(1,3,4) by linarith
    with one k r(7-9) round_of_update [OF one(1) t, of th'] show ?thesis
      by (auto simp: queue_inv_def rank_Ring)
  next
    case two
    note k = round_of_nth [OF two(1) t]
    have "2 \<le> rank th'" "rank th' \<le> 5" using k r(1,4,5) by linarith+
    with round_of_update [OF two(1) t] have "round_of 2 5 (ths[t := th'])" by blast
    moreover have "rank (ths ! t) \<noteq> 1" using k by simp
    ultimately show ?thesis
      using two(2-4) r(6-9) unfolding queue_inv_def z by (cases "t = 0") auto
  next
    case three
    note k = round_of_nth [OF three(1) t]
    then have k1: "rank (ths ! t) = 1" "rank th' = 0" using r(1,2,4) by (auto simp: le_Suc_eq)
    then have "round_of 0 1 (ths[t := th'])" using round_of_update [OF three(1) t] by simp
    moreover have "ths ! t \<noteq> Ring" using k1 by auto
    ultimately show ?thesis
      using three(2-4) r(7-9) k1 unfolding queue_inv_def z by (cases "t = 0") auto
  qed
qed

lemma queue_inv_head: "queue_inv b qp0 es ths qp \<Longrightarrow> rank (ths ! 0) \<noteq> 1 \<Longrightarrow> rank (ths ! 0) \<noteq> 0 \<Longrightarrow> ths \<noteq> [] \<Longrightarrow>
  reap_target qp = reap_target qp0"
proof -
  assume a: "queue_inv b qp0 es ths qp" "rank (ths ! 0) \<noteq> 1" "rank (ths ! 0) \<noteq> 0" "ths \<noteq> []"
  then have "\<not> round_of 0 1 ths" using round_of_nth [of 0 1 ths 0] by (auto simp: le_Suc_eq)
  with a(1) show ?thesis by (auto simp: queue_inv_def)
qed

lemma queue_inv_reap:
  assumes "queue_inv b qp0 es ths qp" "t < length ths" "ths ! t = Reap"
  shows "reap_target qp = reap_target qp0"
proof (rule queue_inv_head [OF assms(1)])
  show "ths \<noteq> []" using assms(2) by auto
  then have z: "0 < length ths" by simp
  have "rank (ths ! t) = 4" using assms(3) by simp
  then show "rank (ths ! 0) \<noteq> 1" "rank (ths ! 0) \<noteq> 0"
    using assms(1) round_of_nth [OF _ assms(2)] round_of_nth [OF _ z] by (fastforce simp: queue_inv_def)+
qed

text \<open>When thread 0 rings, all are past the first barrier; when it advances the head, past the second.\<close>

lemma queue_inv_justified:
  assumes inv: "queue_inv b qp0 es ths qp" "\<forall>t < length ths. thread_inv b qp0 es t (ths ! t)" "b \<le> length ths"
    and t: "t < length ths" "thread_step hw b t (ths ! t) qp cmd d = Some (e, th', qp', cmd', d')"
  shows "justified b es e"
proof (cases e)
  case RangSq
  then have "ths ! t = Ring" using thread_step_result(8) [OF t(2)] by blast
  then have five: "rank (ths ! t) = 5" by simp
  have "stored b es u" if "u < b" for u
  proof -
    have u: "u < length ths" using that inv(3) by simp
    have "rank (ths ! u) \<noteq> 7"
      using inv(1) five round_of_nth [OF _ t(1)] round_of_nth [OF _ u] by (fastforce simp: queue_inv_def)
    then show ?thesis using inv(2) u by (cases "ths ! u") fastforce+
  qed
  with RangSq show ?thesis by (simp add: stored_def)
next
  case RangCq
  then have one: "rank (ths ! t) = 1" using thread_step_result(9) [OF t(2)] by blast
  have "\<exists>err cpl. polled b es u err cpl" if "u < b" for u
  proof -
    have u: "u < length ths" using that inv(3) by simp
    have "rank (ths ! u) \<le> 1"
      using inv(1) one round_of_nth [OF _ t(1)] round_of_nth [OF _ u] by (fastforce simp: queue_inv_def)
    then show ?thesis using inv(2) u by (cases "ths ! u") fastforce+
  qed
  with RangCq show ?thesis by (fastforce simp: polled_def)
qed simp_all

lemma waits2_cases: "waits2 th \<longleftrightarrow> (\<exists>err cpl. th = Wait2 err cpl)"
  by (cases th) simp_all

inductive_cases block_stepE: "nvme_qpair_cuda_io hw b s e s'"

lemma block_local_inv:
  assumes inv: "block_inv n b qp0 es s" and n: "b \<le> n" and tid: "tid < length (bk_threads s)"
    and st: "thread_step hw b tid (bk_threads s ! tid) (bk_qp s) (bk_cmds s ! tid) (bk_dev s) =
      Some (e, th', qp', cmd', d')"
  shows "block_inv n b qp0 (es @ [e]) \<lparr>bk_qp = qp', bk_threads = (bk_threads s)[tid := th'],
    bk_cmds = (bk_cmds s)[tid := cmd'], bk_dev = d'\<rparr>"
proof -
  from inv have i: "length (bk_threads s) = n" "length (bk_cmds s) = n"
    "queue_inv b qp0 es (bk_threads s) (bk_qp s)" "\<forall>t < n. thread_inv b qp0 es t (bk_threads s ! t)" "in_order b es"
    by (simp_all add: block_inv_def)
  have "thread_inv b qp0 (es @ [e]) t ((bk_threads s)[tid := th'] ! t)" if "t < n" for t
  proof (cases "t = tid")
    case True
    have "thread_inv b qp0 (es @ [e]) tid th'"
      by (rule thread_step_inv [OF st]) (use i tid queue_inv_reap [OF i(3) tid] in auto)
    with True that i(1) show ?thesis by simp
  next
    case False
    with i(4) that show ?thesis by (simp add: thread_inv_snoc)
  qed
  moreover have "queue_inv b qp0 (es @ [e]) ((bk_threads s)[tid := th']) qp'"
    by (rule queue_inv_local [OF i(3) tid st])
  moreover have "justified b es e"
    by (rule queue_inv_justified [OF i(3) _ _ tid st]) (use i n in simp_all)
  ultimately show ?thesis using i(1,2,5) by (simp add: block_inv_def in_order_snoc)
qed

lemma block_sync1_inv:
  assumes inv: "block_inv n b qp0 es s" and n: "0 < n" and all: "\<forall>th \<in> set (bk_threads s). th = Wait1"
  shows "block_inv n b qp0 (es @ [Silent]) (s\<lparr>bk_threads := map (\<lambda>_. Ring) (bk_threads s)\<rparr>)"
proof -
  from inv n have ne: "bk_threads s \<noteq> []" by (auto simp: block_inv_def)
  then have "bk_threads s ! 0 = Wait1" using all nth_mem [of 0 "bk_threads s"] by blast
  then have "rank (bk_threads s ! 0) = 6" by simp
  with inv ne have q: "bk_qp s = qp0" "RangSq \<notin> set es" "RangCq \<notin> set es"
    using round_of_nth [of _ _ "bk_threads s" 0] by (fastforce simp: block_inv_def queue_inv_def)+
  have "stored b es t" if "t < n" for t
  proof -
    have "bk_threads s ! t = Wait1" using all that inv by (simp add: block_inv_def)
    then show ?thesis using that inv by (auto simp: block_inv_def dest!: spec [of _ t])
  qed
  then have "\<forall>t < n. thread_inv b qp0 (es @ [Silent]) t (map (\<lambda>_. Ring) (bk_threads s) ! t)"
    using inv by (simp add: block_inv_def stored_snoc)
  moreover have "queue_inv b qp0 (es @ [Silent]) (map (\<lambda>_. Ring) (bk_threads s)) (bk_qp s)"
    using q ne by (simp add: queue_inv_def round_of_def)
  ultimately show ?thesis using inv by (simp add: block_inv_def in_order_snoc)
qed

lemma block_sync2_inv:
  assumes inv: "block_inv n b qp0 es s" and n: "0 < n" and all: "\<forall>th \<in> set (bk_threads s). waits2 th"
  shows "block_inv n b qp0 (es @ [Silent]) (s\<lparr>bk_threads := map release2 (bk_threads s)\<rparr>)"
proof -
  from inv n have ne: "bk_threads s \<noteq> []" by (auto simp: block_inv_def)
  then have z: "waits2 (bk_threads s ! 0)" using all by simp
  then have "rank (bk_threads s ! 0) = 2" "bk_threads s ! 0 \<noteq> Ring" by (auto simp: waits2_cases)
  with inv ne have q: "bk_qp s = rung b qp0" "RangSq \<in> set es \<longleftrightarrow> b \<noteq> 0" "RangCq \<notin> set es"
    using round_of_nth [of _ _ "bk_threads s" 0] by (fastforce simp: block_inv_def queue_inv_def)+
  have "thread_inv b qp0 es t (release2 (bk_threads s ! t))" if "t < n" for t
  proof -
    have "waits2 (bk_threads s ! t)" using all that inv by (simp add: block_inv_def)
    then show ?thesis using that inv by (auto simp: block_inv_def waits2_cases dest!: spec [of _ t])
  qed
  then have "\<forall>t < n. thread_inv b qp0 (es @ [Silent]) t (map release2 (bk_threads s) ! t)"
    using inv by (simp add: block_inv_def thread_inv_snoc)
  moreover have "queue_inv b qp0 (es @ [Silent]) (map release2 (bk_threads s)) (bk_qp s)"
  proof -
    have "round_of 0 1 (map release2 (bk_threads s))" using all by (auto simp: round_of_def waits2_cases)
    moreover have "rank (map release2 (bk_threads s) ! 0) = 1" using ne z by (auto simp: waits2_cases)
    ultimately show ?thesis using q by (simp add: queue_inv_def)
  qed
  ultimately show ?thesis using inv by (simp add: block_inv_def in_order_snoc)
qed

lemma block_step_inv:
  assumes inv: "block_inv n b qp0 es s" and n: "b \<le> n" "0 < n" and st: "nvme_qpair_cuda_io hw b s e s'"
  shows "block_inv n b qp0 (es @ [e]) s'"
  using st inv n
  by (elim block_stepE) (simp_all only: block_local_inv block_sync1_inv block_sync2_inv)

lemma block_run_inv:
  assumes "block_run hw b (start_block qp cmds d) es s" "b \<le> length cmds" "cmds \<noteq> []"
  shows "block_inv (length cmds) b qp es s"
  using assms(1)
proof induction
  case start
  have "round_of 6 7 (map (\<lambda>_. Enqueue) cmds)" by (simp add: round_of_def)
  then show ?case by (simp add: block_inv_def start_block_def queue_inv_def)
next
  case (step es s e s')
  show ?case by (rule block_step_inv [OF step.IH assms(2) _ step.hyps(2)]) (use assms(3) in simp)
qed

section \<open>Order and outcome\<close>

text \<open>C13: Whatever the interleaving of the threads of a block and whatever the controller does: the tail is
  written to its doorbell only when the commands of all threads of the batch are in the ring, and
  the head is advanced only when each of them has its completion or has given up; a thread in its
  poll looks at its own entry with the phase the head had at the start; a thread that returns gives the
  status of the completion it reaped or \<open>-EAGAIN\<close>, and 0 outside the batch; and when all have
  returned, tail and head have been advanced by the batch once each.\<close>

theorem nvme_qpair_cuda_io_ordered:
  assumes "block_run hw b (start_block qp cmds d) es s" "b \<le> length cmds" "cmds \<noteq> []"
  shows "(\<forall>k < length es. es ! k = RangSq \<longrightarrow> (\<forall>t < b. Stored t \<in> set (take k es))) \<and>
    (\<forall>k < length es. es ! k = RangCq \<longrightarrow>
      (\<forall>t < b. (\<exists>cqe. Reaped t cqe \<in> set (take k es)) \<or> GaveUp t \<in> set (take k es))) \<and>
    (\<forall>t < length cmds. \<forall>a expected deadline. bk_threads s ! t = Poll a expected deadline \<longrightarrow>
      reap_target qp (of_nat t) = Some (a, expected)) \<and>
    (\<forall>t < length cmds. \<forall>r. bk_threads s ! t = Returned r \<longrightarrow>
      (if t < b then (\<exists>cqe. Reaped t cqe \<in> set es \<and> r = io_result 0 cqe) \<or> GaveUp t \<in> set es \<and> r = - EAGAIN
       else r = 0)) \<and>
    ((\<forall>t < length cmds. \<exists>r. bk_threads s ! t = Returned r) \<longrightarrow> bk_qp s = advanced b (rung b qp))"
proof -
  have inv: "block_inv (length cmds) b qp es s" by (rule block_run_inv [OF assms])
  have ord: "justified b (take k es) (es ! k)" if "k < length es" for k
    using inv that by (simp add: block_inv_def in_order_def)
  have th: "thread_inv b qp es t (bk_threads s ! t)" if "t < length cmds" for t
    using inv that by (simp add: block_inv_def)
  show ?thesis
  proof (intro conjI allI impI)
    fix k assume "k < length es" "es ! k = RangSq"
    with ord [of k] show "Stored t \<in> set (take k es)" if "t < b" for t using that by simp
  next
    fix k assume "k < length es" "es ! k = RangCq"
    with ord [of k] show "(\<exists>cqe. Reaped t cqe \<in> set (take k es)) \<or> GaveUp t \<in> set (take k es)" if "t < b" for t
      using that by simp
  next
    fix t a expected deadline assume "t < length cmds" "bk_threads s ! t = Poll a expected deadline"
    with th [of t] show "reap_target qp (of_nat t) = Some (a, expected)" by simp
  next
    fix t r assume "t < length cmds" "bk_threads s ! t = Returned r"
    with th [of t] obtain err cpl where p: "polled b es t err cpl" "r = io_result err cpl" by auto
    have "io_result (- EAGAIN) cpl = - EAGAIN" "io_result 0 zero_completion = 0"
      by (simp_all add: io_result_def zero_completion_def)
    with p show "if t < b then (\<exists>cqe. Reaped t cqe \<in> set es \<and> r = io_result 0 cqe) \<or> GaveUp t \<in> set es \<and> r = - EAGAIN
       else r = 0"
      unfolding polled_def by (cases "t < b") auto
  next
    assume "\<forall>t < length cmds. \<exists>r. bk_threads s ! t = Returned r"
    moreover have n: "0 < length (bk_threads s)" "length (bk_threads s) = length cmds"
      using inv assms(3) by (simp_all add: block_inv_def)
    ultimately have "rank (bk_threads s ! 0) = 0" by auto
    with inv n round_of_nth [OF _ n(1)] show "bk_qp s = advanced b (rung b qp)"
      by (fastforce simp: block_inv_def queue_inv_def)
  qed
qed

section \<open>Every run ends\<close>

lemma thread_step_exists:
  assumes "rank th \<notin> {6, 2, 0}" "qc_depth qp \<noteq> 0"
    and "- (2 ^ 63) \<le> sint (qc_timeout_ms qp) * sint (qc_clocks_per_ms qp)"
    and "sint (qc_timeout_ms qp) * sint (qc_clocks_per_ms qp) < 2 ^ 63"
  shows "thread_step hw b t th qp cmd d \<noteq> None"
  using assms
  by (cases th) (simp_all add: nvme_qpair_cuda_enqueue_at_i_def nvme_qpair_cuda_sq_update_def
      reap_target_def reap_deadline_def Let_def split: prod.split option.split)

lemma queue_inv_fields:
  "queue_inv b qp0 es ths qp \<Longrightarrow> qc_depth qp = qc_depth qp0 \<and> qc_timeout_ms qp = qc_timeout_ms qp0 \<and>
    qc_clocks_per_ms qp = qc_clocks_per_ms qp0"
  by (auto simp: queue_inv_def advanced_def)

lemma rank_waits: "rank th = 6 \<longleftrightarrow> th = Wait1" "rank th = 2 \<longleftrightarrow> waits2 th" "rank th = 0 \<longleftrightarrow> (\<exists>r. th = Returned r)"
  by (cases th; simp)+

lemma block_progress:
  assumes inv: "block_inv n b qp0 es s" and ok: "qc_depth qp0 \<noteq> 0"
      "- (2 ^ 63) \<le> sint (qc_timeout_ms qp0) * sint (qc_clocks_per_ms qp0)"
      "sint (qc_timeout_ms qp0) * sint (qc_clocks_per_ms qp0) < 2 ^ 63"
    and t: "t < n" "\<forall>r. bk_threads s ! t \<noteq> Returned r"
  shows "\<exists>e s'. nvme_qpair_cuda_io hw b s e s'"
proof (cases "\<exists>u < n. rank (bk_threads s ! u) \<notin> {6, 2, 0}")
  case True
  then obtain u where u: "u < n" "rank (bk_threads s ! u) \<notin> {6, 2, 0}" by blast
  have f: "qc_depth (bk_qp s) = qc_depth qp0" "qc_timeout_ms (bk_qp s) = qc_timeout_ms qp0"
    "qc_clocks_per_ms (bk_qp s) = qc_clocks_per_ms qp0"
    using queue_inv_fields inv unfolding block_inv_def by blast+
  have "thread_step hw b u (bk_threads s ! u) (bk_qp s) (bk_cmds s ! u) (bk_dev s) \<noteq> None"
    by (rule thread_step_exists [OF u(2)]) (simp_all only: f ok not_False_eq_True)
  then obtain e th' qp' cmd' d' where
    "thread_step hw b u (bk_threads s ! u) (bk_qp s) (bk_cmds s ! u) (bk_dev s) = Some (e, th', qp', cmd', d')"
    by auto
  moreover have "u < length (bk_threads s)" using u(1) inv by (simp add: block_inv_def)
  ultimately have "nvme_qpair_cuda_io hw b s e \<lparr>bk_qp = qp', bk_threads = (bk_threads s)[u := th'],
      bk_cmds = (bk_cmds s)[u := cmd'], bk_dev = d'\<rparr>" by (intro nvme_qpair_cuda_io.local)
  then show ?thesis by (intro exI)
next
  case False
  then have w: "\<forall>th \<in> set (bk_threads s). rank th \<in> {6, 2, 0}"
    using inv by (metis block_inv_def in_set_conv_nth)
  have m: "bk_threads s ! t \<in> set (bk_threads s)" using t(1) inv by (simp add: block_inv_def)
  from inv consider "round_of 6 7 (bk_threads s)" | "round_of 2 5 (bk_threads s)" | "round_of 0 1 (bk_threads s)"
    by (auto simp: block_inv_def queue_inv_def)
  then show ?thesis
  proof cases
    case 1
    then have "\<forall>th \<in> set (bk_threads s). th = Wait1" using w rank_waits(1) by (fastforce simp: round_of_def)
    then show ?thesis using nvme_qpair_cuda_io.sync1 by blast
  next
    case 2
    then have "\<forall>th \<in> set (bk_threads s). waits2 th" using w rank_waits(2) by (fastforce simp: round_of_def)
    then show ?thesis using nvme_qpair_cuda_io.sync2 by blast
  next
    case 3
    then have "rank (bk_threads s ! t) = 0" using w m by (fastforce simp: round_of_def)
    then show ?thesis using t(2) rank_waits(3) by blast
  qed
qed

text \<open>The measure: the threads' places, and then what is left until the deadlines.\<close>

fun left_of :: "int \<Rightarrow> thread \<Rightarrow> nat" where
  "left_of now (Poll a expected deadline) = nat (deadline - now)"
| "left_of now _ = 0"

definition block_measure :: "('d \<Rightarrow> int) \<Rightarrow> ('d block \<times> 'd block) set" where
  "block_measure clk = (\<lambda>s. \<Sum>th \<leftarrow> bk_threads s. rank th) <*mlex*>
     measure (\<lambda>s. \<Sum>th \<leftarrow> bk_threads s. left_of (clk (bk_dev s)) th)"

lemma wf_block_measure: "wf (block_measure clk)"
  by (simp add: block_measure_def wf_mlex)

lemma sum_list_update_less:
  assumes "t < length xs" "f x < f (xs ! t)"
  shows "(\<Sum>y \<leftarrow> xs[t := x]. f y) < (\<Sum>y \<leftarrow> xs. f y :: nat)"
proof -
  have "xs = take t xs @ xs ! t # drop (Suc t) xs" using assms(1) by (rule id_take_nth_drop)
  then have "(\<Sum>y \<leftarrow> xs. f y) = (\<Sum>y \<leftarrow> take t xs. f y) + (f (xs ! t) + (\<Sum>y \<leftarrow> drop (Suc t) xs. f y))"
    by (metis list.simps(9) map_append sum_list.Cons sum_list_append)
  with assms show ?thesis by (simp add: upd_conv_take_nth_drop)
qed

lemma sum_list_less:
  assumes "\<forall>x \<in> set xs. f x \<le> g x" "y \<in> set xs" "f y < g y"
  shows "(\<Sum>x \<leftarrow> xs. f x) < (\<Sum>x \<leftarrow> xs. g x :: nat)"
  using assms
proof (induction xs)
  case (Cons x xs)
  have m: "(\<Sum>x \<leftarrow> xs. f x) \<le> (\<Sum>x \<leftarrow> xs. g x)" using Cons.prems(1) by (intro sum_list_mono) simp
  show ?case
  proof (cases "y \<in> set xs")
    case True
    with Cons.IH Cons.prems have "(\<Sum>x \<leftarrow> xs. f x) < (\<Sum>x \<leftarrow> xs. g x)" by simp
    with Cons.prems(1) show ?thesis by (simp add: add_le_less_mono)
  next
    case False
    with Cons.prems m show ?thesis by (auto intro: add_less_le_mono)
  qed
qed simp

lemma sum_rank_map_less:
  assumes "xs \<noteq> []" "\<forall>th \<in> set xs. rank (f th) < rank th"
  shows "(\<Sum>th \<leftarrow> map f xs. rank th) < (\<Sum>th \<leftarrow> xs. rank th)"
proof -
  have "(\<Sum>th \<leftarrow> xs. rank (f th)) < (\<Sum>th \<leftarrow> xs. rank th)"
    using assms by (intro sum_list_less [where y = "hd xs"]) (auto intro: less_imp_le)
  then show ?thesis by (simp add: comp_def)
qed

lemma left_of_mono: "now \<le> now' \<Longrightarrow> left_of now' th \<le> left_of now th"
  by (cases th) simp_all

lemma block_step_decreases:
  assumes clk: "clock_runs hw clk" and st: "nvme_qpair_cuda_io hw b s e s'" and ne: "bk_threads s \<noteq> []"
  shows "(s', s) \<in> block_measure clk"
  using st
proof cases
  case (local tid th' qp' cmd' d')
  note r = thread_step_result [OF local(3)]
  show ?thesis
  proof (cases "rank th' < rank (bk_threads s ! tid)")
    case True
    then show ?thesis
      using sum_list_update_less [OF local(2), of rank] local(1) by (simp add: block_measure_def mlex_less)
  next
    case False
    then obtain a x dl where p: "bk_threads s ! tid = Poll a x dl" "th' = bk_threads s ! tid" using r(2) by blast
    obtain d1 d2 where d: "cqe_poll hw a x (bk_dev s) = (None, d1)" "hw_clock hw d1 = (clk d1, d2)" "clk d1 < dl" "d' = d2"
      using local(3) p clock_runsD(1) [OF clk]
      by (auto split: prod.split_asm option.split_asm if_split_asm) (metis fst_conv)+
    have c: "clk (bk_dev s) \<le> clk d1" "clk d1 < clk d'"
      using cqe_poll_clock [OF clk, of "bk_dev s" a x] clock_runsD(2) [OF clk, of d1] d by simp_all
    have ths: "bk_threads s' = bk_threads s" "bk_dev s' = d'" using local(1) p(2) by simp_all
    have "(\<Sum>th \<leftarrow> bk_threads s. left_of (clk d') th) < (\<Sum>th \<leftarrow> bk_threads s. left_of (clk (bk_dev s)) th)"
    proof (rule sum_list_less [where y = "bk_threads s ! tid"])
      show "\<forall>th \<in> set (bk_threads s). left_of (clk d') th \<le> left_of (clk (bk_dev s)) th"
        using c by (simp add: left_of_mono)
      show "bk_threads s ! tid \<in> set (bk_threads s)" using local(2) by simp
      show "left_of (clk d') (bk_threads s ! tid) < left_of (clk (bk_dev s)) (bk_threads s ! tid)"
        using c d(3) p(1) by simp
    qed
    with ths show ?thesis by (simp add: block_measure_def mlex_leq)
  qed
next
  case sync1
  have "(\<Sum>th \<leftarrow> map (\<lambda>_. Ring) (bk_threads s). rank th) < (\<Sum>th \<leftarrow> bk_threads s. rank th)"
    by (rule sum_rank_map_less [OF ne]) (use sync1(3) in auto)
  with sync1(2) show ?thesis by (simp add: block_measure_def mlex_less)
next
  case sync2
  have "(\<Sum>th \<leftarrow> map release2 (bk_threads s). rank th) < (\<Sum>th \<leftarrow> bk_threads s. rank th)"
    by (rule sum_rank_map_less [OF ne]) (use sync2(3) in \<open>auto simp: waits2_cases\<close>)
  with sync2(2) show ?thesis by (simp add: block_measure_def mlex_less)
qed

text \<open>C12: Every run of a block ends with all threads returned: while one has not returned there is a step,
  so the barriers cannot lock the block up, and no run is infinite, whatever the interleaving and
  whatever the controller posts, since the clock passes every deadline.\<close>

theorem nvme_qpair_cuda_io_ends:
  assumes "clock_runs hw clk" "b \<le> length cmds" "cmds \<noteq> []" "qc_depth qp \<noteq> 0"
    and "- (2 ^ 63) \<le> sint (qc_timeout_ms qp) * sint (qc_clocks_per_ms qp)"
    and "sint (qc_timeout_ms qp) * sint (qc_clocks_per_ms qp) < 2 ^ 63"
  shows "(\<forall>es s t. block_run hw b (start_block qp cmds d) es s \<and> t < length cmds \<and>
       (\<forall>r. bk_threads s ! t \<noteq> Returned r) \<longrightarrow> (\<exists>e s'. nvme_qpair_cuda_io hw b s e s')) \<and>
    \<not> (\<exists>f. f 0 = start_block qp cmds d \<and> (\<forall>i. \<exists>e. nvme_qpair_cuda_io hw b (f i) e (f (Suc i))))"
proof (intro conjI allI impI notI)
  fix es s t
  assume a: "block_run hw b (start_block qp cmds d) es s \<and> t < length cmds \<and> (\<forall>r. bk_threads s ! t \<noteq> Returned r)"
  then have r: "block_run hw b (start_block qp cmds d) es s" "t < length cmds" "\<forall>r. bk_threads s ! t \<noteq> Returned r"
    by simp_all
  show "\<exists>e s'. nvme_qpair_cuda_io hw b s e s'"
    by (rule block_progress [OF block_run_inv [OF r(1) assms(2,3)] assms(4-6) r(2,3)])
next
  assume "\<exists>f. f 0 = start_block qp cmds d \<and> (\<forall>i. \<exists>e. nvme_qpair_cuda_io hw b (f i) e (f (Suc i)))"
  then obtain f where f: "f 0 = start_block qp cmds d" "\<And>i. \<exists>e. nvme_qpair_cuda_io hw b (f i) e (f (Suc i))" by blast
  have run: "\<exists>es. block_run hw b (start_block qp cmds d) es (f i)" for i
  proof (induction i)
    case 0
    show ?case unfolding f(1) by (rule exI) (rule block_run.start)
  next
    case (Suc i)
    then obtain es where "block_run hw b (start_block qp cmds d) es (f i)" by blast
    with f(2) [of i] show ?case using block_run.step by blast
  qed
  have len: "length (bk_threads (f i)) = length cmds" for i
  proof -
    obtain es where "block_run hw b (start_block qp cmds d) es (f i)" using run [of i] by (elim exE)
    from block_run_inv [OF this assms(2,3)] show ?thesis by (simp only: block_inv_def)
  qed
  have "bk_threads (f i) \<noteq> []" for i using assms(3) len [of i] by auto
  then have "(f (Suc i), f i) \<in> block_measure clk" for i
    using f(2) [of i] block_step_decreases [OF assms(1)] by blast
  then show False using wf_block_measure [of clk] unfolding wf_iff_no_infinite_down_chain by blast
qed

section \<open>Two threads\<close>

text \<open>A device that is its clock, on which nothing is ever completed.\<close>

definition clock_hw :: "int gpu_hw" where
  "clock_hw = \<lparr>hw_read32 = (\<lambda>d a. (0, d)), hw_write32 = (\<lambda>d a v. d), hw_usleep = (\<lambda>d n. d),
     hw_cqe = (\<lambda>d a. (zero_completion, d)), hw_sqe = (\<lambda>d a c. d), hw_zero = (\<lambda>d a n. d),
     hw_list = (\<lambda>d a. []), hw_set_list = (\<lambda>d a l. d), hw_clock = (\<lambda>d. (d, d + 1))\<rparr>"

definition example_qc :: nvme_qpair_cuda where
  "example_qc = \<lparr>qc_sq = 0x1000, qc_cq = 0x2000, qc_sqdb = 0x1008, qc_cqdb = 0x100C, qc_qid = 1, qc_depth = 4,
     qc_tail = 3, qc_head = 2, qc_phase = 1, qc_timeout_ms = 500, qc_clocks_per_ms = 1000\<rparr>"

lemma clock_hw_runs: "clock_runs clock_hw (\<lambda>d. d)"
  by (simp add: clock_runs_def clock_hw_def)

theorem nvme_qpair_cuda_io_ends_witness:
  "\<not> (\<exists>f. f 0 = start_block example_qc [zero_command, zero_command] (0 :: int) \<and>
     (\<forall>i. \<exists>e. nvme_qpair_cuda_io clock_hw 2 (f i) e (f (Suc i))))"
  by (rule nvme_qpair_cuda_io_ends [OF clock_hw_runs, THEN conjunct2]) (simp_all add: example_qc_def)

text \<open>A run in which the second thread stores first, and then the first one stores and rings.\<close>

definition local_step :: "('d, 'x) gpu_hw_scheme \<Rightarrow> nat \<Rightarrow> nat \<Rightarrow> 'd block \<Rightarrow> (cuda_event \<times> 'd block) option" where
  "local_step hw b tid s = (if length (bk_threads s) \<le> tid then None
     else do {
       (e, th', qp', cmd', d') \<leftarrow> thread_step hw b tid (bk_threads s ! tid) (bk_qp s) (bk_cmds s ! tid) (bk_dev s);
       Some (e, \<lparr>bk_qp = qp', bk_threads = (bk_threads s)[tid := th'], bk_cmds = (bk_cmds s)[tid := cmd'],
         bk_dev = d'\<rparr>) })"

lemma run_local:
  assumes "block_run hw b s0 es s" "local_step hw b tid s = Some (e, s')"
  shows "block_run hw b s0 (es @ [e]) s'"
  using assms
  by (auto simp: local_step_def split: if_split_asm Option.bind_split_asm
      intro!: block_run.step [OF assms(1)] nvme_qpair_cuda_io.local)

lemma example_run:
  "\<exists>s. block_run clock_hw 2 (start_block example_qc [zero_command, zero_command] 0) [Stored 1, Stored 0, Silent, RangSq] s \<and>
     bk_threads s = [Reap, Ring] \<and> bk_qp s = rung 2 example_qc"
proof -
  let ?s0 = "start_block example_qc [zero_command, zero_command] (0 :: int)"
  let ?c = "[zero_command\<lparr>cmd_cid := 0\<rparr>, zero_command\<lparr>cmd_cid := 1\<rparr>]"
  have r0: "block_run clock_hw 2 ?s0 [] ?s0" by (rule block_run.start)
  have "block_run clock_hw 2 ?s0 ([] @ [Stored 1])
      \<lparr>bk_qp = example_qc, bk_threads = [Enqueue, Wait1], bk_cmds = [zero_command, ?c ! 1], bk_dev = 0\<rparr>"
    by (rule run_local [OF r0, of 1])
      (simp add: local_step_def start_block_def nvme_qpair_cuda_enqueue_at_i_def example_qc_def clock_hw_def)
  from run_local [OF this, of 0 "Stored 0" "\<lparr>bk_qp = example_qc, bk_threads = [Wait1, Wait1], bk_cmds = ?c, bk_dev = 0\<rparr>"]
  have "block_run clock_hw 2 ?s0 (([] @ [Stored 1]) @ [Stored 0])
      \<lparr>bk_qp = example_qc, bk_threads = [Wait1, Wait1], bk_cmds = ?c, bk_dev = 0\<rparr>"
    by (simp add: local_step_def nvme_qpair_cuda_enqueue_at_i_def example_qc_def clock_hw_def)
  from block_run.step [OF this nvme_qpair_cuda_io.sync1]
  have "block_run clock_hw 2 ?s0 ((([] @ [Stored 1]) @ [Stored 0]) @ [Silent])
      \<lparr>bk_qp = example_qc, bk_threads = [Ring, Ring], bk_cmds = ?c, bk_dev = 0\<rparr>" by simp
  from run_local [OF this, of 0 RangSq "\<lparr>bk_qp = rung 2 example_qc, bk_threads = [Reap, Ring], bk_cmds = ?c, bk_dev = 0\<rparr>"]
  have "block_run clock_hw 2 ?s0 (((([] @ [Stored 1]) @ [Stored 0]) @ [Silent]) @ [RangSq])
      \<lparr>bk_qp = rung 2 example_qc, bk_threads = [Reap, Ring], bk_cmds = ?c, bk_dev = 0\<rparr>"
    by (simp add: local_step_def nvme_qpair_cuda_sq_update_def example_qc_def clock_hw_def mmio_write32_def rung_def Let_def)
  then show ?thesis
    by (intro exI [of _ "\<lparr>bk_qp = rung 2 example_qc, bk_threads = [Reap, Ring], bk_cmds = ?c, bk_dev = 0\<rparr>"] conjI) simp_all
qed

theorem nvme_qpair_cuda_io_ordered_witness:
  "\<exists>s. block_run clock_hw 2 (start_block example_qc [zero_command, zero_command] 0) [Stored 1, Stored 0, Silent, RangSq] s \<and>
     (\<forall>k < 4. [Stored 1, Stored 0, Silent, RangSq] ! k = RangSq \<longrightarrow>
       (\<forall>t < 2. Stored t \<in> set (take k [Stored 1, Stored 0, Silent, RangSq])))"
proof -
  obtain s where s: "block_run clock_hw 2 (start_block example_qc [zero_command, zero_command] 0)
      [Stored 1, Stored 0, Silent, RangSq] s" using example_run by blast
  from nvme_qpair_cuda_io_ordered [OF this, THEN conjunct1]
  have "\<forall>k < 4. [Stored 1, Stored 0, Silent, RangSq] ! k = RangSq \<longrightarrow>
      (\<forall>t < 2. Stored t \<in> set (take k [Stored 1, Stored 0, Silent, RangSq]))"
    by simp
  with s show ?thesis by blast
qed

end
