(* ===== verification/Hostmem_Setup.thy ===== *)
theory Hostmem_Setup
  imports Hostmem_Props Text_Io Util
begin

unbundle bit_operations_syntax

text \<open>
  Where a hugepage heap comes from: the address translation of \<open>include/upcie/hostmem.h\<close>, the
  configuration of \<open>hostmem_config.h\<close>, the hugepages of \<open>hostmem_hugepage.h\<close> and set-up and tear-down of
  the heap in \<open>hostmem_heap.h\<close>.

  The kernel and the C library are a parameter; in this theory \<open>errno\<close> is part of its state, since the code
  also reads it after calls that did not set it. Pointers to the structures are addresses of
  objects, so the tests for \<open>NULL\<close> never fire. The configuration is shared by
  everything that points to it and is passed along, since an allocation counts in it; a heap keeps
  the copy it was set up with, from which it reads only fields that never change. The \<open>memory\<close> of a
  heap is passed beside the heap, which holds its address and size.
\<close>

section \<open>The calls\<close>

record 'k page_os = "'k fs_os" +
  pg_size :: int                                             \<comment> \<open>\<open>getpagesize\<close>\<close>
  pg_errno :: "'k \<Rightarrow> int"
  pg_pread64 :: "'k \<Rightarrow> int \<Rightarrow> u64 \<Rightarrow> (int + u64 option) \<times> 'k"    \<comment> \<open>\<open>None\<close> is a short read\<close>
  pg_fopen :: "'k \<Rightarrow> string \<Rightarrow> (int + int \<times> string list) \<times> 'k"   \<comment> \<open>a stream and the lines it will give\<close>
  pg_fclose :: "'k \<Rightarrow> int \<Rightarrow> 'k"
  pg_getenv :: "'k \<Rightarrow> string \<Rightarrow> string option"
  pg_getpid :: "'k \<Rightarrow> int"
  pg_memfd :: "'k \<Rightarrow> string \<Rightarrow> int \<Rightarrow> (int + int) \<times> 'k"
  pg_create :: "'k \<Rightarrow> string \<Rightarrow> (int + int) \<times> 'k"             \<comment> \<open>\<open>open\<close> with \<open>O_CREAT\<close>\<close>
  pg_unlink :: "'k \<Rightarrow> string \<Rightarrow> 'k"
  pg_truncate :: "'k \<Rightarrow> int \<Rightarrow> u64 \<Rightarrow> (int + unit) \<times> 'k"
  pg_lock :: "'k \<Rightarrow> u64 \<Rightarrow> u64 \<Rightarrow> (int + unit) \<times> 'k"
  pg_fstat :: "'k \<Rightarrow> int \<Rightarrow> (int + u64) \<times> 'k"               \<comment> \<open>the size\<close>
  pg_touch :: "'k \<Rightarrow> u64 \<Rightarrow> 'k"                            \<comment> \<open>an access to a mapped byte\<close>
  pg_clear :: "'k \<Rightarrow> u64 \<Rightarrow> u64 \<Rightarrow> 'k"                      \<comment> \<open>\<open>memset\<close> with zero\<close>

section \<open>Physical addresses\<close>

text \<open>The result is the code and the address that was written, if any.\<close>

definition hostmem_pagemap_virt_to_phys :: "('k, 'x) page_os_scheme \<Rightarrow> u64 \<Rightarrow> 'k \<Rightarrow> int \<times> u64 option \<times> 'k" where
  "hostmem_pagemap_virt_to_phys os v k =
     (let pgsz = size_of_int (pg_size os); virt_pfn = v div pgsz in
      case os_open os k ''/proc/self/pagemap'' of
        (Inl e, k1) \<Rightarrow> (- e, None, k1)
      | (Inr fd, k1) \<Rightarrow>
          (case pg_pread64 os k1 fd (virt_pfn * 8) of
             (Inl e, k2) \<Rightarrow> (- e, None, os_close os k2 fd)
           | (Inr None, k2) \<Rightarrow> let k3 = os_close os k2 fd in (- pg_errno os k3, None, k3)
           | (Inr (Some entry), k2) \<Rightarrow>
               if entry AND push_bit 63 1 = 0 then (- EINVAL, None, os_close os k2 fd)
               else let phys_pfn = entry AND (push_bit 55 1 - 1) in
                 (0, Some (phys_pfn * pgsz + v mod pgsz), os_close os k2 fd)))"

section \<open>Configuration\<close>

definition HOSTMEM_BACKEND_UNKNOWN :: int where "HOSTMEM_BACKEND_UNKNOWN = 0"
definition HOSTMEM_BACKEND_MEMFD :: int where "HOSTMEM_BACKEND_MEMFD = 1"
definition HOSTMEM_BACKEND_HUGETLBFS :: int where "HOSTMEM_BACKEND_HUGETLBFS = 2"
definition MFD_HUGE_2MB :: int where "MFD_HUGE_2MB = 21 * 2 ^ 26"
definition MFD_HUGE_1GB :: int where "MFD_HUGE_1GB = 30 * 2 ^ 26"
abbreviation MFD_HUGETLB :: int where "MFD_HUGETLB \<equiv> 4"   \<comment> \<open>\<open>linux/memfd.h\<close>\<close>

text \<open>The number of kilobytes in the first line that has one.\<close>

fun meminfo_loop :: "string list \<Rightarrow> int option" where
  "meminfo_loop [] = None"
| "meminfo_loop (line # lines) =
     (if take 13 line = ''Hugepagesize:'' then
        (case scan_dec (drop 13 line) of Some kb \<Rightarrow> Some kb | None \<Rightarrow> meminfo_loop lines)
      else meminfo_loop lines)"

text \<open>A product that does not fit an \<open>int\<close> is undefined.\<close>

definition hostmem_config_get_hugepgsz ::
  "('k, 'x) page_os_scheme \<Rightarrow> int \<Rightarrow> 'k \<Rightarrow> (int \<times> int \<times> 'k) option" where
  "hostmem_config_get_hugepgsz os hsz k =
     (case pg_fopen os k ''/proc/meminfo'' of
        (Inl e, k1) \<Rightarrow> Some (- e, hsz, k1)
      | (Inr (fp, lines), k1) \<Rightarrow>
          (case meminfo_loop lines of
             Some kb \<Rightarrow> if - (2 ^ 31) \<le> kb * 1024 \<and> kb * 1024 < 2 ^ 31 then Some (0, kb * 1024, pg_fclose os k1 fp) else None
           | None \<Rightarrow> Some (- ENOMEM, hsz, pg_fclose os k1 fp)))"

definition hostmem_config_init ::
  "bool \<Rightarrow> ('k, 'x) page_os_scheme \<Rightarrow> hostmem_config \<Rightarrow> 'k \<Rightarrow> (int \<times> hostmem_config \<times> 'k) option" where
  "hostmem_config_init dbg os cfg k = do {
     shift \<leftarrow> upcie_util_shift_from_size dbg (size_of_int (pg_size os));
     let cfg1 = cfg\<lparr>hugetlb_path := ''/mnt/huge'', pagesize := pg_size os, pagesize_shift := int shift\<rparr>;
     (err, hsz, k1) \<leftarrow> hostmem_config_get_hugepgsz os (hugepgsz cfg1) k;
     let cfg2 = cfg1\<lparr>hugepgsz := hsz\<rparr>;
     if err \<noteq> 0 then Some (err, cfg2, k1)
     else do {
       hshift \<leftarrow> upcie_util_shift_from_size dbg (size_of_int hsz);
       let cfg3 = cfg2\<lparr>hugepgsz_shift := int hshift, memfd_flags := MFD_HUGETLB\<rparr>;
       if hsz \<noteq> 2 * 1024 * 1024 \<and> hsz \<noteq> 1 * 1024 * 1024 * 1024 then Some (- EINVAL, cfg3, k1)
       else do {
         let cfg4 = cfg3\<lparr>memfd_flags := memfd_flags cfg3 OR (if hsz = 2 * 1024 * 1024 then MFD_HUGE_2MB else MFD_HUGE_1GB)\<rparr>;
         let cfg5 = (case pg_getenv os k1 ''HOSTMEM_HUGETLB_PATH'' of
           Some env \<Rightarrow> cfg4\<lparr>hugetlb_path := take 127 env\<rparr> | None \<Rightarrow> cfg4);
         case pg_getenv os k1 ''HOSTMEM_BACKEND'' of
           Some env \<Rightarrow>
             if env = ''memfd'' then Some (0, cfg5\<lparr>backend := HOSTMEM_BACKEND_MEMFD\<rparr>, k1)
             else if env = ''hugetlbfs'' then Some (0, cfg5\<lparr>backend := HOSTMEM_BACKEND_HUGETLBFS\<rparr>, k1)
             else Some (- EINVAL, cfg5, k1)
         | None \<Rightarrow> Some (0, cfg5\<lparr>backend := HOSTMEM_BACKEND_MEMFD\<rparr>, k1) } } }"

section \<open>Hugepages\<close>

record hostmem_hugepage =
  hp_fd :: int
  hp_virt :: u64
  hp_size :: u64
  hp_phys :: u64
  hp_path :: string
  hp_config :: "hostmem_config option"    \<comment> \<open>\<open>None\<close> is \<open>NULL\<close>\<close>

definition zero_hugepage :: hostmem_hugepage where
  "zero_hugepage = \<lparr>hp_fd = 0, hp_virt = 0, hp_size = 0, hp_phys = 0, hp_path = '''', hp_config = None\<rparr>"

definition hostmem_hugepage_free ::
  "('k, 'x) page_os_scheme \<Rightarrow> hostmem_hugepage \<Rightarrow> 'k \<Rightarrow> (hostmem_hugepage \<times> 'k) option" where
  "hostmem_hugepage_free os hugepage k = do {
     let k1 = (if hp_virt hugepage \<noteq> 0 \<and> hp_size hugepage \<noteq> 0 then fs_unmap os k (hp_virt hugepage) (hp_size hugepage) else k);
     let k2 = (if 0 \<le> hp_fd hugepage then os_close os k1 (hp_fd hugepage) else k1);
     cfg \<leftarrow> hp_config hugepage;
     let k3 = (if HOSTMEM_BACKEND_HUGETLBFS = backend cfg then pg_unlink os k2 (hp_path hugepage) else k2);
     Some (zero_hugepage, k3) }"

text \<open>The descriptor and the path, by the kind of backend; \<open>fd < 0\<close> after a call that failed.\<close>

definition hugepage_path :: "hostmem_config \<Rightarrow> string" where
  "hugepage_path cfg = take 255 (hugetlb_path cfg @ ''/'' @ print_int (hostmem_config.count cfg))"

definition hugepage_open ::
  "('k, 'x) page_os_scheme \<Rightarrow> hostmem_config \<Rightarrow> hostmem_hugepage \<Rightarrow> 'k \<Rightarrow> int \<times> hostmem_hugepage \<times> 'k" where
  "hugepage_open os cfg hugepage k =
     (if backend cfg = HOSTMEM_BACKEND_MEMFD then
        (case pg_memfd os k ''hostmem'' (memfd_flags cfg) of
           (Inl e, k1) \<Rightarrow> (- e, hugepage\<lparr>hp_fd := - 1\<rparr>, k1)
         | (Inr fd, k1) \<Rightarrow> (0, hugepage\<lparr>hp_fd := fd,
             hp_path := take 255 (''/proc/'' @ print_int (pg_getpid os k1) @ ''/fd/'' @ print_int fd)\<rparr>, k1))
      else if backend cfg = HOSTMEM_BACKEND_HUGETLBFS then
        let path = hugepage_path cfg in
        (case pg_create os k path of
           (Inl e, k1) \<Rightarrow> (- e, hugepage\<lparr>hp_path := path, hp_fd := - 1\<rparr>, k1)
         | (Inr fd, k1) \<Rightarrow> (0, hugepage\<lparr>hp_path := path, hp_fd := fd\<rparr>, k1))
      else (0, hugepage, k))"

text \<open>One access per page.\<close>

definition touch_pages :: "('k, 'x) page_os_scheme \<Rightarrow> u64 \<Rightarrow> u64 \<Rightarrow> nat \<Rightarrow> 'k \<Rightarrow> 'k" where
  "touch_pages os v sz page k =
     foldl (\<lambda>k i. pg_touch os k (v + of_nat (i * page))) k [0..<(unat sz + page - 1) div page]"

definition hostmem_hugepage_alloc ::
  "('k, 'x) page_os_scheme \<Rightarrow> u64 \<Rightarrow> hostmem_hugepage \<Rightarrow> hostmem_config \<Rightarrow> 'k \<Rightarrow>
   (int \<times> hostmem_hugepage \<times> hostmem_config \<times> 'k) option" where
  "hostmem_hugepage_alloc os sz hugepage cfg k =
     (if hugepgsz cfg = 0 then None
      else if sz mod size_of_int (hugepgsz cfg) \<noteq> 0 then Some (- EINVAL, hugepage, cfg, k)
      else let (err, hp, k1) = hugepage_open os cfg (hugepage\<lparr>hp_config := Some cfg, hp_size := sz\<rparr>) k in
        if err \<noteq> 0 then Some (err, hp, cfg, k1)
        else case pg_truncate os k1 (hp_fd hp) sz of
          (Inl e, k2) \<Rightarrow> Some (- ENOMEM, hp, cfg, os_close os k2 (hp_fd hp))
        | (Inr _, k2) \<Rightarrow>
        (case fs_map os k2 (hp_fd hp) sz of
          (Inl e, k3) \<Rightarrow> Some (- ENOMEM, hp\<lparr>hp_virt := - 1\<rparr>, cfg, os_close os k3 (hp_fd hp))
        | (Inr v, k3) \<Rightarrow>
        let hp1 = hp\<lparr>hp_virt := v\<rparr> in
        (case pg_lock os k3 v sz of
          (Inl e, k4) \<Rightarrow> Some (- ENOMEM, hp1, cfg, os_close os (fs_unmap os k4 v sz) (hp_fd hp))
        | (Inr _, k4) \<Rightarrow>
        let k5 = pg_clear os (touch_pages os v sz (nat (pagesize cfg)) k4) v sz;
            (err, w, k6) = hostmem_pagemap_virt_to_phys os v k5;
            hp2 = (case w of Some a \<Rightarrow> hp1\<lparr>hp_phys := a\<rparr> | None \<Rightarrow> hp1) in
        if err \<noteq> 0 then Some (- ENOMEM, hp2, cfg, os_close os (fs_unmap os k6 v sz) (hp_fd hp))
        else let cfg1 = cfg\<lparr>hostmem_config.count := hostmem_config.count cfg + 1\<rparr>
          in Some (0, hp2\<lparr>hp_config := Some cfg1\<rparr>, cfg1, k6))))"

definition hostmem_hugepage_import ::
  "('k, 'x) page_os_scheme \<Rightarrow> string \<Rightarrow> hostmem_hugepage \<Rightarrow> hostmem_config \<Rightarrow> 'k \<Rightarrow>
   (int \<times> hostmem_hugepage \<times> 'k) option" where
  "hostmem_hugepage_import os path hugepage cfg k =
     (let hp = hugepage\<lparr>hp_path := take 255 path, hp_config := Some cfg\<rparr> in
      case os_open os k (hp_path hp) of
        (Inl e, k1) \<Rightarrow> Some (- e, hp\<lparr>hp_fd := - 1\<rparr>, k1)
      | (Inr fd, k1) \<Rightarrow>
      let hp1 = hp\<lparr>hp_fd := fd\<rparr> in
      (case pg_fstat os k1 fd of
        (Inl e, k2) \<Rightarrow> Some (- e, hp1, os_close os k2 fd)
      | (Inr st, k2) \<Rightarrow>
      let hp2 = hp1\<lparr>hp_size := st\<rparr> in
      if hugepgsz cfg = 0 then None
      else if st mod size_of_int (hugepgsz cfg) \<noteq> 0 then Some (- EINVAL, hp2, os_close os k2 fd)
      else (case fs_map os k2 fd st of
        (Inl e, k3) \<Rightarrow> Some (- e, hp2\<lparr>hp_virt := - 1\<rparr>, os_close os k3 fd)
      | (Inr v, k3) \<Rightarrow>
      let k4 = touch_pages os v st (nat (pagesize cfg)) k3;
          (err, w, k5) = hostmem_pagemap_virt_to_phys os v k4;
          hp3 = hp2\<lparr>hp_virt := v\<rparr>;
          hp4 = (case w of Some a \<Rightarrow> hp3\<lparr>hp_phys := a\<rparr> | None \<Rightarrow> hp3) in
      if err \<noteq> 0 then Some (- ENOMEM, hp4, os_close os (fs_unmap os k5 v st) fd)
      else Some (0, hp4, k5))))"

section \<open>The heap\<close>

text \<open>The table of physical addresses is memory of the C library; no later operation depends on its release.\<close>

definition hostmem_heap_term ::
  "('k, 'x) page_os_scheme \<Rightarrow> hostmem_hugepage \<Rightarrow> 'k \<Rightarrow> (hostmem_hugepage \<times> 'k) option" where
  "hostmem_heap_term os memory k = hostmem_hugepage_free os memory k"

text \<open>The table is \<open>None\<close> when \<open>calloc\<close> gave none: writing to it is undefined.\<close>

fun lut_loop ::
  "('k, 'x) page_os_scheme \<Rightarrow> u64 \<Rightarrow> u64 \<Rightarrow> nat list \<Rightarrow> u64 list option \<Rightarrow> 'k \<Rightarrow> (int \<times> u64 list option \<times> 'k) option" where
  "lut_loop os v hsz [] lut k = Some (0, lut, k)"
| "lut_loop os v hsz (i # is) lut k =
     (let (err, w, k1) = hostmem_pagemap_virt_to_phys os (v + of_nat i * hsz) k in do {
        lut1 \<leftarrow> (case w of None \<Rightarrow> Some lut
          | Some a \<Rightarrow> do { l \<leftarrow> lut; if i < length l then Some (Some (l[i := a])) else None });
        if err \<noteq> 0 then Some (err, lut1, k1) else lut_loop os v hsz is lut1 k1 })"

definition heap_object :: "hostmem_hugepage \<Rightarrow> hostmem_config \<Rightarrow> u64 \<Rightarrow> block_store \<Rightarrow> u64 \<Rightarrow> u64 list option \<Rightarrow> hostmem_heap" where
  "heap_object memory cfg n st p lut =
     \<lparr>virt = hp_virt memory, memsize = hp_size memory, hdrs = st, freelist = p, config = cfg, nphys = n,
      phys_lut = (case lut of Some l \<Rightarrow> l | None \<Rightarrow> [])\<rparr>"

definition hostmem_heap_init ::
  "('k, 'x) page_os_scheme \<Rightarrow> u64 \<Rightarrow> hostmem_config \<Rightarrow> 'k \<Rightarrow>
   (int \<times> hostmem_hugepage \<times> hostmem_heap \<times> hostmem_config \<times> 'k) option" where
  "hostmem_heap_init os sz cfg k = do {
     (err, memory, cfg1, k1) \<leftarrow> hostmem_hugepage_alloc os sz zero_hugepage cfg k;
     if err \<noteq> 0 then Some (err, memory, heap_object memory cfg1 0 Map.empty 0 None, cfg1, k1)
     else do {
       let v = hp_virt memory;
       let st = [v \<mapsto> \<lparr>size' = sz, free' = True, next' = 0\<rparr>];
       let n = sz div size_of_int (hugepgsz cfg1);
       let (ok, k2) = os_malloc os k1;
       (err, lut, k3) \<leftarrow> lut_loop os v (size_of_int (hugepgsz cfg1)) [0..<unat n]
         (if ok then Some (replicate (unat n) 0) else None) k2;
       if err \<noteq> 0 then do {
         (memory', k4) \<leftarrow> hostmem_heap_term os memory k3;
         Some (err, memory', heap_object memory' cfg1 n st v None, cfg1, k4) }
       else do {
         l \<leftarrow> lut;
         first \<leftarrow> array_get l 0;
         if hp_phys memory \<noteq> first then do {
           (memory', k4) \<leftarrow> hostmem_heap_term os memory k3;
           Some (- ENOMEM, memory', heap_object memory' cfg1 n st v None, cfg1, k4) }
         else Some (0, memory, heap_object memory cfg1 n st v (Some l), cfg1, k3) } } }"

end
