(* ===== verification/Vfio.thy ===== *)
theory Vfio
  imports Text_Io
begin

unbundle bit_operations_syntax

text \<open>
  The wrappers of the VFIO calls, \<open>include/upcie/vfioctl.h\<close>. The kernel is a parameter. A call that
  returns \<open>-1\<close> is \<open>Inl\<close> of the \<open>errno\<close> it leaves, a call that succeeds \<open>Inr\<close> of what it returns. The kernel's
  structures have the fields the code names; the size that each carries in \<open>argsz\<close> is left out,
  since every wrapper sets it to the size of the structure.
\<close>

section \<open>Structures\<close>

record vfio_group_status =
  gs_flags :: u32

record vfio_iommu_type1_info =
  ii_flags :: u32
  ii_iova_pgsizes :: u64

record vfio_iommu_type1_dma_map =
  vm_flags :: u32
  vm_vaddr :: u64
  vm_iova :: u64
  vm_size :: u64

record vfio_iommu_type1_dma_unmap =
  vu_flags :: u32
  vu_iova :: u64
  vu_size :: u64

record vfio_device_info =
  vd_flags :: u32
  vd_num_regions :: u32
  vd_num_irqs :: u32

record vfio_region_info =
  vr_flags :: u32
  vr_index :: u32
  vr_size :: u64
  vr_offset :: u64

record vfio_irq_info =
  vi_flags :: u32
  vi_index :: u32
  vi_count :: u32

record vfio_pci_hot_reset_info =
  vh_flags :: u32
  vh_count :: u32

record vfio_group =
  vg_fd :: int
  vg_id :: int
  vg_status :: vfio_group_status

record vfio_container =
  vc_fd :: int
  vc_info :: vfio_iommu_type1_info
  vc_map :: vfio_iommu_type1_dma_map

record vfio_device =
  vx_fd :: int

text \<open>The sets of interrupts and the hot reset are structures of variable length: their bytes.\<close>

record 'k vfio_os =
  vf_open :: "'k \<Rightarrow> string \<Rightarrow> (int + int) \<times> 'k"
  vf_close :: "'k \<Rightarrow> int \<Rightarrow> (int + int) \<times> 'k"
  vf_readlink :: "'k \<Rightarrow> string \<Rightarrow> nat \<Rightarrow> (int + string) \<times> 'k"
  vf_pread16 :: "'k \<Rightarrow> int \<Rightarrow> u64 \<Rightarrow> (int + u16 option) \<times> 'k"          \<comment> \<open>\<open>None\<close> is a short read\<close>
  vf_pwrite16 :: "'k \<Rightarrow> int \<Rightarrow> u64 \<Rightarrow> u16 \<Rightarrow> (int + unit option) \<times> 'k"   \<comment> \<open>\<open>None\<close> is a short write\<close>
  vf_mmap :: "'k \<Rightarrow> int \<Rightarrow> u64 \<Rightarrow> u64 \<Rightarrow> (int + u64) \<times> 'k"
  vf_munmap :: "'k \<Rightarrow> u64 \<Rightarrow> u64 \<Rightarrow> 'k"
  io_get_api_version :: "'k \<Rightarrow> int \<Rightarrow> (int + int) \<times> 'k"
  io_check_extension :: "'k \<Rightarrow> int \<Rightarrow> int \<Rightarrow> (int + int) \<times> 'k"
  io_set_iommu :: "'k \<Rightarrow> int \<Rightarrow> int \<Rightarrow> (int + int) \<times> 'k"
  io_group_get_status :: "'k \<Rightarrow> int \<Rightarrow> vfio_group_status \<Rightarrow> (int + int) \<times> vfio_group_status \<times> 'k"
  io_group_set_container :: "'k \<Rightarrow> int \<Rightarrow> int \<Rightarrow> (int + int) \<times> 'k"
  io_group_get_device_fd :: "'k \<Rightarrow> int \<Rightarrow> string \<Rightarrow> (int + int) \<times> 'k"
  io_device_get_info :: "'k \<Rightarrow> int \<Rightarrow> vfio_device_info \<Rightarrow> (int + int) \<times> vfio_device_info \<times> 'k"
  io_device_get_region_info :: "'k \<Rightarrow> int \<Rightarrow> vfio_region_info \<Rightarrow> (int + int) \<times> vfio_region_info \<times> 'k"
  io_iommu_get_info :: "'k \<Rightarrow> int \<Rightarrow> vfio_iommu_type1_info \<Rightarrow> (int + int) \<times> vfio_iommu_type1_info \<times> 'k"
  io_iommu_map_dma :: "'k \<Rightarrow> int \<Rightarrow> vfio_iommu_type1_dma_map \<Rightarrow> (int + int) \<times> 'k"
  io_iommu_unmap_dma :: "'k \<Rightarrow> int \<Rightarrow> vfio_iommu_type1_dma_unmap \<Rightarrow> (int + int) \<times> 'k"
  io_device_get_irq_info :: "'k \<Rightarrow> int \<Rightarrow> vfio_irq_info \<Rightarrow> (int + int) \<times> vfio_irq_info \<times> 'k"
  io_device_set_irqs :: "'k \<Rightarrow> int \<Rightarrow> u8 list \<Rightarrow> (int + int) \<times> 'k"
  io_device_reset :: "'k \<Rightarrow> int \<Rightarrow> (int + int) \<times> 'k"
  io_get_pci_hot_reset_info :: "'k \<Rightarrow> int \<Rightarrow> vfio_pci_hot_reset_info \<Rightarrow> (int + int) \<times> vfio_pci_hot_reset_info \<times> 'k"
  io_pci_hot_reset :: "'k \<Rightarrow> int \<Rightarrow> u8 list \<Rightarrow> (int + int) \<times> 'k"

text \<open>What a call returns as an \<open>int\<close>.\<close>

fun c_ret :: "int + int \<Rightarrow> int" where
  "c_ret (Inl e) = - 1"
| "c_ret (Inr n) = n"

section \<open>Containers\<close>

definition vfio_container_close :: "('k, 'x) vfio_os_scheme \<Rightarrow> vfio_container \<Rightarrow> 'k \<Rightarrow> int \<times> 'k" where
  "vfio_container_close os container k =
     (case vf_close os k (vc_fd container) of (Inl e, k') \<Rightarrow> (- e, k') | (Inr n, k') \<Rightarrow> (0, k'))"

definition vfio_container_open ::
  "('k, 'x) vfio_os_scheme \<Rightarrow> vfio_container \<Rightarrow> 'k \<Rightarrow> int \<times> vfio_container \<times> 'k" where
  "vfio_container_open os container k =
     (case vf_open os k ''/dev/vfio/vfio'' of
        (Inl e, k') \<Rightarrow> (- e, container\<lparr>vc_fd := - 1\<rparr>, k')
      | (Inr fd, k') \<Rightarrow> (0, container\<lparr>vc_fd := fd\<rparr>, k'))"

definition vfio_get_api_version ::
  "('k, 'x) vfio_os_scheme \<Rightarrow> vfio_container \<Rightarrow> int \<Rightarrow> 'k \<Rightarrow> int \<times> int \<times> 'k" where
  "vfio_get_api_version os container api_version k =
     (let (r, k') = io_get_api_version os k (vc_fd container) in
      if c_ret r < 0 then (- EIO, api_version, k') else (0, c_ret r, k'))"

definition vfio_check_extension :: "('k, 'x) vfio_os_scheme \<Rightarrow> vfio_container \<Rightarrow> int \<Rightarrow> 'k \<Rightarrow> (int + int) \<times> 'k" where
  "vfio_check_extension os container extension k = io_check_extension os k (vc_fd container) extension"

definition vfio_set_iommu :: "('k, 'x) vfio_os_scheme \<Rightarrow> vfio_container \<Rightarrow> int \<Rightarrow> 'k \<Rightarrow> (int + int) \<times> 'k" where
  "vfio_set_iommu os container iommu_type k = io_set_iommu os k (vc_fd container) iommu_type"

definition vfio_iommu_get_info ::
  "('k, 'x) vfio_os_scheme \<Rightarrow> vfio_container \<Rightarrow> 'k \<Rightarrow> (int + int) \<times> vfio_iommu_type1_info \<times> 'k" where
  "vfio_iommu_get_info os container k =
     io_iommu_get_info os k (vc_fd container) \<lparr>ii_flags = 0, ii_iova_pgsizes = 0\<rparr>"

definition vfio_iommu_map_dma ::
  "('k, 'x) vfio_os_scheme \<Rightarrow> vfio_container \<Rightarrow> vfio_iommu_type1_dma_map \<Rightarrow> 'k \<Rightarrow> (int + int) \<times> 'k" where
  "vfio_iommu_map_dma os container m k = io_iommu_map_dma os k (vc_fd container) m"

definition vfio_iommu_unmap_dma ::
  "('k, 'x) vfio_os_scheme \<Rightarrow> vfio_container \<Rightarrow> vfio_iommu_type1_dma_unmap \<Rightarrow> 'k \<Rightarrow> (int + int) \<times> 'k" where
  "vfio_iommu_unmap_dma os container unmap k = io_iommu_unmap_dma os k (vc_fd container) unmap"

section \<open>Groups\<close>

definition vfio_group_close :: "('k, 'x) vfio_os_scheme \<Rightarrow> vfio_group \<Rightarrow> 'k \<Rightarrow> int \<times> 'k" where
  "vfio_group_close os grp k = (let (r, k') = vf_close os k (vg_fd grp) in (c_ret r, k'))"

definition vfio_group_open :: "('k, 'x) vfio_os_scheme \<Rightarrow> int \<Rightarrow> vfio_group \<Rightarrow> 'k \<Rightarrow> int \<times> vfio_group \<times> 'k" where
  "vfio_group_open os ident grp k =
     (case vf_open os k (''/dev/vfio/'' @ print_int ident) of
        (Inl e, k') \<Rightarrow> (- EIO, grp\<lparr>vg_fd := - 1\<rparr>, k')
      | (Inr fd, k') \<Rightarrow> (0, grp\<lparr>vg_fd := fd\<rparr>, k'))"

definition vfio_group_get_status :: "('k, 'x) vfio_os_scheme \<Rightarrow> vfio_group \<Rightarrow> 'k \<Rightarrow> (int + int) \<times> vfio_group \<times> 'k" where
  "vfio_group_get_status os grp k =
     (let (r, status, k') = io_group_get_status os k (vg_fd grp) \<lparr>gs_flags = 0\<rparr>
      in (r, grp\<lparr>vg_status := status\<rparr>, k'))"

definition vfio_group_set_container ::
  "('k, 'x) vfio_os_scheme \<Rightarrow> vfio_group \<Rightarrow> vfio_container \<Rightarrow> 'k \<Rightarrow> (int + int) \<times> 'k" where
  "vfio_group_set_container os grp container k = io_group_set_container os k (vg_fd grp) (vc_fd container)"

definition vfio_group_get_device_fd ::
  "('k, 'x) vfio_os_scheme \<Rightarrow> vfio_group \<Rightarrow> string \<Rightarrow> 'k \<Rightarrow> (int + int) \<times> 'k" where
  "vfio_group_get_device_fd os grp device_name k = io_group_get_device_fd os k (vg_fd grp) device_name"

section \<open>Devices\<close>

definition vfio_device_get_info :: "('k, 'x) vfio_os_scheme \<Rightarrow> int \<Rightarrow> 'k \<Rightarrow> (int + int) \<times> vfio_device_info \<times> 'k" where
  "vfio_device_get_info os device_fd k =
     io_device_get_info os k device_fd \<lparr>vd_flags = 0, vd_num_regions = 0, vd_num_irqs = 0\<rparr>"

definition vfio_device_get_region_info ::
  "('k, 'x) vfio_os_scheme \<Rightarrow> int \<Rightarrow> vfio_region_info \<Rightarrow> 'k \<Rightarrow> (int + int) \<times> vfio_region_info \<times> 'k" where
  "vfio_device_get_region_info os device_fd region k =
     io_device_get_region_info os k device_fd \<lparr>vr_flags = 0, vr_index = vr_index region, vr_size = 0, vr_offset = 0\<rparr>"

definition vfio_map_region :: "('k, 'x) vfio_os_scheme \<Rightarrow> int \<Rightarrow> u64 \<Rightarrow> u64 \<Rightarrow> 'k \<Rightarrow> (int + u64) \<times> 'k" where
  "vfio_map_region os device_fd sz offset k = vf_mmap os k device_fd sz offset"

text \<open>Here the index the caller set is cleared with the rest of the structure.\<close>

definition vfio_device_get_irq_info ::
  "('k, 'x) vfio_os_scheme \<Rightarrow> vfio_device \<Rightarrow> vfio_irq_info \<Rightarrow> 'k \<Rightarrow> (int + int) \<times> vfio_irq_info \<times> 'k" where
  "vfio_device_get_irq_info os dev irq k =
     (let irq' = irq\<lparr>vi_flags := 0, vi_index := 0, vi_count := 0\<rparr> in io_device_get_irq_info os k (vx_fd dev) irq')"

definition vfio_device_set_irqs :: "('k, 'x) vfio_os_scheme \<Rightarrow> vfio_device \<Rightarrow> u8 list \<Rightarrow> 'k \<Rightarrow> (int + int) \<times> 'k" where
  "vfio_device_set_irqs os dev irq_set k = io_device_set_irqs os k (vx_fd dev) irq_set"

definition vfio_device_reset :: "('k, 'x) vfio_os_scheme \<Rightarrow> vfio_device \<Rightarrow> 'k \<Rightarrow> (int + int) \<times> 'k" where
  "vfio_device_reset os dev k = io_device_reset os k (vx_fd dev)"

definition vfio_device_get_pci_hot_reset_info ::
  "('k, 'x) vfio_os_scheme \<Rightarrow> vfio_device \<Rightarrow> 'k \<Rightarrow> (int + int) \<times> vfio_pci_hot_reset_info \<times> 'k" where
  "vfio_device_get_pci_hot_reset_info os dev k = io_get_pci_hot_reset_info os k (vx_fd dev) \<lparr>vh_flags = 0, vh_count = 0\<rparr>"

definition vfio_device_pci_hot_reset :: "('k, 'x) vfio_os_scheme \<Rightarrow> vfio_device \<Rightarrow> u8 list \<Rightarrow> 'k \<Rightarrow> (int + int) \<times> 'k" where
  "vfio_device_pci_hot_reset os dev reset k = io_pci_hot_reset os k (vx_fd dev) reset"

text \<open>Whatever interrupt the caller asks about, the kernel is asked about number 0.\<close>

lemma vfio_irq_index_lost:
  "vfio_device_get_irq_info os dev (irq\<lparr>vi_index := i\<rparr>) k = vfio_device_get_irq_info os dev (irq\<lparr>vi_index := j\<rparr>) k"
  by (simp add: vfio_device_get_irq_info_def)

section \<open>What the calls do to descriptors and mappings\<close>

definition quiet :: "('k \<Rightarrow> int set) \<Rightarrow> ('k \<Rightarrow> (u64 \<times> u64) set) \<Rightarrow> 'k \<Rightarrow> (int + 'a) \<Rightarrow> 'k \<Rightarrow> bool" where
  "quiet fds maps k r k' \<longleftrightarrow> fds k' = fds k \<and> maps k' = maps k \<and> (\<forall>e. r = Inl e \<longrightarrow> 0 < e)"

definition gives_fd :: "('k \<Rightarrow> int set) \<Rightarrow> ('k \<Rightarrow> (u64 \<times> u64) set) \<Rightarrow> 'k \<Rightarrow> (int + int) \<Rightarrow> 'k \<Rightarrow> bool" where
  "gives_fd fds maps k r k' \<longleftrightarrow> maps k' = maps k \<and> (case r of
     Inl e \<Rightarrow> 0 < e \<and> fds k' = fds k | Inr fd \<Rightarrow> 0 \<le> fd \<and> fd \<notin> fds k \<and> fds k' = insert fd (fds k))"

definition vfio_lawful :: "('k, 'x) vfio_os_scheme \<Rightarrow> ('k \<Rightarrow> int set) \<Rightarrow> ('k \<Rightarrow> (u64 \<times> u64) set) \<Rightarrow> bool" where
  "vfio_lawful os fds maps \<longleftrightarrow>
     (\<forall>k p r k'. vf_open os k p = (r, k') \<longrightarrow> gives_fd fds maps k r k') \<and>
     (\<forall>k fd n r k'. io_group_get_device_fd os k fd n = (r, k') \<longrightarrow> gives_fd fds maps k r k') \<and>
     (\<forall>k fd r k'. vf_close os k fd = (r, k') \<longrightarrow> maps k' = maps k \<and> fds k' = fds k - {fd} \<and> (\<forall>e. r = Inl e \<longrightarrow> 0 < e)) \<and>
     (\<forall>k fd n x r k'. vf_mmap os k fd n x = (r, k') \<longrightarrow> fds k' = fds k \<and> (case r of
        Inl e \<Rightarrow> 0 < e \<and> maps k' = maps k
      | Inr a \<Rightarrow> a \<noteq> 0 \<and> n \<noteq> 0 \<and> (a, n) \<notin> maps k \<and> maps k' = insert (a, n) (maps k))) \<and>
     (\<forall>k a n. fds (vf_munmap os k a n) = fds k \<and> maps (vf_munmap os k a n) = maps k - {(a, n)}) \<and>
     (\<forall>k p n r k'. vf_readlink os k p n = (r, k') \<longrightarrow> quiet fds maps k r k') \<and>
     (\<forall>k fd x r k'. vf_pread16 os k fd x = (r, k') \<longrightarrow> quiet fds maps k r k') \<and>
     (\<forall>k fd x v r k'. vf_pwrite16 os k fd x v = (r, k') \<longrightarrow> quiet fds maps k r k') \<and>
     (\<forall>k fd r k'. io_get_api_version os k fd = (r, k') \<longrightarrow> quiet fds maps k r k') \<and>
     (\<forall>k fd e r k'. io_check_extension os k fd e = (r, k') \<longrightarrow> quiet fds maps k r k') \<and>
     (\<forall>k fd t r k'. io_set_iommu os k fd t = (r, k') \<longrightarrow> quiet fds maps k r k') \<and>
     (\<forall>k fd s r s' k'. io_group_get_status os k fd s = (r, s', k') \<longrightarrow> quiet fds maps k r k') \<and>
     (\<forall>k fd c r k'. io_group_set_container os k fd c = (r, k') \<longrightarrow> quiet fds maps k r k') \<and>
     (\<forall>k fd i r i' k'. io_device_get_region_info os k fd i = (r, i', k') \<longrightarrow> quiet fds maps k r k') \<and>
     (\<forall>k fd m r k'. io_iommu_map_dma os k fd m = (r, k') \<longrightarrow> quiet fds maps k r k') \<and>
     (\<forall>k fd m r k'. io_iommu_unmap_dma os k fd m = (r, k') \<longrightarrow> quiet fds maps k r k')"

lemma vfio_lawfulD:
  assumes "vfio_lawful os fds maps"
  shows "vf_open os k p = (r, k') \<Longrightarrow> gives_fd fds maps k r k'"
    "io_group_get_device_fd os k fd n = (r, k') \<Longrightarrow> gives_fd fds maps k r k'"
    "vf_close os k fd = (r, k') \<Longrightarrow> maps k' = maps k \<and> fds k' = fds k - {fd} \<and> (\<forall>e. r = Inl e \<longrightarrow> 0 < e)"
    "vf_mmap os k fd sz x = (rm, k') \<Longrightarrow> fds k' = fds k \<and> (case rm of
        Inl e \<Rightarrow> 0 < e \<and> maps k' = maps k
      | Inr a \<Rightarrow> a \<noteq> 0 \<and> sz \<noteq> 0 \<and> (a, sz) \<notin> maps k \<and> maps k' = insert (a, sz) (maps k))"
    "fds (vf_munmap os k a sz) = fds k" "maps (vf_munmap os k a sz) = maps k - {(a, sz)}"
    "vf_readlink os k p w = (rl, k') \<Longrightarrow> quiet fds maps k rl k'"
    "vf_pread16 os k fd x = (rp, k') \<Longrightarrow> quiet fds maps k rp k'"
    "vf_pwrite16 os k fd x v = (rw, k') \<Longrightarrow> quiet fds maps k rw k'"
    "io_get_api_version os k fd = (r, k') \<Longrightarrow> quiet fds maps k r k'"
    "io_check_extension os k fd t = (r, k') \<Longrightarrow> quiet fds maps k r k'"
    "io_set_iommu os k fd t = (r, k') \<Longrightarrow> quiet fds maps k r k'"
    "io_group_get_status os k fd gs = (r, gs', k') \<Longrightarrow> quiet fds maps k r k'"
    "io_group_set_container os k fd c = (r, k') \<Longrightarrow> quiet fds maps k r k'"
    "io_device_get_region_info os k fd ri = (r, ri', k') \<Longrightarrow> quiet fds maps k r k'"
    "io_iommu_map_dma os k fd m = (r, k') \<Longrightarrow> quiet fds maps k r k'"
    "io_iommu_unmap_dma os k fd um = (r, k') \<Longrightarrow> quiet fds maps k r k'"
  using assms unfolding vfio_lawful_def by simp_all

end
