(* ===== verification/Nvme_Controller_Vfio.thy ===== *)
theory Nvme_Controller_Vfio
  imports Vfio Nvme_Controller
begin

unbundle bit_operations_syntax

text \<open>
  A controller that is reached through VFIO, \<open>include/upcie/nvme/nvme_controller_vfio.h\<close>: the container,
  the group and the device are opened one after the other, the heap is mapped for the device, BAR0 is
  mapped into the process, and then the controller is enabled as in \<open>nvme_controller.h\<close>. Every
  failure jumps to the same clean-up.

  \<open>goto fail\<close> becomes the result of the part of the function before the label: the error, with the
  controller and the VFIO state as they are at the jump.
\<close>

section \<open>State\<close>

record vfio_ctx =
  vx_container :: vfio_container
  vx_group :: vfio_group
  vx_device_fd :: int
  vx_bar0 :: u64
  vx_bar0_size :: u64
  vx_iommu_set :: bool

definition nvme_vfio_ctx_init :: vfio_ctx where
  "nvme_vfio_ctx_init = \<lparr>
     vx_container = \<lparr>vc_fd = - 1, vc_info = \<lparr>ii_flags = 0, ii_iova_pgsizes = 0\<rparr>,
       vc_map = \<lparr>vm_flags = 0, vm_vaddr = 0, vm_iova = 0, vm_size = 0\<rparr>\<rparr>,
     vx_group = \<lparr>vg_fd = - 1, vg_id = 0, vg_status = \<lparr>gs_flags = 0\<rparr>\<rparr>,
     vx_device_fd = - 1, vx_bar0 = 0, vx_bar0_size = 0, vx_iommu_set = False\<rparr>"

text \<open>Numbers of \<open>linux/vfio.h\<close> and \<open>linux/pci_regs.h\<close>.\<close>

abbreviation VFIO_PCI_BAR0_REGION_INDEX :: u32 where "VFIO_PCI_BAR0_REGION_INDEX \<equiv> 0"
abbreviation VFIO_PCI_CONFIG_REGION_INDEX :: u32 where "VFIO_PCI_CONFIG_REGION_INDEX \<equiv> 7"
abbreviation PCI_COMMAND :: u64 where "PCI_COMMAND \<equiv> 4"
abbreviation PCI_COMMAND_MASTER :: u16 where "PCI_COMMAND_MASTER \<equiv> 4"
abbreviation VFIO_API_VERSION :: int where "VFIO_API_VERSION \<equiv> 0"
abbreviation VFIO_TYPE1_IOMMU :: int where "VFIO_TYPE1_IOMMU \<equiv> 1"
abbreviation VFIO_GROUP_FLAGS_VIABLE :: u32 where "VFIO_GROUP_FLAGS_VIABLE \<equiv> 1"
abbreviation VFIO_DMA_MAP_FLAG_READ :: u32 where "VFIO_DMA_MAP_FLAG_READ \<equiv> 1"
abbreviation VFIO_DMA_MAP_FLAG_WRITE :: u32 where "VFIO_DMA_MAP_FLAG_WRITE \<equiv> 2"

definition region_of :: "u32 \<Rightarrow> vfio_region_info" where
  "region_of index = \<lparr>vr_flags = 0, vr_index = index, vr_size = 0, vr_offset = 0\<rparr>"

section \<open>The function\<close>

definition nvme_vfio_pci_bus_master_enable :: "('k, 'x) vfio_os_scheme \<Rightarrow> int \<Rightarrow> 'k \<Rightarrow> int \<times> 'k" where
  "nvme_vfio_pci_bus_master_enable os device_fd k =
     (case vfio_device_get_region_info os device_fd (region_of VFIO_PCI_CONFIG_REGION_INDEX) k of
        (Inl e, info, k1) \<Rightarrow> (- e, k1)
      | (Inr n, info, k1) \<Rightarrow>
          (case vf_pread16 os k1 device_fd (vr_offset info + PCI_COMMAND) of
             (Inl e, k2) \<Rightarrow> (- e, k2)
           | (Inr None, k2) \<Rightarrow> (- EIO, k2)
           | (Inr (Some cmd), k2) \<Rightarrow>
               if cmd AND PCI_COMMAND_MASTER = 0 then
                 (case vf_pwrite16 os k2 device_fd (vr_offset info + PCI_COMMAND) (cmd OR PCI_COMMAND_MASTER) of
                    (Inl e, k3) \<Rightarrow> (- e, k3)
                  | (Inr None, k3) \<Rightarrow> (- EIO, k3)
                  | (Inr (Some _), k3) \<Rightarrow> (0, k3))
               else (0, k2)))"

text \<open>\<open>atoi\<close> of a text whose number fits an \<open>int\<close>; 0 if it has none.\<close>

definition atoi :: "string \<Rightarrow> int" where
  "atoi s = (case scan_dec s of Some v \<Rightarrow> v | None \<Rightarrow> 0)"

text \<open>The path and the link hold at most \<open>PATH_MAX - 1\<close> characters.\<close>

definition vfio_device_get_iommu_group_id ::
  "('k, 'x) vfio_os_scheme \<Rightarrow> string \<Rightarrow> int \<Rightarrow> 'k \<Rightarrow> int \<times> int \<times> 'k" where
  "vfio_device_get_iommu_group_id os bdf group_id k =
     (case vf_readlink os k (take 4095 (''/sys/bus/pci/devices/'' @ bdf @ ''/iommu_group'')) 4095 of
        (Inl e, k') \<Rightarrow> (- e, group_id, k')
      | (Inr link, k') \<Rightarrow>
          let base = rev (takeWhile (\<lambda>c. c \<noteq> CHR ''/'') (rev link)) in
          if CHR ''/'' \<notin> set link \<or> base = [] then (- EINVAL, group_id, k') else (0, atoi base, k'))"

section \<open>The heap\<close>

text \<open>Each hugepage is mapped at its physical address.\<close>

fun map_pages :: "('k, 'x) vfio_os_scheme \<Rightarrow> vfio_container \<Rightarrow> hostmem_heap \<Rightarrow> nat list \<Rightarrow> 'k \<Rightarrow> (int \<times> 'k) option" where
  "map_pages os container heap [] k = Some (0, k)"
| "map_pages os container heap (i # is) k = do {
     iova \<leftarrow> array_get (phys_lut heap) i;
     case vfio_iommu_map_dma os container
         \<lparr>vm_flags = VFIO_DMA_MAP_FLAG_READ OR VFIO_DMA_MAP_FLAG_WRITE,
          vm_vaddr = virt heap + of_nat i * size_of_int (hugepgsz (config heap)),
          vm_iova = iova, vm_size = size_of_int (hugepgsz (config heap))\<rparr> k of
       (Inl e, k') \<Rightarrow> Some (- e, k')
     | (Inr n, k') \<Rightarrow> map_pages os container heap is k' }"

definition vfio_map_heap :: "('k, 'x) vfio_os_scheme \<Rightarrow> vfio_ctx \<Rightarrow> hostmem_heap \<Rightarrow> 'k \<Rightarrow> (int \<times> 'k) option" where
  "vfio_map_heap os vfio heap k = map_pages os (vx_container vfio) heap [0..<unat (nphys heap)] k"

text \<open>Unmapping goes on after a failure and keeps the first error.\<close>

fun unmap_pages :: "('k, 'x) vfio_os_scheme \<Rightarrow> vfio_container \<Rightarrow> hostmem_heap \<Rightarrow> nat list \<Rightarrow> int \<Rightarrow> 'k \<Rightarrow> (int \<times> 'k) option" where
  "unmap_pages os container heap [] err k = Some (err, k)"
| "unmap_pages os container heap (i # is) err k = do {
     iova \<leftarrow> array_get (phys_lut heap) i;
     case vfio_iommu_unmap_dma os container
         \<lparr>vu_flags = 0, vu_iova = iova, vu_size = size_of_int (hugepgsz (config heap))\<rparr> k of
       (Inl e, k') \<Rightarrow> unmap_pages os container heap is (if err = 0 then - e else err) k'
     | (Inr n, k') \<Rightarrow> unmap_pages os container heap is err k' }"

section \<open>Closing\<close>

definition nvme_vfio_ctx_close ::
  "('k, 'x) vfio_os_scheme \<Rightarrow> vfio_ctx \<Rightarrow> hostmem_heap \<Rightarrow> 'k \<Rightarrow> (int \<times> vfio_ctx \<times> 'k) option" where
  "nvme_vfio_ctx_close os vfio heap k = do {
     let k1 = (if vx_bar0 vfio \<noteq> 0 \<and> vx_bar0_size vfio \<noteq> 0 then vf_munmap os k (vx_bar0 vfio) (vx_bar0_size vfio) else k);
     let k2 = (if 0 \<le> vx_device_fd vfio then snd (vf_close os k1 (vx_device_fd vfio)) else k1);
     (err, k3) \<leftarrow> (if vx_iommu_set vfio
       then unmap_pages os (vx_container vfio) heap [0..<unat (nphys heap)] 0 k2 else Some (0, k2));
     let k4 = (if 0 \<le> vg_fd (vx_group vfio) then snd (vfio_group_close os (vx_group vfio) k3) else k3);
     let k5 = (if 0 \<le> vc_fd (vx_container vfio) then snd (vfio_container_close os (vx_container vfio) k4) else k4);
     Some (err, nvme_vfio_ctx_init, k5) }"

definition nvme_controller_disable_vfio ::
  "('d, 'x) hw_scheme \<Rightarrow> nvme_controller \<Rightarrow> vfio_ctx \<Rightarrow> 'd \<Rightarrow> int \<times> 'd" where
  "nvme_controller_disable_vfio hw ctrlr vfio d =
     (if vx_bar0 vfio = 0 then (0, d)
      else let d1 = nvme_mmio_cc_disable hw d in
        if nc_timeout_ms ctrlr = 0 then (0, d1)
        else nvme_mmio_csts_wait_until_not_ready hw d1 (nc_timeout_ms ctrlr))"

definition nvme_controller_close_vfio ::
  "('d, 'x) hw_scheme \<Rightarrow> ('k, 'y) vfio_os_scheme \<Rightarrow> nvme_controller \<Rightarrow> vfio_ctx \<Rightarrow> hostmem_heap \<Rightarrow> 'd \<Rightarrow> 'k \<Rightarrow>
   (int \<times> nvme_controller \<times> vfio_ctx \<times> hostmem_heap \<times> 'd \<times> 'k) option" where
  "nvme_controller_close_vfio hw os ctrlr vfio heap d k = do {
     let (err, d1) = nvme_controller_disable_vfio hw ctrlr vfio d;
     heap1 \<leftarrow> (case qp_rpool (nc_aq ctrlr) of Null \<Rightarrow> Some heap
       | _ \<Rightarrow> do { (aq, h) \<leftarrow> nvme_qpair_term (nc_aq ctrlr) heap; Some h });
     heap2 \<leftarrow> (if nc_buf ctrlr \<noteq> 0 then hostmem_dma_free heap1 (nc_buf ctrlr) else Some heap1);
     (close_err, vfio', k1) \<leftarrow> nvme_vfio_ctx_close os vfio heap2 k;
     Some (if close_err \<noteq> 0 \<and> err = 0 then close_err else err, zero_controller, vfio', heap2, d1, k1) }"

section \<open>Opening\<close>

text \<open>The container with its group, up to the mapping of the heap.\<close>

definition vfio_attach ::
  "('k, 'x) vfio_os_scheme \<Rightarrow> string \<Rightarrow> vfio_ctx \<Rightarrow> hostmem_heap \<Rightarrow> 'k \<Rightarrow> (int \<times> vfio_ctx \<times> 'k) option" where
  "vfio_attach os bdf vfio heap k = (
     let (err, group_id, k1) = vfio_device_get_iommu_group_id os bdf (- 1) k in
     if err \<noteq> 0 then Some (err, vfio, k1)
     else let (err, container, k2) = vfio_container_open os (vx_container vfio) k1;
              vfio1 = vfio\<lparr>vx_container := container\<rparr> in
     if err \<noteq> 0 then Some (err, vfio1, k2)
     else let (err, api_version, k3) = vfio_get_api_version os container 0 k2 in
     if err \<noteq> 0 then Some (err, vfio1, k3)
     else if api_version \<noteq> VFIO_API_VERSION then Some (- EINVAL, vfio1, k3)
     else let (r, k4) = vfio_check_extension os container VFIO_TYPE1_IOMMU k3 in
     if c_ret r = 0 then Some (- ENOTSUP, vfio1, k4)
     else let (err, grp, k5) = vfio_group_open os group_id (vx_group vfio1) k4;
              vfio2 = vfio1\<lparr>vx_group := grp\<rparr> in
     if err \<noteq> 0 then Some (err, vfio2, k5)
     else let (r, grp', k6) = vfio_group_get_status os grp k5;
              vfio3 = vfio2\<lparr>vx_group := grp'\<rparr> in
     case r of Inl e \<Rightarrow> Some (- e, vfio3, k6) | Inr _ \<Rightarrow>
     if gs_flags (vg_status grp') AND VFIO_GROUP_FLAGS_VIABLE = 0 then Some (- EBUSY, vfio3, k6)
     else let (r, k7) = vfio_group_set_container os grp' container k6 in
     case r of Inl e \<Rightarrow> Some (- e, vfio3, k7) | Inr _ \<Rightarrow>
     let (r, k8) = vfio_set_iommu os container VFIO_TYPE1_IOMMU k7 in
     case r of Inl e \<Rightarrow> Some (- e, vfio3, k8) | Inr _ \<Rightarrow>
     let vfio4 = vfio3\<lparr>vx_iommu_set := True\<rparr> in
     do { (err, k9) \<leftarrow> vfio_map_heap os vfio4 heap k8; Some (err, vfio4, k9) })"

text \<open>The device and its BAR0.\<close>

definition vfio_bar0 ::
  "('k, 'x) vfio_os_scheme \<Rightarrow> string \<Rightarrow> nvme_controller \<Rightarrow> vfio_ctx \<Rightarrow> 'k \<Rightarrow> int \<times> nvme_controller \<times> vfio_ctx \<times> 'k" where
  "vfio_bar0 os bdf ctrlr vfio k =
     (case vfio_group_get_device_fd os (vx_group vfio) bdf k of
        (Inl e, k1) \<Rightarrow> (- e, ctrlr, vfio\<lparr>vx_device_fd := - 1\<rparr>, k1)
      | (Inr fd, k1) \<Rightarrow>
          let vfio1 = vfio\<lparr>vx_device_fd := fd\<rparr>; (err, k2) = nvme_vfio_pci_bus_master_enable os fd k1 in
          if err \<noteq> 0 then (err, ctrlr, vfio1, k2)
          else
            (case vfio_device_get_region_info os fd (region_of VFIO_PCI_BAR0_REGION_INDEX) k2 of
               (Inl e, region, k3) \<Rightarrow> (- e, ctrlr, vfio1, k3)
             | (Inr n, region, k3) \<Rightarrow>
                 (case vfio_map_region os fd (vr_size region) (vr_offset region) k3 of
                    (Inl e, k4) \<Rightarrow> (- e, ctrlr, vfio1, k4)
                  | (Inr bar0, k4) \<Rightarrow>
                      (0, ctrlr\<lparr>nc_func := (nc_func ctrlr)\<lparr>pf_bars := (pf_bars (nc_func ctrlr))[0 :=
                          \<lparr>pb_size = vr_size region, pb_region = bar0, pb_id = 0, pb_fd = fd\<rparr>]\<rparr>\<rparr>,
                       vfio1\<lparr>vx_bar0 := bar0, vx_bar0_size := vr_size region\<rparr>, k4))))"

text \<open>The initialization of the controller.\<close>

definition vfio_start ::
  "bool \<Rightarrow> ('d, 'x) dma_hw_scheme \<Rightarrow> bool \<Rightarrow> nvme_controller \<Rightarrow> hostmem_heap \<Rightarrow> 'd \<Rightarrow>
   (int \<times> nvme_controller \<times> hostmem_heap \<times> 'd) option" where
  "vfio_start dbg hw calloc_ok ctrlr heap d = do {
     let (cap, d1) = nvme_mmio_cap_read hw d;
     let ctrlr1 = ctrlr\<lparr>nc_timeout_ms := int (unat (nvme_reg_cap_get_to cap)) * 500\<rparr>;
     let d2 = nvme_mmio_cc_disable hw d1;
     let (err, d3) = nvme_mmio_csts_wait_until_not_ready hw d2 (nc_timeout_ms ctrlr1);
     if err \<noteq> 0 then Some (err, ctrlr1, heap, d3)
     else do {
       (err, aq, heap1, d4) \<leftarrow> nvme_qpair_init dbg hw calloc_ok (nc_aq ctrlr1) 0 256 heap d3;
       let ctrlr2 = ctrlr1\<lparr>nc_aq := aq\<rparr>;
       if err \<noteq> 0 then Some (err, ctrlr2, heap1, d4)
       else do {
         asq \<leftarrow> hostmem_dma_v2p heap1 (qp_sq aq);
         acq \<leftarrow> hostmem_dma_v2p heap1 (qp_cq aq);
         let d5 = nvme_mmio_aq_setup hw d4 asq acq (ucast (qp_depth aq));
         let d6 = nvme_mmio_cc_write hw d5 (enable_cc cap);
         let (err, d7) = nvme_mmio_csts_wait_until_ready hw d6 (nc_timeout_ms ctrlr2);
         Some (err, ctrlr2, heap1, d7) } } }"

text \<open>The steps before the label \<open>fail\<close>, with the buffer and the bitmap.\<close>

definition vfio_open_steps ::
  "bool \<Rightarrow> ('d, 'x) dma_hw_scheme \<Rightarrow> ('k, 'y) vfio_os_scheme \<Rightarrow> bool \<Rightarrow> string \<Rightarrow> nvme_controller \<Rightarrow> hostmem_heap \<Rightarrow> 'd \<Rightarrow> 'k \<Rightarrow>
   (int \<times> nvme_controller \<times> vfio_ctx \<times> hostmem_heap \<times> 'd \<times> 'k) option" where
  "vfio_open_steps dbg hw os calloc_ok bdf ctrlr heap d k = do {
     (err, vfio, k1) \<leftarrow> vfio_attach os bdf nvme_vfio_ctx_init heap k;
     if err \<noteq> 0 then Some (err, ctrlr, vfio, heap, d, k1)
     else let (err, ctrlr1, vfio1, k2) = vfio_bar0 os bdf ctrlr vfio k1 in
       if err \<noteq> 0 then Some (err, ctrlr1, vfio1, heap, d, k2)
       else do {
         (err, ctrlr2, heap1, d1) \<leftarrow> vfio_start dbg hw calloc_ok ctrlr1 heap d;
         Some (err, ctrlr2, vfio1, heap1, d1, k2) } }"

definition nvme_controller_open_vfio ::
  "bool \<Rightarrow> ('d, 'x) dma_hw_scheme \<Rightarrow> ('k, 'y) vfio_os_scheme \<Rightarrow> bool \<Rightarrow> string \<Rightarrow> hostmem_heap \<Rightarrow> 'd \<Rightarrow> 'k \<Rightarrow>
   (int \<times> nvme_controller \<times> vfio_ctx \<times> hostmem_heap \<times> 'd \<times> 'k) option" where
  "nvme_controller_open_vfio dbg hw os calloc_ok bdf heap d k = do {
     (r, heap1) \<leftarrow> hostmem_dma_malloc dbg heap 4096;
     case r of
       Inl e \<Rightarrow> Some (- e, zero_controller, nvme_vfio_ctx_init, heap1, d, k)
     | Inr buf \<Rightarrow> do {
         let d1 = hw_zero hw d buf 4096;
         (_, qids) \<leftarrow> nvme_qid_bitmap_init;
         (err, ctrlr, vfio, heap2, d2, k2) \<leftarrow>
           vfio_open_steps dbg hw os calloc_ok bdf (zero_controller\<lparr>nc_buf := buf, nc_qids := qids\<rparr>) heap1 d1 k;
         if err \<noteq> 0 then do {
           (_, ctrlr', vfio', heap3, d3, k3) \<leftarrow> nvme_controller_close_vfio hw os ctrlr vfio heap2 d2 k2;
           Some (err, ctrlr', vfio', heap3, d3, k3) }
         else Some (0, ctrlr, vfio, heap2, d2, k2) } }"

end
