(* ===== verification/Nvme_Driver.thy ===== *)
theory Nvme_Driver
  imports Hostmem_Setup Nvme_Controller_Vfio
begin

text \<open>
  The driver \<open>example/upcie_nvme_driver.c\<close>: it sets up a heap of 128 MiB, opens the controller it is given
  through sysfs or VFIO, whichever kernel driver is bound to it, identifies it, creates and deletes a queue
  pair, and gives everything back. It puts the components together: one state \<open>'k\<close> of the kernel with the
  calls for pages and files (\<open>os\<close>) and those for VFIO (\<open>vf\<close>), one device state \<open>'d\<close>, one heap.

  The buffer that the identity of the controller is printed from and the printing are left out: nothing
  is computed from them. \<open>calloc_aq\<close> and \<open>calloc_ioq\<close> are whether the \<open>calloc\<close> of the request pool of the
  admin queue and of the other queue pair give memory.
\<close>

section \<open>State\<close>

datatype nvme_backend = NVME_BACKEND_SYSFS | NVME_BACKEND_VFIO

text \<open>The hugepage below the heap is the field \<open>memory\<close> of the C structure of the heap.\<close>

record rte =
  rt_config :: hostmem_config
  rt_memory :: hostmem_hugepage
  rt_heap :: hostmem_heap

record nvme =
  nv_ctrlr :: nvme_controller
  nv_ioq :: nvme_qpair
  nv_vfio :: vfio_ctx
  nv_backend :: nvme_backend

text \<open>The \<open>{0}\<close> initialisers.\<close>

definition zero_config :: hostmem_config where
  "zero_config = \<lparr>hugetlb_path = '''', memfd_flags = 0, backend = 0, count = 0, pagesize = 0, pagesize_shift = 0,
     hugepgsz = 0, hugepgsz_shift = 0\<rparr>"

definition zero_rte :: rte where
  "zero_rte = \<lparr>rt_config = zero_config, rt_memory = zero_hugepage,
     rt_heap = \<lparr>virt = 0, memsize = 0, hdrs = Map.empty, freelist = 0, config = zero_config, nphys = 0, phys_lut = []\<rparr>\<rparr>"

definition zero_nvme :: nvme where
  "zero_nvme = \<lparr>nv_ctrlr = zero_controller, nv_ioq = zero_qpair,
     nv_vfio = nvme_vfio_ctx_init\<lparr>vx_container := (vx_container nvme_vfio_ctx_init)\<lparr>vc_fd := 0\<rparr>,
       vx_group := (vx_group nvme_vfio_ctx_init)\<lparr>vg_fd := 0\<rparr>, vx_device_fd := 0\<rparr>,
     nv_backend = NVME_BACKEND_SYSFS\<rparr>"

section \<open>The functions\<close>

text \<open>The path and the link hold at most \<open>PATH_MAX - 1\<close> characters.\<close>

definition device_get_driver_name ::
  "('k, 'y) vfio_os_scheme \<Rightarrow> string \<Rightarrow> string \<Rightarrow> nat \<Rightarrow> 'k \<Rightarrow> int \<times> string \<times> 'k" where
  "device_get_driver_name vf bdf driver_name driver_name_len k =
     (case vf_readlink vf k (take 4095 (''/sys/bus/pci/devices/'' @ bdf @ ''/driver'')) 4095 of
        (Inl e, k1) \<Rightarrow> (- e, driver_name, k1)
      | (Inr link, k1) \<Rightarrow>
          let base = rev (takeWhile (\<lambda>c. c \<noteq> CHR ''/'') (rev link)) in
          if CHR ''/'' \<notin> set link \<or> base = [] then (- EINVAL, driver_name, k1)
          else (0, take (driver_name_len - 1) base, k1))"

text \<open>The results of the deletion and of the closing are not looked at.\<close>

definition nvme_cleanup ::
  "bool \<Rightarrow> ('d, 'h) dma_hw_scheme \<Rightarrow> ('k, 'x) fs_os_scheme \<Rightarrow> ('k, 'y) vfio_os_scheme \<Rightarrow> nvme \<Rightarrow> hostmem_heap \<Rightarrow> 'd \<Rightarrow> 'k \<Rightarrow>
   (nvme \<times> hostmem_heap \<times> 'd \<times> 'k) option" where
  "nvme_cleanup dbg hw os vf nvme heap d k = do {
     (nvme1, heap1, d1) \<leftarrow> (case qp_rpool (nv_ioq nvme) of Null \<Rightarrow> Some (nvme, heap, d)
       | _ \<Rightarrow> do {
           (_, ctrlr, _, heap1, d1) \<leftarrow> nvme_controller_delete_io_qpair dbg hw (nv_ctrlr nvme) (nv_ioq nvme) heap d;
           Some (nvme\<lparr>nv_ctrlr := ctrlr, nv_ioq := zero_qpair\<rparr>, heap1, d1) });
     if nv_backend nvme1 = NVME_BACKEND_VFIO then do {
       (_, ctrlr, vfio, heap2, d2, k1) \<leftarrow> nvme_controller_close_vfio hw vf (nv_ctrlr nvme1) (nv_vfio nvme1) heap1 d1 k;
       Some (nvme1\<lparr>nv_ctrlr := ctrlr, nv_vfio := vfio\<rparr>, heap2, d2, k1) }
     else do {
       (ctrlr, heap2, k1) \<leftarrow> nvme_controller_close os (nv_ctrlr nvme1) heap1 k;
       Some (nvme1\<lparr>nv_ctrlr := ctrlr\<rparr>, heap2, d1, k1) } }"

definition rte_init :: "bool \<Rightarrow> ('k, 'x) page_os_scheme \<Rightarrow> rte \<Rightarrow> 'k \<Rightarrow> (int \<times> rte \<times> 'k) option" where
  "rte_init dbg os rte k = do {
     (err, cfg, k1) \<leftarrow> hostmem_config_init dbg os (rt_config rte) k;
     if err \<noteq> 0 then Some (err, rte\<lparr>rt_config := cfg\<rparr>, k1)
     else do {
       (err, memory, heap, cfg1, k2) \<leftarrow> hostmem_heap_init os (1024 * 1024 * 128) cfg k1;
       Some (if err \<noteq> 0 then - err else 0, \<lparr>rt_config = cfg1, rt_memory = memory, rt_heap = heap\<rparr>, k2) } }"

text \<open>The controller, by the name of the kernel driver it is bound to. The code that a failing step returned is
  returned negated.\<close>

definition nvme_open ::
  "bool \<Rightarrow> ('d, 'h) dma_hw_scheme \<Rightarrow> ('k, 'x) fs_os_scheme \<Rightarrow> ('k, 'y) vfio_os_scheme \<Rightarrow> bool \<Rightarrow> nvme \<Rightarrow> string \<Rightarrow> hostmem_heap \<Rightarrow> 'd \<Rightarrow> 'k \<Rightarrow>
   (int \<times> nvme \<times> hostmem_heap \<times> 'd \<times> 'k) option" where
  "nvme_open dbg hw os vf calloc_aq nvme bdf heap d k = (
     let (err, driver_name, k1) = device_get_driver_name vf bdf [] 256 k in
     if err \<noteq> 0 then Some (- err, nvme, heap, d, k1)
     else if driver_name = ''vfio-pci'' then do {
       (err, ctrlr, vfio, heap1, d1, k2) \<leftarrow> nvme_controller_open_vfio dbg hw vf calloc_aq bdf heap d k1;
       Some (- err, nvme\<lparr>nv_backend := NVME_BACKEND_VFIO, nv_ctrlr := ctrlr, nv_vfio := vfio\<rparr>, heap1, d1, k2) }
     else if driver_name = ''uio_pci_generic'' then do {
       (err, ctrlr, heap1, d1, k2) \<leftarrow> nvme_controller_open dbg hw os calloc_aq bdf heap d k1;
       Some (- err, nvme\<lparr>nv_backend := NVME_BACKEND_SYSFS, nv_ctrlr := ctrlr\<rparr>, heap1, d1, k2) }
     else Some (- ENOTSUP, nvme, heap, d, k1))"

definition nvme_init ::
  "bool \<Rightarrow> ('d, 'h) dma_hw_scheme \<Rightarrow> ('k, 'x) fs_os_scheme \<Rightarrow> ('k, 'y) vfio_os_scheme \<Rightarrow> bool \<Rightarrow> bool \<Rightarrow> nvme \<Rightarrow> string \<Rightarrow>
   hostmem_heap \<Rightarrow> 'd \<Rightarrow> 'k \<Rightarrow> (int \<times> nvme \<times> hostmem_heap \<times> 'd \<times> 'k) option" where
  "nvme_init dbg hw os vf calloc_aq calloc_ioq nvme bdf heap d k = do {
     (err, nvme1, heap1, d1, k1) \<leftarrow> nvme_open dbg hw os vf calloc_aq nvme bdf heap d k;
     if err \<noteq> 0 then Some (err, nvme1, heap1, d1, k1)
     else do {
       let ctrlr = nv_ctrlr nvme1;
       (err, aq, cmd, cpl, d2) \<leftarrow> nvme_qpair_submit_sync_contig_prps dbg hw (nc_aq ctrlr) heap1 (nc_buf ctrlr) 4096
         (zero_command\<lparr>cmd_opc := 0x6, cmd_cdw10 := 1\<rparr>) (nc_timeout_ms ctrlr) zero_completion d1;
       let nvme2 = nvme1\<lparr>nv_ctrlr := ctrlr\<lparr>nc_aq := aq\<rparr>\<rparr>;
       if err \<noteq> 0 then do {
         (nvme3, heap2, d3, k2) \<leftarrow> nvme_cleanup dbg hw os vf nvme2 heap1 d2 k1;
         Some (err, nvme3, heap2, d3, k2) }
       else do {
         (err, ctrlr1, ioq, heap2, d3) \<leftarrow>
           nvme_controller_create_io_qpair dbg hw calloc_ioq (nv_ctrlr nvme2) (nv_ioq nvme2) 32 heap1 d2;
         let nvme3 = nvme2\<lparr>nv_ctrlr := ctrlr1, nv_ioq := ioq\<rparr>;
         if err = 0 then Some (0, nvme3, heap2, d3, k1)
         else if nv_backend nvme3 = NVME_BACKEND_VFIO then do {
           (_, ctrlr2, vfio, heap3, d4, k2) \<leftarrow> nvme_controller_close_vfio hw vf ctrlr1 (nv_vfio nvme3) heap2 d3 k1;
           Some (err, nvme3\<lparr>nv_ctrlr := ctrlr2, nv_vfio := vfio\<rparr>, heap3, d4, k2) }
         else do {
           (ctrlr2, heap3, k2) \<leftarrow> nvme_controller_close os ctrlr1 heap2 k1;
           Some (err, nvme3\<lparr>nv_ctrlr := ctrlr2\<rparr>, heap3, d3, k2) } } } }"

text \<open>The arguments include the name of the program. The result is the status that \<open>main\<close> returns.\<close>

definition main ::
  "bool \<Rightarrow> ('d, 'h) dma_hw_scheme \<Rightarrow> ('k, 'x) page_os_scheme \<Rightarrow> ('k, 'y) vfio_os_scheme \<Rightarrow> bool \<Rightarrow> bool \<Rightarrow> string list \<Rightarrow>
   'd \<Rightarrow> 'k \<Rightarrow> (int \<times> 'd \<times> 'k) option" where
  "main dbg hw os vf calloc_aq calloc_ioq args d k =
     (if length args \<noteq> 2 then Some (1, d, k)
      else do {
        (err, rte, k1) \<leftarrow> rte_init dbg os zero_rte k;
        if err \<noteq> 0 then Some (- err, d, k1)
        else do {
          (err, nvme, heap, d1, k2) \<leftarrow>
            nvme_init dbg hw os vf calloc_aq calloc_ioq zero_nvme (args ! 1) (rt_heap rte) d k1;
          if err \<noteq> 0 then do {
            (_, k3) \<leftarrow> hostmem_heap_term os (rt_memory rte) k2;
            Some (- err, d1, k3) }
          else do {
            (nvme1, heap1, d2, k3) \<leftarrow> nvme_cleanup dbg hw os vf nvme heap d1 k2;
            (_, k4) \<leftarrow> hostmem_heap_term os (rt_memory rte) k3;
            Some (err, d2, k4) } } })"

end
