(* ===== verification/Heap_Room.thy ===== *)
theory Heap_Room
  imports Heap_Owner
begin

unbundle bit_operations_syntax

text \<open>
  When an allocation on the hugepage heap cannot fail. First fit succeeds as long as the last block is
  free and large enough, and takes at most a header, the request and the filler up to the next hugepage
  off it. With it, a queue pair on a heap with enough room never runs out of memory.
\<close>

section \<open>First fit with room at the end\<close>

text \<open>The two kinds of requests the code makes: elements of the size of a header, or one element.\<close>

definition plain_request :: "nat \<Rightarrow> nat \<Rightarrow> nat \<Rightarrow> nat \<Rightarrow> bool" where
  "plain_request hp hdr elem tot \<longleftrightarrow> elem = hdr \<or> elem = tot \<and> hdr dvd tot \<and> tot + hdr \<le> hp"

lemma plain_skip:
  assumes "plain_request hp hdr elem tot" "hdr dvd hp" "hdr dvd p" "0 < hp" "0 < hdr"
    and "hp - p mod hp < tot + hdr" "(hp - p mod hp - hdr) mod elem \<noteq> 0"
  shows "hdr + (hp - p mod hp - hdr) mod elem = hp - p mod hp" "tot + hdr \<le> hp"
proof -
  let ?r = "hp - p mod hp"
  have r: "hdr dvd ?r" "hdr \<le> ?r" by (rule dvd_remaining [OF assms(2,3,4)])+
  have ne: "elem \<noteq> hdr"
  proof
    assume "elem = hdr"
    moreover have "hdr dvd ?r - hdr" by (rule dvd_diff_nat [OF r(1) dvd_refl])
    ultimately show False using assms(7) by simp
  qed
  with assms(1) have e: "elem = tot" "tot + hdr \<le> hp" by (simp_all add: plain_request_def)
  have "?r - hdr < tot" using assms(6) r(2) by linarith
  with e r(2) show "hdr + (?r - hdr) mod elem = ?r" "tot + hdr \<le> hp" by simp_all
qed

lemma next_hugepage:
  assumes "0 < hp"
  shows "(p + (hp - p mod hp)) mod hp = (0 :: nat)"
proof -
  have "p mod hp + (hp - p mod hp) = hp" using assms by (simp add: less_imp_le)
  then show ?thesis using mod_add_left_eq [of p hp "hp - p mod hp"] by simp
qed

lemma ff_alloc_last:
  assumes plain: "plain_request hp hdr elem tot" and al: "hdr dvd hp" "hdr dvd p" "0 < hdr" "thr < hp" "0 < hp"
    and room: "tot + hdr + 2 * hp \<le> s"
  obtains q bs' p' s' where "ff_alloc hp hdr thr elem tot [Blk p s True] = (Some q, bs' @ [Blk p' s' True])"
    "s \<le> s' + tot + hdr + hp"
proof (cases "hp - p mod hp < tot + hdr \<and> (hp - p mod hp - hdr) mod elem \<noteq> 0")
  case False
  with room al(4) ff_alloc_fit [of tot hdr s hp p elem thr "[]"] show thesis
    by (intro that [of p "[Blk p tot False]" "p + hdr + tot" "s - tot - hdr"]) auto
next
  case True
  let ?r = "hp - p mod hp"
  define d where "d = (?r - hdr) mod elem"
  note sk = plain_skip [OF plain al(1,2,5,3)] True
  have d: "hdr + d = ?r" "d \<noteq> 0" and fits: "tot + hdr \<le> hp" using sk unfolding d_def by blast+
  have r: "?r \<le> hp" by simp
  have s1: "s - hdr - d = s - ?r" using d(1) by linarith
  have boundary: "(p + hdr + d) mod hp = 0" using next_hugepage [OF al(5), of p] d(1) by (simp add: add.assoc)
  have "ff_alloc hp hdr thr elem tot [Blk p s True] =
      (fst (ff_alloc hp hdr thr elem tot [Blk (p + hdr + d) (s - ?r) True]),
       Blk p d True # snd (ff_alloc hp hdr thr elem tot [Blk (p + hdr + d) (s - ?r) True]))"
    using ff_alloc_skip [of tot hdr s hp p elem d thr "[]"] True room d_def s1 by (simp add: prod_eq_iff)
  moreover have "ff_alloc hp hdr thr elem tot [Blk (p + hdr + d) (s - ?r) True] =
      (Some (p + hdr + d), [Blk (p + hdr + d) tot False, Blk (p + hdr + d + hdr + tot) (s - ?r - tot - hdr) True])"
    using ff_alloc_fit [of tot hdr "s - ?r" hp "p + hdr + d" elem thr "[]"] room r fits al(4) boundary by simp
  ultimately show thesis
    using room r
    by (intro that [of "p + hdr + d" "[Blk p d True, Blk (p + hdr + d) tot False]" "p + hdr + d + hdr + tot" "s - ?r - tot - hdr"])
      simp_all
qed

lemma ff_alloc_room:
  assumes plain: "plain_request hp hdr elem tot" and al: "hdr dvd hp" "0 < hdr" "thr < hp" "0 < hp"
    and room: "tot + hdr + 2 * hp \<le> s"
  shows "aligned hdr (bs @ [Blk p s True]) \<Longrightarrow>
    \<exists>q bs' p' s'. ff_alloc hp hdr thr elem tot (bs @ [Blk p s True]) = (Some q, bs' @ [Blk p' s' True]) \<and>
      s \<le> s' + tot + hdr + hp"
proof (induction "length bs + sum_list (map b_size bs)" arbitrary: bs rule: less_induct)
  case less
  show ?case
  proof (cases bs)
    case Nil
    then have "hdr dvd p" using less.prems by simp
    then obtain q bs' p' s' where "ff_alloc hp hdr thr elem tot [Blk p s True] = (Some q, bs' @ [Blk p' s' True])"
      "s \<le> s' + tot + hdr + hp" by (rule ff_alloc_last [OF plain al(1) _ al(2-4) room])
    with Nil show ?thesis by auto
  next
    case (Cons b cs)
    obtain q t f where b: "b = Blk q t f" by (cases b)
    let ?final = "[Blk p s True]"
    have c: "aligned hdr (cs @ ?final)" "hdr dvd q" using less.prems Cons b by simp_all
    consider (walk) "\<not> (f \<and> tot + hdr \<le> t)"
      | (skip) "f" "tot + hdr \<le> t" "hp - q mod hp < tot + hdr" "(hp - q mod hp - hdr) mod elem \<noteq> 0"
      | (fit) "f" "tot + hdr \<le> t" "\<not> (hp - q mod hp < tot + hdr \<and> (hp - q mod hp - hdr) mod elem \<noteq> 0)" by blast
    then show ?thesis
    proof cases
      case walk
      have "\<exists>x bs' p' s'. ff_alloc hp hdr thr elem tot (cs @ ?final) = (Some x, bs' @ [Blk p' s' True]) \<and>
          s \<le> s' + tot + hdr + hp"
        by (rule less.hyps [OF _ c(1)]) (simp add: Cons)
      then obtain x bs' p' s' where "ff_alloc hp hdr thr elem tot (cs @ ?final) = (Some x, bs' @ [Blk p' s' True])"
        "s \<le> s' + tot + hdr + hp" by blast
      then show ?thesis
        by (intro exI [of _ x] exI [of _ "Blk q t f # bs'"] exI [of _ p'] exI [of _ s'])
          (simp add: Cons b ff_alloc_walk [OF walk])
    next
      case skip
      define d where "d = (hp - q mod hp - hdr) mod elem"
      have d: "hdr + d = hp - q mod hp" unfolding d_def by (rule plain_skip [OF plain al(1) c(2) al(4,2) skip(3,4)])
      have nz: "d \<noteq> 0" "hdr + d \<le> t" using skip(2-4) d d_def by simp_all
      let ?n = "Blk (q + hdr + d) (t - hdr - d) True"
      have "hdr dvd q + hdr + d" using c(2) dvd_remaining(1) [OF al(1) c(2) al(4)] d by (simp add: add.assoc)
      then have a: "aligned hdr ((?n # cs) @ ?final)" using c(1) by simp
      have "\<exists>x bs' p' s'. ff_alloc hp hdr thr elem tot ((?n # cs) @ ?final) = (Some x, bs' @ [Blk p' s' True]) \<and>
          s \<le> s' + tot + hdr + hp"
        by (rule less.hyps [OF _ a]) (use nz Cons b al(2) in simp)
      then obtain x bs' p' s' where "ff_alloc hp hdr thr elem tot (?n # cs @ ?final) = (Some x, bs' @ [Blk p' s' True])"
        "s \<le> s' + tot + hdr + hp" by auto
      then show ?thesis
        by (intro exI [of _ x] exI [of _ "Blk q d True # bs'"] exI [of _ p'] exI [of _ s'])
          (simp add: Cons b skip(1) ff_alloc_skip [OF skip(2,3) d_def [symmetric] nz(1)])
    next
      case fit
      then show ?thesis
        by (intro exI [of _ q] exI [of _ "(if thr < t - tot - hdr then [Blk q tot False, Blk (q + hdr + tot) (t - tot - hdr) True]
              else [Blk q t False]) @ cs"] exI [of _ p] exI [of _ s])
          (simp add: Cons b ff_alloc_fit [OF fit(2,3)])
    qed
  qed
qed

section \<open>The heap\<close>

definition room :: "hostmem_heap \<Rightarrow> nat \<Rightarrow> bool" where
  "room heap m \<longleftrightarrow> (\<exists>bs p s. heap_blocks heap (bs @ [Blk p s True]) \<and> m \<le> s)"

lemma room_le: "room heap m \<Longrightarrow> n \<le> m \<Longrightarrow> room heap n"
  unfolding room_def using order_trans by blast

lemma fresh_heap_room: "hostmem_config_ok cfg \<Longrightarrow> space_ok v (unat sz) \<Longrightarrow> room (fresh_heap v sz cfg lut) (unat sz)"
  using fresh_heap_blocks [of cfg v sz lut] unfolding room_def by (metis append_Nil order_refl)

text \<open>What a request takes off the room.\<close>

abbreviation cost :: "hostmem_heap \<Rightarrow> nat \<Rightarrow> nat" where
  "cost heap tot \<equiv> tot + pg heap + hpg heap"

lemma room_first_fit:
  assumes "plain_request (hpg heap) (pg heap) elem tot" "heap_blocks heap (bs @ [Blk p s True])"
    and "cost heap tot + hpg heap \<le> m" "m \<le> s" "24 < hpg heap"
  obtains q bs' p' s' where "ff_alloc (hpg heap) (pg heap) 24 elem tot (bs @ [Blk p s True]) = (Some q, bs' @ [Blk p' s' True])"
    "m - cost heap tot \<le> s'"
proof -
  have cfg: "hostmem_config_ok (config heap)" and al: "aligned (pg heap) (bs @ [Blk p s True])"
    using assms(2) by (simp_all add: heap_blocks_def)
  note pages = config_pages [OF cfg]
  have "tot + pg heap + 2 * hpg heap \<le> s" using assms(3,4) by linarith
  from ff_alloc_room [OF assms(1) pages(2,8) assms(5) pages(3) this al] obtain q bs' p' s' where
    r: "ff_alloc (hpg heap) (pg heap) 24 elem tot (bs @ [Blk p s True]) = (Some q, bs' @ [Blk p' s' True])"
    "s \<le> s' + tot + pg heap + hpg heap" by blast
  from that [OF r(1)] r(2) assms(4) show thesis by linarith
qed

lemma hugepage_over_header: "hostmem_config_ok (config heap) \<Longrightarrow> 24 < hpg heap"
  using config_pages(1,7) [of heap] by simp

lemma malloc_room:
  assumes "room heap m" "cost heap (page_round (pg heap) (unat n)) + hpg heap \<le> m" "dma_size_ok n" "n \<noteq> 0"
    and "hostmem_dma_malloc dbg heap n = Some (r, heap')"
  shows "\<exists>p. r = Inr p" "room heap' (m - cost heap (page_round (pg heap) (unat n)))"
proof -
  obtain bs p s where b: "heap_blocks heap (bs @ [Blk p s True])" "m \<le> s" using assms(1) by (auto simp: room_def)
  have cfg: "hostmem_config_ok (config heap)" using b(1) by (simp add: heap_blocks_def)
  have "plain_request (hpg heap) (pg heap) (pg heap) (page_round (pg heap) (unat n))" by (simp add: plain_request_def)
  from room_first_fit [OF this b(1) assms(2) b(2) hugepage_over_header [OF cfg]]
  obtain q bs' p' s' where f: "ff_alloc (hpg heap) (pg heap) 24 (pg heap) (page_round (pg heap) (unat n)) (bs @ [Blk p s True]) =
      (Some q, bs' @ [Blk p' s' True])" "m - cost heap (page_round (pg heap) (unat n)) \<le> s'" by blast
  have "unat n + 2 * pg heap \<le> 2 ^ 64" using assms(3) config_pages(4,7) [OF cfg] unfolding dma_size_ok_def by simp
  from heap_alloc_refines [OF b(1) this, of dbg] assms(4,5) f(1)
  have "r = Inr (virt heap + of_nat (q + pg heap))" "heap_blocks heap' (bs' @ [Blk p' s' True])"
    by (auto simp: hostmem_dma_malloc_def)
  with f(2) show "\<exists>p. r = Inr p" "room heap' (m - cost heap (page_round (pg heap) (unat n)))"
    unfolding room_def by blast+
qed

lemma array_room:
  assumes "room heap m" "cost heap (unat cnt * unat elem) + hpg heap \<le> m" "hostmem_request_ok heap (Array cnt elem)"
    and "plain_request (hpg heap) (pg heap) (unat elem) (unat cnt * unat elem)" "elem \<noteq> 0" "cnt \<noteq> 0"
    and "hostmem_dma_alloc_array dbg heap cnt elem = Some (r, heap')"
  shows "\<exists>p. r = Inr p" "room heap' (m - cost heap (unat cnt * unat elem))" "same_heap heap heap'"
proof -
  obtain bs p s where b: "heap_blocks heap (bs @ [Blk p s True])" "m \<le> s" using assms(1) by (auto simp: room_def)
  have cfg: "hostmem_config_ok (config heap)" using b(1) by (simp add: heap_blocks_def)
  from room_first_fit [OF assms(4) b(1) assms(2) b(2) hugepage_over_header [OF cfg]]
  obtain q bs' p' s' where f: "ff_alloc (hpg heap) (pg heap) 24 (unat elem) (unat cnt * unat elem) (bs @ [Blk p s True]) =
      (Some q, bs' @ [Blk p' s' True])" "m - cost heap (unat cnt * unat elem) \<le> s'" by blast
  have "unat cnt * unat elem + pg heap < 2 ^ 64" using assms(3) config_pages(4,7) [OF cfg] by simp
  from heap_alloc_array_refines [OF b(1) _ assms(5) this, of dbg] assms(3,5,6,7) f(1)
  have "r = Inr (virt heap + of_nat (q + pg heap))" "heap_blocks heap' (bs' @ [Blk p' s' True])" "same_heap heap heap'"
    by (auto simp: hostmem_dma_alloc_array_def)
  with f(2) show "\<exists>p. r = Inr p" "room heap' (m - cost heap (unat cnt * unat elem))" "same_heap heap heap'"
    unfolding room_def by blast+
qed

section \<open>Release\<close>

text \<open>The blocks of a heap are determined by its store, so releasing memory leaves the room there is.\<close>

lemma repr_unique:
  "\<lbrakk> repr v st p bs; tiles hdr S q bs; repr v st p cs; tiles hdr S q cs; S < 2 ^ 64 \<rbrakk> \<Longrightarrow> bs = cs"
proof (induction bs arbitrary: p q cs)
  case (Cons b bs)
  from Cons.prems(4) obtain c cs' where cs: "cs = c # cs'" by (cases cs) auto
  from Cons.prems(1,3) obtain n where n: "repr v st n bs" "repr v st n cs'" "b_free b = b_free c"
    "(of_nat (b_size b) :: u64) = of_nat (b_size c)" by (auto simp: cs)
  have le: "b_size x \<le> S" if "tiles hdr S q (x # xs)" for x xs
    using tiles_offsets [OF that, of x] by simp
  have "b_size b < 2 ^ 64" "b_size c < 2 ^ 64" using le [OF Cons.prems(2)] le [of c cs'] Cons.prems(4,5) unfolding cs by linarith+
  then have "b_size b = b_size c" using n(4) unat_of_nat_u64 by metis
  moreover have "b_off b = b_off c" using Cons.prems(2,4) by (simp add: cs)
  ultimately have eq: "b = c" using n(3) by (cases b; cases c) simp
  have z: "xs = [] \<longleftrightarrow> x = 0" if "repr v st x xs" for x xs using that by (cases xs) auto
  have "bs = cs'"
  proof (cases "bs = []")
    case True
    with z [OF n(1)] z [OF n(2)] show ?thesis by simp
  next
    case False
    with z [OF n(1)] z [OF n(2)] have ne: "cs' \<noteq> []" by simp
    show ?thesis
      by (rule Cons.IH [OF n(1) _ n(2) _ Cons.prems(5)]) (use Cons.prems(2,4) False ne eq in \<open>simp_all add: cs\<close>)
  qed
  with eq cs show ?case by simp
qed simp

lemma heap_blocks_unique: "heap_blocks heap bs \<Longrightarrow> heap_blocks heap cs \<Longrightarrow> bs = cs"
  using repr_unique unat_u64_bound [of "memsize heap"] unfolding heap_blocks_def by blast

lemma ff_coalesce_final:
  "bs \<noteq> [] \<Longrightarrow> b_free (last bs) \<Longrightarrow> b_free (last (ff_coalesce hdr bs)) \<and> b_size (last bs) \<le> b_size (last (ff_coalesce hdr bs))"
  by (induction hdr bs rule: ff_coalesce.induct) (auto split: if_splits)

lemma ff_free_final:
  assumes "bs \<noteq> []" "b_free (last bs)"
  shows "b_free (last (ff_free hdr q bs)) \<and> b_size (last bs) \<le> b_size (last (ff_free hdr q bs))"
proof -
  have "b_free (last (ff_mark q bs))" "b_size (last (ff_mark q bs)) = b_size (last bs)"
    using assms by (simp_all add: ff_mark_def last_map)
  with ff_coalesce_final [of "ff_mark q bs" hdr] assms(1) show ?thesis by (simp add: ff_free_def)
qed

lemma room_blocks: "room heap m \<longleftrightarrow> (\<exists>bs. heap_blocks heap bs \<and> bs \<noteq> [] \<and> b_free (last bs) \<and> m \<le> b_size (last bs))"
proof
  assume "\<exists>bs. heap_blocks heap bs \<and> bs \<noteq> [] \<and> b_free (last bs) \<and> m \<le> b_size (last bs)"
  then obtain bs where b: "heap_blocks heap bs" "bs \<noteq> []" "b_free (last bs)" "m \<le> b_size (last bs)" by blast
  have "last bs = Blk (b_off (last bs)) (b_size (last bs)) True" using b(3) by (cases "last bs") simp
  then have "bs = butlast bs @ [Blk (b_off (last bs)) (b_size (last bs)) True]" using b(2) by (metis append_butlast_last_id)
  with b(1,4) show "room heap m" unfolding room_def by metis
qed (force simp: room_def)

lemma heap_owns_free_room:
  assumes "heap_owns heap ((p, n) # ps)" "room heap m"
  obtains heap' where "hostmem_dma_free heap p = Some heap'" "same_heap heap heap'" "heap_owns heap' ps" "room heap' m"
proof -
  obtain heap' where f: "hostmem_dma_free heap p = Some heap'" "same_heap heap heap'" "heap_owns heap' ps"
    by (rule heap_owns_free [OF assms(1)])
  obtain bs where b: "heap_blocks heap bs" "bs \<noteq> []" "b_free (last bs)" "m \<le> b_size (last bs)"
    using assms(2) by (auto simp: room_blocks)
  obtain L where L: "heap_live heap L" "owned_by L ((p, n) # ps)" using assms(1) by (auto simp: heap_owns_def)
  have "L = payloads (unat (virt heap)) (pg heap) bs" using L(1) heap_blocks_unique [OF b(1)] by (auto simp: heap_live_def)
  with owned_by_drop(1) [OF L(2)] have "unat p \<in> fst ` set (payloads (unat (virt heap)) (pg heap) bs)" by simp
  then obtain x where x: "heap_blocks heap' (ff_free (pg heap) x bs)"
    by (rule heap_free_blocks [OF b(1)]) (use f(1) in \<open>auto simp: hostmem_dma_free_def\<close>)
  moreover have "ff_free (pg heap) x bs \<noteq> []" using b(2) by (simp add: ff_free_def)
  ultimately have "room heap' m" using ff_free_final [OF b(2,3), of "pg heap" x] b(4) order_trans unfolding room_blocks by blast
  with f that show thesis by blast
qed

lemma qpair_term_room:
  assumes "heap_owns heap (qpair_mem page qp @ ps)" "qpair_live qp" "room heap m"
  obtains heap' where "nvme_qpair_term qp heap = Some (qp\<lparr>qp_rpool := Dangling\<rparr>, heap')"
    "same_heap heap heap'" "heap_owns heap' ps" "room heap' m"
proof -
  obtain pool where pool: "qp_rpool qp = Live pool" using assms(2) by (auto simp: qpair_live_def)
  have "heap_owns heap ((prps pool, NVME_REQUEST_POOL_LEN * page) # (qp_sq qp, 65536) # (qp_cq qp, 65536) # ps)"
    using assms(1) pool by (simp add: qpair_mem_def)
  then obtain h1 where h1: "hostmem_dma_free heap (prps pool) = Some h1" "same_heap heap h1"
    "heap_owns h1 ((qp_sq qp, 65536) # (qp_cq qp, 65536) # ps)" "room h1 m" by (rule heap_owns_free_room [OF _ assms(3)])
  obtain h2 where h2: "hostmem_dma_free h1 (qp_sq qp) = Some h2" "same_heap h1 h2"
    "heap_owns h2 ((qp_cq qp, 65536) # ps)" "room h2 m" by (rule heap_owns_free_room [OF h1(3,4)])
  obtain h3 where "hostmem_dma_free h2 (qp_cq qp) = Some h3" "same_heap h2 h3" "heap_owns h3 ps" "room h3 m"
    by (rule heap_owns_free_room [OF h2(3,4)])
  with h1 h2 pool that show thesis
    by (auto simp: nvme_qpair_term_def nvme_request_pool_term_prps_def same_heap_def)
qed

section \<open>A queue pair\<close>

text \<open>Two rings of 64 KiB and the pages of the request pool. A hugepage holds a ring and a header.\<close>

definition qpair_cost :: "hostmem_heap \<Rightarrow> nat" where
  "qpair_cost heap = 2 * cost heap 65536 + cost heap (NVME_REQUEST_POOL_LEN * pg heap)"

lemma take_twice: "2 * a + b + c \<le> m \<Longrightarrow> b + c \<le> m - a - (a :: nat)"
  by simp

lemma ring_room:
  assumes "room heap m" "cost heap 65536 + hpg heap \<le> m" "qpair_heap heap" "2 ^ 17 \<le> hpg heap"
    and "hostmem_dma_alloc_array dbg heap 1 QPAIR_NBYTES = Some (r, heap')"
  shows "\<exists>p. r = Inr p" "room heap' (m - cost heap 65536)" "same_heap heap heap'"
proof -
  have n: "unat (1 :: u64) * unat QPAIR_NBYTES = 65536" by (simp add: QPAIR_NBYTES_def)
  have bits: "page_bits heap \<le> 16" "dma_heap heap" using assms(3) by (simp_all add: qpair_heap_def)
  have "pg heap dvd 2 ^ 16" unfolding buffers_sizes(4) [OF bits(2)] by (rule le_imp_power_dvd [OF bits(1)])
  then have d: "pg heap dvd 65536" by simp
  then have "pg heap \<le> 65536" by (rule dvd_imp_le) simp
  with d have plain: "plain_request (hpg heap) (pg heap) (unat QPAIR_NBYTES) (unat (1 :: u64) * unat QPAIR_NBYTES)"
    using assms(4) unfolding n plain_request_def by (simp add: QPAIR_NBYTES_def)
  note ar = array_room [OF assms(1) _ ring_request_ok [OF assms(3)] plain _ _ assms(5), unfolded n, OF assms(2)]
  show "\<exists>p. r = Inr p" "room heap' (m - cost heap 65536)" "same_heap heap heap'"
    by (rule ar; simp add: QPAIR_NBYTES_def)+
qed

lemma prps_room:
  assumes "room heap m" "cost heap (NVME_REQUEST_POOL_LEN * pg heap) + hpg heap \<le> m"
    and "nvme_request_pool_init_prps dbg pool heap = Some (ret, e, pool', heap')"
  shows "ret = 0" "room heap' (m - cost heap (NVME_REQUEST_POOL_LEN * pg heap))"
proof -
  let ?el = "size_of_int (pagesize (config heap))" and ?n = "of_nat NVME_REQUEST_POOL_LEN :: u64"
  have cfg: "hostmem_config_ok (config heap)" using assms(1) by (auto simp: room_def heap_blocks_def)
  note req = prps_request_ok [OF cfg] and pages = config_pages [OF cfg]
  have n: "unat ?n * unat ?el = NVME_REQUEST_POOL_LEN * pg heap" by (simp only: req(2) pages(5))
  have nz: "?el \<noteq> 0" "?n \<noteq> 0" using pages(5,8) req(2) by (auto simp: NVME_REQUEST_POOL_LEN_def)
  have plain: "plain_request (hpg heap) (pg heap) (unat ?el) (unat ?n * unat ?el)" by (simp add: plain_request_def pages(5))
  obtain r h where al: "hostmem_dma_alloc_array dbg heap ?n ?el = Some (r, h)" "h = heap'" "(\<exists>p. r = Inr p) \<longrightarrow> ret = 0"
    using assms(3) by (auto simp: nvme_request_pool_init_prps_def split: Option.bind_split_asm prod.split_asm sum.split_asm)
  from array_room [OF assms(1) _ req(1) plain nz al(1), unfolded n, OF assms(2)] al(2,3)
  show "ret = 0" "room heap' (m - cost heap (NVME_REQUEST_POOL_LEN * pg heap))" by blast+
qed

text \<open>On a heap with room enough only \<open>calloc\<close> can keep a queue pair from being set up, and the pool is then
  not left dangling.\<close>

lemma qpair_init_room:
  assumes "room heap m" "qpair_cost heap + hpg heap \<le> m" "qpair_heap heap" "2 ^ 17 \<le> hpg heap"
    and "nvme_qpair_init dbg hw calloc_ok qp qid depth heap d = Some (ret, qp', heap', d')"
  shows "ret = (if calloc_ok then 0 else - ENOMEM) \<and> qp_rpool qp' \<noteq> Dangling \<and> (calloc_ok \<longrightarrow> room heap' (m - qpair_cost heap))"
proof -
  obtain r1 heap1 where a1: "hostmem_dma_alloc_array dbg heap 1 QPAIR_NBYTES = Some (r1, heap1)"
    using assms(5) by (auto simp: nvme_qpair_init_def Let_def split: Option.bind_split_asm prod.split_asm)
  note s1 = ring_room [OF assms(1) _ assms(3,4) a1]
  have c: "cost heap 65536 + hpg heap \<le> m" using assms(2) by (simp add: qpair_cost_def)
  obtain sq where sq: "r1 = Inr sq" "room heap1 (m - cost heap 65536)" "same_heap heap heap1" using s1 [OF c] by blast
  have same: "pg heap1 = pg heap" "hpg heap1 = hpg heap" using sq(3) by (simp_all add: same_heap_def)
  obtain r2 heap2 where a2: "hostmem_dma_alloc_array dbg heap1 1 QPAIR_NBYTES = Some (r2, heap2)"
    using assms(5) a1 sq(1) by (auto simp: nvme_qpair_init_def Let_def split: Option.bind_split_asm prod.split_asm)
  have c1: "cost heap1 65536 + hpg heap1 \<le> m - cost heap 65536" using assms(2) by (simp add: qpair_cost_def same)
  have h1: "qpair_heap heap1" using assms(3) qpair_heap_same [OF sq(3)] by simp
  have g1: "2 ^ 17 \<le> hpg heap1" unfolding same(2) by (rule assms(4))
  from ring_room [OF sq(2) c1 h1 g1 a2] obtain cq where cq: "r2 = Inr cq" "room heap2 (m - cost heap 65536 - cost heap1 65536)"
    "same_heap heap1 heap2" by blast
  have same2: "pg heap2 = pg heap" "hpg heap2 = hpg heap" using cq(3) same by (simp_all add: same_heap_def)
  have c2: "cost heap2 (NVME_REQUEST_POOL_LEN * pg heap2) + hpg heap2 \<le> m - cost heap 65536 - cost heap1 65536"
    using assms(2) unfolding qpair_cost_def same same2 by (rule take_twice)
  have left: "m - cost heap 65536 - cost heap1 65536 - cost heap2 (NVME_REQUEST_POOL_LEN * pg heap2) = m - qpair_cost heap"
    unfolding qpair_cost_def same same2 by simp
  have pool: "ret' = 0" "room h' (m - qpair_cost heap)" if "nvme_request_pool_init_prps dbg p heap2 = Some (ret', e, p', h')" for p ret' e p' h'
    using prps_room [OF cq(2) c2 that] unfolding left .
  show ?thesis
    using assms(5) a1 a2 sq(1) cq(1)
    by (auto simp: nvme_qpair_init_def Let_def split: Option.bind_split_asm prod.split_asm if_split_asm dest: pool)
qed

end
