(* ===== verification/Nvme_Controller_Vfio_Props.thy ===== *)
theory Nvme_Controller_Vfio_Props
  imports Nvme_Controller_Vfio Nvme_Controller_Runs
begin

unbundle bit_operations_syntax

text \<open>
  A controller behind VFIO: opening gives back what it took when it fails, closing gives back what
  opening took, with the one exception that is spelled out, and the heap is where the device
  looks for it.
\<close>

section \<open>What the VFIO state holds\<close>

definition ctx_fds :: "vfio_ctx \<Rightarrow> int set" where
  "ctx_fds v = {fd \<in> {vc_fd (vx_container v), vg_fd (vx_group v), vx_device_fd v}. 0 \<le> fd}"

text \<open>Since \<open>k0\<close> the descriptors and the mapping of \<open>v\<close> were opened and no others.\<close>

definition ctx_owns :: "('k \<Rightarrow> int set) \<Rightarrow> ('k \<Rightarrow> (u64 \<times> u64) set) \<Rightarrow> 'k \<Rightarrow> vfio_ctx \<Rightarrow> 'k \<Rightarrow> bool" where
  "ctx_owns fds maps k0 v k \<longleftrightarrow> ctx_fds v \<inter> fds k0 = {} \<and> fds k = fds k0 \<union> ctx_fds v \<and>
     (if vx_bar0 v = 0 then maps k = maps k0
      else vx_bar0_size v \<noteq> 0 \<and> (vx_bar0 v, vx_bar0_size v) \<notin> maps k0 \<and>
        maps k = insert (vx_bar0 v, vx_bar0_size v) (maps k0))"

lemma ctx_owns_quiet: "ctx_owns fds maps k0 v k \<Longrightarrow> quiet fds maps k r k' \<Longrightarrow> ctx_owns fds maps k0 v k'"
  by (simp add: ctx_owns_def quiet_def)

lemma ctx_owns_init: "ctx_owns fds maps k0 nvme_vfio_ctx_init k0"
  by (auto simp: ctx_owns_def nvme_vfio_ctx_init_def ctx_fds_def)

lemma ctx_owns_status [simp]:
  "ctx_owns fds maps k0 (v\<lparr>vx_group := grp\<lparr>vg_status := st\<rparr>\<rparr>) k = ctx_owns fds maps k0 (v\<lparr>vx_group := grp\<rparr>) k"
  "ctx_owns fds maps k0 (v\<lparr>vx_iommu_set := b\<rparr>) k = ctx_owns fds maps k0 v k"
  by (simp_all add: ctx_owns_def ctx_fds_def)

lemma map_pages_keeps:
  assumes "vfio_lawful os fds maps" "\<forall>i \<in> set is. i < length (phys_lut heap)"
  obtains err k' where "map_pages os c heap is k = Some (err, k')" "quiet fds maps k (Inr ()) k'"
proof -
  have "\<exists>err k'. map_pages os c heap is k = Some (err, k') \<and> quiet fds maps k (Inr ()) k'"
    using assms(2)
  proof (induction "is" arbitrary: k)
    case Nil
    then show ?case by (simp add: quiet_def)
  next
    case (Cons i "is")
    obtain r k1 where r: "io_iommu_map_dma os k (vc_fd c)
         \<lparr>vm_flags = VFIO_DMA_MAP_FLAG_READ OR VFIO_DMA_MAP_FLAG_WRITE,
          vm_vaddr = virt heap + of_nat i * size_of_int (hugepgsz (config heap)),
          vm_iova = phys_lut heap ! i, vm_size = size_of_int (hugepgsz (config heap))\<rparr> = (r, k1)"
      by (rule prod.exhaust)
    note q = vfio_lawfulD(16) [OF assms(1) r]
    from Cons r q show ?case
      by (cases r) (auto simp: vfio_iommu_map_dma_def quiet_def, metis)
  qed
  then show thesis using that by blast
qed

lemma unmap_pages_keeps:
  assumes "vfio_lawful os fds maps" "\<forall>i \<in> set is. i < length (phys_lut heap)"
  obtains err' k' where "unmap_pages os c heap is err k = Some (err', k')" "quiet fds maps k (Inr ()) k'"
proof -
  have "\<exists>err' k'. unmap_pages os c heap is err k = Some (err', k') \<and> quiet fds maps k (Inr ()) k'"
    using assms(2)
  proof (induction "is" arbitrary: k err)
    case Nil
    then show ?case by (simp add: quiet_def)
  next
    case (Cons i "is")
    obtain r k1 where r: "io_iommu_unmap_dma os k (vc_fd c)
         \<lparr>vu_flags = 0, vu_iova = phys_lut heap ! i, vu_size = size_of_int (hugepgsz (config heap))\<rparr> = (r, k1)"
      by (rule prod.exhaust)
    note q = vfio_lawfulD(17) [OF assms(1) r]
    obtain err1 k2 where "unmap_pages os c heap is (case r of Inl e \<Rightarrow> if err = 0 then - e else err | Inr n \<Rightarrow> err) k1 =
        Some (err1, k2)" "quiet fds maps k1 (Inr ()) k2" using Cons by fastforce
    with Cons.prems r q show ?case
      by (cases r) (auto simp: vfio_iommu_unmap_dma_def quiet_def)
  qed
  then show thesis using that by blast
qed

section \<open>Closing\<close>

lemma ctx_close_returns:
  assumes law: "vfio_lawful os fds maps" and len: "length (phys_lut heap) = unat (nphys heap)"
    and own: "ctx_owns fds maps k0 v k"
  shows "\<exists>err k'. nvme_vfio_ctx_close os v heap k = Some (err, nvme_vfio_ctx_init, k') \<and> fds k' = fds k0 \<and> maps k' = maps k0"
proof -
  note l = vfio_lawfulD [OF law]
  define k1 where "k1 = (if vx_bar0 v \<noteq> 0 \<and> vx_bar0_size v \<noteq> 0 then vf_munmap os k (vx_bar0 v) (vx_bar0_size v) else k)"
  have k1: "fds k1 = fds k" "maps k1 = maps k0"
    using own l(5,6) by (auto simp: k1_def ctx_owns_def split: if_split_asm)
  have close: "fds (snd (vf_close os k fd)) = fds k - {fd}" "maps (snd (vf_close os k fd)) = maps k" for k fd
    using l(3) [of k fd] by (cases "vf_close os k fd"; simp)+
  define k2 where "k2 = (if 0 \<le> vx_device_fd v then snd (vf_close os k1 (vx_device_fd v)) else k1)"
  have k2: "fds k2 = fds k - {fd. fd = vx_device_fd v \<and> 0 \<le> fd}" "maps k2 = maps k0"
    using k1 close by (auto simp: k2_def)
  have "\<forall>i \<in> set [0..<unat (nphys heap)]. i < length (phys_lut heap)" using len by simp
  then obtain err k3 where k3: "unmap_pages os (vx_container v) heap [0..<unat (nphys heap)] 0 k2 = Some (err, k3)"
    "quiet fds maps k2 (Inr ()) k3" by (rule unmap_pages_keeps [OF law])
  define r where "r = (if vx_iommu_set v then (err, k3) else (0, k2))"
  have r: "fds (snd r) = fds k2" "maps (snd r) = maps k2" using k3(2) by (simp_all add: r_def quiet_def)
  define k4 where "k4 = (if 0 \<le> vg_fd (vx_group v) then snd (vf_close os (snd r) (vg_fd (vx_group v))) else snd r)"
  have k4: "fds k4 = fds k2 - {fd. fd = vg_fd (vx_group v) \<and> 0 \<le> fd}" "maps k4 = maps k0"
    using r k2(2) close by (auto simp: k4_def)
  define k5 where "k5 = (if 0 \<le> vc_fd (vx_container v) then snd (vf_close os k4 (vc_fd (vx_container v))) else k4)"
  have k5: "fds k5 = fds k4 - {fd. fd = vc_fd (vx_container v) \<and> 0 \<le> fd}" "maps k5 = maps k0"
    using k4(2) close by (auto simp: k5_def)
  have "fds k5 = fds k - ctx_fds v" unfolding k5(1) k4(1) k2(1) ctx_fds_def by auto
  also have "\<dots> = fds k0" using own by (auto simp: ctx_owns_def)
  finally have "fds k5 = fds k0" .
  moreover have "snd (vfio_container_close os c k) = snd (vf_close os k (vc_fd c))" for c k
    by (simp add: vfio_container_close_def split: prod.split sum.split)
  moreover have "snd (vfio_group_close os g k) = snd (vf_close os k (vg_fd g))" for g k
    by (simp add: vfio_group_close_def case_prod_beta)
  ultimately have "nvme_vfio_ctx_close os v heap k = Some (fst r, nvme_vfio_ctx_init, k5) \<and> fds k5 = fds k0 \<and> maps k5 = maps k0"
    using k3(1) k5(2) unfolding nvme_vfio_ctx_close_def Let_def k1_def [symmetric] k2_def [symmetric]
    by (cases "vx_iommu_set v") (simp_all add: r_def k4_def k5_def)
  then show ?thesis by blast
qed

section \<open>Opening\<close>

lemma ctx_owns_fd:
  assumes "ctx_owns fds maps k0 v k" "gives_fd fds maps k (Inr fd) k'"
  shows "vc_fd (vx_container v) < 0 \<longrightarrow> ctx_owns fds maps k0 (v\<lparr>vx_container := (vx_container v)\<lparr>vc_fd := fd\<rparr>\<rparr>) k'"
    "vg_fd (vx_group v) < 0 \<longrightarrow> ctx_owns fds maps k0 (v\<lparr>vx_group := (vx_group v)\<lparr>vg_fd := fd\<rparr>\<rparr>) k'"
    "vx_device_fd v < 0 \<longrightarrow> ctx_owns fds maps k0 (v\<lparr>vx_device_fd := fd\<rparr>) k'"
  using assms by (auto simp: ctx_owns_def ctx_fds_def gives_fd_def)

lemma ctx_owns_no_fd:
  assumes "ctx_owns fds maps k0 v k" "gives_fd fds maps k (Inl e) k'"
  shows "vc_fd (vx_container v) < 0 \<longrightarrow> ctx_owns fds maps k0 (v\<lparr>vx_container := (vx_container v)\<lparr>vc_fd := - 1\<rparr>\<rparr>) k'"
    "vg_fd (vx_group v) < 0 \<longrightarrow> ctx_owns fds maps k0 (v\<lparr>vx_group := (vx_group v)\<lparr>vg_fd := - 1\<rparr>\<rparr>) k'"
    "vx_device_fd v < 0 \<longrightarrow> ctx_owns fds maps k0 (v\<lparr>vx_device_fd := - 1\<rparr>) k'"
  using assms by (auto simp: ctx_owns_def ctx_fds_def gives_fd_def)

text \<open>A part of the opening that holds what it holds, and has not come to the device.\<close>

definition attached :: "('k \<Rightarrow> int set) \<Rightarrow> ('k \<Rightarrow> (u64 \<times> u64) set) \<Rightarrow> 'k \<Rightarrow> (int \<times> vfio_ctx \<times> 'k) option \<Rightarrow> bool" where
  "attached fds maps k0 x \<longleftrightarrow> (\<exists>err v k. x = Some (err, v, k) \<and> ctx_owns fds maps k0 v k \<and>
     vx_device_fd v = - 1 \<and> vx_bar0 v = 0)"

lemma attachedI: "ctx_owns fds maps k0 v k \<Longrightarrow> vx_device_fd v = - 1 \<Longrightarrow> vx_bar0 v = 0 \<Longrightarrow> attached fds maps k0 (Some (err, v, k))"
  by (simp add: attached_def)

lemma group_id_quiet:
  assumes "vfio_lawful os fds maps" "vfio_device_get_iommu_group_id os bdf g k = (err, g', k')"
  shows "quiet fds maps k (Inr ()) k'"
  using assms(2) vfio_lawfulD(7) [OF assms(1)]
  by (auto simp: vfio_device_get_iommu_group_id_def Let_def quiet_def split: prod.split_asm sum.split_asm if_split_asm)

lemma container_open_owns:
  assumes "vfio_lawful os fds maps" "ctx_owns fds maps k0 v k" "vc_fd (vx_container v) < 0"
    and "vfio_container_open os (vx_container v) k = (err, c, k')"
  shows "ctx_owns fds maps k0 (v\<lparr>vx_container := c\<rparr>) k'"
proof -
  obtain r k1 where o: "vf_open os k ''/dev/vfio/vfio'' = (r, k1)" by (rule prod.exhaust)
  note g = vfio_lawfulD(1) [OF assms(1) o]
  from assms(3,4) o g ctx_owns_fd(1) [OF assms(2)] ctx_owns_no_fd(1) [OF assms(2)] show ?thesis
    by (cases r) (auto simp: vfio_container_open_def)
qed

lemma group_open_owns:
  assumes "vfio_lawful os fds maps" "ctx_owns fds maps k0 v k" "vg_fd (vx_group v) < 0"
    and "vfio_group_open os ident (vx_group v) k = (err, grp, k')"
  shows "ctx_owns fds maps k0 (v\<lparr>vx_group := grp\<rparr>) k'"
proof -
  obtain r k1 where o: "vf_open os k (''/dev/vfio/'' @ print_int ident) = (r, k1)" by (rule prod.exhaust)
  note g = vfio_lawfulD(1) [OF assms(1) o]
  from assms(3,4) o g ctx_owns_fd(2) [OF assms(2)] ctx_owns_no_fd(2) [OF assms(2)] show ?thesis
    by (cases r) (auto simp: vfio_group_open_def)
qed

lemma attach_result:
  assumes law: "vfio_lawful os fds maps" and len: "length (phys_lut heap) = unat (nphys heap)"
  shows "attached fds maps k (vfio_attach os bdf nvme_vfio_ctx_init heap k)"
proof -
  note l = vfio_lawfulD [OF law] and step = ctx_owns_quiet
  let ?v = nvme_vfio_ctx_init
  have free: "vc_fd (vx_container ?v) < 0" "vg_fd (vx_group ?v) < 0" "vx_device_fd ?v = - 1" "vx_bar0 ?v = 0"
    by (simp_all add: nvme_vfio_ctx_init_def)
  obtain e1 gid k1 where s1: "vfio_device_get_iommu_group_id os bdf (- 1) k = (e1, gid, k1)" by (rule prod_cases3)
  obtain e2 c k2 where s2: "vfio_container_open os (vx_container ?v) k1 = (e2, c, k2)" by (rule prod_cases3)
  let ?v1 = "?v\<lparr>vx_container := c\<rparr>"
  obtain r3 k3 where s3: "io_get_api_version os k2 (vc_fd c) = (r3, k3)" by (rule prod.exhaust)
  obtain r4 k4 where s4: "io_check_extension os k3 (vc_fd c) VFIO_TYPE1_IOMMU = (r4, k4)" by (rule prod.exhaust)
  obtain e5 grp k5 where s5: "vfio_group_open os gid (vx_group ?v) k4 = (e5, grp, k5)" by (rule prod_cases3)
  obtain r6 st k6 where s6: "io_group_get_status os k5 (vg_fd grp) \<lparr>gs_flags = 0\<rparr> = (r6, st, k6)" by (rule prod_cases3)
  let ?v3 = "?v1\<lparr>vx_group := grp\<lparr>vg_status := st\<rparr>\<rparr>"
  obtain r7 k7 where s7: "io_group_set_container os k6 (vg_fd grp) (vc_fd c) = (r7, k7)" by (rule prod.exhaust)
  obtain r8 k8 where s8: "io_set_iommu os k7 (vc_fd c) VFIO_TYPE1_IOMMU = (r8, k8)" by (rule prod.exhaust)
  have "\<forall>i \<in> set [0..<unat (nphys heap)]. i < length (phys_lut heap)" using len by simp
  then obtain e9 k9 where s9: "map_pages os c heap [0..<unat (nphys heap)] k8 = Some (e9, k9)" "quiet fds maps k8 (Inr ()) k9"
    by (rule map_pages_keeps [OF law])
  have o1: "ctx_owns fds maps k ?v k1" by (rule step [OF ctx_owns_init group_id_quiet [OF law s1]])
  have o2: "ctx_owns fds maps k ?v1 k2" by (rule container_open_owns [OF law o1 free(1) s2])
  have o3: "ctx_owns fds maps k ?v1 k3" by (rule step [OF o2 l(10) [OF s3]])
  have o4: "ctx_owns fds maps k ?v1 k4" by (rule step [OF o3 l(11) [OF s4]])
  have o5: "ctx_owns fds maps k (?v1\<lparr>vx_group := grp\<rparr>) k5"
    by (rule group_open_owns [OF law o4]) (use s5 free(2) in simp_all)
  have o6: "ctx_owns fds maps k ?v3 k6" unfolding ctx_owns_status by (rule step [OF o5 l(13) [OF s6]])
  have o7: "ctx_owns fds maps k ?v3 k7" by (rule step [OF o6 l(14) [OF s7]])
  have o8: "ctx_owns fds maps k ?v3 k8" by (rule step [OF o7 l(12) [OF s8]])
  have o9: "ctx_owns fds maps k (?v3\<lparr>vx_iommu_set := True\<rparr>) k9"
    unfolding ctx_owns_status(2) by (rule step [OF o8 s9(2)])
  have a: "attached fds maps k (Some (e, ?v, k1))" "attached fds maps k (Some (e, ?v1, k2))"
    "attached fds maps k (Some (e, ?v1, k3))" "attached fds maps k (Some (e, ?v1, k4))"
    "attached fds maps k (Some (e, ?v1\<lparr>vx_group := grp\<rparr>, k5))" "attached fds maps k (Some (e, ?v3, k6))"
    "attached fds maps k (Some (e, ?v3, k7))" "attached fds maps k (Some (e, ?v3, k8))"
    "attached fds maps k (Some (e, ?v3\<lparr>vx_iommu_set := True\<rparr>, k9))" for e
    by (rule attachedI, (rule o1 o2 o3 o4 o5 o6 o7 o8 o9), simp add: free, simp add: free)+
  have api: "vfio_get_api_version os c 0 k2 = (if c_ret r3 < 0 then (- EIO, 0, k3) else (0, c_ret r3, k3))"
    by (simp add: vfio_get_api_version_def s3)
  have status: "vfio_group_get_status os grp k5 = (r6, grp\<lparr>vg_status := st\<rparr>, k6)"
    by (simp add: vfio_group_get_status_def s6)
  have rest: "vfio_check_extension os c VFIO_TYPE1_IOMMU k3 = (r4, k4)"
    "vfio_group_set_container os (grp\<lparr>vg_status := st\<rparr>) c k6 = (r7, k7)"
    "vfio_set_iommu os c VFIO_TYPE1_IOMMU k7 = (r8, k8)"
    "vfio_map_heap os (?v3\<lparr>vx_iommu_set := True\<rparr>) heap k8 = Some (e9, k9)"
    by (simp_all add: vfio_check_extension_def vfio_group_set_container_def vfio_set_iommu_def vfio_map_heap_def s4 s7 s8 s9(1))
  have g1: "vx_group ?v1 = vx_group ?v" by simp
  show ?thesis
    by (simp add: vfio_attach_def Let_def s1 s2 s5 rest status api a split: sum.split)
qed

lemma bus_master_quiet:
  assumes "vfio_lawful os fds maps" "nvme_vfio_pci_bus_master_enable os fd k = (err, k')"
  shows "quiet fds maps k (Inr ()) k'"
proof -
  note l = vfio_lawfulD [OF assms(1)]
  obtain r1 info k1 where s1: "vfio_device_get_region_info os fd (region_of VFIO_PCI_CONFIG_REGION_INDEX) k = (r1, info, k1)"
    by (rule prod_cases3)
  obtain r2 k2 where s2: "vf_pread16 os k1 fd (vr_offset info + PCI_COMMAND) = (r2, k2)" by (rule prod.exhaust)
  have q: "quiet fds maps k r1 k1" "quiet fds maps k1 r2 k2"
    using l(15) [OF s1 [unfolded vfio_device_get_region_info_def]] l(8) [OF s2] by simp_all
  have w: "vf_pwrite16 os k2 fd a v = (r3, k3) \<Longrightarrow> quiet fds maps k2 r3 k3" for a v r3 k3 by (rule l(9))
  show ?thesis
    using assms(2) q
    by (auto simp: nvme_vfio_pci_bus_master_enable_def s1 s2 quiet_def
        split: sum.split_asm option.split_asm if_split_asm prod.split_asm dest!: w)
qed

lemma bar0_result:
  assumes law: "vfio_lawful os fds maps" and own: "ctx_owns fds maps k0 v k" "vx_device_fd v = - 1" "vx_bar0 v = 0"
    and bars: "0 < length (pf_bars (nc_func c))"
  obtains err c' v' k' where "vfio_bar0 os bdf c v k = (err, c', v', k')" "ctx_owns fds maps k0 v' k'"
    "nc_aq c' = nc_aq c" "nc_buf c' = nc_buf c" "nc_qids c' = nc_qids c" "err = 0 \<longrightarrow> bar0_mapped c' = Some ()"
proof -
  note l = vfio_lawfulD [OF law]
  obtain r1 k1 where s1: "io_group_get_device_fd os k (vg_fd (vx_group v)) bdf = (r1, k1)" by (rule prod.exhaust)
  note g = l(2) [OF s1]
  have e1: "vfio_group_get_device_fd os (vx_group v) bdf k = (r1, k1)" by (simp add: vfio_group_get_device_fd_def s1)
  show thesis
  proof (cases r1)
    case (Inl e)
    then have "ctx_owns fds maps k0 (v\<lparr>vx_device_fd := - 1\<rparr>) k1" using ctx_owns_no_fd(3) [OF own(1)] g own(2) by simp
    moreover have "e \<noteq> 0" using g Inl by (simp add: gives_fd_def)
    ultimately show thesis using Inl e1
      by (intro that [of "- e" c "v\<lparr>vx_device_fd := - 1\<rparr>" k1]) (simp_all add: vfio_bar0_def)
  next
    case (Inr fd)
    let ?v = "v\<lparr>vx_device_fd := fd\<rparr>"
    have o1: "ctx_owns fds maps k0 ?v k1" using Inr ctx_owns_fd(3) [OF own(1)] g own(2) by simp
    obtain e2 k2 where s2: "nvme_vfio_pci_bus_master_enable os fd k1 = (e2, k2)" by (rule prod.exhaust)
    have o2: "ctx_owns fds maps k0 ?v k2" by (rule ctx_owns_quiet [OF o1 bus_master_quiet [OF law s2]])
    obtain r3 region k3 where s3: "vfio_device_get_region_info os fd (region_of VFIO_PCI_BAR0_REGION_INDEX) k2 = (r3, region, k3)"
      by (rule prod_cases3)
    note q3 = l(15) [OF s3 [unfolded vfio_device_get_region_info_def]]
    have o3: "ctx_owns fds maps k0 ?v k3" by (rule ctx_owns_quiet [OF o2 q3])
    obtain r4 k4 where s4: "vf_mmap os k3 fd (vr_size region) (vr_offset region) = (r4, k4)" by (rule prod.exhaust)
    note m = l(4) [OF s4]
    have e4: "vfio_map_region os fd (vr_size region) (vr_offset region) k3 = (r4, k4)" by (simp add: vfio_map_region_def s4)
    note def = vfio_bar0_def e1 Inr s2 s3 e4 Let_def
    show thesis
    proof (cases "e2 = 0")
      case False
      with o2 show thesis by (intro that [of e2 c ?v k2]) (simp_all add: def)
    next
      case True
      show thesis
      proof (cases r3)
        case r3: (Inl e)
        then have "e \<noteq> 0" using q3 by (simp add: quiet_def)
        with r3 True o3 show thesis by (intro that [of "- e" c ?v k3]) (simp_all add: def)
      next
        case r3: (Inr n)
        show thesis
        proof (cases r4)
          case r4: (Inl e)
          then have "ctx_owns fds maps k0 ?v k4" "e \<noteq> 0" using o3 m own(3) by (auto simp: ctx_owns_def ctx_fds_def)
          with r3 r4 True show thesis by (intro that [of "- e" c ?v k4]) (simp_all add: def)
        next
          case r4: (Inr a)
          let ?c = "c\<lparr>nc_func := (nc_func c)\<lparr>pf_bars := (pf_bars (nc_func c))[0 :=
            \<lparr>pb_size = vr_size region, pb_region = a, pb_id = 0, pb_fd = fd\<rparr>]\<rparr>\<rparr>"
          let ?v' = "?v\<lparr>vx_bar0 := a, vx_bar0_size := vr_size region\<rparr>"
          have "ctx_owns fds maps k0 ?v' k4" using r4 o3 m own(3) by (auto simp: ctx_owns_def ctx_fds_def)
          moreover have "bar0_mapped ?c = Some ()" using r4 m bars by (simp add: bar0_mapped_def)
          ultimately show thesis using r3 r4 True by (intro that [of 0 ?c ?v' k4]) (simp_all add: def)
        qed
      qed
    qed
  qed
qed

text \<open>The initialization is the one of \<open>nvme_controller_open\<close>, whose errors have the other sign.\<close>

lemma vfio_start_open_aq:
  "vfio_start dbg hw calloc_ok c heap d = map_option (\<lambda>(err, r). (- err, r)) (open_aq dbg hw calloc_ok c heap d)"
proof -
  obtain cap d1 where cap: "nvme_mmio_cap_read hw d = (cap, d1)" by (rule prod.exhaust)
  define t where "t = uint (nvme_reg_cap_get_to cap) * 500"
  obtain e d3 where w: "nvme_mmio_csts_wait_until_not_ready hw (nvme_mmio_cc_disable hw d1) t = (e, d3)" by (rule prod.exhaust)
  note def = vfio_start_def open_aq_def Let_def cap prod.case t_def [symmetric] w
  show ?thesis
  proof (cases "e = 0")
    case True
    show ?thesis
    proof (cases "nvme_qpair_init dbg hw calloc_ok (nc_aq c) 0 256 heap d3")
      case (Some r)
      obtain e2 aq heap1 d4 where r: "r = (e2, aq, heap1, d4)" by (rule prod_cases4)
      obtain e3 d7 where "nvme_mmio_csts_wait_until_ready hw (nvme_mmio_cc_write hw (nvme_mmio_aq_setup hw d4
          (the (hostmem_dma_v2p heap1 (qp_sq aq))) (the (hostmem_dma_v2p heap1 (qp_cq aq))) (ucast (qp_depth aq)))
          (enable_cc cap)) t = (e3, d7)" by (rule prod.exhaust)
      with True Some r show ?thesis
        by (cases "e2 = 0"; cases "hostmem_dma_v2p heap1 (qp_sq aq)"; cases "hostmem_dma_v2p heap1 (qp_cq aq)"; cases "e3 = 0")
          (simp_all add: def)
    qed (use True in \<open>simp add: def\<close>)
  qed (simp add: def)
qed

lemma steps_result:
  assumes law: "vfio_lawful os fds maps" and mem: "heap_owns heap ps" "qpair_heap heap" and hw: "stride_ok hw"
    and c: "nc_aq c = zero_qpair" "0 < length (pf_bars (nc_func c))"
  obtains (no_aq) err c' v heap' d' k' where
      "vfio_open_steps dbg hw os calloc_ok bdf c heap d k = Some (err, c', v, heap', d', k')"
      "ctx_owns fds maps k v k'" "nc_buf c' = nc_buf c" "same_heap heap heap'"
      "err \<noteq> 0" "qp_rpool (nc_aq c') \<in> {Null, Dangling}" "heap_owns heap' ps"
    | (with_aq) err c' v heap' d' k' where
      "vfio_open_steps dbg hw os calloc_ok bdf c heap d k = Some (err, c', v, heap', d', k')"
      "ctx_owns fds maps k v k'" "nc_buf c' = nc_buf c" "same_heap heap heap'"
      "qid_wf (nc_qids c) \<longrightarrow> controller_ready c'" "nc_qids c' = nc_qids c" "qpair_live (nc_aq c')"
      "heap_owns heap' (qpair_mem (pg heap) (nc_aq c') @ ps)" "free_cids (qpair_pool (nc_aq c')) = all_cids"
proof -
  have len: "length (phys_lut heap) = unat (nphys heap)" using mem(2) by (simp add: qpair_heap_def dma_heap_def lut_ok_def)
  obtain e1 v1 k1 where a: "vfio_attach os bdf nvme_vfio_ctx_init heap k = Some (e1, v1, k1)" "ctx_owns fds maps k v1 k1"
    "vx_device_fd v1 = - 1" "vx_bar0 v1 = 0"
    using attach_result [OF law len, of k bdf] by (auto simp: attached_def)
  obtain e2 c2 v2 k2 where b: "vfio_bar0 os bdf c v1 k1 = (e2, c2, v2, k2)" "ctx_owns fds maps k v2 k2"
    "nc_aq c2 = nc_aq c" "nc_buf c2 = nc_buf c" "nc_qids c2 = nc_qids c" "e2 = 0 \<longrightarrow> bar0_mapped c2 = Some ()"
    by (rule bar0_result [OF law a(2-4) c(2)])
  have same: "same_heap heap heap" by (simp add: same_heap_def)
  note def = vfio_open_steps_def a(1) b(1) Let_def vfio_start_open_aq
  show thesis
  proof (cases "e1 = 0 \<and> e2 = 0")
    case False
    then show thesis
    proof (cases "e1 = 0")
      case True
      with False b c(1) same mem(1) show thesis by (intro no_aq [of e2 c2 v2 heap d k2]) (simp_all add: def)
    next
      case False
      with a c(1) same mem(1) show thesis by (intro no_aq [of e1 c v1 heap d k1]) (simp_all add: def)
    qed
  next
    case True
    have aq: "nc_aq c2 = zero_qpair" using b(3) c(1) by simp
    from mem hw aq show thesis
    proof (cases rule: open_aq_result [where dbg = dbg and calloc_ok = calloc_ok and d = d])
      case (failed e aq t heap' d')
      with True b show thesis
        by (intro no_aq [of "- e" "c2\<lparr>nc_timeout_ms := t, nc_aq := aq\<rparr>" v2 heap' d' k2]) (simp_all add: def)
    next
      case (set_up e aq t heap' d')
      let ?c = "c2\<lparr>nc_timeout_ms := t, nc_aq := aq\<rparr>"
      have "qid_wf (nc_qids c) \<longrightarrow> controller_ready ?c"
        using b(5,6) True set_up(3,4) by (simp add: controller_ready_def bar0_mapped_def)
      with True b set_up show thesis by (intro with_aq [of "- e" ?c v2 heap' d' k2]) (simp_all add: def)
    qed
  qed
qed

section \<open>Closing a controller\<close>

text \<open>Closing gives back what is held: what \<open>mem\<close> lists and the VFIO state owns.\<close>

definition gives_back ::
  "('k \<Rightarrow> int set) \<Rightarrow> ('k \<Rightarrow> (u64 \<times> u64) set) \<Rightarrow> (u64 \<times> nat) list \<Rightarrow> 'k \<Rightarrow>
   (int \<times> nvme_controller \<times> vfio_ctx \<times> hostmem_heap \<times> 'd \<times> 'k) option \<Rightarrow> bool" where
  "gives_back fds maps ps k0 x \<longleftrightarrow> (\<exists>err heap d k. x = Some (err, zero_controller, nvme_vfio_ctx_init, heap, d, k) \<and>
     heap_owns heap ps \<and> fds k = fds k0 \<and> maps k = maps k0)"

lemma close_vfio_gives_back:
  assumes law: "vfio_lawful os fds maps" and heap: "qpair_heap heap" and own: "ctx_owns fds maps k0 v k" and buf: "nc_buf c \<noteq> 0"
    and aq: "qp_rpool (nc_aq c) = Null \<and> heap_owns heap ((nc_buf c, 4096) # ps) \<or>
      qpair_live (nc_aq c) \<and> heap_owns heap (qpair_mem page (nc_aq c) @ (nc_buf c, 4096) # ps)"
  shows "gives_back fds maps ps k0 (nvme_controller_close_vfio hw os c v heap d k)"
proof -
  obtain err d1 where dis: "nvme_controller_disable_vfio hw c v d = (err, d1)" by (rule prod.exhaust)
  obtain h1 where h1: "(case qp_rpool (nc_aq c) of Null \<Rightarrow> Some heap
      | _ \<Rightarrow> do { (aq, h) \<leftarrow> nvme_qpair_term (nc_aq c) heap; Some h }) = Some h1"
    "same_heap heap h1" "heap_owns h1 ((nc_buf c, 4096) # ps)"
  proof (cases "qpair_live (nc_aq c)")
    case True
    then obtain pool where pool: "qp_rpool (nc_aq c) = Live pool" by (auto simp: qpair_live_def)
    with aq have "heap_owns heap (qpair_mem page (nc_aq c) @ (nc_buf c, 4096) # ps)" by simp
    then obtain h where "nvme_qpair_term (nc_aq c) heap = Some ((nc_aq c)\<lparr>qp_rpool := Dangling\<rparr>, h)" "same_heap heap h"
      "heap_owns h ((nc_buf c, 4096) # ps)" by (rule qpair_term_owns [OF _ True])
    with pool that show thesis by simp
  qed (use aq that in \<open>simp add: same_heap_def\<close>)
  from h1(3) obtain h2 where h2: "hostmem_dma_free h1 (nc_buf c) = Some h2" "same_heap h1 h2" "heap_owns h2 ps"
    by (rule heap_owns_free)
  have "length (phys_lut h2) = unat (nphys h2)"
    using heap h1(2) h2(2) by (simp add: qpair_heap_def dma_heap_def lut_ok_def same_heap_def)
  from ctx_close_returns [OF law this own] obtain e k' where
    "nvme_vfio_ctx_close os v h2 k = Some (e, nvme_vfio_ctx_init, k')" "fds k' = fds k0" "maps k' = maps k0" by blast
  with dis h1(1) h2(1,3) buf show ?thesis
    by (simp add: gives_back_def nvme_controller_close_vfio_def)
qed

lemma close_vfio_dangling: "qp_rpool (nc_aq c) = Dangling \<Longrightarrow> nvme_controller_close_vfio hw os c v heap d k = None"
  by (simp add: nvme_controller_close_vfio_def nvme_qpair_term_def case_prod_beta)

section \<open>Opening a controller\<close>

text \<open>The steps of opening failed and left a pointer to a request pool that was freed.\<close>

definition pool_dangles ::
  "bool \<Rightarrow> ('d, 'x) dma_hw_scheme \<Rightarrow> ('k, 'y) vfio_os_scheme \<Rightarrow> bool \<Rightarrow> string \<Rightarrow> hostmem_heap \<Rightarrow> 'd \<Rightarrow> 'k \<Rightarrow> bool" where
  "pool_dangles dbg hw os calloc_ok bdf heap d k \<longleftrightarrow> (\<exists>buf heap1 qids err c rest.
     hostmem_dma_malloc dbg heap 4096 = Some (Inr buf, heap1) \<and> nvme_qid_bitmap_init = Some (0, qids) \<and>
     vfio_open_steps dbg hw os calloc_ok bdf (zero_controller\<lparr>nc_buf := buf, nc_qids := qids\<rparr>) heap1 (hw_zero hw d buf 4096) k =
       Some (err, c, rest) \<and> err \<noteq> 0 \<and> qp_rpool (nc_aq c) = Dangling)"

lemma open_vfio_result:
  assumes law: "vfio_lawful os fds maps" and mem: "heap_owns heap ps" "qpair_heap heap" and hw: "stride_ok hw"
  obtains (dangles) "nvme_controller_open_vfio dbg hw os calloc_ok bdf heap d k = None" "pool_dangles dbg hw os calloc_ok bdf heap d k"
    | (failed) err heap' d' k' where "\<not> pool_dangles dbg hw os calloc_ok bdf heap d k"
      "nvme_controller_open_vfio dbg hw os calloc_ok bdf heap d k = Some (err, zero_controller, nvme_vfio_ctx_init, heap', d', k')"
      "err \<noteq> 0" "heap_owns heap' ps" "fds k' = fds k" "maps k' = maps k"
    | (opened) c v heap' d' k' where "\<not> pool_dangles dbg hw os calloc_ok bdf heap d k"
      "nvme_controller_open_vfio dbg hw os calloc_ok bdf heap d k = Some (0, c, v, heap', d', k')"
      "controller_ready c" "qid_avail (nc_qids c) = io_qids" "nc_buf c \<noteq> 0" "ctx_owns fds maps k v k'" "same_heap heap heap'"
      "heap_owns heap' (qpair_mem (pg heap) (nc_aq c) @ (nc_buf c, 4096) # ps)" "free_cids (qpair_pool (nc_aq c)) = all_cids"
proof -
  have sz: "dma_size_ok 4096" by (simp add: dma_size_ok_def)
  obtain bm where bm: "nvme_qid_bitmap_init = Some (0, bm)" "qid_wf bm" "qid_avail bm = io_qids"
    using nvme_qid_bitmap_init_wf by blast
  note def = nvme_controller_open_vfio_def Let_def bm(1) pool_dangles_def
  from mem(1) sz show thesis
  proof (cases rule: heap_owns_malloc [where dbg = dbg])
    case (fails e heap')
    then show thesis using failed [of "- e" heap' d k] by (simp add: def)
  next
    case (gives buf heap1)
    let ?c = "zero_controller\<lparr>nc_buf := buf, nc_qids := bm\<rparr>" and ?d = "hw_zero hw d buf 4096"
    have h1: "qpair_heap heap1" "pg heap1 = pg heap"
      using mem(2) qpair_heap_same [OF gives(3)] gives(3) by (simp_all only: same_heap_def)
    have c: "nc_aq ?c = zero_qpair" "0 < length (pf_bars (nc_func ?c))" by (simp_all add: zero_func_def PCI_NBARS_def)
    have own: "heap_owns heap1 ((buf, 4096) # ps)" using gives(4) by simp
    note opn = def gives(1)
    from law own h1(1) hw c show thesis
    proof (cases rule: steps_result [where dbg = dbg and calloc_ok = calloc_ok and bdf = bdf and d = ?d and k = k])
      case (no_aq err c' v heap' d' k')
      have h: "qpair_heap heap'" using h1(1) qpair_heap_same [OF no_aq(4)] by simp
      show thesis
      proof (cases "qp_rpool (nc_aq c') = Dangling")
        case True
        with no_aq(1,5) show thesis by (intro dangles) (simp_all add: opn close_vfio_dangling)
      next
        case False
        have "gives_back fds maps ps k (nvme_controller_close_vfio hw os c' v heap' d' k')"
          by (rule close_vfio_gives_back [OF law h no_aq(2)]) (use no_aq(3,6,7) False gives(2) in simp_all)
        then obtain e h d2 k2 where "nvme_controller_close_vfio hw os c' v heap' d' k' =
            Some (e, zero_controller, nvme_vfio_ctx_init, h, d2, k2)" "heap_owns h ps" "fds k2 = fds k" "maps k2 = maps k"
          by (auto simp: gives_back_def)
        with no_aq(1,5) False show thesis by (intro failed [of err h d2 k2]) (simp_all add: opn)
      qed
    next
      case (with_aq err c' v heap' d' k')
      have h: "qpair_heap heap'" using h1(1) qpair_heap_same [OF with_aq(4)] by simp
      have live: "qp_rpool (nc_aq c') \<noteq> Dangling" using with_aq(7) by (auto simp: qpair_live_def)
      show thesis
      proof (cases "err = 0")
        case True
        have "same_heap heap heap'" using gives(3) with_aq(4) by (simp add: same_heap_def)
        with True with_aq bm gives(2) h1(2) live show thesis
          by (intro opened [of c' v heap' d' k']) (simp_all add: opn)
      next
        case False
        have "gives_back fds maps ps k (nvme_controller_close_vfio hw os c' v heap' d' k')"
          by (rule close_vfio_gives_back [OF law h with_aq(2), where page = "pg heap"])
            (use with_aq(3,7,8) gives(2) h1(2) in simp_all)
        then obtain e h d2 k2 where "nvme_controller_close_vfio hw os c' v heap' d' k' =
            Some (e, zero_controller, nvme_vfio_ctx_init, h, d2, k2)" "heap_owns h ps" "fds k2 = fds k" "maps k2 = maps k"
          by (auto simp: gives_back_def)
        with with_aq(1) False live show thesis by (intro failed [of err h d2 k2]) (simp_all add: opn)
      qed
    qed
  qed
qed

text \<open>C10: Opening a controller through VFIO either uses the request pool of the admin queue after it
  was freed, exactly when setting up the admin queue failed and left the pointer behind, or it
  returns. If it returns an error, all memory, descriptors and mappings are given back, and
  the controller and the VFIO state are as before opening. If it succeeds, BAR0 is mapped and the admin
  queue can be used, and closing gives everything back, whatever the device did in between.\<close>

theorem nvme_controller_open_vfio_no_leak:
  assumes "vfio_lawful os fds maps" "heap_owns heap ps" "qpair_heap heap" "stride_ok hw"
  shows "case nvme_controller_open_vfio dbg hw os calloc_ok bdf heap d k of
      None \<Rightarrow> pool_dangles dbg hw os calloc_ok bdf heap d k
    | Some (err, c, v, heap', d', k') \<Rightarrow> \<not> pool_dangles dbg hw os calloc_ok bdf heap d k \<and>
        (if err \<noteq> 0 then gives_back fds maps ps k (Some (err, c, v, heap', d', k'))
         else controller_ready c \<and> qid_avail (nc_qids c) = io_qids \<and>
           (\<forall>d''. gives_back fds maps ps k (nvme_controller_close_vfio hw os c v heap' d'' k')))"
  using assms
proof (cases rule: open_vfio_result [where dbg = dbg and calloc_ok = calloc_ok and bdf = bdf and d = d and k = k])
  case (failed err heap' d' k')
  then show ?thesis by (simp add: gives_back_def)
next
  case (opened c v heap' d' k')
  have "qpair_heap heap'" using assms(3) qpair_heap_same [OF opened(7)] by simp
  moreover have "qpair_live (nc_aq c)" using opened(3) by (simp add: controller_ready_def)
  ultimately have "gives_back fds maps ps k (nvme_controller_close_vfio hw os c v heap' d'' k')" for d''
    by (intro close_vfio_gives_back [OF assms(1) _ opened(6,5), where page = "pg heap"] disjI2 conjI opened(8))
  with opened show ?thesis by simp
qed simp

section \<open>Where the device finds the heap\<close>

text \<open>What the mappings for devices are: pairs of a container and a request that it has granted. A request to
  unmap takes away what lies in its range.\<close>

definition covers :: "vfio_iommu_type1_dma_unmap \<Rightarrow> vfio_iommu_type1_dma_map \<Rightarrow> bool" where
  "covers u m \<longleftrightarrow> unat (vu_iova u) \<le> unat (vm_iova m) \<and>
     unat (vm_iova m) + unat (vm_size m) \<le> unat (vu_iova u) + unat (vu_size u)"

definition dma_ledger :: "('k, 'x) vfio_os_scheme \<Rightarrow> ('k \<Rightarrow> (int \<times> vfio_iommu_type1_dma_map) set) \<Rightarrow> bool" where
  "dma_ledger os dmas \<longleftrightarrow>
     (\<forall>k fd m r k'. io_iommu_map_dma os k fd m = (r, k') \<longrightarrow>
        (case r of Inl e \<Rightarrow> 0 < e \<and> dmas k' = dmas k | Inr n \<Rightarrow> dmas k' = insert (fd, m) (dmas k))) \<and>
     (\<forall>k fd u r k'. io_iommu_unmap_dma os k fd u = (r, k') \<longrightarrow>
        (case r of Inl e \<Rightarrow> 0 < e \<and> dmas k' = dmas k | Inr n \<Rightarrow> dmas k' = {(f, m) \<in> dmas k. f = fd \<longrightarrow> \<not> covers u m}))"

abbreviation page_map :: "hostmem_heap \<Rightarrow> nat \<Rightarrow> vfio_iommu_type1_dma_map" where
  "page_map heap i \<equiv> \<lparr>vm_flags = VFIO_DMA_MAP_FLAG_READ OR VFIO_DMA_MAP_FLAG_WRITE,
     vm_vaddr = virt heap + of_nat i * size_of_int (hugepgsz (config heap)),
     vm_iova = phys_lut heap ! i, vm_size = size_of_int (hugepgsz (config heap))\<rparr>"

abbreviation page_unmap :: "hostmem_heap \<Rightarrow> nat \<Rightarrow> vfio_iommu_type1_dma_unmap" where
  "page_unmap heap i \<equiv> \<lparr>vu_flags = 0, vu_iova = phys_lut heap ! i, vu_size = size_of_int (hugepgsz (config heap))\<rparr>"

lemma map_pages_dmas:
  assumes "dma_ledger os dmas" "map_pages os c heap is k = Some (0, k')"
  shows "dmas k' = dmas k \<union> (\<lambda>i. (vc_fd c, page_map heap i)) ` set is"
  using assms(2)
proof (induction "is" arbitrary: k)
  case (Cons i "is")
  obtain r k1 where r: "io_iommu_map_dma os k (vc_fd c) (page_map heap i) = (r, k1)" by (rule prod.exhaust)
  then have l: "case r of Inl e \<Rightarrow> 0 < e \<and> dmas k1 = dmas k | Inr n \<Rightarrow> dmas k1 = insert (vc_fd c, page_map heap i) (dmas k)"
    using assms(1) unfolding dma_ledger_def by blast
  show ?case
  proof (cases r)
    case (Inl e)
    with Cons.prems r l show ?thesis by (auto simp: vfio_iommu_map_dma_def array_get_def split: if_split_asm)
  next
    case (Inr n)
    with Cons.prems r have "map_pages os c heap is k1 = Some (0, k')" by (auto simp: vfio_iommu_map_dma_def array_get_def split: if_split_asm)
    from Cons.IH [OF this] l Inr show ?thesis by simp
  qed
qed simp

lemma unmap_pages_error: "unmap_pages os c heap is err k = Some (err', k') \<Longrightarrow> err \<noteq> 0 \<Longrightarrow> err' \<noteq> 0"
proof (induction "is" arbitrary: err k)
  case (Cons i "is")
  obtain r k1 where "io_iommu_unmap_dma os k (vc_fd c) (page_unmap heap i) = (r, k1)" by (rule prod.exhaust)
  with Cons.prems have "unmap_pages os c heap is err k1 = Some (err', k')"
    by (cases r) (auto simp: vfio_iommu_unmap_dma_def array_get_def split: if_split_asm)
  then show ?case using Cons.IH Cons.prems(2) by blast
qed simp

lemma unmap_step:
  "{(f, m) \<in> {(f, m) \<in> A. f = c \<longrightarrow> \<not> P i m}. f = c \<longrightarrow> (\<forall>j \<in> S. \<not> P j m)} =
     {(f, m) \<in> A. f = c \<longrightarrow> (\<forall>j \<in> insert i S. \<not> P j m)}"
  by auto

lemma unmap_pages_dmas:
  assumes "dma_ledger os dmas" "unmap_pages os c heap is 0 k = Some (0, k')"
  shows "dmas k' = {(f, m) \<in> dmas k. f = vc_fd c \<longrightarrow> (\<forall>i \<in> set is. \<not> covers (page_unmap heap i) m)}"
  using assms(2)
proof (induction "is" arbitrary: k)
  case (Cons i "is")
  obtain r k1 where r: "io_iommu_unmap_dma os k (vc_fd c) (page_unmap heap i) = (r, k1)" by (rule prod.exhaust)
  then have l: "case r of Inl e \<Rightarrow> 0 < e \<and> dmas k1 = dmas k
    | Inr n \<Rightarrow> dmas k1 = {(f, m) \<in> dmas k. f = vc_fd c \<longrightarrow> \<not> covers (page_unmap heap i) m}"
    using assms(1) unfolding dma_ledger_def by blast
  show ?case
  proof (cases r)
    case (Inl e)
    with Cons.prems r have go: "unmap_pages os c heap is (- e) k1 = Some (0, k')"
      by (simp add: vfio_iommu_unmap_dma_def array_get_def split: if_split_asm)
    have "- e \<noteq> 0" using l Inl by simp
    from unmap_pages_error [OF go this] show ?thesis by simp
  next
    case (Inr n)
    with Cons.prems r have "unmap_pages os c heap is 0 k1 = Some (0, k')"
      by (simp add: vfio_iommu_unmap_dma_def array_get_def split: if_split_asm)
    note ih = Cons.IH [OF this]
    have "dmas k1 = {(f, m) \<in> dmas k. f = vc_fd c \<longrightarrow> \<not> covers (page_unmap heap i) m}" using l Inr by simp
    with unmap_step [of "dmas k" "vc_fd c" "\<lambda>i. covers (page_unmap heap i)" i "set is"] show ?thesis
      unfolding ih by (simp only: list.set)
  qed
qed simp

lemma covers_page: "i < unat (nphys heap) \<Longrightarrow> covers (page_unmap heap i) (page_map heap i)"
  by (simp add: covers_def)

text \<open>C11: When mapping the heap for the device succeeds, the device reaches every byte of the heap
  at the address that the translation of the DMA interface gives to the driver, and nothing else was
  mapped; the byte is readable and writable there. When taking the mapping back succeeds, no page of the
  heap can be reached any more, and mappings that cover none of its pages are as before.\<close>

theorem vfio_heap_mapping_identity:
  assumes "lut_ok heap" "dma_ledger os dmas" "vfio_map_heap os vfio heap k = Some (0, k1)"
  shows "(\<forall>x < unat (nphys heap) * hpg heap. \<exists>m off. (vc_fd (vx_container vfio), m) \<in> dmas k1 \<and>
        off < unat (vm_size m) \<and> vm_vaddr m + of_nat off = virt heap + of_nat x \<and>
        hostmem_dma_v2p heap (virt heap + of_nat x) = Some (vm_iova m + of_nat off) \<and> vm_flags m = 3) \<and>
    card (dmas k1 - dmas k) \<le> unat (nphys heap) \<and>
    (\<forall>k2. unmap_pages os (vx_container vfio) heap [0..<unat (nphys heap)] 0 k1 = Some (0, k2) \<longrightarrow>
       dmas k2 = {(f, m) \<in> dmas k. f = vc_fd (vx_container vfio) \<longrightarrow>
         (\<forall>i < unat (nphys heap). \<not> covers (page_unmap heap i) m)})"
proof -
  let ?fd = "vc_fd (vx_container vfio)" and ?n = "unat (nphys heap)" and ?pg = "\<lambda>i. (vc_fd (vx_container vfio), page_map heap i)"
  note d = map_pages_dmas [OF assms(2) assms(3) [unfolded vfio_map_heap_def]]
  have cfg: "hostmem_config_ok (config heap)" using assms(1) by (simp add: lut_ok_def)
  note sz = config_pages(6) [OF cfg]
  have pos: "0 < hpg heap" using config_pages [OF cfg] by simp
  have "\<exists>m off. (?fd, m) \<in> dmas k1 \<and> off < unat (vm_size m) \<and> vm_vaddr m + of_nat off = virt heap + of_nat x \<and>
      hostmem_dma_v2p heap (virt heap + of_nat x) = Some (vm_iova m + of_nat off) \<and> vm_flags m = 3"
    if x: "x < ?n * hpg heap" for x
  proof (intro exI conjI)
    have "of_nat x = of_nat (x div hpg heap) * of_nat (hpg heap) + (of_nat (x mod hpg heap) :: u64)"
      by (metis div_mult_mod_eq of_nat_add of_nat_mult)
    moreover have "size_of_int (hugepgsz (config heap)) = (of_nat (hpg heap) :: u64)" using sz by (metis word_unat_eq_iff unat_of_nat_u64 unat_u64_bound)
    ultimately show "vm_vaddr (page_map heap (x div hpg heap)) + of_nat (x mod hpg heap) = virt heap + of_nat x" by simp
    show "hostmem_dma_v2p heap (virt heap + of_nat x) = Some (vm_iova (page_map heap (x div hpg heap)) + of_nat (x mod hpg heap))"
      using v2p_eq [OF assms(1) x] by (simp add: host_phys_def)
    show "x mod hpg heap < unat (vm_size (page_map heap (x div hpg heap)))" using sz pos by simp
    show "(?fd, page_map heap (x div hpg heap)) \<in> dmas k1" unfolding d using lut_index(1) [OF assms(1) x] by auto
  qed simp
  moreover have "card (dmas k1 - dmas k) \<le> ?n"
  proof -
    have "dmas k1 - dmas k \<subseteq> ?pg ` {0..<?n}" unfolding d by auto
    then have "card (dmas k1 - dmas k) \<le> card (?pg ` {0..<?n})" by (rule card_mono [rotated]) simp
    also have "\<dots> \<le> ?n" using card_image_le [of "{0..<?n}" ?pg] by simp
    finally show ?thesis .
  qed
  moreover have "dmas k2 = {(f, m) \<in> dmas k. f = ?fd \<longrightarrow> (\<forall>i < ?n. \<not> covers (page_unmap heap i) m)}"
    if "unmap_pages os (vx_container vfio) heap [0..<?n] 0 k1 = Some (0, k2)" for k2
    unfolding unmap_pages_dmas [OF assms(2) that] d using covers_page by (auto simp: Ball_def)
  ultimately show ?thesis by blast
qed

section \<open>A VFIO world\<close>

text \<open>Descriptors, mappings of files and mappings for devices, in which every call is granted.\<close>

type_synonym vfio_world = "int list \<times> (u64 \<times> u64) list \<times> (int \<times> vfio_iommu_type1_dma_map) list"

definition grant_fd :: "vfio_world \<Rightarrow> (int + int) \<times> vfio_world" where
  "grant_fd = (\<lambda>(f, m, g). (Inr (spare_fd f), (spare_fd f # f, m, g)))"

definition box_os :: "vfio_world vfio_os" where
  "box_os = \<lparr>vf_open = \<lambda>k p. grant_fd k, vf_close = \<lambda>(f, m, g) fd. (Inr 0, (filter (\<lambda>x. x \<noteq> fd) f, m, g)),
     vf_readlink = \<lambda>k p n. (Inr ''../../../../kernel/iommu_groups/5'', k),
     vf_pread16 = \<lambda>k fd a. (Inr (Some 6), k), vf_pwrite16 = \<lambda>k fd a v. (Inr (Some ()), k),
     vf_mmap = \<lambda>(f, m, g) fd n a. (if m = [] \<and> n \<noteq> 0 then (Inr 0x7F0000000000, (f, [(0x7F0000000000, n)], g)) else (Inl 12, (f, m, g))),
     vf_munmap = \<lambda>(f, m, g) a n. (f, filter (\<lambda>x. x \<noteq> (a, n)) m, g),
     io_get_api_version = \<lambda>k fd. (Inr 0, k), io_check_extension = \<lambda>k fd e. (Inr 1, k), io_set_iommu = \<lambda>k fd t. (Inr 0, k),
     io_group_get_status = \<lambda>k fd s. (Inr 0, \<lparr>gs_flags = 1\<rparr>, k), io_group_set_container = \<lambda>k fd c. (Inr 0, k),
     io_group_get_device_fd = \<lambda>k fd n. grant_fd k, io_device_get_info = \<lambda>k fd i. (Inr 0, i, k),
     io_device_get_region_info = \<lambda>k fd i. (Inr 0, i\<lparr>vr_size := 0x4000\<rparr>, k), io_iommu_get_info = \<lambda>k fd i. (Inr 0, i, k),
     io_iommu_map_dma = \<lambda>(f, m, g) fd r. (Inr 0, (f, m, (fd, r) # g)),
     io_iommu_unmap_dma = \<lambda>(f, m, g) fd u. (Inr 0, (f, m, filter (\<lambda>(c, r). c = fd \<longrightarrow> \<not> covers u r) g)),
     io_device_get_irq_info = \<lambda>k fd i. (Inr 0, i, k), io_device_set_irqs = \<lambda>k fd s. (Inr 0, k),
     io_device_reset = \<lambda>k fd. (Inr 0, k), io_get_pci_hot_reset_info = \<lambda>k fd i. (Inr 0, i, k),
     io_pci_hot_reset = \<lambda>k fd s. (Inr 0, k)\<rparr>"

lemma box_lawful: "vfio_lawful box_os (\<lambda>(f, m, g). set f) (\<lambda>(f, m, g). set m)"
  unfolding vfio_lawful_def box_os_def
  by (intro conjI allI) (auto simp: quiet_def gives_fd_def grant_fd_def spare_fd split: if_splits)

lemma box_ledger: "dma_ledger box_os (\<lambda>(f, m, g). set g)"
  unfolding dma_ledger_def box_os_def by (intro conjI allI) auto

theorem nvme_controller_open_vfio_no_leak_witness:
  "case nvme_controller_open_vfio True dead_hw box_os True ''0000:01:00.0'' example_heap () ([], [], []) of
      None \<Rightarrow> pool_dangles True dead_hw box_os True ''0000:01:00.0'' example_heap () ([], [], [])
    | Some (err, c, v, heap', d', k') \<Rightarrow>
        err \<noteq> 0 \<longrightarrow> heap_owns heap' [] \<and> c = zero_controller \<and> set (fst k') = {} \<and> set (fst (snd k')) = {}"
proof -
  from nvme_controller_open_vfio_no_leak [OF box_lawful example_owns example_qpair_heap dead_stride, where
      dbg = True and calloc_ok = True and bdf = "''0000:01:00.0''" and d = "()" and k = "([], [], [])"]
  show ?thesis
    by (cases "nvme_controller_open_vfio True dead_hw box_os True ''0000:01:00.0'' example_heap () ([], [], [])")
      (auto simp: gives_back_def case_prod_beta)
qed

definition box_ctx :: vfio_ctx where
  "box_ctx = nvme_vfio_ctx_init\<lparr>vx_container := \<lparr>vc_fd = 3, vc_info = \<lparr>ii_flags = 0, ii_iova_pgsizes = 0\<rparr>,
     vc_map = \<lparr>vm_flags = 0, vm_vaddr = 0, vm_iova = 0, vm_size = 0\<rparr>\<rparr>\<rparr>"

theorem vfio_heap_mapping_identity_witness:
  "\<exists>k1. vfio_map_heap box_os box_ctx example_heap ([3], [], []) = Some (0, k1) \<and>
    (\<exists>m off. (3, m) \<in> set (snd (snd k1)) \<and> vm_vaddr m + of_nat off = 0x40000000 + 0x200123 \<and>
      hostmem_dma_v2p example_heap (0x40000000 + of_nat 0x200123) = Some (vm_iova m + of_nat off))"
proof -
  have c: "nphys example_heap = 4" "hpg example_heap = 0x200000" "virt example_heap = 0x40000000"
    "length (phys_lut example_heap) = 4"
    by (simp_all add: example_heap_def example_config_def)
  have "[0..<unat (nphys example_heap)] = [0, 1, 2, 3]" unfolding c by (simp add: upt_rec)
  then obtain k1 where k1: "vfio_map_heap box_os box_ctx example_heap ([3], [], []) = Some (0, k1)"
    using c(4) by (simp add: vfio_map_heap_def box_os_def vfio_iommu_map_dma_def)
  have "0x200123 < unat (nphys example_heap) * hpg example_heap" unfolding c by simp
  from vfio_heap_mapping_identity [OF example_heap_lut box_ledger k1, THEN conjunct1, THEN spec, THEN mp, OF this]
  have "\<exists>m off. (3, m) \<in> set (snd (snd k1)) \<and> vm_vaddr m + of_nat off = 0x40000000 + 0x200123 \<and>
      hostmem_dma_v2p example_heap (0x40000000 + of_nat 0x200123) = Some (vm_iova m + of_nat off)"
    unfolding c by (auto simp: box_ctx_def case_prod_beta)
  with k1 show ?thesis by blast
qed

end
