(* ===== verification/Nvme_Open_Room.thy ===== *)
theory Nvme_Open_Room
  imports Heap_Room Nvme_Controller_Vfio_Props
begin

text \<open>
  Opening a controller on a heap with enough room: the request pool of the admin queue is never left
  dangling, so the exceptions of the results on opening and closing do not occur.
\<close>

section \<open>Enough room\<close>

text \<open>The buffer of the controller and the admin queue fit; hugepages are as large as any that the kernel has.\<close>

definition open_room :: "hostmem_heap \<Rightarrow> bool" where
  "open_room heap \<longleftrightarrow> 2 ^ 17 \<le> hpg heap \<and>
     room heap (cost heap (page_round (pg heap) 4096) + qpair_cost heap + hpg heap)"

lemma open_room_buffer:
  assumes "open_room heap" "heap_owns heap ps" "hostmem_dma_malloc dbg heap 4096 = Some (r, heap1)"
  shows "\<exists>buf. r = Inr buf" "room heap1 (qpair_cost heap + hpg heap)" "same_heap heap heap1"
proof -
  let ?c = "cost heap (page_round (pg heap) (unat (4096 :: u64)))"
  have n: "unat (4096 :: u64) = 4096" by simp
  have rm: "room heap (?c + qpair_cost heap + hpg heap)" using assms(1) unfolding open_room_def n by blast
  have le: "?c + hpg heap \<le> ?c + qpair_cost heap + hpg heap" by simp
  have sz: "dma_size_ok 4096" by (simp add: dma_size_ok_def)
  note mr = malloc_room [OF rm le sz _ assms(3)]
  show "\<exists>buf. r = Inr buf" by (rule mr(1)) simp
  have "room heap1 (?c + qpair_cost heap + hpg heap - ?c)" by (rule mr(2)) simp
  then show "room heap1 (qpair_cost heap + hpg heap)" by (simp add: add.assoc)
  from assms(2) sz show "same_heap heap heap1"
    by (cases rule: heap_owns_malloc [where dbg = dbg]) (use assms(3) in simp_all)
qed

section \<open>The admin queue\<close>

lemma open_aq_room:
  assumes "room heap m" "qpair_cost heap + hpg heap \<le> m" "qpair_heap heap" "2 ^ 17 \<le> hpg heap"
    and "nc_aq c = zero_qpair" "open_aq dbg hw calloc_ok c heap d = Some (err, c', heap', d')"
  shows "qp_rpool (nc_aq c') \<noteq> Dangling"
proof -
  have qp: "qp_rpool qp' \<noteq> Dangling"
    if "nvme_qpair_init dbg hw calloc_ok zero_qpair 0 256 heap d1 = Some (ret, qp', h, d2)" for ret qp' h d1 d2
    using qpair_init_room [OF assms(1-4) that] by blast
  obtain cap d1 where cap: "nvme_mmio_cap_read hw d = (cap, d1)" by (rule prod.exhaust)
  let ?t = "int (unat (nvme_reg_cap_get_to cap)) * 500"
  have c: "nc_aq (c\<lparr>nc_timeout_ms := t\<rparr>) = zero_qpair" for t using assms(5) by simp
  obtain e d3 where w: "nvme_mmio_csts_wait_until_not_ready hw (nvme_mmio_cc_disable hw d1) ?t = (e, d3)" by (rule prod.exhaust)
  show ?thesis
  proof (cases "e = 0")
    case False
    with assms(6) have "nc_aq c' = nc_aq c" by (auto simp: open_aq_def Let_def cap w [simplified])
    then show ?thesis by (simp add: assms(5))
  next
    case True
    obtain ret aq h d4 where i: "nvme_qpair_init dbg hw calloc_ok zero_qpair 0 256 heap d3 = Some (ret, aq, h, d4)"
      using assms(6) True by (cases "nvme_qpair_init dbg hw calloc_ok zero_qpair 0 256 heap d3")
        (auto simp: open_aq_def Let_def cap w [simplified] c assms(5))
    have "nc_aq c' = aq"
      using assms(6) True i by (auto simp: open_aq_def Let_def cap w [simplified] c assms(5)
          split: Option.bind_split_asm prod.split_asm if_split_asm)
    with qp [OF i] show ?thesis by simp
  qed
qed

section \<open>Opening\<close>

lemma open_vfio_room:
  assumes "vfio_lawful os fds maps" "heap_owns heap ps" "qpair_heap heap" "open_room heap"
  shows "\<not> pool_dangles dbg hw os calloc_ok bdf heap d k"
proof
  assume "pool_dangles dbg hw os calloc_ok bdf heap d k"
  then obtain buf heap1 qids err c rest where p: "hostmem_dma_malloc dbg heap 4096 = Some (Inr buf, heap1)"
    "vfio_open_steps dbg hw os calloc_ok bdf (zero_controller\<lparr>nc_buf := buf, nc_qids := qids\<rparr>) heap1 (hw_zero hw d buf 4096) k =
       Some (err, c, rest)" "err \<noteq> 0" "qp_rpool (nc_aq c) = Dangling"
    unfolding pool_dangles_def by blast
  note b = open_room_buffer [OF assms(4,2) p(1)]
  have h1: "qpair_heap heap1" using assms(3) qpair_heap_same [OF b(3)] by simp
  have same: "hpg heap1 = hpg heap" "qpair_cost heap1 = qpair_cost heap" using b(3) by (simp_all add: same_heap_def qpair_cost_def)
  have big: "2 ^ 17 \<le> hpg heap1" "qpair_cost heap1 + hpg heap1 \<le> qpair_cost heap + hpg heap"
    using assms(4) by (simp_all add: open_room_def same)
  let ?c = "zero_controller\<lparr>nc_buf := buf, nc_qids := qids\<rparr>" and ?d = "hw_zero hw d buf 4096"
  have len: "length (phys_lut heap1) = unat (nphys heap1)" using h1 by (simp add: qpair_heap_def dma_heap_def lut_ok_def)
  obtain e1 v1 k1 where a: "vfio_attach os bdf nvme_vfio_ctx_init heap1 k = Some (e1, v1, k1)" "ctx_owns fds maps k v1 k1"
    "vx_device_fd v1 = - 1" "vx_bar0 v1 = 0"
    using attach_result [OF assms(1) len, of k bdf] by (auto simp: attached_def)
  have bars: "0 < length (pf_bars (nc_func ?c))" by (simp add: zero_func_def PCI_NBARS_def)
  obtain e2 c2 v2 k2 where r: "vfio_bar0 os bdf ?c v1 k1 = (e2, c2, v2, k2)" "nc_aq c2 = nc_aq ?c"
    by (rule bar0_result [OF assms(1) a(2-4) bars]) blast
  have aq: "nc_aq c2 = zero_qpair" using r(2) by simp
  note def = vfio_open_steps_def a(1) r(1) Let_def vfio_start_open_aq
  show False
  proof (cases "e1 = 0 \<and> e2 = 0")
    case False
    with p(2,4) r(2) show False by (auto simp: def split: if_split_asm)
  next
    case True
    then obtain e h d' where s: "open_aq dbg hw calloc_ok c2 heap1 ?d = Some (e, c, h, d')" "err = - e"
      using p(2) by (cases "open_aq dbg hw calloc_ok c2 heap1 ?d") (auto simp: def)
    from open_aq_room [OF b(2) big(2) h1 big(1) aq s(1)] p(4) show False by simp
  qed
qed

end
