(* ===== verification/Hostmem_Setup_Props.thy ===== *)
theory Hostmem_Setup_Props
  imports Hostmem_Setup Heap_Owner
begin

unbundle bit_operations_syntax

text \<open>
  Set-up of the hugepage heap: a configuration that initialises is well formed, a heap that fails to
  initialise leaves nothing behind except possibly a file, one that initialises is the heap that the other theories
  start from, and its table holds the physical addresses that the kernel reports.
\<close>

section \<open>What the calls do\<close>

definition calm :: "('k \<Rightarrow> int set) \<Rightarrow> ('k \<Rightarrow> (u64 \<times> u64) set) \<Rightarrow> ('k \<Rightarrow> string set) \<Rightarrow> 'k \<Rightarrow> 'k \<Rightarrow> bool" where
  "calm fds maps files k k' \<longleftrightarrow> fds k' = fds k \<and> maps k' = maps k \<and> files k' = files k"

lemma calm_refl [simp]: "calm fds maps files k k" by (simp add: calm_def)

lemma calm_trans: "calm fds maps files k k1 \<Longrightarrow> calm fds maps files k1 k2 \<Longrightarrow> calm fds maps files k k2"
  by (simp add: calm_def)

definition new_fd :: "('k \<Rightarrow> int set) \<Rightarrow> ('k \<Rightarrow> (u64 \<times> u64) set) \<Rightarrow> 'k \<Rightarrow> int \<Rightarrow> 'k \<Rightarrow> bool" where
  "new_fd fds maps k fd k' \<longleftrightarrow> 0 \<le> fd \<and> fd \<notin> fds k \<and> fds k' = insert fd (fds k) \<and> maps k' = maps k"

text \<open>Descriptors, mappings and the files of the file system for hugepages.\<close>

definition page_lawful ::
  "('k, 'x) page_os_scheme \<Rightarrow> ('k \<Rightarrow> int set) \<Rightarrow> ('k \<Rightarrow> (u64 \<times> u64) set) \<Rightarrow> ('k \<Rightarrow> string set) \<Rightarrow> bool" where
  "page_lawful os fds maps files \<longleftrightarrow>
     (\<forall>k. calm fds maps files k (snd (os_malloc os k))) \<and>
     (\<forall>k p r k'. os_open os k p = (r, k') \<longrightarrow> files k' = files k \<and>
        (case r of Inl e \<Rightarrow> 0 < e \<and> calm fds maps files k k' | Inr fd \<Rightarrow> new_fd fds maps k fd k')) \<and>
     (\<forall>k fd. fds (os_close os k fd) = fds k - {fd} \<and> maps (os_close os k fd) = maps k \<and> files (os_close os k fd) = files k) \<and>
     (\<forall>k fd a r k'. pg_pread64 os k fd a = (r, k') \<longrightarrow> calm fds maps files k k' \<and> (\<forall>e. r = Inl e \<longrightarrow> 0 < e)) \<and>
     (\<forall>k p r k'. pg_fopen os k p = (r, k') \<longrightarrow> files k' = files k \<and>
        (case r of Inl e \<Rightarrow> 0 < e \<and> calm fds maps files k k' | Inr (fp, lines) \<Rightarrow> new_fd fds maps k fp k')) \<and>
     (\<forall>k fp. fds (pg_fclose os k fp) = fds k - {fp} \<and> maps (pg_fclose os k fp) = maps k \<and> files (pg_fclose os k fp) = files k) \<and>
     (\<forall>k n f r k'. pg_memfd os k n f = (r, k') \<longrightarrow> files k' = files k \<and>
        (case r of Inl e \<Rightarrow> 0 < e \<and> calm fds maps files k k' | Inr fd \<Rightarrow> new_fd fds maps k fd k')) \<and>
     (\<forall>k p r k'. pg_create os k p = (r, k') \<longrightarrow>
        (case r of Inl e \<Rightarrow> 0 < e \<and> calm fds maps files k k' | Inr fd \<Rightarrow> new_fd fds maps k fd k' \<and> files k' = insert p (files k))) \<and>
     (\<forall>k p. fds (pg_unlink os k p) = fds k \<and> maps (pg_unlink os k p) = maps k \<and> files (pg_unlink os k p) = files k - {p}) \<and>
     (\<forall>k fd n r k'. pg_truncate os k fd n = (r, k') \<longrightarrow> calm fds maps files k k') \<and>
     (\<forall>k a n r k'. pg_lock os k a n = (r, k') \<longrightarrow> calm fds maps files k k') \<and>
     (\<forall>k fd r k'. pg_fstat os k fd = (r, k') \<longrightarrow> calm fds maps files k k' \<and> (\<forall>e. r = Inl e \<longrightarrow> 0 < e)) \<and>
     (\<forall>k a. calm fds maps files k (pg_touch os k a)) \<and> (\<forall>k a n. calm fds maps files k (pg_clear os k a n)) \<and>
     (\<forall>k fd n r k'. fs_map os k fd n = (r, k') \<longrightarrow> fds k' = fds k \<and> files k' = files k \<and> (case r of
        Inl e \<Rightarrow> 0 < e \<and> maps k' = maps k
      | Inr a \<Rightarrow> (a, n) \<notin> maps k \<and> maps k' = insert (a, n) (maps k) \<and> 0 < unat n \<and> space_ok a (unat n) \<and>
          nat (pg_size os) dvd unat a)) \<and>
     (\<forall>k a n. fds (fs_unmap os k a n) = fds k \<and> maps (fs_unmap os k a n) = maps k - {(a, n)} \<and> files (fs_unmap os k a n) = files k)"

lemma page_lawfulD:
  assumes "page_lawful os fds maps files"
  shows "calm fds maps files k (snd (os_malloc os k))"
    "os_open os k p = (r, k') \<Longrightarrow> files k' = files k \<and>
        (case r of Inl e \<Rightarrow> 0 < e \<and> calm fds maps files k k' | Inr fd \<Rightarrow> new_fd fds maps k fd k')"
    "fds (os_close os k fd) = fds k - {fd}" "maps (os_close os k fd) = maps k" "files (os_close os k fd) = files k"
    "pg_pread64 os k fd a = (rp, k') \<Longrightarrow> calm fds maps files k k' \<and> (\<forall>e. rp = Inl e \<longrightarrow> 0 < e)"
    "pg_fopen os k p = (ro, k') \<Longrightarrow> files k' = files k \<and>
        (case ro of Inl e \<Rightarrow> 0 < e \<and> calm fds maps files k k' | Inr (fp, lines) \<Rightarrow> new_fd fds maps k fp k')"
    "fds (pg_fclose os k fp) = fds k - {fp} \<and> maps (pg_fclose os k fp) = maps k \<and> files (pg_fclose os k fp) = files k"
    "pg_memfd os k nm f = (r, k') \<Longrightarrow> files k' = files k \<and>
        (case r of Inl e \<Rightarrow> 0 < e \<and> calm fds maps files k k' | Inr fd \<Rightarrow> new_fd fds maps k fd k')"
    "pg_create os k p = (r, k') \<Longrightarrow>
        (case r of Inl e \<Rightarrow> 0 < e \<and> calm fds maps files k k' | Inr fd \<Rightarrow> new_fd fds maps k fd k' \<and> files k' = insert p (files k))"
    "fds (pg_unlink os k p) = fds k" "maps (pg_unlink os k p) = maps k" "files (pg_unlink os k p) = files k - {p}"
    "pg_truncate os k fd n = (rt, k') \<Longrightarrow> calm fds maps files k k'"
    "pg_lock os k a n = (rt, k') \<Longrightarrow> calm fds maps files k k'"
    "pg_fstat os k fd = (rs, k') \<Longrightarrow> calm fds maps files k k' \<and> (\<forall>e. rs = Inl e \<longrightarrow> 0 < e)"
    "calm fds maps files k (pg_touch os k a)" "calm fds maps files k (pg_clear os k a n)"
    "fs_map os k fd n = (rm, k') \<Longrightarrow> fds k' = fds k \<and> files k' = files k \<and> (case rm of
        Inl e \<Rightarrow> 0 < e \<and> maps k' = maps k
      | Inr a \<Rightarrow> (a, n) \<notin> maps k \<and> maps k' = insert (a, n) (maps k) \<and> 0 < unat n \<and> space_ok a (unat n) \<and>
          nat (pg_size os) dvd unat a)"
    "fds (fs_unmap os k a n) = fds k" "maps (fs_unmap os k a n) = maps k - {(a, n)}" "files (fs_unmap os k a n) = files k"
  using assms unfolding page_lawful_def by simp_all

section \<open>The translation and the table\<close>

lemma pagemap_calm:
  assumes "page_lawful os fds maps files" "hostmem_pagemap_virt_to_phys os v k = (err, w, k')"
  shows "calm fds maps files k k'" "w \<noteq> None \<longrightarrow> err = 0"
proof -
  note l = page_lawfulD [OF assms(1)]
  obtain r k1 where o: "os_open os k ''/proc/self/pagemap'' = (r, k1)" by (rule prod.exhaust)
  show "calm fds maps files k k'"
  proof (cases r)
    case (Inl e)
    with o assms(2) l(2) [OF o] show ?thesis by (simp add: hostmem_pagemap_virt_to_phys_def)
  next
    case (Inr fd)
    obtain rp k2 where p: "pg_pread64 os k1 fd (v div size_of_int (pg_size os) * 8) = (rp, k2)" by (rule prod.exhaust)
    have "k' = os_close os k2 fd"
      using o Inr p assms(2)
      by (auto simp: hostmem_pagemap_virt_to_phys_def Let_def split: sum.split_asm option.split_asm if_split_asm)
    then show ?thesis using l(2) [OF o] Inr l(3-5) [of k2 fd] l(6) [OF p] by (auto simp: calm_def new_fd_def)
  qed
  show "w \<noteq> None \<longrightarrow> err = 0"
    using assms(2) by (auto simp: hostmem_pagemap_virt_to_phys_def Let_def
        split: prod.split_asm sum.split_asm option.split_asm if_split_asm)
qed

text \<open>A table that exists is filled up to the first page whose address cannot be had.\<close>

lemma lut_loop_result:
  assumes "page_lawful os fds maps files" "\<forall>i \<in> set is. i < length l"
  obtains err l' k' where "lut_loop os v hsz is (Some l) k = Some (err, Some l', k')" "length l' = length l"
    "calm fds maps files k k'"
proof -
  have "\<exists>err l' k'. lut_loop os v hsz is (Some l) k = Some (err, Some l', k') \<and> length l' = length l \<and> calm fds maps files k k'"
    using assms(2)
  proof (induction "is" arbitrary: l k)
    case (Cons i "is")
    obtain err w k1 where p: "hostmem_pagemap_virt_to_phys os (v + of_nat i * hsz) k = (err, w, k1)" by (rule prod_cases3)
    note c = pagemap_calm [OF assms(1) p]
    let ?l = "case w of None \<Rightarrow> l | Some a \<Rightarrow> l[i := a]"
    have len: "length ?l = length l" by (simp split: option.split)
    have step: "lut_loop os v hsz (i # is) (Some l) k =
        (if err \<noteq> 0 then Some (err, Some ?l, k1) else lut_loop os v hsz is (Some ?l) k1)"
      using p Cons.prems by (cases w) simp_all
    have "\<exists>e l' k'. lut_loop os v hsz is (Some ?l) k1 = Some (e, Some l', k') \<and> length l' = length ?l \<and> calm fds maps files k1 k'"
      by (rule Cons.IH) (use Cons.prems len in auto)
    with step c(1) len show ?case by (cases "err = 0") (auto intro: calm_trans)
  qed simp
  then show thesis using that by blast
qed

lemma touch_pages_calm:
  assumes "page_lawful os fds maps files"
  shows "calm fds maps files k (touch_pages os v sz page k)"
proof -
  have "calm fds maps files k (foldl (\<lambda>k i. pg_touch os k (v + of_nat (i * page))) k js)" for js
    by (induction js arbitrary: k) (auto intro: calm_trans page_lawfulD(17) [OF assms])
  then show ?thesis by (simp add: touch_pages_def)
qed

section \<open>Hugepages\<close>

text \<open>Since \<open>k0\<close> the descriptor and the mapping of the hugepage were made and no others.\<close>

definition holds :: "('k \<Rightarrow> int set) \<Rightarrow> ('k \<Rightarrow> (u64 \<times> u64) set) \<Rightarrow> 'k \<Rightarrow> hostmem_hugepage \<Rightarrow> 'k \<Rightarrow> bool" where
  "holds fds maps k0 hp k \<longleftrightarrow> 0 \<le> hp_fd hp \<and> hp_fd hp \<notin> fds k0 \<and> fds k = insert (hp_fd hp) (fds k0) \<and>
     hp_virt hp \<noteq> 0 \<and> hp_size hp \<noteq> 0 \<and> (hp_virt hp, hp_size hp) \<notin> maps k0 \<and>
     maps k = insert (hp_virt hp, hp_size hp) (maps k0)"

definition own_file :: "hostmem_config \<Rightarrow> string set" where
  "own_file cfg = (if backend cfg = HOSTMEM_BACKEND_HUGETLBFS then {hugepage_path cfg} else {})"

abbreviation known_backend :: "hostmem_config \<Rightarrow> bool" where
  "known_backend cfg \<equiv> backend cfg \<in> {HOSTMEM_BACKEND_MEMFD, HOSTMEM_BACKEND_HUGETLBFS}"

lemma hugepage_free_result:
  assumes "page_lawful os fds maps files" "holds fds maps k0 hp k" "hp_config hp = Some cfg"
  obtains k' where "hostmem_hugepage_free os hp k = Some (zero_hugepage, k')" "fds k' = fds k0" "maps k' = maps k0"
    "files k' = files k - (if backend cfg = HOSTMEM_BACKEND_HUGETLBFS then {hp_path hp} else {})"
proof -
  note l = page_lawfulD [OF assms(1)]
  let ?k = "os_close os (fs_unmap os k (hp_virt hp) (hp_size hp)) (hp_fd hp)"
  have k: "fds ?k = fds k0" "maps ?k = maps k0" "files ?k = files k"
    using assms(2) by (auto simp: l(3-5,20-22) holds_def)
  have "hostmem_hugepage_free os hp k = Some (zero_hugepage,
      if HOSTMEM_BACKEND_HUGETLBFS = backend cfg then pg_unlink os ?k (hp_path hp) else ?k)"
    using assms(2,3) by (simp add: hostmem_hugepage_free_def holds_def)
  with k show thesis
    by (intro that [of "if HOSTMEM_BACKEND_HUGETLBFS = backend cfg then pg_unlink os ?k (hp_path hp) else ?k"])
      (simp_all add: l(11-13))
qed

lemma hugepage_open_result:
  assumes "page_lawful os fds maps files" "known_backend cfg"
  obtains (fails) e hp' k' where "hugepage_open os cfg hp k = (- e, hp', k')" "0 < e" "calm fds maps files k k'"
    | (gives) hp' k' where "hugepage_open os cfg hp k = (0, hp', k')" "new_fd fds maps k (hp_fd hp') k'"
      "files k' = files k \<union> own_file cfg" "hp_size hp' = hp_size hp" "hp_config hp' = hp_config hp"
      "backend cfg = HOSTMEM_BACKEND_HUGETLBFS \<longrightarrow> hp_path hp' = hugepage_path cfg"
proof -
  note l = page_lawfulD [OF assms(1)]
  have be: "HOSTMEM_BACKEND_MEMFD \<noteq> HOSTMEM_BACKEND_HUGETLBFS"
    by (simp add: HOSTMEM_BACKEND_MEMFD_def HOSTMEM_BACKEND_HUGETLBFS_def)
  show thesis
  proof (cases "backend cfg = HOSTMEM_BACKEND_MEMFD")
    case True
    obtain r k1 where m: "pg_memfd os k ''hostmem'' (memfd_flags cfg) = (r, k1)" by (rule prod.exhaust)
    from True be m l(9) [OF m] show thesis
      by (cases r) (auto simp: hugepage_open_def own_file_def intro: fails gives)
  next
    case False
    with assms(2) have t: "backend cfg = HOSTMEM_BACKEND_HUGETLBFS" by simp
    obtain r k1 where m: "pg_create os k (hugepage_path cfg) = (r, k1)" by (rule prod.exhaust)
    from False t m l(10) [OF m] show thesis
      by (cases r) (auto simp: hugepage_open_def own_file_def Let_def intro: fails gives)
  qed
qed

lemma hugepage_alloc_result:
  assumes law: "page_lawful os fds maps files" and cfg: "hugepgsz cfg \<noteq> 0" "known_backend cfg"
  obtains (refused) err hp' k' where "hostmem_hugepage_alloc os sz hp cfg k = Some (err, hp', cfg, k')" "err < 0"
      "fds k' = fds k" "maps k' = maps k" "files k' = files k \<or> files k' = files k \<union> own_file cfg"
    | (gives) hp' cfg' k' where "hostmem_hugepage_alloc os sz hp cfg k = Some (0, hp', cfg', k')"
      "cfg' = cfg\<lparr>hostmem_config.count := hostmem_config.count cfg + 1\<rparr>" "holds fds maps k hp' k'" "hp_config hp' = Some cfg'"
      "files k' = files k \<union> own_file cfg" "hp_size hp' = sz" "space_ok (hp_virt hp') (unat sz)"
      "nat (pg_size os) dvd unat (hp_virt hp')" "sz mod size_of_int (hugepgsz cfg) = 0"
      "backend cfg = HOSTMEM_BACKEND_HUGETLBFS \<longrightarrow> hp_path hp' = hugepage_path cfg"
proof (cases "sz mod size_of_int (hugepgsz cfg) = 0")
  case False
  with cfg(1) show thesis by (intro refused [of "- EINVAL" hp k]) (simp_all add: hostmem_hugepage_alloc_def)
next
  case mult: True
  note l = page_lawfulD [OF law]
  note def = hostmem_hugepage_alloc_def Let_def cfg(1) mult
  let ?hp = "hp\<lparr>hp_config := Some cfg, hp_size := sz\<rparr>"
  from law cfg(2) show thesis
  proof (cases rule: hugepage_open_result [where hp = ?hp and k = k])
    case (fails e hp' k')
    then show thesis by (intro refused [of "- e" hp' k']) (simp_all add: def calm_def)
  next
    case (gives hp1 k1)
    let ?fd = "hp_fd hp1"
    have o1: "0 \<le> ?fd" "?fd \<notin> fds k" "fds k1 = insert ?fd (fds k)" "maps k1 = maps k" using gives(2) by (simp_all add: new_fd_def)
    note def = def gives(1)
    obtain r2 k2 where t: "pg_truncate os k1 ?fd sz = (r2, k2)" by (rule prod.exhaust)
    note c2 = l(14) [OF t, unfolded calm_def]
    show thesis
    proof (cases r2)
      case (Inl e)
      with t c2 o1 gives(3) show thesis
        by (intro refused [of "- ENOMEM" hp1 "os_close os k2 ?fd"]) (simp_all add: def l(3-5))
    next
      case r2: (Inr u)
      obtain r3 k3 where m: "fs_map os k2 ?fd sz = (r3, k3)" by (rule prod.exhaust)
      note c3 = l(19) [OF m]
      show thesis
      proof (cases r3)
        case (Inl e)
        with t r2 m c2 c3 o1 gives(3) show thesis
          by (intro refused [of "- ENOMEM" "hp1\<lparr>hp_virt := - 1\<rparr>" "os_close os k3 ?fd"]) (simp_all add: def l(3-5))
      next
        case r3: (Inr v)
        have v: "(v, sz) \<notin> maps k" "maps k3 = insert (v, sz) (maps k)" "0 < unat sz" "space_ok v (unat sz)"
          "nat (pg_size os) dvd unat v" "fds k3 = insert ?fd (fds k)" "files k3 = files k \<union> own_file cfg"
          using c3 c2 r3 o1 gives(3) by simp_all
        obtain r4 k4 where lo: "pg_lock os k3 v sz = (r4, k4)" by (rule prod.exhaust)
        note c4 = l(15) [OF lo, unfolded calm_def]
        show thesis
        proof (cases r4)
          case (Inl e)
          with t r2 m r3 lo c4 v o1(2) show thesis
            by (intro refused [of "- ENOMEM" "hp1\<lparr>hp_virt := v\<rparr>" "os_close os (fs_unmap os k4 v sz) ?fd"])
              (simp_all add: def l(3-5,20-22))
        next
          case r4: (Inr u')
          let ?k5 = "pg_clear os (touch_pages os v sz (nat (pagesize cfg)) k4) v sz"
          obtain err w k6 where p: "hostmem_pagemap_virt_to_phys os v ?k5 = (err, w, k6)" by (rule prod_cases3)
          have "calm fds maps files k4 k6"
            by (rule calm_trans [OF touch_pages_calm [OF law] calm_trans [OF l(18) pagemap_calm(1) [OF law p]]])
          then have c6: "fds k6 = insert ?fd (fds k)" "maps k6 = insert (v, sz) (maps k)" "files k6 = files k \<union> own_file cfg"
            using c4 v by (simp_all add: calm_def)
          let ?hp2 = "case w of Some a \<Rightarrow> hp1\<lparr>hp_virt := v, hp_phys := a\<rparr> | None \<Rightarrow> hp1\<lparr>hp_virt := v\<rparr>"
          note all = def t r2 m r3 lo r4 p
          show thesis
          proof (cases "err = 0")
            case False
            with c6 v(1) o1(2) show thesis
              by (intro refused [of "- ENOMEM" ?hp2 "os_close os (fs_unmap os k6 v sz) ?fd"])
                (simp_all add: all l(3-5,20-22))
          next
            case True
            let ?cfg = "cfg\<lparr>hostmem_config.count := hostmem_config.count cfg + 1\<rparr>"
            have hp2: "hp_fd ?hp2 = ?fd" "hp_virt ?hp2 = v" "hp_size ?hp2 = sz" "hp_path ?hp2 = hp_path hp1"
              using gives(4) by (simp_all split: option.split)
            have "v \<noteq> 0" "sz \<noteq> 0" using v(3,4) by (auto simp: space_ok_def)
            then have "holds fds maps k (?hp2\<lparr>hp_config := Some ?cfg\<rparr>) k6" using c6 v(1) o1 hp2 by (simp add: holds_def)
            with True c6 v hp2 mult gives(6) that(2) [of "?hp2\<lparr>hp_config := Some ?cfg\<rparr>" ?cfg k6] show thesis
              by (simp add: all)
          qed
        qed
      qed
    qed
  qed
qed

section \<open>Heaps\<close>

text \<open>A configuration as \<open>hostmem_config_init\<close> makes it.\<close>

definition hostmem_config_ready :: "('k, 'x) page_os_scheme \<Rightarrow> hostmem_config \<Rightarrow> bool" where
  "hostmem_config_ready os cfg \<longleftrightarrow> hostmem_config_ok cfg \<and> pagesize cfg = pg_size os \<and> pagesize_shift cfg \<le> 16 \<and>
     16 \<le> hugepgsz_shift cfg \<and> known_backend cfg"

lemma fresh_heap_ready:
  assumes "hostmem_config_ready os cfg" "space_ok v (unat sz)" "nat (pg_size os) dvd unat v"
    "sz mod size_of_int (hugepgsz cfg) = 0" "length lut = unat (sz div size_of_int (hugepgsz cfg))"
  shows "qpair_heap (fresh_heap v sz cfg lut)" "heap_owns (fresh_heap v sz cfg lut) []"
proof -
  let ?h = "fresh_heap v sz cfg lut" and ?hp = "size_of_int (hugepgsz cfg)"
  have cfg: "hostmem_config_ok cfg" using assms(1) by (simp add: hostmem_config_ready_def)
  have hp: "unat ?hp = hpg ?h" using config_pages(6) [of ?h] cfg by simp
  have "unat sz mod unat ?hp = 0" using assms(4) by (metis unat_mod unsigned_0)
  then have "unat (memsize ?h) = unat (nphys ?h) * hpg ?h"
    using div_mult_mod_eq [of "unat sz" "unat ?hp"] hp by (simp add: unat_div)
  moreover have "lut_ok ?h" by (rule fresh_heap_lut [OF cfg assms(2,5)])
  moreover have "page_bits ?h \<le> 16" "16 \<le> hugepage_bits ?h" "pg ?h = nat (pg_size os)"
    using assms(1) by (auto simp: hostmem_config_ready_def nat_le_iff le_nat_iff)
  ultimately show "qpair_heap ?h" using assms(3) by (simp add: qpair_heap_def dma_heap_def)
  have "owned_by [] []" by (simp add: owned_by_def)
  then show "heap_owns ?h []" using fresh_heap_live [OF cfg assms(2)] unfolding heap_owns_def by blast
qed

lemma hugepage_heap_init_result:
  assumes law: "page_lawful os fds maps files" and cfg: "hostmem_config_ready os cfg"
    and calloc: "\<forall>k. fst (os_malloc os k)"
  obtains (fails) err memory heap cfg' k' where "hostmem_heap_init os sz cfg k = Some (err, memory, heap, cfg', k')" "err \<noteq> 0"
      "fds k' = fds k" "maps k' = maps k" "files k' - own_file cfg = files k - own_file cfg"
    | (gives) memory heap cfg' k' lut k1 k2 where "hostmem_heap_init os sz cfg k = Some (0, memory, heap, cfg', k')"
      "cfg' = cfg\<lparr>hostmem_config.count := hostmem_config.count cfg + 1\<rparr>" "heap = fresh_heap (hp_virt memory) sz cfg' lut"
      "length lut = unat (sz div size_of_int (hugepgsz cfg'))" "space_ok (hp_virt memory) (unat sz)"
      "nat (pg_size os) dvd unat (hp_virt memory)" "sz mod size_of_int (hugepgsz cfg') = 0"
      "holds fds maps k memory k'" "hp_config memory = Some cfg'" "files k' = files k \<union> own_file cfg"
      "backend cfg = HOSTMEM_BACKEND_HUGETLBFS \<longrightarrow> hp_path memory = hugepage_path cfg"
      "lut_loop os (hp_virt memory) (size_of_int (hugepgsz cfg')) [0..<length lut] (Some (replicate (length lut) 0)) k1 =
        Some (0, Some lut, k2)"
proof -
  note l = page_lawfulD [OF law]
  have ok: "hugepgsz cfg \<noteq> 0" "known_backend cfg"
    using cfg by (auto simp: hostmem_config_ready_def hostmem_config_ok_def)
  note def = hostmem_heap_init_def Let_def
  from law ok show thesis
  proof (cases rule: hugepage_alloc_result [where sz = sz and hp = zero_hugepage and k = k])
    case (refused err hp' k')
    then show thesis
      by (intro fails [of err hp' "heap_object hp' cfg 0 Map.empty 0 None" cfg k']) (auto simp: def)
  next
    case (gives memory cfg' k1)
    obtain b k2 where m: "os_malloc os k1 = (b, k2)" by (rule prod.exhaust)
    have b: "b" "calm fds maps files k1 k2" using calloc l(1) [of k1] m by (metis fst_conv, metis snd_conv)
    let ?n = "sz div size_of_int (hugepgsz cfg')" and ?v = "hp_virt memory"
    have "\<forall>i \<in> set [0..<unat ?n]. i < length (replicate (unat ?n) (0 :: u64))" by simp
    then obtain err lut k3 where lu: "lut_loop os ?v (size_of_int (hugepgsz cfg')) [0..<unat ?n] (Some (replicate (unat ?n) 0)) k2 =
        Some (err, Some lut, k3)" "length lut = length (replicate (unat ?n) (0 :: u64))" "calm fds maps files k2 k3"
      by (rule lut_loop_result [OF law])
    have held: "holds fds maps k memory k3" using gives(3) b(2) lu(3) by (simp add: holds_def calm_def)
    have files: "files k3 = files k \<union> own_file cfg" using gives(5) b(2) lu(3) by (simp add: calm_def)
    obtain k4 where t: "hostmem_heap_term os memory k3 = Some (zero_hugepage, k4)" "fds k4 = fds k" "maps k4 = maps k"
      "files k4 = files k3 - (if backend cfg' = HOSTMEM_BACKEND_HUGETLBFS then {hp_path memory} else {})"
      unfolding hostmem_heap_term_def by (rule hugepage_free_result [OF law held gives(4)])
    have f4: "files k4 - own_file cfg = files k - own_file cfg"
      using t(4) files gives(2,10) by (auto simp: own_file_def split: if_splits)
    let ?st = "[?v \<mapsto> \<lparr>size' = sz, free' = True, next' = 0\<rparr>]"
    note all = def gives(1) m b(1) lu(1)
    show thesis
    proof (cases "err = 0")
      case False
      with t(1-3) f4 show thesis
        by (intro fails [of err zero_hugepage "heap_object zero_hugepage cfg' ?n ?st ?v None" cfg' k4])
          (simp_all add: all)
    next
      case True
      have hsz: "hugepgsz cfg' = hugepgsz cfg" using gives(2) by simp
      have "0 < unat sz" using gives(3,6) by (auto simp: holds_def simp flip: unat_gt_0)
      moreover have "unat sz mod unat (size_of_int (hugepgsz cfg') :: u64) = 0" using gives(9) hsz by (metis unat_mod unsigned_0)
      ultimately have "0 < unat ?n" unfolding unat_div by (metis mod_eq_self_iff_div_eq_0 neq0_conv)
      then obtain first where first: "array_get lut 0 = Some first" using lu(2) by (simp add: array_get_def)
      show thesis
      proof (cases "hp_phys memory = first")
        case False
        with t(1-3) f4 True first show thesis
          by (intro fails [of "- ENOMEM" zero_hugepage "heap_object zero_hugepage cfg' ?n ?st ?v None" cfg' k4])
            (simp_all add: all)
      next
        case same: True
        have "hostmem_heap_init os sz cfg k = Some (0, memory, heap_object memory cfg' ?n ?st ?v (Some lut), cfg', k3)"
          using True first same by (simp add: all)
        moreover have "heap_object memory cfg' ?n ?st ?v (Some lut) = fresh_heap ?v sz cfg' lut"
          using gives(6) by (simp add: heap_object_def fresh_heap_def)
        ultimately show thesis
          using gives lu(1,2) True held files hsz
          by (intro that(2) [of memory "fresh_heap ?v sz cfg' lut" cfg' k3 lut k2 k3]) simp_all
      qed
    qed
  qed
qed

text \<open>C18: Setting up a heap returns, whatever the kernel answers, as long as \<open>calloc\<close> gives memory. If
  it fails, the descriptors and mappings are as before, and so are the files up to the one
  named after the count of the configuration. If it succeeds, the heap is one that the allocator, the
  translations and the queue pairs can use, with nothing handed out, and tear-down gives back the
  descriptor and the mapping and removes the file.\<close>

theorem hostmem_heap_init_term_no_leak:
  assumes "page_lawful os fds maps files" "hostmem_config_ready os cfg" "\<forall>k. fst (os_malloc os k)"
  shows "\<exists>ret memory heap cfg' k'. hostmem_heap_init os sz cfg k = Some (ret, memory, heap, cfg', k') \<and>
    (if ret \<noteq> 0 then fds k' = fds k \<and> maps k' = maps k \<and> files k' - own_file cfg = files k - own_file cfg
     else qpair_heap heap \<and> heap_owns heap [] \<and> memsize heap = sz \<and> hostmem_config_ready os cfg' \<and>
       (\<exists>k''. hostmem_heap_term os memory k' = Some (zero_hugepage, k'') \<and> fds k'' = fds k \<and> maps k'' = maps k \<and>
          files k'' = files k - own_file cfg))"
  using assms
proof (cases rule: hugepage_heap_init_result [where sz = sz and k = k])
  case (fails err memory heap cfg' k')
  then show ?thesis by (intro exI [of _ err] exI [of _ memory] exI [of _ heap] exI [of _ cfg'] exI [of _ k']) simp
next
  case (gives memory heap cfg' k' lut k1 k2)
  have ready: "hostmem_config_ready os cfg'" using assms(2) gives(2) by (simp add: hostmem_config_ready_def hostmem_config_ok_def)
  note heap = fresh_heap_ready [OF ready gives(5,6,7,4), folded gives(3)]
  obtain k'' where t: "hostmem_heap_term os memory k' = Some (zero_hugepage, k'')" "fds k'' = fds k" "maps k'' = maps k"
    "files k'' = files k' - (if backend cfg' = HOSTMEM_BACKEND_HUGETLBFS then {hp_path memory} else {})"
    unfolding hostmem_heap_term_def by (rule hugepage_free_result [OF assms(1) gives(8,9)])
  have "files k'' = files k - own_file cfg" using t(4) gives(2,10,11) by (auto simp: own_file_def split: if_splits)
  with t(1-3) heap ready gives(1,3) show ?thesis
    by (intro exI [of _ 0] exI [of _ memory] exI [of _ heap] exI [of _ cfg'] exI [of _ k']) auto
qed

end
