(* ===== verification/Hostmem_Pagemap.thy ===== *)
theory Hostmem_Pagemap
  imports Hostmem_Setup_Props
begin

unbundle bit_operations_syntax

text \<open>
  The configuration that the kernel and the environment give, the translation of a heap that was
  just set up against the page table of the process, the import of a hugepage, and what follows from the
  results that the code does not check.
\<close>

section \<open>Configuration\<close>

definition hostmem_config_code :: "('k, 'x) page_os_scheme \<Rightarrow> 'k \<Rightarrow> int" where
  "hostmem_config_code os k =
     (case pg_fopen os k ''/proc/meminfo'' of
        (Inl e, k1) \<Rightarrow> - e
      | (Inr (fp, lines), k1) \<Rightarrow>
          (case meminfo_loop lines of
             None \<Rightarrow> - ENOMEM
           | Some kb \<Rightarrow>
               if kb \<in> {2048, 1048576} \<and>
                 pg_getenv os (pg_fclose os k1 fp) ''HOSTMEM_BACKEND'' \<in> {None, Some ''memfd'', Some ''hugetlbfs''}
               then 0 else - EINVAL))"

definition meminfo_powers :: "('k, 'x) page_os_scheme \<Rightarrow> bool" where
  "meminfo_powers os \<longleftrightarrow> (\<forall>k fp lines k' kb. pg_fopen os k ''/proc/meminfo'' = (Inr (fp, lines), k') \<longrightarrow>
     meminfo_loop lines = Some kb \<longrightarrow> (\<exists>j \<le> 20. kb = 2 ^ j))"

lemma shift_of_int_power: "m < 63 \<Longrightarrow> upcie_util_shift_from_size dbg (size_of_int (2 ^ m)) = Some m"
  using shift_from_power [of m dbg] by (simp add: size_of_int_def)

lemma hugepgsz_result:
  assumes "page_lawful os fds maps files" "meminfo_powers os"
  obtains (refused) err k' where "hostmem_config_get_hugepgsz os hsz k = Some (err, hsz, k')" "err < 0"
      "err = hostmem_config_code os k" "calm fds maps files k k'"
    | (gives) j k1 fp lines where "hostmem_config_get_hugepgsz os hsz k = Some (0, 2 ^ (j + 10), pg_fclose os k1 fp)" "j \<le> 20"
      "pg_fopen os k ''/proc/meminfo'' = (Inr (fp, lines), k1)" "meminfo_loop lines = Some (2 ^ j)"
      "calm fds maps files k (pg_fclose os k1 fp)"
proof -
  note l = page_lawfulD [OF assms(1)]
  obtain r k1 where o: "pg_fopen os k ''/proc/meminfo'' = (r, k1)" by (rule prod.exhaust)
  show thesis
  proof (cases r)
    case (Inl e)
    with o l(7) [OF o] show thesis
      by (intro refused [of "- e" k1]) (simp_all add: hostmem_config_get_hugepgsz_def hostmem_config_code_def)
  next
    case (Inr r')
    obtain fp lines where r: "r = Inr (fp, lines)" using Inr by (cases r') simp
    have c: "calm fds maps files k (pg_fclose os k1 fp)" using l(7) [OF o] l(8) [of k1 fp] r by (auto simp: calm_def new_fd_def)
    show thesis
    proof (cases "meminfo_loop lines")
      case None
      with o r c show thesis
        by (intro refused [of "- ENOMEM" "pg_fclose os k1 fp"]) (simp_all add: hostmem_config_get_hugepgsz_def hostmem_config_code_def)
    next
      case (Some kb)
      then obtain j where j: "j \<le> 20" "kb = 2 ^ j" using assms(2) o r unfolding meminfo_powers_def by blast
      have p: "kb * 1024 = 2 ^ (j + 10)" using j(2) by (simp add: power_add)
      have up: "(2 :: int) ^ (j + 10) \<le> 2 ^ 30" by (rule power_increasing) (use j(1) in auto)
      have "0 \<le> kb * 1024" unfolding p by simp
      moreover have "kb * 1024 \<le> 2 ^ 30" unfolding p by (rule up)
      ultimately have "- (2 ^ 31) \<le> kb * 1024" "kb * 1024 < 2 ^ 31" by simp_all
      with o r Some c j p show thesis
        by (intro gives [of j k1 fp lines]) (simp_all add: hostmem_config_get_hugepgsz_def)
    qed
  qed
qed

lemma config_init_result:
  assumes "page_lawful os fds maps files" "meminfo_powers os" "pg_size os = 2 ^ s" "5 \<le> s" "s \<le> 16"
  shows "\<exists>ret cfg' k'. hostmem_config_init dbg os cfg k = Some (ret, cfg', k') \<and> calm fds maps files k k' \<and>
    ret = hostmem_config_code os k \<and>
    (ret = 0 \<longrightarrow> hostmem_config_ready os cfg' \<and> hugepgsz_shift cfg' \<in> {21, 30} \<and> memfd_flags cfg' = 4 + hugepgsz_shift cfg' * 2 ^ 26 \<and>
       hostmem_config.count cfg' = hostmem_config.count cfg)"
proof -
  let ?cfg = "cfg\<lparr>hugetlb_path := ''/mnt/huge'', pagesize := pg_size os, pagesize_shift := int s\<rparr>"
  have sh: "upcie_util_shift_from_size dbg (size_of_int (pg_size os)) = Some s"
    unfolding assms(3) by (rule shift_of_int_power) (use assms(5) in simp)
  note def = hostmem_config_init_def Let_def sh
  from assms(1,2) show ?thesis
  proof (cases rule: hugepgsz_result [where hsz = "hugepgsz ?cfg" and k = k])
    case (refused err k')
    then show ?thesis
      by (intro exI [of _ err] exI [of _ "?cfg\<lparr>hugepgsz := hugepgsz ?cfg\<rparr>"] exI [of _ k']) (simp add: def)
  next
    case (gives j k1 fp lines)
    let ?k = "pg_fclose os k1 fp"
    define h where "h = (2 :: int) ^ (j + 10)"
    have hs: "upcie_util_shift_from_size dbg (size_of_int h) = Some (j + 10)"
      unfolding h_def by (rule shift_of_int_power) (use gives(2) in simp)
    have get: "hostmem_config_get_hugepgsz os (hugepgsz ?cfg) k = Some (0, h, ?k)" using gives(1) by (simp only: h_def)
    have j: "h = 2 * 1024 * 1024 \<longleftrightarrow> j = 11" "h = 1 * 1024 * 1024 * 1024 \<longleftrightarrow> j = 20"
      "2 ^ j = (2048 :: int) \<longleftrightarrow> j = 11" "2 ^ j = (1048576 :: int) \<longleftrightarrow> j = 20"
      using power_inject_exp [of "2 :: int" "j + 10" 21] power_inject_exp [of "2 :: int" "j + 10" 30]
        power_inject_exp [of "2 :: int" j 11] power_inject_exp [of "2 :: int" j 20] by (simp_all add: h_def)
    have code: "hostmem_config_code os k = (if (j = 11 \<or> j = 20) \<and>
        pg_getenv os ?k ''HOSTMEM_BACKEND'' \<in> {None, Some ''memfd'', Some ''hugetlbfs''} then 0 else - EINVAL)"
      using j(3,4) gives(3,4) by (simp add: hostmem_config_code_def)
    show ?thesis
    proof (cases "j = 11 \<or> j = 20")
      case False
      with j(1,2) get gives(5) hs code show ?thesis
        by (intro exI [of _ "- EINVAL"] exI [of _ "?cfg\<lparr>hugepgsz := h, hugepgsz_shift := int (j + 10), memfd_flags := MFD_HUGETLB\<rparr>"]
            exI [of _ ?k]) (simp add: def)
    next
      case True
      let ?path = "case pg_getenv os ?k ''HOSTMEM_HUGETLB_PATH'' of Some env \<Rightarrow> take 127 env | None \<Rightarrow> ''/mnt/huge''"
      let ?c = "?cfg\<lparr>hugepgsz := h, hugepgsz_shift := int (j + 10),
        memfd_flags := MFD_HUGETLB OR (if j = 11 then MFD_HUGE_2MB else MFD_HUGE_1GB), hugetlb_path := ?path\<rparr>"
      have flags: "memfd_flags ?c = 4 + hugepgsz_shift ?c * 2 ^ 26"
        using True by (auto simp: MFD_HUGE_2MB_def MFD_HUGE_1GB_def)
      have ready: "hostmem_config_ready os (?c\<lparr>backend := b\<rparr>)" if "b \<in> {HOSTMEM_BACKEND_MEMFD, HOSTMEM_BACKEND_HUGETLBFS}" for b
        using that True assms(3-5) by (auto simp: h_def hostmem_config_ready_def hostmem_config_ok_def nat_add_distrib)
      have run: "hostmem_config_init dbg os cfg k = (case pg_getenv os ?k ''HOSTMEM_BACKEND'' of
          Some env \<Rightarrow> if env = ''memfd'' then Some (0, ?c\<lparr>backend := HOSTMEM_BACKEND_MEMFD\<rparr>, ?k)
            else if env = ''hugetlbfs'' then Some (0, ?c\<lparr>backend := HOSTMEM_BACKEND_HUGETLBFS\<rparr>, ?k)
            else Some (- EINVAL, ?c, ?k)
        | None \<Rightarrow> Some (0, ?c\<lparr>backend := HOSTMEM_BACKEND_MEMFD\<rparr>, ?k))"
        using True j(1,2) get hs
        by (elim disjE; cases "pg_getenv os ?k ''HOSTMEM_HUGETLB_PATH''"; cases "pg_getenv os ?k ''HOSTMEM_BACKEND''")
          (simp_all add: def)
      show ?thesis
        unfolding run using code True gives(5) ready flags
        by (cases "pg_getenv os ?k ''HOSTMEM_BACKEND''") auto
    qed
  qed
qed

text \<open>C20: Initializing a configuration on a machine whose hugepages have a power of two of kilobytes
  returns, opens nothing that it does not close, and returns the code that the size of the
  hugepages and the environment call for: 0 only for 2 MiB and 1 GiB and a known backend, and then the configuration is
  one that the heap can be set up with, its flags naming the size of the hugepages.\<close>

theorem hostmem_config_init_ready:
  assumes "page_lawful os fds maps files" "meminfo_powers os" "pg_size os = 2 ^ s" "5 \<le> s" "s \<le> 16"
  shows "\<exists>ret cfg' k'. hostmem_config_init dbg os cfg k = Some (ret, cfg', k') \<and> calm fds maps files k k' \<and>
    ret = hostmem_config_code os k \<and>
    (ret = 0 \<longrightarrow> hostmem_config_ready os cfg' \<and> memfd_flags cfg' = 4 + hugepgsz_shift cfg' * 2 ^ 26 \<and>
       hostmem_config.count cfg' = hostmem_config.count cfg)"
  using config_init_result [OF assms, of dbg cfg k] by blast

section \<open>The table and the kernel\<close>

text \<open>The page table of the process: the entry of a page that stays where it is, which is read whole.\<close>

definition pagemap_is :: "('k, 'x) page_os_scheme \<Rightarrow> (u64 \<Rightarrow> u64) \<Rightarrow> bool" where
  "pagemap_is os pm \<longleftrightarrow> (\<forall>k fd p r k'. pg_pread64 os k fd (p * 8) = (r, k') \<longrightarrow> (case r of Inl e \<Rightarrow> 0 < e | Inr x \<Rightarrow> x = Some (pm p)))"

definition frame :: "u64 \<Rightarrow> u64" where
  "frame entry = entry AND (push_bit 55 1 - 1)"

definition kernel_phys :: "('k, 'x) page_os_scheme \<Rightarrow> (u64 \<Rightarrow> u64) \<Rightarrow> u64 \<Rightarrow> u64" where
  "kernel_phys os pm v = frame (pm (v div size_of_int (pg_size os))) * size_of_int (pg_size os) + v mod size_of_int (pg_size os)"

lemma pagemap_result:
  assumes "page_lawful os fds maps files" "pagemap_is os pm" "hostmem_pagemap_virt_to_phys os v k = (err, w, k')"
  shows "w = (if err = 0 then Some (kernel_phys os pm v) else None)"
proof -
  note l = page_lawfulD [OF assms(1)]
  obtain r k1 where o: "os_open os k ''/proc/self/pagemap'' = (r, k1)" by (rule prod.exhaust)
  show ?thesis
  proof (cases r)
    case (Inl e)
    with o assms(3) l(2) [OF o] show ?thesis by (auto simp: hostmem_pagemap_virt_to_phys_def)
  next
    case (Inr fd)
    obtain rp k2 where p: "pg_pread64 os k1 fd (v div size_of_int (pg_size os) * 8) = (rp, k2)" by (rule prod.exhaust)
    then have "case rp of Inl e \<Rightarrow> 0 < e | Inr x \<Rightarrow> x = Some (pm (v div size_of_int (pg_size os)))"
      using assms(2) unfolding pagemap_is_def by blast
    with o Inr p assms(3) show ?thesis
      by (auto simp: hostmem_pagemap_virt_to_phys_def Let_def kernel_phys_def frame_def split: sum.split_asm if_split_asm)
  qed
qed

lemma lut_loop_table:
  assumes "page_lawful os fds maps files" "pagemap_is os pm" "\<forall>i \<in> set is. i < length l" "distinct is"
    and "lut_loop os v hsz is (Some l) k = Some (0, Some l', k')"
  shows "length l' = length l \<and>
    (\<forall>i < length l. l' ! i = (if i \<in> set is then kernel_phys os pm (v + of_nat i * hsz) else l ! i))"
  using assms(3-)
proof (induction "is" arbitrary: l k)
  case (Cons i "is")
  obtain err w k1 where p: "hostmem_pagemap_virt_to_phys os (v + of_nat i * hsz) k = (err, w, k1)" by (rule prod_cases3)
  note w = pagemap_result [OF assms(1,2) p]
  have "err = 0" using p w Cons.prems(3) by (auto split: if_split_asm)
  then have run: "lut_loop os v hsz is (Some (l[i := kernel_phys os pm (v + of_nat i * hsz)])) k1 = Some (0, Some l', k')"
    using p w Cons.prems(1,3) by simp
  from Cons.IH [OF _ _ run] Cons.prems(1,2) show ?case by (auto simp: nth_list_update)
qed simp

text \<open>The pages of a hugepage lie one after the other in physical memory.\<close>

definition hugepages_contiguous :: "('k, 'x) page_os_scheme \<Rightarrow> (u64 \<Rightarrow> u64) \<Rightarrow> hostmem_heap \<Rightarrow> bool" where
  "hugepages_contiguous os pm heap \<longleftrightarrow> (\<forall>i < unat (nphys heap). \<forall>j < hpg heap div pg heap.
     let p = (virt heap + of_nat (i * hpg heap)) div size_of_int (pg_size os)
     in frame (pm (p + of_nat j)) = frame (pm p) + of_nat j)"

lemma word_split:
  assumes "0 < n" "n < 2 ^ 64" "n dvd unat (a :: u64)" "unat a + y < 2 ^ 64"
  shows "(a + of_nat y) div of_nat n = a div of_nat n + of_nat (y div n)" "(a + of_nat y) mod of_nat n = of_nat (y mod n)"
    "a mod of_nat n = 0"
proof -
  have n: "unat (of_nat n :: u64) = n" by (rule unat_of_nat_u64 [OF assms(2)])
  have y: "unat (of_nat y :: u64) = y" by (rule unat_of_nat_u64) (use assms(4) in simp)
  have s: "unat (a + of_nat y) = unat a + y" using assms(4) y by (simp add: unat_add_u64)
  have d: "(unat a + y) div n = unat a div n + y div n" using assms(1,3) by (metis div_plus_div_distrib_dvd_left)
  have b: "unat a div n + y div n < 2 ^ 64" unfolding d [symmetric] using assms(4) by (meson div_le_dividend le_less_trans)
  show "(a + of_nat y) div of_nat n = a div of_nat n + of_nat (y div n)"
  proof (rule u64_eqI)
    have q: "unat (of_nat (y div n) :: u64) = y div n" "unat (a div of_nat n) = unat a div n"
      using b by (simp_all add: unat_of_nat_u64 unat_div n)
    have "unat (a div of_nat n + of_nat (y div n)) = unat a div n + y div n"
      using b q by (simp add: unat_add_u64)
    then show "unat ((a + of_nat y) div of_nat n) = unat (a div of_nat n + of_nat (y div n))"
      by (simp only: unat_div s n d)
  qed
  have "y mod n < 2 ^ 64" using assms(4) by (meson le_less_trans mod_less_eq_dividend le_add2)
  then have "unat (of_nat (y mod n) :: u64) = y mod n" by (rule unat_of_nat_u64)
  moreover have "(unat a + y) mod n = y mod n" using assms(3) by (metis dvd_imp_mod_0 mod_add_left_eq add_0)
  ultimately show "(a + of_nat y) mod of_nat n = of_nat (y mod n)" by (intro u64_eqI) (simp only: unat_mod s n)
  show "a mod of_nat n = 0" using assms(3) by (intro u64_eqI) (simp only: unat_mod n unsigned_0 dvd_imp_mod_0)
qed

lemma kernel_phys_step:
  assumes "pg_size os = int n" "0 < n" "n < 2 ^ 31" "n dvd unat a" "unat a + y < 2 ^ 64"
    and "frame (pm (a div of_nat n + of_nat (y div n))) = frame (pm (a div of_nat n)) + of_nat (y div n)"
  shows "kernel_phys os pm (a + of_nat y) = kernel_phys os pm a + of_nat y"
proof -
  have n: "size_of_int (pg_size os) = of_nat n" by (simp add: size_of_int_def assms(1))
  have "n < 2 ^ 64" using assms(3) by simp
  note w = word_split [OF assms(2) this assms(4,5)]
  have y: "(of_nat y :: u64) = of_nat (y div n) * of_nat n + of_nat (y mod n)"
    by (metis div_mult_mod_eq of_nat_add of_nat_mult)
  have "kernel_phys os pm (a + of_nat y) =
      (frame (pm (a div of_nat n)) + of_nat (y div n)) * of_nat n + of_nat (y mod n)"
    by (simp only: kernel_phys_def n w assms(6))
  moreover have "kernel_phys os pm a = frame (pm (a div of_nat n)) * of_nat n" by (simp add: kernel_phys_def n w(3))
  ultimately show ?thesis by (simp only: y distrib_right add.assoc)
qed

lemma contiguous_phys:
  assumes lut: "lut_ok heap" "pg heap dvd unat (virt heap)" and size: "pg_size os = pagesize (config heap)"
    and contig: "hugepages_contiguous os pm heap" and x: "x < unat (nphys heap) * hpg heap"
  shows "kernel_phys os pm (virt heap + of_nat x) =
    kernel_phys os pm (virt heap + of_nat (x div hpg heap) * of_nat (hpg heap)) + of_nat (x mod hpg heap)"
proof -
  let ?i = "x div hpg heap" and ?y = "x mod hpg heap"
  let ?a = "virt heap + of_nat ?i * of_nat (hpg heap) :: u64"
  have cfg: "hostmem_config_ok (config heap)" using lut(1) by (simp add: lut_ok_def)
  note pages = config_pages [OF cfg]
  have below: "?i * hpg heap + ?y = x" and le: "?i * hpg heap \<le> x" by simp_all
  note ix = lut_index [OF lut(1) x]
  have "?i * hpg heap < unat (nphys heap) * hpg heap" by (rule le_less_trans [OF le x])
  from lut_index(4) [OF lut(1) this] have ua: "unat ?a = unat (virt heap) + ?i * hpg heap" by simp
  have sum: "unat ?a + ?y < 2 ^ 64" using ua below ix(4) unat_u64_bound [of "virt heap + of_nat x"] by simp
  have n: "pg_size os = int (pg heap)" "pg heap < 2 ^ 31"
    using size pages(4,7,8) by auto
  have "kernel_phys os pm (?a + of_nat ?y) = kernel_phys os pm ?a + of_nat ?y"
  proof (rule kernel_phys_step [OF n(1) pages(8) n(2) _ sum])
    show "pg heap dvd unat ?a" unfolding ua using lut(2) pages(2) by simp
    have "?y < hpg heap" using pages(3) by simp
    then have "?y div pg heap < hpg heap div pg heap"
      using pages(2,8) by (metis dvd_mult_div_cancel less_mult_imp_div_less mult.commute)
    with contig ix(1) have "frame (pm ((virt heap + of_nat (?i * hpg heap)) div size_of_int (pg_size os) + of_nat (?y div pg heap))) =
        frame (pm ((virt heap + of_nat (?i * hpg heap)) div size_of_int (pg_size os))) + of_nat (?y div pg heap)"
      unfolding hugepages_contiguous_def Let_def by blast
    moreover have "(size_of_int (pg_size os) :: u64) = of_nat (pg heap)" by (simp add: size_of_int_def n(1))
    ultimately show "frame (pm (?a div of_nat (pg heap) + of_nat (?y div pg heap))) =
        frame (pm (?a div of_nat (pg heap))) + of_nat (?y div pg heap)" by simp
  qed
  moreover have "?a + of_nat ?y = virt heap + of_nat x"
    using below by (simp only: add.assoc flip: of_nat_mult of_nat_add)
  ultimately show ?thesis by (simp only:)
qed

text \<open>C19: On a heap that was just set up, the translation that the driver uses agrees with the page table of the
  process for every byte: what \<open>hostmem_dma_v2p\<close> computes from the table of the heap is what asking
  the kernel for that very address gives, whenever it gives an answer. The kernel's promise
  for hugepages is that the pages of each lie in order.\<close>

theorem hostmem_heap_table_agrees:
  assumes "page_lawful os fds maps files" "hostmem_config_ready os cfg" "\<forall>k. fst (os_malloc os k)" "pagemap_is os pm"
    and init: "hostmem_heap_init os sz cfg k = Some (0, memory, heap, cfg', k')"
    and contig: "hugepages_contiguous os pm heap" and x: "x < unat sz"
    and ask: "hostmem_pagemap_virt_to_phys os (virt heap + of_nat x) k1 = (0, w, k2)"
  shows "w = hostmem_dma_v2p heap (virt heap + of_nat x)"
  using assms(1-3)
proof (cases rule: hugepage_heap_init_result [where sz = sz and k = k])
  case (gives memory1 heap1 cfg1 k1' lut k3 k4)
  have eq: "heap1 = heap" "cfg1 = cfg'" using gives(1) init by simp_all
  have ready: "hostmem_config_ready os cfg'"
    using assms(2) gives(2) eq(2) by (simp add: hostmem_config_ready_def hostmem_config_ok_def)
  note g = gives(3-7,12) [unfolded eq]
  have mem: "memsize heap = sz" "virt heap = hp_virt memory1" "phys_lut heap = lut" "config heap = cfg'" using g(1) by simp_all
  have q: "qpair_heap heap" using fresh_heap_ready(1) [OF ready g(3,4,5,2)] g(1) by simp
  then have lut: "lut_ok heap" "unat (memsize heap) = unat (nphys heap) * hpg heap" "pg heap dvd unat (virt heap)"
    by (simp_all add: qpair_heap_def dma_heap_def)
  have xb: "x < unat (nphys heap) * hpg heap" using x lut(2) mem(1) by simp
  have size: "pg_size os = pagesize (config heap)" using ready mem(4) by (simp add: hostmem_config_ready_def)
  have il: "x div hpg heap < length lut" using lut_index(1) [OF lut(1) xb] g(1,2) by simp
  have "unat (size_of_int (hugepgsz cfg') :: u64) = hpg heap"
    using config_pages(6) [of heap] lut(1) mem(4) by (simp add: lut_ok_def)
  then have hsz: "(size_of_int (hugepgsz cfg') :: u64) = of_nat (hpg heap)"
    by (metis word_unat_eq_iff unat_of_nat_u64 unat_u64_bound)
  have "\<forall>j \<in> set [0..<length lut]. j < length (replicate (length lut) (0 :: u64))" by simp
  from lut_loop_table [OF assms(1,4) this _ g(6)] il
  have "lut ! (x div hpg heap) = kernel_phys os pm (virt heap + of_nat (x div hpg heap) * of_nat (hpg heap))"
    by (simp add: hsz mem(2))
  moreover have "w = Some (kernel_phys os pm (virt heap + of_nat x))" using pagemap_result [OF assms(1,4) ask] by simp
  ultimately show ?thesis
    using contiguous_phys [OF lut(1,3) size contig xb] by (simp only: v2p_eq [OF lut(1) xb] host_phys_def mem(3))
qed (use init in simp)

section \<open>Import\<close>

lemma import_result:
  assumes law: "page_lawful os fds maps files" and cfg: "hugepgsz cfg \<noteq> 0"
  obtains (refused) err hp' k' where "hostmem_hugepage_import os path hp cfg k = Some (err, hp', k')" "err < 0"
      "calm fds maps files k k'"
    | (gives) hp' k' where "hostmem_hugepage_import os path hp cfg k = Some (0, hp', k')" "holds fds maps k hp' k'"
      "hp_size hp' mod size_of_int (hugepgsz cfg) = 0" "hp_config hp' = Some cfg" "hp_path hp' = take 255 path" "files k' = files k"
proof -
  note l = page_lawfulD [OF law]
  let ?hp = "hp\<lparr>hp_path := take 255 path, hp_config := Some cfg\<rparr>"
  obtain r1 k1 where s1: "os_open os k (take 255 path) = (r1, k1)" by (rule prod.exhaust)
  note def = hostmem_hugepage_import_def Let_def s1 cfg
  show thesis
  proof (cases r1)
    case (Inl e)
    with l(2) [OF s1] show thesis by (intro refused [of "- e" "?hp\<lparr>hp_fd := - 1\<rparr>" k1]) (simp_all add: def)
  next
    case r1: (Inr fd)
    have o1: "0 \<le> fd" "fd \<notin> fds k" "fds k1 = insert fd (fds k)" "maps k1 = maps k" "files k1 = files k"
      using l(2) [OF s1] r1 by (simp_all add: new_fd_def)
    obtain r2 k2 where s2: "pg_fstat os k1 fd = (r2, k2)" by (rule prod.exhaust)
    have o2: "fds k2 = insert fd (fds k)" "maps k2 = maps k" "files k2 = files k"
      using l(16) [OF s2] o1 by (simp_all add: calm_def)
    show thesis
    proof (cases "\<exists>sz. r2 = Inr sz \<and> sz mod size_of_int (hugepgsz cfg) = 0")
      case False
      with s2 r1 o1 o2 l(16) [OF s2] refused show thesis by (cases r2) (simp_all add: def l(3-5) calm_def)
    next
      case True
      then obtain sz where sz: "r2 = Inr sz" "sz mod size_of_int (hugepgsz cfg) = 0" by (elim exE conjE)
      obtain r3 k3 where s3: "fs_map os k2 fd sz = (r3, k3)" by (rule prod.exhaust)
      show thesis
      proof (cases r3)
        case (Inl e)
        with s2 sz s3 r1 o1 o2 l(19) [OF s3] refused show thesis by (simp add: def l(3-5) calm_def)
      next
        case r3: (Inr v)
        let ?k = "touch_pages os v sz (nat (pagesize cfg)) k3"
        obtain err w k5 where p: "hostmem_pagemap_virt_to_phys os v ?k = (err, w, k5)" by (rule prod_cases3)
        have "calm fds maps files k3 k5" by (rule calm_trans [OF touch_pages_calm [OF law] pagemap_calm(1) [OF law p]])
        then have o5: "fds k5 = insert fd (fds k)" "maps k5 = insert (v, sz) (maps k)" "files k5 = files k"
          "(v, sz) \<notin> maps k" "v \<noteq> 0" "sz \<noteq> 0"
          using l(19) [OF s3] r3 o2 by (auto simp: calm_def space_ok_def)
        note all = def s2 sz s3 r1 r3 p
        show thesis
        proof (cases "err = 0")
          case False
          with o1 o5 refused show thesis by (simp add: all l(3-5,20-22) calm_def)
        next
          case ok: True
          let ?hp' = "case w of Some a \<Rightarrow> ?hp\<lparr>hp_fd := fd, hp_size := sz, hp_virt := v, hp_phys := a\<rparr>
            | None \<Rightarrow> ?hp\<lparr>hp_fd := fd, hp_size := sz, hp_virt := v\<rparr>"
          have hp': "hp_fd ?hp' = fd" "hp_virt ?hp' = v" "hp_size ?hp' = sz" "hp_path ?hp' = take 255 path" "hp_config ?hp' = Some cfg"
            by (simp_all split: option.split)
          have held: "holds fds maps k ?hp' k5" using o1 o5 by (simp add: holds_def hp')
          with hp' ok o5(3) sz(2) show thesis by (intro gives [of ?hp' k5]) (simp_all add: all)
        qed
      qed
    qed
  qed
qed

text \<open>C21: Importing a hugepage returns. If it fails, nothing is held and the error is negative; if it
  succeeds, the size is that of the file and a multiple of the size of hugepages, the descriptor and the mapping are
  held and nothing else, and releasing gives them back. With files for hugepages, releasing also
  removes the file, which is the exporter's.\<close>

theorem hostmem_hugepage_import_outcome:
  assumes "page_lawful os fds maps files" "hugepgsz cfg \<noteq> 0"
  shows "\<exists>err hp' k'. hostmem_hugepage_import os path hp cfg k = Some (err, hp', k') \<and> files k' = files k \<and>
    (if err \<noteq> 0 then err < 0 \<and> fds k' = fds k \<and> maps k' = maps k
     else holds fds maps k hp' k' \<and> hp_size hp' mod size_of_int (hugepgsz cfg) = 0 \<and>
       (\<exists>k''. hostmem_hugepage_free os hp' k' = Some (zero_hugepage, k'') \<and> fds k'' = fds k \<and> maps k'' = maps k \<and>
          files k'' = files k - (if backend cfg = HOSTMEM_BACKEND_HUGETLBFS then {take 255 path} else {})))"
  using assms
proof (cases rule: import_result [where path = path and hp = hp and k = k])
  case (refused err hp' k')
  then show ?thesis by (intro exI [of _ err] exI [of _ hp'] exI [of _ k']) (simp add: calm_def)
next
  case (gives hp' k')
  obtain k'' where "hostmem_hugepage_free os hp' k' = Some (zero_hugepage, k'')" "fds k'' = fds k" "maps k'' = maps k"
    "files k'' = files k' - (if backend cfg = HOSTMEM_BACKEND_HUGETLBFS then {hp_path hp'} else {})"
    by (rule hugepage_free_result [OF assms(1) gives(2,4)])
  with gives show ?thesis by (intro exI [of _ 0] exI [of _ hp'] exI [of _ k']) simp
qed

section \<open>Results that are not checked\<close>

text \<open>A read of the page table that gives fewer than eight bytes is reported as whatever \<open>errno\<close> was; when
  that is 0, as a success that wrote no address.\<close>

lemma pagemap_short_read:
  assumes "os_open os k ''/proc/self/pagemap'' = (Inr fd, k1)"
    "pg_pread64 os k1 fd (v div size_of_int (pg_size os) * 8) = (Inr None, k2)"
  shows "hostmem_pagemap_virt_to_phys os v k = (- pg_errno os (os_close os k2 fd), None, os_close os k2 fd)"
  using assms by (simp add: hostmem_pagemap_virt_to_phys_def Let_def)

text \<open>When \<open>calloc\<close> gives no table, the first address that is found is written through the null pointer.\<close>

lemma hostmem_heap_init_calloc_unchecked:
  assumes "hostmem_hugepage_alloc os sz zero_hugepage cfg k = Some (0, memory, cfg1, k1)"
    and "os_malloc os k1 = (False, k2)" "0 < unat (sz div size_of_int (hugepgsz cfg1))"
    and "hostmem_pagemap_virt_to_phys os (hp_virt memory) k2 = (0, Some a, k3)"
  shows "hostmem_heap_init os sz cfg k = None"
proof -
  have "[0..<unat (sz div size_of_int (hugepgsz cfg1))] = 0 # [1..<unat (sz div size_of_int (hugepgsz cfg1))]"
    using assms(3) by (simp add: upt_conv_Cons)
  then show ?thesis using assms by (simp add: hostmem_heap_init_def Let_def)
qed

end
