(* ===== verification/Nvme_Driver_Props.thy ===== *)
theory Nvme_Driver_Props
  imports Nvme_Driver Nvme_Open_Room Hostmem_Pagemap
begin

unbundle bit_operations_syntax

text \<open>
  The whole example driver: it returns whatever the kernel and the device answer, and gives back what it took.
\<close>

section \<open>A command with a buffer\<close>

text \<open>A page of PRP entries has at least 512 of them.\<close>

definition prp_pages :: "('d, 'x) dma_hw_scheme \<Rightarrow> bool" where
  "prp_pages hw \<longleftrightarrow> (\<forall>d a. 512 \<le> length (hw_list hw d a) \<and> length (hw_list hw d a) < 2 ^ 32)"

lemma submit_prepared:
  assumes "qp_rpool qp = Live pool" "nvme_request_alloc dbg pool = Some (Inr req, pool1)"
    and "array_get (reqs pool1) req = Some request"
    and "prep request (cmd\<lparr>cmd_cid := req_cid request\<rparr>) d = Some (cmd1, d1)" "cmd_cid cmd1 = req_cid request"
  shows "submit_sync_with dbg hw prep qp cmd timeout_ms cpl d = nvme_qpair_submit_sync dbg hw qp cmd1 timeout_ms cpl d1"
proof -
  have "cmd1\<lparr>cmd_cid := req_cid request\<rparr> = cmd1" using assms(5) by (cases cmd1) simp
  then show ?thesis
    unfolding nvme_qpair_submit_sync_def submit_sync_with_def by (simp add: assms(1-4) cong del: if_weak_cong)
qed

text \<open>A submission with a buffer of the heap is one of the command that the builder makes, so it returns as
  one without a buffer does.\<close>

lemma contig_prepared:
  assumes "qpair_live qp" "0 < top (qpair_pool qp)" "dma_heap heap" "in_heap heap dbuf n"
    and "page_count (pg heap) (unat dbuf mod pg heap) (unat n) \<le> 513" "prp_pages hw"
  obtains cmd1 a l where "nvme_qpair_submit_sync_contig_prps dbg hw qp heap dbuf n cmd timeout_ms cpl d =
    nvme_qpair_submit_sync dbg hw qp cmd1 timeout_ms cpl (hw_set_list hw d a l)"
proof -
  obtain pool where pool: "qp_rpool qp = Live pool" "pool_wf pool" using assms(1) by (auto simp: qpair_live_def)
  then have tp: "0 < top pool" using assms(2) by simp
  let ?pool1 = "pool\<lparr>top := top pool - 1\<rparr>"
  obtain cid where al: "nvme_request_alloc dbg pool = Some (Inr cid, ?pool1)" "cid \<in> free_cids pool"
    using nvme_request_alloc_pops [OF pool(2) tp, of dbg] by blast
  then have lt: "cid < length (reqs ?pool1)" using pool(2) by (auto simp: pool_wf_def all_cids_def)
  let ?req = "reqs ?pool1 ! cid"
  let ?lst = "hw_list hw d (req_prp ?req)"
  note g = buffers_sizes [OF assms(3)]
  have lst: "512 \<le> length ?lst" "length ?lst < 2 ^ 32" using assms(6) by (simp_all add: prp_pages_def)
  then have "page_count (2 ^ page_bits heap) (unat dbuf mod 2 ^ page_bits heap) (unat n) \<le> 1 + min 512 (length ?lst)"
    using assms(5) unfolding g(4) by simp
  from buffers.prep_contig_correct [OF g(6) _ g(1-3) this lst(2), of dbg ?req "cmd\<lparr>cmd_cid := req_cid ?req\<rparr>"] assms(4)
  obtain l' cmd1 where prep: "nvme_request_prep_command_prps_contig dbg ?req heap dbuf n ?lst (cmd\<lparr>cmd_cid := req_cid ?req\<rparr>) =
      Some (l', cmd1)"
    "cmd1 = cmd\<lparr>cmd_cid := req_cid ?req\<rparr>\<lparr>cmd_prp1 := cmd_prp1 cmd1, cmd_prp2 := cmd_prp2 cmd1\<rparr>"
    unfolding nvme_request_prep_command_prps_contig_def retranslate_eq in_heap_region by blast
  from prep(2) obtain a b where "cmd1 = cmd\<lparr>cmd_cid := req_cid ?req\<rparr>\<lparr>cmd_prp1 := a, cmd_prp2 := b\<rparr>" by blast
  then have cid: "cmd_cid cmd1 = req_cid ?req" by simp
  have "nvme_qpair_submit_sync_contig_prps dbg hw qp heap dbuf n cmd timeout_ms cpl d =
      nvme_qpair_submit_sync dbg hw qp cmd1 timeout_ms cpl (hw_set_list hw d (req_prp ?req) l')"
    unfolding nvme_qpair_submit_sync_contig_prps_def
    by (rule submit_prepared [OF pool(1) al(1) _ _ cid]) (use lt prep(1) in \<open>simp_all add: array_get_def\<close>)
  then show thesis by (rule that)
qed

lemma submit_contig_live:
  assumes "qp_ok qp" "qpair_live qp" "dbg \<Longrightarrow> 0 < top (qpair_pool qp)" "dma_heap heap" "in_heap heap dbuf n"
    and "page_count (pg heap) (unat dbuf mod pg heap) (unat n) \<le> 513" "prp_pages hw"
  obtains ret qp' cmd' cpl' d' where
    "nvme_qpair_submit_sync_contig_prps dbg hw qp heap dbuf n cmd timeout_ms cpl d = Some (ret, qp', cmd', cpl', d')"
    "ret \<in> {0, - EIO, EAGAIN, - ENOMEM}" "qp_ok qp'" "qpair_live qp'" "\<forall>page. qpair_mem page qp' = qpair_mem page qp"
    "top (qpair_pool qp) \<le> top (qpair_pool qp') + 1" "qp_qid qp' = qp_qid qp"
proof (cases "top (qpair_pool qp) = 0")
  case True
  obtain pool where pool: "qp_rpool qp = Live pool" using assms(2) by (auto simp: qpair_live_def)
  from assms(3) True have "\<not> dbg" by auto
  with True pool assms(1,2) show thesis
    by (intro that [of "- ENOMEM" qp cmd cpl d])
      (simp_all add: nvme_qpair_submit_sync_contig_prps_def submit_sync_with_def nvme_request_alloc_def c_assert_def)
next
  case False
  then have tp: "0 < top (qpair_pool qp)" by simp
  obtain cmd1 a l where run: "nvme_qpair_submit_sync_contig_prps dbg hw qp heap dbuf n cmd timeout_ms cpl d =
      nvme_qpair_submit_sync dbg hw qp cmd1 timeout_ms cpl (hw_set_list hw d a l)"
    by (rule contig_prepared [OF assms(2) tp assms(4-7)])
  show thesis
    by (rule submit_live [OF assms(1-3), where dbg = dbg and hw = hw and cmd = cmd1 and timeout_ms = timeout_ms and cpl = cpl
          and d = "hw_set_list hw d a l"])
      (use run that in auto)
qed

section \<open>Closing, anywhere\<close>

text \<open>What closing a PCI function takes away does not depend on when it is closed.\<close>

definition func_fds :: "pci_func \<Rightarrow> int set" where
  "func_fds func = pb_fd ` {b \<in> set (pf_bars func). pb_region b \<noteq> 0}"

definition func_maps :: "pci_func \<Rightarrow> (u64 \<times> u64) set" where
  "func_maps func = (\<lambda>b. (pb_region b, pb_size b)) ` {b \<in> set (pf_bars func). pb_region b \<noteq> 0}"

lemma func_close_effect:
  assumes "fs_lawful os fds maps"
  shows "fds (snd (pci_func_close os func k)) = fds k - func_fds func"
    "maps (snd (pci_func_close os func k)) = maps k - func_maps func"
proof -
  note l = fs_lawfulD [OF assms]
  have "fds (snd (unmap_all os bs k)) = fds k - pb_fd ` {b \<in> set bs. pb_region b \<noteq> 0} \<and>
      maps (snd (unmap_all os bs k)) = maps k - (\<lambda>b. (pb_region b, pb_size b)) ` {b \<in> set bs. pb_region b \<noteq> 0}" for bs k
  proof (induction bs arbitrary: k)
    case (Cons b bs)
    then show ?case by (auto simp: pci_bar_unmap_def case_prod_beta Let_def l(5,6,14,15))
  qed simp
  then show "fds (snd (pci_func_close os func k)) = fds k - func_fds func"
    "maps (snd (pci_func_close os func k)) = maps k - func_maps func"
    by (simp_all add: pci_func_close_def case_prod_beta Let_def func_fds_def func_maps_def)
qed

section \<open>The heap of the driver\<close>

lemma room_needed:
  "x \<le> 4096 + p \<Longrightarrow> p \<le> 65536 \<Longrightarrow>
   x + p + 2097152 + (2 * (65536 + p + 2097152) + (1024 * p + p + 2097152)) + 2097152 \<le> (134217728 :: nat)"
  by simp

lemma rte_init_result:
  assumes law: "page_lawful os fds maps files" and mem: "meminfo_powers os" and pages: "pg_size os = 2 ^ s" "12 \<le> s" "s \<le> 16"
    and calloc: "\<forall>k. fst (os_malloc os k)"
  obtains (fails) err rte k' where "rte_init dbg os start k = Some (err, rte, k')" "err \<noteq> 0" "fds k' = fds k" "maps k' = maps k"
    | (gives) rte k' where "rte_init dbg os start k = Some (0, rte, k')" "qpair_heap (rt_heap rte)" "heap_owns (rt_heap rte) []"
      "open_room (rt_heap rte)" "4096 \<le> pg (rt_heap rte)" "holds fds maps k (rt_memory rte) k'"
      "hp_config (rt_memory rte) \<noteq> None" "room (rt_heap rte) 134217728" "hpg (rt_heap rte) = 2097152" "pg (rt_heap rte) = 2 ^ s"
proof -
  have five: "5 \<le> s" using pages(2) by simp
  obtain ret cfg k1 where c: "hostmem_config_init dbg os (rt_config start) k = Some (ret, cfg, k1)" "calm fds maps files k k1"
    "ret = 0 \<longrightarrow> hostmem_config_ready os cfg \<and> hugepgsz_shift cfg \<in> {21, 30}"
    using config_init_result [OF law mem pages(1) five pages(3), of dbg "rt_config start" k] by blast
  show thesis
  proof (cases "ret = 0")
    case False
    with c show thesis by (intro fails [of ret "start\<lparr>rt_config := cfg\<rparr>" k1]) (simp_all add: rte_init_def calm_def)
  next
    case True
    then have ready: "hostmem_config_ready os cfg" "hugepgsz_shift cfg = 21 \<or> hugepgsz_shift cfg = 30" using c(3) by simp_all
    from law ready(1) calloc show thesis
    proof (cases rule: hugepage_heap_init_result [where sz = "1024 * 1024 * 128" and k = k1])
      case (fails err memory heap cfg' k')
      with c(1,2) True that(1) [of "- err" "\<lparr>rt_config = cfg', rt_memory = memory, rt_heap = heap\<rparr>" k'] show thesis
        by (simp add: rte_init_def calm_def)
    next
      case h: (gives memory heap cfg' k' lut k2 k3)
      let ?rte = "\<lparr>rt_config = cfg', rt_memory = memory, rt_heap = heap\<rparr>"
      have ready': "hostmem_config_ready os cfg'" "hugepgsz_shift cfg' = hugepgsz_shift cfg"
        using ready(1) h(2) by (simp_all add: hostmem_config_ready_def hostmem_config_ok_def)
      note heap = fresh_heap_ready [OF ready'(1) h(5,6,7,4), folded h(3)]
      have ok: "hostmem_config_ok cfg'" "pagesize cfg' = 2 ^ s" using ready'(1) pages(1) by (simp_all add: hostmem_config_ready_def)
      have hz: "hugepgsz cfg' = 2 ^ nat (hugepgsz_shift cfg')" using ok(1) by (simp add: hostmem_config_ok_def)
      have two: "hugepgsz cfg' = 2097152"
      proof (rule ccontr)
        assume "hugepgsz cfg' \<noteq> 2097152"
        then have "hugepgsz cfg' = 1073741824" using hz ready(2) ready'(2) by auto
        then have "(1024 * 1024 * 128 :: u64) mod 1073741824 = 0" using h(7) by (simp add: size_of_int_def)
        then show False by simp
      qed
      have hpg: "hpg heap = 2097152" using two by (simp add: h(3))
      have pg: "pg heap = 2 ^ s" using ok(2) by (simp add: h(3) nat_power_eq)
      have "(2 :: nat) ^ 12 \<le> 2 ^ s" "(2 :: nat) ^ s \<le> 2 ^ 16" using pages(2,3) by (auto intro: power_increasing simp del: power_numeral)
      then have pgb: "4096 \<le> pg heap" "pg heap \<le> 65536" by (simp_all add: pg)
      have rm: "room heap 134217728" using fresh_heap_room [OF ok(1) h(5), of lut] by (simp add: h(3))
      have "page_round (pg heap) 4096 \<le> 4096 + pg heap" using div_times_less_eq_dividend [of "4096 + pg heap - 1" "pg heap"]
        unfolding page_round_def by linarith
      then have "cost heap (page_round (pg heap) 4096) + qpair_cost heap + hpg heap \<le> 134217728"
        using pgb(2) unfolding qpair_cost_def hpg NVME_REQUEST_POOL_LEN_def by (rule room_needed)
      then have "open_room heap" using room_le [OF rm] by (simp add: open_room_def hpg)
      moreover have "rte_init dbg os start k = Some (0, ?rte, k')" using c(1) True h(1) by (simp add: rte_init_def)
      moreover have "holds fds maps k memory k'" using h(8) c(2) by (simp add: holds_def calm_def)
      ultimately show thesis using heap pgb(1) h(9) rm hpg pg by (intro that(2) [of ?rte k']) (simp_all add: nat_power_eq)
    qed
  qed
qed

section \<open>Opening and closing the controller\<close>

text \<open>What the driver holds besides the heap, since \<open>k0\<close>.\<close>

definition driver_holds ::
  "('k, 'x) fs_os_scheme \<Rightarrow> ('k \<Rightarrow> int set) \<Rightarrow> ('k \<Rightarrow> (u64 \<times> u64) set) \<Rightarrow> 'k \<Rightarrow> nvme \<Rightarrow> 'k \<Rightarrow> bool" where
  "driver_holds os fds maps k0 nvme k \<longleftrightarrow>
     (case nv_backend nvme of NVME_BACKEND_VFIO \<Rightarrow> ctx_owns fds maps k0 (nv_vfio nvme) k
      | NVME_BACKEND_SYSFS \<Rightarrow> fds k - func_fds (nc_func (nv_ctrlr nvme)) = fds k0 \<and>
          maps k - func_maps (nc_func (nv_ctrlr nvme)) = maps k0)"

definition driver_ready ::
  "('k, 'x) fs_os_scheme \<Rightarrow> ('k \<Rightarrow> int set) \<Rightarrow> ('k \<Rightarrow> (u64 \<times> u64) set) \<Rightarrow> 'k \<Rightarrow> (u64 \<times> nat) list \<Rightarrow> nvme \<Rightarrow> hostmem_heap \<Rightarrow> 'k \<Rightarrow> bool" where
  "driver_ready os fds maps k0 qs nvme heap k \<longleftrightarrow> driver_holds os fds maps k0 nvme k \<and>
     controller_ready (nv_ctrlr nvme) \<and> nc_buf (nv_ctrlr nvme) \<noteq> 0 \<and> qpair_heap heap \<and>
     heap_owns heap (qs @ controller_mem (pg heap) (nv_ctrlr nvme))"

lemma driver_ready_ioq [simp]:
  "driver_ready os fds maps k0 qs (nvme\<lparr>nv_ioq := q\<rparr>) heap k = driver_ready os fds maps k0 qs nvme heap k"
  by (cases "nv_backend nvme") (simp_all add: driver_ready_def driver_holds_def)

lemma driver_name_quiet:
  assumes "vfio_lawful vf fds maps" "device_get_driver_name vf bdf nm n k = (err, nm', k')"
  shows "fds k' = fds k" "maps k' = maps k"
  using assms(2) vfio_lawfulD(7) [OF assms(1)]
  by (auto simp: device_get_driver_name_def Let_def quiet_def split: prod.split_asm sum.split_asm if_split_asm)

lemma nvme_open_result:
  assumes law: "fs_lawful os fds maps" "vfio_lawful vf fds maps" and hw: "stride_ok hw"
    and heap: "heap_owns heap []" "qpair_heap heap" "open_room heap" and nv: "nv_ioq nv = zero_qpair"
  obtains (refused) err nvme heap' d' k' where "nvme_open dbg hw os vf calloc_aq nv bdf heap d k = Some (err, nvme, heap', d', k')"
      "err \<noteq> 0" "fds k' = fds k" "maps k' = maps k"
    | (half) err c nvme heap' d' k1 k' where "nvme_open dbg hw os vf calloc_aq nv bdf heap d k = Some (- err, nvme, heap', d', k')"
      "err \<noteq> 0" "device_get_driver_name vf bdf [] 256 k = (0, ''uio_pci_generic'', k1)"
      "nvme_controller_open dbg hw os calloc_aq bdf heap d k1 = Some (err, c, heap', d', k')"
      "fds k' - func_fds (nc_func c) = fds k" "maps k' - func_maps (nc_func c) = maps k"
    | (opened) nvme heap' d' k' where "nvme_open dbg hw os vf calloc_aq nv bdf heap d k = Some (0, nvme, heap', d', k')"
      "driver_ready os fds maps k [] nvme heap' k'" "nv_ioq nvme = zero_qpair" "same_heap heap heap'"
      "free_cids (qpair_pool (nc_aq (nv_ctrlr nvme))) = all_cids"
proof -
  obtain err nm k1 where n: "device_get_driver_name vf bdf [] 256 k = (err, nm, k1)" by (rule prod_cases3)
  note q = driver_name_quiet [OF law(2) n]
  note def = nvme_open_def n Let_def
  consider (bad) "err \<noteq> 0 \<or> nm \<noteq> ''vfio-pci'' \<and> nm \<noteq> ''uio_pci_generic''"
    | (vfio) "err = 0" "nm = ''vfio-pci''" | (sysfs) "err = 0" "nm = ''uio_pci_generic''" by blast
  then show thesis
  proof cases
    case bad
    with q show thesis
      by (intro refused [of "if err \<noteq> 0 then - err else - ENOTSUP" nv heap d k1]) (auto simp: def)
  next
    case vfio
    note none = open_vfio_room [OF law(2) heap]
    from law(2) heap(1,2) hw show thesis
    proof (cases rule: open_vfio_result [where dbg = dbg and calloc_ok = calloc_aq and bdf = bdf and d = d and k = k1])
      case dangles
      from none dangles(2) show thesis by (rule notE)
    next
      case (failed e heap' d' k')
      with vfio q show thesis
        by (intro refused [of "- e" "nv\<lparr>nv_backend := NVME_BACKEND_VFIO, nv_ctrlr := zero_controller, nv_vfio := nvme_vfio_ctx_init\<rparr>" heap' d' k'])
          (simp_all add: def)
    next
      case op: (opened c v heap' d' k')
      let ?nvme = "nv\<lparr>nv_backend := NVME_BACKEND_VFIO, nv_ctrlr := c, nv_vfio := v\<rparr>"
      have pg: "pg heap' = pg heap" using op(7) by (simp add: same_heap_def)
      have "qpair_heap heap'" using heap(2) qpair_heap_same [OF op(7)] by simp
      moreover have "ctx_owns fds maps k v k'" using op(6) q by (auto simp: ctx_owns_def split: if_split_asm)
      ultimately have "driver_ready os fds maps k [] ?nvme heap' k'"
        using op(3,5,8) by (simp add: driver_ready_def driver_holds_def controller_mem_def pg)
      with op vfio nv show thesis by (intro opened [of ?nvme heap' d' k']) (simp_all add: def)
    qed
  next
    case sysfs
    note eff = func_close_effect [OF law(1)]
    have close: "fds (snd (pci_func_close os func k')) = fds k1 \<Longrightarrow> fds k' - func_fds func = fds k"
      "maps (snd (pci_func_close os func k')) = maps k1 \<Longrightarrow> maps k' - func_maps func = maps k" for func k'
      using q eff by simp_all
    let ?nv = "\<lambda>c. nv\<lparr>nv_backend := NVME_BACKEND_SYSFS, nv_ctrlr := c\<rparr>"
    from law(1) heap(1,2) hw show thesis
    proof (cases rule: open_result [where dbg = dbg and calloc_ok = calloc_aq and bdf = bdf and d = d and k = k1])
      case (refused e heap' d' k')
      with sysfs q that(1) [of "- e" "?nv zero_controller" heap' d' k'] show thesis by (simp add: def)
    next
      case (no_aq e c heap' d' k')
      with sysfs n half [of e "?nv c" heap' d' k' k1 c] close [of "nc_func c" k'] show thesis by (simp add: def)
    next
      case (with_aq e c heap' d' k')
      have pg: "pg heap' = pg heap" using with_aq(7) by (simp add: same_heap_def)
      show thesis
      proof (cases "e = 0")
        case False
        with sysfs n with_aq half [of e "?nv c" heap' d' k' k1 c] close [of "nc_func c" k'] show thesis by (simp add: def)
      next
        case True
        have "qpair_heap heap'" using heap(2) qpair_heap_same [OF with_aq(7)] by simp
        then have "driver_ready os fds maps k [] (?nv c) heap' k'"
          using with_aq close [of "nc_func c" k'] by (simp add: driver_ready_def driver_holds_def pg)
        with with_aq True sysfs nv show thesis by (intro opened [of "?nv c" heap' d' k']) (simp_all add: def)
      qed
    qed
  qed
qed

text \<open>Closing in the way of the backend gives back what is held.\<close>

lemma driver_close_vfio:
  assumes "vfio_lawful vf fds maps" "driver_ready os fds maps k0 qs nvme heap k" "nv_backend nvme = NVME_BACKEND_VFIO"
  obtains e c v heap' d' k' where
    "nvme_controller_close_vfio hw vf (nv_ctrlr nvme) (nv_vfio nvme) heap d k = Some (e, c, v, heap', d', k')"
    "fds k' = fds k0" "maps k' = maps k0"
proof -
  let ?c = "nv_ctrlr nvme"
  have r: "ctx_owns fds maps k0 (nv_vfio nvme) k" "qpair_live (nc_aq ?c)" "nc_buf ?c \<noteq> 0" "qpair_heap heap"
    using assms(2,3) by (simp_all add: driver_ready_def driver_holds_def controller_ready_def)
  have "mset (qs @ controller_mem (pg heap) ?c) = mset (qpair_mem (pg heap) (nc_aq ?c) @ (nc_buf ?c, 4096) # qs)"
    by (simp add: controller_mem_def)
  then have "heap_owns heap (qpair_mem (pg heap) (nc_aq ?c) @ (nc_buf ?c, 4096) # qs)"
    using assms(2) heap_owns_perm unfolding driver_ready_def by blast
  with r(2) have aq: "qp_rpool (nc_aq ?c) = Null \<and> heap_owns heap ((nc_buf ?c, 4096) # qs) \<or>
      qpair_live (nc_aq ?c) \<and> heap_owns heap (qpair_mem (pg heap) (nc_aq ?c) @ (nc_buf ?c, 4096) # qs)" by blast
  from close_vfio_gives_back [OF assms(1) r(4,1,3) aq, of hw d] that show thesis
    unfolding gives_back_def by blast
qed

lemma driver_close:
  assumes "fs_lawful os fds maps" "driver_ready os fds maps k0 qs nvme heap k" "nv_backend nvme = NVME_BACKEND_SYSFS"
  obtains c heap' k' where "nvme_controller_close os (nv_ctrlr nvme) heap k = Some (c, heap', k')" "fds k' = fds k0" "maps k' = maps k0"
proof -
  let ?c = "nv_ctrlr nvme"
  have r: "qpair_live (nc_aq ?c)" "nc_buf ?c \<noteq> 0" "fds k - func_fds (nc_func ?c) = fds k0" "maps k - func_maps (nc_func ?c) = maps k0"
    using assms(2,3) by (simp_all add: driver_ready_def driver_holds_def controller_ready_def)
  have "mset (qs @ controller_mem (pg heap) ?c) = mset (controller_mem (pg heap) ?c @ qs)" by simp
  then have "heap_owns heap (controller_mem (pg heap) ?c @ qs)"
    using assms(2) heap_owns_perm unfolding driver_ready_def by blast
  from close_live [OF r(1,2) this, of os k] obtain heap' where
    "nvme_controller_close os ?c heap k = Some (zero_controller, heap', snd (pci_func_close os (nc_func ?c) k))" by blast
  then show thesis by (rule that) (simp_all add: func_close_effect [OF assms(1)] r(3,4))
qed

lemma driver_ready_step:
  assumes "driver_ready os fds maps k0 qs nvme heap k" "controller_step (nv_ctrlr nvme) c" "same_heap heap heap'"
    and "heap_owns heap' (qs' @ controller_mem (pg heap) (nv_ctrlr nvme))"
  shows "driver_ready os fds maps k0 qs' (nvme\<lparr>nv_ctrlr := c\<rparr>) heap' k"
proof -
  have "nc_func c = nc_func (nv_ctrlr nvme)" "nc_buf c = nc_buf (nv_ctrlr nvme)" "controller_ready c"
    using assms(2) by (simp_all add: controller_step_def)
  moreover have "qpair_heap heap'" using assms(1) qpair_heap_same [OF assms(3)] by (simp add: driver_ready_def)
  moreover have "pg heap' = pg heap" using assms(3) by (simp add: same_heap_def)
  ultimately show ?thesis
    using assms(1,4) controller_mem_step [OF assms(2)]
    by (cases "nv_backend nvme") (simp_all add: driver_ready_def driver_holds_def)
qed

lemma nvme_cleanup_result:
  assumes law: "fs_lawful os fds maps" "vfio_lawful vf fds maps"
    and ready: "driver_ready os fds maps k0 qs nvme heap k"
    and ioq: "nv_ioq nvme = zero_qpair \<or> qs = qpair_mem (pg heap) (nv_ioq nvme) \<and> qpair_live (nv_ioq nvme) \<and>
        unat (qp_qid (nv_ioq nvme)) < 65472 \<and> 0 < unat (qp_qid (nv_ioq nvme)) \<and>
        (dbg \<longrightarrow> 2 \<le> top (qpair_pool (nc_aq (nv_ctrlr nvme))))"
  obtains nvme' heap' d' k' where "nvme_cleanup dbg hw os vf nvme heap d k = Some (nvme', heap', d', k')"
    "fds k' = fds k0" "maps k' = maps k0"
proof -
  obtain nvme1 heap1 d1 qs1 where s: "(case qp_rpool (nv_ioq nvme) of Null \<Rightarrow> Some (nvme, heap, d)
       | _ \<Rightarrow> do {
           (_, ctrlr, _, heap1, d1) \<leftarrow> nvme_controller_delete_io_qpair dbg hw (nv_ctrlr nvme) (nv_ioq nvme) heap d;
           Some (nvme\<lparr>nv_ctrlr := ctrlr, nv_ioq := zero_qpair\<rparr>, heap1, d1) }) = Some (nvme1, heap1, d1)"
    "driver_ready os fds maps k0 qs1 nvme1 heap1 k"
  proof (cases "nv_ioq nvme = zero_qpair")
    case True
    then show thesis using ready by (intro that [of nvme heap d qs]) simp_all
  next
    case False
    then have q: "qs = qpair_mem (pg heap) (nv_ioq nvme)" "qpair_live (nv_ioq nvme)" "unat (qp_qid (nv_ioq nvme)) < 65472"
      "0 < unat (qp_qid (nv_ioq nvme))" "dbg \<longrightarrow> 2 \<le> top (qpair_pool (nc_aq (nv_ctrlr nvme)))" using ioq by simp_all
    have c: "controller_ready (nv_ctrlr nvme)" using ready by (simp add: driver_ready_def)
    have own: "heap_owns heap (qpair_mem (pg heap) (nv_ioq nvme) @ controller_mem (pg heap) (nv_ctrlr nvme))"
      using ready by (simp add: driver_ready_def q(1))
    obtain err c' qp' heap' d' where
      del: "nvme_controller_delete_io_qpair dbg hw (nv_ctrlr nvme) (nv_ioq nvme) heap d = Some (err, c', qp', heap', d')"
      "controller_step (nv_ctrlr nvme) c'" "same_heap heap heap'" "heap_owns heap' (controller_mem (pg heap) (nv_ctrlr nvme))"
      by (rule delete_result [OF c own q(2-5)])
    have "heap_owns heap' ([] @ controller_mem (pg heap) (nv_ctrlr nvme))" using del(4) by simp
    note r = driver_ready_step [OF ready del(2,3) this]
    obtain pool where "qp_rpool (nv_ioq nvme) = Live pool" using q(2) by (auto simp: qpair_live_def)
    with del(1) r show thesis
      by (intro that [of "nvme\<lparr>nv_ctrlr := c', nv_ioq := zero_qpair\<rparr>" heap' d' "[]"]) simp_all
  qed
  note def = nvme_cleanup_def s(1)
  show thesis
  proof (cases "nv_backend nvme1")
    case NVME_BACKEND_VFIO
    obtain e c v h d' k' where "nvme_controller_close_vfio hw vf (nv_ctrlr nvme1) (nv_vfio nvme1) heap1 d1 k = Some (e, c, v, h, d', k')"
      "fds k' = fds k0" "maps k' = maps k0" by (rule driver_close_vfio [OF law(2) s(2) NVME_BACKEND_VFIO])
    with NVME_BACKEND_VFIO show thesis
      by (intro that [of "nvme1\<lparr>nv_ctrlr := c, nv_vfio := v\<rparr>" h d' k']) (simp_all add: def)
  next
    case NVME_BACKEND_SYSFS
    obtain c h k' where "nvme_controller_close os (nv_ctrlr nvme1) heap1 k = Some (c, h, k')"
      "fds k' = fds k0" "maps k' = maps k0" by (rule driver_close [OF law(1) s(2) NVME_BACKEND_SYSFS])
    with NVME_BACKEND_SYSFS show thesis
      by (intro that [of "nvme1\<lparr>nv_ctrlr := c\<rparr>" h d1 k']) (simp_all add: def)
  qed
qed

text \<open>The buffer of the controller lies in the heap, in at most two pages.\<close>

lemma identify_fits:
  assumes "heap_owns heap (controller_mem page c)" "qpair_heap heap" "4096 \<le> pg heap"
  shows "in_heap heap (nc_buf c) 4096" "page_count (pg heap) (unat (nc_buf c) mod pg heap) (unat (4096 :: u64)) \<le> 513"
proof -
  have "(nc_buf c, 4096) \<in> set (controller_mem page c)" by (simp add: controller_mem_def)
  note ins = heap_owns_inside [OF assms(1) this]
  have "unat (memsize heap) = unat (nphys heap) * hpg heap" using assms(2) by (simp add: qpair_heap_def)
  with ins show "in_heap heap (nc_buf c) 4096" unfolding in_heap_def by simp
  have "unat (nc_buf c) mod pg heap < pg heap" using assms(3) by simp
  then have "(unat (nc_buf c) mod pg heap + 4096 + pg heap - 1) < 3 * pg heap" using assms(3) by linarith
  then show "page_count (pg heap) (unat (nc_buf c) mod pg heap) (unat (4096 :: u64)) \<le> 513"
    using assms(3) less_mult_imp_div_less [of "unat (nc_buf c) mod pg heap + 4096 + pg heap - 1" 3 "pg heap"]
    by (simp add: page_count_def)
qed

section \<open>The driver\<close>

text \<open>The identify command of an opened controller is carried out, with whatever result.\<close>

lemma init_identify:
  assumes op: "driver_ready os fds maps k [] nvme heap k1" "free_cids (qpair_pool (nc_aq (nv_ctrlr nvme))) = all_cids"
    and pages: "4096 \<le> pg heap" and hw: "prp_pages hw"
  obtains e aq cmd cpl d2 where
    "nvme_qpair_submit_sync_contig_prps dbg hw (nc_aq (nv_ctrlr nvme)) heap (nc_buf (nv_ctrlr nvme)) 4096
      (zero_command\<lparr>cmd_opc := 0x6, cmd_cdw10 := 1\<rparr>) (nc_timeout_ms (nv_ctrlr nvme)) zero_completion d =
      Some (e, aq, cmd, cpl, d2)"
    "controller_step (nv_ctrlr nvme) ((nv_ctrlr nvme)\<lparr>nc_aq := aq\<rparr>)" "1024 \<le> top (qpair_pool aq) + 1"
proof -
  let ?c = "nv_ctrlr nvme"
  have r: "controller_ready ?c" "qpair_live (nc_aq ?c)" "qp_ok (nc_aq ?c)" "qpair_heap heap"
    "heap_owns heap (controller_mem (pg heap) ?c)"
    using op(1) by (simp_all add: driver_ready_def controller_ready_def)
  obtain pool where pool: "qp_rpool (nc_aq ?c) = Live pool" "pool_wf pool" using r(2) by (auto simp: qpair_live_def)
  have full: "top (qpair_pool (nc_aq ?c)) = 1024"
    using full_pool_top [OF pool(2)] op(2) pool(1) by (simp add: NVME_REQUEST_POOL_LEN_def)
  note buf = identify_fits(1) [OF r(5,4) pages] and few = identify_fits(2) [OF r(5,4) pages]
  have dma: "dma_heap heap" using r(4) by (simp add: qpair_heap_def)
  obtain e aq cmd cpl d2 where id: "nvme_qpair_submit_sync_contig_prps dbg hw (nc_aq ?c) heap (nc_buf ?c) 4096
      (zero_command\<lparr>cmd_opc := 0x6, cmd_cdw10 := 1\<rparr>) (nc_timeout_ms ?c) zero_completion d = Some (e, aq, cmd, cpl, d2)"
    "qp_ok aq" "qpair_live aq" "\<forall>page. qpair_mem page aq = qpair_mem page (nc_aq ?c)" "1024 \<le> top (qpair_pool aq) + 1"
    by (rule submit_contig_live [OF r(3,2) _ dma buf few hw, where dbg = dbg]) (use full in auto)
  moreover have "controller_step ?c (?c\<lparr>nc_aq := aq\<rparr>)"
    using r(1) id(2-5) full by (simp add: controller_step_def controller_ready_def bar0_mapped_def)
  ultimately show thesis using that by blast
qed

text \<open>A failed creation of the queue pair closes what the opening opened, for either backend.\<close>

lemma nvme_init_unwind:
  assumes law: "fs_lawful os fds maps" "vfio_lawful vf fds maps"
    and op: "nvme_open dbg hw os vf calloc_aq nv bdf heap d k = Some (0, nvme1, heap1, d1, k1)" "nv_ioq nvme1 = zero_qpair"
    and id: "nvme_qpair_submit_sync_contig_prps dbg hw (nc_aq (nv_ctrlr nvme1)) heap1 (nc_buf (nv_ctrlr nvme1)) 4096
      (zero_command\<lparr>cmd_opc := 0x6, cmd_cdw10 := 1\<rparr>) (nc_timeout_ms (nv_ctrlr nvme1)) zero_completion d1 =
      Some (0, aq, cmd, cpl, d2)"
    and cr: "nvme_controller_create_io_qpair dbg hw calloc_ioq ((nv_ctrlr nvme1)\<lparr>nc_aq := aq\<rparr>) zero_qpair 32 heap1 d2 =
      Some (err, c', q, h, d')" "err \<noteq> 0"
    and ready: "driver_ready os fds maps k qs (nvme1\<lparr>nv_ctrlr := c'\<rparr>) h k1"
  obtains nvme heap' d'' k' where
    "nvme_init dbg hw os vf calloc_aq calloc_ioq nv bdf heap d k = Some (err, nvme, heap', d'', k')"
    "fds k' = fds k" "maps k' = maps k"
proof -
  note def = nvme_init_def Let_def op id
  let ?n3 = "nvme1\<lparr>nv_ctrlr := c'\<rparr>"
  show thesis
  proof (cases "nv_backend nvme1")
    case NVME_BACKEND_VFIO
    then have b: "nv_backend ?n3 = NVME_BACKEND_VFIO" by simp
    obtain e2 c4 v h' d4 k' where
      "nvme_controller_close_vfio hw vf (nv_ctrlr ?n3) (nv_vfio ?n3) h d' k1 = Some (e2, c4, v, h', d4, k')"
      "fds k' = fds k" "maps k' = maps k"
      by (rule driver_close_vfio [OF law(2) ready b])
    with cr NVME_BACKEND_VFIO show thesis
      by (intro that [of "?n3\<lparr>nv_ctrlr := c4, nv_ioq := q, nv_vfio := v\<rparr>" h' d4 k']) (simp_all add: def)
  next
    case NVME_BACKEND_SYSFS
    then have b: "nv_backend ?n3 = NVME_BACKEND_SYSFS" by simp
    obtain c4 h' k' where "nvme_controller_close os (nv_ctrlr ?n3) h k1 = Some (c4, h', k')"
      "fds k' = fds k" "maps k' = maps k" by (rule driver_close [OF law(1) ready b])
    with cr NVME_BACKEND_SYSFS show thesis
      by (intro that [of "?n3\<lparr>nv_ctrlr := c4, nv_ioq := q\<rparr>" h' d' k']) (simp_all add: def)
  qed
qed

text \<open>The four results of initializing: nothing is held any more, what closing the PCI function of the half opened
  controller would give back is held, or the controller is ready with a queue pair.\<close>

lemma nvme_init_result:
  assumes law: "fs_lawful os fds maps" "vfio_lawful vf fds maps" and hw: "stride_ok hw" "prp_pages hw"
    and heap: "heap_owns heap []" "qpair_heap heap" "open_room heap" "4096 \<le> pg heap" and nv: "nv_ioq nv = zero_qpair"
  obtains (failed) err nvme heap' d' k' where
      "nvme_init dbg hw os vf calloc_aq calloc_ioq nv bdf heap d k = Some (err, nvme, heap', d', k')"
      "err \<noteq> 0" "fds k' = fds k" "maps k' = maps k"
    | (half) err c nvme heap' d' k1 k' where
      "nvme_init dbg hw os vf calloc_aq calloc_ioq nv bdf heap d k = Some (- err, nvme, heap', d', k')"
      "err \<noteq> 0" "device_get_driver_name vf bdf [] 256 k = (0, ''uio_pci_generic'', k1)"
      "nvme_controller_open dbg hw os calloc_aq bdf heap d k1 = Some (err, c, heap', d', k')"
      "fds k' - func_fds (nc_func c) = fds k" "maps k' - func_maps (nc_func c) = maps k"
    | (ready) nvme heap' d' k' where
      "nvme_init dbg hw os vf calloc_aq calloc_ioq nv bdf heap d k = Some (0, nvme, heap', d', k')"
      "driver_ready os fds maps k (qpair_mem (pg heap') (nv_ioq nvme)) nvme heap' k'" "qpair_live (nv_ioq nvme)"
      "unat (qp_qid (nv_ioq nvme)) < 65472" "0 < unat (qp_qid (nv_ioq nvme))" "2 \<le> top (qpair_pool (nc_aq (nv_ctrlr nvme)))"
proof -
  note def = nvme_init_def Let_def
  from law hw(1) heap(1-3) nv show thesis
  proof (cases rule: nvme_open_result [where dbg = dbg and calloc_aq = calloc_aq and bdf = bdf and d = d and k = k])
    case (refused err nvme heap' d' k')
    then show thesis by (intro failed [of err nvme heap' d' k']) (simp_all add: def)
  next
    case h: (half err c nvme heap' d' k1 k')
    then show thesis by (intro half [of err nvme heap' d' k' k1 c]) (simp_all add: def)
  next
    case op: (opened nvme1 heap1 d1 k1)
    let ?c = "nv_ctrlr nvme1"
    have r: "controller_ready ?c" "qpair_heap heap1" "heap_owns heap1 (controller_mem (pg heap1) ?c)"
      using op(2) by (simp_all add: driver_ready_def)
    have pg: "4096 \<le> pg heap1" using op(4) heap(4) by (simp add: same_heap_def)
    obtain e aq cmd cpl d2 where id: "nvme_qpair_submit_sync_contig_prps dbg hw (nc_aq ?c) heap1 (nc_buf ?c) 4096
        (zero_command\<lparr>cmd_opc := 0x6, cmd_cdw10 := 1\<rparr>) (nc_timeout_ms ?c) zero_completion d1 = Some (e, aq, cmd, cpl, d2)"
      "controller_step ?c (?c\<lparr>nc_aq := aq\<rparr>)" "1024 \<le> top (qpair_pool aq) + 1"
      by (rule init_identify [OF op(2,5) pg hw(2)])
    note step = id(2)
    let ?c2 = "?c\<lparr>nc_aq := aq\<rparr>"
    let ?n2 = "nvme1\<lparr>nv_ctrlr := ?c2\<rparr>"
    have same: "same_heap heap1 heap1" by (simp add: same_heap_def)
    have own: "heap_owns heap1 ([] @ controller_mem (pg heap1) ?c)" using r(3) by simp
    have n2: "driver_ready os fds maps k [] ?n2 heap1 k1" by (rule driver_ready_step [OF op(2) step same own])
    have io: "nv_ioq ?n2 = zero_qpair" using op(3) by simp
    note all = def op(1) id(1)
    show thesis
    proof (cases "e = 0")
      case False
      obtain nvme' h d' k' where "nvme_cleanup dbg hw os vf ?n2 heap1 d2 k1 = Some (nvme', h, d', k')" "fds k' = fds k" "maps k' = maps k"
        by (rule nvme_cleanup_result [OF law n2 disjI1 [OF io]])
      with False show thesis by (intro failed [of e nvme' h d' k']) (simp_all add: all)
    next
      case True
      have c2: "controller_ready ?c2" "dbg \<longrightarrow> 2 \<le> top (qpair_pool (nc_aq ?c2))"
        using step id(3) by (simp_all add: controller_step_def)
      have own2: "heap_owns heap1 (controller_mem (pg heap1) ?c2)" using own controller_mem_step [OF step] by simp
      note more = all True op(3)
      have failing: thesis
        if cr: "nvme_controller_create_io_qpair dbg hw calloc_ioq ?c2 zero_qpair 32 heap1 d2 = Some (err, c', q, h, d')" "err \<noteq> 0"
          and n3: "driver_ready os fds maps k qs (?n2\<lparr>nv_ctrlr := c'\<rparr>) h k1" for err c' q h d' qs
      proof -
        have n4: "driver_ready os fds maps k qs (nvme1\<lparr>nv_ctrlr := c'\<rparr>) h k1" using n3 by simp
        obtain nvme h' d4 k' where "nvme_init dbg hw os vf calloc_aq calloc_ioq nv bdf heap d k = Some (err, nvme, h', d4, k')"
          "fds k' = fds k" "maps k' = maps k"
          by (rule nvme_init_unwind [OF law op(1,3) id(1) [unfolded True] cr n4])
        with cr(2) show thesis by (intro failed)
      qed
      from c2(1) hw(1) own2 r(2) c2(2) show thesis
      proof (cases rule: create_result [where calloc_ok = calloc_ioq and depth = 32 and d = d2])
        case (refused err c' q h d')
        have "heap_owns h ([] @ controller_mem (pg heap1) (nv_ctrlr ?n2))" using refused(7) by simp
        moreover have st: "controller_step (nv_ctrlr ?n2) c'" using refused(4) by simp
        ultimately have "driver_ready os fds maps k [] (?n2\<lparr>nv_ctrlr := c'\<rparr>) h k1"
          by (intro driver_ready_step [OF n2 st refused(6)])
        with refused(1,2) show thesis
          by (intro failing [of err c' q h d' "[]"]) simp_all
      next
        case (made err c' q h d')
        have mem: "heap_owns h (qpair_mem (pg heap1) q @ controller_mem (pg heap1) (nv_ctrlr ?n2))" using made(10) by simp
        have st: "controller_step (nv_ctrlr ?n2) c'" using made(4) by simp
        note n3 = driver_ready_step [OF n2 st made(9) mem]
        show thesis
        proof (cases "err = 0")
          case False
          show thesis by (rule failing [OF made(1) False n3])
        next
          case True
          have "pg h = pg heap1" using made(9) by (simp add: same_heap_def)
          moreover have "2 \<le> top (qpair_pool (nc_aq c'))" using made(4) id(3) by (simp add: controller_step_def)
          ultimately show thesis using made(1,3,6,7) n3 True
            by (intro ready [of "?n2\<lparr>nv_ctrlr := c', nv_ioq := q\<rparr>" h d' k1]) (simp_all add: more)
        qed
      qed
    qed
  qed
qed

text \<open>The one way in which the driver leaves something open: \<open>nvme_controller_open\<close> failed with the PCI function
  \<open>func\<close> in its controller, which \<open>nvme_init\<close> does not close.\<close>

definition half_opened ::
  "bool \<Rightarrow> ('d, 'h) dma_hw_scheme \<Rightarrow> ('k, 'x) page_os_scheme \<Rightarrow> ('k, 'y) vfio_os_scheme \<Rightarrow> bool \<Rightarrow> string list \<Rightarrow> 'd \<Rightarrow> 'k \<Rightarrow> pci_func \<Rightarrow> bool" where
  "half_opened dbg hw os vf calloc_aq args d k func \<longleftrightarrow> (\<exists>rte k1 k2 err c heap d1 k3. length args = 2 \<and>
     rte_init dbg os zero_rte k = Some (0, rte, k1) \<and>
     device_get_driver_name vf (args ! 1) [] 256 k1 = (0, ''uio_pci_generic'', k2) \<and>
     nvme_controller_open dbg hw os calloc_aq (args ! 1) (rt_heap rte) d k2 = Some (err, c, heap, d1, k3) \<and>
     err \<noteq> 0 \<and> func = nc_func c)"

lemma heap_term_effect:
  assumes "page_lawful os fds maps files" "holds fds maps k0 memory k1" "hp_config memory \<noteq> None"
  obtains memory' k' where "hostmem_heap_term os memory k = Some (memory', k')"
    "fds k' = fds k - {hp_fd memory}" "maps k' = maps k - {(hp_virt memory, hp_size memory)}"
proof -
  note l = page_lawfulD [OF assms(1)]
  obtain cfg where cfg: "hp_config memory = Some cfg" using assms(3) by blast
  let ?k = "os_close os (fs_unmap os k (hp_virt memory) (hp_size memory)) (hp_fd memory)"
  have "hostmem_heap_term os memory k = Some (zero_hugepage,
      if HOSTMEM_BACKEND_HUGETLBFS = backend cfg then pg_unlink os ?k (hp_path memory) else ?k)"
    using assms(2) cfg by (simp add: hostmem_heap_term_def hostmem_hugepage_free_def holds_def)
  then show thesis by (rule that) (simp_all add: l(3,4,11,12,20,21))
qed


end
