(* ===== verification/Hostmem_Examples.thy ===== *)
theory Hostmem_Examples
  imports Hostmem_Pagemap Pci_Examples
begin

unbundle bit_operations_syntax

text \<open>
  A machine for the properties of the set-up to hold in: 4 KiB pages, hugepages of 2 MiB, one mapping at a time, and physical
  memory that lies 4 GiB above the virtual.
\<close>

type_synonym machine = "int list \<times> (u64 \<times> u64) list \<times> string list"

definition spare :: "machine \<Rightarrow> int \<times> machine" where
  "spare = (\<lambda>(f, m, g). (spare_fd f, (spare_fd f # f, m, g)))"

definition box_entry :: "u64 \<Rightarrow> u64" where
  "box_entry a = push_bit 63 1 + (a div 8 + 0x100000)"

definition machine_os :: "machine page_os" where
  "machine_os = \<lparr>os_malloc = \<lambda>k. (True, k), os_open = \<lambda>k path. (let (fd, k') = spare k in (Inr fd, k')),
     os_close = \<lambda>(f, m, g) fd. (filter (\<lambda>x. x \<noteq> fd) f, m, g),
     fs_read = \<lambda>k f n. (Inl 5, k), fs_stat = \<lambda>k path. (Inl 2, k),
     fs_map = \<lambda>(f, m, g) fd n. (if m = [] \<and> 0 < unat n \<and> unat n < 2 ^ 40 then (Inr 0x40000000, (f, [(0x40000000, n)], g)) else (Inl 12, (f, m, g))),
     fs_unmap = \<lambda>(f, m, g) a n. (f, filter (\<lambda>x. x \<noteq> (a, n)) m, g),
     fs_opendir = \<lambda>k path. (Inl 2, k), fs_closedir = \<lambda>k. k,
     pg_size = 4096, pg_errno = \<lambda>k. 0, pg_pread64 = \<lambda>k fd a. (Inr (Some (box_entry a)), k),
     pg_fopen = \<lambda>k path. (let (fd, k') = spare k in (Inr (fd, [''MemTotal: 65536 kB'', ''Hugepagesize:    2048 kB'']), k')),
     pg_fclose = \<lambda>(f, m, g) fd. (filter (\<lambda>x. x \<noteq> fd) f, m, g),
     pg_getenv = \<lambda>k nm. (if nm = ''HOSTMEM_BACKEND'' then Some ''hugetlbfs'' else None), pg_getpid = \<lambda>k. 42,
     pg_memfd = \<lambda>k n f. (let (fd, k') = spare k in (Inr fd, k')),
     pg_create = \<lambda>(f, m, g) path. (Inr (spare_fd f), (spare_fd f # f, m, path # g)),
     pg_unlink = \<lambda>(f, m, g) path. (f, m, filter (\<lambda>x. x \<noteq> path) g),
     pg_truncate = \<lambda>k fd n. (Inr (), k), pg_lock = \<lambda>k a n. (Inr (), k), pg_fstat = \<lambda>k fd. (Inr 0x200000, k),
     pg_touch = \<lambda>k a. k, pg_clear = \<lambda>k a n. k\<rparr>"

abbreviation m_fds :: "machine \<Rightarrow> int set" where "m_fds \<equiv> \<lambda>(f, m, g). set f"
abbreviation m_maps :: "machine \<Rightarrow> (u64 \<times> u64) set" where "m_maps \<equiv> \<lambda>(f, m, g). set m"
abbreviation m_files :: "machine \<Rightarrow> string set" where "m_files \<equiv> \<lambda>(f, m, g). set g"

lemma machine_lawful: "page_lawful machine_os m_fds m_maps m_files"
  unfolding page_lawful_def machine_os_def
  by (intro conjI allI)
    (auto simp: calm_def new_fd_def spare_def spare_fd space_ok_def Let_def split: if_splits)

lemma machine_ready: "hostmem_config_ready machine_os example_config"
  by (simp add: hostmem_config_ready_def hostmem_config_ok_def example_config_def machine_os_def HOSTMEM_BACKEND_MEMFD_def)

lemma machine_calloc: "\<forall>k. fst (os_malloc machine_os k)"
  by (simp add: machine_os_def)

theorem hostmem_heap_init_term_no_leak_witness:
  "\<exists>ret memory heap cfg' k'. hostmem_heap_init machine_os 0x800000 example_config ([], [], []) =
      Some (ret, memory, heap, cfg', k') \<and> (ret \<noteq> 0 \<longrightarrow> m_fds k' = {}) \<and> (ret = 0 \<longrightarrow> heap_owns heap [])"
proof -
  from hostmem_heap_init_term_no_leak [OF machine_lawful machine_ready machine_calloc, of "0x800000" "([], [], [])"]
  show ?thesis by (elim exE conjE) (auto split: if_splits)
qed

lemma machine_meminfo: "meminfo_loop [''MemTotal: 65536 kB'', ''Hugepagesize:    2048 kB''] = Some 2048" by code_simp

lemma machine_powers: "meminfo_powers machine_os"
  using machine_meminfo by (auto simp: meminfo_powers_def machine_os_def spare_def Let_def intro!: exI [of _ "11 :: nat"])

theorem hostmem_config_init_ready_witness:
  "\<exists>ret cfg' k'. hostmem_config_init True machine_os example_config ([], [], []) = Some (ret, cfg', k') \<and>
    ret = 0 \<and> hostmem_config_ready machine_os cfg'"
proof -
  have "pg_size machine_os = 2 ^ 12" by (simp add: machine_os_def)
  moreover have "hostmem_config_code machine_os ([], [], []) = 0"
    using machine_meminfo by (simp add: hostmem_config_code_def machine_os_def spare_def)
  ultimately show ?thesis
    using hostmem_config_init_ready [OF machine_lawful machine_powers, of 12 True example_config "([], [], [])"] by auto
qed

theorem hostmem_hugepage_import_outcome_witness:
  "\<exists>err hp' k'. hostmem_hugepage_import machine_os ''/proc/7/fd/3'' zero_hugepage example_config ([], [], []) = Some (err, hp', k') \<and>
    (err \<noteq> 0 \<longrightarrow> m_fds k' = {}) \<and> m_files k' = {}"
proof -
  have "hugepgsz example_config \<noteq> 0" by (simp add: example_config_def)
  from hostmem_hugepage_import_outcome [OF machine_lawful this, of "''/proc/7/fd/3''" zero_hugepage "([], [], [])"]
  show ?thesis by (elim exE conjE) (auto split: if_splits)
qed

lemma box_entry_of:
  assumes q: "q < 2 ^ 40"
  shows "unat (box_entry (of_nat q * 8)) = 2 ^ 63 + (q + 0x100000)"
    "frame (box_entry (of_nat q * 8)) = of_nat q + 0x100000"
    "box_entry (of_nat q * 8) AND push_bit 63 1 \<noteq> 0"
proof -
  have n: "unat (of_nat q + 0x100000 :: u64) = q + 0x100000"
    using unat_of_nat_u64 [of "q + 0x100000"] q by simp
  have "unat (of_nat q * 8 :: u64) = q * 8" using unat_of_nat_u64 [of "q * 8"] q by simp
  then have d: "(of_nat q * 8) div 8 = (of_nat q :: u64)"
    using unat_of_nat_u64 [of q] q by (intro u64_eqI) (simp add: unat_div)
  have "unat (push_bit 63 1 + (of_nat q + 0x100000) :: u64) = 2 ^ 63 + (q + 0x100000)"
    using unat_add_u64 [of "push_bit 63 1" "of_nat q + 0x100000 :: u64"] n q by simp
  then show u: "unat (box_entry (of_nat q * 8)) = 2 ^ 63 + (q + 0x100000)" by (simp only: box_entry_def d)
  have m: "(2 ^ 63 + y) mod 2 ^ 55 = y" if "y < 2 ^ 55" for y :: nat
    using mod_mult_self1 [of y 256 "2 ^ 55 :: nat"] that by (simp add: add.commute)
  show "frame (box_entry (of_nat q * 8)) = of_nat q + 0x100000"
  proof (rule u64_eqI)
    have "unat (frame x) = unat x mod 2 ^ 55" for x
      using unat_and_mask [of x 55] by (simp add: frame_def)
    then show "unat (frame (box_entry (of_nat q * 8))) = unat (of_nat q + 0x100000 :: u64)"
      using m [of "q + 0x100000"] n q by (simp only: u) simp
  qed
  have "(2 ^ 63 + y) div 2 ^ 63 = 1" if "y < 2 ^ 63" for y :: nat using that by simp
  from this [of "q + 0x100000"] have "odd (unat (box_entry (of_nat q * 8)) div 2 ^ 63)" using q by (simp only: u) simp
  then have "bit (unat (box_entry (of_nat q * 8))) 63" by (simp only: bit_iff_odd not_False_eq_True)
  moreover have "bit (unat x) 63 = bit x 63" for x :: u64 by (simp add: bit_unsigned_iff)
  ultimately have "bit (box_entry (of_nat q * 8)) 63" by simp
  then have "bit (box_entry (of_nat q * 8) AND push_bit 63 1) 63" by (simp add: bit_and_iff bit_push_bit_iff)
  then show "box_entry (of_nat q * 8) AND push_bit 63 1 \<noteq> 0" by (metis bit_0_eq bot_apply bot_bool_def)
qed

lemma machine_pagemap: "pagemap_is machine_os (\<lambda>p. box_entry (p * 8))"
  by (simp add: pagemap_is_def machine_os_def)

lemma machine_touch: "touch_pages machine_os v sz page k = k"
proof -
  have "foldl (\<lambda>k i. pg_touch machine_os k (v + of_nat (i * page))) k js = k" for js :: "nat list"
    by (induction js) (simp_all add: machine_os_def)
  then show ?thesis by (simp add: touch_pages_def)
qed

definition box_heap :: hostmem_heap where
  "box_heap = fresh_heap 0x40000000 0x800000 (example_config\<lparr>hostmem_config.count := 1\<rparr>)
     [0x140000000, 0x140200000, 0x140400000, 0x140600000]"

lemma machine_translates:
  assumes "v = of_nat (q * 4096 + y)" "q < 2 ^ 40" "y < 4096"
  shows "hostmem_pagemap_virt_to_phys machine_os v (f, m, g) = (0, Some ((of_nat q + 0x100000) * 4096 + of_nat y), (f, m, g))"
proof -
  have u: "unat v = q * 4096 + y" unfolding assms(1) by (rule unat_of_nat_u64) (use assms(2,3) in simp)
  have "v div 4096 = of_nat q" using u assms(2,3) unat_of_nat_u64 [of q] by (intro u64_eqI) (simp add: unat_div)
  moreover have "v mod 4096 = of_nat y" using u assms(3) unat_of_nat_u64 [of y] by (intro u64_eqI) (simp add: unat_mod)
  moreover have "filter (\<lambda>x. x \<noteq> spare_fd f) f = f" using spare_fd(2) [of f] by (auto simp: filter_id_conv)
  ultimately show ?thesis
    using box_entry_of(2,3) [OF assms(2)]
    by (simp add: hostmem_pagemap_virt_to_phys_def machine_os_def Let_def frame_def spare_def)
qed

lemma machine_page:
  "hostmem_pagemap_virt_to_phys machine_os 0x40000000 (f, m, g) = (0, Some 0x140000000, (f, m, g))"
  "hostmem_pagemap_virt_to_phys machine_os 0x40200000 (f, m, g) = (0, Some 0x140200000, (f, m, g))"
  "hostmem_pagemap_virt_to_phys machine_os 0x40400000 (f, m, g) = (0, Some 0x140400000, (f, m, g))"
  "hostmem_pagemap_virt_to_phys machine_os 0x40600000 (f, m, g) = (0, Some 0x140600000, (f, m, g))"
  "hostmem_pagemap_virt_to_phys machine_os 0x40200123 (f, m, g) = (0, Some 0x140200123, (f, m, g))"
  using machine_translates [of _ "0x40000" 0, OF refl] machine_translates [of _ "0x40200" 0, OF refl]
    machine_translates [of _ "0x40400" 0, OF refl] machine_translates [of _ "0x40600" 0, OF refl]
    machine_translates [of _ "0x40200" "0x123", OF refl]
  by simp_all

lemma machine_alloc:
  obtains path where "hostmem_hugepage_alloc machine_os 0x800000 zero_hugepage example_config ([], [], []) = Some (0,
      \<lparr>hp_fd = 1, hp_virt = 0x40000000, hp_size = 0x800000, hp_phys = 0x140000000, hp_path = path,
        hp_config = Some (example_config\<lparr>hostmem_config.count := 1\<rparr>)\<rparr>,
      example_config\<lparr>hostmem_config.count := 1\<rparr>, ([1], [(0x40000000, 0x800000)], []))"
proof -
  have calls: "pg_memfd machine_os ([], [], []) n fl = (Inr 1, ([1], [], []))" "pg_truncate machine_os k fd sz = (Inr (), k)"
    "fs_map machine_os ([1], [], []) 1 0x800000 = (Inr 0x40000000, ([1], [(0x40000000, 0x800000)], []))"
    "pg_lock machine_os k a sz = (Inr (), k)" "pg_clear machine_os k a sz = k" for n fl k fd sz a
    by (simp_all add: machine_os_def spare_def spare_fd_def)
  show thesis
    by (rule that [of "take 255 (''/proc/'' @ print_int (pg_getpid machine_os ([1], [], [])) @ ''/fd/'' @ print_int 1)"])
      (simp add: hostmem_hugepage_alloc_def hugepage_open_def example_config_def HOSTMEM_BACKEND_MEMFD_def Let_def
        machine_touch machine_page calls zero_hugepage_def)
qed

lemma machine_lut:
  "lut_loop machine_os 0x40000000 0x200000 [0, 1, 2, 3] (Some (replicate 4 0)) (f, m, g) =
     Some (0, Some [0x140000000, 0x140200000, 0x140400000, 0x140600000], (f, m, g))"
proof -
  have "replicate 4 (0 :: u64) = [0, 0, 0, 0]" by (simp add: numeral_eq_Suc)
  then show ?thesis by (simp add: machine_page)
qed

lemma machine_init:
  obtains memory cfg' k' where
    "hostmem_heap_init machine_os 0x800000 example_config ([], [], []) = Some (0, memory, box_heap, cfg', k')"
proof -
  have m: "os_malloc machine_os k = (True, k)" for k by (simp add: machine_os_def)
  have hp: "size_of_int (hugepgsz (example_config\<lparr>hostmem_config.count := 1\<rparr>)) = 0x200000" by (simp add: example_config_def)
  have n: "0x800000 div 0x200000 = (4 :: u64)" "[0..<4] = [0, 1, 2, 3 :: nat]" "unat (4 :: u64) = 4"
    by (simp_all add: upt_rec)
  obtain path where a: "hostmem_hugepage_alloc machine_os 0x800000 zero_hugepage example_config ([], [], []) = Some (0,
      \<lparr>hp_fd = 1, hp_virt = 0x40000000, hp_size = 0x800000, hp_phys = 0x140000000, hp_path = path,
        hp_config = Some (example_config\<lparr>hostmem_config.count := 1\<rparr>)\<rparr>,
      example_config\<lparr>hostmem_config.count := 1\<rparr>, ([1], [(0x40000000, 0x800000)], []))" by (rule machine_alloc)
  let ?lut = "[0x140000000, 0x140200000, 0x140400000, 0x140600000] :: u64 list"
  let ?mem = "\<lparr>hp_fd = 1, hp_virt = 0x40000000, hp_size = 0x800000, hp_phys = 0x140000000, hp_path = path,
        hp_config = Some (example_config\<lparr>hostmem_config.count := 1\<rparr>)\<rparr>"
  have "hostmem_heap_init machine_os 0x800000 example_config ([], [], []) = Some (0, ?mem,
      heap_object ?mem (example_config\<lparr>hostmem_config.count := 1\<rparr>) 4 [0x40000000 \<mapsto> \<lparr>size' = 0x800000, free' = True, next' = 0\<rparr>]
        0x40000000 (Some ?lut), example_config\<lparr>hostmem_config.count := 1\<rparr>, ([1], [(0x40000000, 0x800000)], []))"
    unfolding hostmem_heap_init_def a Option.bind.bind_lunit prod.case Let_def m hp hostmem_hugepage.simps n if_True machine_lut
    by (simp add: array_get_def)
  moreover have "heap_object ?mem (example_config\<lparr>hostmem_config.count := 1\<rparr>) 4 [0x40000000 \<mapsto> \<lparr>size' = 0x800000, free' = True, next' = 0\<rparr>]
        0x40000000 (Some ?lut) = box_heap"
    by (simp add: heap_object_def box_heap_def fresh_heap_def example_config_def n)
  ultimately show thesis using that by metis
qed

lemma machine_contiguous: "hugepages_contiguous machine_os (\<lambda>p. box_entry (p * 8)) box_heap"
proof -
  have c: "nphys box_heap = 4" "hpg box_heap = 0x200000" "pg box_heap = 4096" "virt box_heap = 0x40000000"
    by (simp_all add: box_heap_def example_config_def)
  have ps: "size_of_int (pg_size machine_os) = 4096" by (simp add: machine_os_def)
  have "frame (box_entry ((0x40000000 + of_nat (i * 0x200000)) div 4096 * 8 + of_nat j * 8)) =
      frame (box_entry ((0x40000000 + of_nat (i * 0x200000)) div 4096 * 8)) + of_nat j" if ij: "i < 4" "j < 512" for i j
  proof -
    have u: "unat (0x40000000 + of_nat (i * 0x200000) :: u64) = 0x40000000 + i * 0x200000"
      using unat_of_nat_u64 [of "0x40000000 + i * 0x200000"] ij by simp
    have p: "(0x40000000 + of_nat (i * 0x200000)) div 4096 = (of_nat (0x40000 + i * 512) :: u64)"
      using u ij unat_of_nat_u64 [of "0x40000 + i * 512"] by (intro u64_eqI) (simp add: unat_div)
    have s: "(of_nat (0x40000 + i * 512) * 8 + of_nat j * 8 :: u64) = of_nat (0x40000 + i * 512 + j) * 8"
      by (simp only: of_nat_add distrib_right)
    show ?thesis unfolding p s using box_entry_of(2) [of "0x40000 + i * 512 + j"] box_entry_of(2) [of "0x40000 + i * 512"] ij by simp
  qed
  then show ?thesis by (simp add: hugepages_contiguous_def c ps Let_def distrib_right)
qed

theorem hostmem_heap_table_agrees_witness:
  "Some 0x140200123 = hostmem_dma_v2p box_heap (0x40000000 + of_nat 0x200123)"
proof -
  obtain memory cfg' k' where i: "hostmem_heap_init machine_os 0x800000 example_config ([], [], []) = Some (0, memory, box_heap, cfg', k')"
    by (rule machine_init)
  have x: "0x200123 < unat (0x800000 :: u64)" by simp
  have v: "virt box_heap = 0x40000000" by (simp add: box_heap_def)
  have "hostmem_pagemap_virt_to_phys machine_os (virt box_heap + of_nat 0x200123) ([], [], []) = (0, Some 0x140200123, ([], [], []))"
    using machine_page(5) by (simp add: v)
  from hostmem_heap_table_agrees [OF machine_lawful machine_ready machine_calloc machine_pagemap i machine_contiguous x this]
  show ?thesis by (simp only: v)
qed

end
