(* ===== verification/Nvme_Driver_Examples.thy ===== *)
theory Nvme_Driver_Examples
  imports Nvme_Driver_Props Hostmem_Examples
begin

text \<open>
  A machine for the driver to run on: the one of \<open>Hostmem_Examples\<close>, on which the controller is bound to
  \<open>vfio-pci\<close> and every VFIO call is granted, and a controller whose registers all read as zero.
\<close>

definition machine_vf :: "machine vfio_os" where
  "machine_vf = \<lparr>vf_open = \<lambda>k p. (let (fd, k') = spare k in (Inr fd, k')),
     vf_close = \<lambda>(f, m, g) fd. (Inr 0, (filter (\<lambda>x. x \<noteq> fd) f, m, g)),
     vf_readlink = \<lambda>k p n. (Inr (if drop (length p - 7) p = ''/driver'' then ''../../../bus/pci/drivers/vfio-pci''
       else ''../../../../kernel/iommu_groups/5''), k),
     vf_pread16 = \<lambda>k fd a. (Inr (Some 6), k), vf_pwrite16 = \<lambda>k fd a v. (Inr (Some ()), k),
     vf_mmap = \<lambda>(f, m, g) fd n a. (if n \<noteq> 0 \<and> (0x7F0000000000, n) \<notin> set m
       then (Inr 0x7F0000000000, (f, (0x7F0000000000, n) # m, g)) else (Inl 12, (f, m, g))),
     vf_munmap = \<lambda>(f, m, g) a n. (f, filter (\<lambda>x. x \<noteq> (a, n)) m, g),
     io_get_api_version = \<lambda>k fd. (Inr 0, k), io_check_extension = \<lambda>k fd e. (Inr 1, k), io_set_iommu = \<lambda>k fd t. (Inr 0, k),
     io_group_get_status = \<lambda>k fd s. (Inr 0, \<lparr>gs_flags = 1\<rparr>, k), io_group_set_container = \<lambda>k fd c. (Inr 0, k),
     io_group_get_device_fd = \<lambda>k fd n. (let (fd, k') = spare k in (Inr fd, k')), io_device_get_info = \<lambda>k fd i. (Inr 0, i, k),
     io_device_get_region_info = \<lambda>k fd i. (Inr 0, i\<lparr>vr_size := 0x4000\<rparr>, k), io_iommu_get_info = \<lambda>k fd i. (Inr 0, i, k),
     io_iommu_map_dma = \<lambda>k fd r. (Inr 0, k), io_iommu_unmap_dma = \<lambda>k fd u. (Inr 0, k),
     io_device_get_irq_info = \<lambda>k fd i. (Inr 0, i, k), io_device_set_irqs = \<lambda>k fd s. (Inr 0, k),
     io_device_reset = \<lambda>k fd. (Inr 0, k), io_get_pci_hot_reset_info = \<lambda>k fd i. (Inr 0, i, k),
     io_pci_hot_reset = \<lambda>k fd s. (Inr 0, k)\<rparr>"

definition page_hw :: "unit dma_hw" where
  "page_hw = dead_hw\<lparr>hw_list := \<lambda>d a. replicate 512 0\<rparr>"

lemma machine_fs_lawful: "fs_lawful machine_os m_fds m_maps"
  by (auto simp: fs_lawful_def os_lawful_def machine_os_def spare_def spare_fd Let_def)

lemma machine_vf_lawful: "vfio_lawful machine_vf m_fds m_maps"
  unfolding vfio_lawful_def machine_vf_def
  by (intro conjI allI) (auto simp: quiet_def gives_fd_def spare_def spare_fd split: if_splits)

lemma page_hw_ok: "stride_ok page_hw" "prp_pages page_hw"
  using dead_stride by (simp_all add: prp_pages_def page_hw_def stride_ok_def nvme_mmio_cap_read_def mmio_read64_def mmio_read32_def)

lemma machine_driver: "device_get_driver_name machine_vf ''0000:01:00.0'' [] 256 k = (0, ''vfio-pci'', k)"
  by (simp add: device_get_driver_name_def machine_vf_def)


end
