(* ===== verification/Nvme_Responsive.thy ===== *)
theory Nvme_Responsive
  imports Nvme_Driver_Props
begin

unbundle bit_operations_syntax

text \<open>
  A controller that does what NVMe prescribes: it becomes ready when it is enabled, takes the commands that the
  doorbell of its admin queue announces, and completes each of them with success in the ring that its registers
  name. Every admin command that the host submits to such a controller returns 0.

  The controller is not code of the repository: it is any device whose state has a view, and whose loads and stores
  act on that view as stated in \<open>responsive\<close>.
\<close>

section \<open>The controller\<close>

record ctrlr_view =
  cv_en :: bool         \<comment> \<open>CC.EN\<close>
  cv_acq :: u64         \<comment> \<open>the register ACQ\<close>
  cv_sqsize :: nat      \<comment> \<open>the sizes of the admin queues, from AQA\<close>
  cv_cqsize :: nat
  cv_posted :: nat      \<comment> \<open>admin commands completed since the controller was enabled\<close>

text \<open>A store to a register. Clearing CC.EN resets the controller. The tail that is written to the first doorbell is
  that many commands ahead, modulo the size of the ring.\<close>

definition view_write :: "ctrlr_view \<Rightarrow> u32 \<Rightarrow> u32 \<Rightarrow> ctrlr_view" where
  "view_write s a v =
     (if a = NVME_REG_CC then (if v AND 0x1 = 0 then s\<lparr>cv_en := False, cv_posted := 0\<rparr> else s\<lparr>cv_en := True\<rparr>)
      else if a = NVME_REG_ACQ then s\<lparr>cv_acq := push_bit 32 (drop_bit 32 (cv_acq s)) OR ucast v\<rparr>
      else if a = NVME_REG_ACQ + 4 then s\<lparr>cv_acq := push_bit 32 (ucast v) OR take_bit 32 (cv_acq s)\<rparr>
      else if a = NVME_REG_AQA then s\<lparr>cv_sqsize := unat (take_bit 12 v) + 1, cv_cqsize := unat (take_bit 12 (drop_bit 16 v)) + 1\<rparr>
      else if a = 0x1000 \<and> cv_en s then
        s\<lparr>cv_posted := cv_posted s + (unat v + cv_sqsize s - cv_posted s mod cv_sqsize s) mod cv_sqsize s\<rparr>
      else s)"

text \<open>Completion \<open>n\<close> as the host finds it: posted with the phase tag of its round, with a valid identifier and
  without an error.\<close>

definition succeeded :: "nat \<Rightarrow> nat \<Rightarrow> nvme_completion \<Rightarrow> bool" where
  "succeeded D n c \<longleftrightarrow> cpl_cid c < 0xFFFF \<and> unat (cpl_status c AND 0x1) = cq_phase D n \<and> cpl_status c AND 0x1FE = 0"

text \<open>The translation from addresses of the host to those of the device is the one of the heap. AQA has room for a size of
  4096.\<close>

definition responsive :: "('d, 'x) dma_hw_scheme \<Rightarrow> hostmem_heap \<Rightarrow> ('d \<Rightarrow> ctrlr_view) \<Rightarrow> bool" where
  "responsive hw heap view \<longleftrightarrow>
     (\<forall>d a. view (snd (hw_read32 hw d a)) = view d) \<and> (\<forall>d n. view (hw_usleep hw d n) = view d) \<and>
     (\<forall>d a. view (snd (hw_cqe hw d a)) = view d) \<and> (\<forall>d a c. view (hw_sqe hw d a c) = view d) \<and>
     (\<forall>d a n. view (hw_zero hw d a n) = view d) \<and> (\<forall>d a l. view (hw_set_list hw d a l) = view d) \<and>
     (\<forall>d a v. view (hw_write32 hw d a v) = view_write (view d) a v) \<and>
     (\<forall>d. fst (hw_read32 hw d NVME_REG_CSTS) AND 0x1 = (if cv_en (view d) then 1 else 0)) \<and>
     (\<forall>d. nvme_reg_cap_get_to (fst (nvme_mmio_cap_read hw d)) \<noteq> 0) \<and>
     (\<forall>d a n. cv_en (view d) \<and> n < cv_posted (view d) \<and> cv_posted (view d) \<le> n + cv_cqsize (view d) \<and>
        cv_cqsize (view d) \<le> 4096 \<and> hostmem_dma_v2p heap a = Some (cv_acq (view d) + 16 * of_nat (n mod cv_cqsize (view d))) \<longrightarrow>
        succeeded (cv_cqsize (view d)) n (fst (hw_cqe hw d a)))"

lemma responsiveD:
  assumes "responsive hw heap view"
  shows "view (snd (hw_read32 hw d a)) = view d" "view (hw_usleep hw d m) = view d"
    "view (snd (hw_cqe hw d b)) = view d" "view (hw_sqe hw d b c) = view d" "view (hw_zero hw d b x) = view d"
    "view (hw_set_list hw d b l) = view d" "view (hw_write32 hw d a v) = view_write (view d) a v"
    "fst (hw_read32 hw d NVME_REG_CSTS) AND 0x1 = (if cv_en (view d) then 1 else 0)"
    "nvme_reg_cap_get_to (fst (nvme_mmio_cap_read hw d)) \<noteq> 0"
  using assms by (simp_all add: responsive_def)

lemma responsive_entry:
  assumes "responsive hw heap view" "cv_en (view d)" "n < cv_posted (view d)" "cv_posted (view d) \<le> n + cv_cqsize (view d)"
    and "cv_cqsize (view d) \<le> 4096" "hostmem_dma_v2p heap a = Some (cv_acq (view d) + 16 * of_nat (n mod cv_cqsize (view d)))"
  shows "succeeded (cv_cqsize (view d)) n (fst (hw_cqe hw d a))"
  using assms by (simp add: responsive_def)

lemma responsive_same:
  assumes "same_heap heap heap'" "responsive hw heap view"
  shows "responsive hw heap' view"
  using assms(2) unfolding responsive_def v2p_same [OF assms(1)] .

section \<open>Host and controller in step\<close>

text \<open>The registers name the rings of the queue pair, the host has taken every completion there is, and the tail is
  where the controller takes the next command from.\<close>

definition in_step :: "hostmem_heap \<Rightarrow> ctrlr_view \<Rightarrow> nvme_qpair \<Rightarrow> bool" where
  "in_step heap s qp \<longleftrightarrow> (let D = unat (qp_depth qp); k = cv_posted s in
     cv_en s \<and> cv_sqsize s = D \<and> cv_cqsize s = D \<and> 2 \<le> D \<and> D \<le> 1024 \<and> reaped D k qp \<and> unat (qp_tail qp) = k mod D \<and>
     qp_tail_last_written qp \<in> {qp_tail qp, UINT16_MAX} \<and> qp_sqdb qp = 0x1000 \<and> 0x1000 < qp_cqdb qp \<and>
     (\<forall>i < D. hostmem_dma_v2p heap (qp_cq qp + 16 * of_nat i) = Some (cv_acq s + 16 * of_nat i)))"

lemma in_stepD:
  assumes "in_step heap s qp"
  defines "D \<equiv> unat (qp_depth qp)"
  shows "cv_en s" "cv_sqsize s = D" "cv_cqsize s = D" "2 \<le> D" "D \<le> 1024" "reaped D (cv_posted s) qp"
    "unat (qp_tail qp) = cv_posted s mod D" "qp_tail_last_written qp \<in> {qp_tail qp, UINT16_MAX}"
    "qp_sqdb qp = 0x1000" "0x1000 < qp_cqdb qp"
    "i < D \<Longrightarrow> hostmem_dma_v2p heap (qp_cq qp + 16 * of_nat i) = Some (cv_acq s + 16 * of_nat i)"
  using assms by (simp_all add: in_step_def Let_def)

lemma in_step_ok: "in_step heap s qp \<Longrightarrow> qp_ok qp"
  by (auto simp: in_step_def qp_ok_def reaped_def Let_def)

lemma in_step_same: "same_heap heap heap' \<Longrightarrow> in_step heap' s qp = in_step heap s qp"
  by (simp add: in_step_def v2p_same)

section \<open>A poll\<close>

lemma phase_matches:
  assumes "unat (qp_phase qp) = cq_phase D k" "unat (w AND 1) = cq_phase D k"
  shows "(ucast (w AND 1 :: u16) :: u8) = qp_phase qp"
  using assms cq_phase_less [of D k]
  by (cases "even w") (auto simp: and_one_eq mod_2_eq_odd word_unat_eq_iff)

text \<open>The first look at the ring finds the completion, and each of its three loads does.\<close>

lemma reap_served:
  assumes r: "responsive hw heap view" and ok: "qp_ok qp" and re: "reaped D k qp" and en: "cv_en (view d)"
    and D: "cv_cqsize (view d) = D" "D \<le> 4096" "k < cv_posted (view d)" "cv_posted (view d) \<le> k + D"
    and ring: "hostmem_dma_v2p heap (qp_cq qp + 16 * of_nat (k mod D)) = Some (cv_acq (view d) + 16 * of_nat (k mod D))"
    and db: "0x1000 < qp_cqdb qp" and t: "0 < t"
  obtains cpl' d' where "nvme_qpair_reap_cpl hw qp t cpl d = Some (0, cq_advance qp, cpl', d')"
    "cpl_status cpl' AND 0x1FE = 0" "view d' = view d"
proof -
  note l = responsiveD [OF r]
  obtain n where n: "nat t = Suc n" using t by (metis gr0_implies_Suc zero_less_nat_eq)
  let ?a = "qp_cq qp + 16 * of_nat (k mod D)"
  have h: "unat (qp_head qp) = k mod D" "unat (qp_phase qp) = cq_phase D k" using re by (simp_all add: reaped_def)
  have "(ucast (qp_head qp) :: u64) = of_nat (k mod D)" using h(1) by (metis of_nat_unat)
  then have addr: "cqe_addr qp = Some ?a" by (simp add: cqe_addr_ok [OF ok])
  have entry: "succeeded D k (fst (hw_cqe hw d' ?a))" if "view d' = view d" for d'
    using responsive_entry [OF r, of d' k ?a] that en D ring by simp
  obtain c1 d1 c2 d2 c3 d3 where c: "hw_cqe hw d ?a = (c1, d1)" "hw_cqe hw d1 ?a = (c2, d2)" "hw_cqe hw d2 ?a = (c3, d3)"
    by (metis surj_pair)
  have v: "view d1 = view d" "view d2 = view d" "view d3 = view d"
    using l(3) [of d ?a] l(3) [of d1 ?a] l(3) [of d2 ?a] by (simp_all add: c)
  have s: "succeeded D k c1" "succeeded D k c2" "succeeded D k c3" using entry [of d] entry [of d1] entry [of d2] by (simp_all add: c v)
  let ?d4 = "hw_write32 hw d3 (qp_cqdb (cq_advance qp)) (ucast (qp_head (cq_advance qp)))"
  have "qp_cqdb (cq_advance qp) = qp_cqdb qp" by (simp add: cq_advance_def Let_def)
  then have "view ?d4 = view d" using db by (simp add: l(7) view_write_def nvme_reg_offset_defs v(3) word_less_nat_alt) auto
  moreover have "nvme_qpair_reap_cpl hw qp t cpl d = Some (0, cq_advance qp, c3, ?d4)"
    using s(1) phase_matches [OF h(2), of "cpl_status c2"] s(2)
    by (simp add: nvme_qpair_reap_cpl_def n addr c succeeded_def mmio_write32_def Let_def)
  ultimately show thesis using s(3) that by (auto simp: succeeded_def)
qed

section \<open>A submission\<close>

lemma one_ahead: "2 \<le> D \<Longrightarrow> k + ((k + 1) mod D + D - k mod D) mod D = k + (1 :: nat)"
proof -
  assume D: "2 \<le> D"
  have "k mod D < D" using D by simp
  with D show ?thesis by (cases "k mod D + 1 = D") (simp_all add: mod_Suc)
qed

lemma next_tail: "2 \<le> D \<Longrightarrow> (k + 1) mod D \<noteq> k mod (D :: nat)"
  by (simp add: mod_Suc)

lemma unat_ucast_u16_u32: "unat (ucast (x :: u16) :: u32) = unat x"
  using unat_u16_bound [of x] by (simp add: unsigned_ucast_eq take_bit_eq_mod)

text \<open>The doorbell announces one command more.\<close>

lemma ring_doorbell:
  assumes "responsive hw heap view" "in_step heap (view d) qp"
  shows "view (hw_write32 hw d (qp_sqdb qp) (ucast (qp_tail (enqueued qp pool)))) = (view d)\<lparr>cv_posted := cv_posted (view d) + 1\<rparr>"
    "unat (qp_tail (enqueued qp pool)) = (cv_posted (view d) + 1) mod unat (qp_depth qp)"
    "qp_tail (enqueued qp pool) \<noteq> qp_tail_last_written qp"
proof -
  note i = in_stepD [OF assms(2)]
  let ?D = "unat (qp_depth qp)" and ?k = "cv_posted (view d)"
  have "(unat (qp_tail qp) + 1) mod ?D < 1024" using i(4,5) mod_less_divisor [of ?D "unat (qp_tail qp) + 1"] by linarith
  then have lt: "(unat (qp_tail qp) + 1) mod ?D < 2 ^ 16" by simp
  have "unat (qp_tail (enqueued qp pool)) = (unat (qp_tail qp) + 1) mod ?D"
    using lt by (simp add: enqueued_def unat_of_nat take_bit_eq_mod)
  also have "\<dots> = (?k + 1) mod ?D" by (simp add: i(7) mod_Suc_eq)
  finally show u: "unat (qp_tail (enqueued qp pool)) = (?k + 1) mod ?D" .
  have w: "unat (ucast (qp_tail (enqueued qp pool)) :: u32) = (?k + 1) mod ?D" using u by (simp add: unat_ucast_u16_u32)
  show "view (hw_write32 hw d (qp_sqdb qp) (ucast (qp_tail (enqueued qp pool)))) = (view d)\<lparr>cv_posted := ?k + 1\<rparr>"
    using one_ahead [OF i(4), of ?k] w
    by (simp add: responsiveD(7) [OF assms(1)] view_write_def nvme_reg_offset_defs i(1,2,9))
  have "(?k + 1) mod ?D < 1024" using i(4,5) mod_less_divisor [of ?D "?k + 1"] by linarith
  then have "qp_tail (enqueued qp pool) \<noteq> UINT16_MAX" using u by (auto simp: UINT16_MAX_def)
  moreover have "qp_tail (enqueued qp pool) \<noteq> qp_tail qp" using next_tail [OF i(4), of ?k] u i(7) by auto
  ultimately show "qp_tail (enqueued qp pool) \<noteq> qp_tail_last_written qp" using i(8) by auto
qed


lemma submit_served:
  assumes r: "responsive hw heap view" and step: "in_step heap (view d) qp" and live: "qpair_live qp" "0 < top (qpair_pool qp)"
    and t: "0 < t"
  obtains qp' cmd' cpl' d' where "nvme_qpair_submit_sync dbg hw qp cmd t cpl d = Some (0, qp', cmd', cpl', d')"
    "in_step heap (view d') qp'" "qpair_live qp'" "top (qpair_pool qp') = top (qpair_pool qp)"
    "view d' = (view d)\<lparr>cv_posted := cv_posted (view d) + 1\<rparr>"
proof -
  note i = in_stepD [OF step]
  let ?D = "unat (qp_depth qp)" and ?k = "cv_posted (view d)"
  obtain pool where pool: "qp_rpool qp = Live pool" "pool_wf pool" using live(1) by (auto simp: qpair_live_def)
  have tp: "0 < top pool" using live(2) pool(1) by simp
  let ?pool1 = "pool\<lparr>top := top pool - 1\<rparr>"
  obtain cid d2 d3 where c: "cid \<in> free_cids pool" "free_cids ?pool1 = free_cids pool - {cid}" "pool_wf ?pool1"
    "d2 = hw_sqe hw d (qp_sq qp + 64 * ucast (qp_tail qp)) (cmd\<lparr>cmd_cid := of_nat cid\<rparr>)"
    "qp_tail (enqueued qp pool) \<noteq> qp_tail_last_written qp \<longrightarrow> d3 = hw_write32 hw d2 (qp_sqdb qp) (ucast (qp_tail (enqueued qp pool)))"
    "nvme_qpair_submit_sync dbg hw qp cmd t cpl d = do {
       (err, qp4, cpl1, d4) \<leftarrow> nvme_qpair_reap_cpl hw (enqueued qp ?pool1) t cpl d3;
       if err \<noteq> 0 then Some (- err, qp4, cmd\<lparr>cmd_cid := of_nat cid\<rparr>, cpl1, d4)
       else do {
         pool2 \<leftarrow> nvme_request_free dbg ?pool1 (of_nat cid);
         Some (if cpl_status cpl1 AND 0x1FE \<noteq> 0 then - EIO else 0,
           qp4\<lparr>qp_rpool := Live pool2\<rparr>, cmd\<lparr>cmd_cid := of_nat cid\<rparr>, cpl1, d4) } }"
    by (rule submit_sync_run [OF in_step_ok [OF step] pool tp, of hw d cmd dbg t cpl])
  have v2: "view d2 = view d" by (simp add: c(4) responsiveD(4) [OF r])
  have step2: "in_step heap (view d2) qp" using step by (simp add: v2)
  note db = ring_doorbell [OF r step2, of pool]
  have v3: "view d3 = (view d)\<lparr>cv_posted := ?k + 1\<rparr>" using db(1,3) c(5) v2 by simp
  have re: "reaped ?D ?k (enqueued qp ?pool1)" using i(6) by (simp add: reaped_def)
  have pos: "0 < ?D" "?k mod ?D < ?D" using i(4) by simp_all
  obtain cpl' d' where p: "nvme_qpair_reap_cpl hw (enqueued qp ?pool1) t cpl d3 = Some (0, cq_advance (enqueued qp ?pool1), cpl', d')"
    "cpl_status cpl' AND 0x1FE = 0" "view d' = view d3"
    by (rule reap_served [OF r enqueued_ok [OF in_step_ok [OF step]] re, of d3 t cpl])
      (use i(1,3,5,10) i(11) [OF pos(2)] pos t in \<open>simp_all add: v3\<close>)
  have "cid \<in> all_cids" using c(1) pool(2) by (auto simp: pool_wf_def)
  then have u: "unat (of_nat cid :: u16) = cid" by (simp add: unat_of_nat_cid all_cids_iff)
  obtain pool2 where f: "nvme_request_free dbg ?pool1 (of_nat cid) = Some pool2" "pool_wf pool2" "top pool2 = top pool"
    using nvme_request_free_pushes [OF c(3), of "of_nat cid" dbg] c(2) u \<open>cid \<in> all_cids\<close> tp by auto
  let ?qp = "(cq_advance (enqueued qp ?pool1))\<lparr>qp_rpool := Live pool2\<rparr>"
  note adv = reaped_advance [OF pos(1) re]
  have fields: "qp_depth ?qp = qp_depth qp" "qp_cq ?qp = qp_cq qp" "qp_sqdb ?qp = qp_sqdb qp" "qp_cqdb ?qp = qp_cqdb qp"
    "qp_tail ?qp = qp_tail (enqueued qp pool)" "qp_tail_last_written ?qp = qp_tail (enqueued qp pool)"
    by (simp_all add: cq_advance_def enqueued_def Let_def)
  have "reaped ?D (?k + 1) ?qp" using adv(1) by (simp add: reaped_def)
  then have "in_step heap (view d') ?qp"
    unfolding in_step_def fields p(3) v3 Let_def using i db(2) by (simp add: v2)
  moreover have "nvme_qpair_submit_sync dbg hw qp cmd t cpl d = Some (0, ?qp, cmd\<lparr>cmd_cid := of_nat cid\<rparr>, cpl', d')"
    using p(1,2) f(1) by (simp add: c(6))
  ultimately show thesis
    using f(2,3) pool(1) p(3) v3 by (intro that [of ?qp]) (simp_all add: qpair_live_def)
qed

end
