(* ===== verification/Nvme_Responsive_Open.thy ===== *)
theory Nvme_Responsive_Open
  imports Nvme_Responsive
begin

unbundle bit_operations_syntax

text \<open>
  Setting up a responsive controller: on a heap with room the admin queue is set up, the controller is enabled, and
  host and controller are in step.
\<close>

section \<open>A ring\<close>

text \<open>A ring has consecutive physical addresses.\<close>

lemma ring_contiguous:
  assumes "room heap m" "qpair_heap heap" "hostmem_dma_alloc_array dbg heap 1 QPAIR_NBYTES = Some (Inr p, heap')"
  shows "\<exists>a. \<forall>j < 65536. hostmem_dma_v2p heap' (p + of_nat j) = Some (a + of_nat j)"
proof -
  obtain bs where b: "heap_blocks heap bs" using assms(1) by (auto simp: room_def)
  have u: "unat (1 :: u64) = 1" "unat QPAIR_NBYTES = 65536" by (simp_all add: QPAIR_NBYTES_def)
  have q: "lut_ok heap" "unat (memsize heap) = unat (nphys heap) * hpg heap" using assms(2) by (simp_all add: qpair_heap_def dma_heap_def)
  have req: "pg heap dvd 65536" "65536 \<le> hpg heap" "65536 + pg heap < 2 ^ 64" "QPAIR_NBYTES \<noteq> 0"
    using ring_request_ok [OF assms(2)] config_pages(4,7) [of heap] b u(2) by (simp_all add: heap_blocks_def QPAIR_NBYTES_def)
  have al: "hostmem_heap_block_alloc_array dbg heap 1 QPAIR_NBYTES = Some (Inr p, heap')" using assms(3) req(4) by (simp add: hostmem_dma_alloc_array_def)
  have each: "\<exists>y. hostmem_dma_v2p heap' (p + of_nat (0 * 65536)) = Some y \<and> hostmem_dma_v2p heap' (p + of_nat (0 * 65536 + j)) = Some (y + of_nat j)"
    if "j < 65536" for j
    by (rule array_elements_contiguous [OF b q, where elem = QPAIR_NBYTES and cnt = 1 and dbg = dbg and heap' = heap' and i = 0, unfolded u])
      (use req al that in simp_all)
  then obtain a where "hostmem_dma_v2p heap' p = Some a" using each [of 0] by auto
  with each show ?thesis by (intro exI [of _ a]) force
qed

section \<open>The queue pair\<close>

text \<open>What a set-up that succeeded went through.\<close>

lemma qpair_init_parts:
  assumes "nvme_qpair_init dbg hw calloc_ok qp qid depth heap d = Some (ret, qp', heap', d')" "qp_rpool qp = Null" "qpair_live qp'"
  obtains n heap1 heap2 where "n = unat (nvme_reg_cap_get_dstrd (fst (nvme_mmio_cap_read hw d)))"
    "doorbell (2 * qid) n = Some (qp_sqdb qp')" "doorbell (2 * qid + 1) n = Some (qp_cqdb qp')"
    "hostmem_dma_alloc_array dbg heap 1 QPAIR_NBYTES = Some (Inr (qp_sq qp'), heap1)"
    "hostmem_dma_alloc_array dbg heap1 1 QPAIR_NBYTES = Some (Inr (qp_cq qp'), heap2)"
    "qp_phase qp' = 1" "qp_tail_last_written qp' = UINT16_MAX"
    "d' = hw_zero hw (hw_zero hw (snd (nvme_mmio_cap_read hw d)) (qp_sq qp') QPAIR_NBYTES) (qp_cq qp') QPAIR_NBYTES"
  using assms
  by (auto simp: nvme_qpair_init_def Let_def qpair_live_def split: Option.bind_split_asm prod.split_asm sum.split_asm if_split_asm)

lemma responsive_cap: "responsive hw heap view \<Longrightarrow> view (snd (nvme_mmio_cap_read hw d)) = view d"
  by (simp add: nvme_mmio_cap_read_def mmio_read64_def mmio_read32_def case_prod_beta Let_def responsiveD(1))

lemma qpair_init_served:
  assumes r: "responsive hw heap view" and heap: "heap_owns heap ps" "qpair_heap heap" and db: "doorbells_ok hw d qid"
    and room: "room heap m" "qpair_cost heap + hpg heap \<le> m" "2 ^ 17 \<le> hpg heap" and qp: "qp_rpool qp = Null"
  obtains qp' heap' d' n a where "nvme_qpair_init dbg hw True qp qid depth heap d = Some (0, qp', heap', d')"
    "same_heap heap heap'" "heap_owns heap' (qpair_mem (pg heap) qp' @ ps)" "qpair_live qp'"
    "free_cids (qpair_pool qp') = all_cids" "qp_qid qp' = qid" "qp_depth qp' = depth" "qp_tail qp' = 0" "qp_head qp' = 0"
    "qp_phase qp' = 1" "qp_tail_last_written qp' = UINT16_MAX" "view d' = view d" "room heap' (m - qpair_cost heap)"
    "n = unat (nvme_reg_cap_get_dstrd (fst (nvme_mmio_cap_read hw d)))"
    "doorbell (2 * qid) n = Some (qp_sqdb qp')" "doorbell (2 * qid + 1) n = Some (qp_cqdb qp')"
    "\<forall>j < 65536. hostmem_dma_v2p heap' (qp_cq qp' + of_nat j) = Some (a + of_nat j)"
  using heap db
proof (cases rule: qpair_init_owns [where dbg = dbg and calloc_ok = True and qp = qp and depth = depth])
  case (fails ret qp' heap' d')
  with qpair_init_room [OF room(1,2) heap(2) room(3) fails(1)] show thesis by simp
next
  case g: (gives qp' heap' d')
  from g(1) qp g(4) obtain n heap1 heap2 where p:
    "n = unat (nvme_reg_cap_get_dstrd (fst (nvme_mmio_cap_read hw d)))"
    "doorbell (2 * qid) n = Some (qp_sqdb qp')" "doorbell (2 * qid + 1) n = Some (qp_cqdb qp')"
    "hostmem_dma_alloc_array dbg heap 1 QPAIR_NBYTES = Some (Inr (qp_sq qp'), heap1)"
    "hostmem_dma_alloc_array dbg heap1 1 QPAIR_NBYTES = Some (Inr (qp_cq qp'), heap2)"
    "qp_phase qp' = 1" "qp_tail_last_written qp' = UINT16_MAX"
    "d' = hw_zero hw (hw_zero hw (snd (nvme_mmio_cap_read hw d)) (qp_sq qp') QPAIR_NBYTES) (qp_cq qp') QPAIR_NBYTES"
    by (rule qpair_init_parts)
  have c: "cost heap 65536 + hpg heap \<le> m" using room(2) by (simp add: qpair_cost_def)
  note s1 = ring_room [OF room(1) c heap(2) room(3) p(4)]
  have h1: "qpair_heap heap1" "hpg heap1 = hpg heap" "pg heap1 = pg heap"
    using heap(2) qpair_heap_same [OF s1(3)] s1(3) by (simp_all add: same_heap_def)
  have c1: "cost heap1 65536 + hpg heap1 \<le> m - cost heap 65536" using room(2) by (simp add: qpair_cost_def h1)
  have g1: "2 ^ 17 \<le> hpg heap1" unfolding h1(2) by (rule room(3))
  note s2 = ring_room [OF s1(2) c1 h1(1) g1 p(5)]
  from ring_contiguous [OF s1(2) h1(1) p(5)] obtain a where
    a: "\<forall>j < 65536. hostmem_dma_v2p heap2 (qp_cq qp' + of_nat j) = Some (a + of_nat j)" by blast
  have v: "hostmem_dma_v2p heap2 = hostmem_dma_v2p heap'"
    using v2p_same [OF s1(3)] v2p_same [OF s2(3)] v2p_same [OF g(2)] by auto
  have "room heap' (m - qpair_cost heap)" using qpair_init_room [OF room(1,2) heap(2) room(3) g(1)] by simp
  moreover have "view d' = view d" by (simp add: p(8) responsiveD(5) [OF r] responsive_cap [OF r])
  ultimately show thesis using a g p(6,7) unfolding v by (intro that [where a = a, OF g(1) _ _ _ _ _ _ _ _ _ _ _ _ p(1-3)]) simp_all
qed

section \<open>The registers\<close>

lemma responsive_disable:
  assumes "responsive hw heap view"
  shows "view (nvme_mmio_cc_disable hw d) = (view d)\<lparr>cv_en := False, cv_posted := 0\<rparr>"
proof -
  have m: "- 2 = NOT (1 :: u32)" by simp
  have "(x AND - 2) AND 1 = (0 :: u32)" for x unfolding m by (rule bit_eqI) (auto simp: bit_simps)
  then show ?thesis
    by (simp add: nvme_mmio_cc_disable_def nvme_mmio_cc_read_def nvme_mmio_cc_write_def mmio_defs case_prod_beta Let_def
        responsiveD(1,7) [OF assms] view_write_def)
qed

lemma responsive_aq_setup:
  assumes "responsive hw heap view"
  shows "view (nvme_mmio_aq_setup hw d asq acq 256) = (view d)\<lparr>cv_acq := acq, cv_sqsize := 256, cv_cqsize := 256\<rparr>"
proof -
  have low: "take_bit 32 (push_bit 32 x OR ucast (y :: u32)) = (ucast y :: u64)" for x y
    by (rule bit_word_eqI) (auto simp: bit_simps dest: bit_imp_le_length)
  have aqa: "push_bit 16 255 OR 255 = (0xFF00FF :: u32)" by simp
  have sizes: "unat (take_bit 12 (0xFF00FF :: u32)) = 255" "unat (take_bit 12 (drop_bit 16 (0xFF00FF :: u32))) = 255" by simp_all
  show ?thesis
    by (simp add: nvme_mmio_aq_setup_def mmio_defs Let_def responsiveD(7) [OF assms] view_write_def nvme_reg_offset_defs low
        join_halves aqa sizes del: take_bit_or drop_bit_or)
qed

lemma enable_cc_en: "enable_cc cap AND 1 \<noteq> 0"
proof -
  have "bit (enable_cc cap) 0"
    unfolding enable_cc_def nvme_reg_cc_set_en_def Let_def by (subst bit_cc_set) (simp_all add: field_ok_def)
  then have "bit (enable_cc cap AND 1) 0" by (simp add: bit_simps)
  then show ?thesis by (metis bit_0_eq bot_apply bot_bool_def)
qed

lemma responsive_enable:
  "responsive hw heap view \<Longrightarrow> view (nvme_mmio_cc_write hw d (enable_cc cap)) = (view d)\<lparr>cv_en := True\<rparr>"
  by (simp add: nvme_mmio_cc_write_def mmio_defs responsiveD(7) view_write_def enable_cc_en)

lemma poll_served:
  assumes "responsive hw heap view" "0 < t"
  obtains d' where "csts_poll hw (if cv_en (view d) then 1 else 0) (nat t) d = (0, d')" "view d' = view d"
proof -
  obtain n where "nat t = Suc n" using assms(2) by (metis gr0_implies_Suc zero_less_nat_eq)
  then show thesis
    using responsiveD(8) [OF assms(1), of d] responsiveD(1) [OF assms(1), of d NVME_REG_CSTS]
    by (intro that [of "snd (hw_read32 hw d NVME_REG_CSTS)"])
      (simp_all add: nvme_mmio_csts_read_def mmio_defs case_prod_beta Let_def)
qed

section \<open>The admin queue\<close>

lemma doorbell_beyond:
  assumes "doorbell 1 n = Some db" "n \<le> 12"
  shows "0x1000 < db"
proof -
  let ?off = "push_bit (2 + n) 1 :: u32"
  have db: "db = 0x1000 + ?off" "0x1000 + unat ?off < 2 ^ 32" using assms(1) by (simp_all add: doorbell_def Let_def split: if_splits)
  have "bit ?off (2 + n)" unfolding bit_push_bit_iff using assms(2) by simp
  then have "?off \<noteq> 0" by (metis bit_0_eq bot_apply bot_bool_def)
  then have "0 < unat ?off" unfolding unat_gt_0 .
  moreover have "unat db = 0x1000 + unat ?off" using db(2) unfolding db(1) unat_word_ariths by simp
  ultimately show ?thesis by (simp add: word_less_nat_alt)
qed

lemma fresh_in_step:
  assumes "qp_depth aq = 256" "qp_tail aq = 0" "qp_head aq = 0" "qp_phase aq = 1" "qp_tail_last_written aq = UINT16_MAX"
    and "qp_sqdb aq = 0x1000" "0x1000 < qp_cqdb aq" "\<forall>j < 65536. hostmem_dma_v2p heap (qp_cq aq + of_nat j) = Some (a + of_nat j)"
    and "s = s0\<lparr>cv_en := True, cv_acq := a, cv_sqsize := 256, cv_cqsize := 256, cv_posted := 0\<rparr>"
  shows "in_step heap s aq"
proof -
  have "hostmem_dma_v2p heap (qp_cq aq + 16 * of_nat i) = Some (a + 16 * of_nat i)" if "i < 256" for i
    using assms(8) [rule_format, of "16 * i"] that by simp
  with assms(1-7,9) show ?thesis by (simp add: in_step_def reaped_def cq_phase_def Let_def)
qed

lemma open_aq_served:
  assumes r: "responsive hw heap view" and heap: "heap_owns heap ps" "qpair_heap heap" and hw: "stride_ok hw"
    and aq: "nc_aq ctrlr = zero_qpair" and room: "room heap m" "qpair_cost heap + hpg heap \<le> m" "2 ^ 17 \<le> hpg heap"
  obtains aq t heap' d' where "open_aq dbg hw True ctrlr heap d = Some (0, ctrlr\<lparr>nc_timeout_ms := t, nc_aq := aq\<rparr>, heap', d')"
    "0 < t" "qpair_live aq" "free_cids (qpair_pool aq) = all_cids" "same_heap heap heap'"
    "heap_owns heap' (qpair_mem (pg heap) aq @ ps)" "in_step heap' (view d') aq" "room heap' (m - qpair_cost heap)"
proof -
  let ?cap = "fst (nvme_mmio_cap_read hw d)" and ?d1 = "snd (nvme_mmio_cap_read hw d)"
  let ?t = "int (unat (nvme_reg_cap_get_to ?cap)) * 500"
  let ?d2 = "nvme_mmio_cc_disable hw ?d1"
  have pos: "0 < int n * 500" if "0 < n" for n using that by simp
  have "0 < unat (nvme_reg_cap_get_to ?cap)" using responsiveD(9) [OF r, of d] by (simp add: unat_gt_0)
  then have t: "0 < ?t" by (rule pos)
  have v2: "view ?d2 = (view d)\<lparr>cv_en := False, cv_posted := 0\<rparr>" by (simp add: responsive_disable [OF r] responsive_cap [OF r])
  obtain d3 where d3: "csts_poll hw (if cv_en (view ?d2) then 1 else 0) (nat ?t) ?d2 = (0, d3)" "view d3 = view ?d2"
    by (rule poll_served [OF r t])
  have w1: "nvme_mmio_csts_wait_until_not_ready hw ?d2 ?t = (0, d3)"
    using d3(1) by (simp add: nvme_mmio_csts_wait_until_not_ready_def v2)
  have db: "doorbells_ok hw d3 0" by (rule stride_doorbells [OF hw]) simp
  have null: "qp_rpool zero_qpair = Null" by simp
  obtain aq heap' d4 n a where q: "nvme_qpair_init dbg hw True zero_qpair 0 256 heap d3 = Some (0, aq, heap', d4)"
    "same_heap heap heap'" "heap_owns heap' (qpair_mem (pg heap) aq @ ps)" "qpair_live aq"
    "free_cids (qpair_pool aq) = all_cids" "qp_depth aq = 256" "qp_tail aq = 0" "qp_head aq = 0"
    "qp_phase aq = 1" "qp_tail_last_written aq = UINT16_MAX" "view d4 = view d3" "room heap' (m - qpair_cost heap)"
    "n = unat (nvme_reg_cap_get_dstrd (fst (nvme_mmio_cap_read hw d3)))"
    "doorbell (2 * 0) n = Some (qp_sqdb aq)" "doorbell (2 * 0 + 1) n = Some (qp_cqdb aq)"
    "\<forall>j < 65536. hostmem_dma_v2p heap' (qp_cq aq + of_nat j) = Some (a + of_nat j)"
    by (rule qpair_init_served [OF r heap db room null])
  have ok: "qpair_heap heap'" using heap(2) qpair_heap_same [OF q(2)] by simp
  have ring: "(qp_sq aq, 65536) \<in> set (qpair_mem (pg heap) aq @ ps)" by (simp add: qpair_mem_def)
  obtain asq where asq: "hostmem_dma_v2p heap' (qp_sq aq) = Some asq"
    by (rule owned_translates [OF q(3) ring _ ok]) simp
  have acq: "hostmem_dma_v2p heap' (qp_cq aq) = Some a" using q(16) [rule_format, of 0] by simp
  let ?d6 = "nvme_mmio_cc_write hw (nvme_mmio_aq_setup hw d4 asq a 256) (enable_cc ?cap)"
  have v6: "view ?d6 = (view d)\<lparr>cv_en := True, cv_acq := a, cv_sqsize := 256, cv_cqsize := 256, cv_posted := 0\<rparr>"
    by (simp add: responsive_enable [OF r] responsive_aq_setup [OF r] q(11) d3(2) v2)
  obtain d7 where d7: "csts_poll hw (if cv_en (view ?d6) then 1 else 0) (nat ?t) ?d6 = (0, d7)" "view d7 = view ?d6"
    by (rule poll_served [OF r t])
  have w2: "nvme_mmio_csts_wait_until_ready hw ?d6 ?t = (0, d7)"
    using d7(1) by (simp add: nvme_mmio_csts_wait_until_ready_def v6)
  have sqdb: "qp_sqdb aq = 0x1000" using q(14) by (simp add: doorbell_def)
  have "doorbell 1 n = Some (qp_cqdb aq)" "n \<le> 12" using q(13,15) hw by (simp_all add: stride_ok_def)
  then have cqdb: "0x1000 < qp_cqdb aq" by (rule doorbell_beyond)
  have "in_step heap' (view d7) aq" by (rule fresh_in_step [OF q(6-10) sqdb cqdb q(16)]) (simp add: d7(2) v6)
  moreover have "open_aq dbg hw True ctrlr heap d = Some (0, ctrlr\<lparr>nc_timeout_ms := ?t, nc_aq := aq\<rparr>, heap', d7)"
    using w1 w2 q(1,6) asq acq by (cases "nvme_mmio_cap_read hw d") (simp add: open_aq_def Let_def aq)
  ultimately show thesis using that t q(2-5,12) by blast
qed

section \<open>The controller\<close>

text \<open>The PCI function opens and its BAR0 is mapped.\<close>

definition bus_grants :: "('k, 'x) fs_os_scheme \<Rightarrow> string \<Rightarrow> 'k \<Rightarrow> bool" where
  "bus_grants os bdf k \<longleftrightarrow> (\<exists>func k1. pci_func_open os bdf zero_func k = Some (0, func, k1) \<and>
     fst (pci_bar_map os (pf_bdf func) 0 (pf_bars func ! 0) k1) = 0)"

lemma open_bar0_granted:
  assumes "bus_grants os bdf k" "fs_lawful os fds maps" "nc_func ctrlr = zero_func"
  obtains func k' where "open_bar0 os bdf ctrlr k = Some (0, ctrlr\<lparr>nc_func := func\<rparr>, k')"
    "bar0_mapped (ctrlr\<lparr>nc_func := func\<rparr>) = Some ()"
proof -
  obtain func k1 where f: "pci_func_open os bdf zero_func k = Some (0, func, k1)"
    "fst (pci_bar_map os (pf_bdf func) 0 (pf_bars func ! 0) k1) = 0" using assms(1) by (auto simp: bus_grants_def)
  have "0 < length (pf_bars func)" using func_open_bars(1) [OF f(1)] by (simp add: PCI_NBARS_def)
  then have z: "fst (the (open_bar0 os bdf ctrlr k)) = 0"
    using f by (simp add: open_bar0_def assms(3) case_prod_beta Let_def)
  obtain err func' k' where "open_bar0 os bdf ctrlr k = Some (err, ctrlr\<lparr>nc_func := func'\<rparr>, k')"
    "err = 0 \<longrightarrow> bar0_mapped (ctrlr\<lparr>nc_func := func'\<rparr>) = Some ()" by (rule open_bar0_result [OF assms(2,3)])
  with z show thesis by (intro that [of func' k']) simp_all
qed

text \<open>Host and controller after a success.\<close>

definition serving :: "hostmem_heap \<Rightarrow> ctrlr_view \<Rightarrow> nvme_controller \<Rightarrow> bool" where
  "serving heap s ctrlr \<longleftrightarrow> controller_ready ctrlr \<and> in_step heap s (nc_aq ctrlr) \<and> 0 < nc_timeout_ms ctrlr \<and>
     2 \<le> top (qpair_pool (nc_aq ctrlr))"

text \<open>The room that opening takes, besides a hugepage.\<close>

definition open_cost :: "hostmem_heap \<Rightarrow> nat" where
  "open_cost heap = cost heap (page_round (pg heap) 4096) + qpair_cost heap"

lemma open_room_cost: "2 ^ 17 \<le> hpg heap \<Longrightarrow> room heap m \<Longrightarrow> open_cost heap + hpg heap \<le> m \<Longrightarrow> open_room heap"
  unfolding open_room_def open_cost_def using room_le by blast

lemma buffer_served:
  assumes r: "responsive hw heap view" and heap: "heap_owns heap ps" "qpair_heap heap" "2 ^ 17 \<le> hpg heap"
    and room: "room heap m" "open_cost heap + hpg heap \<le> m"
  obtains buf heap1 where "hostmem_dma_malloc dbg heap 4096 = Some (Inr buf, heap1)" "buf \<noteq> 0" "same_heap heap heap1"
    "responsive hw heap1 view" "heap_owns heap1 ((buf, 4096) # ps)" "qpair_heap heap1" "2 ^ 17 \<le> hpg heap1"
    "room heap1 (m - cost heap (page_round (pg heap) 4096))"
    "qpair_cost heap1 + hpg heap1 \<le> m - cost heap (page_round (pg heap) 4096)"
proof -
  have sz: "dma_size_ok 4096" "(4096 :: u64) \<noteq> 0" "unat (4096 :: u64) = 4096" by (simp_all add: dma_size_ok_def)
  have le: "cost heap (page_round (pg heap) (unat (4096 :: u64))) + hpg heap \<le> m" using room(2) unfolding sz(3) open_cost_def by linarith
  from heap(1) sz(1) show thesis
  proof (cases rule: heap_owns_malloc [where dbg = dbg])
    case (fails e heap')
    with malloc_room(1) [OF room(1) le sz(1,2) fails(1)] show thesis by simp
  next
    case (gives buf heap1)
    note rm = malloc_room(2) [OF room(1) le sz(1,2) gives(1), unfolded sz(3)]
    have same: "hpg heap1 = hpg heap" "qpair_cost heap1 = qpair_cost heap"
      using gives(3) by (simp_all add: same_heap_def qpair_cost_def)
    have "qpair_cost heap1 + hpg heap1 \<le> m - cost heap (page_round (pg heap) 4096)"
      using room(2) unfolding same open_cost_def by linarith
    then show thesis
      using gives rm heap(2,3) qpair_heap_same [OF gives(3)] responsive_same [OF gives(3) r]
      by (intro that [of buf heap1]) (simp_all add: same)
  qed
qed

lemma start_served:
  assumes r: "responsive hw heap view" and heap: "heap_owns heap ps" "qpair_heap heap" and hw: "stride_ok hw"
    and room: "room heap m" "qpair_cost heap + hpg heap \<le> m" "2 ^ 17 \<le> hpg heap"
    and c: "nc_aq c = zero_qpair" "bar0_mapped c = Some ()" "qid_wf (nc_qids c)"
  obtains c' heap' d' where "open_aq dbg hw True c heap d = Some (0, c', heap', d')" "serving heap' (view d') c'"
    "same_heap heap heap'" "heap_owns heap' (qpair_mem (pg heap) (nc_aq c') @ ps)" "nc_buf c' = nc_buf c" "nc_qids c' = nc_qids c"
    "room heap' (m - qpair_cost heap)"
proof -
  obtain aq t heap' d' where q: "open_aq dbg hw True c heap d = Some (0, c\<lparr>nc_timeout_ms := t, nc_aq := aq\<rparr>, heap', d')"
    "0 < t" "qpair_live aq" "free_cids (qpair_pool aq) = all_cids" "same_heap heap heap'"
    "heap_owns heap' (qpair_mem (pg heap) aq @ ps)" "in_step heap' (view d') aq" "room heap' (m - qpair_cost heap)"
    by (rule open_aq_served [OF r heap hw c(1) room])
  obtain pool where pool: "qp_rpool aq = Live pool" "pool_wf pool" using q(3) by (auto simp: qpair_live_def)
  then have "2 \<le> top (qpair_pool aq)" using full_pool_top [of pool] q(4) by (simp add: NVME_REQUEST_POOL_LEN_def)
  then have "serving heap' (view d') (c\<lparr>nc_timeout_ms := t, nc_aq := aq\<rparr>)"
    using c(2,3) q(2,3,7) in_step_ok [OF q(7)] by (simp add: serving_def controller_ready_def bar0_mapped_def)
  then show thesis using that q(1,5,6,8) by simp
qed

lemma controller_open_served:
  assumes r: "responsive hw heap view" and law: "fs_lawful os fds maps" "bus_grants os bdf k" and hw: "stride_ok hw"
    and heap: "heap_owns heap ps" "qpair_heap heap" "2 ^ 17 \<le> hpg heap"
    and room: "room heap m" "open_cost heap + hpg heap \<le> m"
  obtains ctrlr heap' d' k' where "nvme_controller_open dbg hw os True bdf heap d k = Some (0, ctrlr, heap', d', k')"
    "serving heap' (view d') ctrlr" "same_heap heap heap'" "heap_owns heap' (controller_mem (pg heap) ctrlr @ ps)"
    "room heap' (m - open_cost heap)" "qid_used (nc_qids ctrlr) = {0}"
proof -
  let ?cb = "cost heap (page_round (pg heap) 4096)"
  obtain buf heap1 where g: "hostmem_dma_malloc dbg heap 4096 = Some (Inr buf, heap1)" "buf \<noteq> 0" "same_heap heap heap1"
    "responsive hw heap1 view" "heap_owns heap1 ((buf, 4096) # ps)" "qpair_heap heap1" "2 ^ 17 \<le> hpg heap1"
    "room heap1 (m - ?cb)" "qpair_cost heap1 + hpg heap1 \<le> m - ?cb"
    by (rule buffer_served [OF r heap room])
  have same: "pg heap1 = pg heap" "qpair_cost heap1 = qpair_cost heap" using g(3) by (simp_all add: same_heap_def qpair_cost_def)
  obtain bm where bm: "nvme_qid_bitmap_init = Some (0, bm)" "qid_wf bm" "qid_avail bm = io_qids"
    using nvme_qid_bitmap_init_wf by blast
  let ?start = "zero_controller\<lparr>nc_buf := buf, nc_qids := bm\<rparr>"
  obtain func k1 where o1: "open_bar0 os bdf ?start k = Some (0, ?start\<lparr>nc_func := func\<rparr>, k1)"
    "bar0_mapped (?start\<lparr>nc_func := func\<rparr>) = Some ()" by (rule open_bar0_granted [OF law(2,1), of ?start]) simp
  have z: "nc_aq (?start\<lparr>nc_func := func\<rparr>) = zero_qpair" "qid_wf (nc_qids (?start\<lparr>nc_func := func\<rparr>))" using bm(2) by simp_all
  obtain c heap2 d2 where q: "open_aq dbg hw True (?start\<lparr>nc_func := func\<rparr>) heap1 (hw_zero hw d buf 4096) = Some (0, c, heap2, d2)"
    "serving heap2 (view d2) c" "same_heap heap1 heap2" "heap_owns heap2 (qpair_mem (pg heap1) (nc_aq c) @ (buf, 4096) # ps)"
    "nc_buf c = nc_buf (?start\<lparr>nc_func := func\<rparr>)" "nc_qids c = nc_qids (?start\<lparr>nc_func := func\<rparr>)"
    "room heap2 (m - ?cb - qpair_cost heap1)"
    by (rule start_served [OF g(4-6) hw g(8,9,7) z(1) o1(2) z(2)])
  have "nvme_controller_open dbg hw os True bdf heap d k = Some (0, c, heap2, d2, k1)"
    using g(1) o1(1) q(1) by (simp add: nvme_controller_open_def Let_def bm(1))
  moreover have "same_heap heap heap2" using g(3) q(3) by (simp add: same_heap_def)
  moreover have "heap_owns heap2 (controller_mem (pg heap) c @ ps)" using q(4,5) by (simp add: controller_mem_def same)
  moreover have "m - ?cb - qpair_cost heap1 = m - open_cost heap" by (simp add: same open_cost_def)
  ultimately show thesis using q(2,6,7) qid_fresh_used [OF bm(2,3)] that by simp
qed

section \<open>The controller through VFIO\<close>

text \<open>The container takes the group and the heap, and the device gives its BAR0.\<close>

definition vfio_grants :: "('k, 'x) vfio_os_scheme \<Rightarrow> string \<Rightarrow> hostmem_heap \<Rightarrow> 'k \<Rightarrow> bool" where
  "vfio_grants os bdf heap k \<longleftrightarrow> (\<exists>v k1. vfio_attach os bdf nvme_vfio_ctx_init heap k = Some (0, v, k1) \<and>
     fst (vfio_bar0 os bdf zero_controller v k1) = 0)"

lemma map_pages_same:
  assumes "same_heap heap heap'"
  shows "map_pages os cont heap' js k = map_pages os cont heap js k"
proof (induction js arbitrary: k)
  case (Cons i js)
  have f: "phys_lut heap' = phys_lut heap" "virt heap' = virt heap" "config heap' = config heap" using assms by (simp_all add: same_heap_def)
  show ?case unfolding map_pages.simps f Cons.IH ..
qed simp

lemma attach_same:
  assumes "same_heap heap heap'"
  shows "vfio_attach os bdf v heap' k = vfio_attach os bdf v heap k"
proof -
  have "nphys heap' = nphys heap" using assms by (simp add: same_heap_def)
  then show ?thesis unfolding vfio_attach_def vfio_map_heap_def map_pages_same [OF assms] by (simp only:)
qed

lemma bar0_code: "fst (vfio_bar0 os bdf c v k) = fst (vfio_bar0 os bdf c' v k)"
  by (simp add: vfio_bar0_def Let_def split: sum.split prod.split)

lemma open_vfio_served:
  assumes r: "responsive hw heap view" and law: "vfio_lawful os fds maps" "vfio_grants os bdf heap k" and hw: "stride_ok hw"
    and heap: "heap_owns heap ps" "qpair_heap heap" "2 ^ 17 \<le> hpg heap"
    and room: "room heap m" "open_cost heap + hpg heap \<le> m"
  obtains ctrlr v heap' d' k' where "nvme_controller_open_vfio dbg hw os True bdf heap d k = Some (0, ctrlr, v, heap', d', k')"
    "serving heap' (view d') ctrlr" "same_heap heap heap'" "room heap' (m - open_cost heap)" "qid_used (nc_qids ctrlr) = {0}"
proof -
  let ?cb = "cost heap (page_round (pg heap) 4096)"
  obtain buf heap1 where g: "hostmem_dma_malloc dbg heap 4096 = Some (Inr buf, heap1)" "buf \<noteq> 0" "same_heap heap heap1"
    "responsive hw heap1 view" "heap_owns heap1 ((buf, 4096) # ps)" "qpair_heap heap1" "2 ^ 17 \<le> hpg heap1"
    "room heap1 (m - ?cb)" "qpair_cost heap1 + hpg heap1 \<le> m - ?cb"
    by (rule buffer_served [OF r heap room])
  obtain bm where bm: "nvme_qid_bitmap_init = Some (0, bm)" "qid_wf bm" "qid_avail bm = io_qids"
    using nvme_qid_bitmap_init_wf by blast
  let ?start = "zero_controller\<lparr>nc_buf := buf, nc_qids := bm\<rparr>"
  obtain v k1 where a: "vfio_attach os bdf nvme_vfio_ctx_init heap k = Some (0, v, k1)" "fst (vfio_bar0 os bdf ?start v k1) = 0"
    using law(2) bar0_code unfolding vfio_grants_def by metis
  have len: "length (phys_lut heap) = unat (nphys heap)" using heap(2) by (simp add: qpair_heap_def dma_heap_def lut_ok_def)
  have own: "ctx_owns fds maps k v k1" "vx_device_fd v = - 1" "vx_bar0 v = 0"
    using attach_result [OF law(1) len, of k bdf] a(1) by (auto simp: attached_def)
  have bars: "0 < length (pf_bars (nc_func ?start))" by (simp add: zero_func_def PCI_NBARS_def)
  obtain e c1 v1 k2 where b: "vfio_bar0 os bdf ?start v k1 = (e, c1, v1, k2)" "nc_aq c1 = nc_aq ?start" "nc_buf c1 = nc_buf ?start"
    "nc_qids c1 = nc_qids ?start" "e = 0 \<longrightarrow> bar0_mapped c1 = Some ()" by (rule bar0_result [OF law(1) own bars])
  have z: "e = 0" "nc_aq c1 = zero_qpair" "bar0_mapped c1 = Some ()" "qid_wf (nc_qids c1)" using a(2) b bm(2) by simp_all
  obtain c heap2 d2 where q: "open_aq dbg hw True c1 heap1 (hw_zero hw d buf 4096) = Some (0, c, heap2, d2)"
    "serving heap2 (view d2) c" "same_heap heap1 heap2" "nc_qids c = nc_qids c1" "room heap2 (m - ?cb - qpair_cost heap1)"
    by (rule start_served [OF g(4-6) hw g(8,9,7) z(2-4)])
  have "nvme_controller_open_vfio dbg hw os True bdf heap d k = Some (0, c, v1, heap2, d2, k2)"
    using g(1) a(1) b(1) z(1) q(1)
    by (simp add: nvme_controller_open_vfio_def vfio_open_steps_def vfio_start_open_aq attach_same [OF g(3)] Let_def bm(1))
  moreover have "same_heap heap heap2" using g(3) q(3) by (simp add: same_heap_def)
  moreover have "m - ?cb - qpair_cost heap1 = m - open_cost heap" using g(3) by (simp add: same_heap_def qpair_cost_def open_cost_def)
  ultimately show thesis using q(2,4,5) b(4) qid_fresh_used [OF bm(2,3)] that by simp
qed

end
