(* ===== verification/Nvme_Responsive_Props.thy ===== *)
theory Nvme_Responsive_Props
  imports Nvme_Responsive_Open
begin

unbundle bit_operations_syntax

text \<open>
  Liveness of the controller: with a device that does what NVMe prescribes and a heap with room, opening succeeds,
  and so does every creation and deletion of a queue pair after it.
\<close>

section \<open>One creation\<close>

lemma create_served:
  assumes r: "responsive hw heap view" and c: "serving heap (view d) c" and hw: "stride_ok hw"
    and heap: "heap_owns heap ps" "qpair_heap heap"
    and room: "room heap m" "qpair_cost heap + hpg heap \<le> m" "2 ^ 17 \<le> hpg heap"
    and free: "\<not> {..<65472} \<subseteq> qid_used (nc_qids c)"
  obtains c' qp heap' d' where
    "nvme_controller_create_io_qpair dbg hw True c zero_qpair depth heap d = Some (0, c', qp, heap', d')"
    "serving heap' (view d') c'" "room heap' (m - qpair_cost heap)" "same_heap heap heap'"
proof -
  have rd: "controller_ready c" "in_step heap (view d) (nc_aq c)" "0 < nc_timeout_ms c" "2 \<le> top (qpair_pool (nc_aq c))"
    using c by (simp_all add: serving_def)
  have b: "bar0_mapped c = Some ()" "qpair_live (nc_aq c)" "qid_wf (nc_qids c)"
    using rd(1) by (simp_all add: controller_ready_def)
  from b(3) show thesis
  proof (cases rule: qid_search)
    case none
    with free b(3) nvme_qid_find_free_eq [of "nc_qids c"] show thesis by (auto simp: qid_consts qid_wf_def split: if_splits)
  next
    case (found q bm')
    let ?q = "word_of_int (int q) :: u16"
    have wide: "unat (ucast ?q :: u32) = q" using found(5) by (simp add: unat_ucast_u16_u32)
    have db: "doorbells_ok hw d (ucast ?q)" by (rule stride_doorbells [OF hw]) (use wide found(3) in simp)
    have null: "qp_rpool zero_qpair = Null" by simp
    obtain qp heap1 d1 where i: "nvme_qpair_init dbg hw True zero_qpair (ucast ?q) depth heap d = Some (0, qp, heap1, d1)"
      "same_heap heap heap1" "heap_owns heap1 (qpair_mem (pg heap) qp @ ps)" "view d1 = view d" "room heap1 (m - qpair_cost heap)"
      by (rule qpair_init_served [OF r heap db room null])
    have ok: "qpair_heap heap1" using heap(2) qpair_heap_same [OF i(2)] by simp
    have rings: "(qp_sq qp, 65536) \<in> set (qpair_mem (pg heap) qp @ ps)" "(qp_cq qp, 65536) \<in> set (qpair_mem (pg heap) qp @ ps)"
      by (simp_all add: qpair_mem_def)
    obtain sq where sq: "hostmem_dma_v2p heap1 (qp_sq qp) = Some sq" by (rule owned_translates [OF i(3) rings(1) _ ok]) simp
    obtain cq where cq: "hostmem_dma_v2p heap1 (qp_cq qp) = Some cq" by (rule owned_translates [OF i(3) rings(2) _ ok]) simp
    let ?cdw10 = "push_bit 16 (ucast depth - 1) OR ucast ?q :: u32"
    let ?cmd1 = "zero_command\<lparr>cmd_opc := 0x5, cmd_prp1 := cq, cmd_cdw10 := ?cdw10, cmd_cdw11 := 0x1\<rparr>"
    let ?cmd2 = "zero_command\<lparr>cmd_opc := 0x1, cmd_prp1 := sq, cmd_cdw10 := ?cdw10, cmd_cdw11 := push_bit 16 (ucast ?q) OR 0x1\<rparr>"
    have r1: "responsive hw heap1 view" by (rule responsive_same [OF i(2) r])
    have st: "in_step heap1 (view d1) (nc_aq c)" using rd(2) by (simp add: in_step_same [OF i(2)] i(4))
    have tp: "0 < top (qpair_pool (nc_aq c))" using rd(4) by simp
    obtain aq1 cmd1' cpl1 d2 where s1:
      "nvme_qpair_submit_sync dbg hw (nc_aq c) ?cmd1 (nc_timeout_ms c) zero_completion d1 = Some (0, aq1, cmd1', cpl1, d2)"
      "in_step heap1 (view d2) aq1" "qpair_live aq1" "top (qpair_pool aq1) = top (qpair_pool (nc_aq c))"
      by (rule submit_served [OF r1 st b(2) tp rd(3)])
    have tp1: "0 < top (qpair_pool aq1)" using tp s1(4) by simp
    obtain aq2 cmd2' cpl2 d3 where s2:
      "nvme_qpair_submit_sync dbg hw aq1 ?cmd2 (nc_timeout_ms c) zero_completion d2 = Some (0, aq2, cmd2', cpl2, d3)"
      "in_step heap1 (view d3) aq2" "qpair_live aq2" "top (qpair_pool aq2) = top (qpair_pool aq1)"
      by (rule submit_served [OF r1 s1(2,3) tp1 rd(3)])
    let ?c = "c\<lparr>nc_qids := bm', nc_aq := aq2\<rparr>"
    have "serving heap1 (view d3) ?c"
      using s2(2-4) s1(4) rd(3,4) b(1) found(7) in_step_ok [OF s2(2)]
      by (simp add: serving_def controller_ready_def bar0_mapped_def)
    moreover have "nvme_controller_create_io_qpair dbg hw True c zero_qpair depth heap d = Some (0, ?c, qp, heap1, d3)"
      using found(1,2,6) b(1) i(1) cq sq s1(1) s2(1) by (simp add: nvme_controller_create_io_qpair_def Let_def)
    ultimately show thesis using i(2,5) that by blast
  qed
qed

section \<open>One deletion\<close>

lemma delete_served:
  assumes r: "responsive hw heap view" and c: "serving heap (view d) c" and heap: "heap_owns heap (qpair_mem page qp @ ps)"
    and qp: "qpair_live qp" "unat (qp_qid qp) < 65472" "0 < unat (qp_qid qp)" and room: "room heap m"
  obtains c' qp' heap' d' where "nvme_controller_delete_io_qpair dbg hw c qp heap d = Some (0, c', qp', heap', d')"
    "serving heap' (view d') c'" "room heap' m" "same_heap heap heap'"
proof -
  have rd: "controller_ready c" "in_step heap (view d) (nc_aq c)" "0 < nc_timeout_ms c" "2 \<le> top (qpair_pool (nc_aq c))"
    using c by (simp_all add: serving_def)
  have b: "bar0_mapped c = Some ()" "qpair_live (nc_aq c)" "qid_wf (nc_qids c)"
    using rd(1) by (simp_all add: controller_ready_def)
  let ?q = "ucast (qp_qid qp) :: u16"
  have q: "unat ?q = unat (qp_qid qp)" using qp(2) by (simp add: unsigned_ucast_eq take_bit_eq_mod)
  then have q0: "?q \<noteq> 0" using qp(3) by (metis unat_0 less_irrefl)
  let ?cmd1 = "zero_command\<lparr>cmd_opc := 0x0, cmd_cdw10 := ucast ?q\<rparr>"
  let ?cmd2 = "zero_command\<lparr>cmd_opc := 0x4, cmd_cdw10 := ucast ?q\<rparr>"
  have tp: "0 < top (qpair_pool (nc_aq c))" using rd(4) by simp
  obtain aq1 cmd1' cpl1 d1 where s1:
    "nvme_qpair_submit_sync dbg hw (nc_aq c) ?cmd1 (nc_timeout_ms c) zero_completion d = Some (0, aq1, cmd1', cpl1, d1)"
    "in_step heap (view d1) aq1" "qpair_live aq1" "top (qpair_pool aq1) = top (qpair_pool (nc_aq c))"
    by (rule submit_served [OF r rd(2) b(2) tp rd(3)])
  have tp1: "0 < top (qpair_pool aq1)" using tp s1(4) by simp
  obtain aq2 cmd2' cpl2 d2 where s2:
    "nvme_qpair_submit_sync dbg hw aq1 ?cmd2 (nc_timeout_ms c) zero_completion d1 = Some (0, aq2, cmd2', cpl2, d2)"
    "in_step heap (view d2) aq2" "qpair_live aq2" "top (qpair_pool aq2) = top (qpair_pool aq1)"
    by (rule submit_served [OF r s1(2,3) tp1 rd(3)])
  obtain heap' where h: "nvme_qpair_term qp heap = Some (qp\<lparr>qp_rpool := Dangling\<rparr>, heap')" "same_heap heap heap'" "room heap' m"
    by (rule qpair_term_room [OF heap qp(1) room])
  obtain bm' where bm': "nvme_qid_free (nc_qids c) ?q = Some (0, bm')" "qid_wf bm'"
    by (rule qid_give_back [OF b(3) _ q0]) (use q qp(2) in simp)
  let ?c = "c\<lparr>nc_aq := aq2, nc_qids := bm'\<rparr>"
  have "serving heap' (view d2) ?c"
    using s2(2-4) s1(4) rd(3,4) b(1) bm'(2) in_step_ok [OF s2(2)] in_step_same [OF h(2)]
    by (simp add: serving_def controller_ready_def bar0_mapped_def)
  moreover have "nvme_controller_delete_io_qpair dbg hw c qp heap d = Some (0, ?c, qp\<lparr>qp_rpool := Dangling\<rparr>, heap', d2)"
    using s1(1) s2(1) h(1) bm'(1) by (simp add: nvme_controller_delete_io_qpair_def Let_def)
  ultimately show thesis using h(2,3) that by blast
qed

section \<open>Runs\<close>

text \<open>The queue pairs that a client holds after a run in which everything succeeds, and the creations in it.\<close>

fun held :: "nat \<Rightarrow> io_event list \<Rightarrow> nat" where
  "held n [] = n"
| "held n (Create depth calloc_ok # evs) = held (n + 1) evs"
| "held n (Delete i # evs) = held (if i < n then n - 1 else n) evs"

definition creations :: "io_event list \<Rightarrow> nat" where
  "creations evs = length (filter (\<lambda>ev. \<not> (\<exists>i. ev = Delete i)) evs)"

lemma creations_simps [simp]:
  "creations [] = 0" "creations (Create depth calloc_ok # evs) = creations evs + 1" "creations (Delete i # evs) = creations evs"
  by (simp_all add: creations_def)

text \<open>A state in which everything is well: nothing was lost, the device serves, and \<open>n\<close> more queue pairs fit.\<close>

definition well :: "('d, 'x) dma_hw_scheme \<Rightarrow> ('d \<Rightarrow> ctrlr_view) \<Rightarrow> nat \<Rightarrow> (u64 \<times> nat) list \<Rightarrow> nat \<Rightarrow> 'd io_state \<Rightarrow> bool" where
  "well hw view page ps n s \<longleftrightarrow> io_inv page ps s \<and> responsive hw (st_heap s) view \<and>
     serving (st_heap s) (view (st_dev s)) (st_ctrlr s) \<and> st_lost s = [] \<and> 2 ^ 17 \<le> hpg (st_heap s) \<and>
     room (st_heap s) (n * qpair_cost (st_heap s) + hpg (st_heap s)) \<and> length (st_qps s) + n \<le> 65471"

lemma identifier_left:
  assumes "io_inv page ps s" "length (all_qps s) < 65471"
  shows "\<not> {..<65472} \<subseteq> qid_used (nc_qids (st_ctrlr s))"
proof
  assume "{..<65472} \<subseteq> qid_used (nc_qids (st_ctrlr s))"
  then have "{..<65472} \<subseteq> insert 0 (unat ` qp_qid ` set (all_qps s))" using assms(1) by (simp add: io_inv_def)
  then have "card {..<65472 :: nat} \<le> card (insert 0 (unat ` qp_qid ` set (all_qps s)))" by (rule card_mono [rotated]) simp
  also have "\<dots> \<le> Suc (card (unat ` qp_qid ` set (all_qps s)))" by (rule card_insert_le_m1) simp_all
  also have "card (unat ` qp_qid ` set (all_qps s)) \<le> length (all_qps s)"
    by (metis card_length image_set length_map)
  finally show False using assms(2) by simp
qed

lemma io_step_served:
  assumes w: "well hw view page ps (creations (ev # evs)) s" and hw: "stride_ok hw" and ok: "\<And>depth. ev \<noteq> Create depth False"
  obtains s' where "io_step dbg hw ev s = Some s'" "well hw view page ps (creations evs) s'"
    "held (length (st_qps s')) evs = held (length (st_qps s)) (ev # evs)"
proof -
  let ?c = "st_ctrlr s"
  have i: "io_inv page ps s" "responsive hw (st_heap s) view" "serving (st_heap s) (view (st_dev s)) ?c" "st_lost s = []"
    "2 ^ 17 \<le> hpg (st_heap s)" "room (st_heap s) (creations (ev # evs) * qpair_cost (st_heap s) + hpg (st_heap s))"
    "length (st_qps s) + creations (ev # evs) \<le> 65471"
    using w by (simp_all add: well_def)
  have heap: "qpair_heap (st_heap s)" "heap_owns (st_heap s) (all_mem page s @ ps)" using i(1) by (simp_all add: io_inv_def)
  obtain s' where s': "io_step dbg hw ev s = Some s'" "io_inv page ps s'"
    by (rule io_step_inv [OF i(1) hw, of dbg ev]) (use i(3) in \<open>simp add: serving_def\<close>)
  have still: "well hw view page ps (creations evs) s'"
    if "same_heap (st_heap s) (st_heap s')" "serving (st_heap s') (view (st_dev s')) (st_ctrlr s')" "st_lost s' = []"
      "room (st_heap s') (creations evs * qpair_cost (st_heap s) + hpg (st_heap s))" "length (st_qps s') + creations evs \<le> 65471"
    using that s'(2) i(5) responsive_same [OF that(1) i(2)] by (simp add: well_def same_heap_def qpair_cost_def)
  show thesis
  proof (cases ev)
    case ev: (Create depth calloc_ok)
    have yes: "calloc_ok" using ok ev by (cases calloc_ok) auto
    have le: "qpair_cost (st_heap s) + hpg (st_heap s) \<le> creations (ev # evs) * qpair_cost (st_heap s) + hpg (st_heap s)"
      using ev by simp
    have "\<not> {..<65472} \<subseteq> qid_used (nc_qids ?c)" by (rule identifier_left [OF i(1)]) (use i(4,7) ev in simp)
    then obtain c' qp heap' d' where r:
      "nvme_controller_create_io_qpair dbg hw True ?c zero_qpair depth (st_heap s) (st_dev s) = Some (0, c', qp, heap', d')"
      "serving heap' (view d') c'" "same_heap (st_heap s) heap'"
      "room heap' (creations (ev # evs) * qpair_cost (st_heap s) + hpg (st_heap s) - qpair_cost (st_heap s))"
      by (rule create_served [OF i(2,3) hw heap(2,1) i(6) le i(5)])
    have s: "st_ctrlr s' = c'" "st_qps s' = qp # st_qps s" "st_lost s' = []" "st_heap s' = heap'" "st_dev s' = d'"
      using s'(1) r(1) ev yes i(4) by auto
    have "creations (ev # evs) * qpair_cost (st_heap s) + hpg (st_heap s) - qpair_cost (st_heap s) =
        creations evs * qpair_cost (st_heap s) + hpg (st_heap s)" using ev by simp
    with r(4) have "room heap' (creations evs * qpair_cost (st_heap s) + hpg (st_heap s))" by metis
    then have "well hw view page ps (creations evs) s'" using r(2,3) i(7) ev by (intro still) (simp_all add: s)
    then show thesis using that [OF s'(1)] ev s(2) by simp
  next
    case ev: (Delete n)
    show thesis
    proof (cases "length (st_qps s) \<le> n")
      case True
      with ev s'(1) have "s' = s" by simp
      with ev that [OF s'(1)] w True show thesis by simp
    next
      case False
      then have n: "n < length (st_qps s)" by simp
      let ?qp = "st_qps s ! n"
      have own: "heap_owns (st_heap s) (qpair_mem page ?qp @
          concat (map (qpair_mem page) (take n (st_qps s) @ drop (Suc n) (st_qps s) @ st_lost s)) @ controller_mem page ?c @ ps)"
        using heap(2) heap_owns_perm [OF all_mem_pick [OF n]] by simp
      have live: "qpair_live ?qp" "unat (qp_qid ?qp) < 65472" "0 < unat (qp_qid ?qp)"
        using i(1) n by (simp_all add: io_inv_def)
      obtain c' qp' heap' d' where r:
        "nvme_controller_delete_io_qpair dbg hw ?c ?qp (st_heap s) (st_dev s) = Some (0, c', qp', heap', d')"
        "serving heap' (view d') c'" "room heap' (creations (ev # evs) * qpair_cost (st_heap s) + hpg (st_heap s))"
        "same_heap (st_heap s) heap'"
        by (rule delete_served [OF i(2,3) own live i(6)])
      have s: "st_ctrlr s' = c'" "st_lost s' = []" "st_heap s' = heap'" "st_dev s' = d'" "length (st_qps s') = length (st_qps s) - 1"
        using s'(1) r(1) ev n i(4) by auto
      have "well hw view page ps (creations evs) s'" using r(2-4) i(7) ev by (intro still) (simp_all add: s)
      then show thesis using that [OF s'(1)] ev n s(5) by simp
    qed
  qed
qed

lemma io_run_served:
  assumes "well hw view page ps (creations evs) s" "stride_ok hw" "\<forall>depth. Create depth False \<notin> set evs"
  obtains s' where "io_run dbg hw evs s = Some s'" "well hw view page ps 0 s'" "length (st_qps s') = held (length (st_qps s)) evs"
proof -
  from assms(1,3) have "\<exists>s'. io_run dbg hw evs s = Some s' \<and> well hw view page ps 0 s' \<and> length (st_qps s') = held (length (st_qps s)) evs"
  proof (induction evs arbitrary: s)
    case (Cons ev evs)
    from Cons.prems(2) have "ev \<noteq> Create depth False" for depth by auto
    then obtain s1 where s1: "io_step dbg hw ev s = Some s1" "well hw view page ps (creations evs) s1"
      "held (length (st_qps s1)) evs = held (length (st_qps s)) (ev # evs)"
      by (rule io_step_served [OF Cons.prems(1) assms(2), where dbg = dbg])
    from Cons.IH [OF s1(2)] Cons.prems(2) s1(1,3) show ?case by simp
  qed simp
  with that show thesis by blast
qed


end
