(* ===== verification/Nvme_Driver_Serves.thy ===== *)
theory Nvme_Driver_Serves
  imports Nvme_Responsive_Props
begin

unbundle bit_operations_syntax

text \<open>
  The example driver does its work: on a machine whose kernel grants what it asks for, with a controller that does
  what NVMe prescribes, it ends with status 0.
\<close>

section \<open>A command with a buffer\<close>

lemma submit_contig_served:
  assumes r: "responsive hw heap view" and st: "in_step heap (view d) qp" and live: "qpair_live qp" "0 < top (qpair_pool qp)"
    and t: "0 < t" and buf: "dma_heap heap" "in_heap heap dbuf n"
      "page_count (pg heap) (unat dbuf mod pg heap) (unat n) \<le> 513" "prp_pages hw"
  obtains qp' cmd' cpl' d' where "nvme_qpair_submit_sync_contig_prps dbg hw qp heap dbuf n cmd t cpl d = Some (0, qp', cmd', cpl', d')"
    "in_step heap (view d') qp'" "qpair_live qp'" "top (qpair_pool qp') = top (qpair_pool qp)"
proof -
  obtain cmd1 a l where run: "nvme_qpair_submit_sync_contig_prps dbg hw qp heap dbuf n cmd t cpl d =
      nvme_qpair_submit_sync dbg hw qp cmd1 t cpl (hw_set_list hw d a l)"
    by (rule contig_prepared [OF live buf])
  have "in_step heap (view (hw_set_list hw d a l)) qp" using st by (simp add: responsiveD(6) [OF r])
  then show thesis by (rule submit_served [OF r _ live t, of "hw_set_list hw d a l" dbg cmd1 cpl]) (use that in \<open>auto simp: run\<close>)
qed

section \<open>The driver\<close>

text \<open>The kernel lets the driver that the controller is bound to open it.\<close>

definition driver_grants ::
  "('k, 'x) fs_os_scheme \<Rightarrow> ('k, 'y) vfio_os_scheme \<Rightarrow> string \<Rightarrow> hostmem_heap \<Rightarrow> 'k \<Rightarrow> bool" where
  "driver_grants os vf bdf heap k \<longleftrightarrow> (\<exists>k1.
     device_get_driver_name vf bdf [] 256 k = (0, ''vfio-pci'', k1) \<and> vfio_grants vf bdf heap k1 \<or>
     device_get_driver_name vf bdf [] 256 k = (0, ''uio_pci_generic'', k1) \<and> bus_grants os bdf k1)"

lemma nvme_open_served:
  assumes r: "responsive hw heap view" and law: "fs_lawful os fds maps" "vfio_lawful vf fds maps" "driver_grants os vf bdf heap k"
    and hw: "stride_ok hw" and heap: "heap_owns heap []" "qpair_heap heap" "2 ^ 17 \<le> hpg heap"
    and room: "room heap m" "open_cost heap + hpg heap \<le> m" and nv: "nv_ioq nv = zero_qpair"
  obtains nvme heap' d' k' where "nvme_open dbg hw os vf True nv bdf heap d k = Some (0, nvme, heap', d', k')"
    "serving heap' (view d') (nv_ctrlr nvme)" "same_heap heap heap'" "room heap' (m - open_cost heap)"
    "qid_used (nc_qids (nv_ctrlr nvme)) = {0}" "nv_ioq nvme = zero_qpair"
    "heap_owns heap' (controller_mem (pg heap) (nv_ctrlr nvme))"
proof -
  obtain nvme heap' d' k' where o1: "nvme_open dbg hw os vf True nv bdf heap d k = Some (0, nvme, heap', d', k')"
    "serving heap' (view d') (nv_ctrlr nvme)" "same_heap heap heap'" "room heap' (m - open_cost heap)"
    "qid_used (nc_qids (nv_ctrlr nvme)) = {0}"
  proof -
    from law(3) consider (vfio) k1 where "device_get_driver_name vf bdf [] 256 k = (0, ''vfio-pci'', k1)" "vfio_grants vf bdf heap k1"
      | (sysfs) k1 where "device_get_driver_name vf bdf [] 256 k = (0, ''uio_pci_generic'', k1)" "bus_grants os bdf k1"
      unfolding driver_grants_def by blast
    then show thesis
    proof cases
      case vfio
      obtain c v heap' d' k' where "nvme_controller_open_vfio dbg hw vf True bdf heap d k1 = Some (0, c, v, heap', d', k')"
        "serving heap' (view d') c" "same_heap heap heap'" "room heap' (m - open_cost heap)" "qid_used (nc_qids c) = {0}"
        by (rule open_vfio_served [OF r law(2) vfio(2) hw heap room])
      with vfio(1) show thesis
        by (intro that [of "nv\<lparr>nv_backend := NVME_BACKEND_VFIO, nv_ctrlr := c, nv_vfio := v\<rparr>" heap' d' k'])
          (simp_all add: nvme_open_def)
    next
      case sysfs
      obtain c heap' d' k' where "nvme_controller_open dbg hw os True bdf heap d k1 = Some (0, c, heap', d', k')"
        "serving heap' (view d') c" "same_heap heap heap'" "room heap' (m - open_cost heap)" "qid_used (nc_qids c) = {0}"
        by (rule controller_open_served [OF r law(1) sysfs(2) hw heap room])
      with sysfs(1) show thesis
        by (intro that [of "nv\<lparr>nv_backend := NVME_BACKEND_SYSFS, nv_ctrlr := c\<rparr>" heap' d' k'])
          (simp_all add: nvme_open_def)
    qed
  qed
  from law(1,2) hw heap(1,2) open_room_cost [OF heap(3) room] nv show thesis
  proof (cases rule: nvme_open_result [where dbg = dbg and calloc_aq = True and bdf = bdf and d = d and k = k])
    case (opened nvme2 heap2 d2 k2)
    have "pg heap2 = pg heap" using opened(4) by (simp add: same_heap_def)
    with o1 opened(1,2,3) show thesis by (intro that [OF o1]) (simp_all add: driver_ready_def)
  qed (use o1(1) in simp_all)
qed

lemma nvme_init_served:
  assumes r: "responsive hw heap view" and law: "fs_lawful os fds maps" "vfio_lawful vf fds maps" "driver_grants os vf bdf heap k"
    and hw: "stride_ok hw" "prp_pages hw" and heap: "heap_owns heap []" "qpair_heap heap" "2 ^ 17 \<le> hpg heap" "4096 \<le> pg heap"
    and room: "room heap m" "open_cost heap + qpair_cost heap + hpg heap \<le> m" and nv: "nv_ioq nv = zero_qpair"
  shows "\<exists>nvme heap' d' k'. nvme_init dbg hw os vf True True nv bdf heap d k = Some (0, nvme, heap', d', k')"
proof -
  have le: "open_cost heap + hpg heap \<le> m" using room(2) by simp
  obtain nvme1 heap1 d1 k1 where o1: "nvme_open dbg hw os vf True nv bdf heap d k = Some (0, nvme1, heap1, d1, k1)"
    "serving heap1 (view d1) (nv_ctrlr nvme1)" "same_heap heap heap1" "room heap1 (m - open_cost heap)"
    "qid_used (nc_qids (nv_ctrlr nvme1)) = {0}" "nv_ioq nvme1 = zero_qpair"
    "heap_owns heap1 (controller_mem (pg heap) (nv_ctrlr nvme1))"
    by (rule nvme_open_served [OF r law hw(1) heap(1-3) room(1) le nv])
  let ?c = "nv_ctrlr nvme1"
  have same: "pg heap1 = pg heap" "hpg heap1 = hpg heap" "qpair_cost heap1 = qpair_cost heap"
    using o1(3) by (simp_all add: same_heap_def qpair_cost_def)
  have ok: "qpair_heap heap1" "responsive hw heap1 view" "2 ^ 17 \<le> hpg heap1" "4096 \<le> pg heap1"
    using heap(2-4) qpair_heap_same [OF o1(3)] responsive_same [OF o1(3) r] by (simp_all add: same)
  have dma: "dma_heap heap1" using ok(1) by (simp add: qpair_heap_def)
  have s: "controller_ready ?c" "in_step heap1 (view d1) (nc_aq ?c)" "0 < nc_timeout_ms ?c" "2 \<le> top (qpair_pool (nc_aq ?c))"
    using o1(2) by (simp_all add: serving_def)
  have live: "qpair_live (nc_aq ?c)" "0 < top (qpair_pool (nc_aq ?c))" using s(1,4) by (simp_all add: controller_ready_def)
  obtain aq cmd cpl d2 where id: "nvme_qpair_submit_sync_contig_prps dbg hw (nc_aq ?c) heap1 (nc_buf ?c) 4096
      (zero_command\<lparr>cmd_opc := 0x6, cmd_cdw10 := 1\<rparr>) (nc_timeout_ms ?c) zero_completion d1 = Some (0, aq, cmd, cpl, d2)"
    "in_step heap1 (view d2) aq" "qpair_live aq" "top (qpair_pool aq) = top (qpair_pool (nc_aq ?c))"
    by (rule submit_contig_served [OF ok(2) s(2) live s(3) dma identify_fits [OF o1(7) ok(1,4)] hw(2)])
  let ?c2 = "?c\<lparr>nc_aq := aq\<rparr>"
  have "serving heap1 (view d2) ?c2"
    using s(1,3,4) id(2-4) in_step_ok [OF id(2)] by (simp add: serving_def controller_ready_def bar0_mapped_def)
  moreover have "qpair_cost heap1 + hpg heap1 \<le> m - open_cost heap" using room(2) by (simp add: same)
  moreover have "\<not> {..<65472} \<subseteq> qid_used (nc_qids ?c2)"
  proof
    assume "{..<65472} \<subseteq> qid_used (nc_qids ?c2)"
    then have "(1 :: nat) \<in> {0}" unfolding o1(5) [symmetric] by auto
    then show False by simp
  qed
  ultimately obtain c' q h d' where
    "nvme_controller_create_io_qpair dbg hw True ?c2 zero_qpair 32 heap1 d2 = Some (0, c', q, h, d')"
    by (rule create_served [OF ok(2) _ hw(1) o1(7) ok(1) o1(4) _ ok(3)])
  with o1(1,6) id(1) show ?thesis by (simp add: nvme_init_def Let_def)
qed

lemma driver_room:
  assumes "pg heap = 2 ^ s" "s \<le> 15" "hpg heap = 2097152"
  shows "open_cost heap + qpair_cost heap + hpg heap \<le> 134217728"
proof -
  have "(2 :: nat) ^ s \<le> 2 ^ 15" using assms(2) by (rule power_increasing) simp
  then have p: "pg heap \<le> 32768" by (simp add: assms(1))
  have "page_round (pg heap) 4096 \<le> 4096 + pg heap" using div_times_less_eq_dividend [of "4096 + pg heap - 1" "pg heap"]
    unfolding page_round_def by linarith
  with p show ?thesis by (simp add: open_cost_def qpair_cost_def assms(3) NVME_REQUEST_POOL_LEN_def)
qed


end
