(* ===== verification/Nvme_Responsive_Examples.thy ===== *)
theory Nvme_Responsive_Examples
  imports Nvme_Responsive_Props Pci_Examples
begin

unbundle bit_operations_syntax

text \<open>
  A device that does what NVMe prescribes, so that the liveness of the controller has an instance: its state is the
  view, and the entry it shows at an address is the last completion that belongs there.
\<close>

section \<open>A heap of 128 MiB\<close>

definition large_heap :: hostmem_heap where
  "large_heap = fresh_heap 0x40000000 0x8000000 example_config (map (\<lambda>i. 0x80000000 + of_nat i * 0x200000) [0..<64])"

lemma large_space: "space_ok 0x40000000 (unat (0x8000000 :: u64))"
  by (simp add: space_ok_def)

lemma large_facts:
  "pg large_heap = 4096" "hpg large_heap = 2097152" "virt large_heap = 0x40000000"
  "memsize large_heap = 0x8000000" "nphys large_heap = 64" "page_bits large_heap = 12" "hugepage_bits large_heap = 21"
  by (simp_all add: large_heap_def example_config_def)

lemma large_qpair_heap: "qpair_heap large_heap"
proof -
  have "lut_ok large_heap" unfolding large_heap_def
    by (rule fresh_heap_lut [OF example_config_ok large_space]) (simp add: example_config_def unat_div)
  then show ?thesis by (simp add: qpair_heap_def dma_heap_def large_facts)
qed

lemma large_owns: "heap_owns large_heap []"
  using fresh_heap_live [OF example_config_ok large_space] by (auto simp: heap_owns_def owned_by_def large_heap_def)

lemma large_room: "room large_heap 0x8000000"
  using fresh_heap_room [OF example_config_ok large_space] by (simp add: large_heap_def)

section \<open>The device\<close>

text \<open>The last completion that belongs into the slot \<open>i\<close> of \<open>D\<close>, when there are \<open>k\<close>.\<close>

definition last_in_slot :: "nat \<Rightarrow> nat \<Rightarrow> nat \<Rightarrow> nat" where
  "last_in_slot D k i = k - 1 - (k - 1 + D - i) mod D"

lemma last_in_slot:
  assumes "n < k" "k \<le> n + D"
  shows "last_in_slot D k (n mod D) = n"
proof -
  define e where "e = k - 1 - n"
  have e: "k - 1 = n + e" "e < D" using assms unfolding e_def by linarith+
  have "n + e + D - n mod D = e + D * (n div D + 1)"
    using mod_mult_div_eq [of n D] unfolding distrib_left mult_1_right by linarith
  then have "(n + e + D - n mod D) mod D = e" using e(2) by (simp only: mod_mult_self2 mod_less)
  then show ?thesis by (simp only: last_in_slot_def e(1))
qed

definition proper_entry :: "ctrlr_view \<Rightarrow> u64 \<Rightarrow> nvme_completion" where
  "proper_entry s p = zero_completion\<lparr>cpl_status :=
     of_nat (cq_phase (cv_cqsize s) (last_in_slot (cv_cqsize s) (cv_posted s) (unat (p - cv_acq s) div 16)))\<rparr>"

definition proper_hw :: "hostmem_heap \<Rightarrow> ctrlr_view dma_hw" where
  "proper_hw heap = \<lparr>hw_read32 = (\<lambda>d a. (if a = NVME_REG_CSTS then (if cv_en d then 1 else 0) else if a = NVME_REG_CAP then 0x01000000 else 0, d)),
     hw_write32 = view_write, hw_usleep = (\<lambda>d n. d),
     hw_cqe = (\<lambda>d a. (case hostmem_dma_v2p heap a of None \<Rightarrow> zero_completion | Some p \<Rightarrow> proper_entry d p, d)),
     hw_sqe = (\<lambda>d a c. d), hw_zero = (\<lambda>d a n. d), hw_list = (\<lambda>d a. replicate 512 0), hw_set_list = (\<lambda>d a l. d)\<rparr>"

lemma proper_cap: "fst (nvme_mmio_cap_read (proper_hw heap) d) = 0x01000000"
  by (simp add: nvme_mmio_cap_read_def mmio_defs nvme_reg_offset_defs proper_hw_def Let_def)

lemma proper_stride: "stride_ok (proper_hw heap)"
  by (simp add: stride_ok_def proper_cap nvme_reg_cap_get_dstrd_def bitfield_get_def)

lemma proper_timeout: "nvme_reg_cap_get_to 0x01000000 \<noteq> 0"
  by (simp add: nvme_reg_cap_get_to_def bitfield_get_def bitfield_mask_def)

lemma proper_responsive: "responsive (proper_hw heap) heap (\<lambda>d. d)"
proof -
  have "succeeded (cv_cqsize d) n (fst (hw_cqe (proper_hw heap) d a))"
    if "n < cv_posted d" "cv_posted d \<le> n + cv_cqsize d" "cv_cqsize d \<le> 4096"
      "hostmem_dma_v2p heap a = Some (cv_acq d + 16 * of_nat (n mod cv_cqsize d))" for d n a
  proof -
    have "n mod cv_cqsize d < cv_cqsize d" using that(1,2) by simp
    then have "n mod cv_cqsize d < 4096" using that(3) by linarith
    then have "unat (16 * of_nat (n mod cv_cqsize d) :: u64) div 16 = n mod cv_cqsize d"
      using unat_of_nat_u64 [of "16 * (n mod cv_cqsize d)"] by simp
    then have "fst (hw_cqe (proper_hw heap) d a) = zero_completion\<lparr>cpl_status := of_nat (cq_phase (cv_cqsize d) n)\<rparr>"
      using that(4) last_in_slot [OF that(1,2)] by (simp add: proper_hw_def proper_entry_def)
    then show ?thesis by (simp add: succeeded_def zero_completion_def cq_phase_def)
  qed
  moreover have "snd (hw_cqe (proper_hw heap) d a) = d" for d a by (simp add: proper_hw_def)
  ultimately show ?thesis
    unfolding responsive_def by (simp add: proper_cap proper_timeout) (simp add: proper_hw_def)
qed

section \<open>Opening it\<close>

lemma bus_grants_example: "bus_grants bus_os ''0000:01:00.0'' ([], [])"
proof -
  have "fst (pci_addr_from_text ''0000:01:00.0'' (pf_addr zero_func)) = 0" by code_simp
  then obtain a where "pci_addr_from_text ''0000:01:00.0'' (pf_addr zero_func) = (0, a)" by (metis prod.collapse)
  then show ?thesis
    by (simp add: bus_grants_def pci_func_open_def open_idents_def read_ident_def pci_bar_map_def bus_os_def one_bar_def bar_path_def
        Let_def spare_fd_def)
qed

text \<open>The controller as an earlier user left it: enabled, with queues of its own.\<close>

definition left_on :: ctrlr_view where
  "left_on = \<lparr>cv_en = True, cv_acq = 0x1000, cv_sqsize = 32, cv_cqsize = 32, cv_posted = 7\<rparr>"


end
