(* ===== verification/Nvme_Driver_Serves_Example.thy ===== *)
theory Nvme_Driver_Serves_Example
  imports Nvme_Driver_Serves Nvme_Driver_Examples Nvme_Responsive_Examples
begin

unbundle bit_operations_syntax

text \<open>
  The machine of \<open>Hostmem_Examples\<close> with the device of \<open>Nvme_Responsive_Examples\<close>: the example driver works on it.
\<close>

section \<open>The heap\<close>

definition big_config :: hostmem_config where
  "big_config = \<lparr>hugetlb_path = ''/mnt/huge'', memfd_flags = 4 OR MFD_HUGE_2MB, backend = HOSTMEM_BACKEND_HUGETLBFS, count = 0,
     pagesize = 4096, pagesize_shift = 12, hugepgsz = 2097152, hugepgsz_shift = 21\<rparr>"

lemma machine_config: "hostmem_config_init True machine_os zero_config ([], [], []) = Some (0, big_config, ([], [], []))"
proof -
  have s: "upcie_util_shift_from_size True 4096 = Some 12" "upcie_util_shift_from_size True 2097152 = Some 21"
    using upcie_util_shift_from_size_power [of 12 True] upcie_util_shift_from_size_power [of 21 True] by simp_all
  show ?thesis
    using machine_meminfo
    by (simp add: hostmem_config_init_def hostmem_config_get_hugepgsz_def machine_os_def spare_def spare_fd_def s zero_config_def
        big_config_def Let_def)
qed

lemma machine_hugepages:
  obtains path where "hostmem_hugepage_alloc machine_os 0x8000000 zero_hugepage big_config ([], [], []) = Some (0,
      \<lparr>hp_fd = 1, hp_virt = 0x40000000, hp_size = 0x8000000, hp_phys = 0x140000000, hp_path = path,
        hp_config = Some (big_config\<lparr>hostmem_config.count := 1\<rparr>)\<rparr>,
      big_config\<lparr>hostmem_config.count := 1\<rparr>, ([1], [(0x40000000, 0x8000000)], [path]))"
proof -
  have calls: "pg_create machine_os ([], [], []) path = (Inr 1, ([1], [], [path]))" "pg_truncate machine_os k fd sz = (Inr (), k)"
    "fs_map machine_os ([1], [], g) 1 0x8000000 = (Inr 0x40000000, ([1], [(0x40000000, 0x8000000)], g))"
    "pg_lock machine_os k a sz = (Inr (), k)" "pg_clear machine_os k a sz = k" for path k fd sz a g
    by (simp_all add: machine_os_def spare_fd_def)
  show thesis
    by (rule that [of "hugepage_path big_config"])
      (simp add: hostmem_hugepage_alloc_def hugepage_open_def big_config_def HOSTMEM_BACKEND_MEMFD_def HOSTMEM_BACKEND_HUGETLBFS_def
        Let_def machine_touch machine_page calls zero_hugepage_def)
qed

lemma machine_table:
  assumes "length l = 64" "\<forall>j \<in> set js. j < 64"
  shows "\<exists>l'. lut_loop machine_os 0x40000000 0x200000 js (Some l) (f, m, g) = Some (0, Some l', (f, m, g)) \<and>
    length l' = 64 \<and> (0 \<notin> set js \<longrightarrow> l' ! 0 = l ! 0)"
  using assms
proof (induction js arbitrary: l)
  case (Cons j js)
  have v: "0x40000000 + of_nat j * 0x200000 = of_nat ((0x40000 + 512 * j) * 4096 + 0)" by (simp add: algebra_simps)
  have q: "0x40000 + 512 * j < 2 ^ 40" using Cons.prems(2) by simp
  note page = machine_translates [OF v q, of f m g]
  let ?a = "(of_nat (0x40000 + 512 * j) + 0x100000) * 4096 + of_nat 0"
  have "\<exists>l'. lut_loop machine_os 0x40000000 0x200000 js (Some (l[j := ?a])) (f, m, g) = Some (0, Some l', (f, m, g)) \<and>
      length l' = 64 \<and> (0 \<notin> set js \<longrightarrow> l' ! 0 = l[j := ?a] ! 0)" by (rule Cons.IH) (use Cons.prems in simp_all)
  with page Cons.prems show ?case by (auto simp del: of_nat_add of_nat_0)
qed simp

lemma machine_rte:
  obtains rte path where "rte_init True machine_os zero_rte ([], [], []) = Some (0, rte, ([1], [(0x40000000, 0x8000000)], [path]))"
proof -
  obtain path where a: "hostmem_hugepage_alloc machine_os 0x8000000 zero_hugepage big_config ([], [], []) = Some (0,
      \<lparr>hp_fd = 1, hp_virt = 0x40000000, hp_size = 0x8000000, hp_phys = 0x140000000, hp_path = path,
        hp_config = Some (big_config\<lparr>hostmem_config.count := 1\<rparr>)\<rparr>,
      big_config\<lparr>hostmem_config.count := 1\<rparr>, ([1], [(0x40000000, 0x8000000)], [path]))" by (rule machine_hugepages)
  let ?k = "([1], [(0x40000000, 0x8000000)], [path]) :: machine"
  have hp: "size_of_int (hugepgsz (big_config\<lparr>hostmem_config.count := 1\<rparr>)) = 0x200000" by (simp add: big_config_def)
  have n: "unat (0x8000000 div 0x200000 :: u64) = 64" by simp
  have m: "os_malloc machine_os k = (True, k)" for k by (simp add: machine_os_def)
  have u: "[0..<64] = 0 # [1..<64 :: nat]" by (simp add: upt_rec)
  let ?l0 = "(replicate 64 0)[0 := 0x140000000] :: u64 list"
  obtain l where l: "lut_loop machine_os 0x40000000 0x200000 [1..<64] (Some ?l0) ?k = Some (0, Some l, ?k)" "length l = 64" "l ! 0 = 0x140000000"
    using machine_table [of ?l0 "[1..<64]" "[1]" "[(0x40000000, 0x8000000)]" "[path]"] by auto
  have lut: "lut_loop machine_os 0x40000000 0x200000 [0..<64] (Some (replicate 64 0)) ?k = Some (0, Some l, ?k)"
    unfolding u lut_loop.simps(2) using l(1) by (simp add: machine_page(1))
  let ?memory = "\<lparr>hp_fd = 1, hp_virt = 0x40000000, hp_size = 0x8000000, hp_phys = 0x140000000, hp_path = path,
        hp_config = Some (big_config\<lparr>hostmem_config.count := 1\<rparr>)\<rparr>"
  have "hostmem_heap_init machine_os 0x8000000 big_config ([], [], []) = Some (0, ?memory,
      heap_object ?memory (big_config\<lparr>hostmem_config.count := 1\<rparr>) (0x8000000 div 0x200000)
        [0x40000000 \<mapsto> \<lparr>size' = 0x8000000, free' = True, next' = 0\<rparr>] 0x40000000 (Some l), big_config\<lparr>hostmem_config.count := 1\<rparr>, ?k)"
    unfolding hostmem_heap_init_def a Option.bind.bind_lunit prod.case Let_def m hp hostmem_hugepage.simps n if_True lut
    using l(2,3) by (simp add: array_get_def)
  then show thesis
    by (intro that) (simp add: rte_init_def zero_rte_def machine_config)
qed

section \<open>The controller\<close>

lemma machine_pages:
  "\<forall>j \<in> set js. j < length (phys_lut heap) \<Longrightarrow> map_pages machine_vf cont heap js k = Some (0, k)"
  by (induction js) (simp_all add: vfio_iommu_map_dma_def machine_vf_def)

lemma machine_attach:
  assumes "length (phys_lut heap) = unat (nphys heap)"
  shows "\<exists>v fds'. vfio_attach machine_vf bdf nvme_vfio_ctx_init heap (f, m, g) = Some (0, v, (fds', m, g))"
proof -
  have pages: "vfio_map_heap machine_vf v heap k = Some (0, k)" for v k
    using assms by (simp add: vfio_map_heap_def machine_pages)
  show ?thesis
    unfolding vfio_attach_def pages
    by (simp add: machine_vf_def vfio_device_get_iommu_group_id_def vfio_container_open_def vfio_get_api_version_def
        vfio_check_extension_def vfio_group_open_def vfio_group_get_status_def vfio_group_set_container_def vfio_set_iommu_def
        spare_def Let_def)
qed

lemma machine_bar0: "(0x7F0000000000, 0x4000) \<notin> set m \<Longrightarrow> fst (vfio_bar0 machine_vf bdf c v (f, m, g)) = 0"
  by (simp add: vfio_bar0_def machine_vf_def vfio_group_get_device_fd_def nvme_vfio_pci_bus_master_enable_def vfio_map_region_def
      vfio_device_get_region_info_def spare_def Let_def)

lemma machine_grants:
  assumes "length (phys_lut heap) = unat (nphys heap)"
  shows "driver_grants machine_os machine_vf ''0000:01:00.0'' heap ([1], [(0x40000000, 0x8000000)], [path])"
proof -
  obtain v fds' where a: "vfio_attach machine_vf ''0000:01:00.0'' nvme_vfio_ctx_init heap ([1], [(0x40000000, 0x8000000)], [path]) =
      Some (0, v, (fds', [(0x40000000, 0x8000000)], [path]))" using machine_attach [OF assms] by blast
  have "(0x7F0000000000, 0x4000) \<notin> set [(0x40000000 :: u64, 0x8000000 :: u64)]" by simp
  from machine_bar0 [OF this, of "''0000:01:00.0''" zero_controller v fds' "[path]"] a
  show ?thesis unfolding driver_grants_def vfio_grants_def using machine_driver by blast
qed

lemma proper_pages: "prp_pages (proper_hw heap)"
  by (simp add: prp_pages_def proper_hw_def)


end
