(* ===== verification/Spec2Isabelle.thy ===== *)
theory Spec2Isabelle
  imports Nvme_Regs Nvme_Qid Nvme_Request Nvme_Command Util Hostmem_Props Nvme_Submit Cudamem_Props Cudamem_Mapping_Props Hipmem Nvme_Controller_Cuda_Props Nvme_Cuda_Block_Props Nvme_Driver_Examples Nvme_Driver_Serves_Example
begin

text \<open>
  A verification development for \<open>upcie\<close>, a library of C headers (\<open>include/upcie/\<close>) for user space
  drivers: it allocates memory that a device can access, on hugepages or on a GPU, knows the physical
  address of every byte of it, opens PCI functions through sysfs or VFIO, and drives NVMe
  controllers with commands whose queues and buffers lie in that memory, from the host or from GPU threads.

  \<^bold>\<open>The parts and how they interact.\<close> A driver takes hugepages from the kernel
  (\<open>hostmem_hugepage.h\<close>, \<open>hostmem_config.h\<close>), asks the page table of the process where they are
  (\<open>hostmem.h\<close>), and manages them as a heap of blocks with headers inside it (\<open>hostmem_heap.h\<close>,
  \<open>hostmem_dma.h\<close>). On a GPU the memory comes from the driver of the GPU, its addresses from a dma-buf
  (\<open>dmabuf.h\<close>), and the descriptors of the blocks are host objects (\<open>cudamem_heap.h\<close>, \<open>cudamem_dma.h\<close> and
  the HIP variants); buffers somebody else allocated are registered chunk by chunk
  (\<open>cudamem_mapping.h\<close>, \<open>hipmem_mapping.h\<close>). An NVMe controller (\<open>nvme_controller.h\<close>) is a PCI function
  (\<open>pci.h\<close>) whose registers (\<open>nvme_mmio.h\<close>, \<open>bitfield.h\<close>, \<open>mmio.h\<close>) are in BAR0, an admin queue pair, and
  a bitmap of queue identifiers (\<open>nvme_qid.h\<close>). A queue pair (\<open>nvme_qpair.h\<close>) is two rings on the heap, a
  doorbell each, and a pool of requests (\<open>nvme_request.h\<close>), one per command identifier, with a page for the
  list of physical addresses (PRP) of its buffer. \<open>nvme_controller_vfio.h\<close> opens the controller through
  the calls of \<open>vfioctl.h\<close> instead; \<open>nvme_controller_cuda.h\<close> and \<open>nvme_qpair_cuda.h\<close> put a queue
  pair in the memory of a GPU, where the threads of a block submit a batch together.

  \<^bold>\<open>How C becomes HOL.\<close> The conventions are in \<open>Upcie_Prelude\<close>: words of the width of the C type, \<open>None\<close> for
  a failing \<open>assert\<close> and for undefined behaviour (so a theorem that says \<open>Some\<close> says that neither happens), the
  return code as an \<open>int\<close> with its sign, \<open>Inl\<close> of \<open>errno\<close> for \<open>NULL\<close>. A pointer to a structure is the structure
  passed in and returned; where the C code can use memory after its release, the pointer is a \<open>cptr\<close>
  (\<open>Null\<close>, \<open>Live\<close>, \<open>Dangling\<close>) and a use of a dangling one is \<open>None\<close>. The heap on hugepages has real addresses:
  its blocks are a map from addresses to headers, linked by \<open>next\<close>. Three things lie outside the
  sources and are parameters: the calls into the kernel, the C library and the GPU driver (records of
  functions on a state of the world: \<open>os\<close>, \<open>dmabuf_os\<close>, \<open>gpu_os\<close> in \<open>Os\<close>, \<open>fs_os\<close> in \<open>Text_Io\<close>, \<open>page_os\<close> in
  \<open>Hostmem_Setup\<close>, \<open>vfio_os\<close> in \<open>Vfio\<close>), the hardware (records \<open>hw\<close> in \<open>Mmio\<close>, \<open>dma_hw\<close> in \<open>Nvme_Qpair\<close>, \<open>gpu_hw\<close>
  in \<open>Nvme_Qpair_Cuda\<close>: loads and stores on a device state, the memory of the rings included), and whether
  a \<open>calloc\<close> gives memory. What is assumed of them is named (\<open>os_lawful\<close>, \<open>fs_lawful\<close>, \<open>page_lawful\<close>,
  \<open>vfio_lawful\<close> and their like: a call that fails opens nothing, a close takes away just its descriptor), and
  each has an instance in a witness.

  \<^bold>\<open>The theories.\<close>
  \<^item> \<open>Upcie_Prelude\<close>: types, errno values, lemmas on words, options and lists. \<open>Util\<close>, \<open>Bitfield\<close>, \<open>Mmio\<close>: the
    shift of a page size, the bit fields, the accessors of registers.
  \<^item> Contracts: \<open>First_Fit\<close> (the abstract allocator: blocks that tile an interval, with its invariant, its
    search, its merge), \<open>Dma_Allocator\<close> (locale \<open>dma_allocator\<close>: what a client of any heap relies on),
    \<open>Dma_Translation\<close> (locale \<open>dma_translation\<close>: contiguous page by page), \<open>Id_Pool\<close> (locale \<open>id_pool\<close>:
    identifiers handed out and taken back), \<open>Prp_Builder\<close> (the bodies of the PRP builders, and the locale
    \<open>prp_region\<close> that extends \<open>dma_translation\<close> by what they need), \<open>Mapped_Prps\<close> (locale \<open>page_lookup\<close>).
  \<^item> Hugepages: \<open>Hostmem_Heap\<close> (block list: \<open>alloc_loop\<close>, \<open>coalesce_loop\<close> and the functions around them),
    \<open>Hostmem_Refine\<close> and \<open>Hostmem_Alloc\<close> (they compute what \<open>First_Fit\<close> computes), \<open>Hostmem_Dma\<close> (translation;
    the interpretations \<open>hostmem\<close> and \<open>host\<close>), \<open>Hostmem_Props\<close>; \<open>Hostmem_Setup\<close>, \<open>Hostmem_Setup_Props\<close>,
    \<open>Hostmem_Pagemap\<close>, \<open>Hostmem_Examples\<close> (configuration, hugepages, set-up and tear-down of the heap).
  \<^item> NVMe on the host: \<open>Nvme_Regs\<close>, \<open>Nvme_Command\<close>, \<open>Nvme_Qid\<close> (interpretation \<open>qids\<close>), \<open>Nvme_Request\<close>
    (interpretation \<open>cids\<close>), \<open>Nvme_Prps\<close> (interpretation \<open>buffers\<close>), \<open>Nvme_Qpair\<close>, \<open>Nvme_Qpair_Props\<close>,
    \<open>Nvme_Submit\<close>, \<open>Heap_Owner\<close> (which pointers a queue pair holds), \<open>Nvme_Controller\<close>, \<open>Nvme_Controller_Props\<close>,
    \<open>Nvme_Controller_Runs\<close>.
  \<^item> The world: \<open>Os\<close>, \<open>Text_Io\<close> (the conversions of \<open>scanf\<close> and \<open>printf\<close> that sysfs needs), \<open>Pci\<close>,
    \<open>Pci_Examples\<close>, \<open>Vfio\<close>, \<open>Nvme_Controller_Vfio\<close>, \<open>Nvme_Controller_Vfio_Props\<close>.
  \<^item> GPUs: \<open>Dmabuf\<close>, \<open>Cudamem_Heap\<close>, \<open>Cudamem_Alloc\<close> (interpretation \<open>device\<close>), \<open>Cudamem_Dma\<close> (interpretations
    \<open>device_space\<close>, \<open>device_buffers\<close>), \<open>Cudamem_Props\<close>, \<open>Cudamem_Setup\<close>, \<open>Gpu_Config\<close>, \<open>Cudamem_Mapping\<close>,
    \<open>Cudamem_Mapping_Refs\<close>, \<open>Cudamem_Mapping_Inv\<close>, \<open>Cudamem_Mapping_Runs\<close>, \<open>Cudamem_Mapping_Props\<close>,
    \<open>Nvme_Request_Cuda\<close> (interpretation \<open>mapped\<close>), \<open>Hipmem\<close>, \<open>Nvme_Qpair_Cuda\<close>, \<open>Nvme_Qpair_Cuda_Props\<close>,
    \<open>Nvme_Cuda_Block\<close> (a block of threads as a transition system), \<open>Nvme_Cuda_Block_Props\<close>,
    \<open>Nvme_Controller_Cuda\<close>, \<open>Nvme_Controller_Cuda_Props\<close>.
  \<^item> The whole: \<open>Heap_Room\<close> and \<open>Nvme_Open_Room\<close> (when allocations, queue pairs and controllers cannot fail for
    want of memory), \<open>Nvme_Driver\<close> (\<open>example/upcie_nvme_driver.c\<close>: heap, controller and queue pairs over one
    state of the kernel and one device), \<open>Nvme_Driver_Props\<close>, \<open>Nvme_Driver_Examples\<close>.
  \<^item> Liveness: \<open>Nvme_Responsive\<close> (a controller that does what NVMe prescribes, as a condition \<open>responsive\<close> on the
    hardware parameter and a view of its registers; host and controller in step; a submission succeeds),
    \<open>Nvme_Responsive_Open\<close> (opening succeeds), \<open>Nvme_Responsive_Props\<close> (creations and deletions succeed),
    \<open>Nvme_Responsive_Examples\<close> (such a controller), \<open>Nvme_Driver_Serves\<close> (the driver ends with status 0),
    \<open>Nvme_Driver_Serves_Example\<close> (a machine on which it does).
  A definition has the name of the C function it translates; a part of a function, most often a loop, has a
  name of its own and a sentence on it where it is defined.

  \<^bold>\<open>What is shown.\<close>
  \<^item> Memory. The heaps compute first fit on a list of blocks, whatever sequence of requests and releases; the
    buffers a client holds never overlap, elements of arrays do not straddle physical pages, releases merge.
    A heap that was set up has the addresses the page table reports. The device that a heap is mapped for
    finds every byte where the driver says.
  \<^item> PRP lists. The address that the controller derives for byte \<open>j\<close> of a buffer is its physical address, for
    the host heap, the GPU heap and registered buffers, across pages that are not adjacent.
  \<^item> Queues. Completions are reaped in order and once; the doorbell carries the tail after the command is
    stored; command and queue identifiers in use stay distinct and in range, over any sequence of operations;
    time-outs lose them one by one. On a GPU, a batch does what the host does command by command, and every
    interleaving of a block of threads ends with the stores, the doorbells and the polls in order.
  \<^item> Resources. Opening, failing at any step, and closing give back the memory, the descriptors and the
    mappings, for heaps, queue pairs, controllers (sysfs, VFIO, GPU), BARs, scans and registrations; the leaks
    and dangling pointers the code does have are spelled out as conditions in these theorems.
  \<^item> The program. The example driver, which puts the components together, returns for every kernel, memory and
    device that keep the laws of the parameters, once the unchecked \<open>calloc\<close> of the table of addresses
    gives memory: no assertion fails, nothing is undefined, every descriptor and mapping it made is given back
    but on one path that is spelled out. The heap of 128 MiB has room for all it allocates, so the pointers that
    could be left dangling are not.
  \<^item> Success. All this is not empty: with a kernel that grants what is asked for and a controller that does what NVMe
    prescribes (it is ready when it is enabled, completes with success what the doorbell announces, in the ring
    that its registers name), every admin command succeeds, so opening returns 0, queue pairs can be created and
    deleted as long as the heap has room, and the driver ends with status 0.

  \<^bold>\<open>Loops.\<close> Loops over counts and lists are structural. The loop of the shift ends because a shift by 64 is
  undefined and hence \<open>None\<close>; the searches \<open>ff_alloc\<close> and \<open>device_alloc_loop\<close> have a measure, since each step
  leaves a block behind or cuts a filler off it. The loops that follow \<open>next\<close> through the hugepage heap,
  the pages of an element of a vector, and the wait of a GPU thread against its clock are
  \<open>partial_function (option)\<close>: not returning is \<open>None\<close>, and the theorems show \<open>Some\<close> on
  well-formed heaps, for non-zero pages, and for a clock that advances. The polls of a register or of a
  completion count the milliseconds down that are left, so that recursion is structural too.
  No fuel is needed anywhere. A block of GPU threads is an inductive relation, and that its runs end is a
  theorem.

  \<^bold>\<open>Not modelled.\<close> The barriers (\<open>barriers.h\<close>: inline assembly; the model performs memory accesses in
  program order, so a missing barrier would not be seen); the functions that print structures (\<open>_pp\<close>,
  \<open>_pr\<close>: output only); \<open>memfd_create\<close> as a raw system call (part of the kernel parameter); the two stubs of
  \<open>dmabuf.h\<close> for kernels without udmabuf; the branches of \<open>nvme_qpair_cuda.h\<close> for other compilers than nvcc;
  the umbrella headers; the tests, which exercise the library on hardware; the Python of the
  documentation and test machines. Faults of the hardware are those its parameter allows: any value may
  be read at any time.
\<close>

end
